(* ===== verification/Visor_Prelude.thy ===== *)
theory Visor_Prelude
  imports Complex_Main
begin

text \<open>
  Shared vocabulary of the development.

  Go strings are byte strings, so they are modelled by \<^typ>\<open>string\<close> (a list of 8-bit
  characters). This theory holds the part of Go's standard library that the source calls on
  strings (\<^verbatim>\<open>strings.TrimSpace\<close>, \<^verbatim>\<open>strings.ToLower\<close>, \<^verbatim>\<open>strings.EqualFold\<close>,
  \<^verbatim>\<open>strings.Contains\<close>, \<^verbatim>\<open>strings.Index\<close>, \<^verbatim>\<open>strings.SplitN\<close>, \<^verbatim>\<open>strconv.Itoa\<close>), decoded JSON
  values, the go_env record of library functions that stay parameters of the model
  (operator-written regular expressions, \<^verbatim>\<open>filepath.Match\<close>, date parsing, the calendar), and
  the lemmas on lists and options that the component theories share.

  Case folding: the ASCII letters are folded as Go does, and so are the non-ASCII code
  points whose fold or lower case is an ASCII letter (U+017F, U+212A, U+0130), because those can
  be mistaken for an ASCII alias. Other non-ASCII letters are left as they are.
\<close>

named_theorems visor_defs \<open>definitions unfolded by most component proofs\<close>
named_theorems visor_split \<open>case splits of the decision types\<close>

section \<open>Byte strings\<close>

definition byte :: "char \<Rightarrow> nat" where
  "byte c = of_char c"

definition is_upper_ascii :: "char \<Rightarrow> bool" where
  "is_upper_ascii c \<longleftrightarrow> 65 \<le> byte c \<and> byte c \<le> 90"

definition is_lower_ascii :: "char \<Rightarrow> bool" where
  "is_lower_ascii c \<longleftrightarrow> 97 \<le> byte c \<and> byte c \<le> 122"

definition is_digit_ascii :: "char \<Rightarrow> bool" where
  "is_digit_ascii c \<longleftrightarrow> 48 \<le> byte c \<and> byte c \<le> 57"

definition ascii_lower :: "char \<Rightarrow> char" where
  "ascii_lower c = (if is_upper_ascii c then char_of (byte c + 32) else c)"

text \<open>Does the string start with these bytes?\<close>

fun starts_with :: "string \<Rightarrow> string \<Rightarrow> bool" where
  "starts_with [] s = True"
| "starts_with (p # ps) [] = False"
| "starts_with (p # ps) (c # s) = (p = c \<and> starts_with ps s)"

text \<open>\<^verbatim>\<open>strings.ToLower\<close>: U+212A (Kelvin sign) lowers to k, U+0130 to i.\<close>

fun to_lower :: "string \<Rightarrow> string" where
  "to_lower [] = []"
| "to_lower (c # s) =
     (if starts_with [CHR 0xE2, CHR 0x84, CHR 0xAA] (c # s) then CHR ''k'' # to_lower (drop 2 s)
      else if starts_with [CHR 0xC4, CHR 0xB0] (c # s) then CHR ''i'' # to_lower (drop 1 s)
      else ascii_lower c # to_lower s)"

text \<open>The canonical simple fold behind \<^verbatim>\<open>strings.EqualFold\<close> and the \<^verbatim>\<open>(?i)\<close> flag:
  U+212A folds to k, U+017F to s.\<close>

fun fold_runes :: "string \<Rightarrow> string" where
  "fold_runes [] = []"
| "fold_runes (c # s) =
     (if starts_with [CHR 0xE2, CHR 0x84, CHR 0xAA] (c # s) then CHR ''k'' # fold_runes (drop 2 s)
      else if starts_with [CHR 0xC5, CHR 0xBF] (c # s) then CHR ''s'' # fold_runes (drop 1 s)
      else ascii_lower c # fold_runes s)"

definition equal_fold :: "string \<Rightarrow> string \<Rightarrow> bool" where
  "equal_fold a b \<longleftrightarrow> fold_runes a = fold_runes b"

text \<open>The width in bytes of a leading Unicode space (0 if there is none), and the same at the
  end of a string, given reversed.\<close>

definition ascii_space :: "char \<Rightarrow> bool" where
  "ascii_space c \<longleftrightarrow> byte c = 32 \<or> (9 \<le> byte c \<and> byte c \<le> 13)"

definition wide_spaces :: "string list" where
  "wide_spaces =
     [[CHR 0xC2, CHR 0x85], [CHR 0xC2, CHR 0xA0], [CHR 0xE1, CHR 0x9A, CHR 0x80],
      [CHR 0xE2, CHR 0x80, CHR 0x80], [CHR 0xE2, CHR 0x80, CHR 0x81], [CHR 0xE2, CHR 0x80, CHR 0x82],
      [CHR 0xE2, CHR 0x80, CHR 0x83], [CHR 0xE2, CHR 0x80, CHR 0x84], [CHR 0xE2, CHR 0x80, CHR 0x85],
      [CHR 0xE2, CHR 0x80, CHR 0x86], [CHR 0xE2, CHR 0x80, CHR 0x87], [CHR 0xE2, CHR 0x80, CHR 0x88],
      [CHR 0xE2, CHR 0x80, CHR 0x89], [CHR 0xE2, CHR 0x80, CHR 0x8A], [CHR 0xE2, CHR 0x80, CHR 0xA8],
      [CHR 0xE2, CHR 0x80, CHR 0xA9], [CHR 0xE2, CHR 0x80, CHR 0xAF], [CHR 0xE2, CHR 0x81, CHR 0x9F],
      [CHR 0xE3, CHR 0x80, CHR 0x80]]"

definition space_width :: "string list \<Rightarrow> string \<Rightarrow> nat" where
  "space_width wides s =
     (case s of [] \<Rightarrow> 0
      | c # _ \<Rightarrow> if ascii_space c then 1
               else if byte c < 128 then 0
               else (case find (\<lambda>w. starts_with w s) wides of None \<Rightarrow> 0 | Some w \<Rightarrow> length w))"

function trim_left :: "string list \<Rightarrow> string \<Rightarrow> string" where
  "trim_left wides s =
     (if s \<noteq> [] \<and> 0 < space_width wides s then trim_left wides (drop (space_width wides s) s)
      else s)"
  by pat_completeness auto
termination
  by (relation "measure (\<lambda>(w, s). length s)") auto

declare trim_left.simps [simp del]

definition trim_space :: "string \<Rightarrow> string" where
  "trim_space s = rev (trim_left (map rev wide_spaces) (rev (trim_left wide_spaces s)))"

text \<open>\<^verbatim>\<open>strings.Contains\<close>, \<^verbatim>\<open>strings.ContainsAny\<close>, \<^verbatim>\<open>strings.Index\<close> (as an option) and the
  two-way split of \<^verbatim>\<open>strings.SplitN(s, sep, 2)\<close> for a one-byte separator.\<close>

fun str_contains :: "string \<Rightarrow> string \<Rightarrow> bool" where
  "str_contains [] sub = (sub = [])"
| "str_contains (c # s) sub = (starts_with sub (c # s) \<or> str_contains s sub)"

definition contains_any :: "string \<Rightarrow> string \<Rightarrow> bool" where
  "contains_any s cs \<longleftrightarrow> list_ex (\<lambda>c. c \<in> set cs) s"

fun str_index :: "string \<Rightarrow> string \<Rightarrow> nat option" where
  "str_index [] sub = (if sub = [] then Some 0 else None)"
| "str_index (c # s) sub =
     (if starts_with sub (c # s) then Some 0 else map_option Suc (str_index s sub))"

definition split_once :: "char \<Rightarrow> string \<Rightarrow> (string \<times> string) option" where
  "split_once sep s =
     (case dropWhile (\<lambda>c. c \<noteq> sep) s of [] \<Rightarrow> None | _ # t \<Rightarrow> Some (takeWhile (\<lambda>c. c \<noteq> sep) s, t))"

text \<open>\<^verbatim>\<open>strconv.Itoa\<close> and the \<^verbatim>\<open>%d\<close> verb.\<close>

fun nat_to_string :: "nat \<Rightarrow> string" where
  "nat_to_string n =
     (if n < 10 then [char_of (48 + n)] else nat_to_string (n div 10) @ [char_of (48 + n mod 10)])"

declare nat_to_string.simps [simp del]

definition itoa :: "int \<Rightarrow> string" where
  "itoa i = (if i < 0 then ''-'' @ nat_to_string (nat (- i)) else nat_to_string (nat i))"

text \<open>The \<^verbatim>\<open>%q\<close> verb on printable ASCII: double quotes around, quote and backslash escaped.\<close>

definition go_quote :: "string \<Rightarrow> string" where
  "go_quote s =
     [CHR 0x22] @ concat (map (\<lambda>c. if c = CHR 0x22 \<or> c = CHR 0x5C then [CHR 0x5C, c] else [c]) s)
       @ [CHR 0x22]"

definition join_strings :: "string \<Rightarrow> string list \<Rightarrow> string" where
  "join_strings sep xs = (case xs of [] \<Rightarrow> [] | x # ys \<Rightarrow> x @ concat (map (\<lambda>y. sep @ y) ys))"

section \<open>Shared list and option facts\<close>

lemma find_SomeD: "find P xs = Some x \<Longrightarrow> P x \<and> x \<in> set xs"
  by (induction xs) (auto split: if_splits)

lemma find_None_iff_all: "find P xs = None \<longleftrightarrow> (\<forall>x\<in>set xs. \<not> P x)"
  by (induction xs) auto

lemma find_key_None: "k \<notin> key ` set xs \<Longrightarrow> find (\<lambda>x. key x = k) xs = None"
  by (induction xs) auto

lemma find_False [simp]: "find (\<lambda>x. False) xs = None"
  by (induction xs) auto

lemma find_distinct_key:
  assumes "distinct (map key vs)" and "v \<in> set vs"
  shows "find (\<lambda>w. key w = key v) vs = Some v"
  using assms by (induction vs) (auto simp: image_iff)

lemma equal_fold_refl [simp]: "equal_fold a a"
  by (simp add: equal_fold_def)

lemma equal_fold_sym: "equal_fold a b \<Longrightarrow> equal_fold b a"
  by (simp add: equal_fold_def)

lemma equal_fold_trans: "equal_fold a b \<Longrightarrow> equal_fold b c \<Longrightarrow> equal_fold a c"
  by (simp add: equal_fold_def)

text \<open>
  A table built from a list of records under a string key: building fails on a duplicate key (or
  a malformed entry), and a built table answers a lookup with the entry of that key. The indexes
  of the lineage registry and of the provenance graph are tables in this sense.
\<close>

locale keyed_table =
  fixes key :: "'v \<Rightarrow> string"
    and build :: "'v list \<Rightarrow> 'e + 't"
    and lookup :: "'t \<Rightarrow> string \<Rightarrow> 'v option"
  assumes build_distinct: "build vs = Inr t \<Longrightarrow> distinct (map key vs)"
    and build_lookup: "build vs = Inr t \<Longrightarrow> lookup t k = find (\<lambda>v. key v = k) vs"
begin

lemma lookup_SomeD:
  assumes "build vs = Inr t" and "lookup t k = Some v"
  shows "key v = k \<and> v \<in> set vs"
  using assms build_lookup [OF assms(1)] by (auto dest: find_SomeD)

lemma lookup_entry:
  assumes "build vs = Inr t" and "v \<in> set vs"
  shows "lookup t (key v) = Some v"
  using assms build_lookup [OF assms(1)] find_distinct_key [OF build_distinct] by metis

lemma lookup_None_iff:
  assumes "build vs = Inr t"
  shows "lookup t k = None \<longleftrightarrow> k \<notin> key ` set vs"
  using build_lookup [OF assms] by (auto simp: find_None_iff_all)

end

section \<open>Decoded JSON\<close>

text \<open>A value of Go type \<^verbatim>\<open>any\<close> decoded by \<^verbatim>\<open>encoding/json\<close>. A number is the exact value of the
  float64. An object is an association list: its keys are distinct after decoding, and the order
  of the list is the (unspecified) iteration order of the Go map.\<close>

datatype json =
    JNull
  | JBool bool
  | JNum rat
  | JStr string
  | JArr "json list"
  | JObj "(string \<times> json) list"

type_synonym args = "(string \<times> json) list"

text \<open>The raw \<^verbatim>\<open>arguments\<close> member of a request: absent, not JSON, or a JSON value.\<close>

datatype raw_json = RawEmpty | RawInvalid | RawJson json

definition extractArgs :: "raw_json \<Rightarrow> args option" where
  "extractArgs raw =
     (case raw of
        RawEmpty \<Rightarrow> None
      | RawInvalid \<Rightarrow> None
      | RawJson v \<Rightarrow> (case v of JObj m \<Rightarrow> Some m | _ \<Rightarrow> None))"

text \<open>Reading a key of a possibly nil Go map.\<close>

definition arg_lookup :: "args option \<Rightarrow> string \<Rightarrow> json option" where
  "arg_lookup args k = (case args of None \<Rightarrow> None | Some m \<Rightarrow> map_of m k)"

section \<open>Library functions that stay parameters\<close>

text \<open>
  \<^item> regexp_match is \<^verbatim>\<open>regexp.MatchString\<close> on an operator-written expression, false when the
    expression does not compile (the source drops the error);
  \<^item> filepath_match is \<^verbatim>\<open>filepath.Match\<close>, false on a malformed pattern;
  \<^item> parse_rfc3339 and parse_rfc3339_nano are \<^verbatim>\<open>time.Parse\<close> with those layouts, an instant being
    the number of nanoseconds since the Unix epoch;
  \<^item> float_overflow is the value of \<^verbatim>\<open>int(v)\<close> for a float64 outside the range of int64, which
    the Go specification leaves to the implementation;
  \<^item> location_ok, weekday_of and day_time are \<^verbatim>\<open>time.LoadLocation\<close>, the lower-case week day of
    an instant in a location, and the instant of \<open>hh:mm\<close> on the day of an instant in a location
    (the location named by the empty string is \<^verbatim>\<open>time.Local\<close>).
\<close>

record go_env =
  regexp_match :: "string \<Rightarrow> string \<Rightarrow> bool"
  filepath_match :: "string \<Rightarrow> string \<Rightarrow> bool"
  parse_rfc3339 :: "string \<Rightarrow> int option"
  parse_rfc3339_nano :: "string \<Rightarrow> int option"
  float_overflow :: "rat \<Rightarrow> int"
  location_ok :: "string \<Rightarrow> bool"
  weekday_of :: "string \<Rightarrow> int \<Rightarrow> string"
  day_time :: "string \<Rightarrow> int \<Rightarrow> nat \<Rightarrow> nat \<Rightarrow> int"

text \<open>\<^verbatim>\<open>int(v)\<close> on a float64: truncation towards zero inside the range of int64.\<close>

definition float_to_int :: "go_env \<Rightarrow> rat \<Rightarrow> int" where
  "float_to_int E r =
     (let i = (if 0 \<le> r then \<lfloor>r\<rfloor> else \<lceil>r\<rceil>)
      in if - (2 ^ 63) \<le> i \<and> i < 2 ^ 63 then i else float_overflow E r)"

text \<open>A concrete environment for the witnesses: expressions and globs match only themselves, an
  RFC 3339 date is read as the number of its characters, the clock runs in UTC from a Monday.\<close>

definition example_env :: go_env where
  "example_env =
     \<lparr>regexp_match = (\<lambda>p s. p = ''(?i)'' @ s \<or> p = ''(?i)^'' @ s @ ''$''),
      filepath_match = (\<lambda>p s. p = s),
      parse_rfc3339 = (\<lambda>s. if s = [] then None else Some (int (length s))),
      parse_rfc3339_nano = (\<lambda>s. if s = [] then None else Some (int (length s))),
      float_overflow = (\<lambda>r. - (2 ^ 63)),
      location_ok = (\<lambda>l. l = ''UTC''),
      weekday_of = (\<lambda>l n. ''monday''),
      day_time = (\<lambda>l n h m. int (60 * h + m) * 60000000000)\<rparr>"

end
