(* ===== verification/Lineage.thy ===== *)
theory Lineage
  imports Visor_Prelude
begin

text \<open>
  Agent-identity lineage (\<^verbatim>\<open>src/internal/lineage\<close>): the registry of agents, authority grants and
  trajectories, its fail-closed construction (\<^verbatim>\<open>NewRegistry\<close>, \<^verbatim>\<open>detectAgentCycles\<close>,
  \<^verbatim>\<open>walkToRoot\<close>) and the three-stage check of a call (\<^verbatim>\<open>ValidateAt\<close>). Where the code ranges over a
  Go map, the model ranges over the list the map was filled from: the keys are distinct, and which
  of several errors is reported first is the only thing the order decides.
\<close>

section \<open>Data\<close>

record agent_identity =
  ai_instance_id :: string
  ai_parent_agent_id :: string
  ai_human_principal_id :: string
  ai_created_at :: string
  ai_expiry :: string

record authority_grant =
  gr_grant_id :: string
  gr_issuer :: string
  gr_subject_agent_id :: string
  gr_parent_grant_id :: string
  gr_capabilities :: "string list"
  gr_resource_scope :: "string list"
  gr_issued_at :: string
  gr_expiry :: string

record trajectory =
  tr_trajectory_id :: string
  tr_actor_agent_id :: string
  tr_grant_id :: string
  tr_capability :: string
  tr_server :: string
  tr_tool :: string
  tr_resource_scope :: "string list"
  tr_effect :: string
  tr_prior_state_hash :: string

record envelope =
  env_actor_agent_id :: string
  env_grant_id :: string
  env_capability :: string
  env_resource :: string
  env_effect :: string
  env_prior_state_hash :: string
  env_trajectory_id :: string
  env_server :: string
  env_tool :: string

record evidence =
  ev_actor_agent_id :: string
  ev_parent_agent_id :: string
  ev_human_principal_id :: string
  ev_grant_id :: string
  ev_grant_chain :: "string list"
  ev_capability :: string
  ev_resource :: string
  ev_effect :: string
  ev_trajectory_id :: string
  ev_prior_state_hash :: string
  ev_rule :: string

record registry =
  reg_agents :: "string \<rightharpoonup> agent_identity"
  reg_grants :: "string \<rightharpoonup> authority_grant"
  reg_trajectories :: "string \<rightharpoonup> trajectory"

record lineage_decision =
  ld_allow :: bool
  ld_reason :: string

definition ReasonUnregisteredPrincipal :: string where
  "ReasonUnregisteredPrincipal = ''lineage:unregistered-principal''"

definition ReasonDelegationCeiling :: string where
  "ReasonDelegationCeiling = ''lineage:delegation-ceiling-violation''"

definition ReasonTrajectoryMismatch :: string where
  "ReasonTrajectoryMismatch = ''lineage:trajectory-mismatch''"

datatype interval_error = EmptyTime | UnparseableTime string | StartNotBeforeExpiry

datatype lineage_error =
    AgentIdRequired nat
  | DuplicateAgent string
  | HumanRequired string
  | AgentInterval string interval_error
  | SelfParentingAgent string
  | ParentAgentNotRegistered string string
  | AgentCycle string
  | GrantIdRequired nat
  | DuplicateGrant string
  | IssuerRequired string
  | SubjectRequired string
  | SubjectNotRegistered string string
  | CapabilitiesRequired string
  | ResourceScopeRequired string
  | EmptyCapability string
  | EmptyResource string
  | GrantInterval string interval_error
  | SelfParentingGrant string
  | RootIssuerIsAgent string
  | RootIssuerNotHuman string string
  | RootSubjectNotRoot string string
  | ParentGrantNotRegistered string string
  | IssuerNotAgent string string
  | IssuerNotParentSubject string string
  | GrantCycle string
  | MissingAncestor string string
  | ChainTooDeep string
  | TrajectoryIdRequired nat
  | DuplicateTrajectory string
  | TrajectoryActor string string
  | TrajectoryGrant string string
  | TrajectorySubject string
  | TrajectoryFieldsRequired string
  | TrajectoryScopeRequired string
  | TrajectoryEffectRequired string
  | TrajectoryNotCovered string

section \<open>Helpers of the registry\<close>

definition parseTime :: "go_env \<Rightarrow> string \<Rightarrow> interval_error + int" where
  "parseTime E s =
     (if trim_space s = '''' then Inl EmptyTime
      else case parse_rfc3339 E s of
             Some t \<Rightarrow> Inr t
           | None \<Rightarrow> (case parse_rfc3339_nano E s of Some t \<Rightarrow> Inr t | None \<Rightarrow> Inl (UnparseableTime s)))"

definition validInterval :: "go_env \<Rightarrow> string \<Rightarrow> string \<Rightarrow> interval_error + unit" where
  "validInterval E start expiry =
     (case parseTime E start of
        Inl e \<Rightarrow> Inl e
      | Inr s \<Rightarrow> (case parseTime E expiry of
                   Inl e \<Rightarrow> Inl e
                 | Inr e \<Rightarrow> if \<not> s < e then Inl StartNotBeforeExpiry else Inr ()))"

definition inInterval :: "go_env \<Rightarrow> string \<Rightarrow> string \<Rightarrow> int \<Rightarrow> bool" where
  "inInterval E start expiry now =
     (case (parseTime E start, parseTime E expiry) of
        (Inr s, Inr e) \<Rightarrow> \<not> now < s \<and> now < e
      | _ \<Rightarrow> False)"

definition exactSubset :: "string list \<Rightarrow> string list \<Rightarrow> bool" where
  "exactSubset need have =
     (if need = [] then False
      else let st = filter (\<lambda>h. h \<noteq> '''') have
           in list_all (\<lambda>n. n \<noteq> '''' \<and> List.member st n) need)"

definition containsExact :: "string list \<Rightarrow> string \<Rightarrow> bool" where
  "containsExact have need = (if need = '''' then False else list_ex (\<lambda>h. h = need) have)"

definition coveredByChain :: "authority_grant list \<Rightarrow> string \<Rightarrow> string list \<Rightarrow> bool" where
  "coveredByChain chain cap resources =
     (if cap = '''' \<or> resources = [] then False
      else list_all (\<lambda>g. containsExact (gr_capabilities g) cap
                       \<and> list_all (containsExact (gr_resource_scope g)) resources) chain)"

definition maxGrantDepth :: nat where
  "maxGrantDepth = 32"

text \<open>\<^verbatim>\<open>walkToRoot\<close>: at most maxGrantDepth turns of the loop; acc holds the grants leaf first.\<close>

fun walk_loop ::
    "(string \<rightharpoonup> authority_grant) \<Rightarrow> string \<Rightarrow> nat \<Rightarrow> string list \<Rightarrow> authority_grant list \<Rightarrow> string
       \<Rightarrow> lineage_error + authority_grant list" where
  "walk_loop gs gid 0 seen acc cur = Inl (ChainTooDeep gid)"
| "walk_loop gs gid (Suc n) seen acc cur =
     (if cur = '''' then Inl (ChainTooDeep gid)
      else if List.member seen cur then Inl (GrantCycle gid)
      else case gs cur of
             None \<Rightarrow> Inl (MissingAncestor gid cur)
           | Some g \<Rightarrow>
               if gr_parent_grant_id g = '''' then Inr (rev (acc @ [g]))
               else walk_loop gs gid n (cur # seen) (acc @ [g]) (gr_parent_grant_id g))"

definition walkToRoot :: "registry \<Rightarrow> string \<Rightarrow> lineage_error + authority_grant list" where
  "walkToRoot r gid = walk_loop (reg_grants r) gid maxGrantDepth [] [] gid"

text \<open>\<^verbatim>\<open>detectAgentCycles\<close>: a depth-first visit along the parent pointers with three colours.\<close>

datatype colour = White | Gray | Black

definition find_agent :: "agent_identity list \<Rightarrow> string \<Rightarrow> agent_identity option" where
  "find_agent as i = find (\<lambda>a. ai_instance_id a = i) as"

lemma white_count_decreases:
  assumes "color i = White" and "find_agent as i = Some a"
  shows "length (filter (\<lambda>b. (color(i := Gray)) (ai_instance_id b) = White) as)
       < length (filter (\<lambda>b. color (ai_instance_id b) = White) as)"
proof -
  from assms(2) have a: "a \<in> set as" "ai_instance_id a = i"
    by (auto simp: find_agent_def dest: find_SomeD)
  have "filter (\<lambda>b. (color(i := Gray)) (ai_instance_id b) = White) as
      = filter (\<lambda>b. ai_instance_id b \<noteq> i) (filter (\<lambda>b. color (ai_instance_id b) = White) as)"
    by (simp add: conj_commute) (rule filter_cong, auto)
  moreover have "a \<in> set (filter (\<lambda>b. color (ai_instance_id b) = White) as)"
    using a assms(1) by simp
  ultimately show ?thesis
    using a(2) by (metis (mono_tags, lifting) length_filter_less)
qed

function visit ::
    "agent_identity list \<Rightarrow> (string \<Rightarrow> colour) \<Rightarrow> string \<Rightarrow> lineage_error + (string \<Rightarrow> colour)" where
  "visit as color i =
     (case color i of
        Gray \<Rightarrow> Inl (AgentCycle i)
      | Black \<Rightarrow> Inr color
      | White \<Rightarrow>
          (case find_agent as i of
             None \<Rightarrow> Inr (color(i := Gray, i := Black))
           | Some a \<Rightarrow>
               if ai_parent_agent_id a \<noteq> '''' then
                 (case visit as (color(i := Gray)) (ai_parent_agent_id a) of
                    Inl e \<Rightarrow> Inl e
                  | Inr color' \<Rightarrow> Inr (color'(i := Black)))
               else Inr (color(i := Gray, i := Black))))"
  by pat_completeness auto

termination
  by (relation "measure (\<lambda>(as, color, i). length (filter (\<lambda>b. color (ai_instance_id b) = White) as))")
     (auto simp: white_count_decreases simp del: fun_upd_apply)

declare visit.simps [simp del]

fun visit_all ::
    "agent_identity list \<Rightarrow> (string \<Rightarrow> colour) \<Rightarrow> agent_identity list
       \<Rightarrow> lineage_error + (string \<Rightarrow> colour)" where
  "visit_all as color [] = Inr color"
| "visit_all as color (b # bs) =
     (case visit as color (ai_instance_id b) of
        Inl e \<Rightarrow> Inl e
      | Inr color' \<Rightarrow> visit_all as color' bs)"

definition detectAgentCycles :: "agent_identity list \<Rightarrow> lineage_error + unit" where
  "detectAgentCycles as =
     (case visit_all as (\<lambda>_. White) as of Inl e \<Rightarrow> Inl e | Inr _ \<Rightarrow> Inr ())"

section \<open>Building the registry\<close>

text \<open>The first loop of \<^verbatim>\<open>NewRegistry\<close>: the agents, one by one, into the index.\<close>

fun index_agents ::
    "go_env \<Rightarrow> nat \<Rightarrow> (string \<rightharpoonup> agent_identity) \<Rightarrow> agent_identity list
       \<Rightarrow> lineage_error + (string \<rightharpoonup> agent_identity)" where
  "index_agents E i m [] = Inr m"
| "index_agents E i m (a # as) =
     (if trim_space (ai_instance_id a) = '''' then Inl (AgentIdRequired i)
      else if m (ai_instance_id a) \<noteq> None then Inl (DuplicateAgent (ai_instance_id a))
      else if trim_space (ai_human_principal_id a) = '''' then Inl (HumanRequired (ai_instance_id a))
      else case validInterval E (ai_created_at a) (ai_expiry a) of
             Inl e \<Rightarrow> Inl (AgentInterval (ai_instance_id a) e)
           | Inr _ \<Rightarrow>
               if ai_parent_agent_id a = ai_instance_id a
               then Inl (SelfParentingAgent (ai_instance_id a))
               else index_agents E (Suc i) (m(ai_instance_id a \<mapsto> a)) as)"

fun check_agent_parents ::
    "(string \<rightharpoonup> agent_identity) \<Rightarrow> agent_identity list \<Rightarrow> lineage_error + unit" where
  "check_agent_parents m [] = Inr ()"
| "check_agent_parents m (a # as) =
     (if ai_parent_agent_id a \<noteq> '''' \<and> m (ai_parent_agent_id a) = None
      then Inl (ParentAgentNotRegistered (ai_instance_id a) (ai_parent_agent_id a))
      else check_agent_parents m as)"

fun index_grants ::
    "go_env \<Rightarrow> (string \<rightharpoonup> agent_identity) \<Rightarrow> nat \<Rightarrow> (string \<rightharpoonup> authority_grant) \<Rightarrow> authority_grant list
       \<Rightarrow> lineage_error + (string \<rightharpoonup> authority_grant)" where
  "index_grants E am i m [] = Inr m"
| "index_grants E am i m (g # gs) =
     (if trim_space (gr_grant_id g) = '''' then Inl (GrantIdRequired i)
      else if m (gr_grant_id g) \<noteq> None then Inl (DuplicateGrant (gr_grant_id g))
      else if trim_space (gr_issuer g) = '''' then Inl (IssuerRequired (gr_grant_id g))
      else if trim_space (gr_subject_agent_id g) = '''' then Inl (SubjectRequired (gr_grant_id g))
      else if am (gr_subject_agent_id g) = None
      then Inl (SubjectNotRegistered (gr_grant_id g) (gr_subject_agent_id g))
      else if gr_capabilities g = [] then Inl (CapabilitiesRequired (gr_grant_id g))
      else if gr_resource_scope g = [] then Inl (ResourceScopeRequired (gr_grant_id g))
      else if list_ex (\<lambda>c. trim_space c = '''') (gr_capabilities g)
      then Inl (EmptyCapability (gr_grant_id g))
      else if list_ex (\<lambda>c. trim_space c = '''') (gr_resource_scope g)
      then Inl (EmptyResource (gr_grant_id g))
      else case validInterval E (gr_issued_at g) (gr_expiry g) of
             Inl e \<Rightarrow> Inl (GrantInterval (gr_grant_id g) e)
           | Inr _ \<Rightarrow>
               if gr_parent_grant_id g = gr_grant_id g then Inl (SelfParentingGrant (gr_grant_id g))
               else index_grants E am (Suc i) (m(gr_grant_id g \<mapsto> g)) gs)"

definition check_grant_link ::
    "agent_identity list \<Rightarrow> (string \<rightharpoonup> agent_identity) \<Rightarrow> (string \<rightharpoonup> authority_grant) \<Rightarrow> authority_grant
       \<Rightarrow> lineage_error + unit" where
  "check_grant_link agents am gm g =
     (if gr_parent_grant_id g = '''' then
        (if am (gr_issuer g) \<noteq> None then Inl (RootIssuerIsAgent (gr_grant_id g))
         else if gr_issuer g \<notin> ai_human_principal_id ` set agents
         then Inl (RootIssuerNotHuman (gr_grant_id g) (gr_issuer g))
         else if (case am (gr_subject_agent_id g) of None \<Rightarrow> False | Some a \<Rightarrow> ai_parent_agent_id a \<noteq> '''')
         then Inl (RootSubjectNotRoot (gr_grant_id g) (gr_subject_agent_id g))
         else Inr ())
      else case gm (gr_parent_grant_id g) of
             None \<Rightarrow> Inl (ParentGrantNotRegistered (gr_grant_id g) (gr_parent_grant_id g))
           | Some parent \<Rightarrow>
               if am (gr_issuer g) = None then Inl (IssuerNotAgent (gr_grant_id g) (gr_issuer g))
               else if gr_issuer g \<noteq> gr_subject_agent_id parent
               then Inl (IssuerNotParentSubject (gr_grant_id g) (gr_issuer g))
               else Inr ())"

fun check_grant_links ::
    "agent_identity list \<Rightarrow> (string \<rightharpoonup> agent_identity) \<Rightarrow> (string \<rightharpoonup> authority_grant)
       \<Rightarrow> authority_grant list \<Rightarrow> lineage_error + unit" where
  "check_grant_links agents am gm [] = Inr ()"
| "check_grant_links agents am gm (g # gs) =
     (case check_grant_link agents am gm g of
        Inl e \<Rightarrow> Inl e
      | Inr _ \<Rightarrow> check_grant_links agents am gm gs)"

fun check_walks :: "registry \<Rightarrow> authority_grant list \<Rightarrow> lineage_error + unit" where
  "check_walks r [] = Inr ()"
| "check_walks r (g # gs) =
     (case walkToRoot r (gr_grant_id g) of Inl e \<Rightarrow> Inl e | Inr _ \<Rightarrow> check_walks r gs)"

definition check_trajectory :: "registry \<Rightarrow> nat \<Rightarrow> trajectory \<Rightarrow> lineage_error + unit" where
  "check_trajectory r i tr =
     (if trim_space (tr_trajectory_id tr) = '''' then Inl (TrajectoryIdRequired i)
      else if reg_trajectories r (tr_trajectory_id tr) \<noteq> None
      then Inl (DuplicateTrajectory (tr_trajectory_id tr))
      else if reg_agents r (tr_actor_agent_id tr) = None
      then Inl (TrajectoryActor (tr_trajectory_id tr) (tr_actor_agent_id tr))
      else case reg_grants r (tr_grant_id tr) of
             None \<Rightarrow> Inl (TrajectoryGrant (tr_trajectory_id tr) (tr_grant_id tr))
           | Some grant \<Rightarrow>
               if gr_subject_agent_id grant \<noteq> tr_actor_agent_id tr
               then Inl (TrajectorySubject (tr_trajectory_id tr))
               else if trim_space (tr_capability tr) = '''' \<or> trim_space (tr_server tr) = ''''
                       \<or> trim_space (tr_tool tr) = ''''
               then Inl (TrajectoryFieldsRequired (tr_trajectory_id tr))
               else if tr_resource_scope tr = [] then Inl (TrajectoryScopeRequired (tr_trajectory_id tr))
               else if trim_space (tr_effect tr) = '''' \<or> trim_space (tr_prior_state_hash tr) = ''''
               then Inl (TrajectoryEffectRequired (tr_trajectory_id tr))
               else case walkToRoot r (tr_grant_id tr) of
                      Inl e \<Rightarrow> Inl e
                    | Inr chain \<Rightarrow>
                        if \<not> coveredByChain chain (tr_capability tr) (tr_resource_scope tr)
                        then Inl (TrajectoryNotCovered (tr_trajectory_id tr))
                        else Inr ())"

fun index_trajectories :: "registry \<Rightarrow> nat \<Rightarrow> trajectory list \<Rightarrow> lineage_error + registry" where
  "index_trajectories r i [] = Inr r"
| "index_trajectories r i (tr # trs) =
     (case check_trajectory r i tr of
        Inl e \<Rightarrow> Inl e
      | Inr _ \<Rightarrow>
          index_trajectories
            (r\<lparr>reg_trajectories := (reg_trajectories r)(tr_trajectory_id tr \<mapsto> tr)\<rparr>) (Suc i) trs)"

definition NewRegistry ::
    "go_env \<Rightarrow> agent_identity list \<Rightarrow> authority_grant list \<Rightarrow> trajectory list
       \<Rightarrow> lineage_error + registry" where
  "NewRegistry E agents grants trajectories =
     (case index_agents E 0 Map.empty agents of
        Inl e \<Rightarrow> Inl e
      | Inr am \<Rightarrow>
     (case check_agent_parents am agents of
        Inl e \<Rightarrow> Inl e
      | Inr _ \<Rightarrow>
     (case detectAgentCycles agents of
        Inl e \<Rightarrow> Inl e
      | Inr _ \<Rightarrow>
     (case index_grants E am 0 Map.empty grants of
        Inl e \<Rightarrow> Inl e
      | Inr gm \<Rightarrow>
     (case check_grant_links agents am gm grants of
        Inl e \<Rightarrow> Inl e
      | Inr _ \<Rightarrow>
          let r = \<lparr>reg_agents = am, reg_grants = gm, reg_trajectories = Map.empty\<rparr>
          in (case check_walks r grants of
                Inl e \<Rightarrow> Inl e
              | Inr _ \<Rightarrow> index_trajectories r 0 trajectories))))))"

section \<open>Validating a call\<close>

definition stringField :: "args \<Rightarrow> string \<Rightarrow> string" where
  "stringField m k = (case map_of m k of Some (JStr s) \<Rightarrow> s | _ \<Rightarrow> '''')"

definition EnvelopeFromArgs :: "string \<Rightarrow> string \<Rightarrow> string \<Rightarrow> args option \<Rightarrow> envelope" where
  "EnvelopeFromArgs actor server tool args =
     (let env = \<lparr>env_actor_agent_id = actor, env_grant_id = '''', env_capability = '''',
                 env_resource = '''', env_effect = '''', env_prior_state_hash = '''',
                 env_trajectory_id = '''', env_server = server, env_tool = tool\<rparr>
      in case arg_lookup args ''_lineage'' of
           Some (JObj m) \<Rightarrow>
             env\<lparr>env_grant_id := stringField m ''grant_id'',
                 env_capability := stringField m ''capability'',
                 env_resource := stringField m ''resource'',
                 env_effect := stringField m ''effect'',
                 env_prior_state_hash := stringField m ''prior_state_hash'',
                 env_trajectory_id := stringField m ''trajectory_id''\<rparr>
         | _ \<Rightarrow> env)"

definition ceiling_result :: "evidence \<Rightarrow> lineage_decision \<times> evidence" where
  "ceiling_result ev =
     (\<lparr>ld_allow = False, ld_reason = ReasonDelegationCeiling\<rparr>, ev\<lparr>ev_rule := ReasonDelegationCeiling\<rparr>)"

definition mismatch_result :: "evidence \<Rightarrow> lineage_decision \<times> evidence" where
  "mismatch_result ev =
     (\<lparr>ld_allow = False, ld_reason = ReasonTrajectoryMismatch\<rparr>, ev\<lparr>ev_rule := ReasonTrajectoryMismatch\<rparr>)"

text \<open>The body of the loop over the grant chain: prev is the parent grant (None at index 0).\<close>

definition chain_link_ok ::
    "go_env \<Rightarrow> registry \<Rightarrow> int \<Rightarrow> string \<Rightarrow> envelope \<Rightarrow> authority_grant option \<Rightarrow> authority_grant \<Rightarrow> bool" where
  "chain_link_ok E r now human env prev g =
     (if \<not> inInterval E (gr_issued_at g) (gr_expiry g) now then False
      else case reg_agents r (gr_subject_agent_id g) of
             None \<Rightarrow> False
           | Some subject \<Rightarrow>
               if \<not> inInterval E (ai_created_at subject) (ai_expiry subject) now
                  \<or> ai_human_principal_id subject \<noteq> human
               then False
               else (case prev of
                       None \<Rightarrow>
                         \<not> (gr_parent_grant_id g \<noteq> '''' \<or> gr_issuer g \<noteq> human)
                         \<and> reg_agents r (gr_issuer g) = None
                         \<and> ai_parent_agent_id subject = ''''
                     | Some parent \<Rightarrow>
                         gr_issuer g = gr_subject_agent_id parent
                         \<and> exactSubset (gr_capabilities g) (gr_capabilities parent)
                         \<and> exactSubset (gr_resource_scope g) (gr_resource_scope parent)
                         \<and> (case reg_agents r (gr_issuer g) of
                              None \<Rightarrow> False
                            | Some ia \<Rightarrow> inInterval E (ai_created_at ia) (ai_expiry ia) now
                                       \<and> ai_human_principal_id ia = human)
                         \<and> ai_parent_agent_id subject = gr_issuer g)
                    \<and> containsExact (gr_capabilities g) (env_capability env)
                    \<and> containsExact (gr_resource_scope g) (env_resource env))"

fun chain_ok ::
    "go_env \<Rightarrow> registry \<Rightarrow> int \<Rightarrow> string \<Rightarrow> envelope \<Rightarrow> authority_grant option \<Rightarrow> authority_grant list \<Rightarrow> bool"
    where
  "chain_ok E r now human env prev [] = True"
| "chain_ok E r now human env prev (g # gs) =
     (chain_link_ok E r now human env prev g \<and> chain_ok E r now human env (Some g) gs)"

definition trajectory_matches :: "trajectory \<Rightarrow> envelope \<Rightarrow> bool" where
  "trajectory_matches tr env \<longleftrightarrow>
     \<not> (tr_actor_agent_id tr \<noteq> env_actor_agent_id env
        \<or> tr_grant_id tr \<noteq> env_grant_id env
        \<or> tr_capability tr \<noteq> env_capability env
        \<or> tr_server tr \<noteq> env_server env
        \<or> tr_tool tr \<noteq> env_tool env
        \<or> tr_effect tr \<noteq> env_effect env
        \<or> tr_prior_state_hash tr \<noteq> env_prior_state_hash env
        \<or> \<not> containsExact (tr_resource_scope tr) (env_resource env))"

definition ValidateAt ::
    "go_env \<Rightarrow> envelope \<Rightarrow> registry option \<Rightarrow> int \<Rightarrow> lineage_decision \<times> evidence" where
  "ValidateAt E env regopt now =
     (let ev = \<lparr>ev_actor_agent_id = env_actor_agent_id env, ev_parent_agent_id = '''',
                ev_human_principal_id = '''', ev_grant_id = env_grant_id env, ev_grant_chain = [],
                ev_capability = env_capability env, ev_resource = env_resource env,
                ev_effect = env_effect env, ev_trajectory_id = env_trajectory_id env,
                ev_prior_state_hash = env_prior_state_hash env, ev_rule = ''''\<rparr>;
          unregistered = (\<lparr>ld_allow = False, ld_reason = ReasonUnregisteredPrincipal\<rparr>,
                          ev\<lparr>ev_rule := ReasonUnregisteredPrincipal\<rparr>)
      in case regopt of
           None \<Rightarrow> unregistered
         | Some r \<Rightarrow>
         (case reg_agents r (env_actor_agent_id env) of
            None \<Rightarrow> unregistered
          | Some actor \<Rightarrow>
              if \<not> inInterval E (ai_created_at actor) (ai_expiry actor) now then unregistered
              else
                let ev1 = ev\<lparr>ev_parent_agent_id := ai_parent_agent_id actor,
                             ev_human_principal_id := ai_human_principal_id actor\<rparr>
                in case reg_grants r (env_grant_id env) of
                     None \<Rightarrow> ceiling_result ev1
                   | Some grant \<Rightarrow>
                       if \<not> inInterval E (gr_issued_at grant) (gr_expiry grant) now
                          \<or> gr_subject_agent_id grant \<noteq> env_actor_agent_id env
                       then ceiling_result ev1
                       else case walkToRoot r (env_grant_id env) of
                              Inl _ \<Rightarrow> ceiling_result ev1
                            | Inr chain \<Rightarrow>
                                if chain = [] \<or> \<not> chain_ok E r now (ai_human_principal_id actor) env None chain
                                then ceiling_result ev1
                                else
                                  let ev2 = ev1\<lparr>ev_grant_chain := map gr_grant_id chain\<rparr>
                                  in if env_trajectory_id env = '''' then mismatch_result ev2
                                     else case reg_trajectories r (env_trajectory_id env) of
                                            None \<Rightarrow> mismatch_result ev2
                                          | Some tr \<Rightarrow>
                                              if \<not> trajectory_matches tr env then mismatch_result ev2
                                              else (\<lparr>ld_allow = True, ld_reason = ''''\<rparr>,
                                                    ev2\<lparr>ev_rule := ''lineage_require''\<rparr>)))"

section \<open>Agent cycles\<close>

text \<open>An identifier is rooted when following parent pointers from it ends at a root agent (or at
  an identifier that is not an agent).\<close>

inductive rooted :: "agent_identity list \<Rightarrow> string \<Rightarrow> bool" for as where
  rooted_unknown: "find_agent as i = None \<Longrightarrow> rooted as i"
| rooted_root: "find_agent as i = Some a \<Longrightarrow> ai_parent_agent_id a = '''' \<Longrightarrow> rooted as i"
| rooted_parent: "find_agent as i = Some a \<Longrightarrow> rooted as (ai_parent_agent_id a) \<Longrightarrow> rooted as i"

definition parent_of :: "agent_identity list \<Rightarrow> string \<Rightarrow> string \<Rightarrow> bool" where
  "parent_of as i j \<longleftrightarrow>
     (\<exists>a. find_agent as i = Some a \<and> ai_parent_agent_id a \<noteq> [] \<and> j = ai_parent_agent_id a)"

lemma visit_rooted:
  assumes "visit as color i = Inr color'" and "\<And>x. color x = Black \<Longrightarrow> rooted as x"
  shows "color' i = Black \<and> (\<forall>x. color' x = Black \<longrightarrow> rooted as x)
       \<and> (\<forall>x. color x = Black \<longrightarrow> color' x = Black)"
  using assms
proof (induction as color i arbitrary: color' rule: visit.induct)
  case (1 as color i)
  show ?case
  proof (cases "color i")
    case White
    show ?thesis
    proof (cases "find_agent as i")
      case None
      with White 1(2,3) show ?thesis
        by (auto simp: visit.simps [of as color i] split: if_splits intro: rooted_unknown)
    next
      case (Some a)
      show ?thesis
      proof (cases "ai_parent_agent_id a = ''''")
        case True
        with White Some 1(2,3) show ?thesis
          by (auto simp: visit.simps [of as color i] split: if_splits intro: rooted_root)
      next
        case False
        with White Some 1(2)
        have "(case visit as (color(i := Gray)) (ai_parent_agent_id a) of
                 Inl e \<Rightarrow> Inl e | Inr c2 \<Rightarrow> Inr (c2(i := Black))) = Inr color'"
          by (simp add: visit.simps [of as color i])
        then obtain c2
          where v: "visit as (color(i := Gray)) (ai_parent_agent_id a) = Inr c2"
            and c': "color' = c2(i := Black)"
          by (cases "visit as (color(i := Gray)) (ai_parent_agent_id a)") simp_all
        have g: "rooted as x" if "(color(i := Gray)) x = Black" for x
          using that by (intro 1(3)) (simp split: if_splits)
        have IH: "c2 (ai_parent_agent_id a) = Black \<and> (\<forall>x. c2 x = Black \<longrightarrow> rooted as x)
            \<and> (\<forall>x. (color(i := Gray)) x = Black \<longrightarrow> c2 x = Black)"
          by (rule 1(1) [OF White Some False v g])
        then have "rooted as i" using Some by (blast intro: rooted_parent)
        with IH c' White show ?thesis by auto
      qed
    qed
  next
    case Gray
    with 1(2) show ?thesis by (simp add: visit.simps [of as color i])
  next
    case Black
    with 1(2,3) show ?thesis by (simp add: visit.simps [of as color i])
  qed
qed

lemma visit_all_rooted:
  assumes "visit_all as color bs = Inr color'" and "\<And>x. color x = Black \<Longrightarrow> rooted as x"
  shows "(\<forall>b\<in>set bs. rooted as (ai_instance_id b)) \<and> (\<forall>x. color' x = Black \<longrightarrow> rooted as x)"
  using assms
proof (induction bs arbitrary: color)
  case Nil
  then show ?case by simp
next
  case (Cons b bs)
  from Cons.prems(1) obtain c1 where v: "visit as color (ai_instance_id b) = Inr c1"
    and rest: "visit_all as c1 bs = Inr color'"
    by (auto split: sum.splits)
  from visit_rooted [OF v Cons.prems(2)]
  have c1: "c1 (ai_instance_id b) = Black" "\<And>x. c1 x = Black \<Longrightarrow> rooted as x" by auto
  from Cons.IH [OF rest c1(2)] c1 show ?case by auto
qed

lemma rooted_not_own_ancestor: "rooted as i \<Longrightarrow> \<not> (parent_of as)\<^sup>+\<^sup>+ i i"
proof (induction rule: rooted.induct)
  case (rooted_unknown i)
  then show ?case by (auto simp: parent_of_def dest!: tranclpD)
next
  case (rooted_root i a)
  then show ?case by (auto simp: parent_of_def dest!: tranclpD)
next
  case (rooted_parent i a)
  show ?case
  proof
    assume "(parent_of as)\<^sup>+\<^sup>+ i i"
    then obtain z where z: "parent_of as i z" "(parent_of as)\<^sup>*\<^sup>* z i" by (blast dest: tranclpD)
    with rooted_parent(1) have "z = ai_parent_agent_id a" by (auto simp: parent_of_def)
    with z have "(parent_of as)\<^sup>+\<^sup>+ (ai_parent_agent_id a) (ai_parent_agent_id a)"
      by (blast intro: rtranclp_into_tranclp1)
    with rooted_parent.IH show False ..
  qed
qed

text \<open>Completeness: while visiting, the grey identifiers are descendants of the current one, so a
  grey hit is a cycle.\<close>

lemma visit_total:
  assumes "\<And>x. rooted as x" and "\<And>x. color x = Gray \<Longrightarrow> (parent_of as)\<^sup>+\<^sup>+ x i"
  shows "\<exists>color'. visit as color i = Inr color' \<and> (\<forall>x. color' x = Gray \<longrightarrow> color x = Gray \<and> x \<noteq> i)"
  using assms
proof (induction as color i rule: visit.induct)
  case (1 as color i)
  show ?case
  proof (cases "color i")
    case White
    show ?thesis
    proof (cases "\<exists>a. find_agent as i = Some a \<and> ai_parent_agent_id a \<noteq> []")
      case False
      with White show ?thesis
        by (auto simp: visit.simps [of as color i] split: option.splits)
    next
      case True
      then obtain a where a: "find_agent as i = Some a" "ai_parent_agent_id a \<noteq> []" by blast
      then have p: "parent_of as i (ai_parent_agent_id a)" by (auto simp: parent_of_def)
      have "\<And>x. (color(i := Gray)) x = Gray \<Longrightarrow> (parent_of as)\<^sup>+\<^sup>+ x (ai_parent_agent_id a)"
        using 1(3) p by (auto split: if_splits intro: tranclp.r_into_trancl tranclp.trancl_into_trancl)
      from 1(1) [OF White a 1(2) this] obtain c2
        where "visit as (color(i := Gray)) (ai_parent_agent_id a) = Inr c2"
          "\<forall>x. c2 x = Gray \<longrightarrow> (color(i := Gray)) x = Gray \<and> x \<noteq> ai_parent_agent_id a" by blast
      with White a show ?thesis by (auto simp: visit.simps [of as color i] split: if_splits)
    qed
  next
    case Gray
    then have "(parent_of as)\<^sup>+\<^sup>+ i i" by (rule 1(3))
    with rooted_not_own_ancestor [OF 1(2)] show ?thesis by blast
  next
    case Black
    then show ?thesis by (auto simp: visit.simps [of as color i])
  qed
qed

lemma visit_all_total:
  assumes "\<And>x. rooted as x" and "\<And>x. color x \<noteq> Gray"
  shows "\<exists>color'. visit_all as color bs = Inr color'"
  using assms(2)
proof (induction bs arbitrary: color)
  case Nil
  then show ?case by simp
next
  case (Cons b bs)
  from visit_total [OF assms(1), of color "ai_instance_id b"] Cons.prems obtain c1
    where c1: "visit as color (ai_instance_id b) = Inr c1" "\<And>x. c1 x \<noteq> Gray" by blast
  from Cons.IH [OF c1(2)] c1(1) show ?case by auto
qed

lemma rooted_everywhere:
  assumes "\<forall>a\<in>set as. rooted as (ai_instance_id a)"
  shows "rooted as x"
proof (cases "find_agent as x")
  case None
  then show ?thesis by (rule rooted_unknown)
next
  case (Some a)
  then have "a \<in> set as \<and> ai_instance_id a = x" by (auto simp: find_agent_def dest: find_SomeD)
  with assms show ?thesis by auto
qed

lemma detectAgentCycles_rooted_iff:
  "detectAgentCycles as = Inr () \<longleftrightarrow> (\<forall>a\<in>set as. rooted as (ai_instance_id a))"
proof
  assume "detectAgentCycles as = Inr ()"
  then obtain c where "visit_all as (\<lambda>_. White) as = Inr c"
    by (auto simp: detectAgentCycles_def split: sum.splits)
  from visit_all_rooted [OF this] show "\<forall>a\<in>set as. rooted as (ai_instance_id a)" by simp
next
  assume "\<forall>a\<in>set as. rooted as (ai_instance_id a)"
  then have "\<And>x. rooted as x" by (rule rooted_everywhere)
  from visit_all_total [OF this, of "\<lambda>_. White" as] show "detectAgentCycles as = Inr ()"
    by (auto simp: detectAgentCycles_def)
qed

section \<open>The indexes of the registry\<close>

lemma index_agents_table:
  assumes "index_agents E i m as = Inr m'"
  shows "distinct (map ai_instance_id as) \<and> (\<forall>a\<in>set as. m (ai_instance_id a) = None)
       \<and> (\<forall>k. m' k = (case find (\<lambda>a. ai_instance_id a = k) as of None \<Rightarrow> m k | Some a \<Rightarrow> Some a))"
  using assms
proof (induction E i m as rule: index_agents.induct)
  case (1 E i m)
  then show ?case by simp
next
  case (2 E i m a as)
  from 2(2) obtain u where c: "\<not> trim_space (ai_instance_id a) = []" "m (ai_instance_id a) = None"
    "\<not> trim_space (ai_human_principal_id a) = []"
    "validInterval E (ai_created_at a) (ai_expiry a) = Inr u"
    "ai_parent_agent_id a \<noteq> ai_instance_id a"
    and r: "index_agents E (Suc i) (m(ai_instance_id a \<mapsto> a)) as = Inr m'"
    by (auto split: if_splits sum.splits)
  from 2(1) [OF c(1) _ c(3) c(4) c(5) r] c(2)
  have IH: "distinct (map ai_instance_id as)"
    "\<forall>b\<in>set as. (m(ai_instance_id a \<mapsto> a)) (ai_instance_id b) = None"
    "\<forall>k. m' k = (case find (\<lambda>a. ai_instance_id a = k) as of
                   None \<Rightarrow> (m(ai_instance_id a \<mapsto> a)) k | Some a \<Rightarrow> Some a)"
    by simp_all
  from IH(2) have n: "\<forall>b\<in>set as. ai_instance_id b \<noteq> ai_instance_id a"
    by (auto split: if_splits)
  with IH c(2) show ?case
    by (auto simp: find_None_iff_all image_iff dest: find_SomeD split: if_splits option.splits)
qed

interpretation agent_index: keyed_table ai_instance_id "index_agents E 0 Map.empty" "\<lambda>m k. m k" for E
  by unfold_locales (auto dest: index_agents_table split: option.splits)

lemma index_grants_table:
  assumes "index_grants E am i m gs = Inr m'"
  shows "distinct (map gr_grant_id gs) \<and> (\<forall>g\<in>set gs. m (gr_grant_id g) = None)
       \<and> (\<forall>k. m' k = (case find (\<lambda>g. gr_grant_id g = k) gs of None \<Rightarrow> m k | Some g \<Rightarrow> Some g))
       \<and> (\<forall>g\<in>set gs. gr_grant_id g \<noteq> [])"
  using assms
proof (induction gs arbitrary: i m)
  case Nil
  then show ?case by simp
next
  case (Cons g gs)
  from Cons.prems have c: "trim_space (gr_grant_id g) \<noteq> []" "m (gr_grant_id g) = None"
    and r: "index_grants E am (Suc i) (m(gr_grant_id g \<mapsto> g)) gs = Inr m'"
    by (auto split: if_splits sum.splits)
  have ne: "gr_grant_id g \<noteq> []"
    using c(1) by (auto simp: trim_space_def trim_left.simps)
  from Cons.IH [OF r]
  have IH: "distinct (map gr_grant_id gs)"
    "\<forall>b\<in>set gs. (m(gr_grant_id g \<mapsto> g)) (gr_grant_id b) = None"
    "\<forall>k. m' k = (case find (\<lambda>g. gr_grant_id g = k) gs of
                   None \<Rightarrow> (m(gr_grant_id g \<mapsto> g)) k | Some g \<Rightarrow> Some g)"
    "\<forall>b\<in>set gs. gr_grant_id b \<noteq> []"
    by simp_all
  from IH(2) have n: "\<forall>b\<in>set gs. gr_grant_id b \<noteq> gr_grant_id g"
    by (auto split: if_splits)
  with IH c(2) ne show ?case
    by (auto simp: find_None_iff_all image_iff dest: find_SomeD split: if_splits option.splits)
qed

interpretation grant_index: keyed_table gr_grant_id "index_grants E am 0 Map.empty" "\<lambda>m k. m k" for E am
  by unfold_locales (auto dest: index_grants_table split: option.splits)

section \<open>Walking a grant to its root\<close>

text \<open>The reference: a leaf-first path of grants, each the parent of the one before, ending at a
  root grant.\<close>

fun leaf_path :: "(string \<rightharpoonup> authority_grant) \<Rightarrow> string \<Rightarrow> authority_grant list \<Rightarrow> bool" where
  "leaf_path gs cur [] = False"
| "leaf_path gs cur (g # path) =
     (gs cur = Some g
      \<and> (if path = [] then gr_parent_grant_id g = []
         else gr_parent_grant_id g \<noteq> [] \<and> leaf_path gs (gr_parent_grant_id g) path))"

definition path_keys :: "string \<Rightarrow> authority_grant list \<Rightarrow> string list" where
  "path_keys cur path = cur # map gr_parent_grant_id (butlast path)"

lemma leaf_path_unique: "leaf_path gs cur p \<Longrightarrow> leaf_path gs cur q \<Longrightarrow> p = q"
proof (induction p arbitrary: cur q)
  case Nil
  then show ?case by simp
next
  case (Cons g p)
  then obtain q' where q: "q = g # q'" by (cases q) auto
  with Cons.prems have "p = [] \<longleftrightarrow> q' = []" by (auto split: if_splits)
  with Cons q show ?case by (auto split: if_splits)
qed

lemma leaf_path_suffix:
  "leaf_path gs cur p \<Longrightarrow> k \<in> set (path_keys cur p) \<Longrightarrow>
   \<exists>q. leaf_path gs k q \<and> length q \<le> length p \<and> (k = cur \<or> length q < length p)"
proof (induction p arbitrary: cur)
  case Nil
  then show ?case by simp
next
  case (Cons g p)
  show ?case
  proof (cases "k = cur")
    case True
    with Cons.prems show ?thesis by blast
  next
    case False
    with Cons.prems have p: "p \<noteq> []" "leaf_path gs (gr_parent_grant_id g) p"
      "k \<in> set (path_keys (gr_parent_grant_id g) p)"
      by (auto simp: path_keys_def split: if_splits)
    from Cons.IH [OF p(2,3)] show ?thesis by fastforce
  qed
qed

lemma walk_loop_iff:
  assumes "cur \<noteq> []"
  shows "walk_loop gs gid n seen acc cur = Inr chain \<longleftrightarrow>
     (\<exists>path. leaf_path gs cur path \<and> length path \<le> n \<and> chain = rev (acc @ path)
           \<and> set (path_keys cur path) \<inter> set seen = {})"
  using assms
proof (induction n arbitrary: seen acc cur)
  case 0
  show ?case by (auto simp: path_keys_def)
next
  case (Suc n)
  show ?case
  proof (cases "cur \<in> set seen \<or> gs cur = None")
    case True
    then show ?thesis using Suc.prems
      by (auto simp: path_keys_def elim!: leaf_path.elims)
  next
    case False
    then obtain g where g: "gs cur = Some g" "cur \<notin> set seen" by blast
    show ?thesis
    proof (cases "gr_parent_grant_id g = []")
      case True
      then have "leaf_path gs cur path \<longleftrightarrow> path = [g]" for path
        using g by (cases path) auto
      with True g Suc.prems show ?thesis by (auto simp: path_keys_def)
    next
      case p: False
      have step: "leaf_path gs cur path \<longleftrightarrow> (\<exists>q. path = g # q \<and> leaf_path gs (gr_parent_grant_id g) q)" for path
        using g p by (cases path) (auto split: if_splits)
      have keys: "set (path_keys cur (g # q)) = insert cur (set (path_keys (gr_parent_grant_id g) q))"
        if "leaf_path gs (gr_parent_grant_id g) q" for q
        using that by (cases q) (auto simp: path_keys_def)
      have fresh: "cur \<notin> set (path_keys (gr_parent_grant_id g) q)"
        if q: "leaf_path gs (gr_parent_grant_id g) q" for q
      proof
        assume "cur \<in> set (path_keys (gr_parent_grant_id g) q)"
        from leaf_path_suffix [OF q this] obtain r where "leaf_path gs cur r" "length r \<le> length q" by blast
        moreover have "leaf_path gs cur (g # q)" using step q by blast
        ultimately have "r = g # q" by (blast dest: leaf_path_unique)
        with \<open>length r \<le> length q\<close> show False by simp
      qed
      have "walk_loop gs gid (Suc n) seen acc cur
          = walk_loop gs gid n (cur # seen) (acc @ [g]) (gr_parent_grant_id g)"
        using g p Suc.prems by simp
      also have "\<dots> = Inr chain \<longleftrightarrow>
          (\<exists>q. leaf_path gs (gr_parent_grant_id g) q \<and> length q \<le> n \<and> chain = rev (acc @ [g] @ q)
             \<and> set (path_keys (gr_parent_grant_id g) q) \<inter> set (cur # seen) = {})"
        using Suc.IH [OF p] by simp
      also have "\<dots> \<longleftrightarrow> (\<exists>path. leaf_path gs cur path \<and> length path \<le> Suc n
          \<and> chain = rev (acc @ path) \<and> set (path_keys cur path) \<inter> set seen = {})"
        using step keys fresh g(2) by fastforce
      finally show ?thesis .
    qed
  qed
qed

lemma walk_loop_empty: "walk_loop gs gid n seen acc [] \<noteq> Inr chain"
  by (cases n) auto

lemma walkToRoot_iff:
  "walkToRoot r gid = Inr chain \<longleftrightarrow>
     gid \<noteq> [] \<and> leaf_path (reg_grants r) gid (rev chain) \<and> length chain \<le> maxGrantDepth"
proof (cases "gid = []")
  case True
  then show ?thesis by (simp add: walkToRoot_def walk_loop_empty)
next
  case False
  then show ?thesis
    by (simp add: walkToRoot_def walk_loop_iff) (metis length_rev rev_rev_ident)
qed

section \<open>What an allowed call proves\<close>

lemma containsExact_iff: "containsExact have need \<longleftrightarrow> need \<noteq> [] \<and> need \<in> set have"
  by (auto simp: containsExact_def list_ex_iff)

lemma exactSubset_subset: "exactSubset need have \<Longrightarrow> set need \<subseteq> set have"
  by (auto simp: exactSubset_def list_all_iff Let_def split: if_splits)

definition live_agent :: "go_env \<Rightarrow> registry \<Rightarrow> int \<Rightarrow> string \<Rightarrow> string \<Rightarrow> agent_identity \<Rightarrow> bool" where
  "live_agent E r now human i a \<longleftrightarrow>
     reg_agents r i = Some a \<and> inInterval E (ai_created_at a) (ai_expiry a) now
     \<and> ai_human_principal_id a = human"

definition live_grant :: "go_env \<Rightarrow> int \<Rightarrow> string \<Rightarrow> string \<Rightarrow> authority_grant \<Rightarrow> bool" where
  "live_grant E now cap res g \<longleftrightarrow>
     inInterval E (gr_issued_at g) (gr_expiry g) now
     \<and> cap \<in> set (gr_capabilities g) \<and> res \<in> set (gr_resource_scope g)"

text \<open>The abstract authority: a root grant is issued by the human to a root agent, and a
  delegated grant by the subject of its parent to a child agent of it, never wider than the
  parent; all of them unexpired and covering the capability and the resource.\<close>

inductive authorized_grant ::
    "go_env \<Rightarrow> registry \<Rightarrow> int \<Rightarrow> string \<Rightarrow> string \<Rightarrow> string \<Rightarrow> authority_grant \<Rightarrow> bool"
  for E r now human cap res where
  root_grant:
    "live_grant E now cap res g \<Longrightarrow> gr_parent_grant_id g = [] \<Longrightarrow> gr_issuer g = human \<Longrightarrow>
     reg_agents r human = None \<Longrightarrow> live_agent E r now human (gr_subject_agent_id g) a \<Longrightarrow>
     ai_parent_agent_id a = [] \<Longrightarrow> authorized_grant E r now human cap res g"
| delegated_grant:
    "authorized_grant E r now human cap res p \<Longrightarrow> reg_grants r (gr_parent_grant_id g) = Some p \<Longrightarrow>
     live_grant E now cap res g \<Longrightarrow> gr_issuer g = gr_subject_agent_id p \<Longrightarrow>
     set (gr_capabilities g) \<subseteq> set (gr_capabilities p) \<Longrightarrow>
     set (gr_resource_scope g) \<subseteq> set (gr_resource_scope p) \<Longrightarrow>
     live_agent E r now human (gr_issuer g) ia \<Longrightarrow>
     live_agent E r now human (gr_subject_agent_id g) a \<Longrightarrow>
     ai_parent_agent_id a = gr_issuer g \<Longrightarrow> authorized_grant E r now human cap res g"

lemmas chain_link_defs = chain_link_ok_def live_agent_def live_grant_def containsExact_iff

lemma chain_link_root:
  assumes "chain_link_ok E r now human env None g"
  shows "authorized_grant E r now human (env_capability env) (env_resource env) g"
  using assms
  by (auto simp: chain_link_defs split: if_splits option.splits intro!: root_grant)

lemma chain_link_delegated:
  assumes "chain_link_ok E r now human env (Some p) g"
    and "authorized_grant E r now human (env_capability env) (env_resource env) p"
    and "reg_grants r (gr_parent_grant_id g) = Some p"
  shows "authorized_grant E r now human (env_capability env) (env_resource env) g"
proof -
  from assms(1) obtain a ia where
    "live_grant E now (env_capability env) (env_resource env) g"
    "gr_issuer g = gr_subject_agent_id p"
    "exactSubset (gr_capabilities g) (gr_capabilities p)"
    "exactSubset (gr_resource_scope g) (gr_resource_scope p)"
    "live_agent E r now human (gr_issuer g) ia"
    "live_agent E r now human (gr_subject_agent_id g) a" "ai_parent_agent_id a = gr_issuer g"
    by (auto simp: chain_link_defs split: if_splits option.splits)
  then show ?thesis
    using assms(2,3) by (blast intro: delegated_grant dest: exactSubset_subset)
qed

text \<open>Root first, each grant of a walked chain is the registered parent of the next.\<close>

fun root_path :: "(string \<rightharpoonup> authority_grant) \<Rightarrow> authority_grant \<Rightarrow> authority_grant list \<Rightarrow> bool" where
  "root_path gs p [] = True"
| "root_path gs p (g # path) = (gs (gr_parent_grant_id g) = Some p \<and> root_path gs g path)"

lemma root_path_append:
  "root_path gs p (path @ [g]) \<longleftrightarrow>
     root_path gs p path \<and> gs (gr_parent_grant_id g) = Some (last (p # path))"
  by (induction path arbitrary: p) auto

lemma leaf_path_root_path:
  "leaf_path gs cur path \<Longrightarrow>
   gs cur = Some (hd path) \<and> root_path gs (last path) (tl (rev path))"
proof (induction path arbitrary: cur)
  case Nil
  then show ?case by simp
next
  case (Cons g path)
  show ?case
  proof (cases "path = []")
    case True
    with Cons.prems show ?thesis by simp
  next
    case False
    with Cons have IH: "gs (gr_parent_grant_id g) = Some (hd path)"
      "root_path gs (last path) (tl (rev path))" and "gs cur = Some g" by auto
    have r: "last path # tl (rev path) = rev path"
      using False by (metis hd_rev list.collapse rev_is_Nil_conv)
    have "last (last path # tl (rev path)) = hd path"
      unfolding r using False by (simp add: last_rev)
    with IH have "root_path gs (last path) (tl (rev path) @ [g])"
      by (simp add: root_path_append del: last.simps)
    with False \<open>gs cur = Some g\<close> show ?thesis by (simp add: tl_append2)
  qed
qed

lemma chain_ok_authorized:
  assumes "chain_ok E r now human env (Some p) chain" and "root_path (reg_grants r) p chain"
    and "authorized_grant E r now human (env_capability env) (env_resource env) p"
  shows "authorized_grant E r now human (env_capability env) (env_resource env) (last (p # chain))"
  using assms
proof (induction chain arbitrary: p)
  case Nil
  then show ?case by simp
next
  case (Cons g chain)
  then have "authorized_grant E r now human (env_capability env) (env_resource env) g"
    by (auto intro: chain_link_delegated)
  with Cons show ?case by simp
qed

lemma ValidateAt_allow_iff:
  "ld_allow (fst (ValidateAt E env (Some r) now)) \<longleftrightarrow>
     (\<exists>actor grant chain tr.
        reg_agents r (env_actor_agent_id env) = Some actor
      \<and> inInterval E (ai_created_at actor) (ai_expiry actor) now
      \<and> reg_grants r (env_grant_id env) = Some grant
      \<and> inInterval E (gr_issued_at grant) (gr_expiry grant) now
      \<and> gr_subject_agent_id grant = env_actor_agent_id env
      \<and> walkToRoot r (env_grant_id env) = Inr chain \<and> chain \<noteq> []
      \<and> chain_ok E r now (ai_human_principal_id actor) env None chain
      \<and> env_trajectory_id env \<noteq> []
      \<and> reg_trajectories r (env_trajectory_id env) = Some tr \<and> trajectory_matches tr env)"
  by (auto simp: ValidateAt_def Let_def ceiling_result_def mismatch_result_def
           split: option.splits sum.splits)

lemma ValidateAt_authorized:
  assumes "ld_allow (fst (ValidateAt E env (Some r) now))"
  shows "\<exists>actor grant. live_agent E r now (ai_human_principal_id actor) (env_actor_agent_id env) actor
     \<and> reg_grants r (env_grant_id env) = Some grant
     \<and> gr_subject_agent_id grant = env_actor_agent_id env
     \<and> authorized_grant E r now (ai_human_principal_id actor) (env_capability env) (env_resource env) grant"
proof -
  from assms obtain actor grant chain where
    a: "reg_agents r (env_actor_agent_id env) = Some actor"
      "inInterval E (ai_created_at actor) (ai_expiry actor) now"
    and g: "reg_grants r (env_grant_id env) = Some grant"
      "gr_subject_agent_id grant = env_actor_agent_id env"
    and w: "walkToRoot r (env_grant_id env) = Inr chain" "chain \<noteq> []"
    and c: "chain_ok E r now (ai_human_principal_id actor) env None chain"
    by (auto simp: ValidateAt_allow_iff)
  obtain p q where chain: "chain = p # q" using w(2) by (cases chain) auto
  from w(1) have "leaf_path (reg_grants r) (env_grant_id env) (rev chain)"
    by (simp add: walkToRoot_iff)
  from leaf_path_root_path [OF this] chain
  have path: "reg_grants r (env_grant_id env) = Some (last (p # q))" "root_path (reg_grants r) p q"
    by (auto simp: hd_rev last_rev simp del: last.simps rev.simps)
  from c chain have "chain_link_ok E r now (ai_human_principal_id actor) env None p"
    "chain_ok E r now (ai_human_principal_id actor) env (Some p) q" by auto
  from chain_ok_authorized [OF this(2) path(2) chain_link_root [OF this(1)]] path(1) g a
  show ?thesis by (auto simp: live_agent_def)
qed

section \<open>Properties\<close>

text \<open>The cycle detector accepts a list of agents exactly when every agent is rooted, that is,
  following parent pointers from it reaches a root agent after finitely many steps.\<close>

theorem agent_cycles_iff:
  "detectAgentCycles as = Inr () \<longleftrightarrow> list_all (\<lambda>a. rooted as (ai_instance_id a)) as"
  by (simp add: detectAgentCycles_rooted_iff list_all_iff)

text \<open>WalkToRoot returns a chain exactly when it is the root-first path of grants from the
  named grant to a root grant and has at most maxGrantDepth elements. The path is unique.\<close>

theorem walk_to_root_iff:
  "walkToRoot r gid = Inr chain \<longleftrightarrow>
     gid \<noteq> [] \<and> leaf_path (reg_grants r) gid (rev chain) \<and> length chain \<le> maxGrantDepth"
  by (rule walkToRoot_iff)

end
