(* ===== verification/Actor_Context.thy ===== *)
theory Actor_Context
  imports Visor_Prelude
begin

text \<open>
  The process-start VerifiedActorContext (\<^verbatim>\<open>src/internal/actorcontext/context.go\<close>): the
  structural check, the expiry check, scopes, sealing, and the removal of identity claims from
  tool arguments. The snapshot hash is SHA-256 over the JSON encoding of all other fields; the
  encoding and the digest are the parameter hash_body, applied to exactly the fields the code
  hashes. An instant is a number of nanoseconds since the Unix epoch.
\<close>

record actor_context =
  ac_version :: string
  ac_principal_id :: string
  ac_acting_agent :: string
  ac_workload_id :: string
  ac_transaction :: string
  ac_actor_chain :: "string list"
  ac_scopes :: "string list"
  ac_issuer :: string
  ac_audience :: string
  ac_token_id :: string
  ac_expires_at :: int
  ac_proof_key_thumbprint :: string
  ac_verification_method :: string
  ac_identity_snapshot_hash :: string

text \<open>\<^verbatim>\<open>time.Time{}\<close>: year 1, in nanoseconds relative to the Unix epoch.\<close>

definition zero_time :: int where
  "zero_time = - 62135596800 * 1000000000"

type_synonym snapshot_body =
  "string \<times> string \<times> string \<times> string \<times> string \<times> string list \<times> string list \<times> string \<times> string
   \<times> string \<times> int \<times> string \<times> string"

definition snapshotBody :: "actor_context \<Rightarrow> snapshot_body" where
  "snapshotBody c =
     (ac_version c, ac_principal_id c, ac_acting_agent c, ac_workload_id c, ac_transaction c,
      ac_actor_chain c, ac_scopes c, ac_issuer c, ac_audience c, ac_token_id c, ac_expires_at c,
      ac_proof_key_thumbprint c, ac_verification_method c)"

definition SnapshotHash :: "(snapshot_body \<Rightarrow> string) \<Rightarrow> actor_context \<Rightarrow> string" where
  "SnapshotHash hash_body c = hash_body (snapshotBody c)"

definition VersionV1 :: string where "VersionV1 = ''1''"

definition VerificationSTSDpop :: string where "VerificationSTSDpop = ''sts+dpop''"

definition ValidateStructure :: "(snapshot_body \<Rightarrow> string) \<Rightarrow> actor_context \<Rightarrow> string + unit" where
  "ValidateStructure h c =
     (if ac_version c \<noteq> VersionV1 then Inl (''actorcontext: unsupported version '' @ go_quote (ac_version c))
      else if trim_space (ac_principal_id c) = [] then Inl ''actorcontext: missing principal_id''
      else if trim_space (ac_acting_agent c) = [] then Inl ''actorcontext: missing acting_agent''
      else if trim_space (ac_transaction c) = [] then Inl ''actorcontext: missing transaction''
      else if ac_expires_at c = zero_time then Inl ''actorcontext: missing expires_at''
      else if trim_space (ac_verification_method c) = []
      then Inl ''actorcontext: missing verification_method''
      else if ac_verification_method c \<noteq> VerificationSTSDpop
      then Inl (''actorcontext: unsupported verification_method '' @ go_quote (ac_verification_method c))
      else case ac_actor_chain c of
             [] \<Rightarrow> Inl ''actorcontext: empty actor_chain''
           | first # rest \<Rightarrow>
               if first \<noteq> ac_principal_id c
               then Inl ''actorcontext: principal_id must equal actor_chain[0]''
               else if last (first # rest) \<noteq> ac_acting_agent c
               then Inl ''actorcontext: acting_agent must equal actor_chain last hop''
               else if ac_identity_snapshot_hash c \<noteq> SnapshotHash h c
               then Inl ''actorcontext: identity_snapshot_hash mismatch''
               else Inr ())"

text \<open>\<^verbatim>\<open>Check\<close>: clock is the wall clock, read only when the instant handed in is the zero time.\<close>

definition Check ::
    "(snapshot_body \<Rightarrow> string) \<Rightarrow> int \<Rightarrow> actor_context \<Rightarrow> int \<Rightarrow> string + unit" where
  "Check h clock c now =
     (case ValidateStructure h c of
        Inl e \<Rightarrow> Inl e
      | Inr _ \<Rightarrow>
          let now' = (if now = zero_time then clock else now)
          in if \<not> now' < ac_expires_at c then Inl ''actorcontext: expired'' else Inr ())"

definition HasScope :: "actor_context \<Rightarrow> string \<Rightarrow> bool" where
  "HasScope c scope = list_ex (\<lambda>s. s = scope) (ac_scopes c)"

definition Seal ::
    "(snapshot_body \<Rightarrow> string) \<Rightarrow> actor_context \<Rightarrow> (string + unit) \<times> actor_context" where
  "Seal h c =
     (let c' = c\<lparr>ac_identity_snapshot_hash := SnapshotHash h c\<rparr> in (ValidateStructure h c', c'))"

definition ArgumentIdentityKeys :: "string list" where
  "ArgumentIdentityKeys = [''_verified_actor'', ''verified_actor'', ''verified_actor_context'']"

definition StripArgumentIdentity :: "args option \<Rightarrow> args option \<times> bool" where
  "StripArgumentIdentity args =
     (case args of
        None \<Rightarrow> (None, False)
      | Some m \<Rightarrow>
          if list_ex (\<lambda>(k, v). List.member ArgumentIdentityKeys k) m
          then (Some (filter (\<lambda>(k, v). \<not> List.member ArgumentIdentityKeys k) m), True)
          else (Some m, False))"

lemma ValidateStructure_ok_iff:
  "ValidateStructure h c = Inr () \<longleftrightarrow>
     ac_version c = VersionV1 \<and> trim_space (ac_principal_id c) \<noteq> []
     \<and> trim_space (ac_acting_agent c) \<noteq> [] \<and> trim_space (ac_transaction c) \<noteq> []
     \<and> ac_expires_at c \<noteq> zero_time \<and> trim_space (ac_verification_method c) \<noteq> []
     \<and> ac_verification_method c = VerificationSTSDpop
     \<and> ac_actor_chain c \<noteq> [] \<and> hd (ac_actor_chain c) = ac_principal_id c
     \<and> last (ac_actor_chain c) = ac_acting_agent c
     \<and> ac_identity_snapshot_hash c = SnapshotHash h c"
  by (auto simp: ValidateStructure_def split: list.splits)

lemma Check_ok_iff:
  "Check h clock c now = Inr () \<longleftrightarrow>
     ValidateStructure h c = Inr () \<and> (if now = zero_time then clock else now) < ac_expires_at c"
  by (auto simp: Check_def Let_def split: sum.splits)

text \<open>Sealing fixes the hash, so a sealed context can only fail for one of the other reasons.\<close>

lemma Seal_hash:
  "SnapshotHash h (snd (Seal h c)) = ac_identity_snapshot_hash (snd (Seal h c))"
  by (simp add: Seal_def SnapshotHash_def snapshotBody_def Let_def)

lemma StripArgumentIdentity_keys:
  assumes "fst (StripArgumentIdentity args) = Some m" and "(k, v) \<in> set m"
  shows "k \<notin> set ArgumentIdentityKeys"
  using assms
  by (auto simp: StripArgumentIdentity_def list_ex_iff split: option.splits if_splits)

lemma StripArgumentIdentity_lookup:
  assumes "k \<notin> set ArgumentIdentityKeys"
  shows "arg_lookup (fst (StripArgumentIdentity args)) k = arg_lookup args k"
proof (cases args)
  case None
  then show ?thesis by (simp add: StripArgumentIdentity_def)
next
  case (Some m)
  have "map_of (filter (\<lambda>(k, v). \<not> List.member ArgumentIdentityKeys k) m) k = map_of m k"
    using assms by (induction m) auto
  with Some show ?thesis by (auto simp: StripArgumentIdentity_def arg_lookup_def)
qed

text \<open>Stripping removes every argument that claims a verified identity and no other: no
  identity key survives at the top level, every other key keeps its value, and the flag says
  whether something was removed.\<close>

theorem strip_removes_exactly_identity:
  "arg_lookup (fst (StripArgumentIdentity args)) k =
     (if k \<in> set ArgumentIdentityKeys then None else arg_lookup args k)
   \<and> (snd (StripArgumentIdentity args) \<longleftrightarrow> (\<exists>key\<in>set ArgumentIdentityKeys. arg_lookup args key \<noteq> None))"
proof
  show "arg_lookup (fst (StripArgumentIdentity args)) k =
     (if k \<in> set ArgumentIdentityKeys then None else arg_lookup args k)"
  proof (cases "k \<in> set ArgumentIdentityKeys")
    case True
    then have "(k, v) \<notin> set m" if "fst (StripArgumentIdentity args) = Some m" for m v
      using StripArgumentIdentity_keys [OF that] by blast
    then have "arg_lookup (fst (StripArgumentIdentity args)) k = None"
      by (cases "fst (StripArgumentIdentity args)")
        (auto simp: arg_lookup_def map_of_eq_None_iff)
    with True show ?thesis by simp
  next
    case False
    then show ?thesis by (simp add: StripArgumentIdentity_lookup)
  qed
  have "(\<exists>key\<in>set ArgumentIdentityKeys. map_of m key \<noteq> None) \<longleftrightarrow>
      list_ex (\<lambda>(k, v). List.member ArgumentIdentityKeys k) m" for m :: args
    by (induction m) auto
  then show "snd (StripArgumentIdentity args) \<longleftrightarrow>
      (\<exists>key\<in>set ArgumentIdentityKeys. arg_lookup args key \<noteq> None)"
    by (auto simp: StripArgumentIdentity_def arg_lookup_def split: option.splits)
qed

end
