(* ===== verification/Policy_Types.thy ===== *)
theory Policy_Types
  imports Lineage Actor_Context
begin

text \<open>
  The policy document (\<^verbatim>\<open>src/internal/policy/types.go\<close> and the ownership block of
  \<^verbatim>\<open>src/internal/policy/capability_ownership.go\<close>), one record per Go struct. \<^verbatim>\<open>Action\<close> and
  \<^verbatim>\<open>RiskLevel\<close> are string types in Go, so any string is a value and the named constants are
  particular strings. A nil pointer is None.
\<close>

type_synonym action = string
type_synonym risk_level = string

definition ActionAllow :: action where "ActionAllow = ''allow''"
definition ActionDeny :: action where "ActionDeny = ''deny''"
definition ActionRequireApproval :: action where "ActionRequireApproval = ''require_approval''"
definition ActionRedactThenAllow :: action where "ActionRedactThenAllow = ''redact_then_allow''"

lemmas action_defs = ActionAllow_def ActionDeny_def ActionRequireApproval_def ActionRedactThenAllow_def

lemma action_distinct [simp]:
  "ActionAllow \<noteq> ActionDeny" "ActionDeny \<noteq> ActionAllow"
  "ActionAllow \<noteq> ActionRequireApproval" "ActionRequireApproval \<noteq> ActionAllow"
  "ActionDeny \<noteq> ActionRequireApproval" "ActionRequireApproval \<noteq> ActionDeny"
  "ActionRedactThenAllow \<noteq> ActionAllow" "ActionRedactThenAllow \<noteq> ActionDeny"
  "ActionRedactThenAllow \<noteq> ActionRequireApproval"
  "ActionAllow \<noteq> []" "ActionDeny \<noteq> []" "ActionRequireApproval \<noteq> []"
  "[] \<noteq> ActionAllow" "[] \<noteq> ActionDeny" "[] \<noteq> ActionRequireApproval"
  by (simp_all add: action_defs)

definition RiskCritical :: risk_level where "RiskCritical = ''critical''"
definition RiskHigh :: risk_level where "RiskHigh = ''high''"
definition RiskMedium :: risk_level where "RiskMedium = ''medium''"
definition RiskLow :: risk_level where "RiskLow = ''low''"
definition RiskUnknown :: risk_level where "RiskUnknown = ''unknown''"

lemmas risk_defs = RiskCritical_def RiskHigh_def RiskMedium_def RiskLow_def RiskUnknown_def

record arg_rule =
  ar_type :: string
  ar_patterns :: "string list"
  ar_keywords :: "string list"
  ar_bytes :: int
  ar_rows :: int
  ar_count :: int
  ar_domains :: "string list"
  ar_repos :: "string list"
  ar_days :: "string list"
  ar_start :: string
  ar_end :: string
  ar_timezone :: string

record tool_rule =
  tool_name :: string
  tool_allowed :: bool
  tool_risk :: risk_level
  tool_approval_required :: bool
  tool_delegates :: bool
  tool_rules :: "arg_rule list"
  tool_required_scopes :: "string list"

record server_attestation =
  att_kind :: string
  att_digest :: string
  att_entry_arg_positions :: "int list"

record server =
  srv_name :: string
  srv_transport :: string
  srv_allowed :: bool
  srv_allowed_destinations :: "string list"
  srv_denied_destinations :: "string list"
  srv_workspace_root :: string
  srv_attestation :: "server_attestation option"
  srv_tools :: "tool_rule list"

record chain_match =
  cm_server :: string
  cm_tool_pattern :: string

record chain_rule =
  chain_name :: string
  chain_sources :: "chain_match list"
  chain_sinks :: "chain_match list"
  chain_action :: action
  chain_within_calls :: int

record taint_rule =
  tn_name :: string
  tn_source_servers :: "string list"
  tn_source_tools :: "string list"
  tn_source_patterns :: "string list"

record egress_control_rule =
  eg_name :: string
  eg_when_tainted :: string
  eg_sink_servers :: "string list"
  eg_sink_tools :: "string list"
  eg_action :: action
  eg_reason :: string

record identity =
  id_name :: string
  id_allowed_servers :: "string list"
  id_allowed_tools :: "string list"

record time_window =
  tw_start :: string
  tw_end :: string
  tw_timezone :: string
  tw_days :: "string list"

record time_restriction =
  tres_name :: string
  tres_servers :: "string list"
  tres_tools :: "string list"
  tres_allowed_hours :: "time_window list"
  tres_denied_days :: "string list"
  tres_outside_action :: action

record settings =
  set_max_argument_size_bytes :: int
  set_max_output_size_bytes :: int
  set_session_max_tools :: int
  set_session_timeout_secs :: int
  set_approval_timeout_secs :: int
  set_max_spawn_depth :: int
  set_chain_window_size :: int
  set_log_level :: string
  set_capability_eval :: bool
  set_instruction_authority_continuity :: bool
  set_instruction_authority_keys :: "(string \<times> string) list"
  set_require_verified_actor :: bool

record capability_decl =
  cd_tool :: string
  cd_effect_class :: string
  cd_scope_argument :: string

record owned_endpoint =
  oe_server :: string
  oe_owner :: string
  oe_capabilities :: "capability_decl list"

record resource_scope =
  rs_argument :: string
  rs_exact_values :: "string list"

record delegation_grant =
  dg_id :: string
  dg_owner :: string
  dg_delegate :: string
  dg_server :: string
  dg_tool :: string
  dg_effect_class :: string
  dg_resource_scope :: "resource_scope option"
  dg_issued_at :: string
  dg_expires_at :: string

record capability_ownership =
  co_endpoints :: "owned_endpoint list"
  co_delegations :: "delegation_grant list"

record identity_section =
  is_version :: int
  is_agents :: "agent_identity list"
  is_grants :: "authority_grant list"

record redaction_pattern =
  rp_name :: string
  rp_regex :: string
  rp_replacement :: string

record redaction_config =
  rc_patterns :: "redaction_pattern list"
  rc_output_redaction :: bool
  rc_output_patterns :: "redaction_pattern list"
  rc_sensitive_files :: "string list"

record policy =
  pol_version :: string
  pol_description :: string
  pol_default_action :: action
  pol_settings :: settings
  pol_servers :: "server list"
  pol_tool_chains :: "chain_rule list"
  pol_taints :: "taint_rule list"
  pol_egress_controls :: "egress_control_rule list"
  pol_identities :: "identity list"
  pol_time_restrictions :: "time_restriction list"
  pol_redaction :: redaction_config
  pol_capability_ownership :: "capability_ownership option"
  pol_identity :: "identity_section option"
  pol_trajectories :: "trajectory list"

record decision =
  dec_action :: action
  dec_reason :: string
  dec_lineage :: "evidence option"

text \<open>A decision with no lineage evidence, as most composite literals of the source build it.\<close>

definition mk_decision :: "action \<Rightarrow> string \<Rightarrow> decision" where
  "mk_decision a r = \<lparr>dec_action = a, dec_reason = r, dec_lineage = None\<rparr>"

lemma mk_decision_sel [simp]:
  "dec_action (mk_decision a r) = a" "dec_reason (mk_decision a r) = r"
  "dec_lineage (mk_decision a r) = None"
  by (simp_all add: mk_decision_def)

text \<open>Go's zero values of the structs.\<close>

definition arg_rule_zero :: arg_rule where
  "arg_rule_zero = \<lparr>ar_type = [], ar_patterns = [], ar_keywords = [], ar_bytes = 0, ar_rows = 0,
     ar_count = 0, ar_domains = [], ar_repos = [], ar_days = [], ar_start = [], ar_end = [],
     ar_timezone = []\<rparr>"

definition tool_rule_zero :: tool_rule where
  "tool_rule_zero = \<lparr>tool_name = [], tool_allowed = False, tool_risk = [],
     tool_approval_required = False, tool_delegates = False, tool_rules = [],
     tool_required_scopes = []\<rparr>"

definition server_zero :: server where
  "server_zero = \<lparr>srv_name = [], srv_transport = [], srv_allowed = False,
     srv_allowed_destinations = [], srv_denied_destinations = [], srv_workspace_root = [],
     srv_attestation = None, srv_tools = []\<rparr>"

definition settings_zero :: settings where
  "settings_zero = \<lparr>set_max_argument_size_bytes = 0, set_max_output_size_bytes = 0,
     set_session_max_tools = 0, set_session_timeout_secs = 0, set_approval_timeout_secs = 0,
     set_max_spawn_depth = 0, set_chain_window_size = 0, set_log_level = [],
     set_capability_eval = False, set_instruction_authority_continuity = False,
     set_instruction_authority_keys = [], set_require_verified_actor = False\<rparr>"

definition policy_zero :: policy where
  "policy_zero = \<lparr>pol_version = [], pol_description = [], pol_default_action = [], pol_settings = settings_zero,
     pol_servers = [], pol_tool_chains = [], pol_taints = [], pol_egress_controls = [],
     pol_identities = [], pol_time_restrictions = [],
     pol_redaction = \<lparr>rc_patterns = [], rc_output_redaction = False, rc_output_patterns = [],
       rc_sensitive_files = []\<rparr>,
     pol_capability_ownership = None, pol_identity = None, pol_trajectories = []\<rparr>"

lemmas zero_defs = arg_rule_zero_def tool_rule_zero_def server_zero_def settings_zero_def
  policy_zero_def

end
