(* ===== verification/Policy_Registry.thy ===== *)
theory Policy_Registry
  imports Policy_Types
begin

text \<open>
  The registry that indexes a policy by server name and by the flat key \<^verbatim>\<open>server:tool\<close>
  (\<^verbatim>\<open>src/internal/policy/registry.go\<close>). Later entries overwrite earlier ones, as map assignment
  does.
\<close>

record policy_registry =
  pr_policy :: policy
  pr_server_map :: "string \<rightharpoonup> server"
  pr_tool_map :: "string \<rightharpoonup> tool_rule"

definition toolKey :: "string \<Rightarrow> string \<Rightarrow> string" where
  "toolKey server tool = server @ '':'' @ tool"

fun add_tools :: "string \<Rightarrow> (string \<rightharpoonup> tool_rule) \<Rightarrow> tool_rule list \<Rightarrow> (string \<rightharpoonup> tool_rule)" where
  "add_tools sname m [] = m"
| "add_tools sname m (t # ts) = add_tools sname (m(toolKey sname (tool_name t) \<mapsto> t)) ts"

fun add_servers :: "policy_registry \<Rightarrow> server list \<Rightarrow> policy_registry" where
  "add_servers r [] = r"
| "add_servers r (s # ss) =
     add_servers
       (r\<lparr>pr_server_map := (pr_server_map r)(srv_name s \<mapsto> s),
          pr_tool_map := add_tools (srv_name s) (pr_tool_map r) (srv_tools s)\<rparr>) ss"

definition NewPolicyRegistry :: "policy \<Rightarrow> policy_registry" where
  "NewPolicyRegistry p =
     add_servers \<lparr>pr_policy = p, pr_server_map = Map.empty, pr_tool_map = Map.empty\<rparr> (pol_servers p)"

definition Server :: "policy_registry \<Rightarrow> string \<Rightarrow> server option" where
  "Server r name = pr_server_map r name"

definition Tool :: "policy_registry \<Rightarrow> string \<Rightarrow> string \<Rightarrow> tool_rule option" where
  "Tool r serverName toolName = pr_tool_map r (toolKey serverName toolName)"

definition IsServerAllowed :: "policy_registry \<Rightarrow> string \<Rightarrow> bool" where
  "IsServerAllowed r serverName =
     (case pr_server_map r serverName of
        None \<Rightarrow> pol_default_action (pr_policy r) = ActionAllow
      | Some srv \<Rightarrow> srv_allowed srv)"

definition IsToolAllowed :: "policy_registry \<Rightarrow> string \<Rightarrow> string \<Rightarrow> bool \<times> bool" where
  "IsToolAllowed r serverName toolName =
     (case pr_tool_map r (toolKey serverName toolName) of
        None \<Rightarrow> (pol_default_action (pr_policy r) = ActionAllow, False)
      | Some tool \<Rightarrow> (tool_allowed tool, True))"

section \<open>What a lookup finds\<close>

text \<open>The policy's own answer: the tool of that name listed under the server of that name.\<close>

definition declared_tool :: "policy \<Rightarrow> string \<Rightarrow> string \<Rightarrow> tool_rule option" where
  "declared_tool p s t =
     (case find (\<lambda>srv. srv_name srv = s) (pol_servers p) of
        None \<Rightarrow> None
      | Some srv \<Rightarrow> find (\<lambda>tl. tool_name tl = t) (srv_tools srv))"

definition colon_free :: "string \<Rightarrow> bool" where
  "colon_free s \<longleftrightarrow> CHR '':'' \<notin> set s"

definition well_named :: "policy \<Rightarrow> bool" where
  "well_named p \<longleftrightarrow>
     distinct (map srv_name (pol_servers p))
     \<and> (\<forall>s\<in>set (pol_servers p). colon_free (srv_name s) \<and> distinct (map tool_name (srv_tools s)))"

lemma toolKey_inj:
  assumes "colon_free s" and "colon_free s'"
  shows "toolKey s t = toolKey s' t' \<longleftrightarrow> s = s' \<and> t = t'"
  using assms
proof (induction s arbitrary: s')
  case Nil
  then show ?case by (cases s') (auto simp: toolKey_def colon_free_def)
next
  case (Cons c s)
  then show ?case by (cases s') (auto simp: toolKey_def colon_free_def)
qed

lemma add_tools_lookup:
  assumes "distinct (map tool_name ts)"
  shows "add_tools s m ts k =
     (case find (\<lambda>t. toolKey s (tool_name t) = k) ts of None \<Rightarrow> m k | Some t \<Rightarrow> Some t)"
  using assms
proof (induction ts arbitrary: m)
  case Nil
  then show ?case by simp
next
  case (Cons t ts)
  then have IH: "add_tools s (m(toolKey s (tool_name t) \<mapsto> t)) ts k =
      (case find (\<lambda>t. toolKey s (tool_name t) = k) ts of
         None \<Rightarrow> (m(toolKey s (tool_name t) \<mapsto> t)) k | Some t \<Rightarrow> Some t)" by simp
  show ?case
  proof (cases "toolKey s (tool_name t) = k")
    case True
    with Cons.prems have "find (\<lambda>t. toolKey s (tool_name t) = k) ts = None"
      by (auto simp: toolKey_def find_key_None)
    with IH True show ?thesis by simp
  next
    case False
    with IH show ?thesis by (simp split: option.splits)
  qed
qed

lemma add_servers_policy [simp]: "pr_policy (add_servers r ss) = pr_policy r"
  by (induction ss arbitrary: r) auto

lemma add_servers_server:
  "distinct (map srv_name ss) \<Longrightarrow>
   pr_server_map (add_servers r ss) k =
     (case find (\<lambda>s. srv_name s = k) ss of None \<Rightarrow> pr_server_map r k | Some s \<Rightarrow> Some s)"
proof (induction ss arbitrary: r)
  case Nil
  then show ?case by simp
next
  case (Cons s ss)
  show ?case
  proof (cases "srv_name s = k")
    case True
    with Cons.prems have "find (\<lambda>s. srv_name s = k) ss = None" by (auto simp: find_key_None)
    with Cons True show ?thesis by simp
  next
    case False
    with Cons show ?thesis by (simp split: option.splits)
  qed
qed

lemma add_servers_tool:
  assumes "distinct (map srv_name ss)"
    and "\<forall>s\<in>set ss. colon_free (srv_name s) \<and> distinct (map tool_name (srv_tools s))"
    and "colon_free n"
  shows "pr_tool_map (add_servers r ss) (toolKey n t) =
     (case find (\<lambda>s. srv_name s = n) ss of
        None \<Rightarrow> pr_tool_map r (toolKey n t)
      | Some s \<Rightarrow> (case find (\<lambda>tl. tool_name tl = t) (srv_tools s) of
                    None \<Rightarrow> pr_tool_map r (toolKey n t) | Some x \<Rightarrow> Some x))"
  using assms(1,2)
proof (induction ss arbitrary: r)
  case Nil
  then show ?case by simp
next
  case (Cons s ss)
  let ?m = "add_tools (srv_name s) (pr_tool_map r) (srv_tools s)"
  have d: "distinct (map tool_name (srv_tools s))" "colon_free (srv_name s)" using Cons.prems by auto
  have m: "?m (toolKey n t) =
      (if srv_name s = n then
         (case find (\<lambda>tl. tool_name tl = t) (srv_tools s) of
            None \<Rightarrow> pr_tool_map r (toolKey n t) | Some x \<Rightarrow> Some x)
       else pr_tool_map r (toolKey n t))"
    using add_tools_lookup [OF d(1), of "srv_name s" "pr_tool_map r" "toolKey n t"]
      toolKey_inj [OF d(2) assms(3)]
    by (auto split: option.splits)
  show ?case
  proof (cases "srv_name s = n")
    case True
    with Cons.prems have "find (\<lambda>s. srv_name s = n) ss = None" by (auto simp: find_key_None)
    with Cons True m show ?thesis by simp
  next
    case False
    with Cons m show ?thesis by (simp split: option.splits)
  qed
qed

lemma Server_declared:
  assumes "distinct (map srv_name (pol_servers p))"
  shows "Server (NewPolicyRegistry p) n = find (\<lambda>s. srv_name s = n) (pol_servers p)"
  using add_servers_server [OF assms]
  by (simp add: Server_def NewPolicyRegistry_def split: option.splits)

lemma Tool_declared:
  assumes "well_named p" and "colon_free s"
  shows "Tool (NewPolicyRegistry p) s t = declared_tool p s t"
  using assms add_servers_tool [of "pol_servers p" s]
  by (auto simp: Tool_def NewPolicyRegistry_def declared_tool_def well_named_def split: option.splits)

text \<open>A lookup in the registry of a policy with distinct colon-free server names and distinct
  tool names per server finds exactly the tool that the policy lists under that server.\<close>

theorem registry_finds_declared_tool:
  assumes "well_named p" and "colon_free s"
  shows "Tool (NewPolicyRegistry p) s t = declared_tool p s t"
  using assms by (rule Tool_declared)

definition named_tool :: "string \<Rightarrow> tool_rule" where
  "named_tool n = tool_rule_zero\<lparr>tool_name := n, tool_allowed := True\<rparr>"

definition named_server :: "string \<Rightarrow> string \<Rightarrow> server" where
  "named_server s t = server_zero\<lparr>srv_name := s, srv_allowed := True, srv_tools := [named_tool t]\<rparr>"

definition two_servers :: policy where
  "two_servers = policy_zero\<lparr>pol_servers := [named_server ''fs'' ''read'', named_server ''mail'' ''send'']\<rparr>"

theorem registry_finds_declared_tool_witness:
  "Tool (NewPolicyRegistry two_servers) ''mail'' ''send'' = declared_tool two_servers ''mail'' ''send''"
  by (rule registry_finds_declared_tool; code_simp)

text \<open>Without colon-free names the flat key collides: with a server a listing the tool b:c
  and a server a:b listing nothing of that name, a lookup of the tool c under a:b finds the rule
  of the other server.\<close>

theorem registry_key_collision:
  "Tool (NewPolicyRegistry (policy_zero\<lparr>pol_servers := [named_server ''a'' ''b:c'', named_server ''a:b'' ''d'']\<rparr>))
     ''a:b'' ''c'' = Some (named_tool ''b:c'')
   \<and> declared_tool (policy_zero\<lparr>pol_servers := [named_server ''a'' ''b:c'', named_server ''a:b'' ''d'']\<rparr>)
     ''a:b'' ''c'' = None"
  by (simp add: Tool_def NewPolicyRegistry_def named_server_def named_tool_def server_zero_def
      tool_rule_zero_def policy_zero_def toolKey_def declared_tool_def)

end
