(* ===== verification/Policy_Glob.thy ===== *)
theory Policy_Glob
  imports Visor_Prelude
begin

text \<open>
  Pattern matching of the policy engine: \<^verbatim>\<open>globToRegexString\<close>, \<^verbatim>\<open>matchesGlob\<close>,
  \<^verbatim>\<open>matchesAnyPattern\<close> and \<^verbatim>\<open>matchesAnyTool\<close> of \<^verbatim>\<open>src/internal/policy/engine.go\<close>. The program
  turns a glob into an anchored, case-insensitive regular expression made of quoted literals,
  \<^verbatim>\<open>.*\<close> and \<^verbatim>\<open>[^/]*\<close> only, so the expression is modelled by the list of those tokens and its
  matching by a function; \<^verbatim>\<open>.\<close> does not match a newline (no \<^verbatim>\<open>s\<close> flag). Patterns without \<^verbatim>\<open>**\<close>
  go to \<^verbatim>\<open>filepath.Match\<close>.
\<close>

datatype gtok = GLit char | GAny | GSeg

definition newline :: char where
  "newline = CHR 0x0A"

text \<open>\<^verbatim>\<open>QuoteMeta\<close>, then \<^verbatim>\<open>**\<close> to \<^verbatim>\<open>.*\<close>, then the remaining \<^verbatim>\<open>*\<close> to \<^verbatim>\<open>[^/]*\<close>.\<close>

fun glob_tokens :: "string \<Rightarrow> gtok list" where
  "glob_tokens [] = []"
| "glob_tokens [c] = (if c = CHR ''*'' then [GSeg] else [GLit c])"
| "glob_tokens (c # d # s) =
     (if c = CHR ''*'' \<and> d = CHR ''*'' then GAny # glob_tokens s
      else if c = CHR ''*'' then GSeg # glob_tokens (d # s)
      else GLit c # glob_tokens (d # s))"

text \<open>\<^verbatim>\<open>QuoteMeta\<close>, then every \<^verbatim>\<open>*\<close> to \<^verbatim>\<open>.*\<close>: the name patterns.\<close>

definition name_tokens :: "string \<Rightarrow> gtok list" where
  "name_tokens s = map (\<lambda>c. if c = CHR ''*'' then GAny else GLit c) s"

function glob_match :: "gtok list \<Rightarrow> string \<Rightarrow> bool" where
  "glob_match [] s = (s = [])"
| "glob_match (GLit c # ts) s = (case s of [] \<Rightarrow> False | d # s' \<Rightarrow> c = d \<and> glob_match ts s')"
| "glob_match (GAny # ts) s =
     (glob_match ts s
      \<or> (case s of [] \<Rightarrow> False | d # s' \<Rightarrow> d \<noteq> newline \<and> glob_match (GAny # ts) s'))"
| "glob_match (GSeg # ts) s =
     (glob_match ts s
      \<or> (case s of [] \<Rightarrow> False | d # s' \<Rightarrow> d \<noteq> CHR ''/'' \<and> glob_match (GSeg # ts) s'))"
  by pat_completeness auto
termination
  by (relation "measure (\<lambda>(ts, s). length ts + length s)") auto

text \<open>The compiled expression of a \<^verbatim>\<open>**\<close> pattern, applied with the \<^verbatim>\<open>(?i)\<close> flag.\<close>

definition glob_ci :: "string \<Rightarrow> string \<Rightarrow> bool" where
  "glob_ci pattern v = glob_match (glob_tokens (fold_runes pattern)) (fold_runes v)"

definition name_ci :: "string \<Rightarrow> string \<Rightarrow> bool" where
  "name_ci pattern v = glob_match (name_tokens (fold_runes pattern)) (fold_runes v)"

definition matchesGlob :: "go_env \<Rightarrow> string \<Rightarrow> string \<Rightarrow> bool" where
  "matchesGlob E pattern v =
     (if str_contains pattern ''**'' then glob_ci pattern v
      else filepath_match E pattern v \<or> filepath_match E (to_lower pattern) (to_lower v))"

definition matchesAnyPattern :: "go_env \<Rightarrow> string list \<Rightarrow> string \<Rightarrow> bool" where
  "matchesAnyPattern E patterns v = list_ex (\<lambda>p. matchesGlob E p v) patterns"

definition matchesAnyTool :: "string list \<Rightarrow> string \<Rightarrow> bool" where
  "matchesAnyTool tools toolName = list_ex (\<lambda>t. name_ci t toolName) tools"

section \<open>The matcher against its language\<close>

inductive glob_lang :: "gtok list \<Rightarrow> string \<Rightarrow> bool" where
  lang_nil: "glob_lang [] []"
| lang_lit: "glob_lang ts s \<Longrightarrow> glob_lang (GLit c # ts) (c # s)"
| lang_any: "newline \<notin> set u \<Longrightarrow> glob_lang ts s \<Longrightarrow> glob_lang (GAny # ts) (u @ s)"
| lang_seg: "CHR ''/'' \<notin> set u \<Longrightarrow> glob_lang ts s \<Longrightarrow> glob_lang (GSeg # ts) (u @ s)"

inductive_simps glob_lang_simps:
  "glob_lang [] s" "glob_lang (GLit c # ts) s" "glob_lang (GAny # ts) s" "glob_lang (GSeg # ts) s"

lemma lang_any_step:
  "glob_lang (GAny # ts) s \<longleftrightarrow>
     glob_lang ts s \<or> (\<exists>d s'. s = d # s' \<and> d \<noteq> newline \<and> glob_lang (GAny # ts) s')"
proof
  assume "glob_lang (GAny # ts) s"
  then obtain u t where s: "s = u @ t" "newline \<notin> set u" "glob_lang ts t"
    by (auto simp: glob_lang_simps)
  show "glob_lang ts s \<or> (\<exists>d s'. s = d # s' \<and> d \<noteq> newline \<and> glob_lang (GAny # ts) s')"
    using s by (cases u) (auto intro: lang_any)
next
  assume "glob_lang ts s \<or> (\<exists>d s'. s = d # s' \<and> d \<noteq> newline \<and> glob_lang (GAny # ts) s')"
  then show "glob_lang (GAny # ts) s"
  proof
    assume "glob_lang ts s"
    then show ?thesis using lang_any [of "[]" ts s] by simp
  next
    assume "\<exists>d s'. s = d # s' \<and> d \<noteq> newline \<and> glob_lang (GAny # ts) s'"
    then obtain d u t where "s = (d # u) @ t" "newline \<notin> set (d # u)" "glob_lang ts t"
      by (auto simp: glob_lang_simps)
    then show ?thesis using lang_any by metis
  qed
qed

lemma lang_seg_step:
  "glob_lang (GSeg # ts) s \<longleftrightarrow>
     glob_lang ts s \<or> (\<exists>d s'. s = d # s' \<and> d \<noteq> CHR ''/'' \<and> glob_lang (GSeg # ts) s')"
proof
  assume "glob_lang (GSeg # ts) s"
  then obtain u t where s: "s = u @ t" "CHR ''/'' \<notin> set u" "glob_lang ts t"
    by (auto simp: glob_lang_simps)
  show "glob_lang ts s \<or> (\<exists>d s'. s = d # s' \<and> d \<noteq> CHR ''/'' \<and> glob_lang (GSeg # ts) s')"
    using s by (cases u) (auto intro: lang_seg)
next
  assume "glob_lang ts s \<or> (\<exists>d s'. s = d # s' \<and> d \<noteq> CHR ''/'' \<and> glob_lang (GSeg # ts) s')"
  then show "glob_lang (GSeg # ts) s"
  proof
    assume "glob_lang ts s"
    then show ?thesis using lang_seg [of "[]" ts s] by simp
  next
    assume "\<exists>d s'. s = d # s' \<and> d \<noteq> CHR ''/'' \<and> glob_lang (GSeg # ts) s'"
    then obtain d u t where "s = (d # u) @ t" "CHR ''/'' \<notin> set (d # u)" "glob_lang ts t"
      by (auto simp: glob_lang_simps)
    then show ?thesis using lang_seg by metis
  qed
qed

lemma glob_match_lang: "glob_match ts s \<longleftrightarrow> glob_lang ts s"
proof (induction ts s rule: glob_match.induct)
  case (1 s)
  then show ?case by (auto simp: glob_lang_simps)
next
  case (2 c ts s)
  then show ?case by (cases s) (auto simp: glob_lang_simps)
next
  case (3 ts s)
  then show ?case by (subst lang_any_step) (auto split: list.splits)
next
  case (4 ts s)
  then show ?case by (subst lang_seg_step) (auto split: list.splits)
qed

text \<open>A literal-only token list matches exactly its own bytes, so a pattern without a star is
  compared for equality up to case.\<close>

lemma glob_lang_literals: "glob_lang (map GLit p) s \<longleftrightarrow> s = p"
  by (induction p arbitrary: s) (auto simp: glob_lang_simps)

text \<open>A pattern with ** matches exactly the values in the language of its tokens, up to case:
  a literal byte stands for itself, ** for any run of bytes without a newline, a single * for any
  run without a slash.\<close>

theorem star_glob_language:
  assumes "str_contains pattern ''**''"
  shows "matchesGlob E pattern v \<longleftrightarrow> glob_lang (glob_tokens (fold_runes pattern)) (fold_runes v)"
  using assms by (simp add: matchesGlob_def glob_ci_def glob_match_lang)

theorem star_glob_language_witness:
  "matchesGlob example_env ''**/.env'' ''/srv/APP/.ENV'' \<longleftrightarrow>
     glob_lang (glob_tokens (fold_runes ''**/.env'')) (fold_runes ''/srv/APP/.ENV'')"
  by (rule star_glob_language) code_simp

text \<open>A newline inside the value defeats a ** pattern: the deny pattern for .env files does
  not match a path whose directory name holds a newline, although it matches the same path
  without it.\<close>

theorem star_glob_newline_gap:
  "matchesGlob E ''**/.env'' (''/srv/a'' @ [newline] @ ''/.env'') = False
   \<and> matchesGlob E ''**/.env'' ''/srv/a/.env'' = True"
proof -
  have "str_contains ''**/.env'' ''**''" by code_simp
  moreover have "glob_ci ''**/.env'' (''/srv/a'' @ [newline] @ ''/.env'') = False"
    "glob_ci ''**/.env'' ''/srv/a/.env'' = True" by code_simp+
  ultimately show ?thesis by (simp add: matchesGlob_def)
qed

end
