(* ===== verification/Policy_Slots.thy ===== *)
theory Policy_Slots
  imports Policy_Glob
begin

text \<open>
  Argument slots (the second half of \<^verbatim>\<open>src/internal/policy/engine.go\<close>): the alias lists, the
  collectors that gather every argument whose key folds to an alias, host extraction from a URL
  argument, and the allowlist tests. A collector returns Inl with the reason where the Go function
  returns a non-empty reason, and Inr with the collected values otherwise.
\<close>

section \<open>Aliases\<close>

definition recipientSlotKeys :: "string list" where
  "recipientSlotKeys = [''recipient'', ''to'', ''email'', ''cc'', ''bcc'']"

definition ownerSlotKeys :: "string list" where
  "ownerSlotKeys =
     [''owner'', ''user_id'', ''userid'', ''resource_owner'', ''account_id'', ''principal'']"

definition pathSlotKeys :: "string list" where
  "pathSlotKeys = [''path'', ''file'', ''file_path'', ''filepath'', ''absolute_path'', ''absolutepath'']"

definition effectPathSlotKeys :: "string list" where
  "effectPathSlotKeys =
     [''path'', ''file'', ''file_path'', ''filepath'', ''absolute_path'', ''absolutepath'',
      ''target'', ''dir'', ''directory'']"

definition destinationSlotKeys :: "string list" where
  "destinationSlotKeys =
     [''url'', ''uri'', ''host'', ''hostname'', ''endpoint'', ''dest'', ''dest_host'',
      ''destination'', ''domain'']"

definition workingDirectorySlotKeys :: "string list" where
  "workingDirectorySlotKeys =
     [''cwd'', ''working_directory'', ''working_dir'', ''workingdir'', ''workdir'', ''chdir'']"

definition secretSlotKeys :: "string list" where
  "secretSlotKeys =
     [''api_key'', ''apikey'', ''access_key'', ''secret'', ''password'', ''credential'',
      ''private_key'', ''token'', ''new_key'']"

definition applicationSlotKeys :: "string list" where
  "applicationSlotKeys =
     [''application'', ''app'', ''application_name'', ''app_name'', ''applicationname'',
      ''appname'', ''name'']"

definition skillSlotKeys :: "string list" where
  "skillSlotKeys =
     [''skill'', ''skill_id'', ''skill_name'', ''skillname'', ''skill_key'', ''skill_slug'']"

definition permissionBypassSlotKeys :: "string list" where
  "permissionBypassSlotKeys =
     [''skip_permissions'', ''skip_permission'', ''skippermissions'',
      ''dangerously_skip_permissions'', ''dangerouslyskippermissions'',
      ''bypass_permissions'', ''bypasspermissions'']"

definition executableSlotKeys :: "string list" where
  "executableSlotKeys =
     [''command'', ''cmd'', ''exec'', ''binary'', ''executable'', ''stdio_command'',
      ''stdiocommand'', ''server_command'', ''servercommand'']"

text \<open>Every \<^verbatim>\<open>isXSlotKey\<close> is the same loop over its alias list.\<close>

definition slot_key :: "string list \<Rightarrow> string \<Rightarrow> bool" where
  "slot_key aliases k = list_ex (\<lambda>alias. equal_fold k alias) aliases"

definition isRecipientSlotKey :: "string \<Rightarrow> bool" where
  "isRecipientSlotKey k = slot_key recipientSlotKeys k"

definition isOwnerSlotKey :: "string \<Rightarrow> bool" where
  "isOwnerSlotKey k = slot_key ownerSlotKeys k"

definition isPathSlotKey :: "string \<Rightarrow> bool" where
  "isPathSlotKey k = slot_key pathSlotKeys k"

definition isEffectPathSlotKey :: "string \<Rightarrow> bool" where
  "isEffectPathSlotKey k = slot_key effectPathSlotKeys k"

definition isDestinationSlotKey :: "string \<Rightarrow> bool" where
  "isDestinationSlotKey k = slot_key destinationSlotKeys k"

definition isWorkingDirectorySlotKey :: "string \<Rightarrow> bool" where
  "isWorkingDirectorySlotKey k = slot_key workingDirectorySlotKeys k"

definition isSecretSlotKey :: "string \<Rightarrow> bool" where
  "isSecretSlotKey k = slot_key secretSlotKeys k"

definition isApplicationSlotKey :: "string \<Rightarrow> bool" where
  "isApplicationSlotKey k = slot_key applicationSlotKeys k"

definition isSkillSlotKey :: "string \<Rightarrow> bool" where
  "isSkillSlotKey k = slot_key skillSlotKeys k"

definition isPermissionBypassSlotKey :: "string \<Rightarrow> bool" where
  "isPermissionBypassSlotKey k = slot_key permissionBypassSlotKeys k"

definition isExecutableSlotKey :: "string \<Rightarrow> bool" where
  "isExecutableSlotKey k = slot_key executableSlotKeys k"

section \<open>Hosts\<close>

definition ascii_letter :: "char \<Rightarrow> bool" where
  "ascii_letter c \<longleftrightarrow> is_upper_ascii c \<or> is_lower_ascii c"

definition destinationBoringScheme :: "string \<Rightarrow> bool" where
  "destinationBoringScheme s =
     (case s of
        [] \<Rightarrow> False
      | c # rest \<Rightarrow>
          ascii_letter c
          \<and> list_all (\<lambda>d. ascii_letter d \<or> is_digit_ascii d \<or> d \<in> {CHR ''+'', CHR ''-'', CHR ''.''}) rest)"

definition destinationPortDigits :: "string \<Rightarrow> bool" where
  "destinationPortDigits s \<longleftrightarrow> s \<noteq> [] \<and> list_all is_digit_ascii s"

definition destinationBoringHost :: "string \<Rightarrow> bool" where
  "destinationBoringHost s \<longleftrightarrow>
     s \<noteq> [] \<and> hd s \<noteq> CHR ''.'' \<and> hd s \<noteq> CHR ''-'' \<and> last s \<noteq> CHR ''-''
     \<and> list_all (\<lambda>c. ascii_letter c \<or> is_digit_ascii c \<or> c = CHR ''-'' \<or> c = CHR ''.'') s
     \<and> \<not> str_contains s ''..''"

text \<open>The characters that make an authority unparseable:
  \<^verbatim>\<open>@\\% \t\r\n\x00[]<>"'`\<close> in the source.\<close>

definition unboringAuthority :: string where
  "unboringAuthority =
     [CHR ''@'', CHR 0x5C, CHR ''%'', CHR '' '', CHR 0x09, CHR 0x0D, CHR 0x0A, CHR 0x00, CHR ''['',
      CHR '']'', CHR ''<'', CHR ''>'', CHR 0x22, CHR 0x27, CHR 0x60]"

fun last_index :: "char \<Rightarrow> string \<Rightarrow> nat option" where
  "last_index c [] = None"
| "last_index c (d # s) =
     (case last_index c s of Some i \<Rightarrow> Some (Suc i) | None \<Rightarrow> if d = c then Some 0 else None)"

definition trim_suffix_dot :: "string \<Rightarrow> string" where
  "trim_suffix_dot v = (if v \<noteq> [] \<and> last v = CHR ''.'' then butlast v else v)"

text \<open>The three stages of \<^verbatim>\<open>destinationHostname\<close>: the scheme, the authority, the port.\<close>

definition strip_scheme :: "string \<Rightarrow> string option" where
  "strip_scheme v =
     (case str_index v ''://'' of
        None \<Rightarrow> Some v
      | Some i \<Rightarrow> if i = 0 \<or> \<not> destinationBoringScheme (take i v) then None else Some (drop (i + 3) v))"

definition strip_port :: "string \<Rightarrow> string option" where
  "strip_port v =
     (case last_index CHR '':'' v of
        None \<Rightarrow> Some v
      | Some i \<Rightarrow> if CHR '':'' \<in> set (take i v) then None
                 else if \<not> destinationPortDigits (drop (i + 1) v) then None
                 else Some (take i v))"

definition destinationHostname :: "string \<Rightarrow> string option" where
  "destinationHostname raw =
     (let v = trim_space raw in
      if v = [] then None
      else case strip_scheme v of
             None \<Rightarrow> None
           | Some v1 \<Rightarrow>
               let v2 = takeWhile (\<lambda>c. c \<notin> {CHR ''/'', CHR ''?'', CHR ''#''}) v1 in
               if v2 = [] \<or> contains_any v2 unboringAuthority then None
               else case strip_port v2 of
                      None \<Rightarrow> None
                    | Some v3 \<Rightarrow>
                        let v4 = trim_suffix_dot v3 in
                        if destinationBoringHost v4 then Some v4 else None)"

section \<open>Collectors\<close>

text \<open>The shared loop: value turns an argument value into the collected string, None being the
  early return with the reason.\<close>

fun collect_loop ::
    "(string \<Rightarrow> bool) \<Rightarrow> (json \<Rightarrow> string option) \<Rightarrow> string \<Rightarrow> args \<Rightarrow> string + string list" where
  "collect_loop is_slot val reason [] = Inr []"
| "collect_loop is_slot val reason ((k, v) # m) =
     (if \<not> is_slot k then collect_loop is_slot val reason m
      else case val v of
             None \<Rightarrow> Inl reason
           | Some s \<Rightarrow>
               (case collect_loop is_slot val reason m of Inl r \<Rightarrow> Inl r | Inr vs \<Rightarrow> Inr (s # vs)))"

definition collect_required ::
    "(string \<Rightarrow> bool) \<Rightarrow> (json \<Rightarrow> string option) \<Rightarrow> string \<Rightarrow> args option \<Rightarrow> string + string list" where
  "collect_required is_slot val reason args =
     (case args of
        None \<Rightarrow> Inl reason
      | Some m \<Rightarrow>
          (case collect_loop is_slot val reason m of
             Inl r \<Rightarrow> Inl r
           | Inr vs \<Rightarrow> if vs = [] then Inl reason else Inr vs))"

definition collect_present ::
    "(string \<Rightarrow> bool) \<Rightarrow> (json \<Rightarrow> string option) \<Rightarrow> string \<Rightarrow> args option \<Rightarrow> string + string list" where
  "collect_present is_slot val reason args =
     (case args of None \<Rightarrow> Inr [] | Some m \<Rightarrow> collect_loop is_slot val reason m)"

definition nonblank_string :: "json \<Rightarrow> string option" where
  "nonblank_string v = (case v of JStr s \<Rightarrow> if trim_space s = [] then None else Some s | _ \<Rightarrow> None)"

definition nonempty_string :: "json \<Rightarrow> string option" where
  "nonempty_string v = (case v of JStr s \<Rightarrow> if s = [] then None else Some s | _ \<Rightarrow> None)"

definition host_string :: "json \<Rightarrow> string option" where
  "host_string v = (case v of JStr s \<Rightarrow> destinationHostname s | _ \<Rightarrow> None)"

definition collectRecipientSlots :: "args option \<Rightarrow> string + string list" where
  "collectRecipientSlots = collect_required isRecipientSlotKey nonblank_string ''recipient is required''"

definition collectOwnerSlots :: "args option \<Rightarrow> string + string list" where
  "collectOwnerSlots = collect_required isOwnerSlotKey nonblank_string ''resource owner is required''"

definition collectPathSlots :: "args option \<Rightarrow> string + string list" where
  "collectPathSlots = collect_required isPathSlotKey nonblank_string ''path is required''"

definition collectEffectPathSlots :: "args option \<Rightarrow> string + string list" where
  "collectEffectPathSlots = collect_required isEffectPathSlotKey nonblank_string ''effect path is required''"

definition collectDestinationSlots :: "args option \<Rightarrow> string + string list" where
  "collectDestinationSlots = collect_required isDestinationSlotKey host_string ''destination is required''"

definition collectWorkingDirectorySlots :: "args option \<Rightarrow> string + string list" where
  "collectWorkingDirectorySlots =
     collect_required isWorkingDirectorySlotKey nonblank_string ''working directory is required''"

definition collectApplicationSlots :: "args option \<Rightarrow> string + string list" where
  "collectApplicationSlots =
     collect_required isApplicationSlotKey nonblank_string ''application is required''"

definition collectSkillSlots :: "args option \<Rightarrow> string + string list" where
  "collectSkillSlots = collect_required isSkillSlotKey nonblank_string ''skill is required''"

definition collectPresentSecretSlots :: "args option \<Rightarrow> string + string list" where
  "collectPresentSecretSlots = collect_present isSecretSlotKey nonblank_string ''credential is required''"

definition collectOptionalExecutableSlots :: "args option \<Rightarrow> string + string list" where
  "collectOptionalExecutableSlots =
     collect_present isExecutableSlotKey nonempty_string ''executable is required''"

definition collectOptionalActivationDestinationSlots :: "args option \<Rightarrow> string + string list" where
  "collectOptionalActivationDestinationSlots =
     collect_present isDestinationSlotKey host_string ''destination is required''"

definition permissionBypassExplicitlyOff :: "string \<Rightarrow> bool" where
  "permissionBypassExplicitlyOff s = List.member [''false'', ''0'', ''no'', ''off''] (to_lower s)"

definition permissionBypassWeakens :: "json \<Rightarrow> string + bool" where
  "permissionBypassWeakens v =
     (case v of
        JBool b \<Rightarrow> Inr b
      | JStr s \<Rightarrow>
          let t = trim_space s in
          if t = [] then Inl ''permission bypass is required''
          else if permissionBypassExplicitlyOff t then Inr False else Inr True
      | _ \<Rightarrow> Inl ''permission bypass is required'')"

fun bypass_loop :: "args \<Rightarrow> string + string list" where
  "bypass_loop [] = Inr []"
| "bypass_loop ((k, v) # m) =
     (if \<not> isPermissionBypassSlotKey k then bypass_loop m
      else case permissionBypassWeakens v of
             Inl r \<Rightarrow> Inl r
           | Inr w \<Rightarrow>
               (case bypass_loop m of
                  Inl r \<Rightarrow> Inl r
                | Inr vs \<Rightarrow> Inr (if w then ''bypass'' # vs else vs)))"

definition collectPresentPermissionBypassSlots :: "args option \<Rightarrow> string + string list" where
  "collectPresentPermissionBypassSlots args =
     (case args of None \<Rightarrow> Inr [] | Some m \<Rightarrow> bypass_loop m)"

section \<open>Allowlists and shell grammar\<close>

definition recipientAllowlistConfigured :: "string list \<Rightarrow> bool" where
  "recipientAllowlistConfigured patterns = list_ex (\<lambda>p. trim_space p \<noteq> []) patterns"

definition recipientInAllowlist :: "string list \<Rightarrow> string \<Rightarrow> bool" where
  "recipientInAllowlist patterns recipient =
     (let got = trim_space recipient in
      if got = [] then False else list_ex (\<lambda>p. equal_fold (trim_space p) got) patterns)"

definition executableInAllowlist :: "string list \<Rightarrow> string \<Rightarrow> bool" where
  "executableInAllowlist patterns executable =
     (if executable = [] then False else list_ex (\<lambda>p. p = executable) patterns)"

definition pathShellMetacharacters :: string where
  "pathShellMetacharacters =
     [CHR '';'', CHR ''|'', CHR ''&'', CHR 0x60, CHR ''$'', CHR ''('', CHR '')'', CHR ''<'',
      CHR ''>'', CHR 0x0A, CHR 0x0D, CHR 0x00, CHR 0x27, CHR 0x22, CHR ''#'']"

definition pathContainsShellGrammar :: "string \<Rightarrow> bool" where
  "pathContainsShellGrammar path = contains_any path pathShellMetacharacters"

definition getStringArg :: "args option \<Rightarrow> string list \<Rightarrow> string option" where
  "getStringArg args keys =
     (case find (\<lambda>k. case arg_lookup args k of Some (JStr s) \<Rightarrow> True | _ \<Rightarrow> False) keys of
        None \<Rightarrow> None
      | Some k \<Rightarrow> (case arg_lookup args k of Some (JStr s) \<Rightarrow> Some s | _ \<Rightarrow> None))"

definition first_number :: "go_env \<Rightarrow> args option \<Rightarrow> string list \<Rightarrow> int" where
  "first_number E args keys =
     (case find (\<lambda>k. case arg_lookup args k of Some (JNum r) \<Rightarrow> True | _ \<Rightarrow> False) keys of
        None \<Rightarrow> 0
      | Some k \<Rightarrow> (case arg_lookup args k of Some (JNum r) \<Rightarrow> float_to_int E r | _ \<Rightarrow> 0))"

definition getSizeArg :: "go_env \<Rightarrow> args option \<Rightarrow> int" where
  "getSizeArg E args = first_number E args [''size'', ''content_length'', ''file_size'']"

definition getRowsArg :: "go_env \<Rightarrow> args option \<Rightarrow> int" where
  "getRowsArg E args = first_number E args [''limit'', ''rows'', ''count'', ''max_results'']"

section \<open>Laws of the collectors\<close>

definition slots_within :: "(string \<Rightarrow> bool) \<Rightarrow> (json \<Rightarrow> string option) \<Rightarrow> (string \<Rightarrow> bool) \<Rightarrow> args \<Rightarrow> bool" where
  "slots_within is_slot val P m \<longleftrightarrow> (\<forall>(k, v)\<in>set m. is_slot k \<longrightarrow> (\<exists>s. val v = Some s \<and> P s))"

definition has_slot :: "(string \<Rightarrow> bool) \<Rightarrow> args \<Rightarrow> bool" where
  "has_slot is_slot m \<longleftrightarrow> (\<exists>(k, v)\<in>set m. is_slot k)"

definition slot_values :: "(string \<Rightarrow> bool) \<Rightarrow> (json \<Rightarrow> string option) \<Rightarrow> args \<Rightarrow> string set" where
  "slot_values is_slot val m = {s. \<exists>k v. (k, v) \<in> set m \<and> is_slot k \<and> val v = Some s}"

text \<open>What a rule relies on in a collector: a successful collection holds the value of every slot
  of the arguments and nothing else, and it fails only when a slot has no value or, for a
  mandatory collector, when there is no slot at all.\<close>

locale slot_collector =
  fixes is_slot :: "string \<Rightarrow> bool"
    and val :: "json \<Rightarrow> string option"
    and collect :: "args option \<Rightarrow> string + string list"
    and needed :: bool
  assumes collect_values: "collect (Some m) = Inr vs \<Longrightarrow> set vs = slot_values is_slot val m"
    and collect_ok: "(\<exists>vs. collect (Some m) = Inr vs) \<longleftrightarrow>
          slots_within is_slot val (\<lambda>s. True) m \<and> (needed \<longrightarrow> has_slot is_slot m)"
    and collect_none: "collect None = (if needed then collect (Some []) else Inr [])"
begin

lemma collect_all_iff:
  "(\<exists>vs. collect (Some m) = Inr vs \<and> (\<forall>s\<in>set vs. P s)) \<longleftrightarrow>
     slots_within is_slot val P m \<and> (needed \<longrightarrow> has_slot is_slot m)"
proof
  assume "\<exists>vs. collect (Some m) = Inr vs \<and> (\<forall>s\<in>set vs. P s)"
  then obtain vs where "collect (Some m) = Inr vs" "\<forall>s\<in>set vs. P s" by blast
  then show "slots_within is_slot val P m \<and> (needed \<longrightarrow> has_slot is_slot m)"
    using collect_values [of m vs] collect_ok [of m]
    by (fastforce simp: slots_within_def slot_values_def)
next
  assume *: "slots_within is_slot val P m \<and> (needed \<longrightarrow> has_slot is_slot m)"
  then obtain vs where "collect (Some m) = Inr vs"
    using collect_ok [of m] by (fastforce simp: slots_within_def)
  then show "\<exists>vs. collect (Some m) = Inr vs \<and> (\<forall>s\<in>set vs. P s)"
    using * collect_values [of m vs] by (fastforce simp: slots_within_def slot_values_def)
qed

lemma needed_fails_on_nil:
  assumes needed
  shows "\<exists>r. collect None = Inl r"
proof (cases "collect (Some [])")
  case (Inr vs)
  with assms collect_ok [of "[]"] show ?thesis by (simp add: has_slot_def)
next
  case (Inl r)
  with assms show ?thesis by (simp add: collect_none)
qed

end

lemma collect_loop_spec:
  "case collect_loop is_slot val reason m of
     Inr vs \<Rightarrow> slots_within is_slot val (\<lambda>s. True) m \<and> set vs = slot_values is_slot val m
               \<and> (vs = [] \<longleftrightarrow> \<not> has_slot is_slot m)
   | Inl r \<Rightarrow> \<not> slots_within is_slot val (\<lambda>s. True) m"
proof (induction m)
  case Nil
  then show ?case by (simp add: slots_within_def slot_values_def has_slot_def)
next
  case (Cons kv m)
  obtain k v where kv: "kv = (k, v)" by fastforce
  have vals: "slot_values is_slot val ((k, v) # m) =
      (if is_slot k then set_option (val v) else {}) \<union> slot_values is_slot val m"
    by (auto simp: slot_values_def)
  show ?case
    using Cons vals unfolding kv
    by (auto simp: slots_within_def has_slot_def split: sum.splits option.splits)
qed

lemma collect_required_collector:
  "slot_collector is_slot val (collect_required is_slot val reason) True"
proof
  fix m vs
  assume "collect_required is_slot val reason (Some m) = Inr vs"
  then show "set vs = slot_values is_slot val m"
    using collect_loop_spec [where is_slot = is_slot and val = val and reason = reason and m = m]
    by (auto simp: collect_required_def split: sum.splits if_splits)
next
  fix m
  show "(\<exists>vs. collect_required is_slot val reason (Some m) = Inr vs) \<longleftrightarrow>
      slots_within is_slot val (\<lambda>s. True) m \<and> (True \<longrightarrow> has_slot is_slot m)"
    using collect_loop_spec [where is_slot = is_slot and val = val and reason = reason and m = m]
    by (auto simp: collect_required_def split: sum.splits)
qed (simp add: collect_required_def)

lemma collect_present_collector:
  "slot_collector is_slot val (collect_present is_slot val reason) False"
proof
  fix m vs
  assume "collect_present is_slot val reason (Some m) = Inr vs"
  then show "set vs = slot_values is_slot val m"
    using collect_loop_spec [where is_slot = is_slot and val = val and reason = reason and m = m] by (simp add: collect_present_def)
next
  fix m
  show "(\<exists>vs. collect_present is_slot val reason (Some m) = Inr vs) \<longleftrightarrow>
      slots_within is_slot val (\<lambda>s. True) m \<and> (False \<longrightarrow> has_slot is_slot m)"
    using collect_loop_spec [where is_slot = is_slot and val = val and reason = reason and m = m]
    by (auto simp: collect_present_def split: sum.splits)
qed (simp add: collect_present_def)

interpretation recipient: slot_collector isRecipientSlotKey nonblank_string collectRecipientSlots True
  unfolding collectRecipientSlots_def by (rule collect_required_collector)

interpretation owner: slot_collector isOwnerSlotKey nonblank_string collectOwnerSlots True
  unfolding collectOwnerSlots_def by (rule collect_required_collector)

interpretation path: slot_collector isPathSlotKey nonblank_string collectPathSlots True
  unfolding collectPathSlots_def by (rule collect_required_collector)

interpretation effect_path: slot_collector isEffectPathSlotKey nonblank_string collectEffectPathSlots True
  unfolding collectEffectPathSlots_def by (rule collect_required_collector)

interpretation destination: slot_collector isDestinationSlotKey host_string collectDestinationSlots True
  unfolding collectDestinationSlots_def by (rule collect_required_collector)

interpretation cwd: slot_collector isWorkingDirectorySlotKey nonblank_string collectWorkingDirectorySlots True
  unfolding collectWorkingDirectorySlots_def by (rule collect_required_collector)

interpretation application: slot_collector isApplicationSlotKey nonblank_string collectApplicationSlots True
  unfolding collectApplicationSlots_def by (rule collect_required_collector)

interpretation skill: slot_collector isSkillSlotKey nonblank_string collectSkillSlots True
  unfolding collectSkillSlots_def by (rule collect_required_collector)

interpretation secret: slot_collector isSecretSlotKey nonblank_string collectPresentSecretSlots False
  unfolding collectPresentSecretSlots_def by (rule collect_present_collector)

interpretation executable: slot_collector isExecutableSlotKey nonempty_string collectOptionalExecutableSlots False
  unfolding collectOptionalExecutableSlots_def by (rule collect_present_collector)

interpretation activation_host:
  slot_collector isDestinationSlotKey host_string collectOptionalActivationDestinationSlots False
  unfolding collectOptionalActivationDestinationSlots_def by (rule collect_present_collector)

lemma bypass_loop_passes_iff:
  "bypass_loop m = Inr [] \<longleftrightarrow>
     (\<forall>(k, v)\<in>set m. isPermissionBypassSlotKey k \<longrightarrow> permissionBypassWeakens v = Inr False)"
  by (induction m rule: bypass_loop.induct) (auto split: sum.splits)

section \<open>Where the host of a destination comes from\<close>

lemma starts_with_append: "starts_with p s \<Longrightarrow> \<exists>t. s = p @ t"
  by (induction p s rule: starts_with.induct) auto

lemma str_index_SomeD: "str_index s sub = Some i \<Longrightarrow> \<exists>t. s = take i s @ sub @ t"
proof (induction s arbitrary: i)
  case Nil
  then show ?case by (simp split: if_splits)
next
  case (Cons c s)
  show ?case
  proof (cases "starts_with sub (c # s)")
    case True
    with Cons.prems show ?thesis using starts_with_append [OF True] by auto
  next
    case False
    with Cons.prems obtain j where "i = Suc j" "str_index s sub = Some j" by auto
    with Cons.IH [of j] show ?thesis by auto
  qed
qed

lemma last_index_SomeD: "last_index c s = Some i \<Longrightarrow> s = take i s @ c # drop (i + 1) s"
  by (induction s arbitrary: i) (auto split: option.splits if_splits)

lemma last_index_None: "last_index c s = None \<longleftrightarrow> c \<notin> set s"
  by (induction s) (auto split: option.splits)

lemma trim_suffix_dot_cases: "\<exists>dot. v = trim_suffix_dot v @ dot \<and> dot \<in> {[], ''.''}"
proof (cases "v \<noteq> [] \<and> last v = CHR ''.''")
  case True
  then have "v = butlast v @ ''.''" using append_butlast_last_id [of v] by simp
  with True show ?thesis by (auto simp: trim_suffix_dot_def)
next
  case False
  then show ?thesis by (auto simp: trim_suffix_dot_def)
qed

definition port_suffix :: "string \<Rightarrow> bool" where
  "port_suffix p \<longleftrightarrow> p = [] \<or> (\<exists>ds. p = CHR '':'' # ds \<and> destinationPortDigits ds)"

definition scheme_prefix :: "string \<Rightarrow> bool" where
  "scheme_prefix p \<longleftrightarrow> p = [] \<or> (\<exists>sch. p = sch @ ''://'' \<and> destinationBoringScheme sch)"

definition url_tail :: "string \<Rightarrow> bool" where
  "url_tail r \<longleftrightarrow> r = [] \<or> hd r \<in> {CHR ''/'', CHR ''?'', CHR ''#''}"

lemma strip_scheme_SomeD:
  "strip_scheme v = Some w \<Longrightarrow> \<exists>pre. v = pre @ w \<and> scheme_prefix pre"
proof (cases "str_index v ''://''")
  case None
  moreover assume "strip_scheme v = Some w"
  ultimately show ?thesis by (simp add: strip_scheme_def scheme_prefix_def)
next
  case (Some i)
  moreover assume "strip_scheme v = Some w"
  ultimately have w: "w = drop (i + 3) v" and b: "destinationBoringScheme (take i v)"
    by (auto simp: strip_scheme_def split: if_splits)
  obtain t where t: "v = take i v @ ''://'' @ t" using str_index_SomeD [OF Some] by blast
  then have len: "length (take i v) = i" by (metis append_is_Nil_conv append_take_drop_id
        length_take list.distinct(1) min.absorb2 min.cobounded1 nat_le_linear self_append_conv take_all)
  have "drop (i + 3) (take i v @ ''://'' @ t) = t" using len by simp
  with t w have "w = t" by metis
  with t b show ?thesis unfolding scheme_prefix_def by (metis append.assoc)
qed

lemma strip_port_SomeD:
  "strip_port v = Some w \<Longrightarrow> \<exists>p. v = w @ p \<and> port_suffix p"
proof (cases "last_index CHR '':'' v")
  case None
  moreover assume "strip_port v = Some w"
  ultimately show ?thesis by (simp add: strip_port_def port_suffix_def)
next
  case (Some i)
  moreover assume "strip_port v = Some w"
  ultimately have w: "w = take i v" and d: "destinationPortDigits (drop (i + 1) v)"
    by (auto simp: strip_port_def split: if_splits)
  show ?thesis using last_index_SomeD [OF Some] w d unfolding port_suffix_def by blast
qed

lemma takeWhile_tail:
  "\<exists>r. v = takeWhile (\<lambda>c. c \<notin> {CHR ''/'', CHR ''?'', CHR ''#''}) v @ r \<and> url_tail r"
proof -
  let ?P = "\<lambda>c. c \<notin> {CHR ''/'', CHR ''?'', CHR ''#''}"
  have "url_tail (dropWhile ?P v)"
    using hd_dropWhile [of ?P v] unfolding url_tail_def by fastforce
  then show ?thesis using takeWhile_dropWhile_id [of ?P v] by metis
qed

lemma destinationHostname_shape:
  assumes "destinationHostname raw = Some h"
  shows "destinationBoringHost h
     \<and> (\<exists>pre dot port rest. trim_space raw = pre @ h @ dot @ port @ rest
          \<and> scheme_prefix pre \<and> dot \<in> {[], ''.''} \<and> port_suffix port \<and> url_tail rest)"
proof -
  obtain v1 v3 where
    s: "strip_scheme (trim_space raw) = Some v1"
    and p: "strip_port (takeWhile (\<lambda>c. c \<notin> {CHR ''/'', CHR ''?'', CHR ''#''}) v1) = Some v3"
    and h: "h = trim_suffix_dot v3" "destinationBoringHost h"
    using assms unfolding destinationHostname_def Let_def
    by (auto split: option.splits if_splits)
  obtain pre where pre: "trim_space raw = pre @ v1" "scheme_prefix pre"
    using strip_scheme_SomeD [OF s] by blast
  obtain port where port: "takeWhile (\<lambda>c. c \<notin> {CHR ''/'', CHR ''?'', CHR ''#''}) v1 = v3 @ port"
      "port_suffix port" using strip_port_SomeD [OF p] by blast
  obtain rest where rest: "v1 = (v3 @ port) @ rest" "url_tail rest"
    using takeWhile_tail [of v1] port by metis
  obtain dot where "v3 = h @ dot" "dot \<in> {[], ''.''}" using trim_suffix_dot_cases [of v3] h by blast
  then show ?thesis using h(2) pre port(2) rest by (metis append.assoc)
qed

text \<open>The host that a destination argument is judged by is the host of the argument: after
  trimming, the argument is an optional scheme with ://, then the host, then at most one dot, an
  optional port of digits, and nothing or a path, query or fragment. The host has letters,
  digits, dashes and single dots only, so no user part, bracket, escape or second port can hide
  another authority.\<close>

theorem destination_host_shape:
  assumes "destinationHostname raw = Some h"
  shows "destinationBoringHost h
     \<and> (\<exists>pre dot port rest. trim_space raw = pre @ h @ dot @ port @ rest
          \<and> scheme_prefix pre \<and> dot \<in> {[], ''.''} \<and> port_suffix port \<and> url_tail rest)"
  using assms by (rule destinationHostname_shape)

theorem destination_host_shape_witness:
  "destinationBoringHost ''Docs.internal''
     \<and> (\<exists>pre dot port rest. trim_space '' https://Docs.internal.:443/a?b'' = pre @ ''Docs.internal'' @ dot @ port @ rest
          \<and> scheme_prefix pre \<and> dot \<in> {[], ''.''} \<and> port_suffix port \<and> url_tail rest)"
  by (rule destination_host_shape) code_simp

text \<open>The permission-bypass collector finds nothing exactly when every bypass argument is an
  explicit off: the boolean false, or a string that trims and lowers to false, 0, no or off.\<close>

theorem permission_bypass_off_iff:
  "collectPresentPermissionBypassSlots (Some m) = Inr [] \<longleftrightarrow>
     list_all (\<lambda>(k, v). isPermissionBypassSlotKey k \<longrightarrow>
        v = JBool False
        \<or> (\<exists>s. v = JStr s \<and> to_lower (trim_space s) \<in> {''false'', ''0'', ''no'', ''off''})) m"
proof -
  have "permissionBypassWeakens v = Inr False \<longleftrightarrow>
      v = JBool False \<or> (\<exists>s. v = JStr s \<and> to_lower (trim_space s) \<in> {''false'', ''0'', ''no'', ''off''})" for v
    by (cases v) (auto simp: permissionBypassWeakens_def permissionBypassExplicitlyOff_def Let_def)
  then show ?thesis
    by (simp add: collectPresentPermissionBypassSlots_def bypass_loop_passes_iff list_all_iff)
qed

definition bypass_args :: args where
  "bypass_args = [(''Skip_Permissions'', JStr '' Off ''), (''name'', JStr ''x'')]"

theorem permission_bypass_off_iff_witness:
  "collectPresentPermissionBypassSlots (Some bypass_args) = Inr []"
proof -
  have "to_lower (trim_space '' Off '') = ''off''" "\<not> isPermissionBypassSlotKey ''name''" by code_simp+
  then show ?thesis by (simp add: permission_bypass_off_iff bypass_args_def)
qed

end
