(* ===== verification/Policy_Validator.thy ===== *)
theory Policy_Validator
  imports Policy_Types Policy_Slots
begin

text \<open>
  \<^verbatim>\<open>src/internal/policy/validator.go\<close>: the argument validator that compiles a tool's patterns,
  the domain and repository lists, and the test for a lineage rule. A compiled glob is always a
  legal expression (quoted literals, \<^verbatim>\<open>.*\<close> and \<^verbatim>\<open>[^/]*\<close>), so the fallback of \<^verbatim>\<open>compileGlob\<close> is
  never taken and a compiled pattern is represented by its source text.
\<close>

definition hasLineageRequire :: "arg_rule list \<Rightarrow> bool" where
  "hasLineageRequire rules = list_ex (\<lambda>rule. ar_type rule = ''lineage_require'') rules"

record arg_validator =
  av_deny :: "string list"
  av_allow :: "string list"

definition NewArgValidator :: arg_validator where
  "NewArgValidator = \<lparr>av_deny = [], av_allow = []\<rparr>"

definition deny_types :: "string list" where
  "deny_types = [''deny_path'', ''deny_command_pattern'', ''deny_query_pattern'']"

definition allow_types :: "string list" where
  "allow_types = [''allow_path'', ''allow_command_pattern'', ''allow_query_pattern'']"

fun compile_patterns :: "string \<Rightarrow> arg_validator \<Rightarrow> string list \<Rightarrow> arg_validator" where
  "compile_patterns ty v [] = v"
| "compile_patterns ty v (p # ps) =
     compile_patterns ty
       (if List.member deny_types ty then v\<lparr>av_deny := av_deny v @ [p]\<rparr>
        else if List.member allow_types ty then v\<lparr>av_allow := av_allow v @ [p]\<rparr>
        else v) ps"

fun Compile :: "arg_validator \<Rightarrow> arg_rule list \<Rightarrow> arg_validator" where
  "Compile v [] = v"
| "Compile v (rule # rules) = Compile (compile_patterns (ar_type rule) v (ar_patterns rule)) rules"

definition matchGlobPath :: "go_env \<Rightarrow> string \<Rightarrow> string \<Rightarrow> bool" where
  "matchGlobPath E pattern path =
     (filepath_match E pattern path \<or> filepath_match E (to_lower pattern) (to_lower path))"

definition MatchPath :: "go_env \<Rightarrow> arg_validator \<Rightarrow> string \<Rightarrow> bool \<times> string" where
  "MatchPath E v path =
     (let hit = (\<lambda>p. glob_ci p path \<or> matchGlobPath E p path) in
      case find hit (av_deny v) of
        Some p \<Rightarrow> (True, ''path matches deny pattern: '' @ p)
      | None \<Rightarrow> if av_allow v \<noteq> [] \<and> \<not> list_ex hit (av_allow v)
                then (True, ''path does not match any allow pattern'')
                else (False, []))"

definition MatchCommand :: "arg_validator \<Rightarrow> string \<Rightarrow> bool \<times> string" where
  "MatchCommand v cmd =
     (let hit = (\<lambda>p. glob_ci p cmd) in
      case find hit (av_deny v) of
        Some p \<Rightarrow> (True, ''command matches deny pattern: '' @ p)
      | None \<Rightarrow> if av_allow v \<noteq> [] \<and> \<not> list_ex hit (av_allow v)
                then (True, ''command does not match any allow pattern'')
                else (False, []))"

definition MatchesGlob :: "go_env \<Rightarrow> string \<Rightarrow> string \<Rightarrow> bool" where
  "MatchesGlob E pattern s = filepath_match E pattern s"

definition MatchesAnyDomain :: "go_env \<Rightarrow> string list \<Rightarrow> string \<Rightarrow> bool" where
  "MatchesAnyDomain E allowedDomains url = list_ex (\<lambda>domain. MatchesGlob E domain url) allowedDomains"

definition MatchesAnyRepo :: "string list \<Rightarrow> string \<Rightarrow> bool" where
  "MatchesAnyRepo allowedRepos repo = list_ex (\<lambda>r. equal_fold r repo) allowedRepos"

definition MatchesAnyDomainPattern :: "string list \<Rightarrow> string \<Rightarrow> bool \<times> string" where
  "MatchesAnyDomainPattern domains url =
     (case find (\<lambda>domain. str_contains url domain) domains of
        Some domain \<Rightarrow> (True, domain)
      | None \<Rightarrow> (False, []))"

lemma compile_patterns_append:
  "compile_patterns ty v ps =
     v\<lparr>av_deny := av_deny v @ (if List.member deny_types ty then ps else []),
       av_allow := av_allow v @ (if \<not> List.member deny_types ty \<and> List.member allow_types ty then ps else [])\<rparr>"
  by (induction ps arbitrary: v) auto

lemma Compile_sets:
  "set (av_deny (Compile v rules)) =
     set (av_deny v) \<union> {p. \<exists>r\<in>set rules. List.member deny_types (ar_type r) \<and> p \<in> set (ar_patterns r)}"
  "set (av_allow (Compile v rules)) =
     set (av_allow v) \<union> {p. \<exists>r\<in>set rules. \<not> List.member deny_types (ar_type r)
                              \<and> List.member allow_types (ar_type r) \<and> p \<in> set (ar_patterns r)}"
  by (induction rules arbitrary: v) (auto simp: compile_patterns_append)

lemma MatchesAnyDomainPattern_iff:
  "fst (MatchesAnyDomainPattern domains url) \<longleftrightarrow> (\<exists>d\<in>set domains. str_contains url d)"
  by (auto simp: MatchesAnyDomainPattern_def find_None_iff_all dest: find_SomeD split: option.splits)

end
