(* ===== verification/Policy_Engine.thy ===== *)
theory Policy_Engine
  imports Policy_Registry Policy_Validator
begin

text \<open>
  The policy engine (\<^verbatim>\<open>src/internal/policy/engine.go\<close>). The engine record holds the published
  policy and its registry, the client identity and the process-start actor context; a watcher, when
  present, only replaces where the pair policy/registry is read from, so the record stands for
  \<^verbatim>\<open>current()\<close>. Logging has no effect on a decision and is left out. The three readings of the wall
  clock of one call are clk 0 (verified actor), clk 1 (lineage) and clk 2 (time restrictions).
\<close>

record engine =
  eng_policy :: policy
  eng_registry :: policy_registry
  eng_client_id :: string
  eng_verified :: "actor_context option"
  eng_hash :: "snapshot_body \<Rightarrow> string"

definition NewEngine :: "(snapshot_body \<Rightarrow> string) \<Rightarrow> policy \<Rightarrow> engine" where
  "NewEngine h p =
     \<lparr>eng_policy = p, eng_registry = NewPolicyRegistry p, eng_client_id = [], eng_verified = None,
      eng_hash = h\<rparr>"

definition SetClientID :: "string \<Rightarrow> engine \<Rightarrow> engine" where
  "SetClientID cid e = e\<lparr>eng_client_id := cid\<rparr>"

definition SetVerifiedActor :: "actor_context option \<Rightarrow> engine \<Rightarrow> engine" where
  "SetVerifiedActor c e = e\<lparr>eng_verified := c\<rparr>"

text \<open>\<^verbatim>\<open>Reload\<close> without a committer; a nil policy is ignored.\<close>

definition Reload :: "policy option \<Rightarrow> engine \<Rightarrow> engine" where
  "Reload p e =
     (case p of None \<Rightarrow> e
      | Some q \<Rightarrow> e\<lparr>eng_policy := q, eng_registry := NewPolicyRegistry q\<rparr>)"

section \<open>Identity of the session\<close>

definition sessionIdentityAt :: "engine \<Rightarrow> int \<Rightarrow> int \<Rightarrow> string" where
  "sessionIdentityAt e clock now =
     (case eng_verified e of
        Some c \<Rightarrow>
          if trim_space (ac_acting_agent c) \<noteq> [] \<and> Check (eng_hash e) clock c now = Inr ()
          then ac_acting_agent c else eng_client_id e
      | None \<Rightarrow> eng_client_id e)"

definition evaluateVerifiedActor :: "engine \<Rightarrow> int \<Rightarrow> tool_rule option \<Rightarrow> policy \<Rightarrow> decision" where
  "evaluateVerifiedActor e now tool pol =
     (let scopes = (case tool of Some t \<Rightarrow> tool_required_scopes t | None \<Rightarrow> []);
          require = set_require_verified_actor (pol_settings pol) \<or> scopes \<noteq> []
      in if \<not> require then mk_decision ActionAllow ''verified actor not required''
         else case eng_verified e of
                None \<Rightarrow> mk_decision ActionDeny ''verified actor context required''
              | Some c \<Rightarrow>
                  (case Check (eng_hash e) now c now of
                     Inl err \<Rightarrow> mk_decision ActionDeny err
                   | Inr _ \<Rightarrow>
                       (case find (\<lambda>scope. \<not> HasScope c scope) scopes of
                          Some scope \<Rightarrow> mk_decision ActionDeny (''verified actor scope missing: '' @ scope)
                        | None \<Rightarrow> mk_decision ActionAllow ''verified actor context'')))"

section \<open>Argument rules\<close>

definition rule_passed :: decision where
  "rule_passed = mk_decision ActionAllow ''rule passed''"

definition rule_denied :: "string \<Rightarrow> decision" where
  "rule_denied reason = mk_decision ActionDeny reason"

lemma rule_action [simp]:
  "dec_action rule_passed = ActionAllow" "dec_action (rule_denied r) = ActionDeny"
  by (simp_all add: rule_passed_def rule_denied_def)

text \<open>The common shape of the mandate rules: collect the slots, deny with the collector's reason,
  then deny the first slot that is not permitted.\<close>

definition check_slots ::
    "string + string list \<Rightarrow> (string \<Rightarrow> bool) \<Rightarrow> string \<Rightarrow> decision" where
  "check_slots slots permitted reason =
     (case slots of
        Inl r \<Rightarrow> rule_denied r
      | Inr vs \<Rightarrow> if list_ex (\<lambda>v. \<not> permitted v) vs then rule_denied reason else rule_passed)"

definition mandate_rule ::
    "string list \<Rightarrow> string \<Rightarrow> string + string list \<Rightarrow> (string \<Rightarrow> bool) \<Rightarrow> string \<Rightarrow> decision" where
  "mandate_rule patterns empty_reason slots permitted reason =
     (if \<not> recipientAllowlistConfigured patterns then rule_denied empty_reason
      else check_slots slots permitted reason)"

definition reasonCrossPrincipalEffect :: string where
  "reasonCrossPrincipalEffect = ''cross-principal effect: argument class PRINCIPAL, effect class THIRD_PARTY, authority transition USER->OTHER''"

definition reasonPathToShellAmplification :: string where
  "reasonPathToShellAmplification = ''path-to-shell amplification: argument class PATH, effect class SHELL, authority transition PATH->SHELL''"

definition reasonDestructivePathOutsideMandate :: string where
  "reasonDestructivePathOutsideMandate = ''destructive path outside mandate: argument class PATH, effect class DESTRUCTIVE, authority transition MANDATE->COLLATERAL''"

definition reasonAuthorityExpandingDestination :: string where
  "reasonAuthorityExpandingDestination = ''authority-expanding destination: argument class URL, effect class NETWORK, authority transition MANDATE->EGRESS''"

definition reasonUntrustedExecutionEnvironment :: string where
  "reasonUntrustedExecutionEnvironment = ''untrusted execution environment: argument class PATH, effect class EXECUTION, authority transition MANDATE->ENVIRONMENT''"

definition reasonUntrustedCredentialCustody :: string where
  "reasonUntrustedCredentialCustody = ''untrusted credential custody: argument class SECRET, effect class CREDENTIAL, authority transition MANDATE->CUSTODY''"

definition reasonAuthorityExpandingApplication :: string where
  "reasonAuthorityExpandingApplication = ''authority-expanding application: argument class APPLICATION, effect class CONTROL_PLANE, authority transition MANDATE->CLUSTER''"

definition reasonUnauthorizedSkillPromotion :: string where
  "reasonUnauthorizedSkillPromotion = ''unauthorized skill promotion: argument class SKILL, effect class AUTHORITY, authority transition EXPERIENCE->SKILL''"

definition reasonPermissionBypassDelegation :: string where
  "reasonPermissionBypassDelegation = ''permission-bypass delegation: argument class PERMISSION, effect class DELEGATION, authority transition PARENT->CHILD''"

definition reasonConfigActivationSpawn :: string where
  "reasonConfigActivationSpawn = ''unauthorized configuration activation: argument class EXECUTABLE, effect class PROCESS, authority transition CONFIG->SPAWN''"

definition reasonConfigActivationNetwork :: string where
  "reasonConfigActivationNetwork = ''unauthorized configuration activation: argument class URL, effect class NETWORK, authority transition CONFIG->EGRESS''"

definition rule_deny_path :: "go_env \<Rightarrow> arg_rule \<Rightarrow> args option \<Rightarrow> decision" where
  "rule_deny_path E rule args =
     (case getStringArg args [''path'', ''file'', ''file_path''] of
        Some path \<Rightarrow> if matchesAnyPattern E (ar_patterns rule) path
                     then rule_denied ''path matches deny pattern'' else rule_passed
      | None \<Rightarrow> rule_passed)"

definition rule_allow_path :: "go_env \<Rightarrow> arg_rule \<Rightarrow> args option \<Rightarrow> decision" where
  "rule_allow_path E rule args =
     (case getStringArg args [''path'', ''file'', ''file_path''] of
        Some path \<Rightarrow> if \<not> matchesAnyPattern E (ar_patterns rule) path
                     then rule_denied ''path does not match any allow pattern'' else rule_passed
      | None \<Rightarrow> rule_passed)"

definition rule_require_path_literal :: "args option \<Rightarrow> decision" where
  "rule_require_path_literal args =
     check_slots (collectPathSlots args) (\<lambda>slot. \<not> pathContainsShellGrammar slot)
       reasonPathToShellAmplification"

definition rule_allow_path_slot :: "go_env \<Rightarrow> arg_rule \<Rightarrow> args option \<Rightarrow> decision" where
  "rule_allow_path_slot E rule args =
     mandate_rule (ar_patterns rule) ''path slot allowlist is empty'' (collectEffectPathSlots args)
       (matchesAnyPattern E (ar_patterns rule)) reasonDestructivePathOutsideMandate"

definition rule_allow_destination :: "arg_rule \<Rightarrow> args option \<Rightarrow> decision" where
  "rule_allow_destination rule args =
     mandate_rule (ar_patterns rule) ''destination allowlist is empty'' (collectDestinationSlots args)
       (recipientInAllowlist (ar_patterns rule)) reasonAuthorityExpandingDestination"

definition rule_allow_working_directory :: "go_env \<Rightarrow> arg_rule \<Rightarrow> args option \<Rightarrow> decision" where
  "rule_allow_working_directory E rule args =
     mandate_rule (ar_patterns rule) ''working directory allowlist is empty''
       (collectWorkingDirectorySlots args) (matchesAnyPattern E (ar_patterns rule))
       reasonUntrustedExecutionEnvironment"

definition rule_deny_secret :: "args option \<Rightarrow> decision" where
  "rule_deny_secret args =
     check_slots (collectPresentSecretSlots args) (\<lambda>slot. False) reasonUntrustedCredentialCustody"

definition rule_allow_application :: "arg_rule \<Rightarrow> args option \<Rightarrow> decision" where
  "rule_allow_application rule args =
     mandate_rule (ar_patterns rule) ''application allowlist is empty'' (collectApplicationSlots args)
       (recipientInAllowlist (ar_patterns rule)) reasonAuthorityExpandingApplication"

definition rule_allow_skill :: "arg_rule \<Rightarrow> args option \<Rightarrow> decision" where
  "rule_allow_skill rule args =
     mandate_rule (ar_patterns rule) ''skill allowlist is empty'' (collectSkillSlots args)
       (recipientInAllowlist (ar_patterns rule)) reasonUnauthorizedSkillPromotion"

definition rule_deny_permission_bypass :: "args option \<Rightarrow> decision" where
  "rule_deny_permission_bypass args =
     check_slots (collectPresentPermissionBypassSlots args) (\<lambda>slot. False)
       reasonPermissionBypassDelegation"

definition rule_allow_activation :: "arg_rule \<Rightarrow> args option \<Rightarrow> decision" where
  "rule_allow_activation rule args =
     (if \<not> recipientAllowlistConfigured (ar_patterns rule) \<and> \<not> recipientAllowlistConfigured (ar_domains rule)
      then rule_denied ''activation allowlist is empty''
      else case collectOptionalExecutableSlots args of
             Inl r \<Rightarrow> rule_denied r
           | Inr execs \<Rightarrow>
               (case collectOptionalActivationDestinationSlots args of
                  Inl r \<Rightarrow> rule_denied r
                | Inr dests \<Rightarrow>
                    if execs = [] \<and> dests = [] then rule_denied ''activation target is required''
                    else if list_ex (\<lambda>slot. \<not> executableInAllowlist (ar_patterns rule) slot) execs
                    then rule_denied reasonConfigActivationSpawn
                    else if list_ex (\<lambda>slot. \<not> recipientInAllowlist (ar_domains rule) slot) dests
                    then rule_denied reasonConfigActivationNetwork
                    else rule_passed))"

definition command_keys :: "string list" where
  "command_keys = [''command'', ''cmd'', ''exec'']"

definition query_keys :: "string list" where
  "query_keys = [''query'', ''sql'', ''statement'']"

definition rule_deny_pattern ::
    "go_env \<Rightarrow> string list \<Rightarrow> string \<Rightarrow> arg_rule \<Rightarrow> args option \<Rightarrow> decision" where
  "rule_deny_pattern E keys what rule args =
     (case getStringArg args keys of
        None \<Rightarrow> rule_passed
      | Some s \<Rightarrow>
          (case find (\<lambda>p. regexp_match E (''(?i)'' @ p) s) (ar_patterns rule) of
             Some p \<Rightarrow> rule_denied (what @ '' matches deny pattern: '' @ p)
           | None \<Rightarrow> rule_passed))"

definition rule_allow_pattern ::
    "go_env \<Rightarrow> string list \<Rightarrow> string \<Rightarrow> arg_rule \<Rightarrow> args option \<Rightarrow> decision" where
  "rule_allow_pattern E keys what rule args =
     (case getStringArg args keys of
        None \<Rightarrow> rule_passed
      | Some s \<Rightarrow>
          if list_ex (\<lambda>p. regexp_match E (''(?i)'' @ p) s) (ar_patterns rule) then rule_passed
          else rule_denied (what @ '' does not match any allow pattern''))"

definition rule_deny_command_keyword :: "arg_rule \<Rightarrow> args option \<Rightarrow> decision" where
  "rule_deny_command_keyword rule args =
     (case getStringArg args command_keys of
        None \<Rightarrow> rule_passed
      | Some cmd \<Rightarrow>
          (case find (\<lambda>kw. str_contains (to_lower cmd) (to_lower kw)) (ar_keywords rule) of
             Some kw \<Rightarrow> rule_denied (''command contains denied keyword: '' @ kw)
           | None \<Rightarrow> rule_passed))"

definition rule_recipient_domain :: "arg_rule \<Rightarrow> args option \<Rightarrow> decision" where
  "rule_recipient_domain rule args =
     (case getStringArg args [''recipient'', ''to'', ''email'', ''domain''] of
        None \<Rightarrow> rule_passed
      | Some domain \<Rightarrow>
          let matched = fst (MatchesAnyDomainPattern (ar_domains rule) domain) in
          if ar_type rule = ''deny_recipient_domain'' \<and> matched
          then rule_denied ''recipient domain is denied''
          else if ar_type rule = ''allow_recipient_domain'' \<and> \<not> matched
          then rule_denied ''recipient domain is not in allowlist''
          else rule_passed)"

definition rule_allow_recipient :: "arg_rule \<Rightarrow> args option \<Rightarrow> decision" where
  "rule_allow_recipient rule args =
     mandate_rule (ar_patterns rule) ''recipient allowlist is empty'' (collectRecipientSlots args)
       (recipientInAllowlist (ar_patterns rule)) ''recipient is not in allowlist''"

definition rule_allow_resource_owner :: "arg_rule \<Rightarrow> args option \<Rightarrow> decision" where
  "rule_allow_resource_owner rule args =
     mandate_rule (ar_patterns rule) ''resource owner allowlist is empty'' (collectOwnerSlots args)
       (recipientInAllowlist (ar_patterns rule)) reasonCrossPrincipalEffect"

definition rule_allowed_repos :: "arg_rule \<Rightarrow> args option \<Rightarrow> decision" where
  "rule_allowed_repos rule args =
     (case getStringArg args [''repo'', ''repository'', ''owner/repo''] of
        None \<Rightarrow> rule_passed
      | Some repo \<Rightarrow>
          if \<not> MatchesAnyRepo (ar_repos rule) repo
          then rule_denied (''repository '' @ [CHR 0x27] @ repo @ [CHR 0x27] @ '' is not in allowlist'')
          else rule_passed)"

definition rule_max_file_size :: "go_env \<Rightarrow> arg_rule \<Rightarrow> args option \<Rightarrow> decision" where
  "rule_max_file_size E rule args =
     (let size = getSizeArg E args in
      if 0 < size \<and> 0 < ar_bytes rule \<and> ar_bytes rule < size
      then rule_denied (''file size '' @ itoa size @ '' exceeds max '' @ itoa (ar_bytes rule) @ '' bytes'')
      else rule_passed)"

definition rule_max_rows :: "go_env \<Rightarrow> arg_rule \<Rightarrow> args option \<Rightarrow> decision" where
  "rule_max_rows E rule args =
     (let rows = getRowsArg E args in
      if 0 < rows \<and> 0 < ar_rows rule \<and> ar_rows rule < rows
      then rule_denied (''rows '' @ itoa rows @ '' exceeds max '' @ itoa (ar_rows rule))
      else rule_passed)"

text \<open>The switch over the rule type; an unknown type falls through to the final return.\<close>

definition evaluateRule :: "go_env \<Rightarrow> arg_rule \<Rightarrow> args option \<Rightarrow> string \<Rightarrow> decision" where
  "evaluateRule E rule args toolName =
     (let t = ar_type rule in
      if t = ''deny_path'' then rule_deny_path E rule args
      else if t = ''allow_path'' then rule_allow_path E rule args
      else if t = ''require_path_literal'' then rule_require_path_literal args
      else if t = ''allow_path_slot'' then rule_allow_path_slot E rule args
      else if t = ''allow_destination'' then rule_allow_destination rule args
      else if t = ''allow_working_directory'' then rule_allow_working_directory E rule args
      else if t = ''deny_secret'' then rule_deny_secret args
      else if t = ''allow_application'' then rule_allow_application rule args
      else if t = ''allow_skill'' then rule_allow_skill rule args
      else if t = ''deny_permission_bypass'' then rule_deny_permission_bypass args
      else if t = ''allow_activation'' then rule_allow_activation rule args
      else if t = ''deny_command_pattern'' then rule_deny_pattern E command_keys ''command'' rule args
      else if t = ''allow_command_pattern'' then rule_allow_pattern E command_keys ''command'' rule args
      else if t = ''deny_command_keyword'' then rule_deny_command_keyword rule args
      else if t = ''deny_query_pattern'' then rule_deny_pattern E query_keys ''query'' rule args
      else if t = ''allow_query_pattern'' then rule_allow_pattern E query_keys ''query'' rule args
      else if t = ''deny_recipient_domain'' \<or> t = ''allow_recipient_domain''
      then rule_recipient_domain rule args
      else if t = ''allow_recipient'' then rule_allow_recipient rule args
      else if t = ''allow_resource_owner'' then rule_allow_resource_owner rule args
      else if t = ''allowed_repos'' then rule_allowed_repos rule args
      else if t = ''max_file_size'' then rule_max_file_size E rule args
      else if t = ''max_result_rows'' \<or> t = ''max_export_rows'' then rule_max_rows E rule args
      else if t = ''require_approval_always''
      then mk_decision ActionRequireApproval ''approval is required for this tool''
      else if t = ''lineage_require'' then mk_decision ActionAllow ''lineage_require''
      else rule_passed)"

section \<open>Identities\<close>

definition findIdentity :: "engine \<Rightarrow> policy \<Rightarrow> identity option" where
  "findIdentity e pol = find (\<lambda>i. id_name i = eng_client_id e) (pol_identities pol)"

definition quoted :: "string \<Rightarrow> string" where
  "quoted s = [CHR 0x27] @ s @ [CHR 0x27]"

definition evaluateIdentity :: "engine \<Rightarrow> string \<Rightarrow> string \<Rightarrow> policy \<Rightarrow> decision" where
  "evaluateIdentity e serverName toolName pol =
     (case findIdentity e pol of
        None \<Rightarrow> mk_decision ActionDeny
                  (''client '' @ quoted (eng_client_id e) @ '' has no matching identity in policy'')
      | Some identity \<Rightarrow>
          if \<not> list_ex (\<lambda>s. s = serverName) (id_allowed_servers identity)
          then mk_decision ActionDeny
                 (''server '' @ quoted serverName @ '' not allowed for identity '' @ quoted (id_name identity))
          else let fqTool = serverName @ ''/'' @ toolName in
               if \<not> list_ex (\<lambda>t. t = fqTool) (id_allowed_tools identity)
               then mk_decision ActionDeny
                      (''tool '' @ quoted fqTool @ '' not allowed for identity '' @ quoted (id_name identity))
               else mk_decision ActionAllow ''allowed by identity policy'')"

section \<open>Time restrictions\<close>

definition matchesServerOrTool :: "string list \<Rightarrow> string \<Rightarrow> bool" where
  "matchesServerOrTool servers serverName = list_ex (\<lambda>s. s = serverName) servers"

definition digit_val :: "char \<Rightarrow> nat" where
  "digit_val c = byte c - 48"

text \<open>\<^verbatim>\<open>time.ParseInLocation("15:04", s, loc)\<close>: one or two digits of hour, two digits of minute.\<close>

definition parse_minute :: "nat \<Rightarrow> string \<Rightarrow> (nat \<times> nat) option" where
  "parse_minute h s =
     (case s of
        [c, m1, m2] \<Rightarrow>
          if c = CHR '':'' \<and> is_digit_ascii m1 \<and> is_digit_ascii m2
             \<and> h < 24 \<and> 10 * digit_val m1 + digit_val m2 < 60
          then Some (h, 10 * digit_val m1 + digit_val m2) else None
      | _ \<Rightarrow> None)"

definition parse_hhmm :: "string \<Rightarrow> (nat \<times> nat) option" where
  "parse_hhmm s =
     (case s of
        h1 # h2 # rest \<Rightarrow>
          if \<not> is_digit_ascii h1 then None
          else if is_digit_ascii h2 then parse_minute (10 * digit_val h1 + digit_val h2) rest
          else parse_minute (digit_val h1) (h2 # rest)
      | _ \<Rightarrow> None)"

definition in_time_window :: "go_env \<Rightarrow> int \<Rightarrow> time_window \<Rightarrow> bool" where
  "in_time_window E now tw =
     (let loc = (if tw_timezone tw \<noteq> [] \<and> location_ok E (tw_timezone tw) then tw_timezone tw else []);
          currentDay = weekday_of E loc now
      in if \<not> (tw_days tw = [] \<or> list_ex (\<lambda>d. to_lower d = currentDay) (tw_days tw)) then False
         else case (parse_hhmm (tw_start tw), parse_hhmm (tw_end tw)) of
                (Some (sh, sm), Some (eh, em)) \<Rightarrow>
                  day_time E loc now sh sm < now \<and> now < day_time E loc now eh em
              | _ \<Rightarrow> False)"

fun time_restriction_loop ::
    "go_env \<Rightarrow> int \<Rightarrow> string \<Rightarrow> string \<Rightarrow> time_restriction list \<Rightarrow> decision" where
  "time_restriction_loop E now serverName toolName [] = mk_decision ActionAllow ''within allowed time''"
| "time_restriction_loop E now serverName toolName (tr # trs) =
     (if \<not> matchesServerOrTool (tres_servers tr) serverName then
        time_restriction_loop E now serverName toolName trs
      else if \<not> matchesAnyTool (tres_tools tr) toolName then
        time_restriction_loop E now serverName toolName trs
      else if list_ex (\<lambda>d. to_lower d = weekday_of E [] now) (tres_denied_days tr) then
        mk_decision (tres_outside_action tr)
          (''time restriction '' @ quoted (tres_name tr) @ '': current day '' @ weekday_of E [] now @ '' is denied'')
      else if tres_allowed_hours tr \<noteq> [] \<and> \<not> list_ex (in_time_window E now) (tres_allowed_hours tr) then
        mk_decision (tres_outside_action tr)
          (''time restriction '' @ quoted (tres_name tr) @ '': outside allowed hours'')
      else time_restriction_loop E now serverName toolName trs)"

definition evaluateTimeRestriction ::
    "go_env \<Rightarrow> int \<Rightarrow> string \<Rightarrow> string \<Rightarrow> policy \<Rightarrow> decision" where
  "evaluateTimeRestriction E now serverName toolName pol =
     time_restriction_loop E now serverName toolName (pol_time_restrictions pol)"

section \<open>Lineage\<close>

definition empty_evidence :: "string \<Rightarrow> string \<Rightarrow> evidence" where
  "empty_evidence actor rule =
     \<lparr>ev_actor_agent_id = actor, ev_parent_agent_id = [], ev_human_principal_id = [],
      ev_grant_id = [], ev_grant_chain = [], ev_capability = [], ev_resource = [], ev_effect = [],
      ev_trajectory_id = [], ev_prior_state_hash = [], ev_rule = rule\<rparr>"

definition EvaluateLineageAt ::
    "go_env \<Rightarrow> engine \<Rightarrow> int \<Rightarrow> string \<Rightarrow> string \<Rightarrow> args option \<Rightarrow> policy option \<Rightarrow> int \<Rightarrow> decision" where
  "EvaluateLineageAt E e clock serverName toolName args pol now =
     (let actor = sessionIdentityAt e clock now;
          ceiling = \<lparr>dec_action = ActionDeny, dec_reason = ReasonDelegationCeiling,
                     dec_lineage = Some (empty_evidence actor ReasonDelegationCeiling)\<rparr>
      in case pol of
           None \<Rightarrow> ceiling
         | Some p \<Rightarrow>
             (case pol_identity p of
                None \<Rightarrow> mk_decision ActionAllow ''lineage not enabled''
              | Some idn \<Rightarrow>
                  if is_version idn \<noteq> 1 then mk_decision ActionAllow ''lineage not enabled''
                  else case NewRegistry E (is_agents idn) (is_grants idn) (pol_trajectories p) of
                         Inl _ \<Rightarrow> ceiling
                       | Inr reg \<Rightarrow>
                           let (d, ev) = ValidateAt E (EnvelopeFromArgs actor serverName toolName args)
                                           (Some reg) now
                           in if ld_allow d
                              then \<lparr>dec_action = ActionAllow, dec_reason = ''allowed by lineage'',
                                    dec_lineage = Some ev\<rparr>
                              else \<lparr>dec_action = ActionDeny, dec_reason = ld_reason d,
                                    dec_lineage = Some ev\<rparr>))"

section \<open>Evaluate\<close>

text \<open>One stage folded into the running result: the new pending approval, and the decision to
  return at once, if any.\<close>

definition mergeEvalDecision :: "decision \<Rightarrow> decision \<Rightarrow> decision \<times> decision option" where
  "mergeEvalDecision pending nxt =
     (if dec_action nxt = ActionAllow then (pending, None)
      else if dec_action nxt = ActionDeny then (pending, Some nxt)
      else if dec_action nxt = ActionRequireApproval then
        (if dec_action pending \<noteq> ActionRequireApproval then nxt else pending, None)
      else
        let trimmed = trim_space (dec_reason nxt);
            reason = (if trimmed = [] then ''policy decision is not allow, deny, or require_approval''
                      else trimmed)
        in (pending, Some (mk_decision ActionDeny
             (''unsupported policy action '' @ go_quote (dec_action nxt) @ '' ('' @ reason @ '')''))))"

fun merge_stages :: "decision \<Rightarrow> decision list \<Rightarrow> decision \<times> decision option" where
  "merge_stages pending [] = (pending, None)"
| "merge_stages pending (d # ds) =
     (case mergeEvalDecision pending d of
        (p, Some r) \<Rightarrow> (p, Some r)
      | (p, None) \<Rightarrow> merge_stages p ds)"

definition no_decision :: decision where
  "no_decision = mk_decision [] []"

text \<open>The checks before the stages: unknown or denied server or tool.\<close>

definition registration_guard ::
    "policy \<Rightarrow> server option \<Rightarrow> tool_rule option \<Rightarrow> string \<Rightarrow> string \<Rightarrow> decision option" where
  "registration_guard pol srv tool serverName toolName =
     (if srv = None \<and> pol_default_action pol = ActionDeny
      then Some (mk_decision ActionDeny (''server '' @ quoted serverName @ '' is not registered''))
      else if tool = None \<and> pol_default_action pol = ActionDeny
      then Some (mk_decision ActionDeny
                   (''tool '' @ quoted toolName @ '' from server '' @ quoted serverName @ '' is not registered''))
      else if (case srv of Some s \<Rightarrow> \<not> srv_allowed s | None \<Rightarrow> False)
      then Some (mk_decision ActionDeny (''server '' @ quoted serverName @ '' is denied by policy''))
      else if (case tool of Some t \<Rightarrow> \<not> tool_allowed t | None \<Rightarrow> False)
      then Some (mk_decision ActionDeny (''tool '' @ quoted toolName @ '' is explicitly denied''))
      else if tool = None \<and> srv = None \<and> pol_default_action pol = ActionDeny
      then Some (mk_decision ActionDeny ''unknown tool/server; default-deny policy'')
      else None)"

text \<open>The lineage stage, present only for a known tool with a lineage rule.\<close>

definition lineage_stage ::
    "go_env \<Rightarrow> engine \<Rightarrow> int \<Rightarrow> tool_rule option \<Rightarrow> string \<Rightarrow> string \<Rightarrow> raw_json \<Rightarrow> decision option" where
  "lineage_stage E e now tool serverName toolName raw =
     (case tool of
        Some t \<Rightarrow>
          if hasLineageRequire (tool_rules t)
          then Some (EvaluateLineageAt E e now serverName toolName (extractArgs raw)
                       (Some (eng_policy e)) now)
          else None
      | None \<Rightarrow> None)"

text \<open>The stages after lineage, in the order of the code: the rules of the tool, the identity, the
  time restrictions, the approval flag.\<close>

definition later_stages ::
    "go_env \<Rightarrow> engine \<Rightarrow> int \<Rightarrow> tool_rule option \<Rightarrow> string \<Rightarrow> string \<Rightarrow> raw_json \<Rightarrow> decision list" where
  "later_stages E e now tool serverName toolName raw =
     (case tool of
        Some t \<Rightarrow> map (\<lambda>rule. evaluateRule E rule (extractArgs raw) toolName) (tool_rules t)
      | None \<Rightarrow> [])
     @ (if pol_identities (eng_policy e) \<noteq> [] \<and> eng_client_id e \<noteq> []
        then [evaluateIdentity e serverName toolName (eng_policy e)] else [])
     @ (if pol_time_restrictions (eng_policy e) \<noteq> []
        then [evaluateTimeRestriction E now serverName toolName (eng_policy e)] else [])
     @ (case tool of
          Some t \<Rightarrow> if tool_approval_required t
                    then [mk_decision ActionRequireApproval (''tool '' @ quoted toolName @ '' requires approval'')]
                    else []
        | None \<Rightarrow> [])"

definition withLineage :: "evidence option \<Rightarrow> decision \<Rightarrow> decision" where
  "withLineage lineageEv d =
     (if lineageEv \<noteq> None \<and> dec_lineage d = None then d\<lparr>dec_lineage := lineageEv\<rparr> else d)"

definition Evaluate ::
    "go_env \<Rightarrow> engine \<Rightarrow> (nat \<Rightarrow> int) \<Rightarrow> string \<Rightarrow> string \<Rightarrow> raw_json \<Rightarrow> decision" where
  "Evaluate E e clk serverName toolName raw =
     (let pol = eng_policy e;
          tool = Tool (eng_registry e) serverName toolName;
          srv = Server (eng_registry e) serverName
      in case registration_guard pol srv tool serverName toolName of
           Some d \<Rightarrow> d
         | None \<Rightarrow>
         (case mergeEvalDecision no_decision (evaluateVerifiedActor e (clk 0) tool pol) of
            (_, Some d) \<Rightarrow> d
          | (p0, None) \<Rightarrow>
          (let lin = lineage_stage E e (clk 1) tool serverName toolName raw;
               lineageEv = (case lin of Some ld \<Rightarrow> dec_lineage ld | None \<Rightarrow> None)
           in case (case lin of Some ld \<Rightarrow> mergeEvalDecision p0 ld | None \<Rightarrow> (p0, None)) of
                (_, Some d) \<Rightarrow> d
              | (p1, None) \<Rightarrow>
              (case merge_stages p1 (later_stages E e (clk 2) tool serverName toolName raw) of
                 (_, Some d) \<Rightarrow> withLineage lineageEv d
               | (p2, None) \<Rightarrow>
                   if dec_action p2 = ActionRequireApproval then withLineage lineageEv p2
                   else withLineage lineageEv (mk_decision ActionAllow ''allowed by policy'')))))"

section \<open>Tool chains, approval flag and risk\<close>

definition matchesSink :: "go_env \<Rightarrow> chain_match \<Rightarrow> string \<Rightarrow> string \<Rightarrow> bool" where
  "matchesSink E m serverName toolName =
     ((cm_server m = ''*'' \<or> cm_server m = serverName)
      \<and> regexp_match E (''(?i)^'' @ cm_tool_pattern m @ ''$'') toolName)"

definition matchesSource :: "go_env \<Rightarrow> chain_match \<Rightarrow> string list \<Rightarrow> bool" where
  "matchesSource E m previousCalls =
     list_ex (\<lambda>call. case split_once CHR '':'' call of
                       None \<Rightarrow> False
                     | Some (srv, tool) \<Rightarrow> matchesSink E m srv tool) previousCalls"

definition within_calls :: "int \<Rightarrow> string list \<Rightarrow> string list" where
  "within_calls n calls =
     (if 0 < n \<and> n < int (length calls) then drop (length calls - nat n) calls else calls)"

definition chain_matches ::
    "go_env \<Rightarrow> chain_rule \<Rightarrow> string \<Rightarrow> string \<Rightarrow> string list \<Rightarrow> bool" where
  "chain_matches E chain serverName toolName calls =
     list_ex (\<lambda>source. matchesSource E source calls
                \<and> list_ex (\<lambda>sink. matchesSink E sink serverName toolName) (chain_sinks chain))
       (chain_sources chain)"

text \<open>The loop assigns the truncated window back to \<^verbatim>\<open>previousCalls\<close>, so the window of a chain is
  also cut by the chains before it.\<close>

fun chain_loop ::
    "go_env \<Rightarrow> string \<Rightarrow> string \<Rightarrow> string list \<Rightarrow> chain_rule list \<Rightarrow> decision" where
  "chain_loop E serverName toolName previousCalls [] = mk_decision ActionAllow ''no chain rule matched''"
| "chain_loop E serverName toolName previousCalls (chain # rest) =
     (let calls = within_calls (chain_within_calls chain) previousCalls in
      if chain_matches E chain serverName toolName calls
      then mk_decision (chain_action chain)
             (''chain rule '' @ quoted (chain_name chain) @ '': tool sequence matches dangerous pattern'')
      else chain_loop E serverName toolName calls rest)"

definition EvaluateChain ::
    "go_env \<Rightarrow> engine \<Rightarrow> string \<Rightarrow> string \<Rightarrow> string list \<Rightarrow> decision" where
  "EvaluateChain E e serverName toolName previousCalls =
     chain_loop E serverName toolName previousCalls (pol_tool_chains (eng_policy e))"

definition EvaluateApproval :: "engine \<Rightarrow> string \<Rightarrow> string \<Rightarrow> bool" where
  "EvaluateApproval e serverName toolName =
     (case Tool (eng_registry e) serverName toolName of
        None \<Rightarrow> False | Some tool \<Rightarrow> tool_approval_required tool)"

definition inferRisk :: "string \<Rightarrow> risk_level" where
  "inferRisk toolName =
     (let name = to_lower toolName;
          has = (\<lambda>kws. list_ex (\<lambda>kw. str_contains name kw) kws)
      in if has [''delete'', ''drop'', ''iam'', ''shell'', ''exec'', ''sudo'', ''root''] then RiskCritical
         else if has [''write'', ''send'', ''post'', ''create'', ''modify'', ''update'', ''upload'',
                      ''database'', ''query'', ''secret'', ''credential'', ''key'', ''token'']
         then RiskHigh
         else if has [''read'', ''fetch'', ''get'', ''search'', ''download'', ''ssh'', ''connect'']
         then RiskMedium
         else RiskLow)"

definition GetRiskLevel :: "engine \<Rightarrow> string \<Rightarrow> string \<Rightarrow> risk_level" where
  "GetRiskLevel e serverName toolName =
     (case Tool (eng_registry e) serverName toolName of
        Some tool \<Rightarrow> if tool_risk tool \<noteq> [] then tool_risk tool else inferRisk toolName
      | None \<Rightarrow> inferRisk toolName)"

section \<open>The fold over the stages\<close>

text \<open>What a list of stage decisions amounts to: an action that is neither allow nor
  require_approval denies, else an approval asks, else allow.\<close>

definition stage_verdict :: "action list \<Rightarrow> action" where
  "stage_verdict as =
     (if \<exists>a\<in>set as. a \<noteq> ActionAllow \<and> a \<noteq> ActionRequireApproval then ActionDeny
      else if ActionRequireApproval \<in> set as then ActionRequireApproval
      else ActionAllow)"

lemma mergeEvalDecision_cases:
  "dec_action d = ActionAllow \<Longrightarrow> mergeEvalDecision p d = (p, None)"
  "dec_action d = ActionRequireApproval \<Longrightarrow>
     mergeEvalDecision p d = (if dec_action p = ActionRequireApproval then p else d, None)"
  "dec_action d \<noteq> ActionAllow \<Longrightarrow> dec_action d \<noteq> ActionRequireApproval \<Longrightarrow>
     \<exists>r. mergeEvalDecision p d = (p, Some r) \<and> dec_action r = ActionDeny"
  by (auto simp: mergeEvalDecision_def Let_def)

text \<open>The action a fold ends with, given the pending decision.\<close>

definition fold_action :: "decision \<times> decision option \<Rightarrow> action" where
  "fold_action r =
     (case r of (_, Some d) \<Rightarrow> dec_action d
      | (p, None) \<Rightarrow> if dec_action p = ActionRequireApproval then ActionRequireApproval else ActionAllow)"

definition pending_actions :: "decision \<Rightarrow> action list" where
  "pending_actions p = (if dec_action p = ActionRequireApproval then [ActionRequireApproval] else [])"

lemma stage_verdict_Cons:
  "stage_verdict (a # as) =
     (if a \<noteq> ActionAllow \<and> a \<noteq> ActionRequireApproval then ActionDeny
      else if a = ActionAllow then stage_verdict as
      else if stage_verdict as = ActionDeny then ActionDeny else ActionRequireApproval)"
  by (auto simp: stage_verdict_def)

lemma stage_verdict_perm: "set as = set bs \<Longrightarrow> stage_verdict as = stage_verdict bs"
  by (simp add: stage_verdict_def)

lemma fold_action_merge:
  "fold_action (merge_stages p ds) = stage_verdict (pending_actions p @ map dec_action ds)"
proof (induction ds arbitrary: p)
  case Nil
  then show ?case by (simp add: fold_action_def pending_actions_def stage_verdict_def)
next
  case (Cons d ds)
  show ?case
  proof (cases "dec_action d = ActionAllow \<or> dec_action d = ActionRequireApproval")
    case True
    with Cons show ?thesis
      by (auto simp: mergeEvalDecision_cases pending_actions_def stage_verdict_Cons)
  next
    case False
    then obtain r where "mergeEvalDecision p d = (p, Some r)" "dec_action r = ActionDeny"
      using mergeEvalDecision_cases(3) by blast
    with False show ?thesis
      by (auto simp: fold_action_def pending_actions_def stage_verdict_Cons)
  qed
qed

lemma merge_stages_append:
  "merge_stages p (xs @ ys) =
     (case merge_stages p xs of (q, Some r) \<Rightarrow> (q, Some r) | (q, None) \<Rightarrow> merge_stages q ys)"
  by (induction xs arbitrary: p) (auto split: prod.splits option.splits)

text \<open>Every stage of a call, in order.\<close>

definition all_stages ::
    "go_env \<Rightarrow> engine \<Rightarrow> (nat \<Rightarrow> int) \<Rightarrow> tool_rule option \<Rightarrow> string \<Rightarrow> string \<Rightarrow> raw_json \<Rightarrow> decision list" where
  "all_stages E e clk tool s t raw =
     evaluateVerifiedActor e (clk 0) tool (eng_policy e)
     # (case lineage_stage E e (clk 1) tool s t raw of Some d \<Rightarrow> [d] | None \<Rightarrow> [])
     @ later_stages E e (clk 2) tool s t raw"

lemma withLineage_action [simp]: "dec_action (withLineage ev d) = dec_action d"
  by (simp add: withLineage_def)

lemma Evaluate_fold:
  assumes "registration_guard (eng_policy e) (Server (eng_registry e) s)
             (Tool (eng_registry e) s t) s t = None"
  shows "dec_action (Evaluate E e clk s t raw) =
     fold_action (merge_stages no_decision (all_stages E e clk (Tool (eng_registry e) s t) s t raw))"
  using assms
  by (simp add: Evaluate_def all_stages_def Let_def fold_action_def
      split: option.splits prod.splits)

lemma Evaluate_verdict:
  "dec_action (Evaluate E e clk s t raw) =
     (if registration_guard (eng_policy e) (Server (eng_registry e) s)
           (Tool (eng_registry e) s t) s t \<noteq> None
      then ActionDeny
      else stage_verdict (map dec_action (all_stages E e clk (Tool (eng_registry e) s t) s t raw)))"
proof (cases "registration_guard (eng_policy e) (Server (eng_registry e) s)
                (Tool (eng_registry e) s t) s t")
  case None
  then show ?thesis
    using Evaluate_fold [OF None] by (simp add: fold_action_merge pending_actions_def no_decision_def)
next
  case (Some d)
  moreover from Some have "dec_action d = ActionDeny"
    by (auto simp: registration_guard_def split: if_splits)
  ultimately show ?thesis by (simp add: Evaluate_def)
qed

section \<open>What a rule that lets a call pass has checked\<close>

lemma check_slots_allow:
  "dec_action (check_slots slots P r) = ActionAllow \<longleftrightarrow> (\<exists>vs. slots = Inr vs \<and> (\<forall>s\<in>set vs. P s))"
  by (cases slots) (auto simp: check_slots_def list_ex_iff)

lemma mandate_rule_allow:
  "dec_action (mandate_rule ps e slots P r) = ActionAllow \<longleftrightarrow>
     recipientAllowlistConfigured ps \<and> (\<exists>vs. slots = Inr vs \<and> (\<forall>s\<in>set vs. P s))"
  by (simp add: mandate_rule_def check_slots_allow)

context slot_collector
begin

lemma check_allow:
  "dec_action (check_slots (collect args) P r) = ActionAllow \<longleftrightarrow>
     (case args of
        None \<Rightarrow> \<not> needed
      | Some m \<Rightarrow> slots_within is_slot val P m \<and> (needed \<longrightarrow> has_slot is_slot m))"
proof (cases args)
  case None
  then show ?thesis
    using needed_fails_on_nil by (cases needed) (auto simp: check_slots_allow collect_none)
next
  case (Some m)
  then show ?thesis using collect_all_iff [of m P] by (simp add: check_slots_allow)
qed

lemma mandate_allow:
  "dec_action (mandate_rule ps e (collect args) P r) = ActionAllow \<longleftrightarrow>
     recipientAllowlistConfigured ps
     \<and> (case args of
          None \<Rightarrow> \<not> needed
        | Some m \<Rightarrow> slots_within is_slot val P m \<and> (needed \<longrightarrow> has_slot is_slot m))"
  using check_allow [of args P r] by (auto simp: mandate_rule_def)

end

lemma activation_slots_allow:
  "dec_action (rule_allow_activation rule (Some m)) = ActionAllow \<longleftrightarrow>
     (recipientAllowlistConfigured (ar_patterns rule) \<or> recipientAllowlistConfigured (ar_domains rule))
     \<and> slots_within isExecutableSlotKey nonempty_string (executableInAllowlist (ar_patterns rule)) m
     \<and> slots_within isDestinationSlotKey host_string (recipientInAllowlist (ar_domains rule)) m
     \<and> (has_slot isExecutableSlotKey m \<or> has_slot isDestinationSlotKey m)"
proof -
  have empty: "vs = [] \<longleftrightarrow> \<not> has_slot isk m"
    if "collect_present isk val reason (Some m) = Inr vs" for isk val reason vs
    using that collect_loop_spec [where is_slot = isk and val = val and reason = reason and m = m]
    by (simp add: collect_present_def)
  show ?thesis
    using executable.collect_all_iff [of m "executableInAllowlist (ar_patterns rule)"]
      activation_host.collect_all_iff [of m "recipientInAllowlist (ar_domains rule)"]
      empty [of isExecutableSlotKey nonempty_string "''executable is required''"]
      empty [of isDestinationSlotKey host_string "''destination is required''"]
    unfolding collectOptionalExecutableSlots_def [symmetric]
      collectOptionalActivationDestinationSlots_def [symmetric]
    by (auto simp: rule_allow_activation_def list_ex_iff split: sum.splits)
qed

lemma permission_bypass_allow:
  "dec_action (rule_deny_permission_bypass (Some m)) = ActionAllow \<longleftrightarrow>
     (\<forall>(k, v)\<in>set m. isPermissionBypassSlotKey k \<longrightarrow> permissionBypassWeakens v = Inr False)"
proof -
  have "list_ex (\<lambda>slot. \<not> False) vs \<longleftrightarrow> vs \<noteq> []" for vs :: "string list"
    by (cases vs) auto
  then have "dec_action (rule_deny_permission_bypass (Some m)) = ActionAllow \<longleftrightarrow> bypass_loop m = Inr []"
    by (cases "bypass_loop m") (auto simp: rule_deny_permission_bypass_def check_slots_def
        collectPresentPermissionBypassSlots_def)
  then show ?thesis by (simp add: bypass_loop_passes_iff)
qed

text \<open>An allowed call passed every rule of its tool.\<close>

lemma stage_verdict_allow_iff:
  "stage_verdict as = ActionAllow \<longleftrightarrow> (\<forall>a\<in>set as. a = ActionAllow)"
  by (induction as) (auto simp: stage_verdict_Cons, simp_all add: stage_verdict_def)

lemma stage_verdict_no_deny:
  "stage_verdict as \<noteq> ActionDeny \<longleftrightarrow> (\<forall>a\<in>set as. a = ActionAllow \<or> a = ActionRequireApproval)"
  by (auto simp: stage_verdict_def)

lemma Evaluate_not_denied_rule:
  assumes "dec_action (Evaluate E e clk s t raw) \<noteq> ActionDeny"
    and "Tool (eng_registry e) s t = Some tool" and "rule \<in> set (tool_rules tool)"
  shows "dec_action (evaluateRule E rule (extractArgs raw) t) \<in> {ActionAllow, ActionRequireApproval}"
proof -
  let ?d = "evaluateRule E rule (extractArgs raw) t"
  have "?d \<in> set (all_stages E e clk (Tool (eng_registry e) s t) s t raw)"
    using assms(2,3) by (auto simp: all_stages_def later_stages_def)
  moreover have "stage_verdict (map dec_action (all_stages E e clk (Tool (eng_registry e) s t) s t raw))
      \<noteq> ActionDeny"
    using assms(1) by (auto simp: Evaluate_verdict split: if_splits)
  ultimately show ?thesis by (auto simp: stage_verdict_no_deny)
qed

lemma Evaluate_registered:
  assumes "dec_action (Evaluate E e clk s t raw) \<noteq> ActionDeny"
    and "pol_default_action (eng_policy e) = ActionDeny"
  shows "\<exists>srv tool. Server (eng_registry e) s = Some srv \<and> srv_allowed srv
           \<and> Tool (eng_registry e) s t = Some tool \<and> tool_allowed tool"
proof -
  have "registration_guard (eng_policy e) (Server (eng_registry e) s) (Tool (eng_registry e) s t) s t = None"
    using assms(1) by (auto simp: Evaluate_verdict split: if_splits)
  with assms(2) show ?thesis
    by (auto simp: registration_guard_def split: if_splits option.splits)
qed

section \<open>Chains against an independent window\<close>

text \<open>The window a chain is meant to look at: the last within_calls calls (all of them when the
  bound is not positive).\<close>

definition chain_hit :: "go_env \<Rightarrow> string \<Rightarrow> string \<Rightarrow> string list \<Rightarrow> chain_rule \<Rightarrow> bool" where
  "chain_hit E s t calls chain = chain_matches E chain s t (within_calls (chain_within_calls chain) calls)"

lemma within_calls_suffix: "\<exists>pre. calls = pre @ within_calls n calls"
  by (auto simp: within_calls_def intro: exI [of _ "take (length calls - nat n) calls"]
      exI [of _ "[]"])

lemma within_calls_twice:
  assumes "m \<le> 0 \<or> 0 < n \<and> n \<le> m"
  shows "within_calls n (within_calls m calls) = within_calls n calls"
  using assms by (auto simp: within_calls_def)

lemma within_calls_nested:
  "set (within_calls n (within_calls m calls)) \<subseteq> set (within_calls n calls)"
proof -
  obtain k where k: "within_calls m calls = drop k calls"
    unfolding within_calls_def by (metis drop0)
  show ?thesis
  proof (cases "0 < n \<and> n < int (length (drop k calls))")
    case True
    then have "within_calls n (drop k calls) = within_calls n calls"
      by (auto simp: within_calls_def)
    then show ?thesis by (simp add: k)
  next
    case False
    then have "within_calls n (drop k calls) = drop k calls" by (auto simp: within_calls_def)
    moreover have "set (drop k calls) \<subseteq> set (within_calls n calls)"
    proof (cases "0 < n \<and> n < int (length calls)")
      case True
      with False have "length calls - nat n \<le> k" by auto
      with True show ?thesis
        using set_drop_subset_set_drop [of "length calls - nat n" k calls]
        by (simp add: within_calls_def)
    next
      case outside: False
      then show ?thesis by (auto simp: within_calls_def dest: in_set_dropD)
    qed
    ultimately show ?thesis by (simp add: k)
  qed
qed

lemma matchesSource_mono:
  "set calls \<subseteq> set calls' \<Longrightarrow> matchesSource E m calls \<Longrightarrow> matchesSource E m calls'"
  by (auto simp: matchesSource_def list_ex_iff)

lemma chain_matches_mono:
  assumes "set calls \<subseteq> set calls'" and "chain_matches E chain s t calls"
  shows "chain_matches E chain s t calls'"
  using assms matchesSource_mono [OF assms(1)] by (auto simp: chain_matches_def list_ex_iff)

text \<open>When the bounds do not increase along the policy, cutting the window again has no effect
  and the loop is the search for the first chain that hits.\<close>

definition shrinking_bounds :: "chain_rule list \<Rightarrow> bool" where
  "shrinking_bounds cs \<longleftrightarrow>
     sorted_wrt (\<lambda>a b. chain_within_calls a \<le> 0
                  \<or> 0 < chain_within_calls b \<and> chain_within_calls b \<le> chain_within_calls a) cs"

definition chain_decision :: "chain_rule option \<Rightarrow> decision" where
  "chain_decision c =
     (case c of None \<Rightarrow> mk_decision ActionAllow ''no chain rule matched''
      | Some chain \<Rightarrow> mk_decision (chain_action chain)
          (''chain rule '' @ quoted (chain_name chain) @ '': tool sequence matches dangerous pattern''))"

lemma find_cong_set: "(\<And>x. x \<in> set xs \<Longrightarrow> P x = Q x) \<Longrightarrow> find P xs = find Q xs"
  by (induction xs) auto

lemma chain_loop_first:
  "shrinking_bounds cs \<Longrightarrow> chain_loop E s t calls cs = chain_decision (find (chain_hit E s t calls) cs)"
proof (induction cs arbitrary: calls)
  case Nil
  then show ?case by (simp add: chain_decision_def)
next
  case (Cons c cs)
  let ?w = "within_calls (chain_within_calls c) calls"
  have "find (chain_hit E s t ?w) cs = find (chain_hit E s t calls) cs"
    using Cons.prems
    by (intro find_cong_set) (auto simp: chain_hit_def shrinking_bounds_def within_calls_twice)
  moreover have "chain_loop E s t ?w cs = chain_decision (find (chain_hit E s t ?w) cs)"
    using Cons by (simp add: shrinking_bounds_def)
  ultimately have rest: "chain_loop E s t ?w cs = chain_decision (find (chain_hit E s t calls) cs)"
    by simp
  show ?case
  proof (cases "chain_hit E s t calls c")
    case True
    then show ?thesis by (simp add: chain_hit_def chain_decision_def Let_def)
  next
    case False
    then have "chain_loop E s t calls (c # cs) = chain_loop E s t ?w cs"
      by (simp add: chain_hit_def Let_def)
    with False rest show ?thesis by simp
  qed
qed

lemma chain_loop_sound:
  assumes "dec_action (chain_loop E s t calls cs) \<noteq> ActionAllow"
  shows "\<exists>c\<in>set cs. chain_hit E s t calls c \<and> chain_action c = dec_action (chain_loop E s t calls cs)"
  using assms
proof (induction cs arbitrary: calls)
  case Nil
  then show ?case by simp
next
  case (Cons c cs)
  let ?w = "within_calls (chain_within_calls c) calls"
  show ?case
  proof (cases "chain_hit E s t calls c")
    case True
    then show ?thesis by (simp add: chain_hit_def Let_def)
  next
    case False
    then have eq: "chain_loop E s t calls (c # cs) = chain_loop E s t ?w cs"
      by (simp add: chain_hit_def Let_def)
    then obtain d where "d \<in> set cs" "chain_hit E s t ?w d"
        "chain_action d = dec_action (chain_loop E s t ?w cs)"
      using Cons by fastforce
    moreover from this(2) have "chain_hit E s t calls d"
      unfolding chain_hit_def using within_calls_nested chain_matches_mono by blast
    ultimately show ?thesis using eq by auto
  qed
qed

section \<open>Properties\<close>

text \<open>The mandate rules as a table: the arguments a rule governs, how a value is read from one, and
  what a value has to satisfy.\<close>

definition rule_mandate ::
    "go_env \<Rightarrow> arg_rule \<Rightarrow>
       ((string \<Rightarrow> bool) \<times> (json \<Rightarrow> string option) \<times> (string \<Rightarrow> bool)) option" where
  "rule_mandate E rule =
     (let listed = recipientInAllowlist (ar_patterns rule);
          globbed = matchesAnyPattern E (ar_patterns rule);
          t = ar_type rule
      in if t = ''require_path_literal''
         then Some (isPathSlotKey, nonblank_string, \<lambda>s. \<not> pathContainsShellGrammar s)
         else if t = ''allow_path_slot'' then Some (isEffectPathSlotKey, nonblank_string, globbed)
         else if t = ''allow_destination'' then Some (isDestinationSlotKey, host_string, listed)
         else if t = ''allow_working_directory''
         then Some (isWorkingDirectorySlotKey, nonblank_string, globbed)
         else if t = ''allow_application'' then Some (isApplicationSlotKey, nonblank_string, listed)
         else if t = ''allow_skill'' then Some (isSkillSlotKey, nonblank_string, listed)
         else if t = ''allow_recipient'' then Some (isRecipientSlotKey, nonblank_string, listed)
         else if t = ''allow_resource_owner'' then Some (isOwnerSlotKey, nonblank_string, listed)
         else None)"

lemmas mandate_rule_defs = rule_require_path_literal_def rule_allow_path_slot_def
  rule_allow_destination_def rule_allow_working_directory_def rule_allow_application_def
  rule_allow_skill_def rule_allow_recipient_def rule_allow_resource_owner_def

lemmas collector_allow = recipient.mandate_allow owner.mandate_allow path.check_allow
  effect_path.mandate_allow destination.mandate_allow cwd.mandate_allow application.mandate_allow
  skill.mandate_allow

lemma mandate_never_asks:
  "dec_action (mandate_rule ps e slots P r) \<noteq> ActionRequireApproval"
  "dec_action (check_slots slots P r) \<noteq> ActionRequireApproval"
  by (auto simp: mandate_rule_def check_slots_def split: sum.splits)

lemma evaluateRule_mandate:
  assumes "rule_mandate E rule = Some (isk, val, P)"
    and "dec_action (evaluateRule E rule args t) \<in> {ActionAllow, ActionRequireApproval}"
  shows "\<exists>m. args = Some m \<and> has_slot isk m \<and> slots_within isk val P m"
proof -
  have "dec_action (evaluateRule E rule args t) \<noteq> ActionRequireApproval"
    using assms(1)
    by (auto simp: rule_mandate_def evaluateRule_def Let_def mandate_rule_defs mandate_never_asks
        split: if_splits)
  then have "dec_action (evaluateRule E rule args t) = ActionAllow" using assms(2) by blast
  then show ?thesis
    using assms(1)
    by (auto simp: rule_mandate_def evaluateRule_def Let_def mandate_rule_defs collector_allow
        split: if_splits option.splits)
qed

end
