(* ===== verification/Policy_Properties.thy ===== *)
theory Policy_Properties
  imports Policy_Engine
begin

text \<open>
  The properties of the policy engine: the verdict over the stages, independence of the rule
  order, default deny, the mandates on argument slots, and the tool-chain rules. The witnesses run
  the engine on small concrete policies under example_env.
\<close>

text \<open>C11: The action Evaluate returns is the verdict over all its stages: deny when the server or
  tool is refused up front or when any stage answers anything but allow and require_approval,
  otherwise require_approval when some stage asks for it, otherwise allow. No later stage can
  undo a denial, and an unsupported action is a denial.\<close>

theorem evaluate_refines_stage_verdict:
  "dec_action (Evaluate E e clk s t raw) =
     (if registration_guard (eng_policy e) (Server (eng_registry e) s)
           (Tool (eng_registry e) s t) s t \<noteq> None
      then ActionDeny
      else stage_verdict (map dec_action (all_stages E e clk (Tool (eng_registry e) s t) s t raw)))"
  by (rule Evaluate_verdict)

text \<open>Reordering or repeating the rules of a tool in the policy does not change the action of
  Evaluate.\<close>

theorem evaluate_rule_order_irrelevant:
  assumes "Tool (eng_registry e) s t = Some tool"
    and "Tool r' s t = Some (tool\<lparr>tool_rules := rs\<rparr>)"
    and "map_option srv_allowed (Server r' s) = map_option srv_allowed (Server (eng_registry e) s)"
    and "set rs = set (tool_rules tool)"
  shows "dec_action (Evaluate E (e\<lparr>eng_registry := r'\<rparr>) clk s t raw) = dec_action (Evaluate E e clk s t raw)"
proof -
  let ?e = "e\<lparr>eng_registry := r'\<rparr>"
  have hl: "hasLineageRequire rs = hasLineageRequire (tool_rules tool)"
    using assms(4) by (simp add: hasLineageRequire_def list_ex_iff)
  have ident: "sessionIdentityAt ?e c n = sessionIdentityAt e c n" for c n
    by (simp add: sessionIdentityAt_def split: option.splits)
  have lin: "lineage_stage E ?e n (Tool r' s t) s t raw =
      lineage_stage E e n (Tool (eng_registry e) s t) s t raw" for n
    using assms(1,2) hl
    by (simp add: lineage_stage_def EvaluateLineageAt_def ident cong: option.case_cong)
  have ver: "evaluateVerifiedActor ?e n (Some (tool\<lparr>tool_rules := rs\<rparr>)) p =
      evaluateVerifiedActor e n (Some tool) p" for n p
    by (simp add: evaluateVerifiedActor_def Let_def split: option.splits sum.splits)
  have idn: "evaluateIdentity ?e s t p = evaluateIdentity e s t p" for p
    by (simp add: evaluateIdentity_def findIdentity_def split: option.splits)
  have "set (all_stages E ?e clk (Tool r' s t) s t raw) =
      set (all_stages E e clk (Tool (eng_registry e) s t) s t raw)"
    using assms(1,2,4) lin by (simp add: all_stages_def later_stages_def ver idn)
  then have "set (map dec_action (all_stages E ?e clk (Tool r' s t) s t raw)) =
      set (map dec_action (all_stages E e clk (Tool (eng_registry e) s t) s t raw))" by simp
  moreover have "registration_guard p (Server r' s) (Some (tool\<lparr>tool_rules := rs\<rparr>)) s t =
      registration_guard p (Server (eng_registry e) s) (Some tool) s t" for p
    using assms(3)
    by (cases "Server r' s"; cases "Server (eng_registry e) s") (simp_all add: registration_guard_def)
  ultimately show ?thesis
    using assms(1,2) stage_verdict_perm by (simp add: Evaluate_verdict)
qed


text \<open>The concrete policy of the witnesses: one mail server with one tool.\<close>

definition mail_rule :: "string \<Rightarrow> string list \<Rightarrow> arg_rule" where
  "mail_rule ty ps = arg_rule_zero\<lparr>ar_type := ty, ar_patterns := ps\<rparr>"

definition mail_tool :: "arg_rule list \<Rightarrow> tool_rule" where
  "mail_tool rs = tool_rule_zero\<lparr>tool_name := ''send'', tool_allowed := True, tool_rules := rs\<rparr>"

definition mail_policy :: "arg_rule list \<Rightarrow> policy" where
  "mail_policy rs =
     policy_zero\<lparr>pol_version := ''1.0'', pol_default_action := ActionDeny,
       pol_servers := [server_zero\<lparr>srv_name := ''mail'', srv_allowed := True,
                         srv_tools := [mail_tool rs]\<rparr>]\<rparr>"

definition mail_engine :: "arg_rule list \<Rightarrow> engine" where
  "mail_engine rs = NewEngine (\<lambda>b. []) (mail_policy rs)"

definition mail_args :: "(string \<times> string) list \<Rightarrow> raw_json" where
  "mail_args kvs = RawJson (JObj (map (\<lambda>(k, v). (k, JStr v)) kvs))"

lemma mail_allowed:
  "dec_action (Evaluate example_env (mail_engine [mail_rule ''allow_recipient'' [''bob@x.org'']])
     (\<lambda>n. 0) ''mail'' ''send'' (mail_args [(''To'', ''Bob@x.org '')])) = ActionAllow"
  by code_simp

definition two_rules :: "arg_rule list" where
  "two_rules = [mail_rule ''require_approval_always'' [], mail_rule ''allow_recipient'' [''bob@x.org'']]"

theorem evaluate_rule_order_irrelevant_witness:
  "dec_action (Evaluate example_env
       ((mail_engine two_rules)\<lparr>eng_registry := NewPolicyRegistry (mail_policy (rev two_rules))\<rparr>)
       (\<lambda>n. 0) ''mail'' ''send'' (mail_args [(''To'', ''eve@x.org'')])) = ActionDeny"
proof -
  have eve: "dec_action (Evaluate example_env (mail_engine two_rules) (\<lambda>n. 0) ''mail'' ''send''
      (mail_args [(''To'', ''eve@x.org'')])) = ActionDeny"
    by code_simp
  have "Tool (eng_registry (mail_engine two_rules)) ''mail'' ''send'' = Some (mail_tool two_rules)"
    "Tool (NewPolicyRegistry (mail_policy (rev two_rules))) ''mail'' ''send'' =
       Some ((mail_tool two_rules)\<lparr>tool_rules := rev two_rules\<rparr>)"
    "map_option srv_allowed (Server (NewPolicyRegistry (mail_policy (rev two_rules))) ''mail'') =
       map_option srv_allowed (Server (eng_registry (mail_engine two_rules)) ''mail'')"
    by (simp_all add: mail_engine_def mail_policy_def mail_tool_def NewEngine_def Tool_def Server_def
        NewPolicyRegistry_def server_zero_def tool_rule_zero_def policy_zero_def toolKey_def)
  moreover have "set (rev two_rules) = set (tool_rules (mail_tool two_rules))"
    by (simp add: mail_tool_def tool_rule_zero_def)
  ultimately show ?thesis
    using evaluate_rule_order_irrelevant [of "mail_engine two_rules" "''mail''" "''send''"
        "mail_tool two_rules" "NewPolicyRegistry (mail_policy (rev two_rules))" "rev two_rules"
        example_env "\<lambda>n. 0" "mail_args [(''To'', ''eve@x.org'')]"] eve
    by simp
qed

text \<open>Under default deny, a call that Evaluate does not deny names a server that the policy
  lists as allowed and a tool that this server lists as allowed, provided server names are
  distinct and free of colons and tool names are distinct within a server.\<close>

theorem evaluate_default_deny:
  assumes "well_named p" and "pol_default_action p = ActionDeny" and "colon_free s"
    and "dec_action (Evaluate E (SetVerifiedActor ac (SetClientID cid (NewEngine h p))) clk s t raw)
           \<noteq> ActionDeny"
  shows "\<exists>srv tool. srv \<in> set (pol_servers p) \<and> srv_name srv = s \<and> srv_allowed srv
           \<and> tool \<in> set (srv_tools srv) \<and> tool_name tool = t \<and> tool_allowed tool"
proof -
  let ?r = "NewPolicyRegistry p"
  obtain srv tool where "Server ?r s = Some srv" "srv_allowed srv" "Tool ?r s t = Some tool"
      "tool_allowed tool"
    using Evaluate_registered [OF assms(4)] assms(2)
    by (auto simp: NewEngine_def SetClientID_def SetVerifiedActor_def)
  then show ?thesis
    using Server_declared [of p s] Tool_declared [OF assms(1,3), of t] assms(1)
    by (auto simp: well_named_def declared_tool_def dest: find_SomeD split: option.splits)
qed

theorem evaluate_default_deny_witness:
  "\<exists>srv tool. srv \<in> set (pol_servers (mail_policy [])) \<and> srv_name srv = ''mail'' \<and> srv_allowed srv
     \<and> tool \<in> set (srv_tools srv) \<and> tool_name tool = ''send'' \<and> tool_allowed tool"
  by (rule evaluate_default_deny [where E = example_env and ac = None and cid = "''ci''"
        and h = "\<lambda>b. []" and clk = "\<lambda>n. 0" and raw = RawEmpty]; code_simp)

text \<open>C12: When Evaluate does not deny, every mandate rule of the tool has been enforced on every
  argument of its slot class: the arguments are an object, at least one key folds to an alias of
  the class, and the value under every such key is readable and permitted (on the allowlist,
  matching a pattern, a host on the allowlist, or free of shell grammar). A permitted value under
  one alias cannot cover a foreign value under another.\<close>

theorem evaluate_enforces_mandates:
  assumes "dec_action (Evaluate E e clk s t raw) \<noteq> ActionDeny"
    and "Tool (eng_registry e) s t = Some tool" and "rule \<in> set (tool_rules tool)"
    and "rule_mandate E rule = Some (isk, val, P)"
  shows "\<exists>m. extractArgs raw = Some m \<and> has_slot isk m \<and> slots_within isk val P m"
  using evaluateRule_mandate [OF assms(4)] Evaluate_not_denied_rule [OF assms(1-3)] by blast

theorem evaluate_enforces_mandates_witness:
  "\<exists>m. extractArgs (mail_args [(''To'', ''Bob@x.org ''), (''cc'', ''BOB@x.org'')]) = Some m
     \<and> has_slot isRecipientSlotKey m
     \<and> slots_within isRecipientSlotKey nonblank_string (recipientInAllowlist [''bob@x.org'']) m"
proof (rule evaluate_enforces_mandates [where E = example_env and clk = "\<lambda>n. 0" and s = "''mail''"
      and t = "''send''" and e = "mail_engine [mail_rule ''allow_recipient'' [''bob@x.org'']]"
      and tool = "mail_tool [mail_rule ''allow_recipient'' [''bob@x.org'']]"
      and rule = "mail_rule ''allow_recipient'' [''bob@x.org'']"])
  show "Tool (eng_registry (mail_engine [mail_rule ''allow_recipient'' [''bob@x.org'']])) ''mail'' ''send'' =
      Some (mail_tool [mail_rule ''allow_recipient'' [''bob@x.org'']])"
    by (simp add: mail_engine_def mail_policy_def mail_tool_def NewEngine_def Tool_def
        NewPolicyRegistry_def server_zero_def tool_rule_zero_def policy_zero_def toolKey_def)
  show "rule_mandate example_env (mail_rule ''allow_recipient'' [''bob@x.org'']) =
      Some (isRecipientSlotKey, nonblank_string, recipientInAllowlist [''bob@x.org''])"
    by (simp add: rule_mandate_def mail_rule_def arg_rule_zero_def)
  show "mail_rule ''allow_recipient'' [''bob@x.org''] \<in>
      set (tool_rules (mail_tool [mail_rule ''allow_recipient'' [''bob@x.org'']]))"
    by (simp add: mail_tool_def tool_rule_zero_def)
qed code_simp

text \<open>The activation rule lets an object of arguments pass exactly when some allowlist is
  configured, every executable argument is byte for byte on the executable list, every
  destination argument has a readable host on the host list, and at least one of the two kinds
  of argument is present. A host mandate never authorises a spawn.\<close>

theorem activation_rule_iff:
  "dec_action (rule_allow_activation rule (Some m)) = ActionAllow \<longleftrightarrow>
     (recipientAllowlistConfigured (ar_patterns rule) \<or> recipientAllowlistConfigured (ar_domains rule))
     \<and> slots_within isExecutableSlotKey nonempty_string (executableInAllowlist (ar_patterns rule)) m
     \<and> slots_within isDestinationSlotKey host_string (recipientInAllowlist (ar_domains rule)) m
     \<and> (has_slot isExecutableSlotKey m \<or> has_slot isDestinationSlotKey m)"
  by (rule activation_slots_allow)

text \<open>The chain loop only reports a chain that hits: if EvaluateChain answers anything but
  allow, some chain of the policy has a source among its own last within_calls calls and a sink
  that is the current call, and the answer is the action of that chain.\<close>

theorem evaluate_chain_sound:
  assumes "dec_action (EvaluateChain E e s t calls) \<noteq> ActionAllow"
  shows "\<exists>c\<in>set (pol_tool_chains (eng_policy e)).
           chain_hit E s t calls c \<and> chain_action c = dec_action (EvaluateChain E e s t calls)"
  using chain_loop_sound assms by (simp add: EvaluateChain_def)

definition exfil_chain :: "string \<Rightarrow> int \<Rightarrow> string \<Rightarrow> chain_rule" where
  "exfil_chain n w src =
     \<lparr>chain_name = n, chain_sources = [\<lparr>cm_server = ''*'', cm_tool_pattern = src\<rparr>],
      chain_sinks = [\<lparr>cm_server = ''*'', cm_tool_pattern = ''send''\<rparr>],
      chain_action = ActionDeny, chain_within_calls = w\<rparr>"

definition chain_engine :: "chain_rule list \<Rightarrow> engine" where
  "chain_engine cs = NewEngine (\<lambda>b. []) ((mail_policy [])\<lparr>pol_tool_chains := cs\<rparr>)"

theorem evaluate_chain_sound_witness:
  "\<exists>c\<in>set (pol_tool_chains (eng_policy (chain_engine [exfil_chain ''x'' 5 ''read'']))).
     chain_hit example_env ''mail'' ''send'' [''fs:read''] c
     \<and> chain_action c = dec_action (EvaluateChain example_env
          (chain_engine [exfil_chain ''x'' 5 ''read'']) ''mail'' ''send'' [''fs:read''])"
  by (rule evaluate_chain_sound) code_simp

text \<open>When the within_calls bounds of the policy do not grow from one chain to the next (a
  bound that is not positive counting as unlimited), EvaluateChain returns the decision of the
  first chain that hits within its own window, and allow when none does.\<close>

theorem evaluate_chain_first_hit:
  assumes "shrinking_bounds (pol_tool_chains (eng_policy e))"
  shows "EvaluateChain E e s t calls =
     chain_decision (find (chain_hit E s t calls) (pol_tool_chains (eng_policy e)))"
  using chain_loop_first [OF assms] by (simp add: EvaluateChain_def)

theorem evaluate_chain_first_hit_witness:
  "EvaluateChain example_env (chain_engine [exfil_chain ''x'' 5 ''read'', exfil_chain ''y'' 1 ''list''])
     ''mail'' ''send'' [''fs:read'', ''fs:list''] =
   chain_decision (find (chain_hit example_env ''mail'' ''send'' [''fs:read'', ''fs:list''])
     (pol_tool_chains (eng_policy
        (chain_engine [exfil_chain ''x'' 5 ''read'', exfil_chain ''y'' 1 ''list'']))))"
  by (rule evaluate_chain_first_hit) code_simp


section \<open>Identity\<close>

lemma Evaluate_stage_not_denied:
  assumes "dec_action (Evaluate E e clk s t raw) \<noteq> ActionDeny"
    and "d \<in> set (all_stages E e clk (Tool (eng_registry e) s t) s t raw)"
  shows "dec_action d \<in> {ActionAllow, ActionRequireApproval}"
  using assms by (auto simp: Evaluate_verdict stage_verdict_no_deny split: if_splits)

lemma evaluateVerifiedActor_cases:
  assumes "dec_action (evaluateVerifiedActor e now tool pol) \<in> {ActionAllow, ActionRequireApproval}"
    and "set_require_verified_actor (pol_settings pol) \<or> (\<exists>t. tool = Some t \<and> tool_required_scopes t \<noteq> [])"
  shows "\<exists>c. eng_verified e = Some c \<and> Check (eng_hash e) now c now = Inr ()
     \<and> (\<forall>t. tool = Some t \<longrightarrow> set (tool_required_scopes t) \<subseteq> set (ac_scopes c))"
  using assms
  by (auto simp: evaluateVerifiedActor_def Let_def find_None_iff_all HasScope_def list_ex_iff
      split: option.splits sum.splits if_splits)

text \<open>When the policy requires a verified actor, or the tool requires scopes, a call that is
  not denied was made under a process-start actor context that is structurally valid, whose
  snapshot hash is the hash of its fields, that has not expired, and that holds every scope the
  tool requires. No argument of the call enters this decision.\<close>

theorem evaluate_requires_verified_actor:
  assumes "dec_action (Evaluate E e clk s t raw) \<noteq> ActionDeny"
    and "Tool (eng_registry e) s t = Some tool"
    and "set_require_verified_actor (pol_settings (eng_policy e)) \<or> tool_required_scopes tool \<noteq> []"
    and "clk 0 \<noteq> zero_time"
  shows "\<exists>c. eng_verified e = Some c \<and> ValidateStructure (eng_hash e) c = Inr ()
     \<and> ac_identity_snapshot_hash c = SnapshotHash (eng_hash e) c
     \<and> clk 0 < ac_expires_at c \<and> set (tool_required_scopes tool) \<subseteq> set (ac_scopes c)"
proof -
  have "evaluateVerifiedActor e (clk 0) (Tool (eng_registry e) s t) (eng_policy e)
      \<in> set (all_stages E e clk (Tool (eng_registry e) s t) s t raw)"
    by (simp add: all_stages_def)
  from evaluateVerifiedActor_cases [OF Evaluate_stage_not_denied [OF assms(1) this]] assms(2-4)
  show ?thesis by (auto simp: Check_ok_iff ValidateStructure_ok_iff)
qed

definition demo_hash :: "snapshot_body \<Rightarrow> string" where
  "demo_hash b = ''h''"

definition demo_actor :: actor_context where
  "demo_actor =
     \<lparr>ac_version = ''1'', ac_principal_id = ''alice'', ac_acting_agent = ''bot'', ac_workload_id = [],
      ac_transaction = ''tx'', ac_actor_chain = [''alice'', ''bot''], ac_scopes = [''mail.send''],
      ac_issuer = ''sts'', ac_audience = ''visor'', ac_token_id = ''t'', ac_expires_at = 100,
      ac_proof_key_thumbprint = ''k'', ac_verification_method = ''sts+dpop'',
      ac_identity_snapshot_hash = ''h''\<rparr>"

definition scoped_policy :: policy where
  "scoped_policy =
     (mail_policy [])\<lparr>pol_servers := [server_zero\<lparr>srv_name := ''mail'', srv_allowed := True,
        srv_tools := [(mail_tool [])\<lparr>tool_required_scopes := [''mail.send'']\<rparr>]\<rparr>]\<rparr>"

theorem evaluate_requires_verified_actor_witness:
  "\<exists>c. eng_verified (SetVerifiedActor (Some demo_actor) (NewEngine demo_hash scoped_policy)) = Some c
     \<and> ValidateStructure demo_hash c = Inr ()
     \<and> ac_identity_snapshot_hash c = SnapshotHash demo_hash c
     \<and> 7 < ac_expires_at c \<and> set [''mail.send''] \<subseteq> set (ac_scopes c)"
proof -
  let ?e = "SetVerifiedActor (Some demo_actor) (NewEngine demo_hash scoped_policy)"
  have "dec_action (Evaluate example_env ?e (\<lambda>n. 7) ''mail'' ''send'' RawEmpty) \<noteq> ActionDeny"
    by code_simp
  moreover have "Tool (eng_registry ?e) ''mail'' ''send'' =
      Some ((mail_tool [])\<lparr>tool_required_scopes := [''mail.send'']\<rparr>)"
    by (simp add: SetVerifiedActor_def NewEngine_def scoped_policy_def mail_policy_def mail_tool_def
        Tool_def NewPolicyRegistry_def server_zero_def tool_rule_zero_def policy_zero_def toolKey_def)
  ultimately show ?thesis
    using evaluate_requires_verified_actor [of example_env ?e "\<lambda>n. 7" "''mail''" "''send''" RawEmpty
        "(mail_tool [])\<lparr>tool_required_scopes := [''mail.send'']\<rparr>"]
    by (simp add: zero_time_def SetVerifiedActor_def NewEngine_def)
qed

text \<open>When a tool carries a lineage rule and the policy enables lineage, a call that is not
  denied names, in its own arguments, a grant whose subject is the session identity and which is
  authorised: following parent grants leads to a grant issued by the human principal to a root
  agent, every grant on the way is unexpired, issued by the subject of its parent, no wider than
  its parent, and covers the capability and the resource of the call.\<close>

theorem evaluate_requires_lineage:
  assumes "dec_action (Evaluate E e clk s t raw) \<noteq> ActionDeny"
    and "Tool (eng_registry e) s t = Some tool" and "hasLineageRequire (tool_rules tool)"
    and "pol_identity (eng_policy e) = Some idn" and "is_version idn = 1"
    and "env = EnvelopeFromArgs (sessionIdentityAt e (clk 1) (clk 1)) s t (extractArgs raw)"
  shows "\<exists>r actor grant.
       NewRegistry E (is_agents idn) (is_grants idn) (pol_trajectories (eng_policy e)) = Inr r
     \<and> live_agent E r (clk 1) (ai_human_principal_id actor) (env_actor_agent_id env) actor
     \<and> reg_grants r (env_grant_id env) = Some grant
     \<and> gr_subject_agent_id grant = env_actor_agent_id env
     \<and> authorized_grant E r (clk 1) (ai_human_principal_id actor) (env_capability env)
         (env_resource env) grant"
proof -
  let ?d = "EvaluateLineageAt E e (clk 1) s t (extractArgs raw) (Some (eng_policy e)) (clk 1)"
  have "?d \<in> set (all_stages E e clk (Tool (eng_registry e) s t) s t raw)"
    using assms(2,3) by (simp add: all_stages_def lineage_stage_def)
  from Evaluate_stage_not_denied [OF assms(1) this] assms(4,5)
  obtain r where r: "NewRegistry E (is_agents idn) (is_grants idn) (pol_trajectories (eng_policy e)) = Inr r"
    and "ld_allow (fst (ValidateAt E env (Some r) (clk 1)))"
    unfolding assms(6)
    by (auto simp: EvaluateLineageAt_def Let_def split: sum.splits prod.splits if_splits)
  with ValidateAt_authorized show ?thesis by blast
qed

definition lineage_policy :: policy where
  "lineage_policy =
     (mail_policy [mail_rule ''lineage_require'' []])
       \<lparr>pol_identity := Some
          \<lparr>is_version = 1,
           is_agents = [\<lparr>ai_instance_id = ''bot'', ai_parent_agent_id = [],
             ai_human_principal_id = ''alice'', ai_created_at = ''a'', ai_expiry = ''aaaaaaaaaa''\<rparr>],
           is_grants = [\<lparr>gr_grant_id = ''g'', gr_issuer = ''alice'', gr_subject_agent_id = ''bot'',
             gr_parent_grant_id = [], gr_capabilities = [''mail''],
             gr_resource_scope = [''inbox''], gr_issued_at = ''a'', gr_expiry = ''aaaaaaaaaa''\<rparr>]\<rparr>,
        pol_trajectories := [\<lparr>tr_trajectory_id = ''t1'', tr_actor_agent_id = ''bot'',
          tr_grant_id = ''g'', tr_capability = ''mail'', tr_server = ''mail'', tr_tool = ''send'',
          tr_resource_scope = [''inbox''], tr_effect = ''write'',
          tr_prior_state_hash = ''p''\<rparr>]\<rparr>"

definition lineage_args :: raw_json where
  "lineage_args = RawJson (JObj [(''_lineage'', JObj
     [(''grant_id'', JStr ''g''), (''capability'', JStr ''mail''), (''resource'', JStr ''inbox''),
      (''effect'', JStr ''write''), (''prior_state_hash'', JStr ''p''), (''trajectory_id'', JStr ''t1'')])])"

definition lineage_engine :: engine where
  "lineage_engine = SetClientID ''bot'' (NewEngine demo_hash lineage_policy)"

theorem evaluate_requires_lineage_witness:
  "\<exists>r actor grant.
       NewRegistry example_env (is_agents (the (pol_identity lineage_policy)))
         (is_grants (the (pol_identity lineage_policy))) (pol_trajectories lineage_policy) = Inr r
     \<and> live_agent example_env r 5 (ai_human_principal_id actor) ''bot'' actor
     \<and> reg_grants r ''g'' = Some grant \<and> gr_subject_agent_id grant = ''bot''
     \<and> authorized_grant example_env r 5 (ai_human_principal_id actor) ''mail'' ''inbox'' grant"
proof -
  let ?env = "EnvelopeFromArgs (sessionIdentityAt lineage_engine 5 5) ''mail'' ''send'' (extractArgs lineage_args)"
  have env: "env_actor_agent_id ?env = ''bot''" "env_grant_id ?env = ''g''"
    "env_capability ?env = ''mail''" "env_resource ?env = ''inbox''" by code_simp+
  have allowed: "dec_action (Evaluate example_env lineage_engine (\<lambda>n. 5) ''mail'' ''send'' lineage_args)
      \<noteq> ActionDeny" by code_simp
  have tool: "Tool (eng_registry lineage_engine) ''mail'' ''send'' =
      Some (mail_tool [mail_rule ''lineage_require'' []])"
    by (simp add: lineage_engine_def SetClientID_def NewEngine_def lineage_policy_def mail_policy_def
        mail_tool_def Tool_def NewPolicyRegistry_def server_zero_def tool_rule_zero_def
        policy_zero_def toolKey_def)
  have rule: "hasLineageRequire (tool_rules (mail_tool [mail_rule ''lineage_require'' []]))"
    by code_simp
  have pol: "eng_policy lineage_engine = lineage_policy"
    by (simp add: lineage_engine_def SetClientID_def NewEngine_def)
  have idn: "pol_identity lineage_policy = Some (the (pol_identity lineage_policy))"
    "is_version (the (pol_identity lineage_policy)) = 1" by (simp_all add: lineage_policy_def)
  show ?thesis
    using evaluate_requires_lineage [OF allowed tool rule, unfolded pol, OF idn refl] env by simp
qed

end
