(* ===== verification/Ownership.thy ===== *)
theory Ownership
  imports Policy_Types
begin

text \<open>
  Capability ownership proofs: the verifier (\<^verbatim>\<open>src/internal/ownership/model.go\<close>,
  \<^verbatim>\<open>src/internal/ownership/verifier.go\<close>) and the proxy's gate
  (\<^verbatim>\<open>src/internal/proxy/capability_ownership.go\<close>). SHA-256, the RFC 3339 rendering of an instant,
  the JSON form of the policy and the signer are the parameters of crypto_env; the byte string
  that is hashed for a grant is modelled exactly.
\<close>

record crypto_env =
  sha256_hex :: "string \<Rightarrow> string"
  format_nano :: "int \<Rightarrow> string"
  marshal_policy :: "policy \<Rightarrow> string"

definition VerdictValidDirect :: string where "VerdictValidDirect = ''VALID_DIRECT''"
definition VerdictValidDelegated :: string where "VerdictValidDelegated = ''VALID_DELEGATED''"
definition VerdictInvalid :: string where "VerdictInvalid = ''INVALID''"

definition ReasonMissing :: string where "ReasonMissing = ''missing''"
definition ReasonExpired :: string where "ReasonExpired = ''expired''"
definition ReasonAmbiguous :: string where "ReasonAmbiguous = ''ambiguous''"
definition ReasonMismatch :: string where "ReasonMismatch = ''mismatch''"
definition ReasonNotCovered :: string where "ReasonNotCovered = ''not_covered''"

lemmas verdict_defs = VerdictValidDirect_def VerdictValidDelegated_def VerdictInvalid_def

record capability =
  cap_server :: string
  cap_owner :: string
  cap_tool :: string
  cap_effect_class :: string
  cap_scope_argument :: string

record grant =
  gn_id :: string
  gn_owner :: string
  gn_delegate :: string
  gn_server :: string
  gn_tool :: string
  gn_effect_class :: string
  gn_scope_argument :: string
  gn_exact_values :: "string list"
  gn_issued_at :: int
  gn_expires_at :: int

record own_request =
  rq_requester :: string
  rq_server :: string
  rq_tool :: string
  rq_effect_class :: string
  rq_scope_value :: string
  rq_has_scope :: bool

record own_proof =
  pf_verdict :: string
  pf_reason :: string
  pf_requester :: string
  pf_server :: string
  pf_tool :: string
  pf_owner :: string
  pf_effect_class :: string
  pf_delegation_id :: string
  pf_delegation_sha :: string
  pf_grant :: "(int \<times> int) option"
  pf_evaluated_at :: int

section \<open>The canonical form of a grant\<close>

text \<open>\<^verbatim>\<open>binary.PutUvarint\<close>: seven bits per byte, least significant first, the high bit set on all but
  the last byte.\<close>

function put_uvarint :: "nat \<Rightarrow> string" where
  "put_uvarint n = (if n < 128 then [char_of n] else char_of (n mod 128 + 128) # put_uvarint (n div 128))"
  by pat_completeness auto
termination
  by (relation "measure id") auto

declare put_uvarint.simps [simp del]

definition writeField :: "string \<Rightarrow> string" where
  "writeField s = put_uvarint (length s) @ s"

definition canonical_grant_bytes :: "crypto_env \<Rightarrow> grant \<Rightarrow> string" where
  "canonical_grant_bytes C g =
     concat (map writeField
       [gn_id g, gn_owner g, gn_delegate g, gn_server g, gn_tool g, gn_effect_class g,
        gn_scope_argument g, format_nano C (gn_issued_at g), format_nano C (gn_expires_at g)])
     @ writeField (itoa (int (length (gn_exact_values g))))
     @ concat (map writeField (gn_exact_values g))"

definition CanonicalGrantSHA :: "crypto_env \<Rightarrow> grant \<Rightarrow> string" where
  "CanonicalGrantSHA C g = sha256_hex C (canonical_grant_bytes C g)"

section \<open>The registry\<close>

record own_registry =
  or_capabilities :: "string \<rightharpoonup> capability"
  or_owners :: "string \<rightharpoonup> string"
  or_grants :: "grant list"

datatype own_error = DuplicateCapability string string | ConflictingOwners string | BadTime string

definition capKey :: "string \<Rightarrow> string \<Rightarrow> string" where
  "capKey srv tool = srv @ [CHR 0x00] @ tool"

fun index_capabilities :: "own_registry \<Rightarrow> capability list \<Rightarrow> own_error + own_registry" where
  "index_capabilities r [] = Inr r"
| "index_capabilities r (c # cs) =
     (let k = capKey (cap_server c) (cap_tool c) in
      if or_capabilities r k \<noteq> None then Inl (DuplicateCapability (cap_server c) (cap_tool c))
      else if (case or_owners r (cap_server c) of Some prev \<Rightarrow> prev \<noteq> cap_owner c | None \<Rightarrow> False)
      then Inl (ConflictingOwners (cap_server c))
      else index_capabilities
             (r\<lparr>or_owners := (or_owners r)(cap_server c \<mapsto> cap_owner c),
                or_capabilities := (or_capabilities r)(k \<mapsto> c)\<rparr>) cs)"

definition NewOwnRegistry :: "capability list \<Rightarrow> own_error + own_registry" where
  "NewOwnRegistry caps =
     index_capabilities \<lparr>or_capabilities = Map.empty, or_owners = Map.empty, or_grants = []\<rparr> caps"

definition RegisterOwner :: "string \<Rightarrow> string \<Rightarrow> own_registry \<Rightarrow> own_error + own_registry" where
  "RegisterOwner srv own r =
     (if (case or_owners r srv of Some prev \<Rightarrow> prev \<noteq> own | None \<Rightarrow> False)
      then Inl (ConflictingOwners srv)
      else Inr (r\<lparr>or_owners := (or_owners r)(srv \<mapsto> own)\<rparr>))"

definition AddGrant :: "grant \<Rightarrow> own_registry \<Rightarrow> own_registry" where
  "AddGrant g r = r\<lparr>or_grants := or_grants r @ [g]\<rparr>"

definition Capability :: "own_registry \<Rightarrow> string \<Rightarrow> string \<Rightarrow> capability option" where
  "Capability r srv tool = or_capabilities r (capKey srv tool)"

definition EndpointOwner :: "own_registry \<Rightarrow> string \<Rightarrow> string option" where
  "EndpointOwner r srv = or_owners r srv"

text \<open>The tests of \<^verbatim>\<open>matchingGrants\<close> and \<^verbatim>\<open>hasTimeOnlyMismatch\<close> on one grant.\<close>

definition scope_agrees :: "capability \<Rightarrow> own_request \<Rightarrow> grant \<Rightarrow> bool" where
  "scope_agrees cap req g \<longleftrightarrow>
     gn_scope_argument g = cap_scope_argument cap \<and> rq_has_scope req
     \<and> list_ex (\<lambda>v. v = rq_scope_value req) (gn_exact_values g)"

definition in_window :: "int \<Rightarrow> grant \<Rightarrow> bool" where
  "in_window now g \<longleftrightarrow> \<not> (now < gn_issued_at g \<or> \<not> now < gn_expires_at g)"

definition grant_matches :: "capability \<Rightarrow> own_request \<Rightarrow> int \<Rightarrow> grant \<Rightarrow> bool" where
  "grant_matches cap req now g \<longleftrightarrow>
     gn_owner g = cap_owner cap \<and> gn_delegate g = rq_requester req
     \<and> gn_server g = rq_server req \<and> gn_tool g = rq_tool req
     \<and> gn_effect_class g = cap_effect_class cap
     \<and> (if cap_scope_argument cap = [] then gn_scope_argument g = [] else scope_agrees cap req g)
     \<and> in_window now g"

definition matchingGrants :: "own_registry \<Rightarrow> capability \<Rightarrow> own_request \<Rightarrow> int \<Rightarrow> grant list" where
  "matchingGrants r cap req now = filter (grant_matches cap req now) (or_grants r)"

definition hasTimeOnlyMismatch :: "own_registry \<Rightarrow> capability \<Rightarrow> own_request \<Rightarrow> int \<Rightarrow> bool" where
  "hasTimeOnlyMismatch r cap req now =
     list_ex (\<lambda>g. gn_owner g = cap_owner cap \<and> gn_delegate g = rq_requester req
        \<and> gn_server g = rq_server req \<and> gn_tool g = rq_tool req
        \<and> gn_effect_class g = cap_effect_class cap
        \<and> (cap_scope_argument cap \<noteq> [] \<longrightarrow> scope_agrees cap req g)
        \<and> \<not> in_window now g) (or_grants r)"

definition invalid :: "own_proof \<Rightarrow> string \<Rightarrow> own_proof" where
  "invalid base reason = base\<lparr>pf_verdict := VerdictInvalid, pf_reason := reason\<rparr>"

definition base_proof :: "own_request \<Rightarrow> int \<Rightarrow> own_proof" where
  "base_proof req now =
     \<lparr>pf_verdict = [], pf_reason = [], pf_requester = rq_requester req, pf_server = rq_server req,
      pf_tool = rq_tool req, pf_owner = [], pf_effect_class = rq_effect_class req,
      pf_delegation_id = [], pf_delegation_sha = [], pf_grant = None, pf_evaluated_at = now\<rparr>"

definition EvaluateOwnership :: "crypto_env \<Rightarrow> own_registry \<Rightarrow> own_request \<Rightarrow> int \<Rightarrow> own_proof" where
  "EvaluateOwnership C r req now =
     (case or_capabilities r (capKey (rq_server req) (rq_tool req)) of
        None \<Rightarrow> invalid (base_proof req now) ReasonNotCovered
      | Some cap \<Rightarrow>
          let base = (base_proof req now)\<lparr>pf_owner := cap_owner cap\<rparr> in
          if cap_effect_class cap \<noteq> [] \<and> rq_effect_class req \<noteq> []
             \<and> rq_effect_class req \<noteq> cap_effect_class cap
          then invalid base ReasonMismatch
          else if rq_requester req = cap_owner cap then base\<lparr>pf_verdict := VerdictValidDirect\<rparr>
          else case matchingGrants r cap req now of
                 [] \<Rightarrow> if hasTimeOnlyMismatch r cap req now then invalid base ReasonExpired
                       else invalid base ReasonMissing
               | [g] \<Rightarrow> base\<lparr>pf_verdict := VerdictValidDelegated, pf_delegation_id := gn_id g,
                             pf_delegation_sha := CanonicalGrantSHA C g,
                             pf_grant := Some (gn_issued_at g, gn_expires_at g)\<rparr>
               | _ \<Rightarrow> invalid base ReasonAmbiguous)"

section \<open>The gate of the proxy\<close>

fun register_owners :: "owned_endpoint list \<Rightarrow> own_registry \<Rightarrow> own_error + own_registry" where
  "register_owners [] r = Inr r"
| "register_owners (ep # eps) r =
     (case RegisterOwner (oe_server ep) (oe_owner ep) r of
        Inl e \<Rightarrow> Inl e | Inr r' \<Rightarrow> register_owners eps r')"

fun add_delegations ::
    "go_env \<Rightarrow> delegation_grant list \<Rightarrow> own_registry \<Rightarrow> own_error + own_registry" where
  "add_delegations E [] r = Inr r"
| "add_delegations E (g # gs) r =
     (case parse_rfc3339 E (dg_issued_at g) of
        None \<Rightarrow> Inl (BadTime (dg_issued_at g))
      | Some issued \<Rightarrow>
          (case parse_rfc3339 E (dg_expires_at g) of
             None \<Rightarrow> Inl (BadTime (dg_expires_at g))
           | Some expires \<Rightarrow>
               let (scopeArg, exact) = (case dg_resource_scope g of
                     Some sc \<Rightarrow> (rs_argument sc, rs_exact_values sc) | None \<Rightarrow> ([], []))
               in add_delegations E gs
                    (AddGrant \<lparr>gn_id = dg_id g, gn_owner = dg_owner g, gn_delegate = dg_delegate g,
                       gn_server = dg_server g, gn_tool = dg_tool g, gn_effect_class = dg_effect_class g,
                       gn_scope_argument = scopeArg, gn_exact_values = exact,
                       gn_issued_at = issued, gn_expires_at = expires\<rparr> r)))"

definition policy_capabilities :: "capability_ownership \<Rightarrow> capability list" where
  "policy_capabilities oc =
     concat (map (\<lambda>ep. map (\<lambda>c. \<lparr>cap_server = oe_server ep, cap_owner = oe_owner ep, cap_tool = cd_tool c,
                    cap_effect_class = cd_effect_class c, cap_scope_argument = cd_scope_argument c\<rparr>)
                  (oe_capabilities ep)) (co_endpoints oc))"

definition ownershipRegistryFromPolicy ::
    "go_env \<Rightarrow> capability_ownership \<Rightarrow> own_error + own_registry" where
  "ownershipRegistryFromPolicy E oc =
     (case NewOwnRegistry (policy_capabilities oc) of
        Inl e \<Rightarrow> Inl e
      | Inr r \<Rightarrow>
          (case register_owners (co_endpoints oc) r of
             Inl e \<Rightarrow> Inl e
           | Inr r' \<Rightarrow> add_delegations E (co_delegations oc) r'))"

definition ownershipReasonCode :: "string \<Rightarrow> string" where
  "ownershipReasonCode reason =
     ''cross-principal authority acquisition: capability ownership proof invalid ('' @ reason
     @ ''); argument class PRINCIPAL; effect class THIRD_PARTY; authority transition USER->OTHER''"

record ownership_receipt =
  or_schema :: string
  or_verdict :: string
  or_requester :: string
  or_server :: string
  or_tool :: string
  or_owner :: string
  or_effect_class :: string
  or_scope_argument :: string
  or_scope_value_sha :: string
  or_delegation_id :: string
  or_delegation_sha :: string
  or_status :: string
  or_grant_issued_at :: string
  or_grant_expires_at :: string
  or_request_hash :: string
  or_policy_hash :: string
  or_evaluated_at :: int
  or_reason_code :: string

record ownershipDeny =
  od_reason :: string
  od_receipt :: "ownership_receipt option"

definition valid_verdict :: "own_proof \<Rightarrow> bool" where
  "valid_verdict p \<longleftrightarrow> pf_verdict p = VerdictValidDirect \<or> pf_verdict p = VerdictValidDelegated"

definition ownershipStatus :: "own_proof \<Rightarrow> string" where
  "ownershipStatus p =
     (if pf_verdict p = VerdictValidDirect then ''direct''
      else if pf_verdict p = VerdictValidDelegated then ''matched''
      else if pf_reason p = ReasonExpired then ''expired''
      else if pf_reason p = ReasonAmbiguous then ''ambiguous''
      else if pf_reason p = ReasonMismatch then ''mismatch''
      else ''missing'')"

definition grantBound :: "crypto_env \<Rightarrow> own_proof \<Rightarrow> bool \<Rightarrow> string" where
  "grantBound C p issued =
     (case pf_grant p of
        None \<Rightarrow> []
      | Some (i, e) \<Rightarrow> if issued then format_nano C i else format_nano C e)"

text \<open>signed says whether the proxy has a signer and it signed the receipt.\<close>

definition renderOwnershipDecision ::
    "crypto_env \<Rightarrow> bool \<Rightarrow> policy \<Rightarrow> string \<Rightarrow> own_proof \<Rightarrow> capability \<Rightarrow> string \<Rightarrow> bool
       \<Rightarrow> ownership_receipt option \<times> ownershipDeny option" where
  "renderOwnershipDecision C signed pol originalRaw p cap scopeValue hasScope =
     (let receipt = \<lparr>or_schema = ''capability_ownership_v1'',
            or_verdict = (if valid_verdict p then ''allow'' else ''deny''),
            or_requester = pf_requester p, or_server = pf_server p, or_tool = pf_tool p,
            or_owner = pf_owner p, or_effect_class = cap_effect_class cap,
            or_scope_argument = cap_scope_argument cap,
            or_scope_value_sha = (if hasScope \<and> cap_scope_argument cap \<noteq> [] then sha256_hex C scopeValue else []),
            or_delegation_id = pf_delegation_id p, or_delegation_sha = pf_delegation_sha p,
            or_status = ownershipStatus p, or_grant_issued_at = grantBound C p True,
            or_grant_expires_at = grantBound C p False, or_request_hash = sha256_hex C originalRaw,
            or_policy_hash = sha256_hex C (marshal_policy C pol),
            or_evaluated_at = pf_evaluated_at p, or_reason_code = pf_reason p\<rparr>;
          recOrNil = (if signed then Some receipt else None)
      in if \<not> valid_verdict p
         then (recOrNil, Some \<lparr>od_reason = ownershipReasonCode (pf_reason p), od_receipt = recOrNil\<rparr>)
         else if \<not> signed
         then (None, Some \<lparr>od_reason = ownershipReasonCode ''mismatch'', od_receipt = None\<rparr>)
         else (Some receipt, None))"

definition checkCapabilityOwnership ::
    "go_env \<Rightarrow> crypto_env \<Rightarrow> bool \<Rightarrow> string \<Rightarrow> string \<Rightarrow> string \<Rightarrow> raw_json \<Rightarrow> string \<Rightarrow> policy option \<Rightarrow> int
       \<Rightarrow> ownership_receipt option \<times> ownershipDeny option" where
  "checkCapabilityOwnership E C signed clientID serverName toolName arguments originalRaw pol now =
     (case pol of
        None \<Rightarrow> (None, None)
      | Some p \<Rightarrow>
      (case pol_capability_ownership p of
         None \<Rightarrow> (None, None)
       | Some oc \<Rightarrow>
       (case ownershipRegistryFromPolicy E oc of
          Inl _ \<Rightarrow> (None, Some \<lparr>od_reason = ownershipReasonCode ''mismatch'', od_receipt = None\<rparr>)
        | Inr reg \<Rightarrow>
        (case Capability reg serverName toolName of
           None \<Rightarrow>
             (case EndpointOwner reg serverName of
                None \<Rightarrow> (None, None)
              | Some own \<Rightarrow>
                  renderOwnershipDecision C signed p originalRaw
                    \<lparr>pf_verdict = VerdictInvalid, pf_reason = ReasonMissing, pf_requester = clientID,
                     pf_server = serverName, pf_tool = toolName, pf_owner = own, pf_effect_class = [],
                     pf_delegation_id = [], pf_delegation_sha = [], pf_grant = None, pf_evaluated_at = now\<rparr>
                    \<lparr>cap_server = serverName, cap_owner = own, cap_tool = toolName,
                     cap_effect_class = [], cap_scope_argument = []\<rparr> [] False)
         | Some cap \<Rightarrow>
             let (scopeValue, hasScope) =
                   (if cap_scope_argument cap = [] then ([], False)
                    else case arg_lookup (extractArgs arguments) (cap_scope_argument cap) of
                           Some (JStr str) \<Rightarrow> (str, True)
                         | _ \<Rightarrow> ([], False));
                 req = \<lparr>rq_requester = clientID, rq_server = serverName, rq_tool = toolName,
                        rq_effect_class = cap_effect_class cap, rq_scope_value = scopeValue,
                        rq_has_scope = hasScope\<rparr>
             in renderOwnershipDecision C signed p originalRaw (EvaluateOwnership C reg req now)
                  cap scopeValue hasScope))))"

section \<open>The canonical form is injective\<close>

lemma put_uvarint_cases:
  "n < 128 \<Longrightarrow> put_uvarint n = [char_of n]"
  "\<not> n < 128 \<Longrightarrow> put_uvarint n = char_of (n mod 128 + 128) # put_uvarint (n div 128)"
  by (subst put_uvarint.simps, simp)+

lemma byte_of_small: "(n::nat) < 256 \<Longrightarrow> of_char (char_of n :: char) = n"
  by simp

lemma put_uvarint_prefix:
  "put_uvarint n @ s = put_uvarint m @ t \<Longrightarrow> n = m \<and> s = t"
proof (induction n arbitrary: m rule: less_induct)
  case (less n)
  let ?hd = "\<lambda>k. if k < 128 then k else k mod 128 + 128"
  have hd: "hd (put_uvarint k @ u) = char_of (?hd k)" for k u
    by (cases "k < 128") (simp_all add: put_uvarint_cases)
  have "char_of (?hd n) = (char_of (?hd m) :: char)" using less.prems hd by metis
  then have eq: "?hd n = ?hd m"
    using byte_of_small [of "?hd n"] byte_of_small [of "?hd m"] by (auto split: if_splits)
  show ?case
  proof (cases "n < 128")
    case True
    then have "m < 128" using eq by (auto split: if_splits)
    with True eq less.prems show ?thesis by (simp add: put_uvarint_cases)
  next
    case False
    then have m: "\<not> m < 128" and "n mod 128 = m mod 128" using eq by (auto split: if_splits)
    moreover have "n div 128 = m div 128 \<and> s = t"
      using less.IH [of "n div 128" "m div 128"] False m less.prems by (simp add: put_uvarint_cases)
    ultimately show ?thesis by (metis div_mult_mod_eq)
  qed
qed

lemma writeField_prefix: "writeField a @ s = writeField b @ t \<longleftrightarrow> a = b \<and> s = t"
proof
  assume "writeField a @ s = writeField b @ t"
  then have "put_uvarint (length a) @ (a @ s) = put_uvarint (length b) @ (b @ t)"
    by (simp add: writeField_def)
  from put_uvarint_prefix [OF this] show "a = b \<and> s = t" by (auto simp: append_eq_append_conv)
qed simp

lemma writeField_not_Nil: "writeField a \<noteq> []"
  by (cases "length a < 128") (simp_all add: writeField_def put_uvarint_cases)

lemma fields_inj: "concat (map writeField xs) = concat (map writeField ys) \<Longrightarrow> xs = ys"
proof (induction xs arbitrary: ys)
  case Nil
  then show ?case by (cases ys) (auto simp: writeField_not_Nil)
next
  case (Cons x xs)
  then obtain y ys' where ys: "ys = y # ys'" by (cases ys) (auto simp: writeField_not_Nil)
  with Cons.prems have "x = y" "concat (map writeField xs) = concat (map writeField ys')"
    by (simp_all add: writeField_prefix)
  with Cons.IH ys show ?case by simp
qed

text \<open>The byte string that is hashed for a grant determines the grant: two grants with the
  same canonical bytes are equal in every field, for every rendering of instants that keeps
  distinct instants apart. So no two distinct grants share the hashed input.\<close>

theorem canonical_grant_injective:
  assumes "inj (format_nano C)" and "canonical_grant_bytes C g = canonical_grant_bytes C h"
  shows "g = h"
proof -
  have "gn_id g = gn_id h" "gn_owner g = gn_owner h" "gn_delegate g = gn_delegate h"
    "gn_server g = gn_server h" "gn_tool g = gn_tool h" "gn_effect_class g = gn_effect_class h"
    "gn_scope_argument g = gn_scope_argument h"
    "format_nano C (gn_issued_at g) = format_nano C (gn_issued_at h)"
    "format_nano C (gn_expires_at g) = format_nano C (gn_expires_at h)"
    "concat (map writeField (gn_exact_values g)) = concat (map writeField (gn_exact_values h))"
    using assms(2) unfolding canonical_grant_bytes_def by (simp_all add: writeField_prefix)
  then show ?thesis using assms(1) fields_inj by (intro grant.equality) (auto dest: injD)
qed

definition example_crypto :: crypto_env where
  "example_crypto =
     \<lparr>sha256_hex = (\<lambda>s. s), format_nano = (\<lambda>i. (if i < 0 then ''-'' else ''+'') @ replicate (nat \<bar>i\<bar>) CHR ''1''),
      marshal_policy = (\<lambda>p. pol_version p)\<rparr>"

definition example_grant :: "string list \<Rightarrow> grant" where
  "example_grant vs =
     \<lparr>gn_id = ''g1'', gn_owner = ''bob'', gn_delegate = ''alice'', gn_server = ''fs'', gn_tool = ''read'',
      gn_effect_class = ''READ'', gn_scope_argument = ''path'', gn_exact_values = vs,
      gn_issued_at = 1, gn_expires_at = 9\<rparr>"

theorem canonical_grant_injective_witness:
  "canonical_grant_bytes example_crypto (example_grant [''a'', ''b'']) \<noteq>
   canonical_grant_bytes example_crypto (example_grant [''ab''])"
proof
  assume eq: "canonical_grant_bytes example_crypto (example_grant [''a'', ''b'']) =
    canonical_grant_bytes example_crypto (example_grant [''ab''])"
  have "inj (format_nano example_crypto)"
  proof (rule injI)
    fix i j :: int
    assume "format_nano example_crypto i = format_nano example_crypto j"
    then have e: "(if i < 0 then ''-'' else ''+'') @ replicate (nat \<bar>i\<bar>) CHR ''1'' =
        (if j < 0 then ''-'' else ''+'') @ replicate (nat \<bar>j\<bar>) CHR ''1''"
      by (simp add: example_crypto_def)
    then have "(i < 0) = (j < 0)" by (auto split: if_splits)
    moreover have "nat \<bar>i\<bar> = nat \<bar>j\<bar>" using arg_cong [OF e, of length] by (auto split: if_splits)
    ultimately show "i = j" by (auto split: if_splits)
  qed
  from canonical_grant_injective [OF this eq] show False by (simp add: example_grant_def)
qed

section \<open>The verdict\<close>

lemma invalid_not_valid [simp]: "\<not> valid_verdict (invalid b r)"
  by (simp add: valid_verdict_def invalid_def verdict_defs)

lemma EvaluateOwnership_valid_iff:
  "valid_verdict (EvaluateOwnership C r req now) \<longleftrightarrow>
     (\<exists>cap. Capability r (rq_server req) (rq_tool req) = Some cap
        \<and> (cap_effect_class cap = [] \<or> rq_effect_class req = []
           \<or> rq_effect_class req = cap_effect_class cap)
        \<and> (rq_requester req = cap_owner cap \<or> (\<exists>g. matchingGrants r cap req now = [g])))"
  by (auto simp: EvaluateOwnership_def Capability_def Let_def split: option.splits list.splits)
     (auto simp: valid_verdict_def base_proof_def)

section \<open>The registry built from a policy\<close>

definition add_capability :: "capability \<Rightarrow> own_registry \<Rightarrow> own_registry" where
  "add_capability c r =
     r\<lparr>or_owners := (or_owners r)(cap_server c \<mapsto> cap_owner c),
       or_capabilities := (or_capabilities r)(capKey (cap_server c) (cap_tool c) \<mapsto> c)\<rparr>"

lemma index_capabilities_Cons:
  assumes "index_capabilities r (c # cs) = Inr r'"
  shows "index_capabilities (add_capability c r) cs = Inr r'"
  using assms by (simp add: add_capability_def Let_def split: if_splits)

lemma index_capabilities_from:
  assumes "index_capabilities r cs = Inr r'"
  shows "or_grants r' = or_grants r
     \<and> (\<forall>k c. or_capabilities r' k = Some c \<longrightarrow> or_capabilities r k = Some c
          \<or> (c \<in> set cs \<and> k = capKey (cap_server c) (cap_tool c)))
     \<and> (\<forall>s. or_owners r' s \<noteq> None \<longrightarrow> or_owners r s \<noteq> None \<or> s \<in> cap_server ` set cs)"
  using assms
proof (induction cs arbitrary: r)
  case Nil
  then show ?case by simp
next
  case (Cons c cs)
  note IH = Cons.IH [OF index_capabilities_Cons [OF Cons.prems]]
  have "or_capabilities r k = Some x \<or> (x \<in> set (c # cs) \<and> k = capKey (cap_server x) (cap_tool x))"
    if "or_capabilities r' k = Some x" for k x
    using conjunct1 [OF conjunct2 [OF IH], rule_format, OF that]
    by (auto simp: add_capability_def split: if_splits)
  moreover have "or_owners r s \<noteq> None \<or> s \<in> cap_server ` set (c # cs)" if "or_owners r' s \<noteq> None" for s
    using conjunct2 [OF conjunct2 [OF IH], rule_format, OF that]
    by (auto simp: add_capability_def split: if_splits)
  ultimately show ?case using IH by (simp add: add_capability_def)
qed

lemma register_owners_from:
  assumes "register_owners eps r = Inr r'"
  shows "or_capabilities r' = or_capabilities r" and "or_grants r' = or_grants r"
    and "or_owners r' s \<noteq> None \<longleftrightarrow> or_owners r s \<noteq> None \<or> s \<in> oe_server ` set eps"
  using assms
proof (induction eps arbitrary: r)
  case (Cons ep eps)
  case 1 with Cons show ?case by (auto simp: RegisterOwner_def split: if_splits sum.splits)
next
  case (Cons ep eps)
  case 2 with Cons show ?case by (auto simp: RegisterOwner_def split: if_splits sum.splits)
next
  case (Cons ep eps)
  case 3 with Cons show ?case by (fastforce simp: RegisterOwner_def split: if_splits sum.splits)
qed auto

text \<open>A grant of the registry comes from a delegation of the policy.\<close>

definition delegation_as_grant :: "go_env \<Rightarrow> delegation_grant \<Rightarrow> grant \<Rightarrow> bool" where
  "delegation_as_grant E d g \<longleftrightarrow>
     gn_id g = dg_id d \<and> gn_owner g = dg_owner d \<and> gn_delegate g = dg_delegate d
     \<and> gn_server g = dg_server d \<and> gn_tool g = dg_tool d \<and> gn_effect_class g = dg_effect_class d
     \<and> parse_rfc3339 E (dg_issued_at d) = Some (gn_issued_at g)
     \<and> parse_rfc3339 E (dg_expires_at d) = Some (gn_expires_at g)
     \<and> gn_scope_argument g = (case dg_resource_scope d of Some sc \<Rightarrow> rs_argument sc | None \<Rightarrow> [])
     \<and> gn_exact_values g = (case dg_resource_scope d of Some sc \<Rightarrow> rs_exact_values sc | None \<Rightarrow> [])"

lemma add_delegations_from:
  assumes "add_delegations E ds r = Inr r'"
  shows "or_capabilities r' = or_capabilities r \<and> or_owners r' = or_owners r
     \<and> (\<forall>g\<in>set (or_grants r'). g \<in> set (or_grants r) \<or> (\<exists>d\<in>set ds. delegation_as_grant E d g))"
  using assms
proof (induction ds arbitrary: r)
  case (Cons d ds)
  from Cons.prems obtain i e where t: "parse_rfc3339 E (dg_issued_at d) = Some i"
      "parse_rfc3339 E (dg_expires_at d) = Some e"
    by (auto split: option.splits)
  define g where "g = \<lparr>gn_id = dg_id d, gn_owner = dg_owner d, gn_delegate = dg_delegate d,
      gn_server = dg_server d, gn_tool = dg_tool d, gn_effect_class = dg_effect_class d,
      gn_scope_argument = (case dg_resource_scope d of Some sc \<Rightarrow> rs_argument sc | None \<Rightarrow> []),
      gn_exact_values = (case dg_resource_scope d of Some sc \<Rightarrow> rs_exact_values sc | None \<Rightarrow> []),
      gn_issued_at = i, gn_expires_at = e\<rparr>"
  have "add_delegations E ds (AddGrant g r) = Inr r'"
    using Cons.prems t by (simp add: g_def split: option.splits prod.splits)
  from Cons.IH [OF this] have IH: "or_capabilities r' = or_capabilities r" "or_owners r' = or_owners r"
    "\<forall>x\<in>set (or_grants r'). x = g \<or> x \<in> set (or_grants r) \<or> (\<exists>d\<in>set ds. delegation_as_grant E d x)"
    by (auto simp: AddGrant_def)
  have "delegation_as_grant E d g" using t by (simp add: delegation_as_grant_def g_def)
  with IH show ?case by auto
qed simp

lemma policy_registry_from:
  assumes "ownershipRegistryFromPolicy E oc = Inr r"
  shows "EndpointOwner r s = None \<longleftrightarrow> s \<notin> oe_server ` set (co_endpoints oc)"
    and "Capability r s t = Some c \<Longrightarrow>
           c \<in> set (policy_capabilities oc) \<and> capKey s t = capKey (cap_server c) (cap_tool c)"
    and "g \<in> set (or_grants r) \<Longrightarrow> \<exists>d\<in>set (co_delegations oc). delegation_as_grant E d g"
proof -
  obtain r1 r2 where r1: "NewOwnRegistry (policy_capabilities oc) = Inr r1"
    and r2: "register_owners (co_endpoints oc) r1 = Inr r2"
    and r3: "add_delegations E (co_delegations oc) r2 = Inr r"
    using assms by (auto simp: ownershipRegistryFromPolicy_def split: sum.splits)
  note f1 = index_capabilities_from [OF r1 [unfolded NewOwnRegistry_def]]
  note f2 = register_owners_from [OF r2]
  note f3 = add_delegations_from [OF r3]
  have owners1: "x \<in> oe_server ` set (co_endpoints oc)" if "or_owners r1 x \<noteq> None" for x
    using conjunct2 [OF conjunct2 [OF f1], rule_format, OF that] by (auto simp: policy_capabilities_def)
  show "EndpointOwner r s = None \<longleftrightarrow> s \<notin> oe_server ` set (co_endpoints oc)"
    using f2(3) [of s] f3 owners1 [of s] by (auto simp: EndpointOwner_def)
  show "Capability r s t = Some c \<Longrightarrow>
      c \<in> set (policy_capabilities oc) \<and> capKey s t = capKey (cap_server c) (cap_tool c)"
    using conjunct1 [OF conjunct2 [OF f1], rule_format, of "capKey s t" c] f2(1) f3
    by (simp add: Capability_def)
  show "g \<in> set (or_grants r) \<Longrightarrow> \<exists>d\<in>set (co_delegations oc). delegation_as_grant E d g"
    using f1 f2(2) f3 by auto
qed

section \<open>Properties\<close>

text \<open>The verifier calls a proof valid exactly when the tool is a declared capability, the
  effect class does not disagree with the declaration, and the requester either is the owner or
  holds exactly one grant that agrees on owner, delegate, server, tool, effect class and scope
  and whose window contains the instant. Zero grants and two grants are both invalid.\<close>

theorem ownership_verdict_iff:
  "valid_verdict (EvaluateOwnership C r req now) \<longleftrightarrow>
     (\<exists>cap. Capability r (rq_server req) (rq_tool req) = Some cap
        \<and> (cap_effect_class cap = [] \<or> rq_effect_class req = []
           \<or> rq_effect_class req = cap_effect_class cap)
        \<and> (rq_requester req = cap_owner cap \<or> (\<exists>g. matchingGrants r cap req now = [g])))"
  by (rule EvaluateOwnership_valid_iff)

lemma gate_registry:
  assumes "pol_capability_ownership p = Some oc"
    and "snd (checkCapabilityOwnership E C signed cid srv tool raw txt (Some p) now) = None"
    and "srv \<in> oe_server ` set (co_endpoints oc)"
  obtains r cap sv hs where
    "ownershipRegistryFromPolicy E oc = Inr r" "Capability r srv tool = Some cap" "signed"
    "valid_verdict (EvaluateOwnership C r
       \<lparr>rq_requester = cid, rq_server = srv, rq_tool = tool, rq_effect_class = cap_effect_class cap,
        rq_scope_value = sv, rq_has_scope = hs\<rparr> now)"
    "hs \<longrightarrow> arg_lookup (extractArgs raw) (cap_scope_argument cap) = Some (JStr sv)"
proof -
  obtain r where r: "ownershipRegistryFromPolicy E oc = Inr r"
    using assms(1,2) by (auto simp: checkCapabilityOwnership_def split: sum.splits)
  have listed: "EndpointOwner r srv \<noteq> None" using policy_registry_from(1) [OF r] assms(3) by simp
  have "Capability r srv tool \<noteq> None"
  proof
    assume "Capability r srv tool = None"
    with assms(1,2) r listed show False
      by (auto simp: checkCapabilityOwnership_def renderOwnershipDecision_def Let_def
          valid_verdict_def verdict_defs)
  qed
  then obtain cap where cap: "Capability r srv tool = Some cap" by blast
  define sh where "sh = (if cap_scope_argument cap = [] then ([], False)
      else case arg_lookup (extractArgs raw) (cap_scope_argument cap) of
             Some (JStr str) \<Rightarrow> (str, True) | _ \<Rightarrow> ([], False))"
  have sh: "snd sh \<longrightarrow> arg_lookup (extractArgs raw) (cap_scope_argument cap) = Some (JStr (fst sh))"
    by (auto simp: sh_def split: if_splits option.splits json.splits)
  have "snd (renderOwnershipDecision C signed p txt (EvaluateOwnership C r
       \<lparr>rq_requester = cid, rq_server = srv, rq_tool = tool, rq_effect_class = cap_effect_class cap,
        rq_scope_value = fst sh, rq_has_scope = snd sh\<rparr> now) cap (fst sh) (snd sh)) = None"
    using assms(1,2) r cap
    by (simp add: checkCapabilityOwnership_def sh_def [symmetric] case_prod_beta Let_def)
  then show ?thesis
    using that [OF r cap, of "fst sh" "snd sh"] sh
    by (auto simp: renderOwnershipDecision_def Let_def split: if_splits)
qed

text \<open>C14: On an endpoint that the policy lists, the gate lets a call pass only for a tool declared
  there, with a signed receipt, and only when the client is the owner or the policy holds a
  delegation from that owner to the client for exactly this server, tool and effect class that
  is in force at the instant and, for a scoped tool, lists the exact value of the scope
  argument of the call.\<close>

theorem ownership_gate_sound:
  assumes "pol_capability_ownership p = Some oc"
    and "snd (checkCapabilityOwnership E C signed cid srv tool raw txt (Some p) now) = None"
    and "srv \<in> oe_server ` set (co_endpoints oc)"
  shows "signed \<and> (\<exists>cap\<in>set (policy_capabilities oc).
       capKey srv tool = capKey (cap_server cap) (cap_tool cap)
     \<and> (cid = cap_owner cap
        \<or> (\<exists>d\<in>set (co_delegations oc). \<exists>issued expires.
             dg_owner d = cap_owner cap \<and> dg_delegate d = cid \<and> dg_server d = srv \<and> dg_tool d = tool
           \<and> dg_effect_class d = cap_effect_class cap
           \<and> parse_rfc3339 E (dg_issued_at d) = Some issued
           \<and> parse_rfc3339 E (dg_expires_at d) = Some expires \<and> issued \<le> now \<and> now < expires
           \<and> (cap_scope_argument cap \<noteq> [] \<longrightarrow>
                (\<exists>sc v. dg_resource_scope d = Some sc \<and> rs_argument sc = cap_scope_argument cap
                   \<and> arg_lookup (extractArgs raw) (rs_argument sc) = Some (JStr v)
                   \<and> v \<in> set (rs_exact_values sc))))))"
proof -
  obtain r cap sv hs where r: "ownershipRegistryFromPolicy E oc = Inr r"
    and cap: "Capability r srv tool = Some cap" and sg: signed
    and v: "valid_verdict (EvaluateOwnership C r
       \<lparr>rq_requester = cid, rq_server = srv, rq_tool = tool, rq_effect_class = cap_effect_class cap,
        rq_scope_value = sv, rq_has_scope = hs\<rparr> now)"
    and sh: "hs \<longrightarrow> arg_lookup (extractArgs raw) (cap_scope_argument cap) = Some (JStr sv)"
    by (rule gate_registry [OF assms])
  let ?req = "\<lparr>rq_requester = cid, rq_server = srv, rq_tool = tool,
      rq_effect_class = cap_effect_class cap, rq_scope_value = sv, rq_has_scope = hs\<rparr>"
  have dec: "cap \<in> set (policy_capabilities oc)" "capKey srv tool = capKey (cap_server cap) (cap_tool cap)"
    using policy_registry_from(2) [OF r cap] by auto
  have "cid = cap_owner cap \<or> (\<exists>g. matchingGrants r cap ?req now = [g])"
    using v cap by (auto simp: EvaluateOwnership_valid_iff)
  then show ?thesis
  proof
    assume "cid = cap_owner cap"
    with dec sg show ?thesis by blast
  next
    assume "\<exists>g. matchingGrants r cap ?req now = [g]"
    then obtain g where "matchingGrants r cap ?req now = [g]" by blast
    then have "g \<in> set (matchingGrants r cap ?req now)" by simp
    then have g: "g \<in> set (or_grants r)" "grant_matches cap ?req now g"
      by (auto simp: matchingGrants_def)
    obtain d where d: "d \<in> set (co_delegations oc)" "delegation_as_grant E d g"
      using policy_registry_from(3) [OF r g(1)] by blast
    have "cap_scope_argument cap \<noteq> [] \<longrightarrow>
        (\<exists>sc v. dg_resource_scope d = Some sc \<and> rs_argument sc = cap_scope_argument cap
           \<and> arg_lookup (extractArgs raw) (rs_argument sc) = Some (JStr v) \<and> v \<in> set (rs_exact_values sc))"
    proof
      assume ne: "cap_scope_argument cap \<noteq> []"
      then have "scope_agrees cap ?req g" using g(2) by (simp add: grant_matches_def)
      then have a: "gn_scope_argument g = cap_scope_argument cap" "hs" "sv \<in> set (gn_exact_values g)"
        by (auto simp: scope_agrees_def list_ex_iff)
      obtain sc where "dg_resource_scope d = Some sc"
        using a(1) ne d(2) by (cases "dg_resource_scope d") (auto simp: delegation_as_grant_def)
      then show "\<exists>sc v. dg_resource_scope d = Some sc \<and> rs_argument sc = cap_scope_argument cap
           \<and> arg_lookup (extractArgs raw) (rs_argument sc) = Some (JStr v) \<and> v \<in> set (rs_exact_values sc)"
        using a sh d(2) by (auto simp: delegation_as_grant_def)
    qed
    then have "\<exists>issued expires.
          dg_owner d = cap_owner cap \<and> dg_delegate d = cid \<and> dg_server d = srv \<and> dg_tool d = tool
        \<and> dg_effect_class d = cap_effect_class cap
        \<and> parse_rfc3339 E (dg_issued_at d) = Some issued
        \<and> parse_rfc3339 E (dg_expires_at d) = Some expires \<and> issued \<le> now \<and> now < expires
        \<and> (cap_scope_argument cap \<noteq> [] \<longrightarrow>
             (\<exists>sc v. dg_resource_scope d = Some sc \<and> rs_argument sc = cap_scope_argument cap
                \<and> arg_lookup (extractArgs raw) (rs_argument sc) = Some (JStr v)
                \<and> v \<in> set (rs_exact_values sc)))"
      using g(2) d(2) by (auto simp: grant_matches_def delegation_as_grant_def in_window_def)
    with d(1) dec sg show ?thesis by blast
  qed
qed

definition owned_policy :: policy where
  "owned_policy =
     policy_zero\<lparr>pol_capability_ownership := Some
       \<lparr>co_endpoints = [\<lparr>oe_server = ''fs'', oe_owner = ''bob'',
          oe_capabilities = [\<lparr>cd_tool = ''read'', cd_effect_class = ''READ'', cd_scope_argument = ''path''\<rparr>]\<rparr>],
        co_delegations = [\<lparr>dg_id = ''g1'', dg_owner = ''bob'', dg_delegate = ''alice'', dg_server = ''fs'',
          dg_tool = ''read'', dg_effect_class = ''READ'',
          dg_resource_scope = Some \<lparr>rs_argument = ''path'', rs_exact_values = [''/a'']\<rparr>,
          dg_issued_at = ''1'', dg_expires_at = ''123456789''\<rparr>]\<rparr>\<rparr>"

definition owned_args :: "string \<Rightarrow> raw_json" where
  "owned_args v = RawJson (JObj [(''path'', JStr v)])"

theorem ownership_gate_sound_witness:
  "\<exists>oc. pol_capability_ownership owned_policy = Some oc
     \<and> (\<exists>cap\<in>set (policy_capabilities oc). capKey ''fs'' ''read'' = capKey (cap_server cap) (cap_tool cap))
     \<and> snd (checkCapabilityOwnership example_env example_crypto True ''alice'' ''fs'' ''read''
              (owned_args ''/b'') [] (Some owned_policy) 5) \<noteq> None"
proof -
  obtain oc where oc: "pol_capability_ownership owned_policy = Some oc"
    "''fs'' \<in> oe_server ` set (co_endpoints oc)"
    by (simp add: owned_policy_def)
  have "snd (checkCapabilityOwnership example_env example_crypto True ''alice'' ''fs'' ''read''
      (owned_args ''/a'') [] (Some owned_policy) 5) = None" by code_simp
  from ownership_gate_sound [OF oc(1) this oc(2)]
  have "\<exists>cap\<in>set (policy_capabilities oc). capKey ''fs'' ''read'' = capKey (cap_server cap) (cap_tool cap)"
    by blast
  moreover have "snd (checkCapabilityOwnership example_env example_crypto True ''alice'' ''fs'' ''read''
      (owned_args ''/b'') [] (Some owned_policy) 5) \<noteq> None" by code_simp
  ultimately show ?thesis using oc(1) by blast
qed

end
