(* ===== verification/Policy_Loader.thy ===== *)
theory Policy_Loader
  imports Policy_Engine Ownership
begin

text \<open>
  Policy loading (\<^verbatim>\<open>src/internal/policy/loader.go\<close>, \<^verbatim>\<open>validateLineage\<close> of
  \<^verbatim>\<open>src/internal/policy/validator.go\<close> and \<^verbatim>\<open>Validate\<close> of
  \<^verbatim>\<open>src/internal/policy/capability_ownership.go\<close>): the default policy, the validation of a parsed
  document and the defaults. YAML decoding is not modelled; every error return of the code is a
  constructor of policy_error with the data of its message.
\<close>

datatype ownership_error =
    EndpointServerRequired nat
  | EndpointOwnerRequired string
  | DuplicateEndpoint string
  | UnknownServer string
  | CapabilityToolRequired string
  | CapabilityEffectRequired string string
  | DuplicateCapabilityTool string string
  | LacksDeclaration string string
  | GrantIdRequired nat
  | DuplicateGrantId string
  | GrantFieldRequired string string
  | GrantUnknownEndpoint string string
  | GrantUndeclaredTool string string string
  | GrantNotOwner string string string
  | GrantEffectDisagrees string string string
  | GrantScopeUnexpected string
  | GrantScopeMissing string string
  | GrantScopeDisagrees string string string
  | GrantExactValuesRequired string
  | GrantMalformedIssued string
  | GrantMalformedExpires string
  | GrantWindowEmpty string

datatype policy_error =
    VersionRequired
  | BadDefaultAction string
  | ServerNameRequired nat
  | DuplicateServer string
  | BadAttestationKind string string
  | BadAttestationDigest string
  | NegativePosition string int
  | DuplicatePosition string int
  | ToolNameRequired string nat
  | DuplicateTool string string
  | BadRiskLevel string string string
  | ChainNameRequired nat
  | ChainSourceRequired string
  | ChainSinkRequired string
  | TaintNameRequired nat
  | TaintSourceRequired string
  | EgressNameRequired nat
  | EgressTaintRequired string
  | EgressSinkRequired string
  | EgressBadAction string string
  | OwnershipError ownership_error
  | AuthorityKeyRequired
  | BadAuthorityKeyId string
  | BadAuthorityKey string
  | TrajectoriesNeedIdentity
  | RequireNeedsIdentity
  | BadIdentityVersion
  | LineageError lineage_error

section \<open>Servers\<close>

definition lower_hex :: "char \<Rightarrow> bool" where
  "lower_hex c \<longleftrightarrow> is_digit_ascii c \<or> (97 \<le> byte c \<and> byte c \<le> 102)"

definition serverAttestationDigestRe :: "string \<Rightarrow> bool" where
  "serverAttestationDigestRe s \<longleftrightarrow>
     starts_with ''sha256:'' s \<and> length s = 71 \<and> list_all lower_hex (drop 7 s)"

fun check_positions :: "string \<Rightarrow> int list \<Rightarrow> int list \<Rightarrow> policy_error + unit" where
  "check_positions srv seen [] = Inr ()"
| "check_positions srv seen (pos # rest) =
     (if pos < 0 then Inl (NegativePosition srv pos)
      else if List.member seen pos then Inl (DuplicatePosition srv pos)
      else check_positions srv (pos # seen) rest)"

definition check_attestation :: "server \<Rightarrow> policy_error + unit" where
  "check_attestation srv =
     (case srv_attestation srv of
        None \<Rightarrow> Inr ()
      | Some a \<Rightarrow>
          if att_kind a \<noteq> ''stdio_invocation_sha256_v1'' then Inl (BadAttestationKind (srv_name srv) (att_kind a))
          else if \<not> serverAttestationDigestRe (att_digest a) then Inl (BadAttestationDigest (srv_name srv))
          else check_positions (srv_name srv) [] (att_entry_arg_positions a))"

fun check_tools :: "string \<Rightarrow> nat \<Rightarrow> string list \<Rightarrow> tool_rule list \<Rightarrow> policy_error + unit" where
  "check_tools srv j seen [] = Inr ()"
| "check_tools srv j seen (tool # rest) =
     (if tool_name tool = [] then Inl (ToolNameRequired srv j)
      else if List.member seen (tool_name tool) then Inl (DuplicateTool srv (tool_name tool))
      else if tool_risk tool \<noteq> []
              \<and> \<not> List.member [RiskCritical, RiskHigh, RiskMedium, RiskLow, RiskUnknown] (tool_risk tool)
      then Inl (BadRiskLevel srv (tool_name tool) (tool_risk tool))
      else check_tools srv (Suc j) (tool_name tool # seen) rest)"

fun check_servers :: "nat \<Rightarrow> string list \<Rightarrow> server list \<Rightarrow> policy_error + unit" where
  "check_servers i seen [] = Inr ()"
| "check_servers i seen (srv # rest) =
     (if srv_name srv = [] then Inl (ServerNameRequired i)
      else if List.member seen (srv_name srv) then Inl (DuplicateServer (srv_name srv))
      else case check_attestation srv of
             Inl e \<Rightarrow> Inl e
           | Inr _ \<Rightarrow>
               (case check_tools (srv_name srv) 0 [] (srv_tools srv) of
                  Inl e \<Rightarrow> Inl e
                | Inr _ \<Rightarrow> check_servers (Suc i) (srv_name srv # seen) rest))"

section \<open>Chains, taints and egress controls\<close>

fun check_chains :: "nat \<Rightarrow> chain_rule list \<Rightarrow> policy_error + unit" where
  "check_chains i [] = Inr ()"
| "check_chains i (c # cs) =
     (if chain_name c = [] then Inl (ChainNameRequired i)
      else if chain_sources c = [] then Inl (ChainSourceRequired (chain_name c))
      else if chain_sinks c = [] then Inl (ChainSinkRequired (chain_name c))
      else check_chains (Suc i) cs)"

fun check_taints :: "nat \<Rightarrow> taint_rule list \<Rightarrow> policy_error + unit" where
  "check_taints i [] = Inr ()"
| "check_taints i (t # ts) =
     (if tn_name t = [] then Inl (TaintNameRequired i)
      else if tn_source_tools t = [] then Inl (TaintSourceRequired (tn_name t))
      else check_taints (Suc i) ts)"

fun check_egress :: "nat \<Rightarrow> egress_control_rule list \<Rightarrow> policy_error + unit" where
  "check_egress i [] = Inr ()"
| "check_egress i (c # cs) =
     (if eg_name c = [] then Inl (EgressNameRequired i)
      else if eg_when_tainted c = [] then Inl (EgressTaintRequired (eg_name c))
      else if eg_sink_tools c = [] then Inl (EgressSinkRequired (eg_name c))
      else if eg_action c \<noteq> ActionDeny \<and> eg_action c \<noteq> ActionRequireApproval
      then Inl (EgressBadAction (eg_name c) (eg_action c))
      else check_egress (Suc i) cs)"

section \<open>Ownership bindings\<close>

type_synonym decl_table = "string \<rightharpoonup> (string \<rightharpoonup> capability_decl)"

fun check_declarations ::
    "string \<Rightarrow> (string \<rightharpoonup> capability_decl) \<Rightarrow> capability_decl list
       \<Rightarrow> ownership_error + (string \<rightharpoonup> capability_decl)" where
  "check_declarations srv m [] = Inr m"
| "check_declarations srv m (cap # caps) =
     (if cd_tool cap = [] then Inl (CapabilityToolRequired srv)
      else if cd_effect_class cap = [] then Inl (CapabilityEffectRequired srv (cd_tool cap))
      else if m (cd_tool cap) \<noteq> None then Inl (DuplicateCapabilityTool srv (cd_tool cap))
      else check_declarations srv (m(cd_tool cap \<mapsto> cap)) caps)"

fun check_endpoints ::
    "policy \<Rightarrow> nat \<Rightarrow> decl_table \<Rightarrow> owned_endpoint list \<Rightarrow> ownership_error + decl_table" where
  "check_endpoints p i decls [] = Inr decls"
| "check_endpoints p i decls (ep # eps) =
     (if oe_server ep = [] then Inl (EndpointServerRequired i)
      else if oe_owner ep = [] then Inl (EndpointOwnerRequired (oe_server ep))
      else if decls (oe_server ep) \<noteq> None then Inl (DuplicateEndpoint (oe_server ep))
      else case find (\<lambda>s. srv_name s = oe_server ep) (pol_servers p) of
             None \<Rightarrow> Inl (UnknownServer (oe_server ep))
           | Some srv \<Rightarrow>
               (case check_declarations (oe_server ep) Map.empty (oe_capabilities ep) of
                  Inl e \<Rightarrow> Inl e
                | Inr m \<Rightarrow>
                    (case find (\<lambda>t. tool_allowed t \<and> m (tool_name t) = None) (srv_tools srv) of
                       Some t \<Rightarrow> Inl (LacksDeclaration (oe_server ep) (tool_name t))
                     | None \<Rightarrow> check_endpoints p (Suc i) (decls(oe_server ep \<mapsto> m)) eps)))"

definition check_grant_scope :: "capability_decl \<Rightarrow> delegation_grant \<Rightarrow> ownership_error + unit" where
  "check_grant_scope decl g =
     (if cd_scope_argument decl = [] then
        (case dg_resource_scope g of None \<Rightarrow> Inr () | Some _ \<Rightarrow> Inl (GrantScopeUnexpected (dg_id g)))
      else case dg_resource_scope g of
             None \<Rightarrow> Inl (GrantScopeMissing (dg_id g) (cd_scope_argument decl))
           | Some sc \<Rightarrow>
               if rs_argument sc \<noteq> cd_scope_argument decl
               then Inl (GrantScopeDisagrees (dg_id g) (rs_argument sc) (cd_scope_argument decl))
               else if rs_exact_values sc = [] then Inl (GrantExactValuesRequired (dg_id g))
               else Inr ())"

definition check_grant_window :: "go_env \<Rightarrow> delegation_grant \<Rightarrow> ownership_error + unit" where
  "check_grant_window E g =
     (case parse_rfc3339 E (dg_issued_at g) of
        None \<Rightarrow> Inl (GrantMalformedIssued (dg_id g))
      | Some issued \<Rightarrow>
          (case parse_rfc3339 E (dg_expires_at g) of
             None \<Rightarrow> Inl (GrantMalformedExpires (dg_id g))
           | Some expires \<Rightarrow> if \<not> issued < expires then Inl (GrantWindowEmpty (dg_id g)) else Inr ()))"

text \<open>The owner of an endpoint, read by the loop that lets a later endpoint win.\<close>

definition endpoint_owner :: "owned_endpoint list \<Rightarrow> string \<Rightarrow> string" where
  "endpoint_owner eps srv = fold (\<lambda>ep own. if oe_server ep = srv then oe_owner ep else own) eps []"

definition check_delegation ::
    "go_env \<Rightarrow> owned_endpoint list \<Rightarrow> decl_table \<Rightarrow> delegation_grant \<Rightarrow> ownership_error + unit" where
  "check_delegation E eps decls g =
     (case find (\<lambda>(name, v). v = []) [(''owner'', dg_owner g), (''delegate'', dg_delegate g),
             (''server'', dg_server g), (''tool'', dg_tool g), (''effect_class'', dg_effect_class g)] of
        Some (name, v) \<Rightarrow> Inl (GrantFieldRequired (dg_id g) name)
      | None \<Rightarrow>
      (case decls (dg_server g) of
         None \<Rightarrow> Inl (GrantUnknownEndpoint (dg_id g) (dg_server g))
       | Some epTools \<Rightarrow>
       (case epTools (dg_tool g) of
          None \<Rightarrow> Inl (GrantUndeclaredTool (dg_id g) (dg_tool g) (dg_server g))
        | Some decl \<Rightarrow>
            if dg_owner g \<noteq> endpoint_owner eps (dg_server g)
            then Inl (GrantNotOwner (dg_id g) (dg_owner g) (endpoint_owner eps (dg_server g)))
            else if dg_effect_class g \<noteq> cd_effect_class decl
            then Inl (GrantEffectDisagrees (dg_id g) (dg_effect_class g) (cd_effect_class decl))
            else case check_grant_scope decl g of
                   Inl e \<Rightarrow> Inl e
                 | Inr _ \<Rightarrow> check_grant_window E g)))"

fun check_delegations ::
    "go_env \<Rightarrow> owned_endpoint list \<Rightarrow> decl_table \<Rightarrow> nat \<Rightarrow> string list \<Rightarrow> delegation_grant list
       \<Rightarrow> ownership_error + unit" where
  "check_delegations E eps decls i seen [] = Inr ()"
| "check_delegations E eps decls i seen (g # gs) =
     (if dg_id g = [] then Inl (GrantIdRequired i)
      else if List.member seen (dg_id g) then Inl (DuplicateGrantId (dg_id g))
      else case check_delegation E eps decls g of
             Inl e \<Rightarrow> Inl e
           | Inr _ \<Rightarrow> check_delegations E eps decls (Suc i) (dg_id g # seen) gs)"

definition ValidateOwnership ::
    "go_env \<Rightarrow> policy \<Rightarrow> capability_ownership option \<Rightarrow> ownership_error + unit" where
  "ValidateOwnership E p c =
     (case c of
        None \<Rightarrow> Inr ()
      | Some oc \<Rightarrow>
          (case check_endpoints p 0 Map.empty (co_endpoints oc) of
             Inl e \<Rightarrow> Inl e
           | Inr decls \<Rightarrow> check_delegations E (co_endpoints oc) decls 0 [] (co_delegations oc)))"

section \<open>Keys and lineage\<close>

definition key_id_char :: "char \<Rightarrow> bool" where
  "key_id_char c \<longleftrightarrow> ascii_letter c \<or> is_digit_ascii c"

definition instructionAuthorityKeyIDRe :: "string \<Rightarrow> bool" where
  "instructionAuthorityKeyIDRe s =
     (case s of
        [] \<Rightarrow> False
      | c # rest \<Rightarrow> key_id_char c \<and> length rest \<le> 63
          \<and> list_all (\<lambda>d. key_id_char d \<or> d \<in> {CHR ''.'', CHR ''_'', CHR ''-''}) rest)"

text \<open>The value of a base64url digit, and the strings that encode 32 bytes canonically: 43 digits,
  the last of which carries only four data bits.\<close>

definition base64url_value :: "char \<Rightarrow> nat option" where
  "base64url_value c =
     (if is_upper_ascii c then Some (byte c - 65)
      else if is_lower_ascii c then Some (byte c - 71)
      else if is_digit_ascii c then Some (byte c + 4)
      else if c = CHR ''-'' then Some 62
      else if c = CHR ''_'' then Some 63
      else None)"

definition canonical_key32 :: "string \<Rightarrow> bool" where
  "canonical_key32 enc \<longleftrightarrow>
     length enc = 43 \<and> list_all (\<lambda>c. base64url_value c \<noteq> None) enc
     \<and> (case base64url_value (last enc) of Some v \<Rightarrow> v mod 4 = 0 | None \<Rightarrow> False)"

fun check_keys :: "(string \<times> string) list \<Rightarrow> policy_error + unit" where
  "check_keys [] = Inr ()"
| "check_keys ((kid, enc) # ks) =
     (if \<not> instructionAuthorityKeyIDRe kid then Inl (BadAuthorityKeyId kid)
      else if \<not> canonical_key32 enc then Inl (BadAuthorityKey kid)
      else check_keys ks)"

definition validateInstructionAuthorityKeys :: "policy \<Rightarrow> policy_error + unit" where
  "validateInstructionAuthorityKeys p =
     (let s = pol_settings p; keys = set_instruction_authority_keys s in
      if set_instruction_authority_continuity s \<and> keys = [] then Inl AuthorityKeyRequired
      else check_keys keys)"

definition validateLineage :: "go_env \<Rightarrow> policy \<Rightarrow> policy_error + unit" where
  "validateLineage E p =
     (let hasRequire = list_ex (\<lambda>srv. list_ex (\<lambda>tool. hasLineageRequire (tool_rules tool)) (srv_tools srv))
                         (pol_servers p);
          absent = (if pol_trajectories p \<noteq> [] then Inl TrajectoriesNeedIdentity
                    else if hasRequire then Inl RequireNeedsIdentity else Inr ())
      in case pol_identity p of
           None \<Rightarrow> absent
         | Some idn \<Rightarrow>
             if is_version idn = 0 then absent
             else if is_version idn \<noteq> 1 then Inl BadIdentityVersion
             else case NewRegistry E (is_agents idn) (is_grants idn) (pol_trajectories p) of
                    Inl e \<Rightarrow> Inl (LineageError e)
                  | Inr _ \<Rightarrow> Inr ())"

section \<open>The whole document\<close>

definition Validate :: "go_env \<Rightarrow> policy \<Rightarrow> policy_error + unit" where
  "Validate E p =
     (if pol_version p = [] then Inl VersionRequired
      else if pol_default_action p \<noteq> ActionAllow \<and> pol_default_action p \<noteq> ActionDeny
      then Inl (BadDefaultAction (pol_default_action p))
      else case check_servers 0 [] (pol_servers p) of
             Inl e \<Rightarrow> Inl e
           | Inr _ \<Rightarrow>
           (case check_chains 0 (pol_tool_chains p) of
              Inl e \<Rightarrow> Inl e
            | Inr _ \<Rightarrow>
            (case check_taints 0 (pol_taints p) of
               Inl e \<Rightarrow> Inl e
             | Inr _ \<Rightarrow>
             (case check_egress 0 (pol_egress_controls p) of
                Inl e \<Rightarrow> Inl e
              | Inr _ \<Rightarrow>
              (case ValidateOwnership E p (pol_capability_ownership p) of
                 Inl e \<Rightarrow> Inl (OwnershipError e)
               | Inr _ \<Rightarrow>
               (case validateInstructionAuthorityKeys p of
                  Inl e \<Rightarrow> Inl e
                | Inr _ \<Rightarrow> validateLineage E p))))))"

definition SetDefaults :: "policy \<Rightarrow> policy" where
  "SetDefaults p =
     (let s = pol_settings p in
      p\<lparr>pol_default_action := (if pol_default_action p = [] then ActionDeny else pol_default_action p),
        pol_settings := s
          \<lparr>set_max_argument_size_bytes := (if set_max_argument_size_bytes s = 0 then 1048576 else set_max_argument_size_bytes s),
           set_max_output_size_bytes := (if set_max_output_size_bytes s = 0 then 10485760 else set_max_output_size_bytes s),
           set_session_max_tools := (if set_session_max_tools s = 0 then 100 else set_session_max_tools s),
           set_session_timeout_secs := (if set_session_timeout_secs s = 0 then 3600 else set_session_timeout_secs s),
           set_approval_timeout_secs := (if set_approval_timeout_secs s = 0 then 300 else set_approval_timeout_secs s),
           set_chain_window_size := (if set_chain_window_size s = 0 then 10 else set_chain_window_size s),
           set_log_level := (if set_log_level s = [] then ''info'' else set_log_level s)\<rparr>\<rparr>)"

section \<open>What validation establishes\<close>

lemma check_tools_ok:
  assumes "check_tools srv j seen ts = Inr ()"
  shows "distinct (map tool_name ts) \<and> set seen \<inter> tool_name ` set ts = {}
     \<and> list_all (\<lambda>t. tool_name t \<noteq> []) ts"
  using assms by (induction srv j seen ts rule: check_tools.induct) (auto split: if_splits)

lemma check_servers_ok:
  assumes "check_servers i seen ss = Inr ()"
  shows "distinct (map srv_name ss) \<and> set seen \<inter> srv_name ` set ss = {}
     \<and> list_all (\<lambda>s. srv_name s \<noteq> [] \<and> distinct (map tool_name (srv_tools s))
          \<and> list_all (\<lambda>t. tool_name t \<noteq> []) (srv_tools s)) ss"
  using assms
proof (induction ss arbitrary: i seen)
  case (Cons s ss)
  then have "check_tools (srv_name s) 0 [] (srv_tools s) = Inr ()"
    and rest: "check_servers (Suc i) (srv_name s # seen) ss = Inr ()"
    and "srv_name s \<noteq> []" "srv_name s \<notin> set seen"
    by (auto split: if_splits sum.splits)
  with check_tools_ok [OF this(1)] Cons.IH [OF rest] show ?case by auto
qed simp

lemma check_egress_ok:
  "check_egress i cs = Inr () \<Longrightarrow>
     list_all (\<lambda>c. eg_when_tainted c \<noteq> [] \<and> (eg_action c = ActionDeny \<or> eg_action c = ActionRequireApproval)) cs"
  by (induction i cs rule: check_egress.induct) (auto split: if_splits)

lemma Validate_parts:
  assumes "Validate E p = Inr ()"
  shows "pol_default_action p = ActionAllow \<or> pol_default_action p = ActionDeny"
    and "check_servers 0 [] (pol_servers p) = Inr ()"
    and "check_chains 0 (pol_tool_chains p) = Inr ()"
    and "check_egress 0 (pol_egress_controls p) = Inr ()"
    and "ValidateOwnership E p (pol_capability_ownership p) = Inr ()"
    and "validateLineage E p = Inr ()"
  using assms by (auto simp: Validate_def split: if_splits sum.splits)

text \<open>Declarations of an endpoint, and the table of all endpoints.\<close>

lemma check_declarations_ok:
  assumes "check_declarations srv m caps = Inr m'"
  shows "distinct (map cd_tool caps) \<and> (\<forall>c\<in>set caps. m (cd_tool c) = None)
     \<and> (\<forall>t d. m' t = Some d \<longleftrightarrow> m t = Some d \<or> (d \<in> set caps \<and> cd_tool d = t))"
  using assms
proof (induction caps arbitrary: m)
  case (Cons c caps)
  then have "check_declarations srv (m(cd_tool c \<mapsto> c)) caps = Inr m'" and new: "m (cd_tool c) = None"
    by (auto split: if_splits)
  note IH = Cons.IH [OF this(1)]
  have "\<forall>x\<in>set caps. cd_tool x \<noteq> cd_tool c \<and> m (cd_tool x) = None"
    using IH by (auto split: if_splits)
  then show ?case using IH new by auto
qed simp

lemma check_endpoints_ok:
  assumes "check_endpoints p i decls eps = Inr decls'"
  shows "distinct (map oe_server eps) \<and> (\<forall>ep\<in>set eps. decls (oe_server ep) = None)
     \<and> (\<forall>ep\<in>set eps. distinct (map cd_tool (oe_capabilities ep))
          \<and> (\<exists>srv. find (\<lambda>s. srv_name s = oe_server ep) (pol_servers p) = Some srv
               \<and> (\<forall>t\<in>set (srv_tools srv). tool_allowed t \<longrightarrow> tool_name t \<in> cd_tool ` set (oe_capabilities ep))))"
  using assms
proof (induction eps arbitrary: i decls)
  case (Cons ep eps)
  then obtain srv m where srv: "find (\<lambda>s. srv_name s = oe_server ep) (pol_servers p) = Some srv"
    and m: "check_declarations (oe_server ep) Map.empty (oe_capabilities ep) = Inr m"
    and all: "find (\<lambda>t. tool_allowed t \<and> m (tool_name t) = None) (srv_tools srv) = None"
    and rest: "check_endpoints p (Suc i) (decls(oe_server ep \<mapsto> m)) eps = Inr decls'"
    and new: "decls (oe_server ep) = None"
    by (auto split: if_splits sum.splits option.splits)
  note D = check_declarations_ok [OF m]
  have "tool_name t \<in> cd_tool ` set (oe_capabilities ep)"
    if "t \<in> set (srv_tools srv)" "tool_allowed t" for t
  proof -
    have "m (tool_name t) \<noteq> None" using all that by (auto simp: find_None_iff_all)
    then obtain d where "m (tool_name t) = Some d" by blast
    with D have "d \<in> set (oe_capabilities ep)" "tool_name t = cd_tool d" by auto
    then show ?thesis by (rule rev_image_eqI)
  qed
  with srv D have "distinct (map cd_tool (oe_capabilities ep))
      \<and> (\<exists>srv. find (\<lambda>s. srv_name s = oe_server ep) (pol_servers p) = Some srv
           \<and> (\<forall>t\<in>set (srv_tools srv). tool_allowed t \<longrightarrow> tool_name t \<in> cd_tool ` set (oe_capabilities ep)))"
    by blast
  moreover note IH = Cons.IH [OF rest]
  moreover have "\<forall>x\<in>set eps. oe_server x \<noteq> oe_server ep \<and> decls (oe_server x) = None"
    using IH by (auto split: if_splits)
  ultimately show ?case using new by auto
qed simp

lemma check_delegations_window:
  assumes "check_delegations E eps decls i seen gs = Inr ()" and "g \<in> set gs"
  shows "check_grant_window E g = Inr ()"
  using assms
proof (induction gs arbitrary: i seen)
  case (Cons h gs)
  then have h: "check_delegation E eps decls h = Inr ()"
    and rest: "check_delegations E eps decls (Suc i) (dg_id h # seen) gs = Inr ()"
    by (auto split: if_splits sum.splits)
  have "check_grant_window E h = Inr ()"
    using h by (auto simp: check_delegation_def split: option.splits if_splits sum.splits)
  with Cons.IH [OF rest] Cons.prems(2) show ?case by auto
qed simp

section \<open>A validated policy always yields an ownership registry\<close>

definition nul_free :: "string \<Rightarrow> bool" where
  "nul_free s \<longleftrightarrow> CHR 0x00 \<notin> set s"

lemma capKey_inj:
  "nul_free s \<Longrightarrow> nul_free s' \<Longrightarrow> capKey s t = capKey s' t' \<longleftrightarrow> s = s' \<and> t = t'"
proof (induction s arbitrary: s')
  case Nil
  then show ?case by (cases s') (auto simp: capKey_def nul_free_def)
next
  case (Cons c s)
  then show ?case by (cases s') (auto simp: capKey_def nul_free_def)
qed

abbreviation cap_key :: "capability \<Rightarrow> string" where
  "cap_key c \<equiv> capKey (cap_server c) (cap_tool c)"

definition owners_agree :: "own_registry \<Rightarrow> (string \<Rightarrow> string) \<Rightarrow> bool" where
  "owners_agree r own \<longleftrightarrow> (\<forall>s. or_owners r s = None \<or> or_owners r s = Some (own s))"

lemma owners_agreeD: "owners_agree r own \<Longrightarrow> or_owners r s = None \<or> or_owners r s = Some (own s)"
  by (simp add: owners_agree_def)

lemma in_not_in_neq: "x \<in> A \<Longrightarrow> y \<notin> A \<Longrightarrow> x \<noteq> y"
  by blast

lemma index_capabilities_total:
  assumes "distinct (map cap_key cs)" and "\<forall>c\<in>set cs. or_capabilities r (cap_key c) = None"
    and "\<forall>c\<in>set cs. cap_owner c = own (cap_server c)"
    and "owners_agree r own"
  shows "\<exists>r'. index_capabilities r cs = Inr r' \<and> owners_agree r' own"
  using assms
proof (induction cs arbitrary: r)
  case (Cons c cs)
  have step: "index_capabilities r (c # cs) = index_capabilities (add_capability c r) cs"
    using Cons.prems(2,3) owners_agreeD [OF Cons.prems(4), of "cap_server c"]
    by (auto simp: add_capability_def Let_def)
  have "or_capabilities (add_capability c r) (cap_key x) = None" if "x \<in> set cs" for x
  proof -
    have "cap_key x \<in> cap_key ` set cs" using that by (rule imageI)
    moreover have "cap_key c \<notin> cap_key ` set cs" using Cons.prems(1) by simp
    ultimately have "cap_key x \<noteq> cap_key c" by (rule in_not_in_neq)
    then show ?thesis using Cons.prems(2) that by (simp add: add_capability_def)
  qed
  moreover have "owners_agree (add_capability c r) own"
    using Cons.prems(3,4) by (simp add: add_capability_def owners_agree_def)
  ultimately show ?case using Cons.IH [of "add_capability c r"] Cons.prems(1,3) step by simp
qed simp

lemma register_owners_total:
  assumes "\<forall>ep\<in>set eps. oe_owner ep = own (oe_server ep)"
    and "owners_agree r own"
  shows "\<exists>r'. register_owners eps r = Inr r'"
  using assms
proof (induction eps arbitrary: r)
  case (Cons ep eps)
  let ?r = "r\<lparr>or_owners := (or_owners r)(oe_server ep \<mapsto> oe_owner ep)\<rparr>"
  have "RegisterOwner (oe_server ep) (oe_owner ep) r = Inr ?r"
    using Cons.prems(1) owners_agreeD [OF Cons.prems(2), of "oe_server ep"]
    by (auto simp: RegisterOwner_def)
  moreover have "owners_agree ?r own" using Cons.prems by (simp add: owners_agree_def)
  ultimately show ?case using Cons.IH [of ?r] Cons.prems(1) by simp
qed simp

lemma add_delegations_total:
  assumes "\<forall>g\<in>set gs. check_grant_window E g = Inr ()"
  shows "\<exists>r'. add_delegations E gs r = Inr r'"
  using assms
proof (induction gs arbitrary: r)
  case (Cons g gs)
  then have "check_grant_window E g = Inr ()" by simp
  then obtain i e where "parse_rfc3339 E (dg_issued_at g) = Some i" "parse_rfc3339 E (dg_expires_at g) = Some e"
    by (auto simp: check_grant_window_def split: option.splits)
  then show ?case using Cons by (simp add: Let_def split: prod.splits)
qed simp

definition endpoint_keys :: "owned_endpoint \<Rightarrow> string list" where
  "endpoint_keys ep = map (\<lambda>c. capKey (oe_server ep) (cd_tool c)) (oe_capabilities ep)"

lemma endpoint_keys_distinct:
  assumes "distinct (map oe_server eps)"
    and "\<forall>ep\<in>set eps. distinct (map cd_tool (oe_capabilities ep)) \<and> nul_free (oe_server ep)"
  shows "distinct (concat (map endpoint_keys eps))"
  using assms
proof (induction eps)
  case (Cons ep eps)
  have "distinct (endpoint_keys ep)"
    using Cons.prems by (simp add: endpoint_keys_def distinct_map inj_on_def capKey_inj)
  moreover have "set (endpoint_keys ep) \<inter> set (endpoint_keys e) = {}" if "e \<in> set eps" for e
  proof -
    have "oe_server e \<noteq> oe_server ep" "nul_free (oe_server e)" "nul_free (oe_server ep)"
      using Cons.prems that by (auto simp: rev_image_eqI)
    then show ?thesis by (auto simp: endpoint_keys_def capKey_inj)
  qed
  moreover have "distinct (concat (map endpoint_keys eps))" using Cons by simp
  ultimately show ?case by auto
qed simp

lemma policy_capabilities_keys:
  "map cap_key (policy_capabilities oc) = concat (map endpoint_keys (co_endpoints oc))"
  by (simp add: policy_capabilities_def endpoint_keys_def [abs_def] map_concat comp_def)

lemma validated_ownership_registry:
  assumes "ValidateOwnership E p (Some oc) = Inr ()"
    and "list_all (\<lambda>ep. nul_free (oe_server ep)) (co_endpoints oc)"
  shows "\<exists>r. ownershipRegistryFromPolicy E oc = Inr r"
proof -
  obtain decls where ends: "check_endpoints p 0 Map.empty (co_endpoints oc) = Inr decls"
    and dels: "check_delegations E (co_endpoints oc) decls 0 [] (co_delegations oc) = Inr ()"
    using assms(1) by (auto simp: ValidateOwnership_def split: sum.splits)
  note D = check_endpoints_ok [OF ends]
  define own where "own s = (case find (\<lambda>ep. oe_server ep = s) (co_endpoints oc) of
      Some ep \<Rightarrow> oe_owner ep | None \<Rightarrow> [])" for s
  have own: "oe_owner ep = own (oe_server ep)" if "ep \<in> set (co_endpoints oc)" for ep
    using find_distinct_key [of oe_server "co_endpoints oc" ep] D that by (simp add: own_def)
  let ?cs = "policy_capabilities oc"
  have "distinct (map cap_key ?cs)"
    unfolding policy_capabilities_keys using D assms(2)
    by (intro endpoint_keys_distinct) (auto simp: list_all_iff)
  moreover have "\<forall>c\<in>set ?cs. cap_owner c = own (cap_server c)"
    using own by (auto simp: policy_capabilities_def)
  ultimately obtain r1 where r1: "NewOwnRegistry ?cs = Inr r1"
    "owners_agree r1 own"
    using index_capabilities_total [of ?cs "\<lparr>or_capabilities = Map.empty, or_owners = Map.empty, or_grants = []\<rparr>" own]
    by (auto simp: NewOwnRegistry_def owners_agree_def)
  obtain r2 where "register_owners (co_endpoints oc) r1 = Inr r2"
    using register_owners_total [of "co_endpoints oc" own r1] own r1(2) by blast
  moreover obtain r3 where "add_delegations E (co_delegations oc) r2 = Inr r3"
    using add_delegations_total [of "co_delegations oc" E r2] check_delegations_window [OF dels] by blast
  ultimately show ?thesis using r1(1) by (simp add: ownershipRegistryFromPolicy_def)
qed

section \<open>Properties\<close>


definition small_policy :: policy where
  "small_policy = policy_zero\<lparr>pol_version := ''1.0'', pol_default_action := ActionDeny,
     pol_servers := [server_zero\<lparr>srv_name := ''fs'', srv_allowed := True,
        srv_tools := [tool_rule_zero\<lparr>tool_name := ''read'', tool_allowed := True\<rparr>]\<rparr>],
     pol_capability_ownership := pol_capability_ownership owned_policy\<rparr>"


text \<open>C38: After validation the ownership registry can always be built, so the gate's fail-closed
  branch for a construction error is unreachable, as long as no endpoint name holds a NUL byte
  (the byte that separates server and tool in the index).\<close>

theorem validated_ownership_registry_exists:
  assumes "Validate E p = Inr ()" and "pol_capability_ownership p = Some oc"
    and "list_all (\<lambda>ep. nul_free (oe_server ep)) (co_endpoints oc)"
  shows "\<exists>r. ownershipRegistryFromPolicy E oc = Inr r"
  using validated_ownership_registry Validate_parts(5) [OF assms(1)] assms(2,3) by simp

theorem validated_ownership_registry_exists_witness:
  "\<exists>r. ownershipRegistryFromPolicy example_env (the (pol_capability_ownership small_policy)) = Inr r"
proof (rule validated_ownership_registry_exists)
  show "Validate example_env small_policy = Inr ()" by code_simp
  show "pol_capability_ownership small_policy = Some (the (pol_capability_ownership small_policy))"
    by (simp add: small_policy_def owned_policy_def)
qed code_simp

end
