(* ===== verification/Session.thy ===== *)
theory Session
  imports Policy_Types
begin

text \<open>
  The proxy session (\<^verbatim>\<open>src/internal/proxy/session.go\<close>) and its delegation budget
  (\<^verbatim>\<open>src/internal/proxy/delegation.go\<close>). Every method runs under the session mutex, so each is one
  atomic step and concurrency is the interleaving of these steps. The taint map is a list of
  taints with distinct names (its order is the unspecified iteration order); the nonce map is a
  partial function.
\<close>

record tool_call_record =
  tcr_timestamp :: int
  tcr_server :: string
  tcr_tool :: string
  tcr_arguments :: "args option"
  tcr_result :: string

record session_taint =
  st_name :: string
  st_source_server :: string
  st_source_tool :: string
  st_source_value :: string
  st_policy_rule :: string
  st_reason :: string
  st_created_at :: "int option"

record session =
  ses_id :: string
  ses_client_id :: string
  ses_created_at :: int
  ses_tool_calls :: "tool_call_record list"
  ses_taints :: "session_taint list"
  ses_spawn_depth :: int
  ses_nonces :: "string \<rightharpoonup> int"

definition NewSession :: "string \<Rightarrow> string \<Rightarrow> int \<Rightarrow> session" where
  "NewSession i clientID now =
     \<lparr>ses_id = i, ses_client_id = clientID, ses_created_at = now, ses_tool_calls = [],
      ses_taints = [], ses_spawn_depth = 0, ses_nonces = Map.empty\<rparr>"

text \<open>Purge what has expired, then refuse a nonce that is still there.\<close>

definition purge_nonces :: "int \<Rightarrow> (string \<rightharpoonup> int) \<Rightarrow> (string \<rightharpoonup> int)" where
  "purge_nonces nowUnix m = (\<lambda>n. case m n of Some expiry \<Rightarrow> if expiry \<le> nowUnix then None else Some expiry | None \<Rightarrow> None)"

definition ConsumeInstructionAuthorityNonce ::
    "string \<Rightarrow> int \<Rightarrow> int \<Rightarrow> session \<Rightarrow> bool \<times> session" where
  "ConsumeInstructionAuthorityNonce nonce expiresAt nowUnix s =
     (let m = purge_nonces nowUnix (ses_nonces s) in
      case m nonce of
        Some _ \<Rightarrow> (False, s\<lparr>ses_nonces := m\<rparr>)
      | None \<Rightarrow> (True, s\<lparr>ses_nonces := m(nonce \<mapsto> expiresAt)\<rparr>))"

text \<open>text is the raw bytes of the argument, kept under \<^verbatim>\<open>_raw\<close> when they are not an object.\<close>

definition rawToMap :: "string \<Rightarrow> raw_json \<Rightarrow> args option" where
  "rawToMap txt raw =
     (case raw of
        RawEmpty \<Rightarrow> None
      | RawInvalid \<Rightarrow> Some [(''_raw'', JStr txt)]
      | RawJson v \<Rightarrow> (case v of JObj m \<Rightarrow> Some m | JNull \<Rightarrow> None | _ \<Rightarrow> Some [(''_raw'', JStr txt)]))"

definition RecordToolCall ::
    "int \<Rightarrow> string \<Rightarrow> string \<Rightarrow> string \<Rightarrow> raw_json \<Rightarrow> string \<Rightarrow> session \<Rightarrow> session" where
  "RecordToolCall now serverName toolName txt raw result s =
     s\<lparr>ses_tool_calls := ses_tool_calls s @
        [\<lparr>tcr_timestamp = now, tcr_server = serverName, tcr_tool = toolName,
          tcr_arguments = rawToMap txt raw, tcr_result = result\<rparr>]\<rparr>"

text \<open>The server's answer is noted on the last recorded call: at most 200 bytes of it.\<close>

definition result_preview :: "string list \<Rightarrow> string" where
  "result_preview contents =
     (let preview = (case find (\<lambda>t. t \<noteq> []) contents of None \<Rightarrow> [] | Some t \<Rightarrow> t)
      in if 200 < length preview then take 200 preview @ ''...'' else preview)"

definition logServerMessage :: "string list \<Rightarrow> session \<Rightarrow> session" where
  "logServerMessage contents s =
     (if ses_tool_calls s \<noteq> []
      then s\<lparr>ses_tool_calls := butlast (ses_tool_calls s)
                @ [(last (ses_tool_calls s))\<lparr>tcr_result := result_preview contents\<rparr>]\<rparr>
      else s)"

definition GetTaint :: "string \<Rightarrow> session \<Rightarrow> session_taint option" where
  "GetTaint name s = find (\<lambda>t. st_name t = name) (ses_taints s)"

definition HasTaint :: "string \<Rightarrow> session \<Rightarrow> bool" where
  "HasTaint name s = (GetTaint name s \<noteq> None)"

definition AddTaint :: "int \<Rightarrow> session_taint \<Rightarrow> session \<Rightarrow> bool \<times> session" where
  "AddTaint now taint s =
     (if st_name taint = [] then (False, s)
      else let t = (if st_created_at taint = None then taint\<lparr>st_created_at := Some now\<rparr> else taint) in
           if HasTaint (st_name t) s then (False, s)
           else (True, s\<lparr>ses_taints := ses_taints s @ [t]\<rparr>))"

definition TaintsSnapshot :: "session \<Rightarrow> session_taint list" where
  "TaintsSnapshot s = ses_taints s"

definition TaintNames :: "session \<Rightarrow> string list" where
  "TaintNames s = map st_name (ses_taints s)"

definition recent :: "int \<Rightarrow> 'a list \<Rightarrow> 'a list" where
  "recent n xs =
     (let k = (if n \<le> 0 \<or> int (length xs) < n then length xs else nat n) in drop (length xs - k) xs)"

definition RecentCalls :: "int \<Rightarrow> session \<Rightarrow> tool_call_record list" where
  "RecentCalls n s = recent n (ses_tool_calls s)"

definition ToolCallCount :: "session \<Rightarrow> nat" where
  "ToolCallCount s = length (ses_tool_calls s)"

definition RecentCallChain :: "int \<Rightarrow> session \<Rightarrow> string list" where
  "RecentCallChain window s =
     map (\<lambda>call. tcr_server call @ '':'' @ tcr_tool call) (recent window (ses_tool_calls s))"

section \<open>Delegation budget\<close>

definition DelegationDepth :: "session \<Rightarrow> int" where
  "DelegationDepth s = ses_spawn_depth s"

definition AddCheckDelegation :: "int \<Rightarrow> session \<Rightarrow> (int \<times> bool) \<times> session" where
  "AddCheckDelegation mx s =
     (let s1 = s\<lparr>ses_spawn_depth := ses_spawn_depth s + 1\<rparr> in
      if 0 < mx \<and> mx < ses_spawn_depth s1
      then (let s2 = s1\<lparr>ses_spawn_depth := ses_spawn_depth s1 - 1\<rparr> in ((ses_spawn_depth s2, True), s2))
      else ((ses_spawn_depth s1, False), s1))"

definition TryReserveDelegation :: "int \<Rightarrow> session \<Rightarrow> (int \<times> bool) \<times> session" where
  "TryReserveDelegation mx s =
     (if mx < ses_spawn_depth s + 1 then ((ses_spawn_depth s, False), s)
      else let s1 = s\<lparr>ses_spawn_depth := ses_spawn_depth s + 1\<rparr> in ((ses_spawn_depth s1, True), s1))"

definition ReleaseDelegation :: "session \<Rightarrow> session" where
  "ReleaseDelegation s =
     (if 0 < ses_spawn_depth s then s\<lparr>ses_spawn_depth := ses_spawn_depth s - 1\<rparr> else s)"

text \<open>The first tool of that name in any server of that name.\<close>

definition toolDelegates :: "policy option \<Rightarrow> string \<Rightarrow> string \<Rightarrow> bool" where
  "toolDelegates pol serverName toolName =
     (case pol of
        None \<Rightarrow> False
      | Some p \<Rightarrow>
          (case find (\<lambda>t. tool_name t = toolName)
                  (concat (map srv_tools (filter (\<lambda>srv. srv_name srv = serverName) (pol_servers p)))) of
             None \<Rightarrow> False | Some t \<Rightarrow> tool_delegates t))"

record ceilingDenyInfo =
  cdi_reason :: string
  cdi_depth :: int
  cdi_max :: int

definition ceiling_reason :: "int \<Rightarrow> int \<Rightarrow> string" where
  "ceiling_reason depth mx =
     ''delegation ceiling exceeded (depth '' @ itoa depth @ '' at max '' @ itoa mx @
     ''): argument class DELEGATION, effect class DELEGATION, authority transition PARENT->CHILD''"

definition checkDelegationCeiling ::
    "policy option \<Rightarrow> session option \<Rightarrow> string \<Rightarrow> string \<Rightarrow> ceilingDenyInfo option" where
  "checkDelegationCeiling pol ses serverName toolName =
     (case (pol, ses) of
        (Some p, Some s) \<Rightarrow>
          let mx = set_max_spawn_depth (pol_settings p) in
          if mx \<le> 0 then None
          else if \<not> toolDelegates pol serverName toolName then None
          else if mx < DelegationDepth s + 1
          then Some \<lparr>cdi_reason = ceiling_reason (DelegationDepth s) mx,
                     cdi_depth = DelegationDepth s, cdi_max = mx\<rparr>
          else None
      | _ \<Rightarrow> None)"

definition tryReserveDelegation ::
    "policy option \<Rightarrow> session \<Rightarrow> string \<Rightarrow> string \<Rightarrow> (ceilingDenyInfo option \<times> bool) \<times> session" where
  "tryReserveDelegation pol s serverName toolName =
     (case pol of
        None \<Rightarrow> ((None, False), s)
      | Some p \<Rightarrow>
          if \<not> toolDelegates pol serverName toolName then ((None, False), s)
          else
            let mx = set_max_spawn_depth (pol_settings p)
            in case AddCheckDelegation mx s of
                 ((depth, True), s') \<Rightarrow>
                   ((Some \<lparr>cdi_reason = ceiling_reason depth mx, cdi_depth = depth, cdi_max = mx\<rparr>, False), s')
               | ((depth, False), s') \<Rightarrow> ((None, True), s'))"

section \<open>A reservable budget\<close>

text \<open>A client that reserves before it relays and gives the unit back when it does not relay. The
  flag of a reservation is true when a unit was taken.\<close>

datatype budget_op = Reserve | GiveBack

fun budget_run ::
    "(int \<Rightarrow> 's \<Rightarrow> bool \<times> 's) \<Rightarrow> ('s \<Rightarrow> 's) \<Rightarrow> int \<Rightarrow> budget_op list \<Rightarrow> 's \<Rightarrow> nat \<Rightarrow> 's \<times> nat" where
  "budget_run res rel mx [] s held = (s, held)"
| "budget_run res rel mx (Reserve # ops) s held =
     (case res mx s of
        (True, s') \<Rightarrow> budget_run res rel mx ops s' (Suc held)
      | (False, s') \<Rightarrow> budget_run res rel mx ops s' held)"
| "budget_run res rel mx (GiveBack # ops) s held =
     (if held = 0 then budget_run res rel mx ops s held
      else budget_run res rel mx ops (rel s) (held - 1))"

locale budget =
  fixes reserve :: "int \<Rightarrow> 's \<Rightarrow> bool \<times> 's"
    and release :: "'s \<Rightarrow> 's"
    and depth :: "'s \<Rightarrow> int"
  assumes taken: "reserve mx s = (True, s') \<Longrightarrow> depth s' = depth s + 1 \<and> (0 < mx \<longrightarrow> depth s' \<le> mx)"
    and refused: "reserve mx s = (False, s') \<Longrightarrow> depth s' = depth s \<and> mx < depth s + 1"
    and released: "0 < depth s \<Longrightarrow> depth (release s) = depth s - 1"
begin

lemma run_balanced:
  assumes "0 < mx" and "depth s = int held" and "int held \<le> mx"
    and "budget_run reserve release mx ops s held = (s', held')"
  shows "depth s' = int held' \<and> int held' \<le> mx"
  using assms(2-4)
proof (induction ops arbitrary: s held)
  case Nil
  then show ?case by simp
next
  case (Cons op ops)
  show ?case
  proof (cases op)
    case Reserve
    obtain ok s1 where r: "reserve mx s = (ok, s1)" by fastforce
    with Cons.prems Cons.IH [of s1 "Suc held"] Cons.IH [of s1 held] Reserve taken [of mx s s1]
      refused [of mx s s1] assms(1)
    show ?thesis by (cases ok) auto
  next
    case GiveBack
    with Cons.prems Cons.IH [of s held] Cons.IH [of "release s" "held - 1"] released [of s]
    show ?thesis by (auto split: if_splits simp: of_nat_diff)
  qed
qed

lemma refused_only_at_limit:
  assumes "reserve mx s = (False, s')" and "depth s \<le> mx"
  shows "depth s = mx"
  using refused [OF assms(1)] assms(2) by simp

end

definition reserve_check :: "int \<Rightarrow> session \<Rightarrow> bool \<times> session" where
  "reserve_check mx s = (\<not> snd (fst (AddCheckDelegation mx s)), snd (AddCheckDelegation mx s))"

definition reserve_try :: "int \<Rightarrow> session \<Rightarrow> bool \<times> session" where
  "reserve_try mx s = (snd (fst (TryReserveDelegation mx s)), snd (TryReserveDelegation mx s))"

interpretation add_check: budget reserve_check ReleaseDelegation DelegationDepth
  by unfold_locales (auto simp: reserve_check_def AddCheckDelegation_def ReleaseDelegation_def
      DelegationDepth_def Let_def split: if_splits)

interpretation try_reserve: budget reserve_try ReleaseDelegation DelegationDepth
  by unfold_locales (auto simp: reserve_try_def TryReserveDelegation_def ReleaseDelegation_def
      DelegationDepth_def Let_def split: if_splits)

section \<open>Steps of a session\<close>

text \<open>Every method that changes the session, as one atomic step.\<close>

inductive session_step :: "session \<Rightarrow> session \<Rightarrow> bool" where
  step_nonce: "session_step s (snd (ConsumeInstructionAuthorityNonce n e t s))"
| step_record: "session_step s (RecordToolCall now srv tool txt raw result s)"
| step_taint: "session_step s (snd (AddTaint now t s))"
| step_reserve: "session_step s (snd (AddCheckDelegation mx s))"
| step_try: "session_step s (snd (TryReserveDelegation mx s))"
| step_release: "session_step s (ReleaseDelegation s)"
| step_result: "session_step s (logServerMessage contents s)"

text \<open>What a recorded call is about; only its result can change later.\<close>

definition call_key :: "tool_call_record \<Rightarrow> string \<times> string \<times> args option" where
  "call_key c = (tcr_server c, tcr_tool c, tcr_arguments c)"

definition call_log :: "session \<Rightarrow> (string \<times> string \<times> args option) list" where
  "call_log s = map call_key (ses_tool_calls s)"

lemma call_log_update [simp]:
  "call_log (s\<lparr>ses_nonces := m\<rparr>) = call_log s"
  "call_log (s\<lparr>ses_taints := ts\<rparr>) = call_log s"
  "call_log (s\<lparr>ses_spawn_depth := d\<rparr>) = call_log s"
  "call_log (s\<lparr>ses_tool_calls := ses_tool_calls s @ cs\<rparr>) = call_log s @ map call_key cs"
  by (simp_all add: call_log_def)

lemma logServerMessage_log [simp]: "call_log (logServerMessage contents s) = call_log s"
proof (cases "ses_tool_calls s" rule: rev_cases)
  case (snoc xs x)
  then show ?thesis by (simp add: logServerMessage_def call_log_def call_key_def)
qed (simp add: logServerMessage_def)

lemma logServerMessage_keeps [simp]:
  "ses_taints (logServerMessage contents s) = ses_taints s"
  "ses_spawn_depth (logServerMessage contents s) = ses_spawn_depth s"
  "ses_nonces (logServerMessage contents s) = ses_nonces s"
  by (simp_all add: logServerMessage_def)

inductive_cases session_stepE: "session_step s s'"

definition session_ok :: "session \<Rightarrow> bool" where
  "session_ok s \<longleftrightarrow> distinct (TaintNames s) \<and> [] \<notin> set (TaintNames s) \<and> 0 \<le> ses_spawn_depth s"

lemmas session_defs = ConsumeInstructionAuthorityNonce_def RecordToolCall_def AddTaint_def
  AddCheckDelegation_def TryReserveDelegation_def ReleaseDelegation_def

lemma HasTaint_iff: "HasTaint n s \<longleftrightarrow> n \<in> set (TaintNames s)"
  by (auto simp: HasTaint_def GetTaint_def TaintNames_def find_None_iff_all)

lemma session_step_ok: "session_step s s' \<Longrightarrow> session_ok s \<Longrightarrow> session_ok s'"
  by (induction rule: session_step.induct)
     (auto simp: session_ok_def session_defs Let_def TaintNames_def HasTaint_iff split: option.splits)

lemma session_step_grows:
  assumes "session_step s s'"
  shows "\<exists>ts. ses_taints s' = ses_taints s @ ts" and "\<exists>cs. call_log s' = call_log s @ cs"
  using assms
  by (induction rule: session_step.induct)
     (auto simp: session_defs Let_def split: option.splits)

lemma session_steps_grow:
  "session_step\<^sup>*\<^sup>* s s' \<Longrightarrow>
     (\<exists>ts. ses_taints s' = ses_taints s @ ts) \<and> (\<exists>cs. call_log s' = call_log s @ cs)"
proof (induction rule: rtranclp_induct)
  case base
  then show ?case by simp
next
  case (step y z)
  then show ?case using session_step_grows [OF step(2)] by fastforce
qed

lemma GetTaint_stable:
  assumes "session_step\<^sup>*\<^sup>* s s'" and "GetTaint n s = Some t"
  shows "GetTaint n s' = Some t"
proof -
  have "find P (xs @ ys) = find P xs" if "find P xs = Some t" for P and xs ys :: "session_taint list"
    using that by (induction xs) auto
  with session_steps_grow [OF assms(1)] assms(2) show ?thesis by (auto simp: GetTaint_def)
qed

section \<open>Nonces\<close>

lemma consume_keeps:
  assumes "ses_nonces s n = Some expiry" and "t < expiry"
  shows "ses_nonces (snd (ConsumeInstructionAuthorityNonce m e t s)) n = Some expiry"
  using assms by (auto simp: ConsumeInstructionAuthorityNonce_def purge_nonces_def Let_def split: option.splits)

fun consume_all :: "(string \<times> int \<times> int) list \<Rightarrow> session \<Rightarrow> session" where
  "consume_all [] s = s"
| "consume_all ((n, e, t) # xs) s = consume_all xs (snd (ConsumeInstructionAuthorityNonce n e t s))"

lemma consume_all_keeps:
  assumes "ses_nonces s n = Some expiry" and "list_all (\<lambda>(m, e, t). t < expiry) xs"
  shows "ses_nonces (consume_all xs s) n = Some expiry"
  using assms by (induction xs s rule: consume_all.induct) (auto simp: consume_keeps)

section \<open>Properties\<close>

text \<open>C18: Over any interleaving of reservations and give-backs under a positive ceiling, starting
  from a fresh session, the depth of the session is the number of units held and never exceeds
  the ceiling.\<close>

theorem delegation_never_exceeds_ceiling:
  assumes "0 < mx"
    and "budget_run reserve_check ReleaseDelegation mx ops (NewSession i c now) 0 = (s, held)"
  shows "DelegationDepth s = int held \<and> DelegationDepth s \<le> mx"
  using add_check.run_balanced [OF assms(1) _ _ assms(2)] assms(1)
  by (simp add: DelegationDepth_def NewSession_def)

definition three_reserves :: "session \<times> nat" where
  "three_reserves = budget_run reserve_check ReleaseDelegation 2
     [Reserve, Reserve, Reserve, GiveBack, Reserve] (NewSession ''s'' ''c'' 0) 0"

theorem delegation_never_exceeds_ceiling_witness:
  "DelegationDepth (fst three_reserves) = int (snd three_reserves)
   \<and> DelegationDepth (fst three_reserves) \<le> 2"
  by (rule delegation_never_exceeds_ceiling
      [where ops = "[Reserve, Reserve, Reserve, GiveBack, Reserve]" and i = "''s''" and c = "''c''"
        and now = 0]) (simp_all add: three_reserves_def)

text \<open>A nonce that was accepted is refused until it expires: whatever nonces are consumed in
  between, with clock readings before that expiry, a second attempt before the expiry fails.\<close>

theorem nonce_single_use:
  assumes "fst (ConsumeInstructionAuthorityNonce n expiry t0 s)"
    and "list_all (\<lambda>(m, e, t). t < expiry) xs" and "t < expiry"
  shows "\<not> fst (ConsumeInstructionAuthorityNonce n e' t
            (consume_all xs (snd (ConsumeInstructionAuthorityNonce n expiry t0 s))))"
proof -
  have "ses_nonces (snd (ConsumeInstructionAuthorityNonce n expiry t0 s)) n = Some expiry"
    using assms(1) by (auto simp: ConsumeInstructionAuthorityNonce_def Let_def split: option.splits)
  from consume_all_keeps [OF this assms(2)] assms(3) show ?thesis
    by (simp add: ConsumeInstructionAuthorityNonce_def purge_nonces_def Let_def)
qed

theorem nonce_single_use_witness:
  "\<not> fst (ConsumeInstructionAuthorityNonce ''n1'' 90 20
      (consume_all [(''n2'', 11, 10), (''n3'', 99, 15)]
        (snd (ConsumeInstructionAuthorityNonce ''n1'' 30 5 (NewSession ''s'' ''c'' 0)))))"
  by (rule nonce_single_use)
     (simp_all add: ConsumeInstructionAuthorityNonce_def purge_nonces_def NewSession_def)

text \<open>No sequence of session steps forgets anything: from a fresh session every reachable
  session has distinct non-empty taint names and a non-negative depth, and along any further
  steps the taints and the servers, tools and arguments of the recorded calls only grow at the
  end, so a taint keeps its first source and no recorded call is dropped.\<close>

theorem session_monotone:
  assumes "session_step\<^sup>*\<^sup>* (NewSession i c now) s" and "session_step\<^sup>*\<^sup>* s s'"
  shows "session_ok s' \<and> (\<exists>ts. ses_taints s' = ses_taints s @ ts)
     \<and> (\<exists>cs. call_log s' = call_log s @ cs)"
proof -
  have "session_step\<^sup>*\<^sup>* (NewSession i c now) s'" using assms by simp
  then have "session_ok s'"
    by (induction rule: rtranclp_induct)
       (auto simp: session_step_ok, simp add: session_ok_def NewSession_def TaintNames_def)
  then show ?thesis using session_steps_grow [OF assms(2)] by simp
qed

theorem session_monotone_witness:
  "session_ok (ReleaseDelegation (NewSession ''s'' ''c'' 0))
   \<and> (\<exists>ts. ses_taints (ReleaseDelegation (NewSession ''s'' ''c'' 0)) = ses_taints (NewSession ''s'' ''c'' 0) @ ts)
   \<and> (\<exists>cs. call_log (ReleaseDelegation (NewSession ''s'' ''c'' 0)) = call_log (NewSession ''s'' ''c'' 0) @ cs)"
  by (rule session_monotone) (auto intro: step_release)

end
