(* ===== verification/Session_Taint.thy ===== *)
theory Session_Taint
  imports Session Policy_Glob
begin

text \<open>
  Session taints and egress controls (\<^verbatim>\<open>src/internal/proxy/session_taint.go\<close>). Marking returns the
  new session and the taints it added, each of which the program also writes to the audit log.
\<close>

definition matchesNamePattern :: "string \<Rightarrow> string \<Rightarrow> bool" where
  "matchesNamePattern pattern v =
     (if pattern = [] then False
      else if pattern = ''*'' \<or> equal_fold pattern v then True
      else name_ci pattern v)"

definition matchesAnyNamePattern :: "string list \<Rightarrow> string \<Rightarrow> bool" where
  "matchesAnyNamePattern patterns v = list_ex (\<lambda>p. matchesNamePattern p v) patterns"

definition matchesValuePattern :: "go_env \<Rightarrow> string \<Rightarrow> string \<Rightarrow> bool" where
  "matchesValuePattern E pattern v =
     (if pattern = [] then False
      else if pattern = v \<or> equal_fold pattern v then True
      else if str_contains pattern ''**'' then glob_ci pattern v
      else filepath_match E pattern v \<or> filepath_match E (to_lower pattern) (to_lower v))"

definition matchesAnyValuePattern :: "go_env \<Rightarrow> string list \<Rightarrow> string \<Rightarrow> bool" where
  "matchesAnyValuePattern E patterns v = list_ex (\<lambda>p. matchesValuePattern E p v) patterns"

text \<open>Every string inside a decoded value; numbers, booleans and null have none.\<close>

fun collectStringValuesInto :: "json \<Rightarrow> string list"
  and collect_items :: "json list \<Rightarrow> string list"
  and collect_members :: "args \<Rightarrow> string list" where
  "collectStringValuesInto JNull = []"
| "collectStringValuesInto (JBool b) = []"
| "collectStringValuesInto (JNum r) = []"
| "collectStringValuesInto (JStr s) = [s]"
| "collectStringValuesInto (JArr xs) = collect_items xs"
| "collectStringValuesInto (JObj m) = collect_members m"
| "collect_items [] = []"
| "collect_items (x # xs) = collectStringValuesInto x @ collect_items xs"
| "collect_members [] = []"
| "collect_members ((k, v) # m) = collectStringValuesInto v @ collect_members m"

definition collectStringValues :: "args option \<Rightarrow> string list" where
  "collectStringValues args = (case args of None \<Rightarrow> [] | Some m \<Rightarrow> collectStringValuesInto (JObj m))"

definition taintSourceMatches ::
    "go_env \<Rightarrow> taint_rule \<Rightarrow> string \<Rightarrow> string \<Rightarrow> args option \<Rightarrow> string option" where
  "taintSourceMatches E rule serverName toolName args =
     (if tn_source_servers rule \<noteq> [] \<and> \<not> matchesAnyNamePattern (tn_source_servers rule) serverName then None
      else if \<not> matchesAnyNamePattern (tn_source_tools rule) toolName then None
      else if tn_source_patterns rule = [] then Some toolName
      else find (matchesAnyValuePattern E (tn_source_patterns rule)) (collectStringValues args))"

definition taint_of_rule :: "taint_rule \<Rightarrow> string \<Rightarrow> string \<Rightarrow> string \<Rightarrow> session_taint" where
  "taint_of_rule rule serverName toolName sourceValue =
     \<lparr>st_name = tn_name rule, st_source_server = serverName, st_source_tool = toolName,
      st_source_value = sourceValue, st_policy_rule = tn_name rule,
      st_reason = ''taint rule '' @ [CHR 0x27] @ tn_name rule @ [CHR 0x27] @ '': '' @ toolName @ '' matched '' @ sourceValue,
      st_created_at = None\<rparr>"

fun mark_taints ::
    "go_env \<Rightarrow> int \<Rightarrow> string \<Rightarrow> string \<Rightarrow> args option \<Rightarrow> taint_rule list \<Rightarrow> session
       \<Rightarrow> session \<times> session_taint list" where
  "mark_taints E now serverName toolName args [] s = (s, [])"
| "mark_taints E now serverName toolName args (rule # rules) s =
     (case taintSourceMatches E rule serverName toolName args of
        None \<Rightarrow> mark_taints E now serverName toolName args rules s
      | Some sourceValue \<Rightarrow>
          let taint = taint_of_rule rule serverName toolName sourceValue in
          (case AddTaint now taint s of
             (False, s') \<Rightarrow> mark_taints E now serverName toolName args rules s'
           | (True, s') \<Rightarrow>
               let (s'', added) = mark_taints E now serverName toolName args rules s'
               in (s'', taint # added)))"

definition markMatchingTaints ::
    "go_env \<Rightarrow> int \<Rightarrow> string \<Rightarrow> string \<Rightarrow> args option \<Rightarrow> policy option \<Rightarrow> session
       \<Rightarrow> session \<times> session_taint list" where
  "markMatchingTaints E now serverName toolName args pol s =
     (case pol of None \<Rightarrow> (s, [])
      | Some p \<Rightarrow> mark_taints E now serverName toolName args (pol_taints p) s)"

record egressTaintDecision =
  etd_decision :: decision
  etd_control :: egress_control_rule
  etd_taint :: session_taint

definition egress_applies :: "session \<Rightarrow> string \<Rightarrow> string \<Rightarrow> egress_control_rule \<Rightarrow> bool" where
  "egress_applies s serverName toolName control \<longleftrightarrow>
     eg_when_tainted control \<noteq> [] \<and> HasTaint (eg_when_tainted control) s
     \<and> matchesAnyNamePattern (eg_sink_tools control) toolName
     \<and> (eg_sink_servers control = [] \<or> matchesAnyNamePattern (eg_sink_servers control) serverName)"

definition egress_decision :: "egress_control_rule \<Rightarrow> session_taint \<Rightarrow> egressTaintDecision" where
  "egress_decision control taint =
     (let q = (\<lambda>x. [CHR 0x27] @ x @ [CHR 0x27]);
          reason = (if eg_reason control = []
                    then ''egress control '' @ q (eg_name control) @ '': session tainted with ''
                         @ q (st_name taint) @ '' from '' @ st_source_server taint @ '':'' @ st_source_tool taint
                    else eg_reason control)
      in \<lparr>etd_decision = mk_decision (eg_action control) reason, etd_control = control,
          etd_taint = taint\<rparr>)"

fun egress_loop ::
    "session \<Rightarrow> string \<Rightarrow> string \<Rightarrow> egress_control_rule list \<Rightarrow> egressTaintDecision option" where
  "egress_loop s serverName toolName [] = None"
| "egress_loop s serverName toolName (control # rest) =
     (if \<not> egress_applies s serverName toolName control then egress_loop s serverName toolName rest
      else case GetTaint (eg_when_tainted control) s of
             Some taint \<Rightarrow> Some (egress_decision control taint)
           | None \<Rightarrow> egress_loop s serverName toolName rest)"

definition evaluateEgressControls ::
    "policy \<Rightarrow> session \<Rightarrow> string \<Rightarrow> string \<Rightarrow> egressTaintDecision option" where
  "evaluateEgressControls pol s serverName toolName =
     egress_loop s serverName toolName (pol_egress_controls pol)"

section \<open>Taints are kept and enforced\<close>

lemma mark_taints_steps:
  "session_step\<^sup>*\<^sup>* s (fst (mark_taints E now srv tool args rules s))"
proof (induction E now srv tool args rules s rule: mark_taints.induct)
  case (1 E now srv tool args s)
  then show ?case by simp
next
  case (2 E now srv tool args rule rules s)
  show ?case
  proof (cases "taintSourceMatches E rule srv tool args")
    case None
    with 2 show ?thesis by simp
  next
    case (Some v)
    obtain ok s1 where a: "AddTaint now (taint_of_rule rule srv tool v) s = (ok, s1)" by fastforce
    have "session_step s s1" using step_taint [of s now "taint_of_rule rule srv tool v"] a by simp
    moreover have "session_step\<^sup>*\<^sup>* s1 (fst (mark_taints E now srv tool args rules s1))"
      using 2 Some a by (cases ok) auto
    ultimately show ?thesis
      using Some a by (cases ok) (auto simp: Let_def split: prod.splits intro: converse_rtranclp_into_rtranclp)
  qed
qed

lemma HasTaint_stable:
  assumes "session_step\<^sup>*\<^sup>* s s'" and "HasTaint n s"
  shows "HasTaint n s'"
  using assms GetTaint_stable by (fastforce simp: HasTaint_def)

lemma AddTaint_has: "st_name t \<noteq> [] \<Longrightarrow> HasTaint (st_name t) (snd (AddTaint now t s))"
  by (auto simp: AddTaint_def Let_def HasTaint_iff TaintNames_def)

lemma mark_taints_has:
  assumes "rule \<in> set rules" and "tn_name rule \<noteq> []"
    and "taintSourceMatches E rule srv tool args = Some v"
  shows "HasTaint (tn_name rule) (fst (mark_taints E now srv tool args rules s))"
  using assms(1)
proof (induction rules arbitrary: s)
  case Nil
  then show ?case by simp
next
  case (Cons r rules)
  show ?case
  proof (cases "r = rule")
    case True
    obtain ok s1 where a: "AddTaint now (taint_of_rule r srv tool v) s = (ok, s1)" by fastforce
    have "HasTaint (tn_name rule) s1"
      using AddTaint_has [of "taint_of_rule r srv tool v" now s] a assms(2) True
      by (simp add: taint_of_rule_def)
    then have "HasTaint (tn_name rule) (fst (mark_taints E now srv tool args rules s1))"
      by (rule HasTaint_stable [OF mark_taints_steps])
    then show ?thesis
      using a assms(3) True by (cases ok) (auto simp: Let_def split: prod.splits)
  next
    case False
    then have "rule \<in> set rules" using Cons.prems by simp
    then have IH: "HasTaint (tn_name rule) (fst (mark_taints E now srv tool args rules s'))" for s'
      by (rule Cons.IH)
    show ?thesis
    proof (cases "taintSourceMatches E r srv tool args")
      case None
      then show ?thesis using IH by simp
    next
      case (Some w)
      obtain ok s1 where "AddTaint now (taint_of_rule r srv tool w) s = (ok, s1)" by fastforce
      then show ?thesis
        using Some IH [of s1] by (cases ok) (auto simp: Let_def split: prod.splits)
    qed
  qed
qed

lemma egress_loop_first:
  "egress_loop s srv tool cs =
     map_option (\<lambda>c. egress_decision c (the (GetTaint (eg_when_tainted c) s)))
       (find (egress_applies s srv tool) cs)"
proof (induction cs)
  case (Cons c cs)
  show ?case
  proof (cases "egress_applies s srv tool c")
    case True
    then have "GetTaint (eg_when_tainted c) s \<noteq> None" by (simp add: egress_applies_def HasTaint_def)
    with True show ?thesis by auto
  next
    case False
    with Cons show ?thesis by simp
  qed
qed simp

lemma collect_members_concat:
  "collect_members m = concat (map (\<lambda>kv. collectStringValuesInto (snd kv)) m)"
  by (induction m) auto

lemma egress_decision_action [simp]:
  "dec_action (etd_decision (egress_decision c t)) = eg_action c"
  by (simp add: egress_decision_def Let_def)

section \<open>Properties\<close>

text \<open>A taint is enforced for the rest of the session: once a call matched a taint rule, then
  after any further session steps every call to a sink of an egress control on that taint meets
  an egress decision, and if all controls of the policy deny or ask for approval (as policy
  validation requires) so does that decision.\<close>

theorem taint_enforced_forever:
  assumes "rule \<in> set (pol_taints pol)" and "tn_name rule \<noteq> []"
    and "taintSourceMatches E rule srv tool args = Some v"
    and "session_step\<^sup>*\<^sup>* (fst (markMatchingTaints E now srv tool args (Some pol) s)) s'"
    and "control \<in> set (pol_egress_controls pol')" and "eg_when_tainted control = tn_name rule"
    and "matchesAnyNamePattern (eg_sink_tools control) tool'"
    and "eg_sink_servers control = [] \<or> matchesAnyNamePattern (eg_sink_servers control) srv'"
    and "list_all (\<lambda>c. eg_action c = ActionDeny \<or> eg_action c = ActionRequireApproval)
           (pol_egress_controls pol')"
  shows "\<exists>d. evaluateEgressControls pol' s' srv' tool' = Some d
     \<and> dec_action (etd_decision d) \<in> {ActionDeny, ActionRequireApproval}"
proof -
  have "HasTaint (tn_name rule) s'"
    using mark_taints_has [OF assms(1-3)] assms(4) by (auto simp: markMatchingTaints_def HasTaint_stable)
  then have "egress_applies s' srv' tool' control"
    using assms(2,6-8) by (simp add: egress_applies_def)
  with assms(5) obtain c where c: "find (egress_applies s' srv' tool') (pol_egress_controls pol') = Some c"
    by (metis find_None_iff_all option.exhaust)
  then have "c \<in> set (pol_egress_controls pol')" by (auto dest: find_SomeD)
  with assms(9) c show ?thesis
    by (auto simp: evaluateEgressControls_def egress_loop_first list_all_iff)
qed

definition taint_policy :: policy where
  "taint_policy =
     policy_zero\<lparr>pol_taints := [\<lparr>tn_name = ''secret'', tn_source_servers = [], tn_source_tools = [''read_*''],
                    tn_source_patterns = [''**/.env'']\<rparr>],
       pol_egress_controls := [\<lparr>eg_name = ''no-mail'', eg_when_tainted = ''secret'', eg_sink_servers = [],
                    eg_sink_tools = [''send*''], eg_action = ActionDeny, eg_reason = []\<rparr>]\<rparr>"

theorem taint_enforced_forever_witness:
  "\<exists>d. evaluateEgressControls taint_policy
         (ReleaseDelegation (fst (markMatchingTaints example_env 7 ''fs'' ''read_file''
            (Some [(''opts'', JArr [JObj [(''p'', JStr ''/app/.env'')]])]) (Some taint_policy)
            (NewSession ''s'' ''c'' 0)))) ''mail'' ''send_mail'' = Some d
     \<and> dec_action (etd_decision d) \<in> {ActionDeny, ActionRequireApproval}"
proof (rule taint_enforced_forever [where rule = "hd (pol_taints taint_policy)" and v = "''/app/.env''"
      and control = "hd (pol_egress_controls taint_policy)" and E = example_env and now = 7
      and srv = "''fs''" and tool = "''read_file''" and s = "NewSession ''s'' ''c'' 0"
      and args = "Some [(''opts'', JArr [JObj [(''p'', JStr ''/app/.env'')]])]" and pol = taint_policy])
  show "hd (pol_taints taint_policy) \<in> set (pol_taints taint_policy)"
    "hd (pol_egress_controls taint_policy) \<in> set (pol_egress_controls taint_policy)"
    by (simp_all add: taint_policy_def)
  show "session_step\<^sup>*\<^sup>* s (ReleaseDelegation s)" for s by (auto intro: step_release)
qed code_simp+

text \<open>The egress controls are a first-match list: evaluateEgressControls answers with the
  first control whose taint the session has and whose sinks match, together with that taint, and
  answers nothing when no control applies.\<close>

theorem egress_first_match:
  "evaluateEgressControls pol s srv tool =
     map_option (\<lambda>c. egress_decision c (the (GetTaint (eg_when_tainted c) s)))
       (find (egress_applies s srv tool) (pol_egress_controls pol))"
  by (simp add: evaluateEgressControls_def egress_loop_first)

end
