(* ===== verification/Trajectory_Advisor.thy ===== *)
theory Trajectory_Advisor
  imports Visor_Prelude
begin

text \<open>
  The session trajectory advisor (\<^verbatim>\<open>src/internal/trajectory/advisor.go\<close>): a sliding window over
  the calls of a session with incrementally maintained counters, which flags a call whose
  predecessor was seen before but never with this successor. The counters are bounded by the
  window, so uint64 never wraps and they are natural numbers.
\<close>

type_synonym token = "string \<times> string"

definition windowTransitions :: nat where "windowTransitions = 32"
definition warmupTransitions :: nat where "warmupTransitions = 8"
definition minSourceSupport :: nat where "minSourceSupport = 2"
definition advisorName :: string where "advisorName = ''session_unseen_bigram_v1''"
definition anomalyKind :: string where "anomalyKind = ''unseen_successor''"

record advice =
  adv_advisor :: string
  adv_kind :: string
  adv_sequence :: "string list"
  adv_window_transitions :: nat
  adv_source_support :: nat
  adv_transition_support :: nat

record advisor =
  tokens :: "token list"
  sources :: "token \<rightharpoonup> nat"
  bigrams :: "token \<times> token \<rightharpoonup> nat"

definition New :: advisor where
  "New = \<lparr>tokens = [], sources = Map.empty, bigrams = Map.empty\<rparr>"

definition render :: "token \<Rightarrow> string" where
  "render tok = fst tok @ '':'' @ snd tok"

text \<open>Counter maps: reading a missing key gives zero, a counter that reaches zero is deleted.\<close>

definition count_of :: "('k \<rightharpoonup> nat) \<Rightarrow> 'k \<Rightarrow> nat" where
  "count_of m k = (case m k of None \<Rightarrow> 0 | Some n \<Rightarrow> n)"

definition bump :: "'k \<Rightarrow> ('k \<rightharpoonup> nat) \<Rightarrow> ('k \<rightharpoonup> nat)" where
  "bump k m = m(k \<mapsto> count_of m k + 1)"

definition drop_one :: "'k \<Rightarrow> ('k \<rightharpoonup> nat) \<Rightarrow> ('k \<rightharpoonup> nat)" where
  "drop_one k m = (let n = count_of m k - 1 in if n = 0 then m(k := None) else m(k \<mapsto> n))"

definition evict :: "advisor \<Rightarrow> advisor" where
  "evict a =
     (if windowTransitions < length (tokens a) - 1 then
        (let frm = tokens a ! 0; nxt = tokens a ! 1
         in a\<lparr>bigrams := drop_one (frm, nxt) (bigrams a), sources := drop_one frm (sources a),
              tokens := tl (tokens a)\<rparr>)
      else a)"

definition Assess :: "token \<Rightarrow> advisor \<Rightarrow> advice option \<times> advisor" where
  "Assess cand a =
     (if tokens a = [] then (None, a\<lparr>tokens := [cand]\<rparr>)
      else
        let prev = last (tokens a);
            windowCount = length (tokens a) - 1;
            sourceSupport = count_of (sources a) prev;
            transitionSupport = count_of (bigrams a) (prev, cand);
            flagged = (warmupTransitions \<le> windowCount \<and> minSourceSupport \<le> sourceSupport
                       \<and> transitionSupport = 0);
            advice = \<lparr>adv_advisor = advisorName, adv_kind = anomalyKind,
                      adv_sequence = [render prev, render cand],
                      adv_window_transitions = windowCount, adv_source_support = sourceSupport,
                      adv_transition_support = 0\<rparr>;
            a' = a\<lparr>bigrams := bump (prev, cand) (bigrams a), sources := bump prev (sources a),
                   tokens := tokens a @ [cand]\<rparr>
        in (if flagged then Some advice else None, evict a'))"

fun observe_all :: "token list \<Rightarrow> advisor \<Rightarrow> advisor" where
  "observe_all [] a = a"
| "observe_all (t # ts) a = observe_all ts (snd (Assess t a))"

section \<open>The counters describe the window\<close>

definition transitions :: "token list \<Rightarrow> (token \<times> token) list" where
  "transitions ts = zip ts (tl ts)"

definition advisor_inv :: "advisor \<Rightarrow> bool" where
  "advisor_inv a \<longleftrightarrow>
     length (tokens a) \<le> windowTransitions + 1
     \<and> (\<forall>k. count_of (sources a) k = count_list (butlast (tokens a)) k)
     \<and> (\<forall>k. count_of (bigrams a) k = count_list (transitions (tokens a)) k)
     \<and> (\<forall>k. sources a k \<noteq> Some 0) \<and> (\<forall>k. bigrams a k \<noteq> Some 0)"

lemma advisor_invD:
  assumes "advisor_inv a"
  shows "length (tokens a) \<le> windowTransitions + 1"
    and "count_of (sources a) k = count_list (butlast (tokens a)) k"
    and "count_of (bigrams a) j = count_list (transitions (tokens a)) j"
    and "sources a k \<noteq> Some 0" and "bigrams a j \<noteq> Some 0"
  using assms unfolding advisor_inv_def by blast+

lemma count_bump [simp]: "count_of (bump k m) j = count_of m j + (if j = k then 1 else 0)"
  by (simp add: count_of_def bump_def)

lemma count_drop_one [simp]: "count_of (drop_one k m) j = count_of m j - (if j = k then 1 else 0)"
  by (auto simp: count_of_def drop_one_def Let_def split: option.splits)

lemma bump_positive: "\<forall>j. m j \<noteq> Some 0 \<Longrightarrow> bump k m j \<noteq> Some 0"
  by (auto simp: bump_def)

lemma drop_one_positive: "\<forall>j. m j \<noteq> Some 0 \<Longrightarrow> drop_one k m j \<noteq> Some 0"
  by (auto simp: drop_one_def Let_def)

lemma transitions_snoc: "ts \<noteq> [] \<Longrightarrow> transitions (ts @ [t]) = transitions ts @ [(last ts, t)]"
  by (induction ts rule: induct_list012) (auto simp: transitions_def)

lemma transitions_Cons: "transitions (a # b # ts) = (a, b) # transitions (b # ts)"
  by (simp add: transitions_def)

lemma count_list_snoc: "count_list (xs @ [x]) k = count_list xs k + (if k = x then 1 else 0)"
  by (induction xs) auto

definition pushed :: "token \<Rightarrow> advisor \<Rightarrow> advisor" where
  "pushed cand a =
     a\<lparr>bigrams := bump (last (tokens a), cand) (bigrams a),
       sources := bump (last (tokens a)) (sources a), tokens := tokens a @ [cand]\<rparr>"

lemma Assess_pushed: "tokens a \<noteq> [] \<Longrightarrow> snd (Assess cand a) = evict (pushed cand a)"
  by (simp add: Assess_def Let_def pushed_def)

lemma pushed_counts:
  assumes "advisor_inv a" and "tokens a \<noteq> []"
  shows "count_of (sources (pushed c a)) k = count_list (butlast (tokens (pushed c a))) k"
    and "count_of (bigrams (pushed c a)) j = count_list (transitions (tokens (pushed c a))) j"
    and "sources (pushed c a) k \<noteq> Some 0" and "bigrams (pushed c a) j \<noteq> Some 0"
proof -
  have "tokens a = butlast (tokens a) @ [last (tokens a)]" using assms(2) by simp
  then have "count_list (tokens a) k =
      count_list (butlast (tokens a)) k + (if k = last (tokens a) then 1 else 0)"
    using count_list_snoc by metis
  then show "count_of (sources (pushed c a)) k = count_list (butlast (tokens (pushed c a))) k"
    using advisor_invD(2) [OF assms(1)] by (simp add: pushed_def)
  show "count_of (bigrams (pushed c a)) j = count_list (transitions (tokens (pushed c a))) j"
    using assms(2) advisor_invD(3) [OF assms(1)]
    by (simp add: pushed_def transitions_snoc count_list_snoc)
  show "sources (pushed c a) k \<noteq> Some 0" "bigrams (pushed c a) j \<noteq> Some 0"
    using advisor_invD(4,5) [OF assms(1)] by (simp_all add: pushed_def bump_positive)
qed

lemma evict_inv:
  assumes "length (tokens a) \<le> windowTransitions + 2"
    and "\<And>k. count_of (sources a) k = count_list (butlast (tokens a)) k"
    and "\<And>k. count_of (bigrams a) k = count_list (transitions (tokens a)) k"
    and "\<And>k. sources a k \<noteq> Some 0" and "\<And>k. bigrams a k \<noteq> Some 0"
  shows "advisor_inv (evict a)"
proof (cases "windowTransitions < length (tokens a) - 1")
  case True
  then obtain x y ts where ts: "tokens a = x # y # ts"
    by (cases "tokens a" rule: remdups_adj.cases) (auto simp: windowTransitions_def)
  show ?thesis
    using True assms ts
    by (auto simp: evict_def Let_def advisor_inv_def transitions_Cons drop_one_positive)
next
  case False
  then show ?thesis using assms by (auto simp: evict_def advisor_inv_def)
qed

lemma Assess_inv:
  assumes "advisor_inv a"
  shows "advisor_inv (snd (Assess cand a))"
proof (cases "tokens a = []")
  case True
  then show ?thesis
    using assms by (simp add: Assess_def advisor_inv_def windowTransitions_def transitions_def)
next
  case False
  have "advisor_inv (evict (pushed cand a))"
    using assms False pushed_counts [OF assms False]
    by (intro evict_inv) (auto simp: pushed_def advisor_inv_def)
  then show ?thesis by (simp add: Assess_pushed False)
qed

lemma New_inv: "advisor_inv New"
  by (simp add: advisor_inv_def New_def count_of_def transitions_def)

section \<open>The window is the tail of the history\<close>

definition last_n :: "nat \<Rightarrow> 'a list \<Rightarrow> 'a list" where
  "last_n n xs = drop (length xs - n) xs"

lemma last_n_snoc: "0 < n \<Longrightarrow> last_n n (xs @ [x]) = last_n n (last_n n xs @ [x])"
  by (cases "n \<le> length xs") (auto simp: last_n_def Suc_diff_le)

lemma tokens_Assess:
  assumes "length (tokens a) \<le> windowTransitions + 1"
  shows "tokens (snd (Assess c a)) = last_n (windowTransitions + 1) (tokens a @ [c])"
proof (cases "tokens a = []")
  case True
  then show ?thesis by (simp add: Assess_def last_n_def)
next
  case False
  then show ?thesis
    using assms by (auto simp: Assess_pushed pushed_def evict_def Let_def last_n_def drop_Suc
        le_Suc_eq tl_append2)
qed

lemma observe_all_state:
  assumes "advisor_inv a" and "tokens a = last_n (windowTransitions + 1) hist"
  shows "advisor_inv (observe_all ts a)
     \<and> tokens (observe_all ts a) = last_n (windowTransitions + 1) (hist @ ts)"
  using assms
proof (induction ts arbitrary: a hist)
  case Nil
  then show ?case by simp
next
  case (Cons t ts)
  have "tokens (snd (Assess t a)) = last_n (windowTransitions + 1) (hist @ [t])"
    using Cons.prems last_n_snoc [of "windowTransitions + 1" hist t]
    by (simp add: tokens_Assess advisor_inv_def)
  from Cons.IH [OF Assess_inv [OF Cons.prems(1)] this] show ?case by simp
qed

lemma observe_all_New:
  "advisor_inv (observe_all ts New) \<and> tokens (observe_all ts New) = last_n (windowTransitions + 1) ts"
  using observe_all_state [OF New_inv, of "[]" ts] by (simp add: New_def last_n_def)

section \<open>Properties\<close>

text \<open>The reference: what the advisor says of a call after a history, computed from the last 33
  calls with no counters.\<close>

definition unseen_successor :: "token list \<Rightarrow> token \<Rightarrow> bool" where
  "unseen_successor hist cand =
     (let w = last_n (windowTransitions + 1) hist in
      w \<noteq> [] \<and> warmupTransitions \<le> length w - 1
      \<and> minSourceSupport \<le> count_list (butlast w) (last w)
      \<and> (last w, cand) \<notin> set (transitions w))"

text \<open>C19: After any history of calls, the advisor flags the next call exactly when the reference
  says so: at least eight transitions in the window, the previous call seen at least twice
  before inside the window, and never followed by this one there. The incremental counters with
  eviction are equivalent to recounting the window.\<close>

theorem advisor_matches_reference:
  "fst (Assess cand (observe_all hist New)) \<noteq> None \<longleftrightarrow> unseen_successor hist cand"
proof -
  let ?a = "observe_all hist New"
  have inv: "advisor_inv ?a" and tok: "tokens ?a = last_n (windowTransitions + 1) hist"
    using observe_all_New [of hist] by auto
  have ref: "unseen_successor hist cand \<longleftrightarrow>
      tokens ?a \<noteq> [] \<and> warmupTransitions \<le> length (tokens ?a) - 1
      \<and> minSourceSupport \<le> count_of (sources ?a) (last (tokens ?a))
      \<and> count_of (bigrams ?a) (last (tokens ?a), cand) = 0"
    unfolding unseen_successor_def Let_def tok [symmetric] advisor_invD(2,3) [OF inv]
      count_list_0_iff ..
  show ?thesis unfolding ref by (simp add: Assess_def Let_def)
qed

text \<open>The window never holds more than 33 calls, no counter in it is zero, and the source
  counters are exactly the number of occurrences in the window, whatever was observed.\<close>

theorem advisor_window_bounded:
  "length (tokens (observe_all hist New)) \<le> 33
   \<and> sources (observe_all hist New) k \<noteq> Some 0
   \<and> count_of (sources (observe_all hist New)) k = count_list (butlast (last_n 33 hist)) k"
  using observe_all_New [of hist] advisor_invD [of "observe_all hist New"]
  by (simp add: windowTransitions_def)

end
