(* ===== verification/Instruction_Authority.thy ===== *)
theory Instruction_Authority
  imports Ownership
begin

text \<open>
  Instruction authority continuity (\<^verbatim>\<open>src/internal/instructionauthority/model.go\<close> and
  \<^verbatim>\<open>evaluator.go\<close>): an instruction keeps the authority of the principal it came from through every
  transformation, unless a registered principal above it endorses a promotion. An object carries an
  append-only log of hops; authority, lineage and promotion outcome are the fold of that log.
  SHA-256 is the parameter sha256_hex of crypto_env; the bytes that are hashed for a hop are
  modelled exactly. Strings stay strings, so unknown levels and classes are values of the model.
\<close>

definition MaxHistoryHops :: nat where "MaxHistoryHops = 8"
definition SchemaVersion :: int where "SchemaVersion = 1"

definition AuthorityDataOnly :: string where "AuthorityDataOnly = ''DATA_ONLY''"
definition AuthorityUser :: string where "AuthorityUser = ''USER''"
definition AuthorityDeveloper :: string where "AuthorityDeveloper = ''DEVELOPER''"
definition AuthoritySystem :: string where "AuthoritySystem = ''SYSTEM''"

definition TrustUntrustedMCPResponse :: string where "TrustUntrustedMCPResponse = ''UNTRUSTED_MCP_RESPONSE''"
definition TrustTrustedUser :: string where "TrustTrustedUser = ''TRUSTED_USER''"
definition TrustTrustedDeveloper :: string where "TrustTrustedDeveloper = ''TRUSTED_DEVELOPER''"
definition TrustTrustedSystem :: string where "TrustTrustedSystem = ''TRUSTED_SYSTEM''"

definition RoleNone :: string where "RoleNone = ''NONE''"
definition ContinuityPass :: string where "ContinuityPass = ''PASS''"
definition ContinuityFailed :: string where "ContinuityFailed = ''FAILED''"

lemmas ia_consts = AuthorityDataOnly_def AuthorityUser_def AuthorityDeveloper_def AuthoritySystem_def
  TrustUntrustedMCPResponse_def TrustTrustedUser_def TrustTrustedDeveloper_def TrustTrustedSystem_def
  RoleNone_def ContinuityPass_def ContinuityFailed_def

definition authorityRank :: "string \<Rightarrow> nat option" where
  "authorityRank a =
     (if a = AuthorityDataOnly then Some 0
      else if a = AuthorityUser then Some 1
      else if a = AuthorityDeveloper then Some 2
      else if a = AuthoritySystem then Some 3
      else None)"

definition ceilingForTrust :: "string \<Rightarrow> string" where
  "ceilingForTrust class =
     (if class = TrustTrustedUser then AuthorityUser
      else if class = TrustTrustedDeveloper then AuthorityDeveloper
      else if class = TrustTrustedSystem then AuthoritySystem
      else AuthorityDataOnly)"

record ia_origin =
  io_principal :: string
  io_trust_class :: string

record derivation =
  dv_transformer :: string
  dv_from :: string
  dv_via :: string
  dv_to :: string

record promotion =
  pm_requested :: string
  pm_attempted :: bool
  pm_promoter :: string
  pm_endorsement_id :: string
  pm_continuity :: string
  pm_digest_failure :: bool

record provenance =
  pv_origin :: ia_origin
  pv_derived_by :: "derivation list"
  pv_representation :: string
  pv_visible_role :: string
  pv_authority :: string
  pv_lineage :: "string list"
  pv_content_sha :: string
  pv_parent_sha :: string
  pv_promotion :: promotion

record evaluation_root =
  er_origin :: ia_origin
  er_instruction_bearing :: bool
  er_effect_class :: string
  er_content_sha :: string

record endorsement =
  en_id :: string
  en_promoter :: string
  en_grant_authority :: string
  en_parent_sha :: string
  en_child_sha :: string
  en_transformer :: string
  en_target :: string

record trusted_principal =
  tp_name :: string
  tp_ceiling :: string

record hop =
  hp_derivation :: derivation
  hp_content :: string
  hp_content_digest :: string
  hp_parent_digest :: string
  hp_visible_role :: string
  hp_requested :: string
  hp_endorsement :: "endorsement option"
  hp_endorsement_valid :: bool
  hp_observed_ceiling :: string
  hp_parent_hop_digest :: string
  hp_hop_digest :: string

record instruction_object =
  ob_schema_version :: int
  ob_content :: string
  ob_instruction_bearing :: bool
  ob_effect_class :: string
  ob_provenance :: provenance
  ob_history :: "hop list"
  ob_instruction_eligible :: bool

record ia_transform =
  tf_transformer :: string
  tf_to :: string
  tf_via :: string
  tf_visible_role :: string
  tf_requested :: string
  tf_new_content :: string

type_synonym ia_registry = "string \<rightharpoonup> trusted_principal"

section \<open>Digests\<close>

definition ia_digest :: "crypto_env \<Rightarrow> string \<Rightarrow> string" where
  "ia_digest C content = ''sha256:'' @ sha256_hex C content"

definition endorsement_fields :: "endorsement option \<Rightarrow> string list" where
  "endorsement_fields eo =
     (case eo of
        None \<Rightarrow> [''0'']
      | Some e \<Rightarrow> [''1'', en_id e, en_promoter e, en_grant_authority e, en_parent_sha e, en_child_sha e,
                  en_transformer e, en_target e])"

text \<open>The bytes hashed for a hop, every field length-prefixed.\<close>

definition hop_bytes :: "hop \<Rightarrow> string" where
  "hop_bytes h =
     concat (map writeField
       ([hp_parent_digest h, hp_content_digest h, hp_content h, hp_visible_role h, hp_requested h,
         hp_parent_hop_digest h, hp_observed_ceiling h, (if hp_endorsement_valid h then ''1'' else ''0'')]
        @ endorsement_fields (hp_endorsement h)
        @ [dv_transformer (hp_derivation h), dv_from (hp_derivation h), dv_via (hp_derivation h),
           dv_to (hp_derivation h)]))"

definition hopDigest :: "crypto_env \<Rightarrow> hop \<Rightarrow> string" where
  "hopDigest C h = ''sha256:'' @ sha256_hex C (hop_bytes h)"

section \<open>The fold\<close>

definition clean_promotion :: promotion where
  "clean_promotion =
     \<lparr>pm_requested = [], pm_attempted = False, pm_promoter = [], pm_endorsement_id = [],
      pm_continuity = ContinuityPass, pm_digest_failure = False\<rparr>"

definition genesis_provenance :: "ia_origin \<Rightarrow> string \<Rightarrow> string \<Rightarrow> provenance" where
  "genesis_provenance origin repr sha =
     \<lparr>pv_origin = origin, pv_derived_by = [], pv_representation = repr, pv_visible_role = RoleNone,
      pv_authority = ceilingForTrust (io_trust_class origin), pv_lineage = [], pv_content_sha = sha,
      pv_parent_sha = [], pv_promotion = clean_promotion\<rparr>"

definition NewOriginObject :: "crypto_env \<Rightarrow> string \<Rightarrow> ia_origin \<Rightarrow> string \<Rightarrow> string \<Rightarrow> bool \<Rightarrow> instruction_object" where
  "NewOriginObject C content origin repr effectClass bearing =
     \<lparr>ob_schema_version = SchemaVersion, ob_content = content, ob_instruction_bearing = bearing,
      ob_effect_class = effectClass,
      ob_provenance = genesis_provenance origin repr (ia_digest C content),
      ob_history = [], ob_instruction_eligible = False\<rparr>"

definition fail_digest :: "provenance \<Rightarrow> provenance" where
  "fail_digest prov = prov\<lparr>pv_promotion := (pv_promotion prov)\<lparr>pm_continuity := ContinuityFailed, pm_digest_failure := True\<rparr>\<rparr>"

definition fail_continuity :: "provenance \<Rightarrow> provenance" where
  "fail_continuity prov = prov\<lparr>pv_promotion := (pv_promotion prov)\<lparr>pm_continuity := ContinuityFailed\<rparr>\<rparr>"

definition boundExceededProvenance :: "ia_origin \<Rightarrow> string \<Rightarrow> provenance" where
  "boundExceededProvenance origin originRepr = fail_digest (genesis_provenance origin originRepr [])"

definition beginHop :: "provenance \<Rightarrow> hop \<Rightarrow> string \<Rightarrow> provenance" where
  "beginHop prov h runningDigest =
     (let p1 = prov\<lparr>pv_derived_by := pv_derived_by prov @ [hp_derivation h],
                    pv_lineage := pv_lineage prov @ [pv_authority prov],
                    pv_representation := dv_to (hp_derivation h),
                    pv_visible_role := hp_visible_role h,
                    pv_parent_sha := (if runningDigest \<noteq> [] then runningDigest else pv_parent_sha prov),
                    pv_content_sha := hp_content_digest h\<rparr>
      in if hp_requested h \<noteq> []
         then p1\<lparr>pv_promotion := (pv_promotion p1)\<lparr>pm_attempted := True, pm_requested := hp_requested h,
                                                  pm_endorsement_id := [], pm_promoter := []\<rparr>\<rparr>
         else p1)"

text \<open>None when the hop grants nothing.\<close>

definition grantFromHop :: "provenance \<Rightarrow> hop \<Rightarrow> provenance option" where
  "grantFromHop prov h =
     (case hp_endorsement h of
        None \<Rightarrow> None
      | Some e \<Rightarrow>
          if \<not> hp_endorsement_valid h then None
          else if en_grant_authority e \<noteq> hp_requested h then None
          else case (authorityRank (en_grant_authority e), authorityRank (hp_observed_ceiling h)) of
            (Some grantRank, Some ceilRank) \<Rightarrow>
              if ceilRank < grantRank then None
              else Some (prov\<lparr>pv_authority := en_grant_authority e,
                   pv_promotion := (pv_promotion prov)\<lparr>pm_promoter := en_promoter e,
                       pm_endorsement_id := en_id e, pm_continuity := ContinuityPass\<rparr>,
                   pv_lineage := butlast (pv_lineage prov) @ [en_grant_authority e]\<rparr>)
          | _ \<Rightarrow> None)"

definition digest_broken :: "crypto_env \<Rightarrow> bool \<Rightarrow> string \<Rightarrow> string \<Rightarrow> hop \<Rightarrow> bool" where
  "digest_broken C first runningDigest runningHop h \<longleftrightarrow>
     (runningDigest \<noteq> [] \<and> hp_parent_digest h \<noteq> runningDigest)
     \<or> (runningHop \<noteq> [] \<and> hp_parent_hop_digest h \<noteq> runningHop)
     \<or> ia_digest C (hp_content h) \<noteq> hp_content_digest h
     \<or> hp_hop_digest h \<noteq> hopDigest C h
     \<or> (hp_endorsement_valid h \<and> hp_endorsement h = None)
     \<or> (first \<and> hp_parent_hop_digest h \<noteq> hp_parent_digest h)"

text \<open>What one hop does to the provenance.\<close>

definition fold_hop :: "crypto_env \<Rightarrow> bool \<Rightarrow> string \<Rightarrow> string \<Rightarrow> hop \<Rightarrow> provenance \<Rightarrow> provenance" where
  "fold_hop C first runningDigest runningHop h prov =
     (let p1 = beginHop prov h runningDigest in
      if digest_broken C first runningDigest runningHop h then fail_digest p1
      else if pm_continuity (pv_promotion p1) = ContinuityFailed then p1
      else if hp_requested h = [] then p1
      else (case grantFromHop p1 h of Some p2 \<Rightarrow> p2 | None \<Rightarrow> fail_continuity p1))"

definition next_digest :: "string \<Rightarrow> hop \<Rightarrow> string" where
  "next_digest runningDigest h = (if hp_content_digest h \<noteq> [] then hp_content_digest h else runningDigest)"

definition next_hop_digest :: "crypto_env \<Rightarrow> hop \<Rightarrow> string" where
  "next_hop_digest C h = (if hp_hop_digest h \<noteq> [] then hp_hop_digest h else hopDigest C h)"

fun fold_loop ::
    "crypto_env \<Rightarrow> bool \<Rightarrow> string \<Rightarrow> string \<Rightarrow> hop list \<Rightarrow> provenance \<Rightarrow> provenance \<times> string list" where
  "fold_loop C first rd rh [] prov = (prov, [])"
| "fold_loop C first rd rh (h # hops) prov =
     (case fold_loop C False (next_digest rd h) (next_hop_digest C h) hops (fold_hop C first rd rh h prov) of
        (p, pre) \<Rightarrow> (p, pv_authority prov # pre))"

definition foldTrace :: "crypto_env \<Rightarrow> ia_origin \<Rightarrow> string \<Rightarrow> hop list \<Rightarrow> provenance \<times> string list" where
  "foldTrace C origin originRepr hops =
     (if MaxHistoryHops < length hops then (boundExceededProvenance origin originRepr, [])
      else case hops of
        [] \<Rightarrow> (genesis_provenance origin originRepr [], [])
      | h # _ \<Rightarrow> fold_loop C True (hp_parent_digest h) (hp_parent_hop_digest h) hops
                   (genesis_provenance origin originRepr []))"

definition ia_fold :: "crypto_env \<Rightarrow> ia_origin \<Rightarrow> string \<Rightarrow> hop list \<Rightarrow> provenance" where
  "ia_fold C origin originRepr hops = fst (foldTrace C origin originRepr hops)"

section \<open>Endorsements and transformations\<close>

definition validEndorsement ::
    "endorsement \<Rightarrow> string \<Rightarrow> string \<Rightarrow> string \<Rightarrow> string \<Rightarrow> string \<Rightarrow> string \<Rightarrow> ia_registry \<Rightarrow> bool" where
  "validEndorsement e parentDigest parentAuthority childDigest transformer to requested registry =
     (if en_id e = [] \<or> en_promoter e = [] \<or> en_grant_authority e = [] then False
      else if requested = [] \<or> en_grant_authority e \<noteq> requested then False
      else case registry (en_promoter e) of
        None \<Rightarrow> False
      | Some promoter \<Rightarrow>
          if en_parent_sha e \<noteq> parentDigest then False
          else if en_child_sha e \<noteq> childDigest then False
          else if en_transformer e \<noteq> transformer \<or> en_target e \<noteq> to then False
          else case authorityRank (en_grant_authority e) of
            None \<Rightarrow> False
          | Some grantRank \<Rightarrow>
              (case authorityRank (tp_ceiling promoter) of
                 None \<Rightarrow> False
               | Some ceilRank \<Rightarrow>
                   if ceilRank < grantRank then False
                   else case authorityRank parentAuthority of
                     None \<Rightarrow> False
                   | Some inRank \<Rightarrow> inRank < ceilRank \<and> inRank < grantRank))"

definition new_hop ::
    "crypto_env \<Rightarrow> instruction_object \<Rightarrow> ia_transform \<Rightarrow> endorsement option \<Rightarrow> ia_registry \<Rightarrow> hop" where
  "new_hop C obj t endorse registry =
     (let parentDigest = ia_digest C (ob_content obj);
          parentHop = (if ob_history obj \<noteq> [] then hp_hop_digest (last (ob_history obj)) else parentDigest);
          observed = (case endorse of
                        None \<Rightarrow> []
                      | Some e \<Rightarrow> (case registry (en_promoter e) of None \<Rightarrow> [] | Some p \<Rightarrow> tp_ceiling p));
          childDigest = ia_digest C (tf_new_content t);
          valid = (case endorse of
                     None \<Rightarrow> False
                   | Some e \<Rightarrow> tf_requested t \<noteq> []
                       \<and> validEndorsement e parentDigest (pv_authority (ob_provenance obj)) childDigest
                           (tf_transformer t) (tf_to t) (tf_requested t) registry);
          h = \<lparr>hp_derivation = \<lparr>dv_transformer = tf_transformer t,
                                dv_from = pv_representation (ob_provenance obj),
                                dv_via = tf_via t, dv_to = tf_to t\<rparr>,
               hp_content = tf_new_content t, hp_content_digest = childDigest,
               hp_parent_digest = parentDigest, hp_visible_role = tf_visible_role t,
               hp_requested = tf_requested t, hp_endorsement = endorse, hp_endorsement_valid = valid,
               hp_observed_ceiling = observed, hp_parent_hop_digest = parentHop, hp_hop_digest = []\<rparr>
      in h\<lparr>hp_hop_digest := hopDigest C h\<rparr>)"

definition ApplyTransform ::
    "crypto_env \<Rightarrow> instruction_object \<Rightarrow> ia_transform \<Rightarrow> endorsement option \<Rightarrow> ia_registry \<Rightarrow> instruction_object" where
  "ApplyTransform C obj t endorse registry =
     (if MaxHistoryHops < length (ob_history obj) then obj
      else let history = ob_history obj @ [new_hop C obj t endorse registry];
               prov = ob_provenance obj
           in \<lparr>ob_schema_version = ob_schema_version obj, ob_content = tf_new_content t,
               ob_instruction_bearing = ob_instruction_bearing obj, ob_effect_class = ob_effect_class obj,
               ob_provenance = ia_fold C (pv_origin prov) (pv_representation prov) history,
               ob_history = history, ob_instruction_eligible = False\<rparr>)"

section \<open>Verification and authorization\<close>

definition contentChainBroken :: "crypto_env \<Rightarrow> evaluation_root \<Rightarrow> string \<Rightarrow> hop list \<Rightarrow> bool" where
  "contentChainBroken C rt content hops =
     (if er_content_sha rt = [] then True
      else case hops of
        [] \<Rightarrow> ia_digest C content \<noteq> er_content_sha rt
      | h # _ \<Rightarrow>
          if hp_parent_digest h \<noteq> er_content_sha rt \<or> hp_parent_hop_digest h \<noteq> er_content_sha rt then True
          else ia_digest C content \<noteq> hp_content_digest (last hops))"

definition provenanceEqual :: "provenance \<Rightarrow> provenance \<Rightarrow> bool" where
  "provenanceEqual a b \<longleftrightarrow>
     pv_origin a = pv_origin b \<and> pv_representation a = pv_representation b
     \<and> pv_visible_role a = pv_visible_role b \<and> pv_authority a = pv_authority b
     \<and> pv_content_sha a = pv_content_sha b \<and> pv_parent_sha a = pv_parent_sha b
     \<and> pv_promotion a = pv_promotion b
     \<and> pv_lineage a = pv_lineage b \<and> pv_derived_by a = pv_derived_by b"

datatype ia_error =
    HistoryTooLong
  | ContentNotRoot
  | OriginMismatch
  | ContentChainBroken
  | HopNoEndorsement nat
  | HopContentMismatch nat
  | HopDigestMismatch nat
  | DigestChainBroken
  | ProvenanceMismatch
  | HopVerdictDisagrees nat
  | ContentDigestMismatch
  | ContentNotChain

fun check_hops :: "crypto_env \<Rightarrow> nat \<Rightarrow> hop list \<Rightarrow> ia_error + unit" where
  "check_hops C i [] = Inr ()"
| "check_hops C i (h # hops) =
     (if hp_endorsement_valid h \<and> hp_endorsement h = None then Inl (HopNoEndorsement i)
      else if ia_digest C (hp_content h) \<noteq> hp_content_digest h then Inl (HopContentMismatch i)
      else if hp_hop_digest h \<noteq> hopDigest C h then Inl (HopDigestMismatch i)
      else check_hops C (i + 1) hops)"

definition live_verdict :: "ia_registry \<Rightarrow> string \<Rightarrow> hop \<Rightarrow> bool" where
  "live_verdict registry preAuthority h =
     (case hp_endorsement h of
        None \<Rightarrow> False
      | Some e \<Rightarrow> validEndorsement e (hp_parent_digest h) preAuthority (hp_content_digest h)
                   (dv_transformer (hp_derivation h)) (dv_to (hp_derivation h)) (hp_requested h) registry)"

fun cross_check :: "ia_registry \<Rightarrow> nat \<Rightarrow> hop list \<Rightarrow> string list \<Rightarrow> ia_error + unit" where
  "cross_check registry i (h # hops) (pre # pres) =
     (case hp_endorsement h of
        None \<Rightarrow> if hp_endorsement_valid h then Inl (HopNoEndorsement i) else cross_check registry (i + 1) hops pres
      | Some e \<Rightarrow>
          if live_verdict registry pre h \<noteq> hp_endorsement_valid h then Inl (HopVerdictDisagrees i)
          else cross_check registry (i + 1) hops pres)"
| "cross_check registry i _ _ = Inr ()"

definition VerifyProvenance ::
    "crypto_env \<Rightarrow> instruction_object \<Rightarrow> evaluation_root \<Rightarrow> ia_registry \<Rightarrow> ia_error + unit" where
  "VerifyProvenance C obj rt registry =
     (if MaxHistoryHops < length (ob_history obj) then Inl HistoryTooLong
      else case ob_history obj of
        [] \<Rightarrow>
          if er_content_sha rt = [] \<or> ia_digest C (ob_content obj) \<noteq> er_content_sha rt then Inl ContentNotRoot
          else if \<not> provenanceEqual
                     (genesis_provenance (er_origin rt) (pv_representation (ob_provenance obj)) (er_content_sha rt))
                     (ob_provenance obj)
          then Inl OriginMismatch
          else Inr ()
      | h0 # _ \<Rightarrow>
          if contentChainBroken C rt (ob_content obj) (ob_history obj) then Inl ContentChainBroken
          else case check_hops C 0 (ob_history obj) of
            Inl e \<Rightarrow> Inl e
          | Inr _ \<Rightarrow>
            (case foldTrace C (er_origin rt) (dv_from (hp_derivation h0)) (ob_history obj) of
               (fresh, pre) \<Rightarrow>
                 if pm_digest_failure (pv_promotion fresh) then Inl DigestChainBroken
                 else if \<not> provenanceEqual fresh (ob_provenance obj) then Inl ProvenanceMismatch
                 else case cross_check registry 0 (ob_history obj) pre of
                   Inl e \<Rightarrow> Inl e
                 | Inr _ \<Rightarrow>
                   (let want = hp_content_digest (last (ob_history obj)) in
                    if pv_content_sha (ob_provenance obj) \<noteq> want then Inl ContentDigestMismatch
                    else if ia_digest C (ob_content obj) \<noteq> want then Inl ContentNotChain
                    else Inr ())))"

definition derivedProvenance :: "crypto_env \<Rightarrow> instruction_object \<Rightarrow> evaluation_root \<Rightarrow> provenance" where
  "derivedProvenance C obj rt =
     (if MaxHistoryHops < length (ob_history obj) then boundExceededProvenance (er_origin rt) []
      else let p = (case ob_history obj of
                      [] \<Rightarrow> genesis_provenance (er_origin rt) [] (er_content_sha rt)
                    | h0 # _ \<Rightarrow> ia_fold C (er_origin rt) (dv_from (hp_derivation h0)) (ob_history obj))
           in if contentChainBroken C rt (ob_content obj) (ob_history obj) then fail_digest p else p)"

definition ia_decide :: "provenance \<Rightarrow> evaluation_root \<Rightarrow> bool \<times> string" where
  "ia_decide p rt =
     (if \<not> er_instruction_bearing rt then (False, ''not instruction-bearing content'')
      else if pm_digest_failure (pv_promotion p) then (False, ''digest linkage broken'')
      else if pm_continuity (pv_promotion p) = ContinuityFailed
      then (if pm_attempted (pv_promotion p) then (False, ''authority-expanding instruction'')
            else (False, ''continuity FAILED''))
      else case authorityRank (pv_authority p) of
        None \<Rightarrow> (False, ''unknown authority'')
      | Some rank \<Rightarrow> if rank < 1 then (False, ''insufficient authority'') else (True, ''authorized''))"

definition Authorize :: "crypto_env \<Rightarrow> instruction_object \<Rightarrow> evaluation_root \<Rightarrow> bool \<times> string" where
  "Authorize C obj rt =
     (if MaxHistoryHops < length (ob_history obj) then (False, ''history exceeds bound'')
      else ia_decide (derivedProvenance C obj rt) rt)"

definition describeOrigin :: "ia_origin \<Rightarrow> string" where
  "describeOrigin q =
     (if io_trust_class q = TrustUntrustedMCPResponse then ''untrusted MCP response''
      else if io_trust_class q = TrustTrustedUser then ''trusted user''
      else if io_trust_class q = TrustTrustedDeveloper then ''trusted developer''
      else if io_trust_class q = TrustTrustedSystem then ''trusted system''
      else io_principal q @ '' ('' @ io_trust_class q @ '')'')"

definition DenyEvidence :: "crypto_env \<Rightarrow> instruction_object \<Rightarrow> evaluation_root \<Rightarrow> string list" where
  "DenyEvidence C obj rt =
     (let long = (MaxHistoryHops < length (ob_history obj));
          p = (if long then boundExceededProvenance (er_origin rt) [] else derivedProvenance C obj rt);
          reason = (if long then ''history exceeds bound''
                    else let r = snd (ia_decide p rt) in
                         if r = ''authorized'' then ''insufficient authority'' else r);
          from_auth = (if pv_lineage p \<noteq> [] then last (pv_lineage p) else pv_authority p);
          to_auth = (if pm_requested (pv_promotion p) \<noteq> [] then pm_requested (pv_promotion p) else pv_authority p);
          promoter = (if pm_promoter (pv_promotion p) = [] then ''NONE'' else pm_promoter (pv_promotion p))
      in [''policy_decision=deny  policy_rule=instruction_authority_continuity'',
          ''reason='' @ reason,
          ''argument class '' @ (if er_instruction_bearing rt then ''INSTRUCTION'' else ''DATA'')
            @ ''  effect class '' @ er_effect_class rt,
          ''visible role '' @ pv_visible_role p @ ''  original principal '' @ describeOrigin (pv_origin p),
          ''authority transition '' @ from_auth @ ''->'' @ to_auth,
          ''lineage '' @ join_strings ''->'' (pv_lineage p),
          ''attempted promotion '' @ (if pm_attempted (pv_promotion p) then ''YES'' else ''NO'')
            @ ''  authorized promoter '' @ promoter,
          ''continuity '' @ pm_continuity (pv_promotion p),
          ''observation preserved  authority '' @ pv_authority p,
          ''result NOT_EXECUTED''])"

section \<open>What the fold computes\<close>

text \<open>The log is linked when no hop breaks the digest chain; a hop's request is granted when its
  endorsement was recorded as valid for exactly this request, within the observed ceiling.\<close>

fun linked :: "crypto_env \<Rightarrow> bool \<Rightarrow> string \<Rightarrow> string \<Rightarrow> hop list \<Rightarrow> bool" where
  "linked C first rd rh [] = True"
| "linked C first rd rh (h # hops) =
     (\<not> digest_broken C first rd rh h \<and> linked C False (next_digest rd h) (next_hop_digest C h) hops)"

definition granted_hop :: "hop \<Rightarrow> bool" where
  "granted_hop h \<longleftrightarrow>
     (\<exists>e g c. hp_endorsement h = Some e \<and> hp_endorsement_valid h \<and> en_grant_authority e = hp_requested h
        \<and> authorityRank (hp_requested h) = Some g \<and> authorityRank (hp_observed_ceiling h) = Some c \<and> g \<le> c)"

definition effective :: "string \<Rightarrow> hop \<Rightarrow> string" where
  "effective a h = (if hp_requested h = [] then a else hp_requested h)"

abbreviation failed :: "provenance \<Rightarrow> bool" where
  "failed p \<equiv> pm_continuity (pv_promotion p) = ContinuityFailed"

abbreviation broken :: "provenance \<Rightarrow> bool" where
  "broken p \<equiv> pm_digest_failure (pv_promotion p)"

lemma grantFromHop_None: "grantFromHop p h = None \<longleftrightarrow> \<not> granted_hop h"
  by (auto simp: grantFromHop_def granted_hop_def split: option.splits)

lemma grantFromHop_Some:
  "grantFromHop p h = Some q \<Longrightarrow>
     granted_hop h \<and> pv_authority q = hp_requested h \<and> \<not> failed q \<and> broken q = broken p"
  by (auto simp: grantFromHop_def granted_hop_def ia_consts split: option.splits if_splits)

lemma begin_hop_keeps [simp]:
  "pv_authority (beginHop p h rd) = pv_authority p"
  "pm_continuity (pv_promotion (beginHop p h rd)) = pm_continuity (pv_promotion p)"
  "pm_digest_failure (pv_promotion (beginHop p h rd)) = pm_digest_failure (pv_promotion p)"
  by (simp_all add: beginHop_def Let_def)

lemma fold_hop_broken:
  "broken (fold_hop C first rd rh h p) \<longleftrightarrow> broken p \<or> digest_broken C first rd rh h"
  by (auto simp: fold_hop_def Let_def fail_digest_def fail_continuity_def dest: grantFromHop_Some
      split: option.splits)

lemma fold_hop_failed:
  "failed (fold_hop C first rd rh h p) \<longleftrightarrow>
     failed p \<or> digest_broken C first rd rh h \<or> (hp_requested h \<noteq> [] \<and> \<not> granted_hop h)"
  by (auto simp: fold_hop_def Let_def fail_digest_def fail_continuity_def grantFromHop_None
      dest: grantFromHop_Some split: option.splits)

lemma fold_hop_authority:
  "\<not> failed (fold_hop C first rd rh h p) \<Longrightarrow>
     pv_authority (fold_hop C first rd rh h p) = effective (pv_authority p) h"
  by (auto simp: fold_hop_def Let_def fail_digest_def fail_continuity_def effective_def
      dest: grantFromHop_Some split: option.splits if_splits)

lemma fold_loop_Cons [simp]:
  "fst (fold_loop C first rd rh (h # hops) p) =
     fst (fold_loop C False (next_digest rd h) (next_hop_digest C h) hops (fold_hop C first rd rh h p))"
  "snd (fold_loop C first rd rh (h # hops) p) = pv_authority p #
     snd (fold_loop C False (next_digest rd h) (next_hop_digest C h) hops (fold_hop C first rd rh h p))"
  by (simp_all split: prod.splits)

declare fold_loop.simps(2) [simp del]

lemma fold_loop_broken:
  "broken (fst (fold_loop C first rd rh hops p)) \<longleftrightarrow> broken p \<or> \<not> linked C first rd rh hops"
  by (induction hops arbitrary: first rd rh p) (auto simp: fold_hop_broken)

lemma fold_loop_failed:
  "failed (fst (fold_loop C first rd rh hops p)) \<longleftrightarrow>
     failed p \<or> \<not> linked C first rd rh hops \<or> (\<exists>h\<in>set hops. hp_requested h \<noteq> [] \<and> \<not> granted_hop h)"
proof (induction hops arbitrary: first rd rh p)
  case (Cons h hops)
  show ?case
    using Cons.IH [of False "next_digest rd h" "next_hop_digest C h" "fold_hop C first rd rh h p"]
    by (auto simp: fold_hop_failed)
qed simp

lemma fold_loop_authority:
  assumes "\<not> failed (fst (fold_loop C first rd rh hops p))"
  shows "pv_authority (fst (fold_loop C first rd rh hops p)) = foldl effective (pv_authority p) hops"
  using assms
proof (induction hops arbitrary: first rd rh p)
  case (Cons h hops)
  let ?q = "fold_hop C first rd rh h p"
  let ?l = "fold_loop C False (next_digest rd h) (next_hop_digest C h) hops ?q"
  have nf: "\<not> failed (fst ?l)" using Cons.prems by simp
  then have "\<not> failed ?q" using fold_loop_failed by blast
  then have "pv_authority ?q = effective (pv_authority p) h" by (rule fold_hop_authority)
  then show ?case using Cons.IH [OF nf] by simp
qed simp

text \<open>The log starts at the held digest, is linked, and ends at the content.\<close>

definition history_ok :: "crypto_env \<Rightarrow> evaluation_root \<Rightarrow> string \<Rightarrow> hop list \<Rightarrow> bool" where
  "history_ok C rt content hops \<longleftrightarrow>
     length hops \<le> MaxHistoryHops \<and> \<not> contentChainBroken C rt content hops
     \<and> linked C True (er_content_sha rt) (er_content_sha rt) hops"

definition authority_of :: "evaluation_root \<Rightarrow> hop list \<Rightarrow> string" where
  "authority_of rt hops = foldl effective (ceilingForTrust (io_trust_class (er_origin rt))) hops"

lemma genesis_simps [simp]:
  "pv_authority (genesis_provenance q r s) = ceilingForTrust (io_trust_class q)"
  "\<not> failed (genesis_provenance q r s)" "\<not> broken (genesis_provenance q r s)"
  "pv_origin (genesis_provenance q r s) = q" "pv_representation (genesis_provenance q r s) = r"
  by (simp_all add: genesis_provenance_def clean_promotion_def ia_consts)

lemma fail_digest_simps [simp]:
  "failed (fail_digest p)" "broken (fail_digest p)" "pv_authority (fail_digest p) = pv_authority p"
  by (simp_all add: fail_digest_def)

lemma chain_start:
  "\<not> contentChainBroken C rt content (h # hops) \<Longrightarrow>
     hp_parent_digest h = er_content_sha rt \<and> hp_parent_hop_digest h = er_content_sha rt"
  by (auto simp: contentChainBroken_def split: if_splits)

lemma derived_chain_broken:
  "contentChainBroken C rt (ob_content obj) (ob_history obj) \<Longrightarrow> broken (derivedProvenance C obj rt)"
  by (simp add: derivedProvenance_def Let_def boundExceededProvenance_def)

lemma derived_clean:
  assumes "length (ob_history obj) \<le> MaxHistoryHops"
    and "\<not> contentChainBroken C rt (ob_content obj) (ob_history obj)"
  shows "\<exists>r. derivedProvenance C obj rt =
      (if ob_history obj = [] then genesis_provenance (er_origin rt) r (er_content_sha rt)
       else fst (fold_loop C True (er_content_sha rt) (er_content_sha rt) (ob_history obj)
                   (genesis_provenance (er_origin rt) r [])))"
proof (cases "ob_history obj")
  case Nil
  with assms show ?thesis by (auto simp: derivedProvenance_def)
next
  case (Cons h hs)
  with assms(2) have "hp_parent_digest h = er_content_sha rt" "hp_parent_hop_digest h = er_content_sha rt"
    using chain_start by metis+
  with assms Cons show ?thesis
    by (auto simp: derivedProvenance_def ia_fold_def foldTrace_def not_less)
qed

lemma derived_broken_iff:
  assumes "length (ob_history obj) \<le> MaxHistoryHops"
  shows "broken (derivedProvenance C obj rt) \<longleftrightarrow> \<not> history_ok C rt (ob_content obj) (ob_history obj)"
proof (cases "contentChainBroken C rt (ob_content obj) (ob_history obj)")
  case True
  then show ?thesis using derived_chain_broken by (simp add: history_ok_def)
next
  case False
  from derived_clean [OF assms False] show ?thesis
    using assms False by (auto simp: history_ok_def fold_loop_broken split: if_splits)
qed

lemma derived_state:
  assumes "history_ok C rt (ob_content obj) (ob_history obj)"
  shows "failed (derivedProvenance C obj rt) \<longleftrightarrow>
           (\<exists>h\<in>set (ob_history obj). hp_requested h \<noteq> [] \<and> \<not> granted_hop h)"
    and "\<not> failed (derivedProvenance C obj rt) \<Longrightarrow>
           pv_authority (derivedProvenance C obj rt) = authority_of rt (ob_history obj)"
proof -
  from assms have ok: "length (ob_history obj) \<le> MaxHistoryHops"
      "\<not> contentChainBroken C rt (ob_content obj) (ob_history obj)"
      "linked C True (er_content_sha rt) (er_content_sha rt) (ob_history obj)"
    by (simp_all add: history_ok_def)
  from derived_clean [OF ok(1,2)] obtain r where d: "derivedProvenance C obj rt =
      (if ob_history obj = [] then genesis_provenance (er_origin rt) r (er_content_sha rt)
       else fst (fold_loop C True (er_content_sha rt) (er_content_sha rt) (ob_history obj)
                   (genesis_provenance (er_origin rt) r [])))" by blast
  show "failed (derivedProvenance C obj rt) \<longleftrightarrow>
           (\<exists>h\<in>set (ob_history obj). hp_requested h \<noteq> [] \<and> \<not> granted_hop h)"
    using d ok(3) by (auto simp: fold_loop_failed split: if_splits)
  show "\<not> failed (derivedProvenance C obj rt) \<Longrightarrow>
           pv_authority (derivedProvenance C obj rt) = authority_of rt (ob_history obj)"
    using d by (auto simp: fold_loop_authority authority_of_def split: if_splits)
qed

section \<open>Objects built by transformations\<close>

definition fold_steps ::
    "crypto_env \<Rightarrow> ia_registry \<Rightarrow> instruction_object \<Rightarrow> (ia_transform \<times> endorsement option) list \<Rightarrow> instruction_object" where
  "fold_steps C registry obj steps = foldl (\<lambda>x (t, endorse). ApplyTransform C x t endorse registry) obj steps"

lemma fold_hop_repr: "fold_hop C first rd rh h (p\<lparr>pv_representation := r\<rparr>) = fold_hop C first rd rh h p"
proof -
  have "beginHop (p\<lparr>pv_representation := r\<rparr>) h rd = beginHop p h rd" by (simp add: beginHop_def Let_def)
  then show ?thesis by (simp add: fold_hop_def)
qed

lemma fold_loop_repr:
  assumes "hops \<noteq> []"
  shows "fold_loop C first rd rh hops (genesis_provenance q r s) = fold_loop C first rd rh hops (genesis_provenance q r' s)"
proof -
  have g: "genesis_provenance q r s = (genesis_provenance q r' s)\<lparr>pv_representation := r\<rparr>"
    by (simp add: genesis_provenance_def)
  obtain h hs where "hops = h # hs" using assms by (cases hops) auto
  then show ?thesis by (simp add: fold_loop.simps(2) g fold_hop_repr)
qed

lemma fold_loop_snoc:
  "fst (fold_loop C first rd rh (hops @ [h]) p) =
     fold_hop C (first \<and> hops = []) (foldl next_digest rd hops) (foldl (\<lambda>_. next_hop_digest C) rh hops) h
       (fst (fold_loop C first rd rh hops p))"
  "snd (fold_loop C first rd rh (hops @ [h]) p) =
     snd (fold_loop C first rd rh hops p) @ [pv_authority (fst (fold_loop C first rd rh hops p))]"
  by (induction hops arbitrary: first rd rh p) simp_all

lemma linked_snoc:
  "linked C first rd rh (hops @ [h]) \<longleftrightarrow> linked C first rd rh hops
     \<and> \<not> digest_broken C (first \<and> hops = []) (foldl next_digest rd hops) (foldl (\<lambda>_. next_hop_digest C) rh hops) h"
  by (induction hops arbitrary: first rd rh) auto

lemma linked_hop:
  assumes "linked C first rd rh hops" and "h \<in> set hops"
  shows "hp_content_digest h = ia_digest C (hp_content h)" and "hp_hop_digest h = hopDigest C h"
    and "hp_endorsement_valid h \<Longrightarrow> hp_endorsement h \<noteq> None"
  using assms by (induction hops arbitrary: first rd rh) (auto simp: digest_broken_def)

lemma digest_not_Nil [simp]: "ia_digest C x \<noteq> []" "hopDigest C h \<noteq> []"
  by (simp_all add: ia_digest_def hopDigest_def)

lemma running_digests:
  assumes "linked C first rd rh hops" and "hops \<noteq> []"
  shows "foldl next_digest rd hops = hp_content_digest (last hops)"
    and "foldl (\<lambda>_. next_hop_digest C) rh hops = hp_hop_digest (last hops)"
proof -
  obtain xs l where x: "hops = xs @ [l]" using assms(2) by (cases hops rule: rev_cases) auto
  then have "hp_content_digest l \<noteq> []" "hp_hop_digest l \<noteq> []"
    using linked_hop(1,2) [OF assms(1), of l] by simp_all
  then show "foldl next_digest rd hops = hp_content_digest (last hops)"
    and "foldl (\<lambda>_. next_hop_digest C) rh hops = hp_hop_digest (last hops)"
    using x by (simp_all add: next_digest_def next_hop_digest_def)
qed

lemma fold_hop_keeps:
  "pv_origin (fold_hop C first rd rh h p) = pv_origin p"
  "pv_content_sha (fold_hop C first rd rh h p) = hp_content_digest h"
  by (auto simp: fold_hop_def beginHop_def Let_def fail_digest_def fail_continuity_def grantFromHop_def
      split: option.splits if_splits)

lemma fold_loop_origin: "pv_origin (fst (fold_loop C first rd rh hops p)) = pv_origin p"
  by (induction hops arbitrary: first rd rh p) (auto simp: fold_hop_keeps)

lemma fold_loop_sha:
  assumes "hops \<noteq> []"
  shows "pv_content_sha (fst (fold_loop C first rd rh hops p)) = hp_content_digest (last hops)"
proof -
  obtain xs l where "hops = xs @ [l]" using assms by (cases hops rule: rev_cases) auto
  then show ?thesis by (simp add: fold_loop_snoc fold_hop_keeps)
qed

lemma check_hops_linked: "linked C first rd rh hops \<Longrightarrow> check_hops C i hops = Inr ()"
  by (induction hops arbitrary: first rd rh i) (auto simp: digest_broken_def)

lemma cross_check_ok:
  "list_all2 (\<lambda>h a. live_verdict registry a h = hp_endorsement_valid h) hops pre \<Longrightarrow>
     cross_check registry i hops pre = Inr ()"
  by (induction hops pre arbitrary: i rule: list_all2_induct)
     (auto simp: live_verdict_def split: option.splits)

lemma new_hop_simps [simp]:
  "hp_content_digest (new_hop C obj t en reg) = ia_digest C (tf_new_content t)"
  "hp_content (new_hop C obj t en reg) = tf_new_content t"
  "hp_parent_digest (new_hop C obj t en reg) = ia_digest C (ob_content obj)"
  "hp_parent_hop_digest (new_hop C obj t en reg) =
     (if ob_history obj \<noteq> [] then hp_hop_digest (last (ob_history obj)) else ia_digest C (ob_content obj))"
  "hp_hop_digest (new_hop C obj t en reg) = hopDigest C (new_hop C obj t en reg)"
  "hp_endorsement (new_hop C obj t en reg) = en"
  "hp_requested (new_hop C obj t en reg) = tf_requested t"
  "hp_endorsement_valid (new_hop C obj t en reg) \<longleftrightarrow>
     live_verdict reg (pv_authority (ob_provenance obj)) (new_hop C obj t en reg)"
  by (auto simp: new_hop_def Let_def hopDigest_def hop_bytes_def live_verdict_def validEndorsement_def
      split: option.splits)

text \<open>What every object made from an origin object by transformations satisfies.\<close>

definition honest :: "crypto_env \<Rightarrow> ia_registry \<Rightarrow> evaluation_root \<Rightarrow> instruction_object \<Rightarrow> bool" where
  "honest C registry rt obj \<longleftrightarrow>
     (let hops = ob_history obj;
          l = (\<lambda>r. fold_loop C True (er_content_sha rt) (er_content_sha rt) hops (genesis_provenance (er_origin rt) r []))
      in pv_origin (ob_provenance obj) = er_origin rt
         \<and> history_ok C rt (ob_content obj) hops
         \<and> (hops = [] \<longrightarrow> ob_provenance obj =
              genesis_provenance (er_origin rt) (pv_representation (ob_provenance obj)) (er_content_sha rt))
         \<and> (hops \<noteq> [] \<longrightarrow> ob_provenance obj = fst (l []))
         \<and> list_all2 (\<lambda>h a. live_verdict registry a h = hp_endorsement_valid h) hops (snd (l [])))"

lemma honest_origin:
  assumes "er_origin rt = origin" and "er_content_sha rt = ia_digest C content"
  shows "honest C registry rt (NewOriginObject C content origin r e b)"
  using assms
  by (simp add: honest_def NewOriginObject_def history_ok_def contentChainBroken_def Let_def)

lemma honest_verifies:
  assumes "honest C registry rt obj"
  shows "VerifyProvenance C obj rt registry = Inr ()"
proof (cases "ob_history obj")
  case Nil
  with assms show ?thesis
    by (auto simp: honest_def VerifyProvenance_def history_ok_def contentChainBroken_def
        provenanceEqual_def Let_def split: if_splits)
next
  case (Cons h0 hs)
  let ?l = "\<lambda>r. fold_loop C True (er_content_sha rt) (er_content_sha rt) (ob_history obj)
             (genesis_provenance (er_origin rt) r [])"
  from assms Cons have ok: "history_ok C rt (ob_content obj) (ob_history obj)"
    and prov: "ob_provenance obj = fst (?l [])"
    and ver: "list_all2 (\<lambda>h a. live_verdict registry a h = hp_endorsement_valid h) (ob_history obj) (snd (?l []))"
    by (simp_all add: honest_def Let_def)
  from ok have len: "length (ob_history obj) \<le> MaxHistoryHops"
    and chain: "\<not> contentChainBroken C rt (ob_content obj) (ob_history obj)"
    and lk: "linked C True (er_content_sha rt) (er_content_sha rt) (ob_history obj)"
    by (simp_all add: history_ok_def)
  have ft: "foldTrace C (er_origin rt) r (ob_history obj) = ?l []" for r
    using len chain_start [of C rt "ob_content obj" h0 hs] chain Cons fold_loop_repr [of "ob_history obj"]
    by (simp add: foldTrace_def not_less)
  have "\<not> broken (fst (?l []))" using lk by (simp add: fold_loop_broken)
  moreover have "pv_content_sha (fst (?l [])) = hp_content_digest (last (ob_history obj))"
    using Cons by (intro fold_loop_sha) simp
  moreover have "ia_digest C (ob_content obj) = hp_content_digest (last (ob_history obj))"
    using chain Cons by (auto simp: contentChainBroken_def split: if_splits)
  moreover have "cross_check registry 0 (ob_history obj) (snd (?l [])) = Inr ()"
    by (rule cross_check_ok [OF ver])
  moreover have "check_hops C 0 (ob_history obj) = Inr ()" by (rule check_hops_linked [OF lk])
  moreover have "provenanceEqual (fst (?l [])) (ob_provenance obj)"
    using prov by (simp add: provenanceEqual_def)
  ultimately show ?thesis
    using len chain ft [of "dv_from (hp_derivation h0)"] prov Cons
    by (simp add: VerifyProvenance_def not_less case_prod_beta
        del: check_hops.simps cross_check.simps fold_loop_Cons)
qed

lemma honest_hop_linked:
  assumes "honest C registry rt obj"
  shows "\<not> digest_broken C (ob_history obj = []) (foldl next_digest (er_content_sha rt) (ob_history obj))
           (foldl (\<lambda>_. next_hop_digest C) (er_content_sha rt) (ob_history obj)) (new_hop C obj t en registry)"
proof -
  from assms have ok: "history_ok C rt (ob_content obj) (ob_history obj)" by (simp add: honest_def Let_def)
  have v: "hp_endorsement_valid (new_hop C obj t en registry) \<Longrightarrow> en \<noteq> None"
    by (cases en) (simp_all add: live_verdict_def)
  show ?thesis
  proof (cases "ob_history obj = []")
    case True
    with ok have "ia_digest C (ob_content obj) = er_content_sha rt"
      by (auto simp: history_ok_def contentChainBroken_def split: if_splits)
    with True v show ?thesis by (auto simp: digest_broken_def)
  next
    case False
    from ok have lk: "linked C True (er_content_sha rt) (er_content_sha rt) (ob_history obj)"
      and "\<not> contentChainBroken C rt (ob_content obj) (ob_history obj)" by (simp_all add: history_ok_def)
    then have "hp_content_digest (last (ob_history obj)) = ia_digest C (ob_content obj)"
      using False by (auto simp: contentChainBroken_def split: if_splits list.splits)
    with running_digests [OF lk False] False v show ?thesis by (auto simp: digest_broken_def)
  qed
qed

lemma honest_step:
  assumes h: "honest C registry rt obj" and len: "length (ob_history obj) < MaxHistoryHops"
  shows "honest C registry rt (ApplyTransform C obj t en registry)"
proof -
  let ?n = "new_hop C obj t en registry" and ?H = "ob_history obj" and ?s = "er_content_sha rt"
  let ?g = "genesis_provenance (er_origin rt) [] []"
  let ?l = "fold_loop C True ?s ?s ?H ?g" and ?l' = "fold_loop C True ?s ?s (?H @ [?n]) ?g"
  from h have og: "pv_origin (ob_provenance obj) = er_origin rt"
    and ok: "history_ok C rt (ob_content obj) ?H"
    and g: "?H = [] \<Longrightarrow> ob_provenance obj = genesis_provenance (er_origin rt) (pv_representation (ob_provenance obj)) ?s"
    and p: "?H \<noteq> [] \<Longrightarrow> ob_provenance obj = fst ?l"
    and ver: "list_all2 (\<lambda>h a. live_verdict registry a h = hp_endorsement_valid h) ?H (snd ?l)"
    by (auto simp: honest_def Let_def)
  have auth: "pv_authority (ob_provenance obj) = pv_authority (fst ?l)"
    using g p by (cases "?H = []") (metis fold_loop.simps(1) fst_conv genesis_simps(1), simp)
  have chain: "\<not> contentChainBroken C rt (tf_new_content t) (?H @ [?n])"
    using ok by (cases ?H) (auto simp: history_ok_def contentChainBroken_def split: if_splits)
  have start: "hp_parent_digest (hd (?H @ [?n])) = ?s" "hp_parent_hop_digest (hd (?H @ [?n])) = ?s"
    using chain_start [of C rt "tf_new_content t" "hd (?H @ [?n])" "List.tl (?H @ [?n])"] chain by simp_all
  have "linked C True ?s ?s (?H @ [?n])"
    using ok honest_hop_linked [OF h] by (simp add: linked_snoc history_ok_def)
  then have ok': "history_ok C rt (tf_new_content t) (?H @ [?n])"
    using chain len by (simp add: history_ok_def)
  have "ia_fold C (er_origin rt) r (?H @ [?n]) = fst ?l'" for r
  proof -
    obtain x xs where c: "?H @ [?n] = x # xs" by (cases "?H @ [?n]") auto
    with start have "hp_parent_digest x = ?s" "hp_parent_hop_digest x = ?s" by simp_all
    moreover have "\<not> MaxHistoryHops < length (x # xs)" using len arg_cong [OF c, of length] by simp
    ultimately show ?thesis
      using fold_loop_repr [of "x # xs" C True ?s ?s "er_origin rt" r "[]" "[]"] c
      by (simp add: ia_fold_def foldTrace_def del: fold_loop_Cons)
  qed
  moreover have "list_all2 (\<lambda>h a. live_verdict registry a h = hp_endorsement_valid h) (?H @ [?n]) (snd ?l')"
    using ver auth by (simp add: fold_loop_snoc list_all2_appendI)
  ultimately show ?thesis
    using ok' len og by (simp add: honest_def ApplyTransform_def Let_def fold_loop_origin)
qed

lemma honest_fold_steps:
  assumes "honest C registry rt obj" and "length (ob_history obj) + length steps \<le> MaxHistoryHops"
  shows "honest C registry rt (fold_steps C registry obj steps)"
  using assms
proof (induction steps arbitrary: obj)
  case Nil
  then show ?case by (simp add: fold_steps_def)
next
  case (Cons st steps)
  obtain t en where st: "st = (t, en)" by (cases st)
  from Cons.prems have "honest C registry rt (ApplyTransform C obj t en registry)"
    by (intro honest_step) simp_all
  moreover have "length (ob_history (ApplyTransform C obj t en registry)) = Suc (length (ob_history obj))"
    using Cons.prems by (simp add: ApplyTransform_def Let_def)
  ultimately show ?case using Cons.IH [of "ApplyTransform C obj t en registry"] Cons.prems(2) st
    by (simp add: fold_steps_def)
qed

section \<open>Properties\<close>

lemma authorize_unfold:
  "fst (Authorize C obj rt) \<longleftrightarrow>
     length (ob_history obj) \<le> MaxHistoryHops \<and> er_instruction_bearing rt
     \<and> \<not> broken (derivedProvenance C obj rt) \<and> \<not> failed (derivedProvenance C obj rt)
     \<and> (\<exists>k. authorityRank (pv_authority (derivedProvenance C obj rt)) = Some k \<and> 1 \<le> k)"
  by (auto simp: Authorize_def ia_decide_def not_less split: option.splits)

lemma rank_at_least_user: "(\<exists>k. authorityRank a = Some k \<and> 1 \<le> k) \<longleftrightarrow> authorityRank a \<in> {Some 1, Some 2, Some 3}"
  by (auto simp: authorityRank_def)

lemma authorize_implies:
  assumes "fst (Authorize C obj rt)"
  shows "history_ok C rt (ob_content obj) (ob_history obj)"
    and "h \<in> set (ob_history obj) \<Longrightarrow> hp_requested h = [] \<or> granted_hop h"
    and "authorityRank (authority_of rt (ob_history obj)) \<in> {Some 1, Some 2, Some 3}"
  using assms derived_broken_iff [of obj C rt] derived_state [of C rt obj]
  unfolding authorize_unfold rank_at_least_user by auto


lemma authority_without_requests:
  "\<forall>h\<in>set hops. hp_requested h = [] \<Longrightarrow> foldl effective a hops = a"
  by (induction hops arbitrary: a) (auto simp: effective_def)

text \<open>Laundering is denied. Content from a source that is not a trusted user, developer or
  system is never executed, whatever summaries, memories, roles, requests or handoffs it went
  through, as long as no hop of its log carries an endorsement.\<close>

theorem laundering_denied:
  assumes "ceilingForTrust (io_trust_class (er_origin rt)) = AuthorityDataOnly"
    and "list_all (\<lambda>h. hp_endorsement h = None) (ob_history obj)"
  shows "\<not> fst (Authorize C obj rt)"
proof
  assume a: "fst (Authorize C obj rt)"
  with assms(2) have "\<forall>h\<in>set (ob_history obj). hp_requested h = []"
    using authorize_implies(2) [of C obj rt] by (auto simp: list_all_iff granted_hop_def)
  then have "authority_of rt (ob_history obj) = AuthorityDataOnly"
    using assms(1) by (simp add: authority_of_def authority_without_requests)
  with authorize_implies(3) [OF a] show False by (simp add: authorityRank_def)
qed

definition laundered :: instruction_object where
  "laundered = fold_steps example_crypto Map.empty
     (NewOriginObject example_crypto ''deploy now'' \<lparr>io_principal = ''mcp:out'', io_trust_class = TrustUntrustedMCPResponse\<rparr>
        ''MCP_OUTPUT'' ''DEPLOY'' True)
     [(\<lparr>tf_transformer = ''summarizer'', tf_to = ''AGENT_SUMMARY'', tf_via = [], tf_visible_role = ''USER'',
        tf_requested = [], tf_new_content = ''summary: deploy''\<rparr>, None),
      (\<lparr>tf_transformer = ''handoff'', tf_to = ''SECOND_AGENT_MESSAGE'', tf_via = [], tf_visible_role = ''SYSTEM'',
        tf_requested = ''USER'', tf_new_content = ''deploy''\<rparr>, None)]"

definition laundered_root :: evaluation_root where
  "laundered_root = \<lparr>er_origin = \<lparr>io_principal = ''mcp:out'', io_trust_class = TrustUntrustedMCPResponse\<rparr>,
     er_instruction_bearing = True, er_effect_class = ''DEPLOY'',
     er_content_sha = ia_digest example_crypto ''deploy now''\<rparr>"

theorem laundering_denied_witness:
  "length (ob_history laundered) = 2 \<and> \<not> fst (Authorize example_crypto laundered laundered_root)"
proof
  show "length (ob_history laundered) = 2" by code_simp
  show "\<not> fst (Authorize example_crypto laundered laundered_root)"
    by (rule laundering_denied, code_simp, code_simp)
qed

text \<open>Objects made by the package's own operations verify: an origin object sent through at
  most eight transformations, with whatever endorsements were offered (accepted or not), passes
  VerifyProvenance against its root and the registry that judged the endorsements.\<close>

theorem honest_object_verifies:
  assumes "length steps \<le> MaxHistoryHops"
    and "er_origin rt = origin" and "er_content_sha rt = ia_digest C content"
  shows "VerifyProvenance C (fold_steps C registry (NewOriginObject C content origin r e b) steps) rt registry = Inr ()"
proof (rule honest_verifies, rule honest_fold_steps)
  show "honest C registry rt (NewOriginObject C content origin r e b)"
    using assms(2,3) by (rule honest_origin)
qed (use assms(1) in \<open>simp add: NewOriginObject_def\<close>)

theorem honest_object_verifies_witness:
  "VerifyProvenance example_crypto laundered laundered_root Map.empty = Inr ()"
  unfolding laundered_def
  by (rule honest_object_verifies) (simp_all add: MaxHistoryHops_def laundered_root_def)

lemma verify_nonempty:
  assumes "VerifyProvenance C obj rt registry = Inr ()" and "ob_history obj = h0 # hs"
  shows "length (ob_history obj) \<le> MaxHistoryHops"
    and "\<not> contentChainBroken C rt (ob_content obj) (ob_history obj)"
    and "provenanceEqual (ia_fold C (er_origin rt) (dv_from (hp_derivation h0)) (ob_history obj)) (ob_provenance obj)"
  using assms
  by (auto simp: VerifyProvenance_def ia_fold_def not_less Let_def simp del: check_hops.simps
      cross_check.simps split: if_splits sum.splits prod.splits)

lemma decide_cong:
  "pv_promotion p = pv_promotion q \<Longrightarrow> pv_authority p = pv_authority q \<Longrightarrow> ia_decide p rt = ia_decide q rt"
  by (simp add: ia_decide_def)

text \<open>Verification and authorization read the same provenance: once an object verifies, what
  Authorize decides is what the provenance recorded on the object says. Neither the claimed
  authority nor the promotion record of a verified object can differ from the log.\<close>

theorem verified_authorize:
  assumes "VerifyProvenance C obj rt registry = Inr ()"
  shows "Authorize C obj rt = ia_decide (ob_provenance obj) rt"
proof (cases "ob_history obj")
  case Nil
  with assms have "provenanceEqual (genesis_provenance (er_origin rt) (pv_representation (ob_provenance obj))
        (er_content_sha rt)) (ob_provenance obj)"
    and "\<not> contentChainBroken C rt (ob_content obj) []"
    by (auto simp: VerifyProvenance_def contentChainBroken_def split: if_splits)
  then show ?thesis using Nil
    by (auto simp: Authorize_def derivedProvenance_def provenanceEqual_def genesis_provenance_def intro: decide_cong)
next
  case (Cons h0 hs)
  from verify_nonempty [OF assms Cons] Cons show ?thesis
    by (auto simp: Authorize_def derivedProvenance_def provenanceEqual_def not_less intro: decide_cong)
qed

theorem verified_authorize_witness:
  "Authorize example_crypto laundered laundered_root = ia_decide (ob_provenance laundered) laundered_root"
  by (rule verified_authorize [where registry = Map.empty]) code_simp

text \<open>The bytes hashed for a hop determine every field of the hop but its digest: rewriting an
  endorsement, a verdict, a ceiling, a role or a parent changes the hashed input.\<close>

theorem hop_bytes_injective:
  assumes "hop_bytes g = hop_bytes h"
  shows "g\<lparr>hp_hop_digest := hp_hop_digest h\<rparr> = h"
proof -
  have fields: "[hp_parent_digest g, hp_content_digest g, hp_content g, hp_visible_role g, hp_requested g,
         hp_parent_hop_digest g, hp_observed_ceiling g, (if hp_endorsement_valid g then ''1'' else ''0'')]
        @ endorsement_fields (hp_endorsement g)
        @ [dv_transformer (hp_derivation g), dv_from (hp_derivation g), dv_via (hp_derivation g),
           dv_to (hp_derivation g)] =
      [hp_parent_digest h, hp_content_digest h, hp_content h, hp_visible_role h, hp_requested h,
         hp_parent_hop_digest h, hp_observed_ceiling h, (if hp_endorsement_valid h then ''1'' else ''0'')]
        @ endorsement_fields (hp_endorsement h)
        @ [dv_transformer (hp_derivation h), dv_from (hp_derivation h), dv_via (hp_derivation h),
           dv_to (hp_derivation h)]"
    by (rule fields_inj) (use assms in \<open>simp only: hop_bytes_def\<close>)
  then have "hp_endorsement_valid g = hp_endorsement_valid h" by (simp split: if_splits)
  moreover have "hp_endorsement g = hp_endorsement h \<and> hp_derivation g = hp_derivation h"
    using fields by (auto simp: endorsement_fields_def split: option.splits)
  ultimately show ?thesis using fields by simp
qed

theorem hop_bytes_injective_witness:
  "hop_bytes (last (ob_history laundered)) \<noteq> hop_bytes ((last (ob_history laundered))\<lparr>hp_visible_role := ''USER''\<rparr>)"
proof
  let ?h = "last (ob_history laundered)"
  assume "hop_bytes ?h = hop_bytes (?h\<lparr>hp_visible_role := ''USER''\<rparr>)"
  from arg_cong [OF hop_bytes_injective [OF this], of hp_visible_role]
  have "hp_visible_role ?h = ''USER''" by simp
  moreover have "hp_visible_role ?h = ''SYSTEM''" by code_simp
  ultimately show False by simp
qed

end
