(* ===== verification/Instruction_Assertion.thy ===== *)
theory Instruction_Assertion
  imports Instruction_Authority Session Policy_Loader
begin

text \<open>
  The signed assertion that binds an instruction object to one request
  (\<^verbatim>\<open>src/internal/proxy/instruction_authority_auth.go\<close>) and the gate of tools_call.go that uses it. The
  JSON encodings, the signature check and the decoding of the envelope are parameters (sign_env and
  the fields of ia_input); the structural checks, the bindings, the expiry and the nonce are modelled.
\<close>

record assertion =
  as_schema_version :: int
  as_key_id :: string
  as_session_id :: string
  as_client_id :: string
  as_logical_server :: string
  as_tool_name :: string
  as_request_sha :: string
  as_envelope_sha :: string
  as_nonce :: string
  as_issued_at :: int
  as_expires_at :: int
  as_signature :: string

record ia_envelope =
  ev_object :: instruction_object
  ev_root :: evaluation_root
  ev_assertion :: "assertion option"

record sign_env =
  sg_sha256 :: "string \<Rightarrow> string"
  sg_marshal_envelope :: "instruction_object \<Rightarrow> evaluation_root \<Rightarrow> string"
  sg_signing_bytes :: "assertion \<Rightarrow> string"
  sg_verify :: "string \<Rightarrow> string \<Rightarrow> string \<Rightarrow> bool"

definition instructionAuthorityMaxLifetimeSecs :: int where "instructionAuthorityMaxLifetimeSecs = 60"
definition instructionAuthorityMaxFutureSkew :: int where "instructionAuthorityMaxFutureSkew = 5"

text \<open>The unpadded base64url strings that decode to 64 bytes and encode back to themselves: 86
  digits, the last of which carries only two data bits.\<close>

definition canonical_sig64 :: "string \<Rightarrow> bool" where
  "canonical_sig64 enc \<longleftrightarrow>
     length enc = 86 \<and> list_all (\<lambda>c. base64url_value c \<noteq> None) enc
     \<and> (case base64url_value (last enc) of Some v \<Rightarrow> v mod 16 = 0 | None \<Rightarrow> False)"

text \<open>Keys that do not decode are skipped.\<close>

definition decodeInstructionAuthorityKeys :: "(string \<times> string) list \<Rightarrow> (string \<rightharpoonup> string)" where
  "decodeInstructionAuthorityKeys keys =
     map_of (filter (\<lambda>(i, enc). instructionAuthorityKeyIDRe i \<and> canonical_key32 enc) keys)"

definition instructionAuthorityEnvelopeSHA256 :: "sign_env \<Rightarrow> ia_envelope \<Rightarrow> string" where
  "instructionAuthorityEnvelopeSHA256 G env = ''sha256:'' @ sg_sha256 G (sg_marshal_envelope G (ev_object env) (ev_root env))"

definition trim_newline :: "string \<Rightarrow> string" where
  "trim_newline s = (if s \<noteq> [] \<and> last s = CHR 0x0A then butlast s else s)"

definition instructionAuthorityRequestSHA256 :: "sign_env \<Rightarrow> string \<Rightarrow> string" where
  "instructionAuthorityRequestSHA256 G raw = ''sha256:'' @ sg_sha256 G (trim_newline raw)"

text \<open>The empty string when the assertion is well formed.\<close>

definition structuralInstructionAuthorityAssertion :: "assertion option \<Rightarrow> int \<Rightarrow> string" where
  "structuralInstructionAuthorityAssertion ao nowUnix =
     (case ao of
        None \<Rightarrow> ''instruction authority assertion missing''
      | Some a \<Rightarrow>
          if as_schema_version a \<noteq> 1
             \<or> as_key_id a = [] \<or> as_session_id a = [] \<or> as_client_id a = []
             \<or> as_logical_server a = [] \<or> as_tool_name a = []
             \<or> as_request_sha a = [] \<or> as_envelope_sha a = []
             \<or> as_nonce a = [] \<or> as_signature a = []
             \<or> \<not> instructionAuthorityKeyIDRe (as_key_id a)
             \<or> \<not> serverAttestationDigestRe (as_request_sha a)
             \<or> \<not> serverAttestationDigestRe (as_envelope_sha a)
             \<or> as_issued_at a \<le> 0
             \<or> as_expires_at a \<le> as_issued_at a
             \<or> instructionAuthorityMaxLifetimeSecs < as_expires_at a - as_issued_at a
             \<or> nowUnix + instructionAuthorityMaxFutureSkew < as_issued_at a
          then ''instruction authority assertion malformed''
          else if \<not> canonical_key32 (as_nonce a) then ''instruction authority assertion malformed''
          else if \<not> canonical_sig64 (as_signature a) then ''instruction authority assertion malformed''
          else [])"

text \<open>The empty string when the assertion holds for this request; the nonce is consumed last.\<close>

definition verifyInstructionAuthorityAssertion ::
    "sign_env \<Rightarrow> (string \<rightharpoonup> string) \<Rightarrow> int \<Rightarrow> ia_envelope \<Rightarrow> string \<Rightarrow> string \<Rightarrow> string \<Rightarrow> session \<Rightarrow> string \<times> session" where
  "verifyInstructionAuthorityAssertion G keys nowUnix env stripped toolName serverName s =
     (let reason = structuralInstructionAuthorityAssertion (ev_assertion env) nowUnix in
      if reason \<noteq> [] then (reason, s)
      else case ev_assertion env of
        None \<Rightarrow> (''instruction authority assertion missing'', s)
      | Some a \<Rightarrow>
        (case keys (as_key_id a) of
           None \<Rightarrow> (''instruction authority assertion key unknown'', s)
         | Some pub \<Rightarrow>
             if \<not> sg_verify G pub (sg_signing_bytes G a) (as_signature a)
             then (''instruction authority assertion signature invalid'', s)
             else if as_expires_at a \<le> nowUnix then (''instruction authority assertion expired'', s)
             else if as_session_id a \<noteq> ses_id s then (''instruction authority assertion session mismatch'', s)
             else if as_client_id a \<noteq> ses_client_id s then (''instruction authority assertion client mismatch'', s)
             else if as_logical_server a \<noteq> serverName then (''instruction authority assertion server mismatch'', s)
             else if as_tool_name a \<noteq> toolName then (''instruction authority assertion tool mismatch'', s)
             else if as_request_sha a \<noteq> instructionAuthorityRequestSHA256 G stripped
             then (''instruction authority assertion request hash mismatch'', s)
             else if as_envelope_sha a \<noteq> instructionAuthorityEnvelopeSHA256 G env
             then (''instruction authority assertion envelope hash mismatch'', s)
             else (case ConsumeInstructionAuthorityNonce (as_nonce a) (as_expires_at a) nowUnix s of
                     (True, s') \<Rightarrow> ([], s')
                   | (False, s') \<Rightarrow> (''instruction authority assertion replayed'', s'))))"

text \<open>What classifyInstructionAuthorityEnvelope and instructionAuthorityStrip make of the bytes of
  one request: an error text or the envelope, and the request without it (None on an error).\<close>

record ia_input =
  ii_envelope :: "string + ia_envelope"
  ii_stripped :: "string option"

text \<open>The gate: whether the call goes on, the reason when not, and the session after it. None
  stands for a proxy in which the gate is not installed.\<close>

definition instruction_gate ::
    "crypto_env \<Rightarrow> sign_env \<Rightarrow> (string \<rightharpoonup> string) option \<Rightarrow> int \<Rightarrow> ia_input \<Rightarrow> string \<Rightarrow> string \<Rightarrow> session \<Rightarrow> (bool \<times> string) \<times> session" where
  "instruction_gate C G keys nowUnix inp toolName serverName s =
     (case keys of
        None \<Rightarrow> ((True, []), s)
      | Some ks \<Rightarrow>
        (case ii_envelope inp of
           Inl classErr \<Rightarrow> ((False, classErr), s)
         | Inr env \<Rightarrow>
             if ev_assertion env = None then ((False, ''instruction authority assertion missing''), s)
             else (case ii_stripped inp of
               None \<Rightarrow> ((False, ''instruction authority metadata strip failed''), s)
             | Some stripped \<Rightarrow>
                 (case verifyInstructionAuthorityAssertion G ks nowUnix env stripped toolName serverName s of
                    (bindErr, s') \<Rightarrow>
                      if bindErr \<noteq> [] then ((False, bindErr), s')
                      else (Authorize C (ev_object env) (ev_root env), s')))))"

definition syncInstructionAuthorize :: "policy \<Rightarrow> (string \<rightharpoonup> string) option" where
  "syncInstructionAuthorize pol =
     (if set_instruction_authority_continuity (pol_settings pol)
      then Some (decodeInstructionAuthorityKeys (set_instruction_authority_keys (pol_settings pol)))
      else None)"

section \<open>What a verified assertion guarantees\<close>

lemma structural_ok:
  assumes "structuralInstructionAuthorityAssertion ao now = []"
  obtains a where "ao = Some a" and "as_issued_at a \<le> now + 5" and "as_expires_at a \<le> as_issued_at a + 60"
proof (cases ao)
  case None
  with assms show ?thesis by (simp add: structuralInstructionAuthorityAssertion_def)
next
  case (Some a)
  with assms have "\<not> instructionAuthorityMaxLifetimeSecs < as_expires_at a - as_issued_at a"
    "\<not> now + instructionAuthorityMaxFutureSkew < as_issued_at a"
    by (simp_all add: structuralInstructionAuthorityAssertion_def split: if_split_asm)
  with Some that show ?thesis
    by (simp add: instructionAuthorityMaxLifetimeSecs_def instructionAuthorityMaxFutureSkew_def)
qed

text \<open>The bindings of an assertion that passes: the checks between the signature and the nonce.\<close>

definition assertion_bound :: "sign_env \<Rightarrow> ia_envelope \<Rightarrow> string \<Rightarrow> string \<Rightarrow> string \<Rightarrow> session \<Rightarrow> assertion \<Rightarrow> bool" where
  "assertion_bound G env stripped tool srv s a \<longleftrightarrow>
     as_session_id a = ses_id s \<and> as_client_id a = ses_client_id s
     \<and> as_logical_server a = srv \<and> as_tool_name a = tool
     \<and> as_request_sha a = instructionAuthorityRequestSHA256 G stripped
     \<and> as_envelope_sha a = instructionAuthorityEnvelopeSHA256 G env"

lemma verify_sound:
  assumes "verifyInstructionAuthorityAssertion G keys now env stripped tool srv s = ([], s')"
  obtains a pub where "ev_assertion env = Some a" and "keys (as_key_id a) = Some pub"
    and "sg_verify G pub (sg_signing_bytes G a) (as_signature a)"
    and "now < as_expires_at a" and "as_issued_at a \<le> now + 5" and "as_expires_at a \<le> as_issued_at a + 60"
    and "assertion_bound G env stripped tool srv s a"
    and "ConsumeInstructionAuthorityNonce (as_nonce a) (as_expires_at a) now s = (True, s')"
proof -
  let ?st = "structuralInstructionAuthorityAssertion (ev_assertion env) now"
  have st: "?st = []"
  proof (rule ccontr)
    assume "?st \<noteq> []"
    with assms show False by (simp add: verifyInstructionAuthorityAssertion_def)
  qed
  then obtain a where a: "ev_assertion env = Some a"
    and t: "as_issued_at a \<le> now + 5" "as_expires_at a \<le> as_issued_at a + 60" by (rule structural_ok)
  with assms st obtain pub where k: "keys (as_key_id a) = Some pub"
    by (cases "keys (as_key_id a)") (simp_all add: verifyInstructionAuthorityAssertion_def)
  have v: "sg_verify G pub (sg_signing_bytes G a) (as_signature a)" "now < as_expires_at a"
    and bd: "assertion_bound G env stripped tool srv s a"
    and n: "ConsumeInstructionAuthorityNonce (as_nonce a) (as_expires_at a) now s = (True, s')"
    using assms st a k
    by (simp_all add: verifyInstructionAuthorityAssertion_def assertion_bound_def
        split: if_split_asm prod.split_asm bool.split_asm)
  from that [OF a k v t bd n] show ?thesis .
qed

lemma consume_keeps_rest:
  "ses_taints (snd (ConsumeInstructionAuthorityNonce n e t s)) = ses_taints s"
  "ses_tool_calls (snd (ConsumeInstructionAuthorityNonce n e t s)) = ses_tool_calls s"
  "ses_spawn_depth (snd (ConsumeInstructionAuthorityNonce n e t s)) = ses_spawn_depth s"
  "ses_created_at (snd (ConsumeInstructionAuthorityNonce n e t s)) = ses_created_at s"
  by (simp_all add: ConsumeInstructionAuthorityNonce_def Let_def split: option.splits)

lemma verify_session:
  obtains "snd (verifyInstructionAuthorityAssertion G keys now env stripped tool srv s) = s"
  | n e where "snd (verifyInstructionAuthorityAssertion G keys now env stripped tool srv s) =
        snd (ConsumeInstructionAuthorityNonce n e now s)"
proof (cases "ev_assertion env")
  case None
  with that(1) show ?thesis by (simp add: verifyInstructionAuthorityAssertion_def Let_def)
next
  case (Some a)
  have "snd (verifyInstructionAuthorityAssertion G keys now env stripped tool srv s) = s
      \<or> snd (verifyInstructionAuthorityAssertion G keys now env stripped tool srv s) =
        snd (ConsumeInstructionAuthorityNonce (as_nonce a) (as_expires_at a) now s)"
    unfolding verifyInstructionAuthorityAssertion_def Let_def Some option.case
    by (cases "keys (as_key_id a)")
       (simp_all split: prod.splits bool.splits)
  with that show ?thesis by blast
qed

text \<open>A run of the session between two clock readings: nonces are consumed with a clock that never
  goes back, and other operations do not touch the nonces.\<close>

inductive clocked :: "int \<Rightarrow> session \<Rightarrow> int \<Rightarrow> session \<Rightarrow> bool" for t0 :: int and s0 :: session where
  clocked_refl: "clocked t0 s0 t0 s0"
| clocked_nonce: "clocked t0 s0 t s \<Longrightarrow> t \<le> t' \<Longrightarrow> clocked t0 s0 t' (snd (ConsumeInstructionAuthorityNonce n e t' s))"
| clocked_other: "clocked t0 s0 t s \<Longrightarrow> t \<le> t' \<Longrightarrow> ses_nonces s' = ses_nonces s \<Longrightarrow> clocked t0 s0 t' s'"

lemma clocked_keeps_nonce:
  assumes "clocked t0 s0 t s" and "ses_nonces s0 n = Some T" and "t < T"
  shows "ses_nonces s n = Some T"
  using assms by (induction rule: clocked.induct) (auto simp: consume_keeps)

lemma consumed_nonce: "ConsumeInstructionAuthorityNonce n e t s = (True, s') \<Longrightarrow> ses_nonces s' n = Some e"
  by (auto simp: ConsumeInstructionAuthorityNonce_def Let_def split: option.splits)

lemma present_nonce_refused: "ses_nonces s n = Some T \<Longrightarrow> t < T \<Longrightarrow> \<not> fst (ConsumeInstructionAuthorityNonce n e t s)"
  by (simp add: ConsumeInstructionAuthorityNonce_def purge_nonces_def Let_def)

section \<open>Properties\<close>


definition example_sign :: sign_env where
  "example_sign = \<lparr>sg_sha256 = (\<lambda>s. replicate 64 CHR ''0''), sg_marshal_envelope = (\<lambda>b r. ob_content b),
     sg_signing_bytes = (\<lambda>a. as_nonce a), sg_verify = (\<lambda>k m sg. True)\<rparr>"

definition example_assertion :: assertion where
  "example_assertion = \<lparr>as_schema_version = 1, as_key_id = ''k1'', as_session_id = ''s'', as_client_id = ''c'',
     as_logical_server = ''fs'', as_tool_name = ''read'',
     as_request_sha = ''sha256:'' @ replicate 64 CHR ''0'', as_envelope_sha = ''sha256:'' @ replicate 64 CHR ''0'',
     as_nonce = replicate 43 CHR ''A'', as_issued_at = 100, as_expires_at = 160, as_signature = replicate 86 CHR ''A''\<rparr>"

definition example_input :: ia_input where
  "example_input = \<lparr>ii_envelope = Inr
       \<lparr>ev_object = NewOriginObject example_crypto ''read it'' \<lparr>io_principal = ''user:a'', io_trust_class = TrustTrustedUser\<rparr>
                     ''USER_MESSAGE'' ''FILE_READ'' True,
        ev_root = \<lparr>er_origin = \<lparr>io_principal = ''user:a'', io_trust_class = TrustTrustedUser\<rparr>,
          er_instruction_bearing = True, er_effect_class = ''FILE_READ'',
          er_content_sha = ia_digest example_crypto ''read it''\<rparr>,
        ev_assertion = Some example_assertion\<rparr>,
     ii_stripped = Some ''request''\<rparr>"

definition example_keys :: "string \<rightharpoonup> string" where
  "example_keys = [''k1'' \<mapsto> replicate 43 CHR ''A'']"

definition example_after :: session where
  "example_after = snd (instruction_gate example_crypto example_sign (Some example_keys) 110 example_input
     ''read'' ''fs'' (NewSession ''s'' ''c'' 0))"

lemma example_gate_passes:
  "instruction_gate example_crypto example_sign (Some example_keys) 110 example_input ''read'' ''fs''
     (NewSession ''s'' ''c'' 0) = ((True, ''authorized''), example_after)"
proof -
  have "fst (instruction_gate example_crypto example_sign (Some example_keys) 110 example_input ''read'' ''fs''
     (NewSession ''s'' ''c'' 0)) = (True, ''authorized'')" by code_simp
  then show ?thesis by (simp add: example_after_def prod_eq_iff)
qed


text \<open>An accepted assertion is never accepted again in the session, with whatever request,
  envelope, tool, server or keys it is presented later: until it expires its nonce is remembered,
  and from then on it is expired. The clock is only assumed not to go back.\<close>

theorem assertion_single_use:
  assumes "verifyInstructionAuthorityAssertion G keys t0 env stripped tool srv s = ([], s0)"
    and "clocked t0 s0 t s1" and "ev_assertion env' = ev_assertion env"
  shows "fst (verifyInstructionAuthorityAssertion G keys' t env' stripped' tool' srv' s1) \<noteq> []"
proof
  assume "fst (verifyInstructionAuthorityAssertion G keys' t env' stripped' tool' srv' s1) = []"
  then obtain s2 where second: "verifyInstructionAuthorityAssertion G keys' t env' stripped' tool' srv' s1 = ([], s2)"
    by (metis prod.collapse)
  from assms(1) obtain a where a: "ev_assertion env = Some a"
    and n: "ConsumeInstructionAuthorityNonce (as_nonce a) (as_expires_at a) t0 s = (True, s0)"
    by (rule verify_sound)
  from second obtain b where "ev_assertion env' = Some b" and lt: "t < as_expires_at b"
    and again: "ConsumeInstructionAuthorityNonce (as_nonce b) (as_expires_at b) t s1 = (True, s2)"
    by (rule verify_sound)
  with assms(3) a have b: "b = a" by simp
  have "ses_nonces s1 (as_nonce a) = Some (as_expires_at a)"
    using clocked_keeps_nonce [OF assms(2) consumed_nonce [OF n]] lt b by simp
  from present_nonce_refused [OF this, of t] again lt b show False by (metis fst_conv)
qed

definition example_envelope :: ia_envelope where
  "example_envelope = projr (ii_envelope example_input)"

definition first_use :: "string \<times> session" where
  "first_use = verifyInstructionAuthorityAssertion example_sign example_keys 110 example_envelope ''request''
     ''read'' ''fs'' (NewSession ''s'' ''c'' 0)"

theorem assertion_single_use_witness:
  "fst (verifyInstructionAuthorityAssertion example_sign example_keys 150 example_envelope ''request'' ''read'' ''fs''
     (RecordToolCall 140 ''fs'' ''read'' [] RawEmpty [] (snd first_use))) \<noteq> []"
proof (rule assertion_single_use)
  have "fst first_use = []" by code_simp
  then show "verifyInstructionAuthorityAssertion example_sign example_keys 110 example_envelope ''request''
     ''read'' ''fs'' (NewSession ''s'' ''c'' 0) = ([], snd first_use)"
    unfolding first_use_def by (metis prod.collapse)
  show "clocked 110 (snd first_use) 150 (RecordToolCall 140 ''fs'' ''read'' [] RawEmpty [] (snd first_use))"
    by (rule clocked_other [OF clocked_refl]) (simp_all add: RecordToolCall_def)
qed simp

end
