(* ===== verification/Redaction.thy ===== *)
theory Redaction
  imports Policy_Types Policy_Glob
begin

text \<open>
  Redaction of tool arguments and output (\<^verbatim>\<open>src/internal/redaction/engine.go\<close>). The redaction
  expressions are written by the operator, so compiling, matching and replacing with them are the
  parameters of regex_lib; the walk over the decoded JSON is modelled. The sensitive-file
  patterns are globs compiled like those of the policy engine. The order of the reported fields is
  the iteration order of the Go map, here the order of the association list.
\<close>

record regex_lib =
  rx_compiles :: "string \<Rightarrow> bool"
  rx_match :: "string \<Rightarrow> string \<Rightarrow> bool"
  rx_replace :: "string \<Rightarrow> string \<Rightarrow> string \<Rightarrow> string"

record compiled_pattern =
  cp_name :: string
  cp_regex :: string
  cp_replace :: string

record redaction_engine =
  re_patterns :: "compiled_pattern list"
  re_output_patterns :: "compiled_pattern list"
  re_file_patterns :: "string list"

record redaction_result =
  rr_redacted :: bool
  rr_fields :: "string list"

definition compile_redactions :: "regex_lib \<Rightarrow> redaction_pattern list \<Rightarrow> compiled_pattern list" where
  "compile_redactions X ps =
     map (\<lambda>p. \<lparr>cp_name = rp_name p, cp_regex = rp_regex p,
               cp_replace = (if rp_replacement p = [] then ''[REDACTED]'' else rp_replacement p)\<rparr>)
       (filter (\<lambda>p. rx_compiles X (rp_regex p)) ps)"

definition NewRedactionEngine :: "regex_lib \<Rightarrow> redaction_config \<Rightarrow> redaction_engine" where
  "NewRedactionEngine X cfg =
     \<lparr>re_patterns = compile_redactions X (rc_patterns cfg),
      re_output_patterns = compile_redactions X (rc_output_patterns cfg),
      re_file_patterns = rc_sensitive_files cfg\<rparr>"

fun redact_loop :: "regex_lib \<Rightarrow> compiled_pattern list \<Rightarrow> string \<Rightarrow> bool \<Rightarrow> string \<times> bool" where
  "redact_loop X [] s redacted = (s, redacted)"
| "redact_loop X (p # ps) s redacted =
     (if rx_match X (cp_regex p) s
      then redact_loop X ps (rx_replace X (cp_regex p) (cp_replace p) s) True
      else redact_loop X ps s redacted)"

definition redactString :: "regex_lib \<Rightarrow> redaction_engine \<Rightarrow> string \<Rightarrow> string \<times> bool" where
  "redactString X e s =
     (let (t, redacted) = redact_loop X (re_patterns e) s False in
      if t \<noteq> s then (t, True) else (t, redacted))"

text \<open>Every element of an array is reported under index 0, as in the source.\<close>

fun redactValue :: "regex_lib \<Rightarrow> redaction_engine \<Rightarrow> string \<Rightarrow> json \<Rightarrow> json \<times> string list"
  and redact_items :: "regex_lib \<Rightarrow> redaction_engine \<Rightarrow> string \<Rightarrow> json list \<Rightarrow> json list \<times> string list"
  and redact_members :: "regex_lib \<Rightarrow> redaction_engine \<Rightarrow> string \<Rightarrow> args \<Rightarrow> args \<times> string list" where
  "redactValue X e path (JStr s) =
     (case redactString X e s of (t, found) \<Rightarrow> if found then (JStr t, [path]) else (JStr s, []))"
| "redactValue X e path (JObj m) = (case redact_members X e path m of (m', fs) \<Rightarrow> (JObj m', fs))"
| "redactValue X e path (JArr xs) = (case redact_items X e path xs of (xs', fs) \<Rightarrow> (JArr xs', fs))"
| "redactValue X e path JNull = (JNull, [])"
| "redactValue X e path (JBool b) = (JBool b, [])"
| "redactValue X e path (JNum r) = (JNum r, [])"
| "redact_items X e path [] = ([], [])"
| "redact_items X e path (x # xs) =
     (case redactValue X e (path @ ''[0]'') x of (x', fs) \<Rightarrow>
      case redact_items X e path xs of (xs', gs) \<Rightarrow> (x' # xs', fs @ gs))"
| "redact_members X e path [] = ([], [])"
| "redact_members X e path ((k, v) # m) =
     (case redactValue X e (path @ ''.'' @ k) v of (v', fs) \<Rightarrow>
      case redact_members X e path m of (m', gs) \<Rightarrow> ((k, v') # m', fs @ gs))"

fun redact_args_loop :: "regex_lib \<Rightarrow> redaction_engine \<Rightarrow> args \<Rightarrow> args \<times> string list" where
  "redact_args_loop X e [] = ([], [])"
| "redact_args_loop X e ((k, v) # m) =
     (case redactValue X e k v of (v', fs) \<Rightarrow>
      case redact_args_loop X e m of (m', gs) \<Rightarrow> ((k, v') # m', fs @ gs))"

definition RedactArgs :: "regex_lib \<Rightarrow> redaction_engine \<Rightarrow> args option \<Rightarrow> args \<times> redaction_result" where
  "RedactArgs X e args =
     (let (out, fields) = redact_args_loop X e (case args of None \<Rightarrow> [] | Some m \<Rightarrow> m)
      in (out, \<lparr>rr_redacted = (fields \<noteq> []), rr_fields = fields\<rparr>))"

definition RedactOutput :: "regex_lib \<Rightarrow> redaction_engine \<Rightarrow> string \<Rightarrow> string" where
  "RedactOutput X e txt =
     fold (\<lambda>p t. rx_replace X (cp_regex p) (cp_replace p) t) (re_patterns e @ re_output_patterns e) txt"

definition IsSensitiveFile :: "redaction_engine \<Rightarrow> string \<Rightarrow> bool" where
  "IsSensitiveFile e path = list_ex (\<lambda>p. glob_ci p path) (re_file_patterns e)"

definition HasPatterns :: "redaction_engine \<Rightarrow> bool" where
  "HasPatterns e \<longleftrightarrow> re_patterns e \<noteq> [] \<or> re_output_patterns e \<noteq> []"

section \<open>What redaction keeps\<close>

text \<open>Two values of the same shape differ only in the contents of strings.\<close>

fun same_shape :: "json \<Rightarrow> json \<Rightarrow> bool"
  and same_items :: "json list \<Rightarrow> json list \<Rightarrow> bool"
  and same_members :: "args \<Rightarrow> args \<Rightarrow> bool" where
  "same_shape (JStr s) v = (case v of JStr t \<Rightarrow> True | _ \<Rightarrow> False)"
| "same_shape (JObj m) v = (case v of JObj n \<Rightarrow> same_members m n | _ \<Rightarrow> False)"
| "same_shape (JArr xs) v = (case v of JArr ys \<Rightarrow> same_items xs ys | _ \<Rightarrow> False)"
| "same_shape JNull v = (v = JNull)"
| "same_shape (JBool b) v = (v = JBool b)"
| "same_shape (JNum r) v = (v = JNum r)"
| "same_items [] ys = (ys = [])"
| "same_items (x # xs) ys = (case ys of [] \<Rightarrow> False | y # ys' \<Rightarrow> same_shape x y \<and> same_items xs ys')"
| "same_members [] n = (n = [])"
| "same_members ((k, v) # m) n =
     (case n of [] \<Rightarrow> False | (k', v') # n' \<Rightarrow> k = k' \<and> same_shape v v' \<and> same_members m n')"

lemma redact_shape:
  "same_shape v (fst (redactValue X e path v))"
  "same_items xs (fst (redact_items X e path xs))"
  "same_members m (fst (redact_members X e path m))"
  by (induction X e path v and X e path xs and X e path m
      rule: redactValue_redact_items_redact_members.induct)
     (auto split: prod.splits)

lemma redact_args_loop_shape: "same_members m (fst (redact_args_loop X e m))"
proof (induction m)
  case (Cons kv m)
  obtain k v where kv: "kv = (k, v)" by fastforce
  obtain v' fs where r: "redactValue X e k v = (v', fs)" by fastforce
  have "same_shape v v'" using redact_shape(1) [of v X e k] r by simp
  with Cons r kv show ?case by (auto split: prod.splits)
qed simp

lemma redact_loop_quiet: "redact_loop X ps s b = (t, False) \<Longrightarrow> t = s \<and> \<not> b \<and> (\<forall>p\<in>set ps. \<not> rx_match X (cp_regex p) s)"
  by (induction X ps s b rule: redact_loop.induct) (auto split: if_splits)

lemma redactString_quiet:
  "redactString X e s = (t, False) \<Longrightarrow> t = s \<and> (\<forall>p\<in>set (re_patterns e). \<not> rx_match X (cp_regex p) s)"
  by (auto simp: redactString_def split: prod.splits if_splits dest: redact_loop_quiet)

text \<open>Every string inside a value.\<close>

fun clean :: "regex_lib \<Rightarrow> redaction_engine \<Rightarrow> json \<Rightarrow> bool"
  and clean_items :: "regex_lib \<Rightarrow> redaction_engine \<Rightarrow> json list \<Rightarrow> bool"
  and clean_members :: "regex_lib \<Rightarrow> redaction_engine \<Rightarrow> args \<Rightarrow> bool" where
  "clean X e (JStr s) = list_all (\<lambda>p. \<not> rx_match X (cp_regex p) s) (re_patterns e)"
| "clean X e (JObj m) = clean_members X e m"
| "clean X e (JArr xs) = clean_items X e xs"
| "clean X e JNull = True"
| "clean X e (JBool b) = True"
| "clean X e (JNum r) = True"
| "clean_items X e [] = True"
| "clean_items X e (x # xs) = (clean X e x \<and> clean_items X e xs)"
| "clean_members X e [] = True"
| "clean_members X e ((k, v) # m) = (clean X e v \<and> clean_members X e m)"

lemma redact_quiet:
  "snd (redactValue X e path v) = [] \<Longrightarrow> fst (redactValue X e path v) = v \<and> clean X e v"
  "snd (redact_items X e path xs) = [] \<Longrightarrow> fst (redact_items X e path xs) = xs \<and> clean_items X e xs"
  "snd (redact_members X e path m) = [] \<Longrightarrow> fst (redact_members X e path m) = m \<and> clean_members X e m"
  by (induction X e path v and X e path xs and X e path m
      rule: redactValue_redact_items_redact_members.induct)
     (auto split: prod.splits if_splits simp: list_all_iff dest: redactString_quiet)

lemma redact_args_loop_quiet:
  "snd (redact_args_loop X e m) = [] \<Longrightarrow> fst (redact_args_loop X e m) = m \<and> clean_members X e m"
proof (induction m)
  case (Cons kv m)
  obtain k v where kv: "kv = (k, v)" by fastforce
  obtain v' fs where r: "redactValue X e k v = (v', fs)" by fastforce
  obtain m' gs where l: "redact_args_loop X e m = (m', gs)" by fastforce
  have e: "fs = []" "gs = []" using Cons.prems kv r l by simp_all
  have "v' = v \<and> clean X e v" using redact_quiet(1) [of X e k v] r e by simp
  with Cons.IH kv r l e show ?case by simp
qed simp

section \<open>Properties\<close>

text \<open>Redaction keeps the structure of the arguments: the keys, the nesting, the numbers,
  booleans and nulls of the relayed arguments are those of the call and only strings change; and
  when nothing is reported as redacted, the arguments are unchanged and no string at any depth
  matches a redaction expression.\<close>

theorem redaction_structure:
  "same_members m (fst (RedactArgs X e (Some m)))
   \<and> (rr_redacted (snd (RedactArgs X e (Some m)))
      \<or> fst (RedactArgs X e (Some m)) = m \<and> clean_members X e m)"
proof -
  obtain out fields where l: "redact_args_loop X e m = (out, fields)" by fastforce
  have "same_members m out" using redact_args_loop_shape [of m X e] l by simp
  moreover have "fields \<noteq> [] \<or> out = m \<and> clean_members X e m"
    using redact_args_loop_quiet [of X e m] l by auto
  ultimately show ?thesis by (simp add: RedactArgs_def l)
qed

end
