(* ===== verification/Tools_Call.thy ===== *)
theory Tools_Call
  imports Policy_Engine Session_Taint Instruction_Assertion Redaction Trajectory_Advisor
begin

text \<open>
  The authorization pipeline of one tools/call (\<^verbatim>\<open>processToolsCall\<close> of
  \<^verbatim>\<open>src/internal/proxy/tools_call.go\<close> with \<^verbatim>\<open>identityEvidence\<close>, \<^verbatim>\<open>checkChain\<close>,
  \<^verbatim>\<open>evaluateRuntimeLimits\<close> and \<^verbatim>\<open>extractPath\<close>). The proxy state holds the engine, the session,
  the advisor, the counters and the captured launch identity; every early return of the code is
  an early result of the model.

  call_env gives, for one call, the answers of what lies outside: the wall clock, the kill switch
  flag at the two places it is read, the JSON rewriting of the message (\<^verbatim>\<open>rewriteArgs\<close>), the decoded
  instruction-authority envelope, the capability evaluator's receipt, the human approval, whether
  receipts could be signed and whether the durable commit succeeded. ce_wait is the effect on the
  session of the calls that run while this one waits for approval. Events are the audit records in order; the SIEM copies,
  log lines and latency observations are left out.
\<close>

record metrics =
  m_processed :: nat
  m_denied :: nat
  m_allowed :: nat
  m_approved :: nat
  m_approvals :: nat
  m_chains :: nat
  m_anomalies :: nat

record proxy =
  px_engine :: engine
  px_session :: session
  px_advisor :: "advisor option"
  px_metrics :: metrics
  px_redactor :: redaction_engine
  px_client_id :: string
  px_verified :: "actor_context option"
  px_session_id :: string
  px_session_epoch :: int
  px_ia_keys :: "(string \<rightharpoonup> string) option"
  px_launch_shape :: "(string \<times> int list) option"
  px_resolved_digest :: "string option"
  px_cap_step :: nat
  px_cap_last_hash :: string

datatype cap_outcome =
    CapOff
  | CapNil
  | CapReceipt string bool
  | CapError "string option"

datatype approval_outcome = Approved | NotApproved string

record call_env =
  ce_rewrite :: "string \<Rightarrow> args \<Rightarrow> string option"
  ce_revoked :: bool
  ce_argument_bytes :: int
  ce_now_limits :: int
  ce_now_unix :: int
  ce_ia :: "string \<Rightarrow> ia_input"
  ce_clk :: "nat \<Rightarrow> int"
  ce_now :: int
  ce_signed :: bool
  ce_capability :: cap_outcome
  ce_approval :: approval_outcome
  ce_wait :: "session \<Rightarrow> session"
  ce_now_grant :: int
  ce_revoked_grant :: bool
  ce_commit_ok :: bool

record call =
  cl_server :: string
  cl_tool :: string
  cl_arguments :: raw_json
  cl_raw :: string

datatype relay_action = Forward | Denied

datatype call_event =
    EvDenied string
  | EvApprovalRequired string
  | EvChainDetected string
  | EvAllowed string
  | EvTainted string

record call_result =
  res_action :: relay_action
  res_proxy :: proxy
  res_responses :: "string list"
  res_events :: "call_event list"
  res_message :: string

section \<open>Counters and results\<close>

definition count_denied :: "proxy \<Rightarrow> proxy" where
  "count_denied p = p\<lparr>px_metrics := (px_metrics p)\<lparr>m_denied := m_denied (px_metrics p) + 1\<rparr>\<rparr>"

definition count_processed :: "proxy \<Rightarrow> proxy" where
  "count_processed p = p\<lparr>px_metrics := (px_metrics p)\<lparr>m_processed := m_processed (px_metrics p) + 1\<rparr>\<rparr>"

definition count_allowed :: "proxy \<Rightarrow> proxy" where
  "count_allowed p = p\<lparr>px_metrics := (px_metrics p)\<lparr>m_allowed := m_allowed (px_metrics p) + 1\<rparr>\<rparr>"

definition count_approved :: "proxy \<Rightarrow> proxy" where
  "count_approved p = p\<lparr>px_metrics := (px_metrics p)\<lparr>m_approved := m_approved (px_metrics p) + 1\<rparr>\<rparr>"

definition count_approvals :: "proxy \<Rightarrow> proxy" where
  "count_approvals p = p\<lparr>px_metrics := (px_metrics p)\<lparr>m_approvals := m_approvals (px_metrics p) + 1\<rparr>\<rparr>"

definition count_chains :: "proxy \<Rightarrow> proxy" where
  "count_chains p = p\<lparr>px_metrics := (px_metrics p)\<lparr>m_chains := m_chains (px_metrics p) + 1\<rparr>\<rparr>"

definition count_anomalies :: "proxy \<Rightarrow> proxy" where
  "count_anomalies p = p\<lparr>px_metrics := (px_metrics p)\<lparr>m_anomalies := m_anomalies (px_metrics p) + 1\<rparr>\<rparr>"

lemmas count_defs = count_denied_def count_processed_def count_allowed_def count_approved_def
  count_approvals_def count_chains_def count_anomalies_def

text \<open>The common denial: count it, answer the client, log the terminal event. res_message is the
  message to relay, empty when nothing is relayed.\<close>

definition denied :: "proxy \<Rightarrow> string \<Rightarrow> call_event list \<Rightarrow> call_result" where
  "denied p response events =
     \<lparr>res_action = Denied, res_proxy = count_denied p, res_responses = [response], res_events = events, res_message = []\<rparr>"

definition withRedactionNote :: "string \<Rightarrow> redaction_result \<Rightarrow> string" where
  "withRedactionNote reason result =
     (if \<not> rr_redacted result \<or> rr_fields result = [] then reason
      else let note = ''redacted fields: ['' @ join_strings '' '' (rr_fields result) @ '']'' in
           if reason = [] then note else reason @ ''; '' @ note)"

section \<open>Gates before the policy\<close>

definition findServerByName :: "policy \<Rightarrow> string \<Rightarrow> server option" where
  "findServerByName pol name = find (\<lambda>s. srv_name s = name) (pol_servers pol)"

definition attestationShapeMatches :: "proxy \<Rightarrow> server_attestation \<Rightarrow> bool" where
  "attestationShapeMatches p pin =
     (case px_launch_shape p of
        None \<Rightarrow> False
      | Some (kind, entry) \<Rightarrow> kind = att_kind pin \<and> entry = sort (att_entry_arg_positions pin))"

text \<open>None when no pin is configured, otherwise whether the launched process satisfies it.\<close>

definition identityEvidence :: "proxy \<Rightarrow> string \<Rightarrow> (string + unit) option" where
  "identityEvidence p serverName =
     (case findServerByName (eng_policy (px_engine p)) serverName of
        None \<Rightarrow> None
      | Some srv \<Rightarrow>
          (case srv_attestation srv of
             None \<Rightarrow> None
           | Some pin \<Rightarrow> Some
               (case px_resolved_digest p of
                  None \<Rightarrow> Inl ''configured stdio identity was not captured for this server session; server restart is required to satisfy attestation''
                | Some digest \<Rightarrow>
                    if \<not> attestationShapeMatches p pin
                    then Inl ''attestation resolution shape changed after launch; server restart is required to satisfy the new pin''
                    else if digest \<noteq> att_digest pin
                    then Inl ''attestation expectation differs from the launched server identity; server restart is required to satisfy the new pin''
                    else Inr ())))"

definition evaluateRuntimeLimits :: "proxy \<Rightarrow> int \<Rightarrow> int \<Rightarrow> decision" where
  "evaluateRuntimeLimits p argumentBytes now =
     (let st = pol_settings (eng_policy (px_engine p)); s = px_session p in
      if 0 < set_max_argument_size_bytes st \<and> set_max_argument_size_bytes st < argumentBytes
      then mk_decision ActionDeny (''argument size '' @ itoa argumentBytes @ '' exceeds max ''
             @ itoa (set_max_argument_size_bytes st) @ '' bytes'')
      else if 0 < set_session_max_tools st \<and> set_session_max_tools st \<le> int (ToolCallCount s)
      then mk_decision ActionDeny (''session tool limit '' @ itoa (set_session_max_tools st) @ '' exceeded'')
      else if 0 < set_session_timeout_secs st
              \<and> set_session_timeout_secs st * 1000000000 < now - ses_created_at s
      then mk_decision ActionDeny (''session timeout '' @ itoa (set_session_timeout_secs st) @ '' seconds exceeded'')
      else mk_decision ActionAllow ''runtime limits passed'')"

definition kinetic_reason :: "proxy \<Rightarrow> string" where
  "kinetic_reason p = ''kinetic stop: session '' @ px_session_id p @ '' epoch '' @ itoa (px_session_epoch p) @ '' is revoked''"

text \<open>The first of the path keys that holds a non-empty string.\<close>

definition extractPath :: "raw_json \<Rightarrow> string" where
  "extractPath raw =
     (let args = extractArgs raw;
          hit = (\<lambda>k. case arg_lookup args k of Some (JStr v) \<Rightarrow> v \<noteq> [] | _ \<Rightarrow> False)
      in case find hit [''path'', ''file'', ''file_path'', ''uri''] of
           None \<Rightarrow> []
         | Some k \<Rightarrow> (case arg_lookup args k of Some (JStr v) \<Rightarrow> v | _ \<Rightarrow> []))"

text \<open>Kill switch, server identity and runtime limits: the reason of the first that denies.\<close>

definition early_gates :: "call_env \<Rightarrow> proxy \<Rightarrow> call \<Rightarrow> string option" where
  "early_gates ce p c =
     (if ce_revoked ce then Some (kinetic_reason p)
      else case identityEvidence p (cl_server c) of
        Some (Inl reason) \<Rightarrow> Some (''server identity attestation failed: '' @ reason)
      | _ \<Rightarrow>
        (let limits = evaluateRuntimeLimits p (ce_argument_bytes ce) (ce_now_limits ce) in
         if dec_action limits = ActionDeny then Some (dec_reason limits) else None))"

definition sensitive_path :: "proxy \<Rightarrow> call \<Rightarrow> string option" where
  "sensitive_path p c =
     (let path = extractPath (cl_arguments c) in
      if path \<noteq> [] \<and> IsSensitiveFile (px_redactor p) path then Some path else None)"

section \<open>The decision\<close>

definition ownership_gate ::
    "go_env \<Rightarrow> crypto_env \<Rightarrow> call_env \<Rightarrow> proxy \<Rightarrow> call \<Rightarrow> int \<Rightarrow> ownershipDeny option" where
  "ownership_gate E C ce p c now =
     snd (checkCapabilityOwnership E C (ce_signed ce) (px_client_id p) (cl_server c) (cl_tool c)
            (cl_arguments c) (cl_raw c) (Some (eng_policy (px_engine p))) now)"

definition after_egress :: "proxy \<Rightarrow> call \<Rightarrow> decision \<Rightarrow> decision" where
  "after_egress p c d =
     (if dec_action d \<noteq> ActionDeny then
        (case evaluateEgressControls (eng_policy (px_engine p)) (px_session p) (cl_server c) (cl_tool c) of
           Some e \<Rightarrow> etd_decision e
         | None \<Rightarrow> d)
      else d)"

definition checkChain :: "go_env \<Rightarrow> proxy \<Rightarrow> call \<Rightarrow> decision" where
  "checkChain E p c =
     (let w = set_chain_window_size (pol_settings (eng_policy (px_engine p)));
          windowSize = (if w = 0 then 10 else w);
          d = EvaluateChain E (px_engine p) (cl_server c) (cl_tool c) (RecentCallChain windowSize (px_session p))
      in if dec_action d = ActionDeny \<or> dec_action d = ActionRequireApproval then d
         else mk_decision ActionAllow ''no chain rule matched'')"

text \<open>Left: the chain denies. Right: the decision that goes on.\<close>

definition after_chain :: "go_env \<Rightarrow> proxy \<Rightarrow> call \<Rightarrow> decision \<Rightarrow> decision + decision" where
  "after_chain E p c d =
     (if dec_action d \<noteq> ActionDeny then
        (let cd = checkChain E p c in
         if dec_action cd = ActionDeny then Inl cd
         else if dec_action cd = ActionRequireApproval then Inr cd
         else Inr d)
      else Inr d)"

definition capability_pause :: "cap_outcome \<Rightarrow> string" where
  "capability_pause outc =
     (case outc of
        CapError _ \<Rightarrow> ''capability boundary: PAUSE_REQUIRE_NEW_PROOF (evaluator error)''
      | CapReceipt _ True \<Rightarrow> ''capability boundary: PAUSE_REQUIRE_NEW_PROOF (effect outside declared envelope)''
      | _ \<Rightarrow> [])"

definition after_capability :: "cap_outcome \<Rightarrow> decision \<Rightarrow> decision" where
  "after_capability outc d =
     (if capability_pause outc \<noteq> [] \<and> dec_action d \<noteq> ActionDeny
      then mk_decision ActionRequireApproval (capability_pause outc) else d)"

definition advance_capability :: "cap_outcome \<Rightarrow> proxy \<Rightarrow> proxy" where
  "advance_capability outc p =
     (case outc of
        CapOff \<Rightarrow> p
      | CapNil \<Rightarrow> p\<lparr>px_cap_step := px_cap_step p + 1\<rparr>
      | CapReceipt h _ \<Rightarrow> p\<lparr>px_cap_step := px_cap_step p + 1, px_cap_last_hash := h\<rparr>
      | CapError None \<Rightarrow> p\<lparr>px_cap_step := px_cap_step p + 1\<rparr>
      | CapError (Some h) \<Rightarrow> p\<lparr>px_cap_step := px_cap_step p + 1, px_cap_last_hash := h\<rparr>)"

definition assessTrajectory :: "call \<Rightarrow> proxy \<Rightarrow> proxy" where
  "assessTrajectory c p =
     (case px_advisor p of
        None \<Rightarrow> p
      | Some a \<Rightarrow>
          (case Assess (cl_server c, cl_tool c) a of
             (None, a') \<Rightarrow> p\<lparr>px_advisor := Some a'\<rparr>
           | (Some _, a') \<Rightarrow> count_anomalies (p\<lparr>px_advisor := Some a'\<rparr>)))"

section \<open>Relay\<close>

definition release_if :: "bool \<Rightarrow> proxy \<Rightarrow> proxy" where
  "release_if reserved p =
     (if reserved then p\<lparr>px_session := ReleaseDelegation (px_session p)\<rparr> else p)"

definition commit_failure :: string where
  "commit_failure = ''execution denied: durable authorization audit commit failed''"

text \<open>The durable commit and, only after it, the taints and the counter.\<close>

definition commit_and_relay ::
    "go_env \<Rightarrow> call_env \<Rightarrow> args \<Rightarrow> string \<Rightarrow> call \<Rightarrow> bool \<Rightarrow> (proxy \<Rightarrow> proxy) \<Rightarrow> string \<Rightarrow> call_event list \<Rightarrow> proxy \<Rightarrow> call_result" where
  "commit_and_relay E ce redactedArgs msg c reserved count reason events p =
     (if \<not> ce_commit_ok ce then denied (release_if reserved p) commit_failure events
      else let (s, added) = markMatchingTaints E (ce_now_grant ce) (cl_server c) (cl_tool c)
                              (Some redactedArgs) (Some (eng_policy (px_engine p))) (px_session p)
           in \<lparr>res_action = Forward, res_proxy = count (p\<lparr>px_session := s\<rparr>), res_responses = [],
               res_events = events @ [EvAllowed reason] @ map (\<lambda>t. EvTainted (st_name t)) added,
               res_message = msg\<rparr>)"

definition verifiedActorRequired :: "policy \<Rightarrow> string \<Rightarrow> string \<Rightarrow> bool" where
  "verifiedActorRequired pol serverName toolName =
     (set_require_verified_actor (pol_settings pol)
      \<or> (case findServerByName pol serverName of
           None \<Rightarrow> False
         | Some srv \<Rightarrow> list_ex (\<lambda>t. tool_name t = toolName \<and> tool_required_scopes t \<noteq> []) (srv_tools srv)))"

definition recheckVerifiedActor :: "proxy \<Rightarrow> call \<Rightarrow> int \<Rightarrow> string + unit" where
  "recheckVerifiedActor p c now =
     (case px_verified p of
        None \<Rightarrow> Inr ()
      | Some ctx \<Rightarrow>
          if \<not> verifiedActorRequired (eng_policy (px_engine p)) (cl_server c) (cl_tool c) then Inr ()
          else Check (eng_hash (px_engine p)) now ctx now)"

text \<open>The rechecks after an approval was granted, in the order of the code: ownership, delegation
  budget, kill switch, lineage, verified actor; hasLineage says whether the evaluation carried
  lineage evidence. The unit reserved by the budget check is given back by every later denial.\<close>

definition granted ::
    "go_env \<Rightarrow> crypto_env \<Rightarrow> call_env \<Rightarrow> args \<Rightarrow> redaction_result \<Rightarrow> string \<Rightarrow> call \<Rightarrow> bool \<Rightarrow> call_event list \<Rightarrow> proxy \<Rightarrow> call_result" where
  "granted E C ce redactedArgs redaction msg c hasLineage events p =
     (let pol = eng_policy (px_engine p); now = ce_now_grant ce;
          note = (\<lambda>r. withRedactionNote r redaction)
      in case ownership_gate E C ce p c now of
           Some d \<Rightarrow> denied p (od_reason d) (events @ [EvDenied (note (od_reason d))])
         | None \<Rightarrow>
         (case tryReserveDelegation (Some pol) (px_session p) (cl_server c) (cl_tool c) of
            ((Some info, _), s) \<Rightarrow>
              denied (p\<lparr>px_session := s\<rparr>) (cdi_reason info) (events @ [EvDenied (note (cdi_reason info))])
          | ((None, reserved), s) \<Rightarrow>
            (let p1 = p\<lparr>px_session := s\<rparr> in
             if ce_revoked_grant ce
             then denied (release_if reserved p1) (kinetic_reason p1) (events @ [EvDenied (kinetic_reason p1)])
             else
               (let lineage = EvaluateLineageAt E (px_engine p1) now (cl_server c) (cl_tool c)
                                (extractArgs (cl_arguments c)) (Some pol) now
                in if hasLineage \<and> dec_action lineage = ActionDeny
                   then denied (release_if reserved p1) (dec_reason lineage)
                          (events @ [EvDenied (note (dec_reason lineage))])
                   else case recheckVerifiedActor p1 c now of
                     Inl err \<Rightarrow> denied (release_if reserved p1) err (events @ [EvDenied (note err)])
                   | Inr _ \<Rightarrow>
                       commit_and_relay E ce redactedArgs msg c reserved count_approved
                         (note ''approved by human operator'') events p1))))"

definition approval_branch ::
    "go_env \<Rightarrow> crypto_env \<Rightarrow> call_env \<Rightarrow> args \<Rightarrow> redaction_result \<Rightarrow> string \<Rightarrow> call \<Rightarrow> bool \<Rightarrow> string \<Rightarrow> call_event list \<Rightarrow> proxy \<Rightarrow> call_result" where
  "approval_branch E C ce redactedArgs redaction msg c hasLineage reason events p =
     (let pol = eng_policy (px_engine p) in
      case checkDelegationCeiling (Some pol) (Some (px_session p)) (cl_server c) (cl_tool c) of
        Some info \<Rightarrow>
          denied p (cdi_reason info) (events @ [EvDenied (withRedactionNote (cdi_reason info) redaction)])
      | None \<Rightarrow>
        (let events1 = events @ [EvApprovalRequired (withRedactionNote reason redaction)];
             p1 = count_approvals (p\<lparr>px_session := ce_wait ce (px_session p)\<rparr>)
         in case ce_approval ce of
              NotApproved why \<Rightarrow>
                denied p1 (''execution denied: approval not granted ('' @ why @ '')'') (events1 @ [EvDenied why])
            | Approved \<Rightarrow> granted E C ce redactedArgs redaction msg c hasLineage events1 p1))"

text \<open>The switch over the final decision, after the delegation budget of an allowed call.\<close>

definition relay_switch ::
    "go_env \<Rightarrow> crypto_env \<Rightarrow> call_env \<Rightarrow> args \<Rightarrow> redaction_result \<Rightarrow> string \<Rightarrow> call \<Rightarrow> bool \<Rightarrow> decision \<Rightarrow> call_event list \<Rightarrow> proxy \<Rightarrow> call_result" where
  "relay_switch E C ce redactedArgs redaction msg c hasLineage d events p =
     (let note = (\<lambda>r. withRedactionNote r redaction);
          (ceiling, reserved, p1) =
            (if dec_action d = ActionAllow then
               (case tryReserveDelegation (Some (eng_policy (px_engine p))) (px_session p) (cl_server c) (cl_tool c) of
                  ((info, taken), s) \<Rightarrow> (info, taken, p\<lparr>px_session := s\<rparr>))
             else (None, False, p));
          d1 = (case ceiling of Some info \<Rightarrow> mk_decision ActionDeny (cdi_reason info) | None \<Rightarrow> d)
      in if dec_action d1 = ActionDeny
         then denied p1 (dec_reason d1) (events @ [EvDenied (note (dec_reason d1))])
         else if dec_action d1 = ActionRequireApproval
         then approval_branch E C ce redactedArgs redaction msg c hasLineage (dec_reason d1) events p1
         else commit_and_relay E ce redactedArgs msg c reserved count_allowed (note (dec_reason d1)) events p1)"

text \<open>From the policy decision to the switch.\<close>

definition decide ::
    "go_env \<Rightarrow> crypto_env \<Rightarrow> call_env \<Rightarrow> args \<Rightarrow> redaction_result \<Rightarrow> string \<Rightarrow> call \<Rightarrow> proxy \<Rightarrow> call_result" where
  "decide E C ce redactedArgs redaction msg c p0 =
     (let d0 = Evaluate E (px_engine p0) (ce_clk ce) (cl_server c) (cl_tool c) (cl_arguments c);
          hasLineage = (dec_lineage d0 \<noteq> None);
          p = assessTrajectory c p0;
          note = (\<lambda>r. withRedactionNote r redaction);
          own = (if dec_action d0 = ActionAllow \<or> dec_action d0 = ActionRequireApproval
                 then ownership_gate E C ce p c (ce_now ce) else None)
      in case own of
           Some deny \<Rightarrow> denied p (od_reason deny) [EvDenied (note (od_reason deny))]
         | None \<Rightarrow>
         (let d1 = after_egress p c d0 in
          case after_chain E p c d1 of
            Inl cd \<Rightarrow>
              denied (count_chains p) ''chain rule: tool sequence matches dangerous pattern''
                [EvChainDetected (dec_reason cd), EvDenied (note (dec_reason cd))]
          | Inr d2 \<Rightarrow>
            (let hit = (dec_action d1 \<noteq> ActionDeny \<and> dec_action (checkChain E p c) = ActionRequireApproval);
                 events = (if hit then [EvChainDetected (dec_reason d2)] else []);
                 p2 = advance_capability (ce_capability ce) (if hit then count_chains p else p)
             in relay_switch E C ce redactedArgs redaction msg c hasLineage
                  (after_capability (ce_capability ce) d2) events p2)))"

text \<open>Stripping of identity claims: the call that is judged, or None when the rewritten message
  cannot be built.\<close>

definition strip_call :: "call_env \<Rightarrow> call \<Rightarrow> call option" where
  "strip_call ce c =
     (case StripArgumentIdentity (extractArgs (cl_arguments c)) of
        (Some m, True) \<Rightarrow>
          (case ce_rewrite ce (cl_raw c) m of
             None \<Rightarrow> None
           | Some raw \<Rightarrow> Some (c\<lparr>cl_arguments := RawJson (JObj m), cl_raw := raw\<rparr>))
      | _ \<Rightarrow> Some c)"

text \<open>The call after the instruction gate: with the gate on, the request without the envelope.\<close>

definition authorized_call :: "call_env \<Rightarrow> proxy \<Rightarrow> call \<Rightarrow> call" where
  "authorized_call ce p c =
     (case (px_ia_keys p, ii_stripped (ce_ia ce (cl_raw c))) of
        (Some _, Some stripped) \<Rightarrow> c\<lparr>cl_raw := stripped\<rparr>
      | _ \<Rightarrow> c)"

text \<open>The message that is relayed: rewritten with the redacted arguments when anything was redacted
  and the rewriting succeeded.\<close>

definition relayed_message :: "call_env \<Rightarrow> call \<Rightarrow> args \<Rightarrow> redaction_result \<Rightarrow> string" where
  "relayed_message ce c redactedArgs redaction =
     (if rr_redacted redaction
      then (case ce_rewrite ce (cl_raw c) redactedArgs of Some raw \<Rightarrow> raw | None \<Rightarrow> cl_raw c)
      else cl_raw c)"

definition after_instruction ::
    "go_env \<Rightarrow> regex_lib \<Rightarrow> crypto_env \<Rightarrow> call_env \<Rightarrow> call \<Rightarrow> proxy \<Rightarrow> call_result" where
  "after_instruction E X C ce c p =
     (let (redactedArgs, redaction) = RedactArgs X (px_redactor p) (extractArgs (cl_arguments c)) in
      case sensitive_path p c of
        Some path \<Rightarrow> denied p (''access to sensitive file denied: '' @ path)
                       [EvDenied (withRedactionNote (''sensitive file: '' @ path) redaction)]
      | None \<Rightarrow> decide E C ce redactedArgs redaction (relayed_message ce c redactedArgs redaction) c p)"

definition processToolsCall ::
    "go_env \<Rightarrow> regex_lib \<Rightarrow> crypto_env \<Rightarrow> sign_env \<Rightarrow> call_env \<Rightarrow> call \<Rightarrow> proxy \<Rightarrow> call_result" where
  "processToolsCall E X C G ce c0 p0 =
     (let p = count_processed p0 in
      case strip_call ce c0 of
        None \<Rightarrow> denied p ''invalid tools/call arguments'' [EvDenied ''invalid tools/call arguments'']
      | Some c \<Rightarrow>
        (case early_gates ce p c of
           Some reason \<Rightarrow> denied p reason [EvDenied reason]
         | None \<Rightarrow>
           (case instruction_gate C G (px_ia_keys p) (ce_now_unix ce) (ce_ia ce (cl_raw c)) (cl_tool c)
                   (cl_server c) (px_session p) of
              ((False, reason), s) \<Rightarrow> denied (p\<lparr>px_session := s\<rparr>) reason [EvDenied reason]
            | ((True, _), s) \<Rightarrow>
                after_instruction E X C ce (authorized_call ce p c) (p\<lparr>px_session := s\<rparr>))))"

section \<open>Accounting\<close>

fun is_allowed :: "call_event \<Rightarrow> bool" where
  "is_allowed (EvAllowed r) = True"
| "is_allowed _ = False"

text \<open>The counters of terminal outcomes, and the shape every result has: relayed with one more
  committed record and no answer, or denied with one answer, no committed record and no message.\<close>

definition outcome_counts :: "proxy \<Rightarrow> nat \<times> nat \<times> nat" where
  "outcome_counts p = (m_processed (px_metrics p), m_denied (px_metrics p),
     m_allowed (px_metrics p) + m_approved (px_metrics p))"

definition outcome_ok :: "nat \<times> nat \<times> nat \<Rightarrow> call_result \<Rightarrow> bool" where
  "outcome_ok n r \<longleftrightarrow>
     (case n of (processed, den, rel) \<Rightarrow>
        if res_action r = Forward
        then outcome_counts (res_proxy r) = (processed, den, rel + 1)
             \<and> res_responses r = [] \<and> length (filter is_allowed (res_events r)) = 1
        else outcome_counts (res_proxy r) = (processed, den + 1, rel)
             \<and> length (res_responses r) = 1 \<and> filter is_allowed (res_events r) = [] \<and> res_message r = [])"

lemma counts_update [simp]:
  "outcome_counts (p\<lparr>px_session := s\<rparr>) = outcome_counts p"
  "outcome_counts (p\<lparr>px_advisor := a\<rparr>) = outcome_counts p"
  "outcome_counts (p\<lparr>px_cap_step := k\<rparr>) = outcome_counts p"
  "outcome_counts (p\<lparr>px_cap_last_hash := h\<rparr>) = outcome_counts p"
  "outcome_counts (count_approvals p) = outcome_counts p"
  "outcome_counts (count_chains p) = outcome_counts p"
  "outcome_counts (count_anomalies p) = outcome_counts p"
  by (simp_all add: outcome_counts_def count_defs)

lemma counts_stages [simp]:
  "outcome_counts (release_if b p) = outcome_counts p"
  "outcome_counts (assessTrajectory c p) = outcome_counts p"
  "outcome_counts (advance_capability oc p) = outcome_counts p"
  by (auto simp: release_if_def assessTrajectory_def advance_capability_def
      split: option.splits prod.splits cap_outcome.splits)

lemma outcome_denied:
  "filter is_allowed ev = [] \<Longrightarrow> outcome_ok (outcome_counts p) (denied p r ev)"
  by (simp add: outcome_ok_def denied_def outcome_counts_def count_defs)

lemma outcome_commit:
  assumes "filter is_allowed ev = []" and "count = count_allowed \<or> count = count_approved"
  shows "outcome_ok (outcome_counts p) (commit_and_relay E ce ra msg c reserved count reason ev p)"
proof (cases "ce_commit_ok ce")
  case True
  have no_taint: "filter is_allowed (map (\<lambda>t. EvTainted (st_name t)) xs) = []" for xs :: "session_taint list"
    by (induction xs) simp_all
  show ?thesis
    using True assms
    by (auto simp: commit_and_relay_def outcome_ok_def outcome_counts_def count_defs no_taint split: prod.splits)
next
  case False
  then show ?thesis
    using outcome_denied [OF assms(1), of "release_if reserved p" commit_failure]
    by (simp add: commit_and_relay_def)
qed

lemma outcome_granted:
  assumes "filter is_allowed ev = []"
  shows "outcome_ok (outcome_counts p) (granted E C ce ra rd msg c hl ev p)"
proof -
  have d: "outcome_counts q = outcome_counts p \<Longrightarrow> outcome_ok (outcome_counts p) (denied q r (ev @ [EvDenied x]))" for q r x
    using outcome_denied [of "ev @ [EvDenied x]" q r] assms by simp
  have k: "outcome_counts q = outcome_counts p \<Longrightarrow>
      outcome_ok (outcome_counts p) (commit_and_relay E ce ra msg c b count_approved x ev q)" for q b x
    using outcome_commit [OF assms, of count_approved q] by simp
  show ?thesis
    by (auto simp: granted_def Let_def intro!: d k split: option.splits prod.splits sum.splits)
qed

lemma outcome_approval:
  assumes "filter is_allowed ev = []"
  shows "outcome_ok (outcome_counts p) (approval_branch E C ce ra rd msg c hl reason ev p)"
proof -
  let ?p = "count_approvals (p\<lparr>px_session := ce_wait ce (px_session p)\<rparr>)"
  let ?ev = "ev @ [EvApprovalRequired (withRedactionNote reason rd)]"
  have "outcome_ok (outcome_counts p) (granted E C ce ra rd msg c hl ?ev ?p)"
    using outcome_granted [of ?ev ?p] assms by simp
  moreover have "outcome_ok (outcome_counts p) (denied ?p r (?ev @ [EvDenied x]))" for r x
    using outcome_denied [of "?ev @ [EvDenied x]" ?p r] assms by simp
  moreover have "outcome_ok (outcome_counts p) (denied p r (ev @ [EvDenied x]))" for r x
    using outcome_denied [of "ev @ [EvDenied x]" p r] assms by simp
  ultimately show ?thesis
    by (simp add: approval_branch_def Let_def split: option.splits approval_outcome.splits)
qed

lemma outcome_switch:
  assumes "filter is_allowed ev = []"
  shows "outcome_ok (outcome_counts p) (relay_switch E C ce ra rd msg c hl d ev p)"
proof -
  have d: "outcome_counts q = outcome_counts p \<Longrightarrow> outcome_ok (outcome_counts p) (denied q r (ev @ [EvDenied x]))" for q r x
    using outcome_denied [of "ev @ [EvDenied x]" q r] assms by simp
  have k: "outcome_counts q = outcome_counts p \<Longrightarrow>
      outcome_ok (outcome_counts p) (commit_and_relay E ce ra msg c b count_allowed x ev q)" for q b x
    using outcome_commit [OF assms, of count_allowed q] by simp
  have a: "outcome_counts q = outcome_counts p \<Longrightarrow>
      outcome_ok (outcome_counts p) (approval_branch E C ce ra rd msg c hl x ev q)" for q x
    using outcome_approval [OF assms, of q] by simp
  show ?thesis
    by (auto simp: relay_switch_def Let_def intro!: d k a split: option.splits prod.splits)
qed

lemma outcome_decide: "outcome_ok (outcome_counts p) (decide E C ce ra rd msg c p)"
proof -
  have d: "outcome_counts q = outcome_counts p \<Longrightarrow> filter is_allowed ev = [] \<Longrightarrow>
      outcome_ok (outcome_counts p) (denied q r ev)" for q r ev
    using outcome_denied [of ev q r] by simp
  have s: "outcome_counts q = outcome_counts p \<Longrightarrow> filter is_allowed ev = [] \<Longrightarrow>
      outcome_ok (outcome_counts p) (relay_switch E C ce ra rd msg c hl dc ev q)" for q hl dc ev
    using outcome_switch [of ev q] by simp
  show ?thesis
    by (auto simp: decide_def Let_def intro!: d s split: option.splits sum.splits)
qed

lemma outcome_process:
  "outcome_ok (outcome_counts (count_processed p)) (processToolsCall E X C G ce c p)"
proof -
  have d: "outcome_counts q = outcome_counts (count_processed p) \<Longrightarrow>
      outcome_ok (outcome_counts (count_processed p)) (denied q r [EvDenied x])" for q r x
    using outcome_denied [of "[EvDenied x]" q r] by simp
  have k: "outcome_counts q = outcome_counts (count_processed p) \<Longrightarrow>
      outcome_ok (outcome_counts (count_processed p)) (after_instruction E X C ce c' q)" for q c'
    using outcome_decide [of q]
    by (auto simp: after_instruction_def intro!: d split: prod.splits option.splits)
  show ?thesis
    by (auto simp: processToolsCall_def Let_def intro!: d k split: option.splits prod.splits bool.splits)
qed

section \<open>What a relayed call passed\<close>

lemma denied_action [simp]: "res_action (denied p r ev) = Denied"
  by (simp add: denied_def)

lemma commit_forward:
  "res_action (commit_and_relay E ce ra msg c b count reason ev p) = Forward \<longleftrightarrow> ce_commit_ok ce"
  by (simp add: commit_and_relay_def split: prod.splits)

lemma ownership_gate_cong [simp]:
  "ownership_gate E C ce (p\<lparr>px_session := s\<rparr>) c now = ownership_gate E C ce p c now"
  "ownership_gate E C ce (count_approvals p) c now = ownership_gate E C ce p c now"
  "ownership_gate E C ce (count_chains p) c now = ownership_gate E C ce p c now"
  "ownership_gate E C ce (count_processed p) c now = ownership_gate E C ce p c now"
  by (simp_all add: ownership_gate_def count_defs)

lemma recheck_cong [simp]:
  "recheckVerifiedActor (p\<lparr>px_session := s\<rparr>) c now = recheckVerifiedActor p c now"
  "recheckVerifiedActor (count_approvals p) c now = recheckVerifiedActor p c now"
  "recheckVerifiedActor (count_chains p) c now = recheckVerifiedActor p c now"
  "recheckVerifiedActor (count_processed p) c now = recheckVerifiedActor p c now"
  by (simp_all add: recheckVerifiedActor_def count_defs split: option.split)

text \<open>What is checked again once a human has approved, with the clock of that moment.\<close>

definition rechecked :: "go_env \<Rightarrow> crypto_env \<Rightarrow> call_env \<Rightarrow> call \<Rightarrow> bool \<Rightarrow> proxy \<Rightarrow> bool" where
  "rechecked E C ce c hasLineage p \<longleftrightarrow>
     ce_approval ce = Approved
     \<and> \<not> ce_revoked_grant ce
     \<and> ownership_gate E C ce p c (ce_now_grant ce) = None
     \<and> (hasLineage \<longrightarrow>
          dec_action (EvaluateLineageAt E (px_engine p) (ce_now_grant ce) (cl_server c) (cl_tool c)
            (extractArgs (cl_arguments c)) (Some (eng_policy (px_engine p))) (ce_now_grant ce)) \<noteq> ActionDeny)
     \<and> recheckVerifiedActor p c (ce_now_grant ce) = Inr ()"

lemma engine_update [simp]:
  "px_engine (count_approvals p) = px_engine p" "px_engine (count_chains p) = px_engine p"
  "px_engine (count_processed p) = px_engine p" "px_engine (count_anomalies p) = px_engine p"
  "px_session (count_approvals p) = px_session p" "px_session (count_chains p) = px_session p"
  "px_session (count_processed p) = px_session p" "px_session (count_anomalies p) = px_session p"
  "px_session (count_denied p) = px_session p" "px_session (count_allowed p) = px_session p"
  "px_session (count_approved p) = px_session p"
  by (simp_all add: count_defs)

lemma granted_forward:
  assumes "res_action (granted E C ce ra rd msg c hl ev p) = Forward" and "ce_approval ce = Approved"
  shows "rechecked E C ce c hl p \<and> ce_commit_ok ce"
  using assms
  by (auto simp: granted_def rechecked_def commit_forward Let_def
      split: option.splits prod.splits if_splits sum.splits)

lemma rechecked_cong [simp]:
  "rechecked E C ce c hl (count_approvals p) = rechecked E C ce c hl p"
  "rechecked E C ce c hl (count_chains p) = rechecked E C ce c hl p"
  "rechecked E C ce c hl (count_processed p) = rechecked E C ce c hl p"
  "rechecked E C ce c hl (p\<lparr>px_session := s\<rparr>) = rechecked E C ce c hl p"
  by (simp_all add: rechecked_def)

lemma approval_forward:
  assumes "res_action (approval_branch E C ce ra rd msg c hl reason ev p) = Forward"
  shows "rechecked E C ce c hl p \<and> ce_commit_ok ce"
proof -
  let ?p = "count_approvals (p\<lparr>px_session := ce_wait ce (px_session p)\<rparr>)"
  from assms obtain ev' where "ce_approval ce = Approved"
    and "res_action (granted E C ce ra rd msg c hl ev' ?p) = Forward"
    by (auto simp: approval_branch_def Let_def split: option.splits approval_outcome.splits)
  from granted_forward [OF this(2) this(1)] show ?thesis by simp
qed

lemma switch_forward:
  assumes "res_action (relay_switch E C ce ra rd msg c hl d ev p) = Forward"
  shows "dec_action d \<noteq> ActionDeny \<and> ce_commit_ok ce
     \<and> (dec_action d = ActionRequireApproval \<longrightarrow> rechecked E C ce c hl p)"
  using assms
  by (auto simp: relay_switch_def commit_forward Let_def dest!: approval_forward
      split: option.splits prod.splits if_splits)

text \<open>The part of the proxy that the decision stages read; the advisor, the counters and the
  capability chain are not in it.\<close>

definition context_of :: "proxy \<Rightarrow> engine \<times> session \<times> string \<times> actor_context option" where
  "context_of p = (px_engine p, px_session p, px_client_id p, px_verified p)"

lemma context_cong:
  assumes "context_of p = context_of q"
  shows "ownership_gate E C ce p c now = ownership_gate E C ce q c now"
    and "after_egress p c d = after_egress q c d"
    and "checkChain E p c = checkChain E q c"
    and "after_chain E p c d = after_chain E q c d"
    and "rechecked E C ce c hl p = rechecked E C ce c hl q"
proof -
  have eq: "px_engine p = px_engine q" "px_session p = px_session q" "px_client_id p = px_client_id q"
    "px_verified p = px_verified q" using assms by (simp_all add: context_of_def)
  show "ownership_gate E C ce p c now = ownership_gate E C ce q c now" by (simp add: ownership_gate_def eq)
  show "after_egress p c d = after_egress q c d" by (simp add: after_egress_def eq)
  show "checkChain E p c = checkChain E q c" by (simp add: checkChain_def eq)
  then show "after_chain E p c d = after_chain E q c d" by (simp add: after_chain_def)
  show "rechecked E C ce c hl p = rechecked E C ce c hl q"
    unfolding rechecked_def ownership_gate_def recheckVerifiedActor_def eq ..
qed

lemma context_stages [simp]:
  "context_of (assessTrajectory c p) = context_of p"
  "context_of (advance_capability oc p) = context_of p"
  "context_of (count_chains p) = context_of p"
  "context_of (count_processed p) = context_of p"
  by (auto simp: context_of_def assessTrajectory_def advance_capability_def count_defs
      split: option.splits prod.splits cap_outcome.splits)

abbreviation policy_decision :: "go_env \<Rightarrow> call_env \<Rightarrow> call \<Rightarrow> proxy \<Rightarrow> decision" where
  "policy_decision E ce c p \<equiv> Evaluate E (px_engine p) (ce_clk ce) (cl_server c) (cl_tool c) (cl_arguments c)"

lemma decide_forward:
  assumes "res_action (decide E C ce ra rd msg c p) = Forward"
  obtains d2 where
    "dec_action (policy_decision E ce c p) \<noteq> ActionDeny"
    and "dec_action (policy_decision E ce c p) \<in> {ActionAllow, ActionRequireApproval} \<Longrightarrow>
           ownership_gate E C ce p c (ce_now ce) = None"
    and "after_chain E p c (after_egress p c (policy_decision E ce c p)) = Inr d2"
    and "dec_action (after_capability (ce_capability ce) d2) \<noteq> ActionDeny"
    and "dec_action (after_capability (ce_capability ce) d2) = ActionRequireApproval \<Longrightarrow>
           rechecked E C ce c (dec_lineage (policy_decision E ce c p) \<noteq> None) p"
    and "ce_commit_ok ce"
proof -
  let ?d0 = "policy_decision E ce c p" and ?q = "assessTrajectory c p"
  have ctx: "context_of ?q = context_of p" by simp
  note cong = context_cong [OF ctx]
  from assms obtain d2 ev b where
    own: "dec_action ?d0 \<in> {ActionAllow, ActionRequireApproval} \<Longrightarrow> ownership_gate E C ce p c (ce_now ce) = None"
    and ch: "after_chain E p c (after_egress p c ?d0) = Inr d2"
    and sw: "res_action (relay_switch E C ce ra rd msg c (dec_lineage ?d0 \<noteq> None)
        (after_capability (ce_capability ce) d2) ev
        (advance_capability (ce_capability ce) (if b then count_chains ?q else ?q))) = Forward"
    unfolding decide_def Let_def cong
    by (auto split: option.splits sum.splits if_splits)
  have ctx2: "context_of (advance_capability (ce_capability ce) (if b then count_chains ?q else ?q)) = context_of p"
    by simp
  from switch_forward [OF sw] have fw: "dec_action (after_capability (ce_capability ce) d2) \<noteq> ActionDeny"
    "ce_commit_ok ce"
    "dec_action (after_capability (ce_capability ce) d2) = ActionRequireApproval \<Longrightarrow>
       rechecked E C ce c (dec_lineage ?d0 \<noteq> None) p"
    using context_cong(5) [OF ctx2] by auto
  have "dec_action d2 \<noteq> ActionDeny" using fw(1) by (auto simp: after_capability_def split: if_splits)
  then have "dec_action ?d0 \<noteq> ActionDeny"
    using ch by (auto simp: after_chain_def after_egress_def Let_def split: if_splits)
  from that [OF this own ch fw(1) fw(3) fw(2)] show ?thesis .
qed

lemma processed_cong [simp]:
  "identityEvidence (count_processed p) srv = identityEvidence p srv"
  "evaluateRuntimeLimits (count_processed p) n t = evaluateRuntimeLimits p n t"
  "px_ia_keys (count_processed p) = px_ia_keys p"
  "px_redactor (count_processed p) = px_redactor p"
  "kinetic_reason (count_processed p) = kinetic_reason p"
  "authorized_call ce (count_processed p) c = authorized_call ce p c"
  by (simp_all add: identityEvidence_def attestationShapeMatches_def evaluateRuntimeLimits_def
      kinetic_reason_def authorized_call_def count_processed_def split: option.split)

lemma early_gates_None:
  assumes "early_gates ce p c = None"
  shows "\<not> ce_revoked ce" and "identityEvidence p (cl_server c) \<in> {None, Some (Inr ())}"
    and "dec_action (evaluateRuntimeLimits p (ce_argument_bytes ce) (ce_now_limits ce)) \<noteq> ActionDeny"
  using assms by (auto simp: early_gates_def Let_def split: if_splits option.splits sum.splits)

lemma authorized_call_keeps [simp]:
  "cl_server (authorized_call ce p c) = cl_server c" "cl_tool (authorized_call ce p c) = cl_tool c"
  "cl_arguments (authorized_call ce p c) = cl_arguments c"
  by (auto simp: authorized_call_def split: prod.splits option.splits)

definition run_instruction_gate ::
    "crypto_env \<Rightarrow> sign_env \<Rightarrow> call_env \<Rightarrow> call \<Rightarrow> proxy \<Rightarrow> (bool \<times> string) \<times> session" where
  "run_instruction_gate C G ce c p =
     instruction_gate C G (px_ia_keys p) (ce_now_unix ce) (ce_ia ce (cl_raw c)) (cl_tool c) (cl_server c) (px_session p)"

lemma process_forward:
  assumes "res_action (processToolsCall E X C G ce c0 p) = Forward"
  obtains c1 s ra rd msg where "strip_call ce c0 = Some c1"
    and "early_gates ce (count_processed p) c1 = None"
    and "fst (fst (run_instruction_gate C G ce c1 p))" and "s = snd (run_instruction_gate C G ce c1 p)"
    and "sensitive_path p (authorized_call ce p c1) = None"
    and "res_action (decide E C ce ra rd msg (authorized_call ce p c1) (count_processed p\<lparr>px_session := s\<rparr>)) = Forward"
proof -
  have sp: "sensitive_path (count_processed p\<lparr>px_session := s\<rparr>) c = sensitive_path p c" for s c
    by (simp add: sensitive_path_def count_processed_def)
  from assms that show ?thesis
    unfolding processToolsCall_def after_instruction_def run_instruction_gate_def Let_def
    by (auto simp: sp split: option.splits prod.splits bool.splits)
qed

text \<open>The final decision asks for approval as soon as one stage asks and none denies.\<close>

lemma asked_final:
  assumes "Validate E (eng_policy (px_engine p)) = Inr ()"
    and "after_chain E p c (after_egress p c d0) = Inr d2"
    and "dec_action (after_capability oc d2) \<noteq> ActionDeny"
    and "dec_action d0 = ActionRequireApproval
      \<or> evaluateEgressControls (eng_policy (px_engine p)) (px_session p) (cl_server c) (cl_tool c) \<noteq> None
      \<or> dec_action (checkChain E p c) = ActionRequireApproval \<or> capability_pause oc \<noteq> []"
    and "dec_action d0 \<noteq> ActionDeny"
  shows "dec_action (after_capability oc d2) = ActionRequireApproval"
proof -
  let ?d1 = "after_egress p c d0"
  have eg: "dec_action (etd_decision e) \<in> {ActionDeny, ActionRequireApproval}"
    if "evaluateEgressControls (eng_policy (px_engine p)) (px_session p) (cl_server c) (cl_tool c) = Some e" for e
    using that check_egress_ok [OF Validate_parts(4) [OF assms(1)]]
    by (auto simp: evaluateEgressControls_def egress_loop_first list_all_iff dest!: find_SomeD)
  have nd: "dec_action d2 \<noteq> ActionDeny" using assms(3) by (auto simp: after_capability_def split: if_splits)
  then have nd1: "dec_action ?d1 \<noteq> ActionDeny"
    using assms(2) by (auto simp: after_chain_def Let_def split: if_splits)
  have "dec_action ?d1 = ActionRequireApproval" if "dec_action d0 = ActionRequireApproval
      \<or> evaluateEgressControls (eng_policy (px_engine p)) (px_session p) (cl_server c) (cl_tool c) \<noteq> None"
    using that nd1 eg assms(5) by (auto simp: after_egress_def split: option.splits)
  then have "dec_action d2 = ActionRequireApproval" if "capability_pause oc = []"
    using that assms(2,4) nd1 by (auto simp: after_chain_def Let_def split: if_splits)
  then show ?thesis using nd by (auto simp: after_capability_def)
qed

end
