(* ===== verification/Tools_Call_Properties.thy ===== *)
theory Tools_Call_Properties
  imports Tools_Call
begin

text \<open>
  The properties of the whole tools/call pipeline: what a relayed call has passed, that no stage
  that asks for a human is bypassed, that every call is accounted for exactly once, that a denied
  call leaves no trace in the session, and that taints are enforced end to end.
\<close>

section \<open>The session through the pipeline\<close>

lemma gate_keeps:
  assumes "s = snd (run_instruction_gate C G ce c p)"
  shows "ses_taints s = ses_taints (px_session p) \<and> ses_tool_calls s = ses_tool_calls (px_session p)
     \<and> ses_spawn_depth s = ses_spawn_depth (px_session p)"
proof -
  have v: "ses_taints s' = ses_taints (px_session p) \<and> ses_tool_calls s' = ses_tool_calls (px_session p)
     \<and> ses_spawn_depth s' = ses_spawn_depth (px_session p)"
    if "s' = snd (verifyInstructionAuthorityAssertion G ks now env st tool srv (px_session p))"
    for s' ks now env st tool srv
    using that
    by (cases rule: verify_session [of G ks now env st tool srv "px_session p"])
       (simp_all add: consume_keeps_rest)
  show ?thesis
    using assms unfolding run_instruction_gate_def instruction_gate_def
    by (auto split: option.splits sum.splits if_splits prod.splits dest: v [OF sym, OF arg_cong [where f = snd]])
qed

text \<open>Relaying marks the taints of the call on the session it ends with.\<close>

definition marked :: "go_env \<Rightarrow> args \<Rightarrow> call \<Rightarrow> policy \<Rightarrow> session \<Rightarrow> bool" where
  "marked E ra c pol s \<longleftrightarrow>
     (\<exists>now s0. s = fst (markMatchingTaints E now (cl_server c) (cl_tool c) (Some ra) (Some pol) s0))"

lemma commit_marks:
  assumes "res_action (commit_and_relay E ce ra msg c b count reason ev p) = Forward"
    and "count = count_allowed \<or> count = count_approved"
  shows "marked E ra c (eng_policy (px_engine p)) (px_session (res_proxy (commit_and_relay E ce ra msg c b count reason ev p)))"
proof -
  let ?m = "markMatchingTaints E (ce_now_grant ce) (cl_server c) (cl_tool c) (Some ra) (Some (eng_policy (px_engine p))) (px_session p)"
  have "ce_commit_ok ce" using assms(1) commit_forward by blast
  then have "px_session (res_proxy (commit_and_relay E ce ra msg c b count reason ev p)) = fst ?m"
    using assms(2) by (auto simp: commit_and_relay_def split: prod.splits)
  then show ?thesis unfolding marked_def by blast
qed

lemma granted_marks:
  assumes "res_action (granted E C ce ra rd msg c hl ev p) = Forward"
  shows "marked E ra c (eng_policy (px_engine p)) (px_session (res_proxy (granted E C ce ra rd msg c hl ev p)))"
proof -
  from assms obtain s b reason where
    g: "granted E C ce ra rd msg c hl ev p = commit_and_relay E ce ra msg c b count_approved reason ev (p\<lparr>px_session := s\<rparr>)"
    by (auto simp: granted_def Let_def split: option.splits prod.splits if_splits sum.splits)
  from commit_marks [of E ce ra msg c b count_approved reason ev "p\<lparr>px_session := s\<rparr>"] assms show ?thesis
    unfolding g by simp
qed

lemma approval_marks:
  assumes "res_action (approval_branch E C ce ra rd msg c hl reason ev p) = Forward"
  shows "marked E ra c (eng_policy (px_engine p))
     (px_session (res_proxy (approval_branch E C ce ra rd msg c hl reason ev p)))"
proof -
  from assms obtain ev' s where
    g: "approval_branch E C ce ra rd msg c hl reason ev p = granted E C ce ra rd msg c hl ev' (count_approvals (p\<lparr>px_session := s\<rparr>))"
    by (auto simp: approval_branch_def Let_def split: option.splits approval_outcome.splits)
  from granted_marks [of E C ce ra rd msg c hl ev' "count_approvals (p\<lparr>px_session := s\<rparr>)"] assms show ?thesis
    unfolding g by simp
qed

lemma switch_marks:
  assumes "res_action (relay_switch E C ce ra rd msg c hl d ev p) = Forward"
  shows "marked E ra c (eng_policy (px_engine p)) (px_session (res_proxy (relay_switch E C ce ra rd msg c hl d ev p)))"
proof -
  from assms consider
    (ask) reason s where "relay_switch E C ce ra rd msg c hl d ev p =
        approval_branch E C ce ra rd msg c hl reason ev (p\<lparr>px_session := s\<rparr>)"
  | (ask0) reason where "relay_switch E C ce ra rd msg c hl d ev p = approval_branch E C ce ra rd msg c hl reason ev p"
  | (go) b reason s where "relay_switch E C ce ra rd msg c hl d ev p =
        commit_and_relay E ce ra msg c b count_allowed reason ev (p\<lparr>px_session := s\<rparr>)"
  | (go0) b reason where "relay_switch E C ce ra rd msg c hl d ev p =
        commit_and_relay E ce ra msg c b count_allowed reason ev p"
    by (auto simp: relay_switch_def Let_def split: option.splits prod.splits if_splits)
  then show ?thesis
  proof cases
    case ask
    with approval_marks [of E C ce ra rd msg c hl reason ev "p\<lparr>px_session := s\<rparr>"] assms show ?thesis by simp
  next
    case ask0
    with approval_marks [of E C ce ra rd msg c hl reason ev p] assms show ?thesis by simp
  next
    case go
    with commit_marks [of E ce ra msg c b count_allowed reason ev "p\<lparr>px_session := s\<rparr>"] assms show ?thesis by simp
  next
    case go0
    with commit_marks [of E ce ra msg c b count_allowed reason ev p] assms show ?thesis by simp
  qed
qed

lemma decide_marks:
  assumes "res_action (decide E C ce ra rd msg c p) = Forward"
  shows "marked E ra c (eng_policy (px_engine p)) (px_session (res_proxy (decide E C ce ra rd msg c p)))"
proof -
  let ?q = "assessTrajectory c p"
  from assms obtain hl d ev b where
    g: "decide E C ce ra rd msg c p = relay_switch E C ce ra rd msg c hl d ev
          (advance_capability (ce_capability ce) (if b then count_chains ?q else ?q))"
    unfolding decide_def Let_def by (auto split: option.splits sum.splits)
  have "context_of (advance_capability (ce_capability ce) (if b then count_chains ?q else ?q)) = context_of p" by simp
  then have "px_engine (advance_capability (ce_capability ce) (if b then count_chains ?q else ?q)) = px_engine p"
    by (simp add: context_of_def)
  with switch_marks assms g show ?thesis by metis
qed

lemma process_marks:
  assumes "res_action (processToolsCall E X C G ce c0 p) = Forward" and "strip_call ce c0 = Some c"
  shows "marked E (fst (RedactArgs X (px_redactor p) (extractArgs (cl_arguments c)))) c (eng_policy (px_engine p))
     (px_session (res_proxy (processToolsCall E X C G ce c0 p)))"
proof -
  let ?c = "authorized_call ce p c" and ?ra = "RedactArgs X (px_redactor p) (extractArgs (cl_arguments c))"
  from assms obtain s where
    g: "processToolsCall E X C G ce c0 p = decide E C ce (fst ?ra) (snd ?ra)
          (relayed_message ce ?c (fst ?ra) (snd ?ra)) ?c (count_processed p\<lparr>px_session := s\<rparr>)"
    unfolding processToolsCall_def after_instruction_def Let_def
    by (auto simp: case_prod_beta split: option.splits bool.splits)
  from decide_marks [of E C ce "fst ?ra" "snd ?ra" "relayed_message ce ?c (fst ?ra) (snd ?ra)" ?c
      "count_processed p\<lparr>px_session := s\<rparr>"] assms(1)
  show ?thesis unfolding g marked_def by simp
qed

lemma marked_taint:
  assumes "marked E ra c pol s" and "rule \<in> set (pol_taints pol)" and "tn_name rule \<noteq> []"
    and "taintSourceMatches E rule (cl_server c) (cl_tool c) (Some ra) = Some v"
  shows "HasTaint (tn_name rule) s"
  using assms mark_taints_has by (auto simp: marked_def markMatchingTaints_def)

text \<open>What the stages said of a relayed call.\<close>

lemma process_decided:
  assumes "res_action (processToolsCall E X C G ce c0 p) = Forward"
  obtains c1 d2 where "strip_call ce c0 = Some c1"
    and "early_gates ce (count_processed p) c1 = None" and "fst (fst (run_instruction_gate C G ce c1 p))"
    and "sensitive_path p (authorized_call ce p c1) = None"
    and "dec_action (policy_decision E ce c1 p) \<noteq> ActionDeny"
    and "dec_action (policy_decision E ce c1 p) \<in> {ActionAllow, ActionRequireApproval} \<Longrightarrow>
           ownership_gate E C ce p (authorized_call ce p c1) (ce_now ce) = None"
    and "after_chain E (p\<lparr>px_session := snd (run_instruction_gate C G ce c1 p)\<rparr>) (authorized_call ce p c1)
           (after_egress (p\<lparr>px_session := snd (run_instruction_gate C G ce c1 p)\<rparr>) (authorized_call ce p c1)
             (policy_decision E ce c1 p)) = Inr d2"
    and "dec_action (after_capability (ce_capability ce) d2) \<noteq> ActionDeny"
    and "dec_action (after_capability (ce_capability ce) d2) = ActionRequireApproval \<Longrightarrow>
           rechecked E C ce (authorized_call ce p c1) (dec_lineage (policy_decision E ce c1 p) \<noteq> None) p"
    and "ce_commit_ok ce"
proof -
  from assms obtain c1 s ra rd msg where st: "strip_call ce c0 = Some c1"
    and eg: "early_gates ce (count_processed p) c1 = None"
    and ig: "fst (fst (run_instruction_gate C G ce c1 p))" and s: "s = snd (run_instruction_gate C G ce c1 p)"
    and sp: "sensitive_path p (authorized_call ce p c1) = None"
    and fw: "res_action (decide E C ce ra rd msg (authorized_call ce p c1) (count_processed p\<lparr>px_session := s\<rparr>)) = Forward"
    by (rule process_forward)
  have ctx: "context_of (count_processed p\<lparr>px_session := s\<rparr>) = context_of (p\<lparr>px_session := s\<rparr>)" for s
    by (simp add: context_of_def count_processed_def)
  from fw that [OF st eg ig sp] s show ?thesis
    by (elim decide_forward) (simp add: context_cong(2,4) [OF ctx])
qed

lemma not_denied_stages:
  assumes "after_chain E q c d = Inr d2" and "dec_action (after_capability oc d2) \<noteq> ActionDeny"
  shows "dec_action d \<noteq> ActionDeny" and "dec_action (checkChain E q c) \<noteq> ActionDeny"
proof -
  have "dec_action d2 \<noteq> ActionDeny" using assms(2) by (auto simp: after_capability_def split: if_splits)
  with assms(1) show "dec_action d \<noteq> ActionDeny" and "dec_action (checkChain E q c) \<noteq> ActionDeny"
    by (auto simp: after_chain_def Let_def split: if_splits)
qed

lemma sink_needs_approval:
  assumes "res_action (processToolsCall E X C G ce c0 p) = Forward" and "strip_call ce c0 = Some c"
    and "Validate E (eng_policy (px_engine p)) = Inr ()"
    and "control \<in> set (pol_egress_controls (eng_policy (px_engine p)))"
    and "egress_applies (px_session p) (cl_server c) (cl_tool c) control"
  shows "ce_approval ce = Approved"
proof -
  from assms(1) obtain c1 d2 where st: "strip_call ce c0 = Some c1"
    and d0: "dec_action (policy_decision E ce c1 p) \<noteq> ActionDeny"
    and ch: "after_chain E (p\<lparr>px_session := snd (run_instruction_gate C G ce c1 p)\<rparr>) (authorized_call ce p c1)
           (after_egress (p\<lparr>px_session := snd (run_instruction_gate C G ce c1 p)\<rparr>) (authorized_call ce p c1)
             (policy_decision E ce c1 p)) = Inr d2"
    and nd: "dec_action (after_capability (ce_capability ce) d2) \<noteq> ActionDeny"
    and rc: "dec_action (after_capability (ce_capability ce) d2) = ActionRequireApproval \<Longrightarrow>
           rechecked E C ce (authorized_call ce p c1) (dec_lineage (policy_decision E ce c1 p) \<noteq> None) p"
    by (rule process_decided) blast
  let ?s = "snd (run_instruction_gate C G ce c1 p)"
  have "c1 = c" using st assms(2) by simp
  moreover have "egress_applies ?s srv tool k = egress_applies (px_session p) srv tool k" for srv tool k
    using gate_keeps [of ?s] by (simp add: egress_applies_def HasTaint_def GetTaint_def)
  ultimately have "evaluateEgressControls (eng_policy (px_engine p)) ?s (cl_server c1) (cl_tool c1) \<noteq> None"
    using assms(4,5) by (auto simp: evaluateEgressControls_def egress_loop_first find_None_iff_all)
  with asked_final [OF _ ch nd _ d0] assms(3)
  have "dec_action (after_capability (ce_capability ce) d2) = ActionRequireApproval" by simp
  from rc [OF this] show ?thesis by (simp add: rechecked_def)
qed

lemma pause_needs_approval:
  assumes "res_action (processToolsCall E X C G ce c0 p) = Forward" and "capability_pause (ce_capability ce) \<noteq> []"
  shows "ce_approval ce = Approved"
proof -
  from assms(1) obtain c1 d2 where
    nd: "dec_action (after_capability (ce_capability ce) d2) \<noteq> ActionDeny"
    and rc: "dec_action (after_capability (ce_capability ce) d2) = ActionRequireApproval \<Longrightarrow>
           rechecked E C ce (authorized_call ce p c1) (dec_lineage (policy_decision E ce c1 p) \<noteq> None) p"
    by (rule process_decided) blast
  have "dec_action (after_capability (ce_capability ce) d2) = ActionRequireApproval"
    using nd assms(2) by (auto simp: after_capability_def split: if_splits)
  from rc [OF this] show ?thesis by (simp add: rechecked_def)
qed

section \<open>Denied calls\<close>

text \<open>Two sessions that agree on taints, recorded calls and delegation depth; nonces may differ,
  because a nonce stays consumed when a later gate denies.\<close>

definition undisturbed :: "session \<Rightarrow> session \<Rightarrow> bool" where
  "undisturbed s s' \<longleftrightarrow> ses_taints s' = ses_taints s \<and> ses_tool_calls s' = ses_tool_calls s
     \<and> ses_spawn_depth s' = ses_spawn_depth s"

lemma undisturbed_refl [simp]: "undisturbed s s"
  by (simp add: undisturbed_def)

lemma reserve_release:
  assumes "tryReserveDelegation pol s srv tool = ((info, b), s')" and "0 \<le> ses_spawn_depth s"
  shows "undisturbed s (if b then ReleaseDelegation s' else s')" and "info \<noteq> None \<Longrightarrow> \<not> b"
  using assms
  by (auto simp: tryReserveDelegation_def AddCheckDelegation_def ReleaseDelegation_def undisturbed_def Let_def
      split: option.splits if_splits prod.splits bool.splits)

lemma denied_session [simp]: "px_session (res_proxy (denied p r ev)) = px_session p"
  by (simp add: denied_def)

lemma release_session: "px_session (release_if b p) = (if b then ReleaseDelegation (px_session p) else px_session p)"
  by (simp add: release_if_def)

lemma commit_denied:
  assumes "res_action (commit_and_relay E ce ra msg c b count reason ev p) = Denied"
  shows "px_session (res_proxy (commit_and_relay E ce ra msg c b count reason ev p)) = px_session (release_if b p)"
  using assms by (auto simp: commit_and_relay_def split: prod.splits if_splits)

lemma granted_denied:
  assumes "res_action (granted E C ce ra rd msg c hl ev p) = Denied" and "0 \<le> ses_spawn_depth (px_session p)"
  shows "undisturbed (px_session p) (px_session (res_proxy (granted E C ce ra rd msg c hl ev p)))"
proof (cases "ownership_gate E C ce p c (ce_now_grant ce)")
  case (Some d)
  then show ?thesis by (simp add: granted_def)
next
  case None
  obtain info b s where t: "tryReserveDelegation (Some (eng_policy (px_engine p))) (px_session p) (cl_server c) (cl_tool c)
      = ((info, b), s)" by (metis prod.exhaust)
  note r = reserve_release [OF t assms(2)]
  show ?thesis
    using assms(1) None t r
    by (cases info) (auto simp: granted_def Let_def release_session commit_denied split: if_splits sum.splits)
qed

lemma approval_denied:
  assumes "res_action (approval_branch E C ce ra rd msg c hl reason ev p) = Denied"
    and "0 \<le> ses_spawn_depth (ce_wait ce (px_session p))"
  shows "undisturbed (px_session p) (px_session (res_proxy (approval_branch E C ce ra rd msg c hl reason ev p)))
     \<or> undisturbed (ce_wait ce (px_session p)) (px_session (res_proxy (approval_branch E C ce ra rd msg c hl reason ev p)))"
proof -
  let ?p = "count_approvals (p\<lparr>px_session := ce_wait ce (px_session p)\<rparr>)"
  show ?thesis
    using assms granted_denied [of E C ce ra rd msg c hl _ ?p]
    by (auto simp: approval_branch_def Let_def split: option.splits approval_outcome.splits)
qed

lemma switch_denied:
  assumes "res_action (relay_switch E C ce ra rd msg c hl d ev p) = Denied"
    and "0 \<le> ses_spawn_depth (px_session p)" and "0 \<le> ses_spawn_depth (ce_wait ce (px_session p))"
  shows "undisturbed (px_session p) (px_session (res_proxy (relay_switch E C ce ra rd msg c hl d ev p)))
     \<or> undisturbed (ce_wait ce (px_session p)) (px_session (res_proxy (relay_switch E C ce ra rd msg c hl d ev p)))"
proof (cases "dec_action d = ActionAllow")
  case True
  obtain info b s where t: "tryReserveDelegation (Some (eng_policy (px_engine p))) (px_session p) (cl_server c) (cl_tool c)
      = ((info, b), s)" by (metis prod.exhaust)
  note r = reserve_release [OF t assms(2)]
  show ?thesis
    using assms(1) True t r
    by (cases info) (auto simp: relay_switch_def Let_def release_session commit_denied split: if_splits)
next
  case False
  then show ?thesis
    using assms approval_denied [of E C ce ra rd msg c hl "dec_reason d" ev p]
    by (auto simp: relay_switch_def Let_def release_session commit_denied split: if_splits)
qed

lemma decide_denied:
  assumes "res_action (decide E C ce ra rd msg c p) = Denied"
    and "0 \<le> ses_spawn_depth (px_session p)" and "0 \<le> ses_spawn_depth (ce_wait ce (px_session p))"
  shows "undisturbed (px_session p) (px_session (res_proxy (decide E C ce ra rd msg c p)))
     \<or> undisturbed (ce_wait ce (px_session p)) (px_session (res_proxy (decide E C ce ra rd msg c p)))"
proof -
  let ?q = "assessTrajectory c p"
  let ?n = "\<lambda>b. advance_capability (ce_capability ce) (if b then count_chains ?q else ?q)"
  have ctx: "px_session (?n b) = px_session p" "px_session ?q = px_session p" for b
  proof -
    have "context_of (?n b) = context_of p" by simp
    then show "px_session (?n b) = px_session p" by (simp add: context_of_def)
    have "context_of ?q = context_of p" by simp
    then show "px_session ?q = px_session p" by (simp add: context_of_def)
  qed
  let ?d = "policy_decision E ce c p"
  let ?own = "if dec_action ?d = ActionAllow \<or> dec_action ?d = ActionRequireApproval
      then ownership_gate E C ce ?q c (ce_now ce) else None"
  consider (deny) q r ev where "decide E C ce ra rd msg c p = denied q r ev" "px_session q = px_session p"
    | (switch) hl d ev b where "decide E C ce ra rd msg c p = relay_switch E C ce ra rd msg c hl d ev (?n b)"
  proof (cases ?own)
    case (Some x)
    then have "decide E C ce ra rd msg c p = denied ?q (od_reason x) [EvDenied (withRedactionNote (od_reason x) rd)]"
      unfolding decide_def Let_def by simp
    then show ?thesis using that(1) ctx(2) by blast
  next
    case None
    show ?thesis
    proof (cases "after_chain E ?q c (after_egress ?q c ?d)")
      case (Inl cd)
      with None have "\<exists>r ev. decide E C ce ra rd msg c p = denied (count_chains ?q) r ev"
        unfolding decide_def Let_def by auto
      then show ?thesis using that(1) ctx(2) by (metis engine_update(6))
    next
      case (Inr d2)
      with None have "\<exists>hl d ev b. decide E C ce ra rd msg c p = relay_switch E C ce ra rd msg c hl d ev (?n b)"
        unfolding decide_def Let_def by auto
      then show ?thesis using that(2) by blast
    qed
  qed
  then show ?thesis
  proof cases
    case deny
    then show ?thesis by simp
  next
    case switch
    with switch_denied [of E C ce ra rd msg c hl d ev "?n b"] assms ctx(1) show ?thesis by simp
  qed
qed

lemma gate_undisturbed: "undisturbed (px_session p) (snd (run_instruction_gate C G ce c p))"
  using gate_keeps [OF refl] by (simp add: undisturbed_def)

lemma process_shape:
  obtains (early) q r ev where "processToolsCall E X C G ce c p = denied q r ev" "px_session q = px_session p"
  | (gate) q r ev c1 where "processToolsCall E X C G ce c p = denied q r ev"
        "px_session q = snd (run_instruction_gate C G ce c1 p)"
  | (decide) ra rd msg c1 where "processToolsCall E X C G ce c p =
        decide E C ce ra rd msg (authorized_call ce p c1) (count_processed p\<lparr>px_session := snd (run_instruction_gate C G ce c1 p)\<rparr>)"
proof (cases "strip_call ce c")
  case None
  with early [of "count_processed p"] show ?thesis by (simp add: processToolsCall_def)
next
  case (Some c1)
  show ?thesis
  proof (cases "early_gates ce (count_processed p) c1")
    case (Some reason)
    with \<open>strip_call ce c = Some c1\<close> early [of "count_processed p"] show ?thesis by (simp add: processToolsCall_def)
  next
    case None
    obtain ok reason s where g: "run_instruction_gate C G ce c1 p = ((ok, reason), s)" by (metis prod.exhaust)
    let ?p = "count_processed p\<lparr>px_session := s\<rparr>" and ?c = "authorized_call ce p c1"
    have pr: "processToolsCall E X C G ce c p =
        (if ok then after_instruction E X C ce ?c ?p else denied ?p reason [EvDenied reason])"
      using g None Some by (simp add: processToolsCall_def run_instruction_gate_def)
    show ?thesis
    proof (cases "ok \<and> sensitive_path ?p ?c = None")
      case True
      let ?ra = "RedactArgs X (px_redactor p) (extractArgs (cl_arguments c1))"
      from True pr g have "processToolsCall E X C G ce c p = decide E C ce (fst ?ra) (snd ?ra)
          (relayed_message ce ?c (fst ?ra) (snd ?ra)) ?c
          (count_processed p\<lparr>px_session := snd (run_instruction_gate C G ce c1 p)\<rparr>)"
        by (simp add: after_instruction_def case_prod_beta)
      then show ?thesis by (rule decide)
    next
      case False
      then obtain r ev where "processToolsCall E X C G ce c p = denied ?p r ev"
        using pr by (cases ok) (auto simp: after_instruction_def case_prod_beta)
      then show ?thesis by (rule gate [where ?c1.0 = c1]) (simp add: g)
    qed
  qed
qed

lemma process_denied:
  assumes "res_action (processToolsCall E X C G ce c p) = Denied"
    and "0 \<le> ses_spawn_depth (px_session p)" and "\<And>s. 0 \<le> ses_spawn_depth s \<Longrightarrow> 0 \<le> ses_spawn_depth (ce_wait ce s)"
  shows "\<exists>s. undisturbed (px_session p) s
     \<and> (undisturbed s (px_session (res_proxy (processToolsCall E X C G ce c p)))
        \<or> undisturbed (ce_wait ce s) (px_session (res_proxy (processToolsCall E X C G ce c p))))"
proof -
  show ?thesis
  proof (cases rule: process_shape [of E X C G ce c p])
    case early
    then show ?thesis using undisturbed_refl by (metis denied_session)
  next
    case gate
    then show ?thesis using gate_undisturbed undisturbed_refl by (metis denied_session)
  next
    case (decide ra rd msg c1)
    let ?s = "snd (run_instruction_gate C G ce c1 p)"
    have u: "undisturbed (px_session p) ?s" by (rule gate_undisturbed)
    then have "0 \<le> ses_spawn_depth ?s" using assms(2) by (simp add: undisturbed_def)
    from decide_denied [of E C ce ra rd msg "authorized_call ce p c1" "count_processed p\<lparr>px_session := ?s\<rparr>"]
      assms(1) decide this assms(3) [OF this] u show ?thesis by auto
  qed
qed

section \<open>An example proxy\<close>

definition demo_tool :: "string \<Rightarrow> tool_rule" where
  "demo_tool n = tool_rule_zero\<lparr>tool_name := n, tool_allowed := True\<rparr>"

definition demo_policy :: policy where
  "demo_policy = taint_policy\<lparr>pol_version := ''1.0'', pol_default_action := ActionDeny,
     pol_servers := [server_zero\<lparr>srv_name := ''fs'', srv_allowed := True, srv_tools := [demo_tool ''read_file'']\<rparr>,
                     server_zero\<lparr>srv_name := ''mail'', srv_allowed := True, srv_tools := [demo_tool ''send_mail'']\<rparr>]\<rparr>"

definition demo_proxy :: proxy where
  "demo_proxy = \<lparr>px_engine = NewEngine (\<lambda>_. []) demo_policy, px_session = NewSession ''s'' ''c'' 0,
     px_advisor = None,
     px_metrics = \<lparr>m_processed = 0, m_denied = 0, m_allowed = 0, m_approved = 0, m_approvals = 0, m_chains = 0, m_anomalies = 0\<rparr>,
     px_redactor = \<lparr>re_patterns = [], re_output_patterns = [], re_file_patterns = []\<rparr>,
     px_client_id = ''c'', px_verified = None, px_session_id = ''s'', px_session_epoch = 1, px_ia_keys = None,
     px_launch_shape = None, px_resolved_digest = None, px_cap_step = 0, px_cap_last_hash = []\<rparr>"

definition demo_env :: "cap_outcome \<Rightarrow> approval_outcome \<Rightarrow> call_env" where
  "demo_env oc ap = \<lparr>ce_rewrite = (\<lambda>raw m. Some raw), ce_revoked = False, ce_argument_bytes = 10, ce_now_limits = 5,
     ce_now_unix = 5, ce_ia = (\<lambda>raw. \<lparr>ii_envelope = Inl [], ii_stripped = None\<rparr>), ce_clk = (\<lambda>n. 5), ce_now = 5,
     ce_signed = True, ce_capability = oc, ce_approval = ap, ce_wait = (\<lambda>s. s), ce_now_grant = 6,
     ce_revoked_grant = False, ce_commit_ok = True\<rparr>"

definition demo_regex :: regex_lib where
  "demo_regex = \<lparr>rx_compiles = (\<lambda>p. True), rx_match = (\<lambda>p s. False), rx_replace = (\<lambda>p r s. s)\<rparr>"

definition read_env :: call where
  "read_env = \<lparr>cl_server = ''fs'', cl_tool = ''read_file'',
     cl_arguments = RawJson (JObj [(''name'', JStr ''/app/.env'')]), cl_raw = ''raw''\<rparr>"

definition send_env :: call where
  "send_env = \<lparr>cl_server = ''mail'', cl_tool = ''send_mail'',
     cl_arguments = RawJson (JObj [(''to'', JStr ''a@b'')]), cl_raw = ''raw''\<rparr>"

abbreviation demo_run :: "call_env \<Rightarrow> call \<Rightarrow> proxy \<Rightarrow> call_result" where
  "demo_run \<equiv> processToolsCall example_env demo_regex example_crypto example_sign"

lemma demo_forward: "res_action (demo_run (demo_env CapOff Approved) read_env demo_proxy) = Forward"
  by code_simp

lemma demo_paused: "res_action (demo_run (demo_env (CapReceipt ''h'' True) Approved) read_env demo_proxy) = Forward"
  by code_simp

lemma demo_refused: "res_action (demo_run (demo_env (CapReceipt ''h'' True) (NotApproved ''no'')) read_env demo_proxy) = Denied"
  by code_simp

lemma demo_error_approved: "res_action (demo_run (demo_env (CapError (Some h)) Approved) read_env demo_proxy) = Forward"
  by code_simp

lemma demo_strip: "strip_call (demo_env oc ap) read_env = Some read_env" "strip_call (demo_env oc ap) send_env = Some send_env"
  by (code_simp, code_simp)

section \<open>Properties\<close>



lemma asked_rechecked:
  assumes "res_action (processToolsCall E X C G ce c0 p) = Forward"
    and "Validate E (eng_policy (px_engine p)) = Inr ()"
    and "strip_call ce c0 = Some c1" and "c = authorized_call ce p c1"
    and "q = p\<lparr>px_session := snd (run_instruction_gate C G ce c1 p)\<rparr>"
    and "dec_action (policy_decision E ce c p) = ActionRequireApproval
      \<or> evaluateEgressControls (eng_policy (px_engine p)) (px_session q) (cl_server c) (cl_tool c) \<noteq> None
      \<or> dec_action (checkChain E q c) = ActionRequireApproval \<or> capability_pause (ce_capability ce) \<noteq> []"
  shows "rechecked E C ce c (dec_lineage (policy_decision E ce c p) \<noteq> None) p"
proof -
  from assms(1) obtain c1' d2 where st: "strip_call ce c0 = Some c1'"
    and d0: "dec_action (policy_decision E ce c1' p) \<noteq> ActionDeny"
    and ch: "after_chain E (p\<lparr>px_session := snd (run_instruction_gate C G ce c1' p)\<rparr>) (authorized_call ce p c1')
           (after_egress (p\<lparr>px_session := snd (run_instruction_gate C G ce c1' p)\<rparr>) (authorized_call ce p c1')
             (policy_decision E ce c1' p)) = Inr d2"
    and nd: "dec_action (after_capability (ce_capability ce) d2) \<noteq> ActionDeny"
    and rc: "dec_action (after_capability (ce_capability ce) d2) = ActionRequireApproval \<Longrightarrow>
           rechecked E C ce (authorized_call ce p c1') (dec_lineage (policy_decision E ce c1' p) \<noteq> None) p"
    by (rule process_decided) blast
  have c1: "c1' = c1" using st assms(3) by simp
  have "dec_action (after_capability (ce_capability ce) d2) = ActionRequireApproval"
    using asked_final [OF _ ch nd _ d0] assms(2,4-6) c1 by simp
  from rc [OF this] show ?thesis using c1 assms(4) by simp
qed

text \<open>C2: Under a validated policy no stage that asks for a human is bypassed. If the policy asks for
  approval, or any egress control matches, or a chain rule asks, or the capability evaluator
  pauses, then a relayed call was approved, and ownership, kill switch, lineage and verified actor
  held again at the moment of the approval.\<close>

theorem approval_never_bypassed:
  assumes "res_action (processToolsCall E X C G ce c0 p) = Forward"
    and "Validate E (eng_policy (px_engine p)) = Inr ()"
    and "strip_call ce c0 = Some c1" and "c = authorized_call ce p c1"
    and "q = p\<lparr>px_session := snd (run_instruction_gate C G ce c1 p)\<rparr>"
    and "dec_action (policy_decision E ce c p) = ActionRequireApproval
      \<or> evaluateEgressControls (eng_policy (px_engine p)) (px_session q) (cl_server c) (cl_tool c) \<noteq> None
      \<or> dec_action (checkChain E q c) = ActionRequireApproval \<or> capability_pause (ce_capability ce) \<noteq> []"
  shows "rechecked E C ce c (dec_lineage (policy_decision E ce c p) \<noteq> None) p"
  using assms by (rule asked_rechecked)

theorem approval_never_bypassed_witness:
  "rechecked example_env example_crypto (demo_env (CapReceipt ''h'' True) Approved)
     (authorized_call (demo_env (CapReceipt ''h'' True) Approved) demo_proxy read_env)
     (dec_lineage (policy_decision example_env (demo_env (CapReceipt ''h'' True) Approved)
        (authorized_call (demo_env (CapReceipt ''h'' True) Approved) demo_proxy read_env) demo_proxy) \<noteq> None) demo_proxy"
proof (rule approval_never_bypassed [OF demo_paused _ demo_strip(1) refl refl])
  show "Validate example_env (eng_policy (px_engine demo_proxy)) = Inr ()" by code_simp
  have "capability_pause (ce_capability (demo_env (CapReceipt ''h'' True) Approved)) \<noteq> []" by code_simp
  then show "dec_action (policy_decision example_env (demo_env (CapReceipt ''h'' True) Approved)
          (authorized_call (demo_env (CapReceipt ''h'' True) Approved) demo_proxy read_env) demo_proxy) = ActionRequireApproval
      \<or> evaluateEgressControls (eng_policy (px_engine demo_proxy))
          (px_session (demo_proxy\<lparr>px_session := snd (run_instruction_gate example_crypto example_sign
              (demo_env (CapReceipt ''h'' True) Approved) read_env demo_proxy)\<rparr>))
          (cl_server (authorized_call (demo_env (CapReceipt ''h'' True) Approved) demo_proxy read_env))
          (cl_tool (authorized_call (demo_env (CapReceipt ''h'' True) Approved) demo_proxy read_env)) \<noteq> None
      \<or> dec_action (checkChain example_env (demo_proxy\<lparr>px_session := snd (run_instruction_gate example_crypto example_sign
              (demo_env (CapReceipt ''h'' True) Approved) read_env demo_proxy)\<rparr>)
          (authorized_call (demo_env (CapReceipt ''h'' True) Approved) demo_proxy read_env)) = ActionRequireApproval
      \<or> capability_pause (ce_capability (demo_env (CapReceipt ''h'' True) Approved)) \<noteq> []" by blast
qed

text \<open>C21: Every call is accounted for exactly once: it is counted as processed, and it is either
  relayed with exactly one committed authorization record and no answer, or denied with exactly
  one answer, no committed record and no message to relay.\<close>

theorem every_call_accounted:
  "outcome_ok (outcome_counts (count_processed p)) (processToolsCall E X C G ce c p)"
  by (rule outcome_process)

text \<open>A denied call leaves no trace in the session: taints, recorded calls and delegation depth are
  as before (or, when the call waited for an approval, as the calls that ran meanwhile left them);
  in particular a reserved delegation unit is given back on every path. Only a nonce may have been
  consumed.\<close>

theorem denied_leaves_session:
  assumes "res_action (processToolsCall E X C G ce c p) = Denied"
    and "0 \<le> ses_spawn_depth (px_session p)"
    and "\<And>s. 0 \<le> ses_spawn_depth s \<Longrightarrow> 0 \<le> ses_spawn_depth (ce_wait ce s)"
  shows "\<exists>s. undisturbed (px_session p) s
     \<and> (undisturbed s (px_session (res_proxy (processToolsCall E X C G ce c p)))
        \<or> undisturbed (ce_wait ce s) (px_session (res_proxy (processToolsCall E X C G ce c p))))"
  using assms by (rule process_denied)

theorem denied_leaves_session_witness:
  "\<exists>s. undisturbed (px_session demo_proxy) s
     \<and> (undisturbed s (px_session (res_proxy (demo_run (demo_env (CapReceipt ''h'' True) (NotApproved ''no'')) read_env demo_proxy)))
        \<or> undisturbed (ce_wait (demo_env (CapReceipt ''h'' True) (NotApproved ''no'')) s)
             (px_session (res_proxy (demo_run (demo_env (CapReceipt ''h'' True) (NotApproved ''no'')) read_env demo_proxy))))"
  by (rule denied_leaves_session [OF demo_refused]) (simp_all add: demo_proxy_def NewSession_def demo_env_def)

text \<open>C20: Taints are enforced end to end. Once a relayed call matched a taint rule, then after any
  further steps of the session, under whatever validated policy is then in force, a call to a sink
  of a control on that taint is denied unless a human approves it.\<close>

theorem tainted_sink_denied:
  assumes "res_action (processToolsCall E X C G ce c0 p) = Forward" and "strip_call ce c0 = Some c"
    and "rule \<in> set (pol_taints (eng_policy (px_engine p)))" and "tn_name rule \<noteq> []"
    and "taintSourceMatches E rule (cl_server c) (cl_tool c)
           (Some (fst (RedactArgs X (px_redactor p) (extractArgs (cl_arguments c))))) = Some v"
    and "session_step\<^sup>*\<^sup>* (px_session (res_proxy (processToolsCall E X C G ce c0 p))) (px_session p')"
    and "Validate E (eng_policy (px_engine p')) = Inr ()"
    and "control \<in> set (pol_egress_controls (eng_policy (px_engine p')))"
    and "eg_when_tainted control = tn_name rule"
    and "strip_call ce' c0' = Some c'" and "matchesAnyNamePattern (eg_sink_tools control) (cl_tool c')"
    and "eg_sink_servers control = [] \<or> matchesAnyNamePattern (eg_sink_servers control) (cl_server c')"
    and "ce_approval ce' \<noteq> Approved"
  shows "res_action (processToolsCall E X C G ce' c0' p') = Denied"
proof (rule ccontr)
  assume "res_action (processToolsCall E X C G ce' c0' p') \<noteq> Denied"
  then have fw: "res_action (processToolsCall E X C G ce' c0' p') = Forward"
    by (cases "res_action (processToolsCall E X C G ce' c0' p')") auto
  have "HasTaint (tn_name rule) (px_session (res_proxy (processToolsCall E X C G ce c0 p)))"
    by (rule marked_taint [OF process_marks [OF assms(1,2)] assms(3-5)])
  then have "HasTaint (tn_name rule) (px_session p')" by (rule HasTaint_stable [OF assms(6)])
  then have "egress_applies (px_session p') (cl_server c') (cl_tool c') control"
    using assms(4,9,11,12) by (simp add: egress_applies_def)
  from sink_needs_approval [OF fw assms(10,7,8) this] assms(13) show False by simp
qed

theorem tainted_sink_denied_witness:
  "res_action (demo_run (demo_env CapOff (NotApproved ''no'')) send_env
     (res_proxy (demo_run (demo_env CapOff Approved) read_env demo_proxy))) = Denied"
proof (rule tainted_sink_denied [OF demo_forward demo_strip(1), where rule = "hd (pol_taints taint_policy)"
      and v = "''/app/.env''" and control = "hd (pol_egress_controls taint_policy)" and c' = send_env])
  show "hd (pol_taints taint_policy) \<in> set (pol_taints (eng_policy (px_engine demo_proxy)))"
    by (simp add: demo_proxy_def demo_policy_def taint_policy_def NewEngine_def)
  show "hd (pol_egress_controls taint_policy) \<in>
      set (pol_egress_controls (eng_policy (px_engine (res_proxy (demo_run (demo_env CapOff Approved) read_env demo_proxy)))))"
    by code_simp
  show "session_step\<^sup>*\<^sup>* (px_session (res_proxy (demo_run (demo_env CapOff Approved) read_env demo_proxy)))
      (px_session (res_proxy (demo_run (demo_env CapOff Approved) read_env demo_proxy)))" by simp
  show "strip_call (demo_env CapOff (NotApproved ''no'')) send_env = Some send_env" by (rule demo_strip)
qed code_simp+

end
