(* ===== verification/Audit_Logger.thy ===== *)
theory Audit_Logger
  imports Redaction
begin

text \<open>
  The audit ledger (\<^verbatim>\<open>src/internal/audit/logger.go\<close>): hash-linked JSONL records appended to one file,
  the durable authorization commit, the poison latch and the recovery of the chain when the file
  is opened again. JSON encoding, decoding and SHA-256 are the parameters of audit_codec; what a
  write and a sync do is an outcome given per operation (a failed or short write may leave a prefix
  in the file). The fields of an event that the logger neither reads nor rewrites are carried in
  ae_other.
\<close>

record lineage_info =
  li_actor_agent_id :: string
  li_parent_agent_id :: string
  li_human_principal_id :: string
  li_grant_id :: string
  li_grant_chain :: "string list option"
  li_capability :: string
  li_resource :: string
  li_effect :: string
  li_trajectory_id :: string
  li_prior_state_hash :: string
  li_rule :: string

record audit_event =
  ae_timestamp :: string
  ae_event_type :: string
  ae_decision :: string
  ae_arguments :: "args option"
  ae_reason :: string
  ae_result_preview :: string
  ae_lineage :: "lineage_info option"
  ae_principal_id :: string
  ae_acting_agent :: string
  ae_transaction_id :: string
  ae_resulting_state :: string
  ae_hash :: string
  ae_prev_hash :: string
  ae_chain_index :: nat
  ae_other :: "(string \<times> json) list"

definition EventToolAllowed :: string where "EventToolAllowed = ''tool_call_allowed''"
definition EventToolDenied :: string where "EventToolDenied = ''tool_call_denied''"
definition EventKineticStopEnforced :: string where "EventKineticStopEnforced = ''kinetic_stop_enforced''"

record audit_codec =
  cd_marshal :: "audit_event \<Rightarrow> string option"
  cd_unmarshal :: "string \<Rightarrow> audit_event option"
  cd_sha256 :: "string \<Rightarrow> string"

record logger =
  lg_file :: string
  lg_patterns :: "string list"
  lg_prev_hash :: string
  lg_chain_index :: nat
  lg_durable :: bool
  lg_poisoned :: bool

datatype audit_error =
    AuditSinkUnhealthy
  | NotDurable
  | NotCommitable
  | MarshalFailed
  | WriteFailed
  | ShortWrite
  | SyncFailed
  | IncompleteTail
  | CorruptRecord

section \<open>Redaction of records\<close>

definition SetRedactionPatterns :: "regex_lib \<Rightarrow> redaction_pattern list \<Rightarrow> logger \<Rightarrow> logger" where
  "SetRedactionPatterns X ps l = l\<lparr>lg_patterns := filter (rx_compiles X) (map rp_regex ps)\<rparr>"

definition audit_redact_string :: "regex_lib \<Rightarrow> string list \<Rightarrow> string \<Rightarrow> string" where
  "audit_redact_string X ps s = (if s = [] then s else fold (\<lambda>re t. rx_replace X re ''[REDACTED]'' t) ps s)"

fun audit_redact_value :: "regex_lib \<Rightarrow> string list \<Rightarrow> json \<Rightarrow> json"
  and audit_redact_map :: "regex_lib \<Rightarrow> string list \<Rightarrow> args \<Rightarrow> args" where
  "audit_redact_value X ps (JStr s) = JStr (audit_redact_string X ps s)"
| "audit_redact_value X ps (JObj m) = JObj (audit_redact_map X ps m)"
| "audit_redact_value X ps (JArr xs) = JArr (map (audit_redact_value X ps) xs)"
| "audit_redact_value X ps JNull = JNull"
| "audit_redact_value X ps (JBool b) = JBool b"
| "audit_redact_value X ps (JNum r) = JNum r"
| "audit_redact_map X ps [] = []"
| "audit_redact_map X ps ((k, v) # m) = (k, audit_redact_value X ps v) # audit_redact_map X ps m"

definition redactLineage :: "regex_lib \<Rightarrow> string list \<Rightarrow> lineage_info \<Rightarrow> lineage_info" where
  "redactLineage X ps i =
     (let r = audit_redact_string X ps in
      \<lparr>li_actor_agent_id = r (li_actor_agent_id i), li_parent_agent_id = r (li_parent_agent_id i),
       li_human_principal_id = r (li_human_principal_id i), li_grant_id = r (li_grant_id i),
       li_grant_chain = map_option (map r) (li_grant_chain i), li_capability = r (li_capability i),
       li_resource = r (li_resource i), li_effect = r (li_effect i), li_trajectory_id = r (li_trajectory_id i),
       li_prior_state_hash = r (li_prior_state_hash i), li_rule = r (li_rule i)\<rparr>)"

definition SanitizeLineage :: "regex_lib \<Rightarrow> logger \<Rightarrow> lineage_info option \<Rightarrow> lineage_info option" where
  "SanitizeLineage X l info = map_option (redactLineage X (lg_patterns l)) info"

section \<open>Records\<close>

definition RecordHash :: "audit_codec \<Rightarrow> audit_event \<Rightarrow> string option" where
  "RecordHash K e = map_option (cd_sha256 K) (cd_marshal K (e\<lparr>ae_hash := []\<rparr>))"

definition VerifyEventHash :: "audit_codec \<Rightarrow> audit_event \<Rightarrow> bool" where
  "VerifyEventHash K e = (ae_hash e \<noteq> [] \<and> RecordHash K e = Some (ae_hash e))"

definition redact_event :: "regex_lib \<Rightarrow> string \<Rightarrow> logger \<Rightarrow> audit_event \<Rightarrow> audit_event" where
  "redact_event X now l e =
     (let r = audit_redact_string X (lg_patterns l) in
      e\<lparr>ae_timestamp := (if ae_timestamp e = [] then now else ae_timestamp e),
        ae_arguments := map_option (audit_redact_map X (lg_patterns l)) (ae_arguments e),
        ae_result_preview := r (ae_result_preview e),
        ae_reason := r (ae_reason e),
        ae_lineage := map_option (redactLineage X (lg_patterns l)) (ae_lineage e),
        ae_principal_id := r (ae_principal_id e),
        ae_acting_agent := r (ae_acting_agent e),
        ae_transaction_id := r (ae_transaction_id e),
        ae_prev_hash := lg_prev_hash l,
        ae_chain_index := lg_chain_index l\<rparr>)"

text \<open>The prepared event and the bytes of its line; the chain state is not changed.\<close>

definition prepareRecord ::
    "regex_lib \<Rightarrow> audit_codec \<Rightarrow> string \<Rightarrow> logger \<Rightarrow> audit_event \<Rightarrow> (audit_event \<times> string) option" where
  "prepareRecord X K now l e =
     (let e1 = redact_event X now l e in
      case RecordHash K e1 of
        None \<Rightarrow> None
      | Some h \<Rightarrow>
          (case cd_marshal K (e1\<lparr>ae_hash := h\<rparr>) of
             None \<Rightarrow> None
           | Some data \<Rightarrow> Some (e1\<lparr>ae_hash := h\<rparr>, data @ [CHR 0x0A])))"

text \<open>What the write call does: everything, an error after some bytes, or a short count.\<close>

datatype write_outcome = WroteAll | WriteError nat | WroteShort nat

definition appendFull :: "write_outcome \<Rightarrow> string \<Rightarrow> string \<Rightarrow> (audit_error + unit) \<times> string" where
  "appendFull w data bytes =
     (case w of
        WroteAll \<Rightarrow> (Inr (), bytes @ data)
      | WriteError n \<Rightarrow> (Inl WriteFailed, bytes @ take n data)
      | WroteShort n \<Rightarrow>
          if n = length data then (Inr (), bytes @ data) else (Inl ShortWrite, bytes @ take n data))"

definition advance :: "audit_event \<Rightarrow> logger \<Rightarrow> logger" where
  "advance prepared l = l\<lparr>lg_prev_hash := ae_hash prepared, lg_chain_index := lg_chain_index l + 1\<rparr>"

definition poison :: "logger \<Rightarrow> logger" where
  "poison l = l\<lparr>lg_poisoned := True\<rparr>"

text \<open>Prepare, append, sync if asked, and only then advance the chain.\<close>

definition append_record ::
    "regex_lib \<Rightarrow> audit_codec \<Rightarrow> string \<Rightarrow> write_outcome \<Rightarrow> bool option \<Rightarrow> audit_event \<Rightarrow> logger \<Rightarrow> (audit_error + unit) \<times> logger" where
  "append_record X K now w sync e l =
     (case prepareRecord X K now l e of
        None \<Rightarrow> (Inl MarshalFailed, poison l)
      | Some (prepared, data) \<Rightarrow>
          (case appendFull w data (lg_file l) of
             (Inl err, f) \<Rightarrow> (Inl err, poison (l\<lparr>lg_file := f\<rparr>))
           | (Inr _, f) \<Rightarrow>
               if sync = Some False then (Inl SyncFailed, poison (l\<lparr>lg_file := f\<rparr>))
               else (Inr (), advance prepared (l\<lparr>lg_file := f\<rparr>))))"

definition Log ::
    "regex_lib \<Rightarrow> audit_codec \<Rightarrow> string \<Rightarrow> write_outcome \<Rightarrow> audit_event \<Rightarrow> logger \<Rightarrow> (audit_error + unit) \<times> logger" where
  "Log X K now w e l =
     (if lg_poisoned l then (Inl AuditSinkUnhealthy, l) else append_record X K now w None e l)"

definition CommitAuthorization ::
    "regex_lib \<Rightarrow> audit_codec \<Rightarrow> string \<Rightarrow> write_outcome \<Rightarrow> bool \<Rightarrow> audit_event \<Rightarrow> logger \<Rightarrow> (audit_error + unit) \<times> logger" where
  "CommitAuthorization X K now w sync e l =
     (if lg_poisoned l then (Inl AuditSinkUnhealthy, l)
      else if \<not> lg_durable l then (Inl NotDurable, poison l)
      else if ae_event_type e \<noteq> EventToolAllowed \<or> ae_decision e \<noteq> ActionAllow then (Inl NotCommitable, l)
      else append_record X K now w (Some sync) e l)"

definition CommitKineticStop ::
    "regex_lib \<Rightarrow> audit_codec \<Rightarrow> string \<Rightarrow> write_outcome \<Rightarrow> bool \<Rightarrow> audit_event \<Rightarrow> logger \<Rightarrow> (audit_error + unit) \<times> logger" where
  "CommitKineticStop X K now w sync e l =
     (if lg_poisoned l then (Inl AuditSinkUnhealthy, l)
      else if \<not> lg_durable l then (Inl NotDurable, poison l)
      else if ae_event_type e \<noteq> EventKineticStopEnforced \<or> ae_decision e \<noteq> ''revoked'' \<or> ae_resulting_state e = []
      then (Inl NotCommitable, l)
      else append_record X K now w (Some sync) e l)"

definition Durable :: "logger \<Rightarrow> bool" where
  "Durable l \<longleftrightarrow> lg_durable l \<and> \<not> lg_poisoned l"

section \<open>Opening an existing ledger\<close>

definition trailing_blank :: "char \<Rightarrow> bool" where
  "trailing_blank c \<longleftrightarrow> c = CHR '' '' \<or> c = CHR 0x09 \<or> c = CHR 0x0D \<or> c = CHR 0x0A"

definition trim_right :: "string \<Rightarrow> string" where
  "trim_right s = rev (dropWhile trailing_blank (rev s))"

definition is_newline :: "char \<Rightarrow> bool" where
  "is_newline c \<longleftrightarrow> c = CHR 0x0A"

text \<open>The bytes after the last newline, all of them if there is none.\<close>

definition last_line :: "string \<Rightarrow> string" where
  "last_line s = rev (takeWhile (\<lambda>c. \<not> is_newline c) (rev s))"

text \<open>Chunks are read backwards until the tail holds a non-blank line and the boundary before it.\<close>

function read_chunks :: "nat \<Rightarrow> string \<Rightarrow> nat \<Rightarrow> string \<Rightarrow> string" where
  "read_chunks chunkSize bytes remaining data =
     (if remaining = 0 then data
      else let n = min chunkSize remaining;
               remaining' = remaining - n;
               data' = take n (drop remaining' bytes) @ data;
               content = trim_right data'
           in if remaining' = 0 \<or> (content \<noteq> [] \<and> list_ex is_newline content) then data'
              else if n = 0 then data'
              else read_chunks chunkSize bytes remaining' data')"
  by pat_completeness auto
termination
  by (relation "measure (\<lambda>(c, f, r, d). r)") (auto simp: Let_def)

declare read_chunks.simps [simp del]

definition chunk_size :: nat where "chunk_size = 65536"

definition readLastCompleteLine :: "nat \<Rightarrow> string \<Rightarrow> audit_error + string" where
  "readLastCompleteLine chunkSize bytes =
     (if bytes = [] then Inr []
      else if \<not> is_newline (last bytes) then Inl IncompleteTail
      else let content = trim_right (read_chunks chunkSize bytes (length bytes) [])
           in if content = [] then Inr [] else Inr (trim_space (last_line content)))"

definition recoverChainState :: "audit_codec \<Rightarrow> string \<Rightarrow> audit_error + (string \<times> nat)" where
  "recoverChainState K bytes =
     (if bytes = [] then Inr ([], 0)
      else case readLastCompleteLine chunk_size bytes of
        Inl e \<Rightarrow> Inl e
      | Inr line \<Rightarrow>
          if line = [] then Inr ([], 0)
          else case cd_unmarshal K line of
            None \<Rightarrow> Inl CorruptRecord
          | Some e \<Rightarrow>
              if ae_hash e = []
              then (if ae_prev_hash e \<noteq> [] \<or> 0 < ae_chain_index e then Inl CorruptRecord else Inr ([], 0))
              else (case RecordHash K e of
                      None \<Rightarrow> Inl CorruptRecord
                    | Some h \<Rightarrow> if h \<noteq> ae_hash e then Inl CorruptRecord
                               else Inr (ae_hash e, ae_chain_index e + 1)))"

text \<open>The parent directory sync decides whether the logger can be used.\<close>

definition NewLogger :: "audit_codec \<Rightarrow> string \<Rightarrow> bool \<Rightarrow> audit_error + logger" where
  "NewLogger K bytes dir_synced =
     (case recoverChainState K bytes of
        Inl e \<Rightarrow> Inl e
      | Inr (h, i) \<Rightarrow>
          if \<not> dir_synced then Inl SyncFailed
          else Inr \<lparr>lg_file = bytes, lg_patterns = [], lg_prev_hash = h, lg_chain_index = i,
                    lg_durable = True, lg_poisoned = False\<rparr>)"

definition stderrLogger :: logger where
  "stderrLogger = \<lparr>lg_file = [], lg_patterns = [], lg_prev_hash = [], lg_chain_index = 0,
     lg_durable = False, lg_poisoned = False\<rparr>"

section \<open>The tail of the ledger\<close>

lemma trim_right_append: "trim_right b \<noteq> [] \<Longrightarrow> trim_right (a @ b) = a @ trim_right b"
proof -
  assume "trim_right b \<noteq> []"
  then obtain c where "c \<in> set (rev b)" "\<not> trailing_blank c" by (auto simp: trim_right_def dropWhile_eq_Nil_conv)
  then show ?thesis by (simp add: trim_right_def dropWhile_append1)
qed

lemma last_line_append: "list_ex is_newline b \<Longrightarrow> last_line (a @ b) = last_line b"
  by (auto simp: last_line_def list_ex_iff takeWhile_append1)

lemma read_chunks_suffix:
  assumes "0 < chunkSize" and "data = drop remaining bytes" and "remaining \<le> length bytes"
  shows "\<exists>k. read_chunks chunkSize bytes remaining data = drop k bytes
     \<and> (k = 0 \<or> (trim_right (drop k bytes) \<noteq> [] \<and> list_ex is_newline (trim_right (drop k bytes))))"
  using assms
proof (induction chunkSize bytes remaining data rule: read_chunks.induct)
  case (1 chunkSize bytes remaining data)
  show ?case
  proof (cases "remaining = 0")
    case True
    with 1 show ?thesis by (intro exI [of _ 0]) (simp add: read_chunks.simps)
  next
    case False
    define n where "n = min chunkSize remaining"
    let ?r = "remaining - n"
    let ?d = "take n (drop ?r bytes) @ data"
    have n: "0 < n" "?r + n = remaining" using False 1(2) by (auto simp: n_def)
    have d: "?d = drop ?r bytes"
      using 1(3) n(2) by (metis append_take_drop_id drop_drop add.commute)
    let ?stop = "?r = 0 \<or> (trim_right ?d \<noteq> [] \<and> list_ex is_newline (trim_right ?d))"
    have unf: "read_chunks chunkSize bytes remaining data =
        (if ?stop then ?d else read_chunks chunkSize bytes ?r ?d)"
      unfolding read_chunks.simps [of chunkSize bytes remaining data] Let_def n_def [symmetric]
      using False n(1) by simp
    show ?thesis
    proof (cases ?stop)
      case True
      with d unf show ?thesis by (intro exI [of _ ?r]) simp
    next
      case stop: False
      have "?r \<le> length bytes" using 1(4) by simp
      with 1(1) [OF False n_def refl refl refl] stop n(1) d 1(2) unf show ?thesis by auto
    qed
  qed
qed

lemma tail_is_enough:
  assumes "k = 0 \<or> (trim_right (drop k bytes) \<noteq> [] \<and> list_ex is_newline (trim_right (drop k bytes)))"
  shows "last_line (trim_right (drop k bytes)) = last_line (trim_right bytes)"
    and "trim_right (drop k bytes) = [] \<longleftrightarrow> trim_right bytes = []"
proof -
  have "k = 0 \<or> trim_right bytes = take k bytes @ trim_right (drop k bytes)"
    using assms trim_right_append [of "drop k bytes" "take k bytes"] by auto
  then show "last_line (trim_right (drop k bytes)) = last_line (trim_right bytes)"
    and "trim_right (drop k bytes) = [] \<longleftrightarrow> trim_right bytes = []"
    using assms by (auto simp: last_line_append)
qed

text \<open>Without the chunks: the last line of the file that is not blank.\<close>

definition last_record :: "string \<Rightarrow> audit_error + string" where
  "last_record bytes =
     (if bytes = [] then Inr []
      else if \<not> is_newline (last bytes) then Inl IncompleteTail
      else if trim_right bytes = [] then Inr [] else Inr (trim_space (last_line (trim_right bytes))))"

lemma readLastCompleteLine_last_record:
  assumes "0 < chunkSize"
  shows "readLastCompleteLine chunkSize bytes = last_record bytes"
proof -
  obtain k where k: "read_chunks chunkSize bytes (length bytes) [] = drop k bytes"
    "k = 0 \<or> (trim_right (drop k bytes) \<noteq> [] \<and> list_ex is_newline (trim_right (drop k bytes)))"
    using read_chunks_suffix [OF assms, of "[]" "length bytes" bytes] by auto
  from tail_is_enough [OF k(2)] show ?thesis
    by (simp add: readLastCompleteLine_def last_record_def k(1) Let_def)
qed

section \<open>The hash chain\<close>

text \<open>Records that continue a chain from a tip hash and an index.\<close>

fun chained :: "audit_codec \<Rightarrow> string \<Rightarrow> nat \<Rightarrow> audit_event list \<Rightarrow> bool" where
  "chained K h i [] = True"
| "chained K h i (e # es) =
     (ae_prev_hash e = h \<and> ae_chain_index e = i \<and> RecordHash K e = Some (ae_hash e) \<and> cd_marshal K e \<noteq> None
      \<and> chained K (ae_hash e) (i + 1) es)"

definition tip :: "string \<Rightarrow> audit_event list \<Rightarrow> string" where
  "tip h es = (if es = [] then h else ae_hash (last es))"

definition line_of :: "audit_codec \<Rightarrow> audit_event \<Rightarrow> string" where
  "line_of K e = the (cd_marshal K e) @ [CHR 0x0A]"

definition lines_of :: "audit_codec \<Rightarrow> audit_event list \<Rightarrow> string" where
  "lines_of K es = concat (map (line_of K) es)"

lemma tip_Cons [simp]: "tip h (e # es) = tip (ae_hash e) es"
  by (simp add: tip_def)

lemma tip_Nil [simp]: "tip h [] = h"
  by (simp add: tip_def)

lemma tip_snoc [simp]: "tip h (es @ [e]) = ae_hash e"
  by (simp add: tip_def)

lemma chained_snoc:
  "chained K h i (es @ [e]) \<longleftrightarrow>
     chained K h i es \<and> ae_prev_hash e = tip h es \<and> ae_chain_index e = i + length es
     \<and> RecordHash K e = Some (ae_hash e) \<and> cd_marshal K e \<noteq> None"
  by (induction es arbitrary: h i) auto

lemma prepared_record:
  assumes "prepareRecord X K now l e = Some (p, data)"
  shows "ae_prev_hash p = lg_prev_hash l" and "ae_chain_index p = lg_chain_index l"
    and "RecordHash K p = Some (ae_hash p)" and "cd_marshal K p \<noteq> None" and "data = line_of K p"
  using assms
  by (auto simp: prepareRecord_def redact_event_def RecordHash_def line_of_def Let_def split: option.splits)

text \<open>What the logger keeps, relative to the file, tip and index it was opened with: the file is what
  it was, then chained records, then, only when the sink is poisoned, the bytes of a failed record.\<close>

definition ledger_ok :: "audit_codec \<Rightarrow> string \<Rightarrow> string \<Rightarrow> nat \<Rightarrow> logger \<Rightarrow> audit_event list \<Rightarrow> bool" where
  "ledger_ok K bytes0 h0 i0 l es \<longleftrightarrow>
     chained K h0 i0 es
     \<and> (if lg_poisoned l
        then (\<exists>tail. lg_file l = bytes0 @ lines_of K es @ tail)
        else lg_file l = bytes0 @ lines_of K es \<and> lg_prev_hash l = tip h0 es \<and> lg_chain_index l = i0 + length es)"

lemma append_record_ledger:
  assumes "ledger_ok K bytes0 h0 i0 l es" and "\<not> lg_poisoned l"
    and "append_record X K now w sync e l = (r, l')"
  obtains "r = Inr ()" and "sync \<noteq> Some False" and "\<not> lg_poisoned l'"
      and "\<exists>p. p = last (es @ [p]) \<and> ledger_ok K bytes0 h0 i0 l' (es @ [p])"
  | err where "r = Inl err" and "lg_poisoned l'" and "ledger_ok K bytes0 h0 i0 l' es"
proof (cases "prepareRecord X K now l e")
  case None
  with assms have "r = Inl MarshalFailed" "l' = poison l" by (simp_all add: append_record_def)
  with assms(1,2) that(2) show ?thesis by (simp add: ledger_ok_def poison_def)
next
  case (Some pd)
  obtain p data where pd: "pd = (p, data)" by (cases pd)
  note prep = prepared_record [OF Some [unfolded pd]]
  have bf: "lg_file l = bytes0 @ lines_of K es" and st: "chained K h0 i0 es" "lg_prev_hash l = tip h0 es"
      "lg_chain_index l = i0 + length es"
    using assms(1,2) by (simp_all add: ledger_ok_def)
  obtain a f where af: "appendFull w data (lg_file l) = (a, f)" by (cases "appendFull w data (lg_file l)")
  have tail: "\<exists>t. f = lg_file l @ t" using af by (auto simp: appendFull_def split: write_outcome.splits if_splits)
  show ?thesis
  proof (cases "a = Inr () \<and> sync \<noteq> Some False")
    case True
    then have f: "f = lg_file l @ data" using af by (auto simp: appendFull_def split: write_outcome.splits if_splits)
    have l': "r = Inr ()" "l' = advance p (l\<lparr>lg_file := f\<rparr>)"
      using True assms(3) af Some pd by (auto simp: append_record_def)
    have "chained K h0 i0 (es @ [p])" using st prep(1-4) by (simp add: chained_snoc)
    then have "ledger_ok K bytes0 h0 i0 l' (es @ [p])"
      using assms(2) f bf prep(5) st(3) by (simp add: ledger_ok_def l' advance_def lines_of_def)
    with l' True assms(2) that(1) show ?thesis by (auto simp: advance_def)
  next
    case False
    obtain err where e: "r = Inl err" "l' = poison (l\<lparr>lg_file := f\<rparr>)"
      using False assms(3) af Some pd by (cases a) (auto simp: append_record_def split: if_splits)
    then have "ledger_ok K bytes0 h0 i0 l' es"
      using tail bf st(1) by (auto simp: ledger_ok_def poison_def)
    with e that(2) show ?thesis by (simp add: poison_def)
  qed
qed

datatype audit_op =
    OpLog string write_outcome audit_event
  | OpCommit string write_outcome bool audit_event
  | OpStop string write_outcome bool audit_event
  | OpPatterns "redaction_pattern list"

fun audit_step :: "regex_lib \<Rightarrow> audit_codec \<Rightarrow> audit_op \<Rightarrow> logger \<Rightarrow> (audit_error + unit) \<times> logger" where
  "audit_step X K (OpLog now w e) l = Log X K now w e l"
| "audit_step X K (OpCommit now w sync e) l = CommitAuthorization X K now w sync e l"
| "audit_step X K (OpStop now w sync e) l = CommitKineticStop X K now w sync e l"
| "audit_step X K (OpPatterns ps) l = (Inr (), SetRedactionPatterns X ps l)"

definition audit_run :: "regex_lib \<Rightarrow> audit_codec \<Rightarrow> audit_op list \<Rightarrow> logger \<Rightarrow> logger" where
  "audit_run X K ops l = foldl (\<lambda>l op. snd (audit_step X K op l)) l ops"

lemma poison_ledger: "ledger_ok K bytes0 h0 i0 l es \<Longrightarrow> ledger_ok K bytes0 h0 i0 (poison l) es"
  by (auto simp: ledger_ok_def poison_def split: if_splits)

lemma append_keeps_ledger:
  assumes "ledger_ok K bytes0 h0 i0 l es" and "\<not> lg_poisoned l"
  shows "\<exists>es'. ledger_ok K bytes0 h0 i0 (snd (append_record X K now w sync e l)) (es @ es')"
proof -
  obtain r l' where a: "append_record X K now w sync e l = (r, l')" by (cases "append_record X K now w sync e l")
  from assms a show ?thesis
  proof (cases rule: append_record_ledger)
    case 1
    then show ?thesis using a by auto
  next
    case (2 err)
    then show ?thesis using a by (intro exI [of _ "[]"]) simp
  qed
qed

lemma audit_step_ledger:
  assumes "ledger_ok K bytes0 h0 i0 l es"
  shows "\<exists>es'. ledger_ok K bytes0 h0 i0 (snd (audit_step X K op l)) (es @ es')"
proof -
  have stay: "\<exists>es'. ledger_ok K bytes0 h0 i0 l (es @ es')" "\<exists>es'. ledger_ok K bytes0 h0 i0 (poison l) (es @ es')"
    using assms poison_ledger [OF assms] by (metis append_Nil2)+
  have pats: "\<exists>es'. ledger_ok K bytes0 h0 i0 (SetRedactionPatterns X ps l) (es @ es')" for ps
    using assms by (intro exI [of _ "[]"]) (simp add: ledger_ok_def SetRedactionPatterns_def)
  show ?thesis
    using stay pats append_keeps_ledger [OF assms]
    by (cases op) (simp_all add: Log_def CommitAuthorization_def CommitKineticStop_def)
qed

lemma audit_run_ledger:
  assumes "ledger_ok K bytes0 h0 i0 l es"
  shows "\<exists>es'. ledger_ok K bytes0 h0 i0 (audit_run X K ops l) (es @ es')"
  using assms
proof (induction ops arbitrary: l es)
  case Nil
  then show ?case by (intro exI [of _ "[]"]) (simp add: audit_run_def)
next
  case (Cons op ops)
  obtain e1 where "ledger_ok K bytes0 h0 i0 (snd (audit_step X K op l)) (es @ e1)"
    using audit_step_ledger [OF Cons.prems] by blast
  from Cons.IH [OF this] obtain e2 where
    "ledger_ok K bytes0 h0 i0 (audit_run X K ops (snd (audit_step X K op l))) ((es @ e1) @ e2)" by blast
  then show ?case by (intro exI [of _ "e1 @ e2"]) (simp add: audit_run_def)
qed

lemma poisoned_file_fixed:
  "lg_poisoned l \<Longrightarrow> lg_file (snd (audit_step X K op l)) = lg_file l \<and> lg_poisoned (snd (audit_step X K op l))"
  by (cases op) (simp_all add: Log_def CommitAuthorization_def CommitKineticStop_def SetRedactionPatterns_def)

text \<open>JSON as the logger relies on it: an encoded event is one line that starts and ends with a
  brace; decoding it gives an event with the same hash, index and previous hash that encodes to
  the same bytes.\<close>

definition codec_ok :: "audit_codec \<Rightarrow> bool" where
  "codec_ok K \<longleftrightarrow>
     (\<forall>e s. cd_marshal K e = Some s \<longrightarrow>
        (\<exists>mid. s = [CHR 0x7B] @ mid @ [CHR 0x7D]) \<and> \<not> list_ex is_newline s
        \<and> (\<exists>e'. cd_unmarshal K s = Some e' \<and> ae_hash e' = ae_hash e \<and> ae_chain_index e' = ae_chain_index e
             \<and> cd_marshal K (e'\<lparr>ae_hash := []\<rparr>) = cd_marshal K (e\<lparr>ae_hash := []\<rparr>)))
     \<and> (\<forall>x. cd_sha256 K x \<noteq> [])"

lemma trim_left_brace: "trim_left w (CHR 0x7B # t) = CHR 0x7B # t" "trim_left w (CHR 0x7D # t) = CHR 0x7D # t"
  by (simp_all add: trim_left.simps [of w "_ # t"] space_width_def ascii_space_def byte_def)

lemma trim_space_braces: "trim_space ([CHR 0x7B] @ mid @ [CHR 0x7D]) = [CHR 0x7B] @ mid @ [CHR 0x7D]"
  by (simp add: trim_space_def trim_left_brace)

lemma last_line_of_ledger:
  assumes "codec_ok K" and "cd_marshal K e = Some s" and "pre = [] \<or> is_newline (last pre)"
  shows "last_record (pre @ line_of K e) = Inr s"
proof -
  from assms obtain mid where s: "s = [CHR 0x7B] @ mid @ [CHR 0x7D]" and nl: "\<not> list_ex is_newline s"
    unfolding codec_ok_def by blast
  have tr: "trim_right (s @ [CHR 0x0A]) = s"
    by (simp add: s trim_right_def trailing_blank_def)
  then have "trim_right (pre @ s @ [CHR 0x0A]) = pre @ s"
    using trim_right_append [of "s @ [CHR 0x0A]" pre] s by simp
  moreover have "last_line (pre @ s) = s"
  proof -
    have "takeWhile (\<lambda>c. \<not> is_newline c) (rev pre) = []"
      using assms(3) by (cases pre rule: rev_cases) auto
    moreover have "takeWhile (\<lambda>c. \<not> is_newline c) (rev s @ rev pre) = rev s @ takeWhile (\<lambda>c. \<not> is_newline c) (rev pre)"
      by (rule takeWhile_append2) (use nl in \<open>simp add: list_ex_iff\<close>)
    ultimately show ?thesis by (simp add: last_line_def)
  qed
  moreover have "trim_space s = s" unfolding s by (rule trim_space_braces)
  ultimately show ?thesis
    using s assms(2) by (simp add: last_record_def line_of_def is_newline_def)
qed

lemma lines_end: "lines_of K es = [] \<or> is_newline (last (lines_of K es))"
  by (cases es rule: rev_cases) (simp_all add: lines_of_def line_of_def is_newline_def)

lemma recover_ledger:
  assumes "codec_ok K" and "chained K [] 0 es"
  shows "recoverChainState K (lines_of K es) = Inr (tip [] es, length es)"
proof (cases es rule: rev_cases)
  case Nil
  then show ?thesis by (simp add: recoverChainState_def lines_of_def)
next
  case (snoc xs e)
  from assms(2) snoc have c: "ae_chain_index e = length xs" "RecordHash K e = Some (ae_hash e)" "cd_marshal K e \<noteq> None"
    by (simp_all add: chained_snoc)
  then obtain s where s: "cd_marshal K e = Some s" by auto
  with assms(1) obtain e' where e': "cd_unmarshal K s = Some e'" "ae_hash e' = ae_hash e"
      "ae_chain_index e' = ae_chain_index e" "cd_marshal K (e'\<lparr>ae_hash := []\<rparr>) = cd_marshal K (e\<lparr>ae_hash := []\<rparr>)"
    and sn: "s \<noteq> []" and sha: "\<And>x. cd_sha256 K x \<noteq> []"
    unfolding codec_ok_def by (metis append_is_Nil_conv not_Cons_self2)
  have "RecordHash K e' = Some (ae_hash e')" "ae_hash e \<noteq> []"
    using c(2) e'(2,4) sha by (auto simp: RecordHash_def)
  moreover have "last_record (lines_of K es) = Inr s"
    using last_line_of_ledger [OF assms(1) s lines_end [of K xs]] snoc by (simp add: lines_of_def)
  moreover have "lines_of K es \<noteq> []" using snoc by (simp add: lines_of_def line_of_def)
  ultimately show ?thesis
    using e'(1,2,3) c(1) snoc sn by (simp add: recoverChainState_def readLastCompleteLine_last_record chunk_size_def)
qed

section \<open>An example codec\<close>

definition blank_event :: audit_event where
  "blank_event = \<lparr>ae_timestamp = ''t'', ae_event_type = EventToolAllowed, ae_decision = ActionAllow, ae_arguments = None,
     ae_reason = [], ae_result_preview = [], ae_lineage = None, ae_principal_id = [], ae_acting_agent = [],
     ae_transaction_id = [], ae_resulting_state = [], ae_hash = [], ae_prev_hash = [], ae_chain_index = 0, ae_other = []\<rparr>"

definition flag_of :: "string \<Rightarrow> char" where
  "flag_of h = (if h = [] then CHR ''0'' else CHR ''1'')"

definition of_flag :: "char \<Rightarrow> string" where
  "of_flag c = (if c = CHR ''0'' then [] else ''h'')"

definition tiny_codec :: audit_codec where
  "tiny_codec =
     \<lparr>cd_marshal = (\<lambda>e. if e = blank_event\<lparr>ae_hash := ae_hash e, ae_prev_hash := ae_prev_hash e, ae_chain_index := ae_chain_index e\<rparr>
          \<and> ae_hash e \<in> {[], ''h''} \<and> ae_prev_hash e \<in> {[], ''h''}
        then Some (''{'' @ [flag_of (ae_hash e), flag_of (ae_prev_hash e)] @ replicate (ae_chain_index e) CHR ''x'' @ ''}'')
        else None),
      cd_unmarshal = (\<lambda>s. Some (blank_event\<lparr>ae_hash := of_flag (s ! 1), ae_prev_hash := of_flag (s ! 2), ae_chain_index := length s - 4\<rparr>)),
      cd_sha256 = (\<lambda>s. ''h'')\<rparr>"

lemma tiny_codec_ok: "codec_ok tiny_codec"
  unfolding codec_ok_def
proof (intro conjI allI impI)
  fix e s assume m: "cd_marshal tiny_codec e = Some s"
  let ?mid = "[flag_of (ae_hash e), flag_of (ae_prev_hash e)] @ replicate (ae_chain_index e) CHR ''x''"
  have s: "s = ''{'' @ ?mid @ ''}''"
    and e: "e = blank_event\<lparr>ae_hash := ae_hash e, ae_prev_hash := ae_prev_hash e, ae_chain_index := ae_chain_index e\<rparr>"
    and h: "ae_hash e \<in> {[], ''h''}" "ae_prev_hash e \<in> {[], ''h''}"
    using m by (auto simp: tiny_codec_def split: if_splits)
  show "\<exists>mid. s = [CHR 0x7B] @ mid @ [CHR 0x7D]" using s by blast
  show "\<not> list_ex is_newline s" by (auto simp: s is_newline_def flag_of_def list_ex_iff)
  have f: "of_flag (flag_of (ae_hash e)) = ae_hash e" "of_flag (flag_of (ae_prev_hash e)) = ae_prev_hash e"
    using h by (auto simp: of_flag_def flag_of_def)
  have "cd_unmarshal tiny_codec s = Some e"
    using e by (simp add: tiny_codec_def s f)
  then show "\<exists>e'. cd_unmarshal tiny_codec s = Some e' \<and> ae_hash e' = ae_hash e \<and> ae_chain_index e' = ae_chain_index e
      \<and> cd_marshal tiny_codec (e'\<lparr>ae_hash := []\<rparr>) = cd_marshal tiny_codec (e\<lparr>ae_hash := []\<rparr>)" by blast
qed (simp add: tiny_codec_def)

definition no_regex :: regex_lib where
  "no_regex = \<lparr>rx_compiles = (\<lambda>p. True), rx_match = (\<lambda>p s. False), rx_replace = (\<lambda>p r s. s)\<rparr>"

definition fresh_logger :: logger where
  "fresh_logger = \<lparr>lg_file = [], lg_patterns = [], lg_prev_hash = [], lg_chain_index = 0, lg_durable = True, lg_poisoned = False\<rparr>"

definition two_ops :: "audit_op list" where
  "two_ops = [OpLog ''t'' WroteAll blank_event, OpCommit ''t'' WroteAll True blank_event]"

lemma fresh_opens: "NewLogger tiny_codec [] True = Inr fresh_logger"
  by (simp add: NewLogger_def recoverChainState_def fresh_logger_def)

section \<open>Properties\<close>

text \<open>Reading the ledger backwards in chunks of 64 KiB finds what reading all of it would find: the
  last line that is not blank, or that the last line is incomplete.\<close>

theorem chunked_tail_exact: "readLastCompleteLine chunk_size bytes = last_record bytes"
  by (rule readLastCompleteLine_last_record) (simp add: chunk_size_def)



text \<open>C23: Closing and reopening a ledger that started empty and is not poisoned resumes the chain exactly
  where it was: the same tip hash and the same next index.\<close>

theorem reopen_resumes_chain:
  assumes "codec_ok K" and "NewLogger K [] True = Inr l0"
    and "l = audit_run X K ops l0" and "\<not> lg_poisoned l"
  shows "NewLogger K (lg_file l) True = Inr (l\<lparr>lg_patterns := []\<rparr>)"
proof -
  have l0: "l0 = \<lparr>lg_file = [], lg_patterns = [], lg_prev_hash = [], lg_chain_index = 0, lg_durable = True,
      lg_poisoned = False\<rparr>" using assms(2) by (simp add: NewLogger_def recoverChainState_def)
  then have "ledger_ok K [] [] 0 l0 []" by (simp add: ledger_ok_def lines_of_def)
  from audit_run_ledger [OF this] assms(3) obtain es where "ledger_ok K [] [] 0 l es" by auto
  with assms(4) have es: "chained K [] 0 es" "lg_file l = lines_of K es" "lg_prev_hash l = tip [] es"
    "lg_chain_index l = length es" by (simp_all add: ledger_ok_def)
  have "lg_durable (audit_run X K ops k) = lg_durable k" for k
  proof (induction ops arbitrary: k)
    case (Cons op ops)
    have "lg_durable (snd (audit_step X K op k)) = lg_durable k"
      by (cases op) (auto simp: Log_def CommitAuthorization_def CommitKineticStop_def SetRedactionPatterns_def
          append_record_def poison_def advance_def split: option.splits prod.splits sum.splits)
    with Cons.IH show ?case by (simp add: audit_run_def)
  qed (simp add: audit_run_def)
  then have "lg_durable l" using assms(3) l0 by simp
  with recover_ledger [OF assms(1) es(1)] es(2-4) assms(4) show ?thesis
    by (simp add: NewLogger_def)
qed

theorem reopen_resumes_chain_witness:
  "NewLogger tiny_codec (lg_file (audit_run no_regex tiny_codec two_ops fresh_logger)) True =
     Inr ((audit_run no_regex tiny_codec two_ops fresh_logger)\<lparr>lg_patterns := []\<rparr>)
   \<and> lg_chain_index (audit_run no_regex tiny_codec two_ops fresh_logger) = 2"
proof
  show "lg_chain_index (audit_run no_regex tiny_codec two_ops fresh_logger) = 2" by code_simp
  show "NewLogger tiny_codec (lg_file (audit_run no_regex tiny_codec two_ops fresh_logger)) True =
     Inr ((audit_run no_regex tiny_codec two_ops fresh_logger)\<lparr>lg_patterns := []\<rparr>)"
    by (rule reopen_resumes_chain [OF tiny_codec_ok fresh_opens refl]) code_simp
qed

text \<open>The tip hash commits to the whole ledger: two chains of the same length from the same start with
  the same tip have the same hashed bytes record by record, or SHA-256 collided. The encoding is
  only assumed to show the previous hash.\<close>

theorem tip_commits_to_ledger:
  assumes "chained K h i rs" and "chained K h i ss" and "length rs = length ss" and "tip h rs = tip h ss"
    and "\<And>e e'. cd_marshal K e = cd_marshal K e' \<Longrightarrow> cd_marshal K e \<noteq> None \<Longrightarrow> ae_prev_hash e = ae_prev_hash e'"
  shows "map (\<lambda>e. cd_marshal K (e\<lparr>ae_hash := []\<rparr>)) rs = map (\<lambda>e. cd_marshal K (e\<lparr>ae_hash := []\<rparr>)) ss
     \<or> (\<exists>x y. x \<noteq> y \<and> cd_sha256 K x = cd_sha256 K y)"
  using assms(1-4)
proof (induction rs arbitrary: ss rule: rev_induct)
  case Nil
  then show ?case by simp
next
  case (snoc e rs)
  then obtain e' ss' where ss: "ss = ss' @ [e']" by (cases ss rule: rev_cases) auto
  let ?m = "\<lambda>e. cd_marshal K (e\<lparr>ae_hash := []\<rparr>)"
  have c: "chained K h i rs" "chained K h i ss'" "ae_prev_hash e = tip h rs" "ae_prev_hash e' = tip h ss'"
    "RecordHash K e = Some (ae_hash e)" "RecordHash K e' = Some (ae_hash e')" "ae_hash e = ae_hash e'"
    using snoc.prems ss by (simp_all add: chained_snoc)
  then obtain x y where xy: "?m e = Some x" "?m e' = Some y" "cd_sha256 K x = cd_sha256 K y"
    by (auto simp: RecordHash_def)
  show ?case
  proof (cases "x = y")
    case True
    then have "tip h rs = tip h ss'" using assms(5) [of "e\<lparr>ae_hash := []\<rparr>" "e'\<lparr>ae_hash := []\<rparr>"] xy c(3,4) by simp
    with snoc.IH [OF c(1,2)] snoc.prems(3) ss True xy show ?thesis by simp
  next
    case False
    with xy(3) show ?thesis by blast
  qed
qed

theorem tip_commits_to_ledger_witness:
  "map (\<lambda>e. cd_marshal tiny_codec (e\<lparr>ae_hash := []\<rparr>)) [blank_event\<lparr>ae_hash := ''h''\<rparr>] =
   map (\<lambda>e. cd_marshal tiny_codec (e\<lparr>ae_hash := []\<rparr>)) [blank_event\<lparr>ae_hash := ''h''\<rparr>]
   \<or> (\<exists>x y. x \<noteq> y \<and> cd_sha256 tiny_codec x = cd_sha256 tiny_codec y)"
proof (rule tip_commits_to_ledger [where h = "[]" and i = 0])
  show "chained tiny_codec [] 0 [blank_event\<lparr>ae_hash := ''h''\<rparr>]" "chained tiny_codec [] 0 [blank_event\<lparr>ae_hash := ''h''\<rparr>]"
    by code_simp+
  show "ae_prev_hash e = ae_prev_hash e'"
    if "cd_marshal tiny_codec e = cd_marshal tiny_codec e'" "cd_marshal tiny_codec e \<noteq> None" for e e'
    using that by (auto simp: tiny_codec_def flag_of_def split: if_splits)
qed simp_all

text \<open>A committed authorization is on disk: the commit succeeds only for an allowed call, on a durable
  sink that is not poisoned, after the whole line was written and synced, and the line continues
  the chain. In every other case the ledger's chain does not advance, and except for an event of
  the wrong type the sink refuses everything from then on.\<close>

theorem commit_is_durable:
  assumes "\<not> lg_poisoned l" and "CommitAuthorization X K now w sync e l = (r, l')"
  shows "(r = Inr () \<and> lg_durable l \<and> sync \<and> ae_event_type e = EventToolAllowed \<and> ae_decision e = ActionAllow
       \<and> (\<exists>p. RecordHash K p = Some (ae_hash p) \<and> ae_prev_hash p = lg_prev_hash l \<and> ae_chain_index p = lg_chain_index l
            \<and> lg_file l' = lg_file l @ line_of K p \<and> lg_prev_hash l' = ae_hash p \<and> lg_chain_index l' = lg_chain_index l + 1))
     \<or> (r \<noteq> Inr () \<and> lg_prev_hash l' = lg_prev_hash l \<and> lg_chain_index l' = lg_chain_index l
       \<and> (lg_poisoned l' \<or> l' = l))"
proof (cases "lg_durable l \<and> ae_event_type e = EventToolAllowed \<and> ae_decision e = ActionAllow")
  case False
  with assms show ?thesis by (auto simp: CommitAuthorization_def poison_def split: if_splits)
next
  case True
  with assms have a: "append_record X K now w (Some sync) e l = (r, l')" by (simp add: CommitAuthorization_def)
  show ?thesis
  proof (cases "prepareRecord X K now l e")
    case None
    with a show ?thesis by (auto simp: append_record_def poison_def)
  next
    case (Some pd)
    obtain p data where pd: "pd = (p, data)" by (cases pd)
    note prep = prepared_record [OF Some [unfolded pd]]
    have ok: "fst (appendFull w data bs) = Inr () \<Longrightarrow> snd (appendFull w data bs) = bs @ data" for bs
      by (auto simp: appendFull_def split: write_outcome.splits if_splits)
    show ?thesis
    proof (cases "fst (appendFull w data (lg_file l)) = Inr () \<and> sync")
      case go: True
      then have "r = Inr ()" "l' = advance p (l\<lparr>lg_file := lg_file l @ data\<rparr>)"
        using a Some pd ok [of "lg_file l"] by (auto simp: append_record_def split: prod.splits sum.splits)
      with go True prep show ?thesis by (auto simp: advance_def)
    next
      case stop: False
      then show ?thesis
        using a Some pd by (auto simp: append_record_def poison_def split: prod.splits sum.splits if_splits)
    qed
  qed
qed

theorem commit_is_durable_witness:
  "lg_file (snd (CommitAuthorization no_regex tiny_codec ''t'' WroteAll True blank_event fresh_logger)) = ''{10}'' @ [CHR 0x0A]
   \<and> (\<exists>p. lg_file (snd (CommitAuthorization no_regex tiny_codec ''t'' WroteAll True blank_event fresh_logger)) =
        lg_file fresh_logger @ line_of tiny_codec p)"
proof
  show "lg_file (snd (CommitAuthorization no_regex tiny_codec ''t'' WroteAll True blank_event fresh_logger)) = ''{10}'' @ [CHR 0x0A]"
    by code_simp
  obtain r l' where c: "CommitAuthorization no_regex tiny_codec ''t'' WroteAll True blank_event fresh_logger = (r, l')"
    by (cases "CommitAuthorization no_regex tiny_codec ''t'' WroteAll True blank_event fresh_logger")
  have "fst (CommitAuthorization no_regex tiny_codec ''t'' WroteAll True blank_event fresh_logger) = Inr ()" by code_simp
  with commit_is_durable [OF _ c] c
  show "\<exists>p. lg_file (snd (CommitAuthorization no_regex tiny_codec ''t'' WroteAll True blank_event fresh_logger)) =
        lg_file fresh_logger @ line_of tiny_codec p" by (auto simp: fresh_logger_def)
qed

end
