(* ===== verification/File_Path.thy ===== *)
theory File_Path
  imports Visor_Prelude "HOL-Library.Sublist"
begin

text \<open>
  The lexical part of Go's \<^verbatim>\<open>path/filepath\<close> on Unix that the capability evaluator calls:
  \<^verbatim>\<open>Clean\<close>, \<^verbatim>\<open>Base\<close>, \<^verbatim>\<open>Dir\<close>, \<^verbatim>\<open>Ext\<close>, \<^verbatim>\<open>Join\<close>, \<^verbatim>\<open>Abs\<close> and \<^verbatim>\<open>Rel\<close>. A path is a byte
  string; the lemmas relate the string operations to operations on the list of path elements.
  The working directory and the resolution of symbolic links belong to the operating system and
  are the fields of fs_env.
\<close>

record fs_env =
  fs_cwd :: "string option"
  fs_eval_symlinks :: "string \<Rightarrow> string option"

section \<open>Elements of a path\<close>

definition sep :: char where "sep = CHR 0x2F"

fun split_on :: "char \<Rightarrow> string \<Rightarrow> string list" where
  "split_on d [] = [[]]"
| "split_on d (c # s) =
     (if c = d then [] # split_on d s
      else (case split_on d s of [] \<Rightarrow> [[c]] | w # ws \<Rightarrow> (c # w) # ws))"

definition elems :: "string \<Rightarrow> string list" where
  "elems s = filter (\<lambda>w. w \<noteq> []) (split_on sep s)"

definition is_abs :: "string \<Rightarrow> bool" where
  "is_abs s \<longleftrightarrow> (case s of [] \<Rightarrow> False | c # _ \<Rightarrow> c = sep)"

definition join_elems :: "string list \<Rightarrow> string" where
  "join_elems ws = join_strings [sep] ws"

definition mk_abs :: "string list \<Rightarrow> string" where
  "mk_abs ws = sep # join_elems ws"

section \<open>The library functions\<close>

text \<open>The pass of \<^verbatim>\<open>Clean\<close> over the elements: a dot is dropped, a dot-dot removes the element
  before it, or is dropped at the root, or is kept at the front of a relative path.\<close>

fun clean_elems :: "bool \<Rightarrow> string list \<Rightarrow> string list \<Rightarrow> string list" where
  "clean_elems rooted out [] = rev out"
| "clean_elems rooted out (w # ws) =
     (if w = ''.'' then clean_elems rooted out ws
      else if w = ''..'' then
        (case out of
           [] \<Rightarrow> clean_elems rooted (if rooted then [] else [''..'']) ws
         | x # xs \<Rightarrow> if x = ''..'' then clean_elems rooted (''..'' # out) ws else clean_elems rooted xs ws)
      else clean_elems rooted (w # out) ws)"

definition path_clean :: "string \<Rightarrow> string" where
  "path_clean s =
     (if s = [] then ''.''
      else if is_abs s then mk_abs (clean_elems True [] (elems s))
      else case clean_elems False [] (elems s) of [] \<Rightarrow> ''.'' | ws \<Rightarrow> join_elems ws)"

definition path_base :: "string \<Rightarrow> string" where
  "path_base s =
     (if s = [] then ''.''
      else let b = rev (takeWhile (\<lambda>c. c \<noteq> sep) (dropWhile (\<lambda>c. c = sep) (rev s)))
           in if b = [] then [sep] else b)"

definition path_dir :: "string \<Rightarrow> string" where
  "path_dir s = path_clean (rev (dropWhile (\<lambda>c. c \<noteq> sep) (rev s)))"

definition path_ext :: "string \<Rightarrow> string" where
  "path_ext s =
     (let r = takeWhile (\<lambda>c. c \<noteq> sep) (rev s)
      in if CHR ''.'' \<in> set r then CHR ''.'' # rev (takeWhile (\<lambda>c. c \<noteq> CHR ''.'') r) else [])"

definition path_join :: "string list \<Rightarrow> string" where
  "path_join ws = (case dropWhile (\<lambda>w. w = []) ws of [] \<Rightarrow> [] | us \<Rightarrow> path_clean (join_elems us))"

definition path_abs :: "fs_env \<Rightarrow> string \<Rightarrow> string option" where
  "path_abs fs s =
     (if is_abs s then Some (path_clean s) else map_option (\<lambda>d. path_join [d, s]) (fs_cwd fs))"

fun strip_common :: "string list \<Rightarrow> string list \<Rightarrow> string list \<times> string list" where
  "strip_common (b # bs) (t # ts) = (if b = t then strip_common bs ts else (b # bs, t # ts))"
| "strip_common bs ts = (bs, ts)"

definition path_rel :: "string \<Rightarrow> string \<Rightarrow> string option" where
  "path_rel base targ =
     (let b = path_clean base; t = path_clean targ in
      if t = b then Some ''.''
      else let b = (if b = ''.'' then [] else b) in
           if is_abs b \<noteq> is_abs t then None
           else (case strip_common (elems b) (elems t) of (bs, ts) \<Rightarrow>
             if bs \<noteq> [] \<and> ts \<noteq> [] \<and> hd bs = ''..'' then None
             else Some (join_elems (replicate (length bs) ''..'' @ ts))))"

text \<open>The test the source makes on a relative path: does it leave the base directory?\<close>

definition rel_outside :: "string \<Rightarrow> bool" where
  "rel_outside rel \<longleftrightarrow> rel = ''..'' \<or> starts_with (''..'' @ [sep]) rel"

section \<open>Elements and strings\<close>

definition good_elem :: "string \<Rightarrow> bool" where
  "good_elem w \<longleftrightarrow> w \<noteq> [] \<and> sep \<notin> set w"

definition plain_elem :: "string \<Rightarrow> bool" where
  "plain_elem w \<longleftrightarrow> good_elem w \<and> w \<noteq> ''.'' \<and> w \<noteq> ''..''"

lemma plain_elemD: "plain_elem w \<Longrightarrow> good_elem w \<and> w \<noteq> ''.'' \<and> w \<noteq> ''..''"
  by (simp add: plain_elem_def)

lemma plain_good: "list_all plain_elem ws \<Longrightarrow> list_all good_elem ws"
  by (auto simp: list_all_iff plain_elem_def)

lemma split_on_Nil [simp]: "split_on d s \<noteq> []"
  by (induction s) (auto split: list.split)

lemma split_on_sep_free: "w \<in> set (split_on d s) \<Longrightarrow> d \<notin> set w"
  by (induction s arbitrary: w) (auto split: list.splits if_splits)

lemma elems_good: "list_all good_elem (elems s)"
  using split_on_sep_free by (auto simp: elems_def good_elem_def list_all_iff)

lemma split_on_word: "d \<notin> set w \<Longrightarrow> split_on d w = [w]"
  by (induction w) auto

lemma split_on_append:
  "d \<notin> set w \<Longrightarrow> split_on d (w @ d # s) = w # split_on d s"
  by (induction w) auto

lemma join_elems_simps [simp]:
  "join_elems [] = []" "join_elems [w] = w" "join_elems (w # v # vs) = w @ sep # join_elems (v # vs)"
  by (auto simp: join_elems_def join_strings_def)

lemma join_elems_Cons: "join_elems (w # ws) = (if ws = [] then w else w @ sep # join_elems ws)"
  by (cases ws) auto

lemma join_elems_snoc: "ws \<noteq> [] \<Longrightarrow> join_elems (ws @ [w]) = join_elems ws @ sep # w"
  by (induction ws) (auto simp: join_elems_Cons)

lemma split_join: "ws \<noteq> [] \<Longrightarrow> list_all good_elem ws \<Longrightarrow> split_on sep (join_elems ws) = ws"
  by (induction ws) (auto simp: join_elems_Cons good_elem_def split_on_word split_on_append)

lemma filter_good: "list_all good_elem ws \<Longrightarrow> filter (\<lambda>w. w \<noteq> []) ws = ws"
  by (auto simp: list_all_iff good_elem_def)

lemma elems_join [simp]: "list_all good_elem ws \<Longrightarrow> elems (join_elems ws) = ws"
  by (cases "ws = []") (auto simp: elems_def split_join filter_good)

lemma elems_mk_abs [simp]: "list_all good_elem ws \<Longrightarrow> elems (mk_abs ws) = ws"
  using elems_join by (simp add: mk_abs_def elems_def)

lemma is_abs_mk_abs [simp]: "is_abs (mk_abs ws)"
  by (simp add: is_abs_def mk_abs_def)

lemma mk_abs_inject:
  assumes "list_all good_elem vs" and "list_all good_elem ws"
  shows "mk_abs vs = mk_abs ws \<longleftrightarrow> vs = ws"
  using elems_mk_abs [OF assms(1)] elems_mk_abs [OF assms(2)] by metis

section \<open>Cleaning\<close>

lemma clean_elems_plain:
  "list_all good_elem ws \<Longrightarrow> list_all plain_elem out \<Longrightarrow> list_all plain_elem (clean_elems True out ws)"
proof (induction ws arbitrary: out)
  case (Cons w ws)
  have ws: "list_all good_elem ws" and w: "good_elem w" using Cons.prems by auto
  note IH = Cons.IH [OF ws]
  show ?case
  proof (cases out)
    case Nil then show ?thesis using IH [of "[]"] IH [of "[w]"] w by (simp add: plain_elem_def)
  next
    case (Cons x xs)
    then have "list_all plain_elem xs" "x \<noteq> ''..''" using Cons.prems(2) plain_elemD [of x] by simp_all
    moreover have "w \<noteq> ''.'' \<Longrightarrow> w \<noteq> ''..'' \<Longrightarrow> list_all plain_elem (w # out)"
      using w Cons.prems(2) by (simp add: plain_elem_def [of w])
    ultimately show ?thesis using IH [of out] IH [of xs] IH [of "w # out"] Cons.prems(2) Cons
      by simp
  qed
qed (simp add: list_all_iff)

lemma clean_elems_id:
  "list_all plain_elem ws \<Longrightarrow> clean_elems rooted out ws = rev out @ ws"
  by (induction ws arbitrary: out) (auto simp: plain_elem_def)

lemma clean_mk_abs [simp]: "list_all plain_elem ws \<Longrightarrow> path_clean (mk_abs ws) = mk_abs ws"
  using elems_mk_abs [OF plain_good, of ws]
  by (simp add: path_clean_def clean_elems_id) (simp add: mk_abs_def)

lemma clean_absE:
  assumes "is_abs s"
  obtains ws where "path_clean s = mk_abs ws" "list_all plain_elem ws"
    "ws = clean_elems True [] (elems s)"
proof -
  have "s \<noteq> []" using assms by (auto simp: is_abs_def)
  then have "path_clean s = mk_abs (clean_elems True [] (elems s))" using assms by (simp add: path_clean_def)
  then show thesis using that clean_elems_plain [OF elems_good, of "[]" s] by simp
qed

lemma path_clean_idem_abs [simp]: "is_abs s \<Longrightarrow> path_clean (path_clean s) = path_clean s"
  by (metis clean_absE clean_mk_abs)

lemma is_abs_append: "is_abs s \<Longrightarrow> is_abs (s @ t)"
  by (cases s) (auto simp: is_abs_def)

lemma is_abs_clean: "is_abs s \<Longrightarrow> is_abs (path_clean s)"
  by (metis clean_absE is_abs_mk_abs)

section \<open>Parents, joins and relative paths of clean absolute paths\<close>

lemma split_on_mid: "split_on d (s @ d # t) = split_on d s @ split_on d t"
proof (induction s)
  case (Cons c s) then show ?case by (cases "split_on d s") auto
qed simp

lemma elems_append: "elems (s @ sep # t) = elems s @ elems t"
  by (simp add: elems_def split_on_mid)

lemma elems_append_sep: "elems (s @ [sep]) = elems s"
  using elems_append [of s "[]"] by (simp add: elems_def)

lemma mk_abs_snoc: "mk_abs (ws @ [w]) = (if ws = [] then [sep] else mk_abs ws @ [sep]) @ w"
  by (simp add: mk_abs_def join_elems_snoc)

lemma path_dir_snoc [simp]:
  assumes "list_all plain_elem (ws @ [w])"
  shows "path_dir (mk_abs (ws @ [w])) = mk_abs ws"
proof -
  let ?p = "if ws = [] then [sep] else mk_abs ws @ [sep]"
  have w: "sep \<notin> set w" and ws: "list_all plain_elem ws"
    using assms by (auto simp: plain_elem_def good_elem_def)
  have "dropWhile (\<lambda>c. c \<noteq> sep) (rev (mk_abs (ws @ [w]))) = rev ?p"
    using w by (auto simp: mk_abs_snoc dropWhile_append3)
  then have "path_dir (mk_abs (ws @ [w])) = path_clean ?p" by (simp add: path_dir_def)
  also have "path_clean ?p = mk_abs (clean_elems True [] (elems ?p))"
    by (simp add: path_clean_def is_abs_def mk_abs_def)
  also have "elems ?p = ws"
    using elems_append_sep [of "mk_abs ws"] elems_mk_abs [OF plain_good [OF ws]] by (simp add: elems_def)
  finally show ?thesis using clean_elems_id [OF ws, of True "[]"] by simp
qed

lemma path_dir_root [simp]: "path_dir (mk_abs []) = mk_abs []"
  by (simp add: path_dir_def path_clean_def mk_abs_def is_abs_def elems_def)

lemma path_base_snoc [simp]:
  assumes "list_all plain_elem (ws @ [w])"
  shows "path_base (mk_abs (ws @ [w])) = w"
proof -
  have w: "w \<noteq> []" "sep \<notin> set w" using assms by (auto simp: plain_elem_def good_elem_def)
  let ?p = "if ws = [] then [sep] else mk_abs ws @ [sep]"
  have r: "rev (mk_abs (ws @ [w])) = rev w @ rev ?p" by (simp add: mk_abs_snoc)
  have "dropWhile (\<lambda>c. c = sep) (rev w @ rev ?p) = rev w @ rev ?p"
  proof (cases "rev w")
    case (Cons a u)
    then have "a \<in> set w" using set_rev [of w] by simp
    then show ?thesis using w Cons by auto
  qed (use w in simp)
  moreover have "takeWhile (\<lambda>c. c \<noteq> sep) (rev w @ rev ?p) = rev w"
    using w by (auto simp: takeWhile_append)
  ultimately show ?thesis using w r by (simp add: path_base_def mk_abs_def)
qed

lemma path_join_abs [simp]:
  assumes "list_all plain_elem ws" and "list_all plain_elem us"
  shows "path_join (mk_abs ws # us) = mk_abs (ws @ us)"
proof -
  have "elems (join_elems (mk_abs ws # us)) = ws @ us"
    using elems_append [of "mk_abs ws" "join_elems us"] elems_mk_abs [OF plain_good [OF assms(1)]]
      elems_join [OF plain_good [OF assms(2)]]
    by (simp add: join_elems_Cons)
  moreover have "is_abs (join_elems (mk_abs ws # us))"
    by (simp add: join_elems_Cons is_abs_append)
  moreover have "mk_abs ws \<noteq> []" by (simp add: mk_abs_def)
  ultimately show ?thesis using assms
    by (auto simp: path_join_def path_clean_def clean_elems_id join_elems_Cons)
qed

lemma strip_common_prefix:
  "strip_common bs ts = (bs', ts') \<Longrightarrow> \<exists>p. bs = p @ bs' \<and> ts = p @ ts' \<and> (bs' = [] \<or> ts' = [] \<or> hd bs' \<noteq> hd ts')"
proof (induction bs ts rule: strip_common.induct)
  case (1 b bs t ts) then show ?case
    by (cases "b = t") (auto intro: exI [of _ "b # _"])
qed auto

lemma starts_with_self [simp]: "starts_with p (p @ s)"
  by (induction p) auto

lemma starts_with_iff: "starts_with p s \<longleftrightarrow> (\<exists>t. s = p @ t)"
  by (induction p s rule: starts_with.induct) auto

lemma rel_outside_join:
  "rel_outside (join_elems (''..'' # ws))"
  by (auto simp: rel_outside_def join_elems_Cons sep_def)

lemma dots_sep_free: "sep \<notin> set ''..''"
  by (simp add: sep_def)

lemma rel_inside_join:
  assumes "list_all plain_elem ws"
  shows "\<not> rel_outside (join_elems ws)"
proof
  assume out: "rel_outside (join_elems ws)"
  have dd: "split_on sep ''..'' = [''..'']" by (rule split_on_word [OF dots_sep_free])
  show False
  proof (cases ws)
    case Nil then show ?thesis using out by (simp add: rel_outside_def)
  next
    case (Cons w us)
    have w: "w \<noteq> ''..''" using assms Cons by (simp add: plain_elem_def)
    have sp: "split_on sep (join_elems ws) = ws" using split_join [OF _ plain_good [OF assms]] Cons by simp
    consider "join_elems ws = ''..''" | t where "join_elems ws = ''..'' @ sep # t"
      using out by (auto simp: rel_outside_def starts_with_iff)
    then show ?thesis
    proof cases
      case 1 then show ?thesis using sp dd w Cons by simp
    next
      case 2 then show ?thesis using sp w Cons split_on_append [OF dots_sep_free, of t] by simp
    qed
  qed
qed

lemma path_rel_abs:
  assumes "list_all plain_elem bs" and "list_all plain_elem ts"
  shows "\<exists>r. path_rel (mk_abs bs) (mk_abs ts) = Some r \<and> (rel_outside r \<longleftrightarrow> \<not> prefix bs ts)"
proof (cases "bs = ts")
  case True
  have "\<not> rel_outside ''.''" by (simp add: rel_outside_def)
  then show ?thesis using assms True by (simp add: path_rel_def)
next
  case False
  obtain bs' ts' where sc: "strip_common bs ts = (bs', ts')" by (cases "strip_common bs ts")
  obtain p where p: "bs = p @ bs'" "ts = p @ ts'" "bs' = [] \<or> ts' = [] \<or> hd bs' \<noteq> hd ts'"
    using strip_common_prefix [OF sc] by blast
  have dots: "\<not> (bs' \<noteq> [] \<and> hd bs' = ''..'')" using assms(1) p(1)
    by (cases bs') (auto simp: plain_elem_def)
  have ne: "mk_abs ts \<noteq> mk_abs bs" "mk_abs bs \<noteq> ''.''"
    using mk_abs_inject [OF plain_good [OF assms(2)] plain_good [OF assms(1)]] False
    by (auto simp: mk_abs_def sep_def)
  have r: "path_rel (mk_abs bs) (mk_abs ts) = Some (join_elems (replicate (length bs') ''..'' @ ts'))"
    using assms dots ne sc elems_mk_abs [OF plain_good [OF assms(1)]] elems_mk_abs [OF plain_good [OF assms(2)]]
    by (auto simp: path_rel_def)
  have "rel_outside (join_elems (replicate (length bs') ''..'' @ ts')) \<longleftrightarrow> bs' \<noteq> []"
    using rel_inside_join [of ts'] assms(2) p(2) by (cases bs') (auto simp: rel_outside_join)
  moreover have "bs' \<noteq> [] \<longleftrightarrow> \<not> prefix bs ts"
    using p by (cases bs'; cases ts') (auto simp: prefix_def)
  ultimately show ?thesis using r by blast
qed

section \<open>Walking to the parent ends\<close>

text \<open>The weight of a list of elements bounds the length of the path written from it.\<close>

definition weight :: "string list \<Rightarrow> nat" where
  "weight ws = sum_list (map (\<lambda>w. Suc (length w)) ws)"

lemma weight_simps [simp]:
  "weight [] = 0" "weight (w # ws) = Suc (length w) + weight ws" "weight (vs @ ws) = weight vs + weight ws"
  "weight (rev ws) = weight ws"
  by (simp_all add: weight_def sum_list_rev rev_map [symmetric])

lemma weight_split: "weight (split_on d s) = Suc (length s)"
  by (induction s) (auto split: list.split)

lemma weight_filter: "weight (filter P ws) \<le> weight ws"
  by (induction ws) auto

lemma weight_elems: "weight (elems s) \<le> Suc (length s)"
  using weight_filter [of _ "split_on sep s"] weight_split [of sep s] by (simp add: elems_def)

lemma weight_clean: "weight (clean_elems r out ws) \<le> weight out + weight ws"
proof (induction ws arbitrary: out)
  case (Cons w ws)
  show ?case
  proof (cases out)
    case Nil then show ?thesis
      using Cons.IH [of "[]"] Cons.IH [of "[''..'']"] Cons.IH [of "[w]"] by (cases r) simp_all
  next
    case (Cons x xs) then show ?thesis
      using Cons.IH [of out] Cons.IH [of xs] Cons.IH [of "w # out"] Cons.IH [of "''..'' # out"] by auto
  qed
qed simp

lemma length_join: "ws \<noteq> [] \<Longrightarrow> Suc (length (join_elems ws)) = weight ws"
  by (induction ws) (auto simp: join_elems_Cons)

lemma clean_dir_shorter:
  assumes "p = q @ [sep]" and "p \<noteq> [sep]"
  shows "path_clean p = ''.'' \<or> length (path_clean p) < length p"
proof (cases "is_abs p")
  case True
  then obtain q' where q': "p = sep # q' @ [sep]" using assms by (cases q) (auto simp: is_abs_def)
  have el: "elems p = elems q'"
    using elems_append [of "[]" "q' @ [sep]"] q' by (simp add: elems_append_sep) (simp add: elems_def)
  let ?ws = "clean_elems True [] (elems p)"
  have "weight ?ws \<le> Suc (length q')" using weight_clean [of True "[]" "elems p"] weight_elems [of q'] el by simp
  moreover have "path_clean p = mk_abs ?ws" using True q' by (simp add: path_clean_def)
  moreover have "?ws \<noteq> [] \<Longrightarrow> length (mk_abs ?ws) = weight ?ws" using length_join by (simp add: mk_abs_def)
  ultimately show ?thesis using q' by (cases "?ws = []") (auto simp: mk_abs_def)
next
  case False
  let ?ws = "clean_elems False [] (elems p)"
  have "weight ?ws \<le> Suc (length q)"
    using weight_clean [of False "[]" "elems p"] weight_elems [of q] assms(1) by (simp add: elems_append_sep)
  then show ?thesis using False assms(1) length_join [of ?ws]
    by (cases ?ws) (auto simp: path_clean_def)
qed

lemma dir_measure:
  assumes "path_dir s \<noteq> s"
  shows "path_dir s = ''.'' \<and> s \<noteq> ''.'' \<or> length (path_dir s) < length s"
proof -
  define p where "p = rev (dropWhile (\<lambda>c. c \<noteq> sep) (rev s))"
  have pd: "path_dir s = path_clean p" by (simp add: path_dir_def p_def)
  obtain u where "rev s = u @ rev p" unfolding p_def by (metis rev_rev_ident takeWhile_dropWhile_id)
  then have s: "s = p @ rev u" by (metis rev_append rev_rev_ident)
  show ?thesis
  proof (cases "p = []")
    case True then show ?thesis using pd assms by (auto simp: path_clean_def)
  next
    case False
    then have ne: "dropWhile (\<lambda>c. c \<noteq> sep) (rev s) \<noteq> []" by (simp add: p_def)
    have "hd (rev p) = sep" using hd_dropWhile [OF ne] by (simp add: p_def)
    then have "last p = sep" using False by (simp add: hd_rev)
    then obtain q where q: "p = q @ [sep]" using False by (metis append_butlast_last_id)
    show ?thesis
    proof (cases "p = [sep]")
      case True
      have "path_clean [sep] = [sep]" using clean_mk_abs [of "[]"] by (simp add: mk_abs_def)
      then have "path_dir s = p" using pd True by simp
      then show ?thesis using assms s True by auto
    next
      case False
      then show ?thesis using clean_dir_shorter [OF q False] pd s assms by auto
    qed
  qed
qed

text \<open>The instances the evaluator uses: containment in a directory is the prefix order on the
  elements of clean absolute paths.\<close>

definition abs_elems :: "string \<Rightarrow> string list" where
  "abs_elems s = clean_elems True [] (elems s)"

lemma abs_elems_plain: "list_all plain_elem (abs_elems s)"
  unfolding abs_elems_def by (rule clean_elems_plain [OF elems_good]) simp

lemma clean_abs: "is_abs s \<Longrightarrow> path_clean s = mk_abs (abs_elems s)"
  by (metis abs_elems_def clean_absE)

lemma abs_elems_mk_abs [simp]: "list_all plain_elem ws \<Longrightarrow> abs_elems (mk_abs ws) = ws"
  by (simp add: abs_elems_def plain_good clean_elems_id)

lemma path_rel_clean [simp]:
  "is_abs b \<Longrightarrow> path_rel (path_clean b) t = path_rel b t"
  "is_abs t \<Longrightarrow> path_rel b (path_clean t) = path_rel b t"
  by (simp_all add: path_rel_def)

lemma path_rel_outside:
  assumes "is_abs b" and "is_abs t"
  shows "\<exists>r. path_rel b t = Some r \<and> (rel_outside r \<longleftrightarrow> \<not> prefix (abs_elems b) (abs_elems t))"
  using path_rel_abs [OF abs_elems_plain [of b] abs_elems_plain [of t]] assms
  by (metis clean_abs path_rel_clean)

end
