(* ===== verification/Net_Address.thy ===== *)
theory Net_Address
  imports File_Path "HOL-Library.Word"
begin

text \<open>
  The part of Go's \<^verbatim>\<open>net/netip\<close> that the capability evaluator and the proxy call:
  \<^verbatim>\<open>ParseAddr\<close>, \<^verbatim>\<open>Addr.String\<close>, \<^verbatim>\<open>ParsePrefix\<close>, \<^verbatim>\<open>Prefix.Masked\<close> and \<^verbatim>\<open>Prefix.Contains\<close>.
  An address is a 32-bit word or a 128-bit word with a zone, the zero \<^verbatim>\<open>Addr\<close> is None.
\<close>

unbundle bit_operations_syntax

datatype addr = IPv4 "32 word" | IPv6 "128 word" string

datatype net_prefix = InvalidPrefix | Prefix addr nat

fun bit_len :: "addr \<Rightarrow> nat" where
  "bit_len (IPv4 _) = 32"
| "bit_len (IPv6 _ _) = 128"

fun prefix_is_valid :: "net_prefix \<Rightarrow> bool" where
  "prefix_is_valid InvalidPrefix = False"
| "prefix_is_valid (Prefix a b) = (b \<le> bit_len a)"

text \<open>Clearing the host bits, and membership: same family, no zone, same leading bits.\<close>

fun mask_addr :: "nat \<Rightarrow> addr \<Rightarrow> addr" where
  "mask_addr b (IPv4 w) = IPv4 (push_bit (32 - b) (drop_bit (32 - b) w))"
| "mask_addr b (IPv6 w z) = IPv6 (push_bit (128 - b) (drop_bit (128 - b) w)) []"

fun prefix_addr :: "net_prefix \<Rightarrow> addr option" where
  "prefix_addr InvalidPrefix = None"
| "prefix_addr (Prefix a b) = Some a"

fun prefix_masked :: "net_prefix \<Rightarrow> net_prefix" where
  "prefix_masked InvalidPrefix = InvalidPrefix"
| "prefix_masked (Prefix a b) = (if b \<le> bit_len a then Prefix (mask_addr b a) b else InvalidPrefix)"

fun prefix_contains :: "net_prefix \<Rightarrow> addr \<Rightarrow> bool" where
  "prefix_contains (Prefix (IPv4 p) b) (IPv4 w) =
     (b \<le> 32 \<and> drop_bit (32 - b) w = drop_bit (32 - b) p)"
| "prefix_contains (Prefix (IPv6 p _) b) (IPv6 w z) =
     (b \<le> 128 \<and> z = [] \<and> drop_bit (128 - b) w = drop_bit (128 - b) p)"
| "prefix_contains _ _ = False"

section \<open>Parsing\<close>

definition digits_value :: "string \<Rightarrow> int" where
  "digits_value s = foldl (\<lambda>v c. 10 * v + (int (byte c) - 48)) 0 s"

definition parse_octet :: "string \<Rightarrow> int option" where
  "parse_octet s =
     (if s = [] \<or> \<not> list_all is_digit_ascii s then None
      else if 1 < length s \<and> hd s = CHR ''0'' then None
      else if 255 < digits_value s then None
      else Some (digits_value s))"

definition parse_octets :: "string \<Rightarrow> int list option" where
  "parse_octets s =
     (let os = map parse_octet (split_on (CHR ''.'') s)
      in if length os = 4 \<and> list_all (\<lambda>x. x \<noteq> None) os then Some (map the os) else None)"

definition parse_ipv4 :: "string \<Rightarrow> addr option" where
  "parse_ipv4 s =
     map_option (\<lambda>os. IPv4 (word_of_int (foldl (\<lambda>v x. 256 * v + x) 0 os))) (parse_octets s)"

definition hex_value :: "char \<Rightarrow> int option" where
  "hex_value c =
     (if is_digit_ascii c then Some (int (byte c) - 48)
      else if 97 \<le> byte c \<and> byte c \<le> 102 then Some (int (byte c) - 87)
      else if 65 \<le> byte c \<and> byte c \<le> 70 then Some (int (byte c) - 55)
      else None)"

text \<open>The loop over the groups of an IPv6 address: at most k more groups; acc holds the groups
  read so far and ell the position of the ellipsis.\<close>

fun v6_loop :: "nat \<Rightarrow> string \<Rightarrow> int list \<Rightarrow> nat option \<Rightarrow> (string \<times> int list \<times> nat option) option" where
  "v6_loop 0 s acc ell = Some (s, acc, ell)"
| "v6_loop (Suc k) s acc ell =
     (let ds = takeWhile (\<lambda>c. hex_value c \<noteq> None) s; rest = drop (length ds) s in
      if ds = [] \<or> 4 < length ds then None
      else if rest \<noteq> [] \<and> hd rest = CHR ''.'' then
        (if ell = None \<and> length acc \<noteq> 6 \<or> 8 < length acc + 2 then None
         else case parse_octets s of
           Some [a, b, c, d] \<Rightarrow> Some ([], acc @ [256 * a + b, 256 * c + d], ell)
         | _ \<Rightarrow> None)
      else
        let acc' = acc @ [foldl (\<lambda>v c. 16 * v + the (hex_value c)) 0 ds] in
        (case rest of
           [] \<Rightarrow> Some ([], acc', ell)
         | [c] \<Rightarrow> None
         | c # d # t \<Rightarrow>
             if c \<noteq> CHR '':'' then None
             else if d = CHR '':'' then
               (if ell \<noteq> None then None
                else if t = [] then Some ([], acc', Some (length acc'))
                else v6_loop k t acc' (Some (length acc')))
             else v6_loop k (d # t) acc' ell))"

definition v6_word :: "int list \<Rightarrow> 128 word" where
  "v6_word gs = word_of_int (foldl (\<lambda>v g. 65536 * v + g) 0 gs)"

definition parse_ipv6 :: "string \<Rightarrow> addr option" where
  "parse_ipv6 s =
     (let (body, zone) = (case split_once (CHR ''%'') s of None \<Rightarrow> (s, None) | Some (b, z) \<Rightarrow> (b, Some z));
          z = (case zone of None \<Rightarrow> [] | Some z \<Rightarrow> z);
          lead = starts_with ''::'' body;
          start = (if lead then drop 2 body else body)
      in if zone = Some [] then None
         else if lead \<and> start = [] then Some (IPv6 0 z)
         else case v6_loop 8 start [] (if lead then Some 0 else None) of
           None \<Rightarrow> None
         | Some (rest, gs, ell) \<Rightarrow>
             if rest \<noteq> [] then None
             else (case ell of
               None \<Rightarrow> if length gs < 8 then None else Some (IPv6 (v6_word gs) z)
             | Some e \<Rightarrow> if length gs < 8
                         then Some (IPv6 (v6_word (take e gs @ replicate (8 - length gs) 0 @ drop e gs)) z)
                         else None))"

definition parse_addr :: "string \<Rightarrow> addr option" where
  "parse_addr s =
     (case dropWhile (\<lambda>c. c \<noteq> CHR ''.'' \<and> c \<noteq> CHR '':'' \<and> c \<noteq> CHR ''%'') s of
        [] \<Rightarrow> None
      | c # _ \<Rightarrow> if c = CHR ''.'' then parse_ipv4 s else if c = CHR '':'' then parse_ipv6 s else None)"

definition parse_prefix :: "string \<Rightarrow> net_prefix option" where
  "parse_prefix s =
     (case dropWhile (\<lambda>c. c \<noteq> sep) (rev s) of
        [] \<Rightarrow> None
      | _ # front \<Rightarrow>
          let bits = rev (takeWhile (\<lambda>c. c \<noteq> sep) (rev s)) in
          (case parse_addr (rev front) of
             None \<Rightarrow> None
           | Some a \<Rightarrow>
               if (case a of IPv6 _ z \<Rightarrow> z \<noteq> [] | _ \<Rightarrow> False) then None
               else if bits = [] \<or> \<not> list_all is_digit_ascii bits then None
               else if 1 < length bits \<and> hd bits = CHR ''0'' then None
               else if int (bit_len a) < digits_value bits then None
               else Some (Prefix a (nat (digits_value bits)))))"

section \<open>Printing\<close>

definition octets :: "32 word \<Rightarrow> int list" where
  "octets w = (let n = uint w in [n div 16777216, n div 65536 mod 256, n div 256 mod 256, n mod 256])"

definition groups :: "128 word \<Rightarrow> int list" where
  "groups w = map (\<lambda>i. uint w div 65536 ^ (7 - i) mod 65536) [0..<8]"

definition hex_digit :: "int \<Rightarrow> char" where
  "hex_digit n = char_of (nat (if n < 10 then 48 + n else 87 + n))"

definition hex_string :: "int \<Rightarrow> string" where
  "hex_string n =
     (let ds = [n div 4096, n div 256 mod 16, n div 16 mod 16]
      in map hex_digit (dropWhile (\<lambda>d. d = 0) ds @ [n mod 16]))"

definition v4_string :: "32 word \<Rightarrow> string" where
  "v4_string w = join_strings ''.'' (map itoa (octets w))"

text \<open>The start and the length of the first longest run of zero groups, if it has two or more.\<close>

definition zero_run :: "int list \<Rightarrow> (nat \<times> nat) option" where
  "zero_run gs =
     fold (\<lambda>i best.
        let l = length (takeWhile (\<lambda>g. g = 0) (drop i gs)) in
        if 2 \<le> l \<and> (case best of None \<Rightarrow> True | Some (_, m) \<Rightarrow> m < l) then Some (i, l) else best)
       [0..<length gs] None"

fun addr_string :: "addr \<Rightarrow> string" where
  "addr_string (IPv4 w) = v4_string w"
| "addr_string (IPv6 w z) =
     (let gs = groups w;
          body = (if take 6 gs = [0, 0, 0, 0, 0, 65535]
                  then ''::ffff:'' @ v4_string (word_of_int (65536 * gs ! 6 + gs ! 7))
                  else case zero_run gs of
                    None \<Rightarrow> join_strings '':'' (map hex_string gs)
                  | Some (i, l) \<Rightarrow> join_strings '':'' (map hex_string (take i gs)) @ ''::''
                                   @ join_strings '':'' (map hex_string (drop (i + l) gs)))
      in if z = [] then body else body @ ''%'' @ z)"

section \<open>Round trip and ranges\<close>

lemma digit_char:
  assumes "d < 10"
  shows "byte (char_of (48 + d)) = 48 + d" "is_digit_ascii (char_of (48 + d))"
    "char_of (48 + d) = CHR ''0'' \<longleftrightarrow> d = 0"
proof -
  have m: "(48 + d) mod 256 = 48 + d" using assms by simp
  show b: "byte (char_of (48 + d)) = 48 + d" using m by (simp add: byte_def)
  show "is_digit_ascii (char_of (48 + d))" using b assms by (simp add: is_digit_ascii_def)
  show "char_of (48 + d) = CHR ''0'' \<longleftrightarrow> d = 0"
  proof
    assume "char_of (48 + d) = CHR ''0''"
    then have "byte (char_of (48 + d)) = byte (CHR ''0'')" by simp
    then show "d = 0" using b by (simp add: byte_def)
  next
    assume "d = 0"
    moreover have "char_of (48 :: nat) = CHR ''0''" by code_simp
    ultimately show "char_of (48 + d) = CHR ''0''" by simp
  qed
qed

lemma nat_to_string_small:
  assumes "m < 1000"
  shows "nat_to_string m =
    (if m < 10 then [char_of (48 + m)]
     else if m < 100 then [char_of (48 + m div 10), char_of (48 + m mod 10)]
     else [char_of (48 + m div 10 div 10), char_of (48 + m div 10 mod 10), char_of (48 + m mod 10)])"
proof -
  have "m div 10 div 10 < 10" "m div 10 < 10 \<longleftrightarrow> m < 100" using assms by linarith+
  then show ?thesis
    using nat_to_string.simps [of m] nat_to_string.simps [of "m div 10"] nat_to_string.simps [of "m div 10 div 10"]
    by auto
qed

lemma octet_digits:
  assumes "0 \<le> n" and "n < 256"
  shows "list_all is_digit_ascii (itoa n)" "itoa n \<noteq> []" "digits_value (itoa n) = n"
    "1 < length (itoa n) \<Longrightarrow> hd (itoa n) \<noteq> CHR ''0''"
proof -
  define m where "m = nat n"
  have m: "m < 256" "int m = n" and it: "itoa n = nat_to_string m" using assms by (auto simp: m_def itoa_def)
  consider "m < 10" | "10 \<le> m" "m < 100" | "100 \<le> m" by linarith
  then have "list_all is_digit_ascii (itoa n) \<and> itoa n \<noteq> [] \<and> digits_value (itoa n) = n
    \<and> (1 < length (itoa n) \<longrightarrow> hd (itoa n) \<noteq> CHR ''0'')"
  proof cases
    case 1 then show ?thesis using m by (simp add: it nat_to_string_small digits_value_def digit_char)
  next
    case 2
    have "m div 10 < 10" "m mod 10 < 10" "m div 10 \<noteq> 0" using 2 by auto
    moreover have "10 * int (m div 10) + int (m mod 10) = int (10 * (m div 10) + m mod 10)" by (simp only: of_nat_add of_nat_mult of_nat_numeral)
    ultimately show ?thesis using m 2 digit_char(3) [of "m div 10"]
      by (auto simp: it nat_to_string_small digits_value_def digit_char)
  next
    case 3
    have d: "m div 10 div 10 < 10" "m div 10 mod 10 < 10" "m mod 10 < 10" "m div 10 div 10 \<noteq> 0" using 3 m by auto
    have "digits_value (itoa n) = 10 * (10 * int (m div 10 div 10) + int (m div 10 mod 10)) + int (m mod 10)"
      using m 3 d by (simp add: it nat_to_string_small digits_value_def digit_char)
    also have "\<dots> = int (10 * (10 * (m div 10 div 10) + m div 10 mod 10) + m mod 10)"
      by (simp only: of_nat_add of_nat_mult of_nat_numeral)
    also have "\<dots> = int m" by (simp only: mult_div_mod_eq)
    also have "\<dots> = n" by (rule m(2))
    finally show ?thesis using m 3 d digit_char(3) [of "m div 10 div 10"]
      by (auto simp: it nat_to_string_small digit_char)
  qed
  then show "list_all is_digit_ascii (itoa n)" "itoa n \<noteq> []" "digits_value (itoa n) = n"
    "1 < length (itoa n) \<Longrightarrow> hd (itoa n) \<noteq> CHR ''0''" by blast+
qed

lemma digit_not_punct:
  "is_digit_ascii c \<Longrightarrow> c \<noteq> CHR ''.'' \<and> c \<noteq> CHR '':'' \<and> c \<noteq> CHR ''%''"
  by (auto simp: is_digit_ascii_def byte_def)

lemma octet_facts:
  assumes "0 \<le> n" and "n < 256"
  shows "parse_octet (itoa n) = Some n"
    "\<And>c. c \<in> set (itoa n) \<Longrightarrow> c \<noteq> CHR ''.'' \<and> c \<noteq> CHR '':'' \<and> c \<noteq> CHR ''%''"
  using octet_digits [OF assms] assms digit_not_punct by (auto simp: parse_octet_def list_all_iff)

lemma octets_range:
  fixes w :: "32 word"
  assumes "x \<in> set (octets w)"
  shows "0 \<le> x \<and> x < 256"
proof -
  have u: "uint w < 4294967296" "0 \<le> uint w" using uint_lt2p [of w] by simp_all
  then have "uint w div 16777216 < 256" "0 \<le> uint w div 16777216" by linarith+
  then show ?thesis using assms by (auto simp: octets_def Let_def)
qed

lemma octets_value: "foldl (\<lambda>v x. 256 * v + x) 0 (octets w) = uint w"
proof -
  define n where "n = uint w"
  have d: "n div 65536 = n div 256 div 256" "n div 16777216 = n div 256 div 256 div 256"
    by (simp_all add: zdiv_zmult2_eq [symmetric])
  have "256 * (256 * (256 * (n div 256 div 256 div 256) + n div 256 div 256 mod 256) + n div 256 mod 256) + n mod 256 = n"
    by (simp only: mult_div_mod_eq)
  then show ?thesis by (simp add: octets_def n_def [symmetric] Let_def d)
qed

lemma split_join_dots:
  assumes "\<And>x. x \<in> set ws \<Longrightarrow> d \<notin> set x" and "ws \<noteq> []"
  shows "split_on d (join_strings [d] ws) = ws"
  using assms
proof (induction ws)
  case (Cons w ws) then show ?case
    by (cases ws) (auto simp: join_strings_def split_on_word split_on_append)
qed simp

text \<open>Printing an IPv4 address and parsing it again gives the address.\<close>

lemma parse_v4_string: "parse_addr (v4_string w) = Some (IPv4 w)"
proof -
  let ?os = "octets w"
  obtain a b c d where os: "?os = [a, b, c, d]" by (auto simp: octets_def Let_def)
  have r: "0 \<le> x \<and> x < 256" if "x \<in> set ?os" for x using octets_range that by blast
  have sp: "split_on (CHR ''.'') (v4_string w) = map itoa ?os"
    unfolding v4_string_def
    by (rule split_join_dots) (use octet_facts(2) r in \<open>fastforce simp: os\<close>)+
  have "parse_octets (v4_string w) = Some ?os"
    using octet_facts(1) [of a] octet_facts(1) [of b] octet_facts(1) [of c] octet_facts(1) [of d] r
    by (simp add: parse_octets_def sp os)
  then have v4: "parse_ipv4 (v4_string w) = Some (IPv4 w)"
    by (simp add: parse_ipv4_def octets_value)
  have "v4_string w = itoa a @ CHR ''.'' # itoa b @ ''.'' @ itoa c @ ''.'' @ itoa d"
    by (simp add: v4_string_def os join_strings_def)
  moreover have "dropWhile (\<lambda>c. c \<noteq> CHR ''.'' \<and> c \<noteq> CHR '':'' \<and> c \<noteq> CHR ''%'') (itoa a @ CHR ''.'' # t) = CHR ''.'' # t" for t
  proof -
    have "\<And>x. x \<in> set (itoa a) \<Longrightarrow> x \<noteq> CHR ''.'' \<and> x \<noteq> CHR '':'' \<and> x \<noteq> CHR ''%''"
      using octet_facts [of a] r [of a] os by auto
    then show ?thesis by (subst dropWhile_append2) auto
  qed
  ultimately show ?thesis using v4 by (simp add: parse_addr_def)
qed

text \<open>Without host bits, an IPv4 prefix contains exactly the addresses of an aligned range.\<close>

lemma div_eq_range:
  fixes p w m :: nat
  assumes "0 < m" and "p = p div m * m"
  shows "w div m = p div m \<longleftrightarrow> p \<le> w \<and> w < p + m"
proof
  assume "w div m = p div m"
  then have "w = p + w mod m" using assms(2) div_mult_mod_eq [of w m] by simp
  then show "p \<le> w \<and> w < p + m" using assms(1) by (metis add_left_mono le_add1 mod_less_divisor nat_add_left_cancel_less)
next
  assume r: "p \<le> w \<and> w < p + m"
  show "w div m = p div m"
    by (rule div_nat_eqI) (use r assms(2) in \<open>simp_all add: mult.commute\<close>)
qed

lemma prefix_contains_range:
  assumes "b \<le> 32" and "mask_addr b (IPv4 p) = IPv4 p"
  shows "prefix_contains (Prefix (IPv4 p) b) (IPv4 w) \<longleftrightarrow> unat p \<le> unat w \<and> unat w < unat p + 2 ^ (32 - b)"
proof -
  define k where "k = 32 - b"
  have "p = push_bit k (drop_bit k p)" using assms(2) by (simp add: k_def)
  then have "unat p = unat (push_bit k (drop_bit k p))" by simp
  also have "\<dots> = take_bit 32 (unat p div 2 ^ k * 2 ^ k)"
    using unsigned_push_bit_eq [of k "drop_bit k p", where ?'a = nat]
    by (simp add: unat_drop_bit_eq push_bit_eq_mult [where ?'a = nat] drop_bit_eq_div [where ?'a = nat])
  also have "\<dots> = unat p div 2 ^ k * 2 ^ k"
    using unsigned_less [of p, where ?'a = nat]
    by (intro take_bit_nat_eq_self le_less_trans [OF div_times_less_eq_dividend]) simp
  finally have np: "unat p = unat p div 2 ^ k * 2 ^ k" .
  have "drop_bit k w = drop_bit k p \<longleftrightarrow> unat w div 2 ^ k = unat p div 2 ^ k"
    by (simp add: word_unat_eq_iff unat_drop_bit_eq drop_bit_eq_div [where ?'a = nat])
  also have "\<dots> \<longleftrightarrow> unat p \<le> unat w \<and> unat w < unat p + 2 ^ k"
    by (rule div_eq_range [OF _ np]) simp
  finally show ?thesis using assms(1) by (simp add: k_def)
qed

end
