(* ===== verification/Capability_Normalize.thy ===== *)
theory Capability_Normalize
  imports Net_Address
begin

text \<open>
  Canonical identity for the capability evaluator (\<^verbatim>\<open>src/internal/capability/normalize.go\<close>):
  hostnames, executables, CIDRs, workspace containment with resolution of symbolic links, and the
  validation of the declared authority.

  An error keeps the constant part of its message; InvalidStep wraps \<^verbatim>\<open>ErrInvalidStep\<close>,
  InternalError does not (the distinction \<^verbatim>\<open>ClassifyError\<close> makes).
\<close>

datatype cap_error = InvalidStep string | InternalError string

record declared_authority =
  da_target :: string
  da_network :: "net_prefix list"
  da_host :: string
  da_workspace_root :: string
  da_executables :: "string list"
  da_intent :: string

section \<open>Names\<close>

definition CanonicalExecutable :: "string \<Rightarrow> string" where
  "CanonicalExecutable name = path_base name"

definition trim_suffix :: "string \<Rightarrow> string \<Rightarrow> string" where
  "trim_suffix suf s = (if starts_with (rev suf) (rev s) then take (length s - length suf) s else s)"

definition CanonicalHost :: "string \<Rightarrow> string" where
  "CanonicalHost h = to_lower (trim_suffix ''.'' h)"

definition host_label_ok :: "string \<Rightarrow> bool" where
  "host_label_ok part \<longleftrightarrow>
     part \<noteq> [] \<and> length part \<le> 63 \<and> hd part \<noteq> CHR ''-'' \<and> last part \<noteq> CHR ''-''
     \<and> list_all (\<lambda>c. is_lower_ascii c \<or> is_digit_ascii c \<or> c = CHR ''-'') part"

definition CanonicalHostIsValid :: "string \<Rightarrow> string option" where
  "CanonicalHostIsValid s =
     (let h = CanonicalHost s in
      if h = [] then None
      else if parse_addr h \<noteq> None then None
      else if 253 < length h then None
      else if list_all host_label_ok (split_on (CHR ''.'') h) then Some h
      else None)"

definition CanonicalCIDR :: "string \<Rightarrow> net_prefix option" where
  "CanonicalCIDR s =
     (case parse_prefix s of
        None \<Rightarrow> None
      | Some p \<Rightarrow> if prefix_addr p \<noteq> prefix_addr (prefix_masked p) then None else Some (prefix_masked p))"

section \<open>Workspace containment\<close>

text \<open>The walk to the deepest ancestor that resolves; the second component holds the elements
  below it. It ends because the parent of a path is shorter or is the path itself.\<close>

function resolve_walk :: "fs_env \<Rightarrow> string \<Rightarrow> string list \<Rightarrow> (string \<times> string list) option" where
  "resolve_walk fs cur residual =
     (case fs_eval_symlinks fs cur of
        Some resolved \<Rightarrow> Some (resolved, residual)
      | None \<Rightarrow>
          let parent = path_dir cur in
          if parent = cur then None else resolve_walk fs parent (path_base cur # residual))"
  by pat_completeness auto
termination
proof (relation "measure (\<lambda>(fs, cur, residual). if cur = ''.'' then 0 else Suc (length cur))", goal_cases)
  case (2 fs cur residual x)
  have "path_dir ''.'' = ''.''" by code_simp
  then show ?case using 2 dir_measure [of cur] by auto
qed simp

declare resolve_walk.simps [simp del]

definition resolveExistingAncestors :: "fs_env \<Rightarrow> string \<Rightarrow> cap_error + string \<times> string list" where
  "resolveExistingAncestors fs p =
     (case resolve_walk fs p [] of None \<Rightarrow> Inl (InternalError ''no existing ancestor'') | Some r \<Rightarrow> Inr r)"

definition PathOutsideWorkspace :: "fs_env \<Rightarrow> string \<Rightarrow> string \<Rightarrow> cap_error + bool" where
  "PathOutsideWorkspace fs p ws =
     (if p = [] \<or> ws = [] then Inl (InvalidStep ''empty path or workspace root'')
      else case path_abs fs p of None \<Rightarrow> Inl (InvalidStep ''abs'') | Some abs0 \<Rightarrow>
      let abs = path_clean abs0 in
      case path_abs fs ws of None \<Rightarrow> Inl (InvalidStep ''abs root'') | Some root0 \<Rightarrow>
      let wroot = path_clean root0 in
      case fs_eval_symlinks fs wroot of None \<Rightarrow> Inl (InvalidStep ''resolve root'') | Some resolvedRoot \<Rightarrow>
      case path_rel wroot abs of None \<Rightarrow> Inl (InvalidStep ''rel'') | Some rel \<Rightarrow>
      if rel_outside rel then Inr True
      else case resolveExistingAncestors fs abs of Inl e \<Rightarrow> Inl e | Inr (resolved, residual) \<Rightarrow>
      case path_rel resolvedRoot (path_join (resolved # residual)) of
        None \<Rightarrow> Inl (InvalidStep ''rel resolved'')
      | Some rel2 \<Rightarrow> Inr (rel_outside rel2))"

definition CanonicalPath :: "fs_env \<Rightarrow> string \<Rightarrow> string \<Rightarrow> bool \<Rightarrow> cap_error + string" where
  "CanonicalPath fs p workspaceRoot requireExists =
     (if p = [] \<or> workspaceRoot = [] then Inl (InvalidStep ''empty path or workspace root'')
      else case path_abs fs p of None \<Rightarrow> Inl (InvalidStep ''abs'') | Some abs0 \<Rightarrow>
      let abs = path_clean abs0 in
      case path_abs fs workspaceRoot of None \<Rightarrow> Inl (InvalidStep ''abs root'') | Some root0 \<Rightarrow>
      let wroot = path_clean root0 in
      case path_rel wroot abs of None \<Rightarrow> Inl (InvalidStep ''rel'') | Some rel \<Rightarrow>
      if rel_outside rel then Inl (InvalidStep ''path outside workspace'')
      else if \<not> requireExists then Inr abs
      else case resolveExistingAncestors fs abs of Inl _ \<Rightarrow> Inl (InvalidStep ''resolve'') | Inr (resolved, residual) \<Rightarrow>
      case fs_eval_symlinks fs wroot of None \<Rightarrow> Inl (InvalidStep ''resolve root'') | Some resolvedRoot \<Rightarrow>
      let joined = path_join (resolved # residual) in
      case path_rel resolvedRoot joined of
        None \<Rightarrow> Inl (InvalidStep ''rel resolved'')
      | Some rel2 \<Rightarrow> if rel_outside rel2 then Inl (InvalidStep ''symlink escape outside workspace'') else Inr joined)"

section \<open>Declared authority\<close>

definition network_ok :: "net_prefix \<Rightarrow> bool" where
  "network_ok p \<longleftrightarrow> prefix_is_valid p \<and> prefix_addr p = prefix_addr (prefix_masked p)"

definition executable_ok :: "string \<Rightarrow> bool" where
  "executable_ok exe \<longleftrightarrow> exe \<noteq> [] \<and> exe \<noteq> ''.'' \<and> exe \<noteq> ''..'' \<and> CanonicalExecutable exe = exe"

definition ValidateAuthority :: "declared_authority \<Rightarrow> cap_error option" where
  "ValidateAuthority da =
     (if da_target da = [] then Some (InvalidStep ''missing declared target'')
      else if da_workspace_root da = [] then Some (InvalidStep ''missing workspace root'')
      else if \<not> list_all network_ok (da_network da) then Some (InvalidStep ''declared network invalid'')
      else if da_host da \<noteq> [] \<and> CanonicalHostIsValid (da_host da) = None
      then Some (InvalidStep ''malformed declared host'')
      else if \<not> list_all executable_ok (da_executables da) then Some (InvalidStep ''malformed declared executable'')
      else None)"

definition normalizeDeclaredAuthority :: "declared_authority \<Rightarrow> declared_authority" where
  "normalizeDeclaredAuthority da =
     da\<lparr>da_host := (if da_host da \<noteq> [] then CanonicalHost (da_host da) else []),
        da_executables := map CanonicalExecutable (da_executables da),
        da_network := map prefix_masked (da_network da),
        da_workspace_root := (if da_workspace_root da \<noteq> [] then path_clean (da_workspace_root da) else [])\<rparr>"

section \<open>Containment is the prefix order on resolved elements\<close>

text \<open>What the operating system is relied on for: the working directory is absolute, and resolving
  an absolute path gives an absolute path.\<close>

definition fs_ok :: "fs_env \<Rightarrow> bool" where
  "fs_ok fs \<longleftrightarrow>
     (\<forall>d. fs_cwd fs = Some d \<longrightarrow> is_abs d)
     \<and> (\<forall>p q. is_abs p \<longrightarrow> fs_eval_symlinks fs p = Some q \<longrightarrow> is_abs q)"

text \<open>The location a path names: the deepest ancestor that resolves, with the rest below it.\<close>

fun real_location :: "fs_env \<Rightarrow> string list \<Rightarrow> string list \<Rightarrow> string list option" where
  "real_location fs [] below =
     (case fs_eval_symlinks fs (mk_abs []) of None \<Rightarrow> None | Some r \<Rightarrow> Some (abs_elems r @ below))"
| "real_location fs (w # up) below =
     (case fs_eval_symlinks fs (mk_abs (rev (w # up))) of
        Some r \<Rightarrow> Some (abs_elems r @ below)
      | None \<Rightarrow> real_location fs up (w # below))"

lemma resolve_walk_location:
  assumes "list_all plain_elem (rev ws @ below)" and "fs_ok fs"
  shows "map_option (\<lambda>(r, rest). abs_elems r @ rest) (resolve_walk fs (mk_abs (rev ws)) below)
           = real_location fs ws below"
    and "resolve_walk fs (mk_abs (rev ws)) below = Some (r, rest) \<Longrightarrow> is_abs r \<and> list_all plain_elem rest"
proof -
  have "map_option (\<lambda>(r, rest). abs_elems r @ rest) (resolve_walk fs (mk_abs (rev ws)) below)
           = real_location fs ws below
        \<and> (\<forall>r rest. resolve_walk fs (mk_abs (rev ws)) below = Some (r, rest) \<longrightarrow> is_abs r \<and> list_all plain_elem rest)"
    using assms(1)
  proof (induction ws arbitrary: below)
    case Nil
    have "is_abs r" if "fs_eval_symlinks fs (mk_abs []) = Some r" for r
      using that assms(2) is_abs_mk_abs unfolding fs_ok_def by blast
    then show ?case using Nil
      by (subst (1 2) resolve_walk.simps) (auto split: option.split)
  next
    case (Cons w ws)
    have pl: "list_all plain_elem (rev ws @ [w])" using Cons.prems by simp
    have ne: "mk_abs (rev ws) \<noteq> mk_abs (rev ws @ [w])"
      using mk_abs_inject [OF plain_good plain_good [OF pl]] pl by simp
    have walk: "resolve_walk fs (mk_abs (rev (w # ws))) below =
      (case fs_eval_symlinks fs (mk_abs (rev (w # ws))) of Some r \<Rightarrow> Some (r, below)
       | None \<Rightarrow> resolve_walk fs (mk_abs (rev ws)) (w # below))"
      using path_dir_snoc [OF pl] path_base_snoc [OF pl] ne
      by (subst resolve_walk.simps) (simp add: Let_def split: option.split)
    show ?case
    proof (cases "fs_eval_symlinks fs (mk_abs (rev (w # ws)))")
      case None
      have IH: "list_all plain_elem (rev ws @ w # below)" using Cons.prems by simp
      have "real_location fs (w # ws) below = real_location fs ws (w # below)"
        "resolve_walk fs (mk_abs (rev (w # ws))) below = resolve_walk fs (mk_abs (rev ws)) (w # below)"
        using None walk by simp_all
      then show ?thesis using Cons.IH [OF IH] by (simp only:) blast
    next
      case (Some r)
      then have "is_abs r" using assms(2) is_abs_mk_abs unfolding fs_ok_def by blast
      then show ?thesis using Some walk Cons.prems by simp
    qed
  qed
  then show "map_option (\<lambda>(r, rest). abs_elems r @ rest) (resolve_walk fs (mk_abs (rev ws)) below)
           = real_location fs ws below"
    "resolve_walk fs (mk_abs (rev ws)) below = Some (r, rest) \<Longrightarrow> is_abs r \<and> list_all plain_elem rest"
    by blast+
qed

lemma path_abs_is_abs:
  assumes "fs_ok fs" and "path_abs fs p = Some q"
  shows "is_abs q" "path_clean q = q"
proof -
  have "is_abs q \<and> path_clean q = q"
  proof (cases "is_abs p")
    case True then show ?thesis using assms(2) by (auto simp: path_abs_def is_abs_clean)
  next
    case False
    then obtain d where d: "fs_cwd fs = Some d" "q = path_join [d, p]" using assms(2) by (auto simp: path_abs_def)
    then have ad: "is_abs d" using assms(1) by (auto simp: fs_ok_def)
    then have "q = path_clean (d @ sep # p)" using d by (auto simp: path_join_def is_abs_def)
    then show ?thesis using is_abs_clean [OF is_abs_append [OF ad]] path_clean_idem_abs [OF is_abs_append [OF ad]]
      by simp
  qed
  then show "is_abs q" "path_clean q = q" by blast+
qed

text \<open>The exact meaning of the containment test. An error or a verdict, never both; inside means
  that the path lies below the root as written and that its resolved location lies below the
  resolved root.\<close>

definition location_of :: "fs_env \<Rightarrow> string \<Rightarrow> string list option" where
  "location_of fs p = real_location fs (rev (abs_elems p)) []"

lemma resolve_location:
  assumes "fs_ok fs" and "is_abs p" and "path_clean p = p"
  shows "resolveExistingAncestors fs p = Inl (InternalError ''no existing ancestor'') \<and> location_of fs p = None
    \<or> (\<exists>r rest loc. resolveExistingAncestors fs p = Inr (r, rest) \<and> location_of fs p = Some loc
          \<and> path_join (r # rest) = mk_abs loc \<and> list_all plain_elem loc)"
proof -
  have p: "p = mk_abs (rev (rev (abs_elems p)))" using clean_abs [OF assms(2)] assms(3) by simp
  have pl: "list_all plain_elem (rev (rev (abs_elems p)) @ [])" using abs_elems_plain by simp
  note loc = resolve_walk_location [OF pl assms(1), folded p location_of_def]
  show ?thesis
  proof (cases "resolve_walk fs p []")
    case None then show ?thesis using loc(1) by (simp add: resolveExistingAncestors_def)
  next
    case (Some x)
    then obtain r rest where x: "resolve_walk fs p [] = Some (r, rest)" by (cases x) auto
    have rp: "is_abs r" "list_all plain_elem rest" using loc(2) [OF x] by auto
    have pj: "path_join (r # rest) = mk_abs (abs_elems r @ rest)"
    proof -
      have "r \<noteq> []" using rp(1) by (auto simp: is_abs_def)
      have el: "elems (join_elems (r # rest)) = elems r @ rest"
        using elems_append [of r "join_elems rest"] elems_join [OF plain_good [OF rp(2)]] by (simp add: join_elems_Cons)
      have "is_abs (join_elems (r # rest))" using rp(1) by (simp add: join_elems_Cons is_abs_append)
      then have "path_join (r # rest) = mk_abs (clean_elems True [] (elems r @ rest))"
        using \<open>r \<noteq> []\<close> el clean_abs [of "join_elems (r # rest)"] by (simp add: path_join_def abs_elems_def)
      moreover have "clean_elems True out (xs @ rest) = clean_elems True out xs @ rest" for out xs
      proof (induction xs arbitrary: out)
        case Nil then show ?case using clean_elems_id [OF rp(2)] by simp
      next
        case (Cons x xs)
        show ?case by (cases out) (simp_all add: Cons.IH)
      qed
      ultimately show ?thesis by (simp add: abs_elems_def)
    qed
    have "list_all plain_elem (abs_elems r @ rest)" using abs_elems_plain rp(2) by simp
    moreover have "location_of fs p = Some (abs_elems r @ rest)" using loc(1) x by simp
    ultimately show ?thesis using x pj by (auto simp: resolveExistingAncestors_def)
  qed
qed

lemma outside_exact:
  assumes "fs_ok fs" and "p \<noteq> []" "ws \<noteq> []" and "path_abs fs p = Some a" "path_abs fs ws = Some w"
  shows "PathOutsideWorkspace fs p ws =
    (case fs_eval_symlinks fs w of
       None \<Rightarrow> Inl (InvalidStep ''resolve root'')
     | Some rr \<Rightarrow>
         if \<not> prefix (abs_elems w) (abs_elems a) then Inr True
         else (case location_of fs a of
            None \<Rightarrow> Inl (InternalError ''no existing ancestor'')
          | Some loc \<Rightarrow> Inr (\<not> prefix (abs_elems rr) loc)))"
proof (cases "fs_eval_symlinks fs w")
  case None
  then show ?thesis using assms path_abs_is_abs [OF assms(1,4)] path_abs_is_abs [OF assms(1,5)]
    by (simp add: PathOutsideWorkspace_def Let_def)
next
  case (Some rr)
  note a = path_abs_is_abs [OF assms(1,4)] and w = path_abs_is_abs [OF assms(1,5)]
  have rr: "is_abs rr" using assms(1) Some w(1) unfolding fs_ok_def by blast
  obtain rel where rel: "path_rel w a = Some rel" "rel_outside rel \<longleftrightarrow> \<not> prefix (abs_elems w) (abs_elems a)"
    using path_rel_outside [OF w(1) a(1)] by blast
  have un: "PathOutsideWorkspace fs p ws =
     (if rel_outside rel then Inr True
      else case resolveExistingAncestors fs a of Inl e \<Rightarrow> Inl e | Inr (resolved, residual) \<Rightarrow>
      case path_rel rr (path_join (resolved # residual)) of
        None \<Rightarrow> Inl (InvalidStep ''rel resolved'')
      | Some rel2 \<Rightarrow> Inr (rel_outside rel2))"
    using assms a w rel Some by (simp add: PathOutsideWorkspace_def Let_def)
  show ?thesis using resolve_location [OF assms(1) a]
  proof (elim disjE exE conjE)
    assume "resolveExistingAncestors fs a = Inl (InternalError ''no existing ancestor'')" "location_of fs a = None"
    then show ?thesis using un rel Some by simp
  next
    fix r rest loc
    assume h: "resolveExistingAncestors fs a = Inr (r, rest)" "location_of fs a = Some loc"
      "path_join (r # rest) = mk_abs loc" "list_all plain_elem loc"
    obtain rel2 where "path_rel rr (mk_abs loc) = Some rel2" "rel_outside rel2 \<longleftrightarrow> \<not> prefix (abs_elems rr) loc"
      using path_rel_outside [OF rr is_abs_mk_abs, of loc] h(4) by auto
    then show ?thesis using un rel Some h by simp
  qed
qed

lemma outside_no_abs:
  assumes "p = [] \<or> ws = [] \<or> path_abs fs p = None \<or> path_abs fs ws = None"
  shows "\<exists>e. PathOutsideWorkspace fs p ws = Inl e"
  using assms by (auto simp: PathOutsideWorkspace_def Let_def split: option.split)


definition link_fs :: fs_env where
  "link_fs =
     \<lparr>fs_cwd = Some ''/w'',
      fs_eval_symlinks = (\<lambda>p. if p \<in> {''/'', ''/w'', ''/w/a'', ''/etc''} then Some p
                              else if p = ''/w/l'' then Some ''/etc'' else None)\<rparr>"

lemma link_fs_ok: "fs_ok link_fs"
proof -
  have "is_abs ''/w''" "is_abs ''/etc''" by (simp_all add: is_abs_def sep_def)
  then show ?thesis by (auto simp: fs_ok_def link_fs_def split: if_splits)
qed


lemma walk_deepest:
  assumes "list_all plain_elem (rev ws @ below)"
  shows "(case resolve_walk fs (mk_abs (rev ws)) below of
      Some (r, rest) \<Rightarrow> \<exists>k \<le> length ws. fs_eval_symlinks fs (mk_abs (take k (rev ws))) = Some r
        \<and> rest = drop k (rev ws) @ below
        \<and> (\<forall>j. k < j \<and> j \<le> length ws \<longrightarrow> fs_eval_symlinks fs (mk_abs (take j (rev ws))) = None)
    | None \<Rightarrow> \<forall>j \<le> length ws. fs_eval_symlinks fs (mk_abs (take j (rev ws))) = None)"
  using assms
proof (induction ws arbitrary: below)
  case Nil
  show ?case by (subst resolve_walk.simps) (simp split: option.split)
next
  case (Cons w ws)
  have pl: "list_all plain_elem (rev ws @ [w])" using Cons.prems by simp
  have ne: "mk_abs (rev ws) \<noteq> mk_abs (rev ws @ [w])"
    using mk_abs_inject [OF plain_good plain_good [OF pl]] pl by simp
  have walk: "resolve_walk fs (mk_abs (rev (w # ws))) below =
    (case fs_eval_symlinks fs (mk_abs (rev (w # ws))) of Some r \<Rightarrow> Some (r, below)
     | None \<Rightarrow> resolve_walk fs (mk_abs (rev ws)) (w # below))"
    using path_dir_snoc [OF pl] path_base_snoc [OF pl] ne
    by (subst resolve_walk.simps) (simp add: Let_def split: option.split)
  have tk: "take j (rev (w # ws)) = take j (rev ws)" if "j \<le> length ws" for j using that by simp
  have last: "take (Suc (length ws)) (rev (w # ws)) = rev (w # ws)" by simp
  show ?case
  proof (cases "fs_eval_symlinks fs (mk_abs (rev (w # ws)))")
    case (Some r)
    then show ?thesis using walk by (auto intro!: exI [of _ "Suc (length ws)"])
  next
    case None
    have top: "fs_eval_symlinks fs (mk_abs (take j (rev (w # ws)))) = None" if "length ws < j" for j
      using that None by simp
    have "list_all plain_elem (rev ws @ w # below)" using Cons.prems by simp
    note IH = Cons.IH [OF this]
    show ?thesis
    proof (cases "resolve_walk fs (mk_abs (rev ws)) (w # below)")
      case None': None
      then have "\<forall>j \<le> length ws. fs_eval_symlinks fs (mk_abs (take j (rev ws))) = None" using IH by simp
      then have "fs_eval_symlinks fs (mk_abs (take j (rev (w # ws)))) = None" for j
        using tk top by (metis not_le)
      then show ?thesis using walk None None' by simp
    next
      case (Some x)
      obtain r rest where x: "x = (r, rest)" by (cases x)
      obtain k where k: "k \<le> length ws" "fs_eval_symlinks fs (mk_abs (take k (rev ws))) = Some r"
        "rest = drop k (rev ws) @ w # below"
        "\<forall>j. k < j \<and> j \<le> length ws \<longrightarrow> fs_eval_symlinks fs (mk_abs (take j (rev ws))) = None"
        using IH Some x by auto
      have "fs_eval_symlinks fs (mk_abs (take j (rev (w # ws)))) = None" if "k < j" for j
        using that k(4) tk top by (metis not_le)
      then show ?thesis using walk None Some x k by (auto intro!: exI [of _ k])
    qed
  qed
qed

text \<open>The walk to an existing ancestor always ends, and with the deepest one: either it returns an
  ancestor that resolves together with the elements below it, and no longer prefix of the path
  resolves, or it fails and no prefix at all resolves, the file system root included.\<close>

theorem ancestor_walk_ends_deepest:
  assumes "is_abs p" and "path_clean p = p" and "n = length (abs_elems p)"
  shows "(\<exists>r k. k \<le> n \<and> resolveExistingAncestors fs p = Inr (r, drop k (abs_elems p))
            \<and> fs_eval_symlinks fs (mk_abs (take k (abs_elems p))) = Some r
            \<and> (\<forall>j. k < j \<and> j \<le> n \<longrightarrow> fs_eval_symlinks fs (mk_abs (take j (abs_elems p))) = None))
    \<or> (resolveExistingAncestors fs p = Inl (InternalError ''no existing ancestor'')
        \<and> (\<forall>j \<le> n. fs_eval_symlinks fs (mk_abs (take j (abs_elems p))) = None))"
proof -
  have p: "mk_abs (abs_elems p) = p" using clean_abs [OF assms(1)] assms(2) by simp
  have pl: "list_all plain_elem (rev (rev (abs_elems p)) @ [])" using abs_elems_plain by simp
  show ?thesis
    using walk_deepest [OF pl, of fs] unfolding assms(3)
    by (cases "resolve_walk fs p []") (auto simp: p resolveExistingAncestors_def)
qed

theorem ancestor_walk_ends_deepest_witness:
  "is_abs ''/w/a/x/y'' \<and> path_clean ''/w/a/x/y'' = ''/w/a/x/y''
   \<and> ((\<exists>r k. k \<le> length (abs_elems ''/w/a/x/y'')
            \<and> resolveExistingAncestors link_fs ''/w/a/x/y'' = Inr (r, drop k (abs_elems ''/w/a/x/y''))
            \<and> fs_eval_symlinks link_fs (mk_abs (take k (abs_elems ''/w/a/x/y''))) = Some r
            \<and> (\<forall>j. k < j \<and> j \<le> length (abs_elems ''/w/a/x/y'')
                   \<longrightarrow> fs_eval_symlinks link_fs (mk_abs (take j (abs_elems ''/w/a/x/y''))) = None))
    \<or> (resolveExistingAncestors link_fs ''/w/a/x/y'' = Inl (InternalError ''no existing ancestor'')
        \<and> (\<forall>j \<le> length (abs_elems ''/w/a/x/y''). fs_eval_symlinks link_fs (mk_abs (take j (abs_elems ''/w/a/x/y''))) = None)))"
proof -
  have "is_abs ''/w/a/x/y''" "path_clean ''/w/a/x/y'' = ''/w/a/x/y''" by code_simp+
  then show ?thesis using ancestor_walk_ends_deepest [of "''/w/a/x/y''" "length (abs_elems ''/w/a/x/y'')" link_fs] by blast
qed

end
