(* ===== verification/Capability_Signals.thy ===== *)
theory Capability_Signals
  imports Capability_Normalize "HOL-Library.List_Lexorder" "HOL-Library.Char_ord"
begin

text \<open>
  What the capability evaluator observes of one tool call (\<^verbatim>\<open>src/internal/capability/capability.go\<close>,
  types of \<^verbatim>\<open>receipt.go\<close> and constants of \<^verbatim>\<open>evaluator.go\<close>): the classifiers of tool names and
  command-bearing arguments, the extraction of signals and the derivation of an effect from them.
  SHA-256 in hexadecimal is the parameter sha; the file system is the parameter fs.
\<close>

section \<open>Constants\<close>

definition EvidenceDeclaredOnly :: string where "EvidenceDeclaredOnly = ''declared_only''"
definition EvidenceArtifact :: string where "EvidenceArtifact = ''artifact''"
definition EvidenceRuntimeMarker :: string where "EvidenceRuntimeMarker = ''runtime_marker''"
definition EvidenceBoundaryRequest :: string where "EvidenceBoundaryRequest = ''boundary_request''"

definition EffectHostExec :: string where "EffectHostExec = ''host_exec''"
definition EffectNetEgress :: string where "EffectNetEgress = ''net_egress''"
definition EffectFileAccess :: string where "EffectFileAccess = ''file_access''"
definition EffectCanaryAccess :: string where "EffectCanaryAccess = ''canary_access''"

definition SignalDeclaredIntent :: string where "SignalDeclaredIntent = ''declared.intent''"
definition SignalArtifactPocCreated :: string where "SignalArtifactPocCreated = ''artifact.poc_created''"
definition SignalArtifactBuildArtifact :: string where "SignalArtifactBuildArtifact = ''artifact.build_artifact''"
definition SignalRuntimeMemoryCorruption :: string where
  "SignalRuntimeMemoryCorruption = ''runtime.memory_corruption_marker''"
definition SignalRuntimeSandboxEscape :: string where
  "SignalRuntimeSandboxEscape = ''runtime.sandbox_escape_marker''"
definition SignalBoundaryHostExec :: string where "SignalBoundaryHostExec = ''boundary.request_host_exec''"
definition SignalBoundaryEgress :: string where "SignalBoundaryEgress = ''boundary.request_egress''"
definition SignalBoundaryFileOutside :: string where
  "SignalBoundaryFileOutside = ''boundary.request_file_outside_workspace''"

definition CapReadSandboxMem :: string where "CapReadSandboxMem = ''read_sandbox_mem''"
definition CapOOBRead :: string where "CapOOBRead = ''oob_read''"
definition CapOOBWrite :: string where "CapOOBWrite = ''oob_write''"
definition CapHeapEscape :: string where "CapHeapEscape = ''heap_escape''"
definition CapNativeExec :: string where "CapNativeExec = ''native_exec''"
definition CapHostExec :: string where "CapHostExec = ''host_exec''"
definition CapNetEgress :: string where "CapNetEgress = ''net_egress''"

definition lattice :: "string list" where
  "lattice = [CapReadSandboxMem, CapOOBRead, CapOOBWrite, CapHeapEscape, CapNativeExec, CapHostExec, CapNetEgress]"

lemmas cap_defs = CapReadSandboxMem_def CapOOBRead_def CapOOBWrite_def CapHeapEscape_def
  CapNativeExec_def CapHostExec_def CapNetEgress_def

lemma lattice_distinct: "distinct lattice"
  by (simp add: lattice_def cap_defs)

lemmas evidence_defs = EvidenceDeclaredOnly_def EvidenceArtifact_def EvidenceRuntimeMarker_def
  EvidenceBoundaryRequest_def

lemmas effect_defs = EffectHostExec_def EffectNetEgress_def EffectFileAccess_def EffectCanaryAccess_def

lemmas signal_defs = SignalDeclaredIntent_def SignalArtifactPocCreated_def SignalArtifactBuildArtifact_def
  SignalRuntimeMemoryCorruption_def SignalRuntimeSandboxEscape_def SignalBoundaryHostExec_def
  SignalBoundaryEgress_def SignalBoundaryFileOutside_def

lemma effects_distinct [simp]:
  "distinct [EffectHostExec, EffectNetEgress, EffectFileAccess, EffectCanaryAccess, []]"
  by (simp add: effect_defs)

lemma signals_distinct:
  "distinct [SignalDeclaredIntent, SignalArtifactPocCreated, SignalArtifactBuildArtifact,
     SignalRuntimeMemoryCorruption, SignalRuntimeSandboxEscape, SignalBoundaryHostExec,
     SignalBoundaryEgress, SignalBoundaryFileOutside]"
  by (simp add: signal_defs)

section \<open>Steps and signals\<close>

record signal =
  sg_kind :: string
  sg_observation :: string
  sg_level :: string
  sg_digest :: string

record cap_step =
  cs_session_id :: string
  cs_step_id :: int
  cs_tool :: string
  cs_args :: "(string \<times> string) list"
  cs_path :: string
  cs_executable :: string
  cs_dest_ip :: "addr option"
  cs_dest_host :: string
  cs_result :: string
  cs_artifact_magic :: string
  cs_declared :: declared_authority
  cs_effect :: string
  cs_effect_target :: string
  cs_primitive :: string
  cs_signals :: "signal list"

definition mk_signal :: "(string \<Rightarrow> string) \<Rightarrow> string \<Rightarrow> string \<Rightarrow> string \<Rightarrow> string \<Rightarrow> signal" where
  "mk_signal sha kind obs level src =
     \<lparr>sg_kind = kind, sg_observation = obs, sg_level = level, sg_digest = ''sha256:'' @ sha src\<rparr>"

definition hasSignal :: "signal list \<Rightarrow> string \<Rightarrow> bool" where
  "hasSignal ss kind \<longleftrightarrow> list_ex (\<lambda>s. sg_kind s = kind) ss"

definition hasSignalLevel :: "signal list \<Rightarrow> string \<Rightarrow> string \<Rightarrow> bool" where
  "hasSignalLevel ss kind level \<longleftrightarrow> list_ex (\<lambda>s. sg_kind s = kind \<and> sg_level s = level) ss"

definition hasBoundarySignal :: "signal list \<Rightarrow> bool" where
  "hasBoundarySignal ss \<longleftrightarrow>
     list_ex (\<lambda>s. sg_kind s \<in> {SignalBoundaryHostExec, SignalBoundaryEgress, SignalBoundaryFileOutside}) ss"

fun dedup_seen :: "string list \<Rightarrow> signal list \<Rightarrow> signal list" where
  "dedup_seen seen [] = []"
| "dedup_seen seen (s # ss) =
     (if sg_kind s \<in> set seen then dedup_seen seen ss else s # dedup_seen (sg_kind s # seen) ss)"

definition dedupByKind :: "signal list \<Rightarrow> signal list" where
  "dedupByKind ss = dedup_seen [] ss"

section \<open>Classifying names and command-bearing arguments\<close>

definition sortedKeys :: "(string \<times> string) list \<Rightarrow> string list" where
  "sortedKeys m = sort (map fst m)"

definition argsBlob :: "cap_step \<Rightarrow> string" where
  "argsBlob step =
     concat (map (\<lambda>k. k @ ''='' @ the (map_of (cs_args step) k) @ [CHR 0x00]) (sortedKeys (cs_args step)))"

definition fileSurfacePath :: "cap_step \<Rightarrow> string" where
  "fileSurfacePath step = (if cs_path step \<noteq> [] then cs_path step else cs_effect_target step)"

fun split_by :: "(char \<Rightarrow> bool) \<Rightarrow> string \<Rightarrow> string list" where
  "split_by P [] = [[]]"
| "split_by P (c # s) =
     (if P c then [] # split_by P s
      else (case split_by P s of [] \<Rightarrow> [[c]] | w # ws \<Rightarrow> (c # w) # ws))"

definition fields_func :: "(char \<Rightarrow> bool) \<Rightarrow> string \<Rightarrow> string list" where
  "fields_func P s = filter (\<lambda>w. w \<noteq> []) (split_by P s)"

text \<open>\<^verbatim>\<open>strings.Fields\<close>: words between Unicode white space.\<close>

function fields_scan :: "string \<Rightarrow> string \<Rightarrow> string list" where
  "fields_scan cur s =
     (if s = [] then (if cur = [] then [] else [rev cur])
      else if 0 < space_width wide_spaces s
      then (if cur = [] then [] else [rev cur]) @ fields_scan [] (drop (space_width wide_spaces s) s)
      else fields_scan (hd s # cur) (tl s))"
  by pat_completeness auto
termination
  by (relation "measure (\<lambda>(cur, s). length s)") auto

declare fields_scan.simps [simp del]

definition str_fields :: "string \<Rightarrow> string list" where
  "str_fields s = fields_scan [] s"

definition poc_extensions :: "string list" where
  "poc_extensions = [''.js'', ''.py'', ''.wasm'', ''.sh'', ''.c'']"

definition has_poc_ext :: "string \<Rightarrow> bool" where
  "has_poc_ext p \<longleftrightarrow> to_lower (path_ext p) \<in> set poc_extensions"

definition pocPathFromArgs :: "string \<Rightarrow> string" where
  "pocPathFromArgs blob =
     (case find has_poc_ext (fields_func (\<lambda>c. c \<in> {CHR 0x00, CHR '' '', CHR ''='', CHR 0x22, CHR 0x27, CHR '':''}) blob) of
        None \<Rightarrow> [] | Some tok \<Rightarrow> tok)"

definition isCommandBoundary :: "char \<Rightarrow> bool" where
  "isCommandBoundary c \<longleftrightarrow>
     c \<in> {CHR '' '', CHR 0x09, CHR 0x0A, CHR '';'', CHR ''&'', CHR ''|'', CHR ''('', CHR '')'', CHR ''{'', CHR ''}'',
          CHR ''$'', CHR 0x60, CHR ''<'', CHR ''>'', CHR ''='', CHR 0x27, CHR 0x22}"

definition shellTokens :: "string \<Rightarrow> string list" where
  "shellTokens s = fields_func isCommandBoundary s"

definition isCommandBearingKey :: "string \<Rightarrow> bool" where
  "isCommandBearingKey k \<longleftrightarrow>
     k \<in> {''command'', ''cmd'', ''args'', ''arguments'', ''executable'', ''shell_command''}"

definition commandBearingArgs :: "(string \<times> string) list \<Rightarrow> string list" where
  "commandBearingArgs m = map (\<lambda>k. the (map_of m k)) (filter isCommandBearingKey (sortedKeys m))"

definition canonicalCommandToken :: "string \<Rightarrow> string" where
  "canonicalCommandToken tok =
     (if tok = [] \<or> starts_with ''http://'' tok \<or> starts_with ''https://'' tok then tok
      else let n = map (\<lambda>c. if c = CHR 0x5C then sep else c) tok;
               n' = (if sep \<in> set n \<and> path_base n \<noteq> ''.'' \<and> path_base n \<noteq> [sep] then path_base n else n)
           in trim_suffix ''.exe'' n')"

definition isCanonicalShellName :: "string \<Rightarrow> bool" where
  "isCanonicalShellName tok \<longleftrightarrow>
     canonicalCommandToken tok \<in> {''host_exec'', ''bash'', ''sh'', ''shell'', ''shell_exec''}"

definition isHostExecToolName :: "string \<Rightarrow> bool" where
  "isHostExecToolName t = isCanonicalShellName t"

definition argsContainShellToken :: "(string \<times> string) list \<Rightarrow> bool" where
  "argsContainShellToken m \<longleftrightarrow>
     list_ex (\<lambda>v. list_ex isCanonicalShellName (shellTokens (to_lower v))) (commandBearingArgs m)"

definition hostExecFromArgs :: "cap_step \<Rightarrow> bool" where
  "hostExecFromArgs step \<longleftrightarrow>
     isHostExecToolName (to_lower (cs_tool step)) \<or> argsContainShellToken (cs_args step)"

definition compilerTokenBase :: "string \<Rightarrow> string" where
  "compilerTokenBase tok =
     (case canonicalCommandToken tok of [] \<Rightarrow> [] | c # r \<Rightarrow> c # takeWhile (\<lambda>d. d \<noteq> CHR ''-'') r)"

definition compilers :: "string list" where
  "compilers = [''gcc'', ''clang'', ''cc'']"

definition isBuildTool :: "string \<Rightarrow> bool" where
  "isBuildTool tool \<longleftrightarrow>
     (let t = to_lower tool in t = ''go build'' \<or> compilerTokenBase t \<in> set compilers)"

fun build_tokens :: "string list \<Rightarrow> bool" where
  "build_tokens [] = False"
| "build_tokens (t # ts) =
     (compilerTokenBase t \<in> set compilers
      \<or> compilerTokenBase t = ''go'' \<and> ts \<noteq> [] \<and> hd ts = ''build''
      \<or> build_tokens ts)"

definition isBuildToolArgs :: "cap_step \<Rightarrow> bool" where
  "isBuildToolArgs step \<longleftrightarrow>
     list_ex (\<lambda>v. build_tokens (shellTokens (to_lower v))) (commandBearingArgs (cs_args step))"

definition isNetToolName :: "string \<Rightarrow> bool" where
  "isNetToolName t \<longleftrightarrow>
     (let n = canonicalCommandToken t in
      n \<in> {''curl'', ''wget'', ''http_get'', ''http'', ''fetch'', ''request'', ''net'', ''web_fetch'', ''browse'', ''fetch_url''}
      \<or> starts_with ''http'' n)"

definition IsNetworkToolName :: "string \<Rightarrow> bool" where
  "IsNetworkToolName tool = isNetToolName (to_lower (trim_space tool))"

definition IsFileToolName :: "string \<Rightarrow> bool" where
  "IsFileToolName tool \<longleftrightarrow>
     canonicalCommandToken (to_lower (trim_space tool)) \<in> {''file_write'', ''write_file'', ''read_file'', ''file_read''}"

definition url_or_net_token :: "string \<Rightarrow> bool" where
  "url_or_net_token tok \<longleftrightarrow>
     starts_with ''http://'' tok \<or> starts_with ''https://'' tok
     \<or> canonicalCommandToken tok \<in> {''curl'', ''wget''}"

definition argsContainURLOrNetTool :: "(string \<times> string) list \<Rightarrow> bool" where
  "argsContainURLOrNetTool m \<longleftrightarrow>
     list_ex (\<lambda>v. list_ex url_or_net_token (shellTokens (to_lower v))) (commandBearingArgs m)"

section \<open>Destinations\<close>

definition trim_chars :: "string \<Rightarrow> string \<Rightarrow> string" where
  "trim_chars cs s = rev (dropWhile (\<lambda>c. c \<in> set cs) (rev (dropWhile (\<lambda>c. c \<in> set cs) s)))"

definition structuredDestination :: "cap_step \<Rightarrow> cap_error + bool" where
  "structuredDestination step =
     (if cs_dest_host step \<noteq> [] then
        (if CanonicalHostIsValid (cs_dest_host step) = None
            \<and> parse_addr (trim_chars ''[]'' (cs_dest_host step)) = None
         then Inl (InvalidStep ''malformed structured DestHost'') else Inr True)
      else Inr (cs_dest_ip step \<noteq> None))"

definition egressFromArgs :: "cap_step \<Rightarrow> bool" where
  "egressFromArgs step \<longleftrightarrow>
     structuredDestination step \<noteq> Inr False
     \<or> isNetToolName (to_lower (cs_tool step))
     \<or> argsContainURLOrNetTool (cs_args step)"

text \<open>The authority part of a URL: what follows the scheme, up to the path, without a port.\<close>

definition after_scheme :: "string \<Rightarrow> string" where
  "after_scheme s = (case str_index s ''://'' of None \<Rightarrow> s | Some i \<Rightarrow> drop (i + 3) s)"

definition drop_port :: "string \<Rightarrow> string" where
  "drop_port s = (if length (filter (\<lambda>c. c = CHR '':'') s) = 1 then takeWhile (\<lambda>c. c \<noteq> CHR '':'') s else s)"

definition url_authority :: "string \<Rightarrow> string" where
  "url_authority s = drop_port (takeWhile (\<lambda>c. c \<notin> {sep, CHR ''?'', CHR ''#''}) (after_scheme s))"

definition url_token_host :: "string \<Rightarrow> string" where
  "url_token_host tok =
     (if starts_with ''http://'' (to_lower tok) \<or> starts_with ''https://'' (to_lower tok) then
        (let rest = url_authority tok;
             rest = (if starts_with ''['' rest then drop 1 rest else rest)
         in trim_suffix '']'' rest)
      else [])"

definition egressURLFromArgs :: "cap_step \<Rightarrow> string" where
  "egressURLFromArgs step =
     (case find (\<lambda>h. h \<noteq> [])
        (concat (map (\<lambda>k. map url_token_host (str_fields (the (map_of (cs_args step) k)))) (sortedKeys (cs_args step)))) of
        None \<Rightarrow> [] | Some h \<Rightarrow> h)"

definition egressObservationTarget :: "cap_step \<Rightarrow> string" where
  "egressObservationTarget step =
     (if cs_effect_target step \<noteq> [] then cs_effect_target step
      else case cs_dest_ip step of Some a \<Rightarrow> addr_string a
      | None \<Rightarrow> if cs_dest_host step \<noteq> [] then cs_dest_host step else egressURLFromArgs step)"

section \<open>Extraction\<close>

definition memoryCorruptionMarkers :: "string list" where
  "memoryCorruptionMarkers =
     [''SIGSEGV'', ''SIGABRT'', ''AddressSanitizer'', ''heap-buffer-overflow'', ''SEGV_MAPERR'', ''stack-buffer-overflow'']"

definition sandboxEscapeMarkers :: "string list" where
  "sandboxEscapeMarkers = [''sandbox escape'', ''container escape'', ''namespace'', ''landlock'', ''seccomp'']"

definition matchMarkers :: "string \<Rightarrow> string list \<Rightarrow> string list" where
  "matchMarkers haystack markers = filter (str_contains haystack) markers"

definition intent_signals :: "(string \<Rightarrow> string) \<Rightarrow> cap_step \<Rightarrow> signal list" where
  "intent_signals sha step =
     (let i = da_intent (cs_declared step) in
      if i \<noteq> [] then [mk_signal sha SignalDeclaredIntent (''intent: '' @ i) EvidenceDeclaredOnly i] else [])"

definition poc_signal :: "(string \<Rightarrow> string) \<Rightarrow> string \<Rightarrow> signal" where
  "poc_signal sha p = mk_signal sha SignalArtifactPocCreated (''wrote '' @ path_base p) EvidenceArtifact p"

definition poc_signals :: "(string \<Rightarrow> string) \<Rightarrow> cap_step \<Rightarrow> signal list" where
  "poc_signals sha step =
     (if cs_path step \<noteq> [] \<and> has_poc_ext (cs_path step) then [poc_signal sha (cs_path step)]
      else let p = pocPathFromArgs (argsBlob step) in if p \<noteq> [] then [poc_signal sha p] else [])"

definition build_signals :: "(string \<Rightarrow> string) \<Rightarrow> cap_step \<Rightarrow> signal list" where
  "build_signals sha step =
     (if isBuildTool (cs_tool step) \<or> isBuildToolArgs step
      then [mk_signal sha SignalArtifactBuildArtifact
              (if isBuildTool (cs_tool step) then ''build tool '' @ cs_tool step else ''build tool in args'')
              EvidenceArtifact (cs_tool step)]
      else [])
     @ (if cs_artifact_magic step \<in> {''ELF'', ''PE''}
        then [mk_signal sha SignalArtifactBuildArtifact (''artifact magic '' @ cs_artifact_magic step)
                EvidenceArtifact (cs_artifact_magic step)]
        else [])"

definition marker_signals :: "(string \<Rightarrow> string) \<Rightarrow> cap_step \<Rightarrow> signal list" where
  "marker_signals sha step =
     (let blob = argsBlob step;
          scan = cs_result step @ (if blob \<noteq> [] then [CHR 0x0A] @ blob else [])
      in map (\<lambda>m. mk_signal sha SignalRuntimeMemoryCorruption m EvidenceRuntimeMarker m)
           (matchMarkers scan memoryCorruptionMarkers)
         @ map (\<lambda>m. mk_signal sha SignalRuntimeSandboxEscape m EvidenceRuntimeMarker m)
             (matchMarkers scan sandboxEscapeMarkers))"

definition exec_signal :: "(string \<Rightarrow> string) \<Rightarrow> cap_step \<Rightarrow> signal" where
  "exec_signal sha step =
     mk_signal sha SignalBoundaryHostExec (''host exec '' @ cs_executable step) EvidenceBoundaryRequest (cs_executable step)"

definition egress_signal :: "(string \<Rightarrow> string) \<Rightarrow> cap_step \<Rightarrow> signal" where
  "egress_signal sha step =
     (let target = egressObservationTarget step
      in mk_signal sha SignalBoundaryEgress (''egress to '' @ target) EvidenceBoundaryRequest target)"

definition effect_signals :: "(string \<Rightarrow> string) \<Rightarrow> fs_env \<Rightarrow> cap_step \<Rightarrow> signal list" where
  "effect_signals sha fs step =
     (if cs_effect step = EffectHostExec then [exec_signal sha step]
      else if cs_effect step = EffectNetEgress then [egress_signal sha step]
      else if cs_effect step = EffectFileAccess then
        (let filePath = fileSurfacePath step in
         if PathOutsideWorkspace fs filePath (da_workspace_root (cs_declared step)) = Inr True
         then [mk_signal sha SignalBoundaryFileOutside (''file '' @ filePath) EvidenceBoundaryRequest filePath]
         else [])
      else [])"

definition structured_signals :: "(string \<Rightarrow> string) \<Rightarrow> fs_env \<Rightarrow> cap_step \<Rightarrow> signal list" where
  "structured_signals sha fs step =
     intent_signals sha step @ poc_signals sha step @ build_signals sha step
       @ marker_signals sha step @ effect_signals sha fs step"

definition ExtractSignals :: "(string \<Rightarrow> string) \<Rightarrow> fs_env \<Rightarrow> cap_step \<Rightarrow> signal list" where
  "ExtractSignals sha fs step =
     (if cs_signals step \<noteq> [] then cs_signals step
      else
        let out = structured_signals sha fs step;
            out = (if \<not> hasSignal out SignalBoundaryHostExec \<and> hostExecFromArgs step
                   then out @ [exec_signal sha step] else out);
            out = (if \<not> hasSignal out SignalBoundaryEgress \<and> egressFromArgs step
                   then out @ [egress_signal sha step] else out)
        in dedupByKind out)"

section \<open>Deriving the effect\<close>

definition deriveEffectKind :: "signal list \<Rightarrow> string" where
  "deriveEffectKind ss =
     (if hasSignalLevel ss SignalBoundaryHostExec EvidenceBoundaryRequest then EffectHostExec
      else if hasSignalLevel ss SignalBoundaryEgress EvidenceBoundaryRequest then EffectNetEgress
      else [])"

definition bindDerivedTarget :: "cap_step \<Rightarrow> string \<Rightarrow> cap_step" where
  "bindDerivedTarget step kind =
     (if kind = EffectHostExec then
        (let exe = (if isHostExecToolName (to_lower (cs_tool step))
                    then canonicalCommandToken (to_lower (cs_tool step)) else [])
         in step\<lparr>cs_effect := EffectHostExec, cs_executable := exe, cs_effect_target := exe\<rparr>)
      else if kind = EffectNetEgress then
        (let target = (if cs_effect_target step \<noteq> [] then cs_effect_target step
                       else case cs_dest_ip step of Some a \<Rightarrow> addr_string a
                       | None \<Rightarrow> if cs_dest_host step \<noteq> [] then cs_dest_host step
                                 else egressURLFromArgs step)
         in step\<lparr>cs_effect := EffectNetEgress, cs_effect_target := target\<rparr>)
      else step)"

definition requestedEffectCapability :: "cap_step \<Rightarrow> string" where
  "requestedEffectCapability step =
     (if cs_effect step = EffectHostExec then CapHostExec
      else if cs_effect step = EffectNetEgress then CapNetEgress
      else if cs_effect step = EffectCanaryAccess then EffectCanaryAccess
      else cs_effect step)"

section \<open>Attribution to the declared envelope\<close>

definition attrib_host_exec :: "cap_step \<Rightarrow> cap_error + bool" where
  "attrib_host_exec step =
     (let da = cs_declared step; exe = CanonicalExecutable (cs_executable step) in
      if cs_effect_target step = [] then Inl (InvalidStep ''host_exec missing target'')
      else if cs_executable step = [] then Inl (InvalidStep ''host_exec missing structured executable observation'')
      else if CanonicalExecutable (cs_effect_target step) \<noteq> exe
      then Inl (InvalidStep ''host_exec target and structured executable disagree'')
      else if cs_dest_host step \<noteq> [] \<and> CanonicalHostIsValid (cs_dest_host step) = None
      then Inl (InvalidStep ''host_exec malformed host observation'')
      else if da_executables da = [] then Inr False
      else if da_host da = [] then Inr False
      else if cs_dest_host step = [] then Inl (InvalidStep ''host_exec missing host observation'')
      else if CanonicalHost (cs_dest_host step) \<noteq> CanonicalHost (da_host da) then Inr False
      else Inr (list_ex (\<lambda>d. CanonicalExecutable d = exe) (da_executables da)))"

definition egress_agreement :: "cap_step \<Rightarrow> cap_error option" where
  "egress_agreement step =
     (case parse_addr (cs_effect_target step) of
        Some ip \<Rightarrow>
          if cs_dest_ip step \<noteq> None \<and> cs_dest_ip step \<noteq> Some ip
          then Some (InvalidStep ''net_egress target does not match DestIP'')
          else if cs_dest_host step \<noteq> [] \<and> parse_addr (cs_dest_host step) \<noteq> Some ip
          then Some (InvalidStep ''net_egress DestIP and DestHost disagree'')
          else None
      | None \<Rightarrow>
          if cs_dest_ip step \<noteq> None then Some (InvalidStep ''net_egress hostname target conflicts with DestIP'')
          else (case CanonicalHostIsValid (cs_effect_target step) of
             None \<Rightarrow> Some (InvalidStep ''net_egress malformed target'')
           | Some h \<Rightarrow> if cs_dest_host step \<noteq> [] \<and> h \<noteq> CanonicalHost (cs_dest_host step)
                       then Some (InvalidStep ''net_egress target does not match DestHost'') else None))"

definition in_network :: "net_prefix list \<Rightarrow> addr \<Rightarrow> bool" where
  "in_network ps a \<longleftrightarrow> list_ex (\<lambda>p. prefix_contains p a) ps"

definition attrib_net_egress :: "cap_step \<Rightarrow> cap_error + bool" where
  "attrib_net_egress step =
     (let da = cs_declared step in
      if cs_effect_target step = [] then Inl (InvalidStep ''net_egress missing raw target'')
      else case egress_agreement step of Some e \<Rightarrow> Inl e | None \<Rightarrow>
      if da_network da = [] then Inr False
      else case cs_dest_ip step of Some ip \<Rightarrow> Inr (in_network (da_network da) ip) | None \<Rightarrow>
      if cs_dest_host step \<noteq> [] then Inr False
      else case parse_addr (cs_effect_target step) of
             Some ip \<Rightarrow> Inr (in_network (da_network da) ip) | None \<Rightarrow> Inr False)"

definition attrib_file_access :: "fs_env \<Rightarrow> cap_step \<Rightarrow> cap_error + bool" where
  "attrib_file_access fs step =
     (let ws = da_workspace_root (cs_declared step); target = cs_effect_target step; p = cs_path step in
      if target = [] then Inl (InvalidStep ''file_access missing target'')
      else if ws = [] then Inl (InvalidStep ''missing workspace root'')
      else if p \<noteq> [] then
        (case PathOutsideWorkspace fs target ws of Inl e \<Rightarrow> Inl e | Inr rawOutside \<Rightarrow>
         case PathOutsideWorkspace fs p ws of Inl e \<Rightarrow> Inl e | Inr pathOutside \<Rightarrow>
         if rawOutside \<noteq> pathOutside
         then Inl (InvalidStep ''file_access raw target and structured path disagree on containment'')
         else if pathOutside then Inr False
         else case CanonicalPath fs target ws False of Inl e \<Rightarrow> Inl e | Inr rawCanon \<Rightarrow>
           case CanonicalPath fs p ws False of Inl e \<Rightarrow> Inl e | Inr pathCanon \<Rightarrow>
           if rawCanon \<noteq> pathCanon then Inl (InvalidStep ''file_access raw target and structured path differ'')
           else Inr True)
      else (case PathOutsideWorkspace fs target ws of Inl e \<Rightarrow> Inl e | Inr outside \<Rightarrow> Inr (\<not> outside)))"

definition EffectAttributable :: "fs_env \<Rightarrow> cap_step \<Rightarrow> cap_error + bool" where
  "EffectAttributable fs step =
     (case structuredDestination step of Inl e \<Rightarrow> Inl e | Inr _ \<Rightarrow>
      if cs_effect step = EffectHostExec then attrib_host_exec step
      else if cs_effect step = EffectNetEgress then attrib_net_egress step
      else if cs_effect step = EffectFileAccess then attrib_file_access fs step
      else if cs_effect step = EffectCanaryAccess then Inr False
      else if cs_effect step = [] then Inr True
      else Inl (InvalidStep ''unknown effect''))"

end
