(* ===== verification/Capability_Evaluator.thy ===== *)
theory Capability_Evaluator
  imports Capability_Signals
begin

text \<open>
  The stateful capability evaluator (\<^verbatim>\<open>src/internal/capability/evaluator.go\<close>), the lattice helpers
  of \<^verbatim>\<open>capability.go\<close> and the receipts of \<^verbatim>\<open>receipt.go\<close>: one step of a session is validated,
  reduced to signals, attributed to the declared envelope and sealed into a hash-linked receipt.

  cap_codec holds what \<^verbatim>\<open>encoding/json\<close> and \<^verbatim>\<open>crypto/sha256\<close> do on these types: the canonical JSON
  of a receipt (None when marshalling fails), its decoder (unknown fields and trailing data
  refused), and the hexadecimal digest.
\<close>

section \<open>Receipts\<close>

record provisional_capability =
  pc_capability :: string
  pc_confirmation :: string
  pc_level :: string

record required_proof =
  rp_type :: string
  rp_description :: string

record receipt =
  rc_version :: int
  rc_session_id :: string
  rc_step_id :: int
  rc_declared :: declared_authority
  rc_signals :: "signal list"
  rc_before :: "string list"
  rc_delta :: "string list"
  rc_after :: "string list"
  rc_observed :: string
  rc_nominal_changed :: bool
  rc_effective_changed :: bool
  rc_envelope_before :: string
  rc_envelope_after :: string
  rc_transition :: string
  rc_decision :: string
  rc_reason :: string
  rc_required_proof :: "required_proof option"
  rc_prev_hash :: string
  rc_hash :: string
  rc_provisional :: "provisional_capability option"
  rc_confirmation :: string

record pause_receipt =
  pr_version :: int
  pr_session_id :: string
  pr_step_id :: int
  pr_decision :: string
  pr_reason :: string
  pr_error_code :: string
  pr_detail :: string
  pr_prev_hash :: string
  pr_hash :: string

record cap_codec =
  ck_sha :: "string \<Rightarrow> string"
  ck_marshal :: "receipt \<Rightarrow> string option"
  ck_marshal_pause :: "pause_receipt \<Rightarrow> string option"
  ck_unmarshal :: "string \<Rightarrow> receipt option"

definition DecisionAllow :: string where "DecisionAllow = ''ALLOW''"
definition DecisionPauseRequireProof :: string where "DecisionPauseRequireProof = ''PAUSE_REQUIRE_NEW_PROOF''"
definition ReasonEffectOutsideEnvelope :: string where "ReasonEffectOutsideEnvelope = ''effect_outside_declared_envelope''"
definition ReasonEvaluatorError :: string where "ReasonEvaluatorError = ''evaluator_error''"
definition ReceiptVersion :: int where "ReceiptVersion = 1"
definition GenesisPrevHash :: string where
  "GenesisPrevHash = ''sha256:e3b0c44298fc1c149afbf4c8996fb92427ae41e490166ae4ba7b5b37bcd8deac''"
definition ErrorCodeInvalidStep :: string where "ErrorCodeInvalidStep = ''evaluator_invalid_step''"
definition ErrorCodeInternal :: string where "ErrorCodeInternal = ''evaluator_internal''"
definition ConfirmationProvisional :: string where "ConfirmationProvisional = ''provisional''"
definition ConfirmationConfirmed :: string where "ConfirmationConfirmed = ''confirmed''"
definition EnvelopeStateHigh :: string where "EnvelopeStateHigh = ''HIGH''"
definition EnvelopeStateBoundaryCrossing :: string where "EnvelopeStateBoundaryCrossing = ''BOUNDARY_CROSSING''"

lemma genesis_nonempty [simp]: "GenesisPrevHash \<noteq> []"
  by (simp add: GenesisPrevHash_def)

lemma decisions_differ [simp]: "DecisionPauseRequireProof \<noteq> DecisionAllow" "DecisionAllow \<noteq> DecisionPauseRequireProof"
  by (simp_all add: DecisionPauseRequireProof_def DecisionAllow_def)

lemma envelopes_differ [simp]: "EnvelopeStateHigh \<noteq> EnvelopeStateBoundaryCrossing"
  by (simp add: EnvelopeStateHigh_def EnvelopeStateBoundaryCrossing_def)

definition HashReceipt :: "cap_codec \<Rightarrow> receipt \<Rightarrow> cap_error + string" where
  "HashReceipt K r =
     (case ck_marshal K (r\<lparr>rc_hash := []\<rparr>) of
        None \<Rightarrow> Inl (InternalError ''capability hash marshal'')
      | Some data \<Rightarrow> Inr (''sha256:'' @ ck_sha K data))"

definition HashPauseReceipt :: "cap_codec \<Rightarrow> pause_receipt \<Rightarrow> cap_error + string" where
  "HashPauseReceipt K r =
     (case ck_marshal_pause K (r\<lparr>pr_hash := []\<rparr>) of
        None \<Rightarrow> Inl (InternalError ''capability pause hash marshal'')
      | Some data \<Rightarrow> Inr (''sha256:'' @ ck_sha K data))"

definition Seal_receipt :: "cap_codec \<Rightarrow> string \<Rightarrow> receipt \<Rightarrow> cap_error + receipt" where
  "Seal_receipt K prev r =
     (if prev = [] then Inl (InvalidStep ''empty prev_hash'')
      else let r1 = r\<lparr>rc_prev_hash := prev\<rparr> in
           case HashReceipt K r1 of Inl e \<Rightarrow> Inl e | Inr h \<Rightarrow> Inr (r1\<lparr>rc_hash := h\<rparr>))"

definition Seal_pause :: "cap_codec \<Rightarrow> string \<Rightarrow> pause_receipt \<Rightarrow> cap_error + pause_receipt" where
  "Seal_pause K prev r =
     (if prev = [] then Inl (InvalidStep ''empty prev_hash'')
      else let r1 = r\<lparr>pr_prev_hash := prev\<rparr> in
           case HashPauseReceipt K r1 of Inl e \<Rightarrow> Inl e | Inr h \<Rightarrow> Inr (r1\<lparr>pr_hash := h\<rparr>))"

definition ClassifyError :: "cap_error \<Rightarrow> string" where
  "ClassifyError e = (case e of InvalidStep _ \<Rightarrow> ErrorCodeInvalidStep | InternalError _ \<Rightarrow> ErrorCodeInternal)"

definition NewPauseReceipt :: "cap_codec \<Rightarrow> string \<Rightarrow> int \<Rightarrow> string \<Rightarrow> cap_error \<Rightarrow> cap_error + pause_receipt" where
  "NewPauseReceipt K sid stepID prevHash e =
     (if prevHash = [] then Inl (InvalidStep ''no prev hash for pause receipt'')
      else Seal_pause K prevHash
        \<lparr>pr_version = ReceiptVersion, pr_session_id = sid, pr_step_id = stepID,
         pr_decision = DecisionPauseRequireProof, pr_reason = ReasonEvaluatorError,
         pr_error_code = ClassifyError e, pr_detail = [], pr_prev_hash = prevHash, pr_hash = []\<rparr>)"

section \<open>The lattice of held capabilities\<close>

definition newlyHeld :: "string list \<Rightarrow> string list \<Rightarrow> string list" where
  "newlyHeld add held = filter (\<lambda>c. c \<notin> set held) add"

definition unionLattice :: "string list \<Rightarrow> string list \<Rightarrow> string list" where
  "unionLattice before delta = filter (\<lambda>c. c \<in> set before \<or> c \<in> set delta) lattice"

definition cap_rank :: "string \<Rightarrow> nat option" where
  "cap_rank c = (if c \<in> set lattice then Some (length (takeWhile (\<lambda>d. d \<noteq> c) lattice)) else None)"

definition highestCapability :: "string list \<Rightarrow> string" where
  "highestCapability caps =
     fst (foldl (\<lambda>(best, bestRank) c.
       case cap_rank c of
         Some r \<Rightarrow> if bestRank < int r then (c, int r) else (best, bestRank)
       | None \<Rightarrow> (best, bestRank)) ([], -1) caps)"

definition confirmedDelta :: "signal list \<Rightarrow> bool \<Rightarrow> string list \<Rightarrow> string list" where
  "confirmedDelta ss attrib held =
     newlyHeld
       ((if hasSignalLevel ss SignalBoundaryHostExec EvidenceBoundaryRequest then [CapHostExec] else [])
        @ (if hasSignalLevel ss SignalBoundaryEgress EvidenceBoundaryRequest then [CapNetEgress] else [])
        @ (if attrib \<and> \<not> hasBoundarySignal ss then
             (if hasSignalLevel ss SignalRuntimeMemoryCorruption EvidenceRuntimeMarker
              then [CapOOBRead, CapOOBWrite] else [])
             @ (if hasSignalLevel ss SignalRuntimeSandboxEscape EvidenceRuntimeMarker
                then [CapHeapEscape, CapNativeExec] else [])
           else []))
       held"

section \<open>The evaluator\<close>

record chain_evaluator =
  ev_session_id :: string
  ev_last_step :: int
  ev_last_hash :: string
  ev_held :: "string list"
  ev_envelope :: string

definition NewChainEvaluator :: "string \<Rightarrow> cap_error + chain_evaluator" where
  "NewChainEvaluator sid =
     (if sid = [] then Inl (InvalidStep ''missing session'')
      else Inr \<lparr>ev_session_id = sid, ev_last_step = 0, ev_last_hash = [],
                ev_held = [CapReadSandboxMem], ev_envelope = EnvelopeStateHigh\<rparr>)"

definition expected_prior :: "chain_evaluator \<Rightarrow> string" where
  "expected_prior c = (if ev_last_step c \<noteq> 0 then ev_last_hash c else GenesisPrevHash)"

text \<open>Session, step number and predecessor of a step.\<close>

definition chain_check :: "chain_evaluator \<Rightarrow> cap_step \<Rightarrow> string \<Rightarrow> cap_error option" where
  "chain_check c step prior =
     (if cs_session_id step \<noteq> ev_session_id c then Some (InvalidStep ''session mismatch'')
      else if cs_step_id step \<le> 0 then Some (InvalidStep ''non-positive step id'')
      else if ev_last_step c \<noteq> 0 \<and> cs_step_id step \<le> ev_last_step c
      then Some (InvalidStep ''step id not strictly increasing'')
      else if prior = [] then Some (InvalidStep ''missing prior hash'')
      else if prior \<noteq> expected_prior c then Some (InvalidStep ''prior hash mismatch'')
      else None)"

text \<open>The step that attribution sees: the structured effect, or the one derived from the signals;
  an untyped boundary observation is an error.\<close>

definition attributed_step :: "fs_env \<Rightarrow> cap_step \<Rightarrow> signal list \<Rightarrow> cap_error + cap_step" where
  "attributed_step fs step ss =
     (if cs_effect step \<noteq> [] then Inr step
      else let kind = deriveEffectKind ss in
        if kind \<noteq> [] then Inr (bindDerivedTarget step kind)
        else if hasBoundarySignal ss then Inl (InvalidStep ''untyped boundary request'')
        else let fp = fileSurfacePath step in
          if fp = [] then Inr step
          else case PathOutsideWorkspace fs fp (da_workspace_root (cs_declared step)) of
            Inl e \<Rightarrow> Inl e
          | Inr outside \<Rightarrow> if outside then Inl (InvalidStep ''untyped file-boundary observation'') else Inr step)"

definition eval_receipt :: "chain_evaluator \<Rightarrow> cap_step \<Rightarrow> signal list \<Rightarrow> bool \<Rightarrow> receipt" where
  "eval_receipt c step ss attrib =
     (let delta = confirmedDelta ss attrib (ev_held c);
          observed0 = highestCapability delta;
          envAfter = (if attrib then ev_envelope c else EnvelopeStateBoundaryCrossing)
      in \<lparr>rc_version = ReceiptVersion, rc_session_id = cs_session_id step, rc_step_id = cs_step_id step,
          rc_declared = cs_declared step, rc_signals = ss,
          rc_before = ev_held c, rc_delta = delta, rc_after = unionLattice (ev_held c) delta,
          rc_observed = (if \<not> attrib \<and> observed0 = [] then requestedEffectCapability step else observed0),
          rc_nominal_changed = False,
          rc_effective_changed = (delta \<noteq> [] \<or> envAfter = EnvelopeStateBoundaryCrossing),
          rc_envelope_before = ev_envelope c, rc_envelope_after = envAfter,
          rc_transition = ev_envelope c @ '' -> '' @ envAfter,
          rc_decision = (if attrib then DecisionAllow else DecisionPauseRequireProof),
          rc_reason = (if attrib then [] else ReasonEffectOutsideEnvelope),
          rc_required_proof =
            (if attrib then None
             else Some \<lparr>rp_type = ''fresh_authorization'',
                        rp_description = ''human approval for effect outside declared envelope''\<rparr>),
          rc_prev_hash = [], rc_hash = [],
          rc_provisional =
            (if cs_primitive step \<noteq> [] \<and> delta = []
             then Some \<lparr>pc_capability = cs_primitive step, pc_confirmation = ConfirmationProvisional,
                        pc_level = EvidenceDeclaredOnly\<rparr> else None),
          rc_confirmation = (if delta \<noteq> [] then ConfirmationConfirmed else ConfirmationProvisional)\<rparr>)"

definition Eval :: "cap_codec \<Rightarrow> fs_env \<Rightarrow> chain_evaluator \<Rightarrow> cap_step \<Rightarrow> string \<Rightarrow> (cap_error + receipt) \<times> chain_evaluator" where
  "Eval K fs c step0 prior =
     (case chain_check c step0 prior of Some e \<Rightarrow> (Inl e, c) | None \<Rightarrow>
      case ValidateAuthority (cs_declared step0) of Some e \<Rightarrow> (Inl e, c) | None \<Rightarrow>
      let step = step0\<lparr>cs_declared := normalizeDeclaredAuthority (cs_declared step0)\<rparr>;
          ss = ExtractSignals (ck_sha K) fs step in
      case attributed_step fs step ss of Inl e \<Rightarrow> (Inl e, c) | Inr attribStep \<Rightarrow>
      case EffectAttributable fs attribStep of Inl e \<Rightarrow> (Inl e, c) | Inr attrib \<Rightarrow>
      case Seal_receipt K prior (eval_receipt c step ss attrib) of Inl e \<Rightarrow> (Inl e, c) | Inr r \<Rightarrow>
        (Inr r, c\<lparr>ev_last_step := cs_step_id step, ev_last_hash := rc_hash r,
                  ev_held := rc_after r, ev_envelope := rc_envelope_after r\<rparr>))"

definition AdvanceAfterError :: "int \<Rightarrow> string \<Rightarrow> chain_evaluator \<Rightarrow> chain_evaluator" where
  "AdvanceAfterError stepID pauseHash c =
     (if stepID \<le> 0 \<or> pauseHash = [] \<or> ev_last_step c \<noteq> 0 \<and> stepID \<le> ev_last_step c then c
      else c\<lparr>ev_last_step := stepID, ev_last_hash := pauseHash\<rparr>)"

end
