(* ===== verification/Capability_Properties.thy ===== *)
theory Capability_Properties
  imports Capability_Evaluator
begin

text \<open>
  Correctness of the capability evaluator: an ALLOW receipt means that the effect lies in the
  declared envelope, a boundary observation is never allowed untyped, held capabilities only grow,
  and the receipts of a session form one hash chain.
\<close>

section \<open>The envelope, declaratively\<close>

definition exec_permitted :: "cap_step \<Rightarrow> bool" where
  "exec_permitted s \<longleftrightarrow>
     cs_effect_target s \<noteq> [] \<and> cs_executable s \<noteq> []
     \<and> CanonicalExecutable (cs_effect_target s) = CanonicalExecutable (cs_executable s)
     \<and> da_host (cs_declared s) \<noteq> [] \<and> CanonicalHostIsValid (cs_dest_host s) \<noteq> None
     \<and> CanonicalHost (cs_dest_host s) = CanonicalHost (da_host (cs_declared s))
     \<and> CanonicalExecutable (cs_executable s) \<in> CanonicalExecutable ` set (da_executables (cs_declared s))"

definition egress_permitted :: "cap_step \<Rightarrow> bool" where
  "egress_permitted s \<longleftrightarrow>
     (\<exists>ip p. parse_addr (cs_effect_target s) = Some ip \<and> p \<in> set (da_network (cs_declared s)) \<and> prefix_contains p ip
        \<and> (cs_dest_ip s = Some ip \<and> (cs_dest_host s \<noteq> [] \<longrightarrow> parse_addr (cs_dest_host s) = Some ip)
           \<or> cs_dest_ip s = None \<and> cs_dest_host s = []))"

definition file_permitted :: "fs_env \<Rightarrow> cap_step \<Rightarrow> bool" where
  "file_permitted fs s \<longleftrightarrow>
     (let ws = da_workspace_root (cs_declared s) in
      PathOutsideWorkspace fs (cs_effect_target s) ws = Inr False
      \<and> (cs_path s \<noteq> [] \<longrightarrow>
           PathOutsideWorkspace fs (cs_path s) ws = Inr False
           \<and> CanonicalPath fs (cs_effect_target s) ws False = CanonicalPath fs (cs_path s) ws False))"

definition effect_permitted :: "fs_env \<Rightarrow> cap_step \<Rightarrow> bool" where
  "effect_permitted fs s \<longleftrightarrow>
     cs_effect s = EffectHostExec \<and> exec_permitted s
     \<or> cs_effect s = EffectNetEgress \<and> egress_permitted s
     \<or> cs_effect s = EffectFileAccess \<and> file_permitted fs s
     \<or> cs_effect s = []"

lemma effect_ne:
  "EffectHostExec \<noteq> EffectNetEgress" "EffectHostExec \<noteq> EffectFileAccess" "EffectHostExec \<noteq> EffectCanaryAccess"
  "EffectNetEgress \<noteq> EffectHostExec" "EffectNetEgress \<noteq> EffectFileAccess" "EffectNetEgress \<noteq> EffectCanaryAccess"
  "EffectFileAccess \<noteq> EffectHostExec" "EffectFileAccess \<noteq> EffectNetEgress" "EffectFileAccess \<noteq> EffectCanaryAccess"
  "EffectCanaryAccess \<noteq> EffectHostExec" "EffectCanaryAccess \<noteq> EffectNetEgress" "EffectCanaryAccess \<noteq> EffectFileAccess"
  "EffectHostExec \<noteq> []" "EffectNetEgress \<noteq> []" "EffectFileAccess \<noteq> []" "EffectCanaryAccess \<noteq> []"
  by (simp_all add: effect_defs)

lemma attrib_host_exec_iff: "attrib_host_exec s = Inr True \<longleftrightarrow> exec_permitted s"
proof -
  have "\<not> exec_permitted s" if "cs_dest_host s = []"
  proof -
    have "CanonicalHost [] = []" by (simp add: CanonicalHost_def trim_suffix_def)
    then show ?thesis using that by (auto simp: exec_permitted_def CanonicalHostIsValid_def)
  qed
  then show ?thesis
    by (auto simp: attrib_host_exec_def exec_permitted_def Let_def list_ex_iff image_iff eq_commute)
qed

lemma parse_addr_Nil [simp]: "parse_addr [] = None"
  by (simp add: parse_addr_def)

lemma egress_agreement_None:
  "egress_agreement s = None \<longleftrightarrow>
     (case parse_addr (cs_effect_target s) of
        Some ip \<Rightarrow> (cs_dest_ip s = None \<or> cs_dest_ip s = Some ip)
                   \<and> (cs_dest_host s = [] \<or> parse_addr (cs_dest_host s) = Some ip)
      | None \<Rightarrow> cs_dest_ip s = None
          \<and> (\<exists>h. CanonicalHostIsValid (cs_effect_target s) = Some h
                 \<and> (cs_dest_host s = [] \<or> h = CanonicalHost (cs_dest_host s))))"
  unfolding egress_agreement_def by (auto split: option.splits if_splits)

lemma attrib_net_egress_iff: "attrib_net_egress s = Inr True \<longleftrightarrow> egress_permitted s"
proof (cases "parse_addr (cs_effect_target s)")
  case None
  then have "attrib_net_egress s \<noteq> Inr True"
    using egress_agreement_None [of s]
    by (auto simp: attrib_net_egress_def Let_def split: option.splits)
  then show ?thesis using None by (auto simp: egress_permitted_def)
next
  case (Some ip)
  have t: "cs_effect_target s \<noteq> []" using Some by auto
  show ?thesis
  proof (cases "egress_agreement s")
    case (Some e)
    then show ?thesis using egress_agreement_None [of s] \<open>parse_addr _ = Some ip\<close> t
      by (auto simp: attrib_net_egress_def egress_permitted_def)
  next
    case None
    then show ?thesis using egress_agreement_None [of s] \<open>parse_addr _ = Some ip\<close> t
      by (auto simp: attrib_net_egress_def egress_permitted_def in_network_def list_ex_iff Let_def split: option.splits)
  qed
qed

lemma canonical_path_inside:
  assumes "PathOutsideWorkspace fs p ws = Inr False"
  shows "\<exists>q. CanonicalPath fs p ws False = Inr q"
  using assms
  by (auto simp: PathOutsideWorkspace_def CanonicalPath_def Let_def split: option.splits sum.splits if_splits prod.splits)

lemma attrib_file_access_iff: "attrib_file_access fs s = Inr True \<longleftrightarrow> file_permitted fs s"
proof -
  let ?ws = "da_workspace_root (cs_declared s)"
  have ne: "p \<noteq> [] \<and> ws \<noteq> []" if "PathOutsideWorkspace fs p ws = Inr False" for p ws
    using that by (auto simp: PathOutsideWorkspace_def)
  show ?thesis
  proof (cases "cs_path s = []")
    case True then show ?thesis using ne [of "cs_effect_target s" ?ws]
      by (auto simp: attrib_file_access_def file_permitted_def Let_def split: sum.splits)
  next
    case False
    show ?thesis
    proof (cases "PathOutsideWorkspace fs (cs_effect_target s) ?ws = Inr False \<and> PathOutsideWorkspace fs (cs_path s) ?ws = Inr False")
      case True
      then show ?thesis using False ne [of "cs_effect_target s" ?ws]
          canonical_path_inside [of fs "cs_effect_target s" ?ws] canonical_path_inside [of fs "cs_path s" ?ws]
        by (auto simp: attrib_file_access_def file_permitted_def Let_def split: if_splits)
    next
      case out: False
      then show ?thesis using False
        by (auto simp: attrib_file_access_def file_permitted_def Let_def split: sum.splits)
    qed
  qed
qed

lemma attributable_iff:
  "EffectAttributable fs s = Inr True \<longleftrightarrow> (\<exists>b. structuredDestination s = Inr b) \<and> effect_permitted fs s"
  by (cases "structuredDestination s")
     (auto simp: EffectAttributable_def effect_permitted_def effect_ne attrib_host_exec_iff
       attrib_net_egress_iff attrib_file_access_iff)

section \<open>One evaluation\<close>

definition normalized :: "cap_step \<Rightarrow> cap_step" where
  "normalized step = step\<lparr>cs_declared := normalizeDeclaredAuthority (cs_declared step)\<rparr>"

definition observed_signals :: "cap_codec \<Rightarrow> fs_env \<Rightarrow> cap_step \<Rightarrow> signal list" where
  "observed_signals K fs step = ExtractSignals (ck_sha K) fs (normalized step)"

lemma Eval_unfold:
  "Eval K fs c step prior =
     (case chain_check c step prior of Some e \<Rightarrow> (Inl e, c) | None \<Rightarrow>
      case ValidateAuthority (cs_declared step) of Some e \<Rightarrow> (Inl e, c) | None \<Rightarrow>
      case attributed_step fs (normalized step) (observed_signals K fs step) of Inl e \<Rightarrow> (Inl e, c) | Inr s \<Rightarrow>
      case EffectAttributable fs s of Inl e \<Rightarrow> (Inl e, c) | Inr attrib \<Rightarrow>
      case Seal_receipt K prior (eval_receipt c (normalized step) (observed_signals K fs step) attrib) of
        Inl e \<Rightarrow> (Inl e, c)
      | Inr r \<Rightarrow> (Inr r, c\<lparr>ev_last_step := cs_step_id (normalized step), ev_last_hash := rc_hash r,
                          ev_held := rc_after r, ev_envelope := rc_envelope_after r\<rparr>))"
  unfolding Eval_def Let_def normalized_def observed_signals_def ..

lemma normalized_simps [simp]:
  "cs_step_id (normalized step) = cs_step_id step" "cs_session_id (normalized step) = cs_session_id step"
  "cs_effect (normalized step) = cs_effect step" "cs_tool (normalized step) = cs_tool step"
  "cs_args (normalized step) = cs_args step" "cs_path (normalized step) = cs_path step"
  "cs_executable (normalized step) = cs_executable step" "cs_dest_ip (normalized step) = cs_dest_ip step"
  "cs_dest_host (normalized step) = cs_dest_host step" "cs_effect_target (normalized step) = cs_effect_target step"
  "cs_signals (normalized step) = cs_signals step" "cs_primitive (normalized step) = cs_primitive step"
  "cs_declared (normalized step) = normalizeDeclaredAuthority (cs_declared step)"
  by (simp_all add: normalized_def)

lemma eval_cases:
  assumes ev: "Eval K fs c step prior = (res, c')"
  obtains (error) e where "res = Inl e" "c' = c"
  | (sealed) s attrib r where "res = Inr r" "chain_check c step prior = None"
      "ValidateAuthority (cs_declared step) = None"
      "attributed_step fs (normalized step) (observed_signals K fs step) = Inr s"
      "EffectAttributable fs s = Inr attrib"
      "Seal_receipt K prior (eval_receipt c (normalized step) (observed_signals K fs step) attrib) = Inr r"
      "c' = c\<lparr>ev_last_step := cs_step_id step, ev_last_hash := rc_hash r, ev_held := rc_after r,
              ev_envelope := rc_envelope_after r\<rparr>"
proof (cases "chain_check c step prior = None \<and> ValidateAuthority (cs_declared step) = None")
  case False
  then show thesis using ev error by (auto simp: Eval_unfold split: option.splits)
next
  case ok: True
  show thesis
  proof (cases "attributed_step fs (normalized step) (observed_signals K fs step)")
    case (Inl e) then show thesis using ev ok error [of e] by (simp add: Eval_unfold)
  next
    case s: (Inr s)
    show thesis
    proof (cases "EffectAttributable fs s")
      case (Inl e) then show thesis using ev ok s error [of e] by (simp add: Eval_unfold)
    next
      case at: (Inr attrib)
      show thesis
      proof (cases "Seal_receipt K prior (eval_receipt c (normalized step) (observed_signals K fs step) attrib)")
        case (Inl e) then show thesis using ev ok s at error [of e] by (simp add: Eval_unfold)
      next
        case (Inr r) then show thesis using ev ok s at sealed [of r s attrib] by (simp add: Eval_unfold)
      qed
    qed
  qed
qed

lemma seal_InrD:
  assumes "Seal_receipt K prior r0 = Inr r"
  shows "prior \<noteq> []" "rc_prev_hash r = prior" "HashReceipt K r = Inr (rc_hash r)"
    "r = r0\<lparr>rc_prev_hash := prior, rc_hash := rc_hash r\<rparr>"
  using assms by (auto simp: Seal_receipt_def HashReceipt_def Let_def split: if_splits sum.splits option.splits)

lemma seal_fields:
  assumes "Seal_receipt K prior (eval_receipt c step ss attrib) = Inr r"
  shows "rc_decision r = (if attrib then DecisionAllow else DecisionPauseRequireProof)"
    "rc_after r = unionLattice (ev_held c) (confirmedDelta ss attrib (ev_held c))"
    "rc_before r = ev_held c"
    "rc_delta r = confirmedDelta ss attrib (ev_held c)"
    "rc_step_id r = cs_step_id step" "rc_session_id r = cs_session_id step"
    "rc_signals r = ss"
    "rc_version r = ReceiptVersion"
    "rc_envelope_before r = ev_envelope c"
    "rc_envelope_after r = (if attrib then ev_envelope c else EnvelopeStateBoundaryCrossing)"
  by (subst seal_InrD(4) [OF assms], simp add: eval_receipt_def Let_def)+

definition codec_total :: "cap_codec \<Rightarrow> bool" where
  "codec_total K \<longleftrightarrow> (\<forall>r. ck_marshal K r \<noteq> None)"

lemma seal_total:
  assumes "codec_total K" and "prior \<noteq> []"
  shows "\<exists>r. Seal_receipt K prior r0 = Inr r"
  using assms by (auto simp: Seal_receipt_def HashReceipt_def codec_total_def Let_def split: option.splits)

lemma eval_allow_char:
  assumes "codec_total K"
  shows "(\<exists>r. fst (Eval K fs c step prior) = Inr r \<and> rc_decision r = DecisionAllow) \<longleftrightarrow>
    chain_check c step prior = None \<and> ValidateAuthority (cs_declared step) = None
    \<and> (\<exists>s b. attributed_step fs (normalized step) (observed_signals K fs step) = Inr s
          \<and> structuredDestination s = Inr b \<and> effect_permitted fs s)"
proof
  assume "\<exists>r. fst (Eval K fs c step prior) = Inr r \<and> rc_decision r = DecisionAllow"
  then obtain r where r: "fst (Eval K fs c step prior) = Inr r" "rc_decision r = DecisionAllow" by blast
  obtain res c' where ev: "Eval K fs c step prior = (res, c')" by (cases "Eval K fs c step prior")
  show "chain_check c step prior = None \<and> ValidateAuthority (cs_declared step) = None
    \<and> (\<exists>s b. attributed_step fs (normalized step) (observed_signals K fs step) = Inr s
          \<and> structuredDestination s = Inr b \<and> effect_permitted fs s)"
    using ev
  proof (cases rule: eval_cases)
    case (sealed s attrib r')
    then have "r' = r" using r ev by simp
    then have "attrib" using seal_fields(1) [OF sealed(6)] r(2) by (auto split: if_splits)
    then show ?thesis using sealed attributable_iff [of fs s] by auto
  qed (use r ev in simp)
next
  assume h: "chain_check c step prior = None \<and> ValidateAuthority (cs_declared step) = None
    \<and> (\<exists>s b. attributed_step fs (normalized step) (observed_signals K fs step) = Inr s
          \<and> structuredDestination s = Inr b \<and> effect_permitted fs s)"
  then obtain s b where s: "attributed_step fs (normalized step) (observed_signals K fs step) = Inr s"
    "structuredDestination s = Inr b" "effect_permitted fs s" by blast
  have at: "EffectAttributable fs s = Inr True" using s attributable_iff by blast
  have "prior \<noteq> []" using h by (auto simp: chain_check_def split: if_splits)
  then obtain r where r: "Seal_receipt K prior (eval_receipt c (normalized step) (observed_signals K fs step) True) = Inr r"
    using seal_total [OF assms] by blast
  then have "fst (Eval K fs c step prior) = Inr r"
    using h s at by (simp add: Eval_unfold)
  then show "\<exists>r. fst (Eval K fs c step prior) = Inr r \<and> rc_decision r = DecisionAllow"
    using seal_fields(1) [OF r] by auto
qed

section \<open>A boundary observation is never allowed untyped\<close>

lemma dedup_seen_kinds:
  "hasSignal (dedup_seen seen ss) k \<longleftrightarrow> hasSignal ss k \<and> k \<notin> set seen"
  by (induction ss arbitrary: seen) (auto simp: hasSignal_def)

lemma dedup_seen_subset: "set (dedup_seen seen ss) \<subseteq> set ss"
  by (induction ss arbitrary: seen) auto

lemma dedup_seen_distinct:
  "distinct (map sg_kind (dedup_seen seen ss)) \<and> set (map sg_kind (dedup_seen seen ss)) \<inter> set seen = {}"
proof (induction ss arbitrary: seen)
  case (Cons s ss)
  show ?case using Cons.IH [of seen] Cons.IH [of "sg_kind s # seen"] by (auto simp: disjoint_iff)
qed simp

lemma mk_signal_simps [simp]:
  "sg_kind (mk_signal sha k ob lv src) = k" "sg_level (mk_signal sha k ob lv src) = lv"
  by (simp_all add: mk_signal_def)

lemma boundary_signal_kinds [simp]:
  "sg_kind (exec_signal sha s) = SignalBoundaryHostExec" "sg_level (exec_signal sha s) = EvidenceBoundaryRequest"
  "sg_kind (egress_signal sha s) = SignalBoundaryEgress" "sg_level (egress_signal sha s) = EvidenceBoundaryRequest"
  by (simp_all add: exec_signal_def egress_signal_def Let_def)

text \<open>The signals before the argument scan: a boundary kind only comes from the structured effect, at
  the level of a boundary request.\<close>

lemma other_signals_not_boundary:
  assumes "x \<in> set (intent_signals sha s @ poc_signals sha s @ build_signals sha s @ marker_signals sha s)"
  shows "sg_kind x \<notin> {SignalBoundaryHostExec, SignalBoundaryEgress, SignalBoundaryFileOutside}"
proof -
  have "sg_kind x \<in> {SignalDeclaredIntent, SignalArtifactPocCreated, SignalArtifactBuildArtifact,
      SignalRuntimeMemoryCorruption, SignalRuntimeSandboxEscape}"
    using assms by (auto simp: intent_signals_def poc_signals_def poc_signal_def build_signals_def
        marker_signals_def Let_def split: if_splits)
  then show ?thesis using signals_distinct by auto
qed

lemma structured_no_effect:
  assumes "cs_effect s = []"
  shows "x \<in> set (structured_signals sha fs s) \<Longrightarrow> sg_kind x \<notin> {SignalBoundaryHostExec, SignalBoundaryEgress, SignalBoundaryFileOutside}"
  using other_signals_not_boundary [of x sha s] assms effect_ne
  by (auto simp: structured_signals_def effect_signals_def)

lemma hasSignal_append [simp]: "hasSignal (xs @ ys) k \<longleftrightarrow> hasSignal xs k \<or> hasSignal ys k"
  by (simp add: hasSignal_def)

lemma hasSignal_single [simp]: "hasSignal [x] k \<longleftrightarrow> sg_kind x = k"
  by (simp add: hasSignal_def)

lemma hasSignal_Nil: "\<not> hasSignal [] k"
  by (simp add: hasSignal_def)

lemma extract_no_effect:
  assumes "cs_signals s = []" and "cs_effect s = []"
    and ss_def: "ss = ExtractSignals sha fs s"
  shows "hasSignal ss SignalBoundaryHostExec \<longleftrightarrow> hostExecFromArgs s"
    and "hasSignal ss SignalBoundaryEgress \<longleftrightarrow> egressFromArgs s"
    and "\<not> hasSignal ss SignalBoundaryFileOutside"
    and "x \<in> set ss \<Longrightarrow> sg_kind x \<in> {SignalBoundaryHostExec, SignalBoundaryEgress} \<Longrightarrow> sg_level x = EvidenceBoundaryRequest"
proof -
  let ?b = "structured_signals sha fs s"
  let ?e = "if hostExecFromArgs s then [exec_signal sha s] else []"
  let ?g = "if egressFromArgs s then [egress_signal sha s] else []"
  have ne: "SignalBoundaryHostExec \<noteq> SignalBoundaryEgress" "SignalBoundaryHostExec \<noteq> SignalBoundaryFileOutside"
    "SignalBoundaryEgress \<noteq> SignalBoundaryFileOutside" using signals_distinct by auto
  have nb: "\<not> hasSignal ?b k" if "k \<in> {SignalBoundaryHostExec, SignalBoundaryEgress, SignalBoundaryFileOutside}" for k
    using that structured_no_effect [OF assms(2), of _ sha fs] by (auto simp: hasSignal_def list_ex_iff)
  have ss: "ss = dedupByKind (?b @ ?e @ ?g)"
    using assms(1) nb ne by (simp add: ss_def ExtractSignals_def Let_def)
  have k: "hasSignal ss k \<longleftrightarrow> hasSignal (?b @ ?e @ ?g) k" for k
    by (simp only: ss dedupByKind_def dedup_seen_kinds) simp
  show "hasSignal ss SignalBoundaryHostExec \<longleftrightarrow> hostExecFromArgs s"
    "hasSignal ss SignalBoundaryEgress \<longleftrightarrow> egressFromArgs s"
    "\<not> hasSignal ss SignalBoundaryFileOutside"
    using nb [of SignalBoundaryHostExec] nb [of SignalBoundaryEgress] nb [of SignalBoundaryFileOutside] ne ne [symmetric]
    by (simp_all add: k hasSignal_Nil)
  assume x: "x \<in> set ss" and kx: "sg_kind x \<in> {SignalBoundaryHostExec, SignalBoundaryEgress}"
  have "x \<in> set (?b @ ?e @ ?g)" using x subsetD [OF dedup_seen_subset [of "[]" "?b @ ?e @ ?g"]] by (simp only: ss dedupByKind_def)
  moreover have "x \<notin> set ?b" using structured_no_effect [OF assms(2), of x sha fs] kx by auto
  ultimately show "sg_level x = EvidenceBoundaryRequest" by (auto split: if_splits)
qed

lemma hasSignalLevel_iff:
  assumes "\<And>x. x \<in> set ss \<Longrightarrow> sg_kind x = k \<Longrightarrow> sg_level x = l"
  shows "hasSignalLevel ss k l \<longleftrightarrow> hasSignal ss k"
  using assms by (auto simp: hasSignalLevel_def hasSignal_def list_ex_iff)

lemma derived_kind_no_effect:
  assumes "cs_signals s = []" and "cs_effect s = []"
  shows "deriveEffectKind (ExtractSignals sha fs s) =
     (if hostExecFromArgs s then EffectHostExec else if egressFromArgs s then EffectNetEgress else [])"
  and "\<not> hostExecFromArgs s \<Longrightarrow> \<not> egressFromArgs s \<Longrightarrow> \<not> hasBoundarySignal (ExtractSignals sha fs s)"
proof -
  note ex = extract_no_effect [OF assms refl, where sha = sha and fs = fs]
  show "deriveEffectKind (ExtractSignals sha fs s) =
     (if hostExecFromArgs s then EffectHostExec else if egressFromArgs s then EffectNetEgress else [])"
    using ex hasSignalLevel_iff [of "ExtractSignals sha fs s" SignalBoundaryHostExec EvidenceBoundaryRequest]
      hasSignalLevel_iff [of "ExtractSignals sha fs s" SignalBoundaryEgress EvidenceBoundaryRequest]
    by (auto simp: deriveEffectKind_def)
  assume "\<not> hostExecFromArgs s" "\<not> egressFromArgs s"
  then show "\<not> hasBoundarySignal (ExtractSignals sha fs s)"
    using ex by (auto simp: hasBoundarySignal_def hasSignal_def list_ex_iff)
qed

lemma normalized_scans [simp]:
  "hostExecFromArgs (normalized s) = hostExecFromArgs s"
  "egressFromArgs (normalized s) = egressFromArgs s"
  "fileSurfacePath (normalized s) = fileSurfacePath s"
  "structuredDestination (normalized s) = structuredDestination s"
  "egressURLFromArgs (normalized s) = egressURLFromArgs s"
  by (simp_all add: hostExecFromArgs_def egressFromArgs_def fileSurfacePath_def structuredDestination_def egressURLFromArgs_def)

text \<open>The step that is attributed when neither an effect nor signals were supplied.\<close>

lemma attributed_no_effect:
  assumes "cs_signals step = []" and "cs_effect step = []"
  shows "attributed_step fs (normalized step) (observed_signals K fs step) =
    (if hostExecFromArgs step then Inr (bindDerivedTarget (normalized step) EffectHostExec)
     else if egressFromArgs step then Inr (bindDerivedTarget (normalized step) EffectNetEgress)
     else if fileSurfacePath step = [] then Inr (normalized step)
     else case PathOutsideWorkspace fs (fileSurfacePath step) (da_workspace_root (normalizeDeclaredAuthority (cs_declared step))) of
       Inl e \<Rightarrow> Inl e
     | Inr outside \<Rightarrow> if outside then Inl (InvalidStep ''untyped file-boundary observation'') else Inr (normalized step))"
  using derived_kind_no_effect [of "normalized step" "ck_sha K" fs] assms effect_ne
  by (simp add: attributed_step_def observed_signals_def Let_def)

section \<open>The allow verdict\<close>

text \<open>The evaluator allows a step if and only if the step continues the chain of its session, its
  declared authority is valid, its boundary observations are typed, its structured destination is
  readable, and the effect lies in the declared envelope: a declared executable on the declared
  host, an address of a declared network, or a path inside the workspace.\<close>

theorem eval_allow_iff:
  assumes "codec_total K"
  shows "(\<exists>r. fst (Eval K fs c step prior) = Inr r \<and> rc_decision r = DecisionAllow) \<longleftrightarrow>
    chain_check c step prior = None \<and> ValidateAuthority (cs_declared step) = None
    \<and> (\<exists>s b. attributed_step fs (normalized step) (observed_signals K fs step) = Inr s
          \<and> structuredDestination s = Inr b \<and> effect_permitted fs s)"
  by (rule eval_allow_char [OF assms])

definition step_codec :: cap_codec where
  "step_codec = \<lparr>ck_sha = (\<lambda>s. s), ck_marshal = (\<lambda>r. Some (itoa (rc_step_id r) @ rc_prev_hash r)),
     ck_marshal_pause = (\<lambda>r. Some (itoa (pr_step_id r) @ pr_prev_hash r)), ck_unmarshal = (\<lambda>s. None)\<rparr>"

definition exec_step :: cap_step where
  "exec_step =
     \<lparr>cs_session_id = ''s'', cs_step_id = 1, cs_tool = ''run'', cs_args = [], cs_path = [],
      cs_executable = ''/usr/bin/make'', cs_dest_ip = None, cs_dest_host = ''Build.example.'', cs_result = [],
      cs_artifact_magic = [],
      cs_declared = \<lparr>da_target = ''t'', da_network = [], da_host = ''build.example'', da_workspace_root = ''/w'',
                     da_executables = [''make''], da_intent = []\<rparr>,
      cs_effect = EffectHostExec, cs_effect_target = ''make'', cs_primitive = [], cs_signals = []\<rparr>"

definition first_evaluator :: chain_evaluator where
  "first_evaluator = \<lparr>ev_session_id = ''s'', ev_last_step = 0, ev_last_hash = [], ev_held = [CapReadSandboxMem], ev_envelope = EnvelopeStateHigh\<rparr>"

theorem eval_allow_iff_witness:
  "\<exists>r. fst (Eval step_codec link_fs first_evaluator exec_step GenesisPrevHash) = Inr r \<and> rc_decision r = DecisionAllow"
proof -
  have K: "codec_total step_codec" by (simp add: codec_total_def step_codec_def)
  have at: "attributed_step link_fs (normalized exec_step) (observed_signals step_codec link_fs exec_step) = Inr (normalized exec_step)"
    by (simp add: attributed_step_def exec_step_def effect_ne)
  moreover have "structuredDestination (normalized exec_step) = Inr True" by code_simp
  moreover have "effect_permitted link_fs (normalized exec_step)"
  proof -
    have "cs_effect (normalized exec_step) = EffectHostExec" by (simp add: exec_step_def)
    moreover have "exec_permitted (normalized exec_step)" by code_simp
    ultimately show ?thesis by (simp add: effect_permitted_def)
  qed
  moreover have "chain_check first_evaluator exec_step GenesisPrevHash = None" by code_simp
  moreover have "ValidateAuthority (cs_declared exec_step) = None" by code_simp
  ultimately show ?thesis using eval_allow_iff [OF K, of link_fs first_evaluator exec_step GenesisPrevHash] by blast
qed

end
