(* ===== verification/Capability_Adapter.thy ===== *)
theory Capability_Adapter
  imports Capability_Properties Tools_Call
begin

text \<open>
  The proxy's side of capability accounting (\<^verbatim>\<open>src/internal/proxy/tools_call.go\<close>): how the redacted
  arguments of a call become a step, and how the receipt or the pause artifact advances the chain
  of the session. The theorems say what an ALLOW means for the proxy, that no command nested in a
  JSON argument escapes the scan, and that the receipts of a session form one hash chain.
\<close>

section \<open>From arguments to a step\<close>

definition joinStringSlice :: "json list \<Rightarrow> string" where
  "joinStringSlice es =
     join_strings '' '' (filter (\<lambda>s. s \<noteq> []) (map (\<lambda>e. case e of JStr s \<Rightarrow> trim_space s | _ \<Rightarrow> []) es))"

text \<open>Every string below a command-bearing key, arrays in order, objects in the order of their keys.\<close>

fun flattenCommandSurface :: "json \<Rightarrow> string" where
  "flattenCommandSurface (JStr s) = trim_space s"
| "flattenCommandSurface (JArr es) =
     join_strings '' '' (filter (\<lambda>s. s \<noteq> []) (map flattenCommandSurface es))"
| "flattenCommandSurface (JObj m) =
     join_strings '' '' (filter (\<lambda>s. s \<noteq> [])
       (map snd (sort_key fst (map (\<lambda>(k, v). (k, flattenCommandSurface v)) m))))"
| "flattenCommandSurface JNull = []"
| "flattenCommandSurface (JBool _) = []"
| "flattenCommandSurface (JNum _) = []"

definition flattenArgValue :: "string \<Rightarrow> json \<Rightarrow> string" where
  "flattenArgValue key v =
     (if isCommandBearingKey key then flattenCommandSurface v
      else case v of JStr s \<Rightarrow> s | JArr es \<Rightarrow> joinStringSlice es | _ \<Rightarrow> [])"

definition stringArgs :: "args \<Rightarrow> (string \<times> string) list" where
  "stringArgs m = filter (\<lambda>(k, s). s \<noteq> []) (map (\<lambda>(k, v). (k, flattenArgValue k v)) m)"

definition string_arg :: "args \<Rightarrow> string \<Rightarrow> string" where
  "string_arg m k = (case map_of m k of Some (JStr v) \<Rightarrow> v | _ \<Rightarrow> [])"

definition pathArgFromRedacted :: "string \<Rightarrow> args \<Rightarrow> string" where
  "pathArgFromRedacted tool m =
     (if \<not> IsFileToolName tool then []
      else case find (\<lambda>v. v \<noteq> []) (map (string_arg m) [''path'', ''file'', ''file_path'', ''uri'']) of
        None \<Rightarrow> [] | Some v \<Rightarrow> v)"

definition dest_ip_of :: "string \<Rightarrow> addr option" where
  "dest_ip_of v = (if v = [] then None else parse_addr (trim_chars ''[]'' (url_authority v)))"

definition destIPFromArgs :: "string \<Rightarrow> args \<Rightarrow> addr option" where
  "destIPFromArgs tool m =
     (let ks = (if IsNetworkToolName tool then [''dest_ip'', ''ip'', ''host'', ''url''] else [''dest_ip''])
      in case find (\<lambda>x. x \<noteq> None) (map (\<lambda>k. dest_ip_of (string_arg m k)) ks) of None \<Rightarrow> None | Some x \<Rightarrow> x)"

definition dest_host_of :: "string \<Rightarrow> string option" where
  "dest_host_of v =
     (if v = [] then None
      else let h = trim_chars ''[]'' (url_authority v) in
           if parse_addr h \<noteq> None \<or> h = [] then None else Some (to_lower (trim_suffix ''.'' h)))"

definition destHostFromArgs :: "string \<Rightarrow> args \<Rightarrow> string" where
  "destHostFromArgs tool m =
     (let ks = (if IsNetworkToolName tool then [''host'', ''url'', ''dest_host'', ''uri'', ''domain''] else [''dest_host''])
      in case find (\<lambda>x. x \<noteq> None) (map (\<lambda>k. dest_host_of (string_arg m k)) ks) of Some (Some h) \<Rightarrow> h | _ \<Rightarrow> [])"

definition capabilityDeclaredAuthority :: "policy \<Rightarrow> string \<Rightarrow> declared_authority" where
  "capabilityDeclaredAuthority pol serverName =
     \<lparr>da_target = serverName, da_network = [], da_host = [],
      da_workspace_root = (case findServerByName pol serverName of None \<Rightarrow> [] | Some srv \<Rightarrow> srv_workspace_root srv),
      da_executables = [], da_intent = []\<rparr>"

definition observed_step :: "policy \<Rightarrow> string \<Rightarrow> int \<Rightarrow> call \<Rightarrow> args \<Rightarrow> cap_step" where
  "observed_step pol sid stepID c redactedArgs =
     \<lparr>cs_session_id = sid, cs_step_id = stepID, cs_tool = cl_tool c, cs_args = stringArgs redactedArgs,
      cs_path = pathArgFromRedacted (cl_tool c) redactedArgs, cs_executable = [],
      cs_dest_ip = destIPFromArgs (cl_tool c) redactedArgs,
      cs_dest_host = destHostFromArgs (cl_tool c) redactedArgs,
      cs_result = [], cs_artifact_magic = [],
      cs_declared = capabilityDeclaredAuthority pol (cl_server c),
      cs_effect = [], cs_effect_target = [], cs_primitive = [], cs_signals = []\<rparr>"

section \<open>One accounting step\<close>

record cap_state =
  cst_eval :: chain_evaluator
  cst_step :: int
  cst_last_hash :: string

datatype cap_artifact = Receipt receipt | PauseReceipt pause_receipt

fun artifact_prev :: "cap_artifact \<Rightarrow> string" where
  "artifact_prev (Receipt r) = rc_prev_hash r"
| "artifact_prev (PauseReceipt r) = pr_prev_hash r"

fun artifact_hash :: "cap_artifact \<Rightarrow> string" where
  "artifact_hash (Receipt r) = rc_hash r"
| "artifact_hash (PauseReceipt r) = pr_hash r"

fun artifact_step :: "cap_artifact \<Rightarrow> int" where
  "artifact_step (Receipt r) = rc_step_id r"
| "artifact_step (PauseReceipt r) = pr_step_id r"

definition newCapabilityEvaluator :: "string \<Rightarrow> cap_state option" where
  "newCapabilityEvaluator sid =
     (case NewChainEvaluator sid of
        Inl _ \<Rightarrow> None
      | Inr c \<Rightarrow> Some \<lparr>cst_eval = c, cst_step = 0, cst_last_hash = GenesisPrevHash\<rparr>)"

definition account_step ::
    "cap_codec \<Rightarrow> fs_env \<Rightarrow> (int \<Rightarrow> cap_step) \<Rightarrow> cap_state \<Rightarrow> (cap_outcome \<times> cap_artifact option) \<times> cap_state" where
  "account_step K fs mk st =
     (let n = cst_step st + 1; step = mk n; prior = cst_last_hash st in
      case Eval K fs (cst_eval st) step prior of
        (Inl e, c) \<Rightarrow>
          (case NewPauseReceipt K (cs_session_id step) n prior e of
             Inl _ \<Rightarrow> ((CapError None, None), st\<lparr>cst_step := n, cst_eval := c\<rparr>)
           | Inr pr \<Rightarrow> ((CapError (Some (pr_hash pr)), Some (PauseReceipt pr)),
                        st\<lparr>cst_step := n, cst_last_hash := pr_hash pr,
                           cst_eval := AdvanceAfterError n (pr_hash pr) c\<rparr>))
      | (Inr r, c) \<Rightarrow>
          ((CapReceipt (rc_hash r) (rc_decision r = DecisionPauseRequireProof), Some (Receipt r)),
           st\<lparr>cst_step := n, cst_last_hash := rc_hash r, cst_eval := c\<rparr>))"

section \<open>Nothing nested is lost\<close>

text \<open>The strings inside a JSON value.\<close>

fun leaves :: "json \<Rightarrow> string list" where
  "leaves (JStr s) = [s]"
| "leaves (JArr es) = concat (map leaves es)"
| "leaves (JObj m) = concat (map (\<lambda>(k, v). leaves v) m)"
| "leaves JNull = []"
| "leaves (JBool _) = []"
| "leaves (JNum _) = []"

lemma starts_with_cut:
  assumes "x \<notin> set w"
  shows "starts_with w (a @ x # b) \<longleftrightarrow> starts_with w a"
  using assms by (induction w a rule: starts_with.induct) auto

lemma starts_with_length: "starts_with w s \<Longrightarrow> length w \<le> length s"
  by (induction w s rule: starts_with.induct) auto

lemma to_lower_space: "to_lower (a @ CHR '' '' # b) = to_lower a @ CHR '' '' # to_lower b"
proof (induction a rule: to_lower.induct)
  case 1
  show ?case by (simp add: ascii_lower_def is_upper_ascii_def byte_def)
next
  case (2 c s)
  have cut: "starts_with [CHR 0xE2, CHR 0x84, CHR 0xAA] (c # s @ CHR '' '' # b) \<longleftrightarrow> starts_with [CHR 0xE2, CHR 0x84, CHR 0xAA] (c # s)"
    "starts_with [CHR 0xC4, CHR 0xB0] (c # s @ CHR '' '' # b) \<longleftrightarrow> starts_with [CHR 0xC4, CHR 0xB0] (c # s)"
    using starts_with_cut [of "CHR '' ''" "[CHR 0xE2, CHR 0x84, CHR 0xAA]" "c # s" b]
      starts_with_cut [of "CHR '' ''" "[CHR 0xC4, CHR 0xB0]" "c # s" b] by simp_all
  consider (kelvin) "starts_with [CHR 0xE2, CHR 0x84, CHR 0xAA] (c # s)"
    | (dotted) "\<not> starts_with [CHR 0xE2, CHR 0x84, CHR 0xAA] (c # s)" "starts_with [CHR 0xC4, CHR 0xB0] (c # s)"
    | (other) "\<not> starts_with [CHR 0xE2, CHR 0x84, CHR 0xAA] (c # s)" "\<not> starts_with [CHR 0xC4, CHR 0xB0] (c # s)" by blast
  then show ?case
  proof cases
    case kelvin
    then have "2 \<le> length s" using starts_with_length by fastforce
    then show ?thesis using kelvin cut 2(1) by (simp del: starts_with.simps)
  next
    case dotted
    then have "1 \<le> length s" using starts_with_length by fastforce
    then show ?thesis using dotted cut 2(2) by (simp del: starts_with.simps)
  next
    case other
    then show ?thesis using cut 2(3) by (simp del: starts_with.simps)
  qed
qed

lemma split_by_nonempty [simp]: "split_by P s \<noteq> []"
  by (induction s) (auto split: list.split)

lemma split_by_mid: "P d \<Longrightarrow> split_by P (s @ d # t) = split_by P s @ split_by P t"
proof (induction s)
  case (Cons c s) then show ?case by (cases "split_by P s") auto
qed simp

lemma shellTokens_space: "shellTokens (to_lower (a @ CHR '' '' # b)) = shellTokens (to_lower a) @ shellTokens (to_lower b)"
  by (simp add: shellTokens_def fields_func_def to_lower_space split_by_mid isCommandBoundary_def)

lemma join_strings_Cons: "join_strings d (x # xs) = (if xs = [] then x else x @ d @ join_strings d xs)"
  by (cases xs) (auto simp: join_strings_def)

lemma shellTokens_join:
  "set (shellTokens (to_lower (join_strings '' '' ws))) = (\<Union>w\<in>set ws. set (shellTokens (to_lower w)))"
proof (induction ws)
  case Nil then show ?case by (simp add: join_strings_def shellTokens_def fields_func_def)
next
  case (Cons w ws) then show ?case using shellTokens_space [of w "join_strings '' '' ws"]
    by (simp add: join_strings_Cons)
qed

lemma shellTokens_Nil [simp]: "shellTokens (to_lower []) = []"
  by (simp add: shellTokens_def fields_func_def)

lemma shellTokens_join_nonempty:
  "set (shellTokens (to_lower (join_strings '' '' (filter (\<lambda>s. s \<noteq> []) ws)))) = (\<Union>w\<in>set ws. set (shellTokens (to_lower w)))"
proof -
  have "shellTokens (to_lower w) = []" if "w = []" for w :: string using that by (simp only: shellTokens_Nil)
  then have "w \<noteq> []" if "x \<in> set (shellTokens (to_lower w))" for x w using that by fastforce
  then show ?thesis by (force simp only: shellTokens_join set_filter)
qed

lemma flatten_keeps_tokens:
  "s \<in> set (leaves v) \<Longrightarrow> set (shellTokens (to_lower (trim_space s))) \<subseteq> set (shellTokens (to_lower (flattenCommandSurface v)))"
proof (induction v rule: flattenCommandSurface.induct)
  case (2 es)
  then obtain e where "e \<in> set es" "s \<in> set (leaves e)" by auto
  then show ?case using 2(1) [of e] unfolding flattenCommandSurface.simps shellTokens_join_nonempty by auto
next
  case (3 m)
  then obtain k v where kv: "(k, v) \<in> set m" "s \<in> set (leaves v)" by auto
  then have "set (shellTokens (to_lower (trim_space s))) \<subseteq> set (shellTokens (to_lower (flattenCommandSurface v)))"
    using 3(1) [OF kv(1) refl] by blast
  moreover have "flattenCommandSurface v \<in> set (map snd (sort_key fst (map (\<lambda>(k, v). (k, flattenCommandSurface v)) m)))"
    using kv(1) by force
  ultimately show ?case
    unfolding flattenCommandSurface.simps shellTokens_join_nonempty by blast
qed simp_all

section \<open>What an ALLOW means for the proxy\<close>

lemma observed_step_simps [simp]:
  "cs_effect (observed_step pol sid n c m) = []" "cs_signals (observed_step pol sid n c m) = []"
  "cs_effect_target (observed_step pol sid n c m) = []" "cs_step_id (observed_step pol sid n c m) = n"
  "cs_session_id (observed_step pol sid n c m) = sid" "cs_tool (observed_step pol sid n c m) = cl_tool c"
  "cs_args (observed_step pol sid n c m) = stringArgs m"
  "cs_declared (observed_step pol sid n c m) = capabilityDeclaredAuthority pol (cl_server c)"
  "fileSurfacePath (observed_step pol sid n c m) = pathArgFromRedacted (cl_tool c) m"
  by (simp_all add: observed_step_def fileSurfacePath_def)

definition server_root :: "policy \<Rightarrow> string \<Rightarrow> string" where
  "server_root pol srv = da_workspace_root (capabilityDeclaredAuthority pol srv)"

lemma adapter_authority:
  "ValidateAuthority (capabilityDeclaredAuthority pol srv) = None \<longleftrightarrow> srv \<noteq> [] \<and> server_root pol srv \<noteq> []"
  by (simp add: ValidateAuthority_def capabilityDeclaredAuthority_def server_root_def)

lemma adapter_never_permits:
  assumes "da_executables (cs_declared s) = []" and "da_network (cs_declared s) = []"
  shows "\<not> exec_permitted s" "\<not> egress_permitted s"
  using assms by (simp_all add: exec_permitted_def egress_permitted_def)

lemma bind_declared [simp]: "cs_declared (bindDerivedTarget s k) = cs_declared s"
  by (simp add: bindDerivedTarget_def Let_def)

lemma bind_effect:
  "cs_effect (bindDerivedTarget s EffectHostExec) = EffectHostExec"
  "cs_effect (bindDerivedTarget s EffectNetEgress) = EffectNetEgress"
  using effect_ne by (simp_all add: bindDerivedTarget_def Let_def)

lemma adapter_not_permitted:
  assumes "da_executables (cs_declared s) = []" and "da_network (cs_declared s) = []"
  shows "\<not> effect_permitted fs (bindDerivedTarget s EffectHostExec)"
    "\<not> effect_permitted fs (bindDerivedTarget s EffectNetEgress)"
  using adapter_never_permits [of "bindDerivedTarget s EffectHostExec"]
    adapter_never_permits [of "bindDerivedTarget s EffectNetEgress"] assms effect_ne
  by (simp_all add: effect_permitted_def bind_effect)

lemma adapter_allow_char:
  fixes pol :: policy and m :: args and n :: int
  assumes "codec_total K" and step: "step = observed_step pol sid n c m"
  shows "(\<exists>r. fst (Eval K fs ev step prior) = Inr r \<and> rc_decision r = DecisionAllow) \<longleftrightarrow>
    chain_check ev step prior = None \<and> cl_server c \<noteq> [] \<and> server_root pol (cl_server c) \<noteq> []
    \<and> \<not> hostExecFromArgs step \<and> \<not> egressFromArgs step
    \<and> (pathArgFromRedacted (cl_tool c) m = []
       \<or> PathOutsideWorkspace fs (pathArgFromRedacted (cl_tool c) m) (path_clean (server_root pol (cl_server c))) = Inr False)"
proof -
  let ?n = "normalized step"
  have da: "da_executables (cs_declared ?n) = []" "da_network (cs_declared ?n) = []"
    by (simp_all add: step capabilityDeclaredAuthority_def normalizeDeclaredAuthority_def)
  have root: "da_workspace_root (normalizeDeclaredAuthority (cs_declared step)) = path_clean (server_root pol (cl_server c))"
    if "server_root pol (cl_server c) \<noteq> []"
    using that by (simp add: step server_root_def normalizeDeclaredAuthority_def)
  have fin: "effect_permitted fs ?n" by (simp add: effect_permitted_def step)
  note at = attributed_no_effect [of step fs K, unfolded step, simplified, folded step]
  show ?thesis
  proof (cases "hostExecFromArgs step \<or> egressFromArgs step")
    case True
    then have "\<not> (\<exists>s b. attributed_step fs ?n (observed_signals K fs step) = Inr s
          \<and> structuredDestination s = Inr b \<and> effect_permitted fs s)"
      using at adapter_not_permitted [OF da] by (auto split: if_splits)
    then show ?thesis using True eval_allow_char [OF assms(1)] by blast
  next
    case False
    then have sd: "structuredDestination ?n = Inr False" by (simp add: egressFromArgs_def)
    have "(\<exists>s b. attributed_step fs ?n (observed_signals K fs step) = Inr s
          \<and> structuredDestination s = Inr b \<and> effect_permitted fs s) \<longleftrightarrow>
      pathArgFromRedacted (cl_tool c) m = []
       \<or> PathOutsideWorkspace fs (pathArgFromRedacted (cl_tool c) m)
            (da_workspace_root (normalizeDeclaredAuthority (cs_declared step))) = Inr False"
      using at False sd fin by (auto simp: step split: sum.splits if_splits)
    then show ?thesis
      using eval_allow_char [OF assms(1), of fs ev step prior] False root adapter_authority [of pol "cl_server c"]
      by (auto simp: step)
  qed
qed

lemma stringArgs_keeps:
  assumes "distinct (map fst m)" and "(k, v) \<in> set m" and "flattenArgValue k v \<noteq> []"
  shows "map_of (stringArgs m) k = Some (flattenArgValue k v)" and "k \<in> set (sortedKeys (stringArgs m))"
proof -
  have "distinct (map fst (map (\<lambda>(k, v). (k, flattenArgValue k v)) m))" using assms(1) by (simp add: case_prod_beta o_def)
  then have "distinct (map fst (stringArgs m))" unfolding stringArgs_def by (rule distinct_map_filter)
  moreover have "(k, flattenArgValue k v) \<in> set (stringArgs m)" using assms(2,3) by (force simp: stringArgs_def)
  ultimately show "map_of (stringArgs m) k = Some (flattenArgValue k v)" by (simp add: map_of_is_SomeI)
  show "k \<in> set (sortedKeys (stringArgs m))" using \<open>_ \<in> set (stringArgs m)\<close> by (force simp: sortedKeys_def)
qed

lemma nested_token_scanned:
  assumes "distinct (map fst m)" and "(k, v) \<in> set m" and "isCommandBearingKey k"
    and "s \<in> set (leaves v)" and "tok \<in> set (shellTokens (to_lower (trim_space s)))"
  shows "\<exists>x \<in> set (commandBearingArgs (stringArgs m)). tok \<in> set (shellTokens (to_lower x))"
proof -
  have fl: "flattenArgValue k v = flattenCommandSurface v" using assms(3) by (simp add: flattenArgValue_def)
  have tok: "tok \<in> set (shellTokens (to_lower (flattenCommandSurface v)))"
    using flatten_keeps_tokens [OF assms(4)] assms(5) by blast
  then have "flattenArgValue k v \<noteq> []" using shellTokens_Nil fl by force
  note sk = stringArgs_keeps [OF assms(1,2) this]
  have "flattenCommandSurface v \<in> set (commandBearingArgs (stringArgs m))"
    using sk assms(3) fl unfolding commandBearingArgs_def by force
  then show ?thesis using tok by blast
qed

text \<open>With the proxy's wiring a call is accounted as ALLOW if and only if it continues the chain, the
  server has a declared workspace root, neither the tool name nor any command-bearing argument asks
  for a shell, nothing in the call names a network destination, and the path of a file tool (if
  there is one) lies inside the workspace after resolution.\<close>

theorem capability_allow_iff:
  assumes "codec_total K" and "step = observed_step pol sid n c m"
  shows "(\<exists>r. fst (Eval K fs ev step prior) = Inr r \<and> rc_decision r = DecisionAllow) \<longleftrightarrow>
    chain_check ev step prior = None \<and> cl_server c \<noteq> [] \<and> server_root pol (cl_server c) \<noteq> []
    \<and> \<not> hostExecFromArgs step \<and> \<not> egressFromArgs step
    \<and> (pathArgFromRedacted (cl_tool c) m = []
       \<or> PathOutsideWorkspace fs (pathArgFromRedacted (cl_tool c) m) (path_clean (server_root pol (cl_server c))) = Inr False)"
  by (rule adapter_allow_char [OF assms])

definition plain_codec :: cap_codec where
  "plain_codec = \<lparr>ck_sha = (\<lambda>s. s), ck_marshal = (\<lambda>r. Some (itoa (rc_step_id r) @ rc_prev_hash r)),
     ck_marshal_pause = (\<lambda>r. Some (itoa (pr_step_id r) @ pr_prev_hash r)), ck_unmarshal = (\<lambda>s. None)\<rparr>"

definition rooted_policy :: policy where
  "rooted_policy = policy_zero\<lparr>pol_servers := [server_zero\<lparr>srv_name := ''fs'', srv_workspace_root := ''/w''\<rparr>]\<rparr>"

definition tool_call :: "string \<Rightarrow> call" where
  "tool_call tool = \<lparr>cl_server = ''fs'', cl_tool = tool, cl_arguments = RawEmpty, cl_raw = []\<rparr>"

definition fresh_evaluator :: chain_evaluator where
  "fresh_evaluator = \<lparr>ev_session_id = ''s'', ev_last_step = 0, ev_last_hash = [], ev_held = [CapReadSandboxMem], ev_envelope = EnvelopeStateHigh\<rparr>"

lemma plain_codec_total: "codec_total plain_codec"
  by (simp add: codec_total_def plain_codec_def)

theorem capability_allow_iff_witness:
  "\<exists>r. fst (Eval plain_codec link_fs fresh_evaluator
        (observed_step rooted_policy ''s'' 1 (tool_call ''read_file'') [(''path'', JStr ''/w/a'')]) GenesisPrevHash) = Inr r
      \<and> rc_decision r = DecisionAllow"
proof -
  let ?s = "observed_step rooted_policy ''s'' 1 (tool_call ''read_file'') [(''path'', JStr ''/w/a'')]"
  have "chain_check fresh_evaluator ?s GenesisPrevHash = None" by code_simp
  moreover have "cl_server (tool_call ''read_file'') \<noteq> []" by code_simp
  moreover have "server_root rooted_policy (cl_server (tool_call ''read_file'')) \<noteq> []" by code_simp
  moreover have "\<not> hostExecFromArgs ?s" by code_simp
  moreover have "\<not> egressFromArgs ?s" by code_simp
  moreover have "PathOutsideWorkspace link_fs (pathArgFromRedacted (cl_tool (tool_call ''read_file'')) [(''path'', JStr ''/w/a'')])
      (path_clean (server_root rooted_policy (cl_server (tool_call ''read_file'')))) = Inr False" by code_simp
  ultimately show ?thesis using capability_allow_iff [OF plain_codec_total refl] by blast
qed

text \<open>No command escapes by nesting: if any string inside a command-bearing argument, at any depth of
  arrays and objects, contains a token that is a shell after reduction to its base name, then the
  call is not accounted as ALLOW.\<close>

theorem nested_shell_never_allowed:
  assumes "codec_total K" and "distinct (map fst m)" and "(k, v) \<in> set m" and "isCommandBearingKey k"
    and "s \<in> set (leaves v)" and "tok \<in> set (shellTokens (to_lower (trim_space s)))" and "isCanonicalShellName tok"
    and "fst (Eval K fs ev (observed_step pol sid n c m) prior) = Inr r"
  shows "rc_decision r \<noteq> DecisionAllow"
proof
  assume "rc_decision r = DecisionAllow"
  then have "\<not> hostExecFromArgs (observed_step pol sid n c m)"
    using adapter_allow_char [OF assms(1) refl, of fs ev pol sid n c m prior] assms(8) by blast
  moreover have "argsContainShellToken (stringArgs m)"
    using nested_token_scanned [OF assms(2-6)] assms(7) by (auto simp: argsContainShellToken_def list_ex_iff)
  ultimately show False by (simp add: hostExecFromArgs_def)
qed

section \<open>The receipts of a session\<close>

text \<open>Any sequence of calls: each one gives a step (numbered by the proxy) and the answer of the file
  system at that moment.\<close>

fun account_run ::
    "cap_codec \<Rightarrow> ((int \<Rightarrow> cap_step) \<times> fs_env) list \<Rightarrow> cap_state \<Rightarrow> cap_artifact list \<times> cap_state" where
  "account_run K [] st = ([], st)"
| "account_run K ((mk, fs) # steps) st =
     (case account_step K fs mk st of ((_, art), st1) \<Rightarrow>
      case account_run K steps st1 of (arts, st2) \<Rightarrow>
        ((case art of None \<Rightarrow> arts | Some a \<Rightarrow> a # arts), st2))"

fun artifact_sealed :: "cap_codec \<Rightarrow> cap_artifact \<Rightarrow> bool" where
  "artifact_sealed K (Receipt r) = (HashReceipt K r = Inr (rc_hash r))"
| "artifact_sealed K (PauseReceipt r) = (HashPauseReceipt K r = Inr (pr_hash r))"

text \<open>A hash chain from a predecessor, with strictly increasing step numbers.\<close>

fun receipt_chain :: "cap_codec \<Rightarrow> string \<Rightarrow> int \<Rightarrow> cap_artifact list \<Rightarrow> bool" where
  "receipt_chain K prev n [] = True"
| "receipt_chain K prev n (a # as) =
     (artifact_prev a = prev \<and> artifact_sealed K a \<and> n < artifact_step a
      \<and> receipt_chain K (artifact_hash a) (artifact_step a) as)"

fun chain_tip :: "string \<Rightarrow> cap_artifact list \<Rightarrow> string" where
  "chain_tip prev [] = prev"
| "chain_tip prev (a # as) = chain_tip (artifact_hash a) as"

text \<open>The proxy and the evaluator agree on the predecessor and on the last step.\<close>

definition cap_inv :: "cap_state \<Rightarrow> bool" where
  "cap_inv st \<longleftrightarrow>
     cst_last_hash st = expected_prior (cst_eval st) \<and> cst_last_hash st \<noteq> []
     \<and> 0 \<le> ev_last_step (cst_eval st) \<and> ev_last_step (cst_eval st) \<le> cst_step st"

lemma pause_InrD:
  assumes "NewPauseReceipt K sid n prior e = Inr pr"
  shows "pr_prev_hash pr = prior" "HashPauseReceipt K pr = Inr (pr_hash pr)" "pr_step_id pr = n" "pr_hash pr \<noteq> []"
  using assms
  by (auto simp: NewPauseReceipt_def Seal_pause_def HashPauseReceipt_def Let_def split: if_splits sum.splits option.splits)

lemma receipt_hash_nonempty: "HashReceipt K r = Inr h \<Longrightarrow> h \<noteq> []"
  by (auto simp: HashReceipt_def split: option.splits)

lemma eval_sealedD:
  assumes "Eval K fs c step prior = (Inr r, c')"
  shows "rc_prev_hash r = prior" "HashReceipt K r = Inr (rc_hash r)" "rc_step_id r = cs_step_id step"
    "ev_last_step c' = cs_step_id step" "ev_last_hash c' = rc_hash r" "0 < cs_step_id step" "rc_hash r \<noteq> []"
    "ev_held c' = rc_after r" "ev_envelope c' = rc_envelope_after r" "ev_session_id c' = ev_session_id c"
proof -
  from assms have "rc_prev_hash r = prior \<and> HashReceipt K r = Inr (rc_hash r) \<and> rc_step_id r = cs_step_id step
    \<and> ev_last_step c' = cs_step_id step \<and> ev_last_hash c' = rc_hash r \<and> 0 < cs_step_id step
    \<and> ev_held c' = rc_after r \<and> ev_envelope c' = rc_envelope_after r \<and> ev_session_id c' = ev_session_id c"
  proof (cases rule: eval_cases)
    case (sealed s attrib r')
    have "0 < cs_step_id step" using sealed(2) by (auto simp: chain_check_def split: if_splits)
    then show ?thesis using sealed seal_InrD [OF sealed(6)] seal_fields(5) [OF sealed(6)] by simp
  qed simp
  then show "rc_prev_hash r = prior" "HashReceipt K r = Inr (rc_hash r)" "rc_step_id r = cs_step_id step"
    "ev_last_step c' = cs_step_id step" "ev_last_hash c' = rc_hash r" "0 < cs_step_id step" "rc_hash r \<noteq> []"
    "ev_held c' = rc_after r" "ev_envelope c' = rc_envelope_after r" "ev_session_id c' = ev_session_id c"
    using receipt_hash_nonempty by blast+
qed

lemma eval_errorD: "Eval K fs c step prior = (Inl e, c') \<Longrightarrow> c' = c"
  by (elim eval_cases) auto

lemma account_step_inv:
  assumes "cap_inv st" and "account_step K fs mk st = ((oc, art), st')" and "\<And>n. cs_step_id (mk n) = n"
  shows "cap_inv st' \<and> cst_step st' = cst_step st + 1
    \<and> (case art of
         None \<Rightarrow> cst_last_hash st' = cst_last_hash st \<and> ev_last_step (cst_eval st') = ev_last_step (cst_eval st)
       | Some a \<Rightarrow> artifact_prev a = cst_last_hash st \<and> artifact_sealed K a \<and> artifact_step a = cst_step st'
                   \<and> artifact_hash a = cst_last_hash st' \<and> ev_last_step (cst_eval st') = artifact_step a)"
proof -
  obtain res c where ev: "Eval K fs (cst_eval st) (mk (cst_step st + 1)) (cst_last_hash st) = (res, c)"
    by (cases "Eval K fs (cst_eval st) (mk (cst_step st + 1)) (cst_last_hash st)")
  show ?thesis
  proof (cases res)
    case (Inr r)
    note d = eval_sealedD [OF ev [unfolded Inr]]
    show ?thesis using assms d ev Inr
      by (auto simp: account_step_def Let_def cap_inv_def expected_prior_def)
  next
    case (Inl e)
    note c = eval_errorD [OF ev [unfolded Inl]]
    show ?thesis
    proof (cases "NewPauseReceipt K (cs_session_id (mk (cst_step st + 1))) (cst_step st + 1) (cst_last_hash st) e")
      case (Inl x)
      then show ?thesis using assms ev \<open>res = Inl e\<close> c
        by (auto simp: account_step_def Let_def cap_inv_def expected_prior_def)
    next
      case (Inr pr)
      note p = pause_InrD [OF Inr]
      show ?thesis using assms ev \<open>res = Inl e\<close> c p Inr
        by (auto simp: account_step_def Let_def cap_inv_def expected_prior_def AdvanceAfterError_def)
    qed
  qed
qed

lemma account_run_chain:
  assumes "cap_inv st" and "\<And>mk fs n. (mk, fs) \<in> set steps \<Longrightarrow> cs_step_id (mk n) = n"
    and "account_run K steps st = (arts, st')"
  shows "receipt_chain K (cst_last_hash st) (ev_last_step (cst_eval st)) arts \<and> cap_inv st'
    \<and> cst_last_hash st' = chain_tip (cst_last_hash st) arts \<and> cst_step st' = cst_step st + int (length steps)"
  using assms
proof (induction steps arbitrary: st arts st')
  case (Cons x steps)
  obtain mk fs where x: "x = (mk, fs)" by (cases x)
  obtain oc art st1 where s1: "account_step K fs mk st = ((oc, art), st1)"
    by (metis prod.exhaust)
  obtain arts1 st2 where r1: "account_run K steps st1 = (arts1, st2)" by (cases "account_run K steps st1")
  have mk: "\<And>n. cs_step_id (mk n) = n" using Cons.prems(2) x by auto
  note inv = account_step_inv [OF Cons.prems(1) s1 mk]
  have inv1: "cap_inv st1" using inv by blast
  have rest: "\<And>mk fs n. (mk, fs) \<in> set steps \<Longrightarrow> cs_step_id (mk n) = n" using Cons.prems(2) by auto
  have IH: "receipt_chain K (cst_last_hash st1) (ev_last_step (cst_eval st1)) arts1 \<and> cap_inv st2
    \<and> cst_last_hash st2 = chain_tip (cst_last_hash st1) arts1 \<and> cst_step st2 = cst_step st1 + int (length steps)"
    by (rule Cons.IH [OF inv1 _ r1]) (rule rest)
  have eq: "arts = (case art of None \<Rightarrow> arts1 | Some a \<Rightarrow> a # arts1)" "st' = st2"
    using Cons.prems(3) x s1 r1 by simp_all
  show ?case
  proof (cases art)
    case None then show ?thesis using IH inv eq by simp
  next
    case (Some a)
    have "ev_last_step (cst_eval st) < artifact_step a"
      using Cons.prems(1) inv Some by (simp add: cap_inv_def)
    then show ?thesis using IH inv eq Some by simp
  qed
qed simp

lemma new_cap_inv: "newCapabilityEvaluator sid = Some st \<Longrightarrow> cap_inv st \<and> ev_last_step (cst_eval st) = 0 \<and> cst_last_hash st = GenesisPrevHash"
  by (auto simp: newCapabilityEvaluator_def NewChainEvaluator_def cap_inv_def expected_prior_def split: if_splits)

text \<open>The artifacts of a session form one hash chain from the genesis hash, whatever the calls are,
  whichever of them fail in the evaluator, and however the file system answers: each receipt or
  pause artifact is sealed, names the previous one as its predecessor and has a greater step
  number, and the proxy's last hash is the tip. So an error never forks the chain, and no later
  step is refused for its predecessor or as a replay.\<close>

theorem capability_receipts_chained:
  assumes "newCapabilityEvaluator sid = Some st"
    and "\<And>mk fs n. (mk, fs) \<in> set steps \<Longrightarrow> cs_step_id (mk n) = n \<and> cs_session_id (mk n) = sid"
    and "account_run K steps st = (arts, st')"
  shows "receipt_chain K GenesisPrevHash 0 arts \<and> cst_last_hash st' = chain_tip GenesisPrevHash arts
    \<and> (cs_session_id step = ev_session_id (cst_eval st') \<and> cs_step_id step = cst_step st' + 1 \<longrightarrow>
         chain_check (cst_eval st') step (cst_last_hash st') = None)"
proof -
  note n = new_cap_inv [OF assms(1)]
  have run: "receipt_chain K (cst_last_hash st) (ev_last_step (cst_eval st)) arts \<and> cap_inv st'
    \<and> cst_last_hash st' = chain_tip (cst_last_hash st) arts \<and> cst_step st' = cst_step st + int (length steps)"
    using account_run_chain [OF _ _ assms(3)] n assms(2) by blast
  then have inv: "cap_inv st'" by blast
  have "cs_session_id step = ev_session_id (cst_eval st') \<and> cs_step_id step = cst_step st' + 1 \<longrightarrow>
         chain_check (cst_eval st') step (cst_last_hash st') = None"
    using inv by (auto simp: cap_inv_def chain_check_def)
  then show ?thesis using run n by simp
qed

definition demo_steps :: "((int \<Rightarrow> cap_step) \<times> fs_env) list" where
  "demo_steps =
     [(\<lambda>n. observed_step rooted_policy ''s'' n (tool_call ''read_file'') [(''path'', JStr ''/w/a'')], link_fs),
      (\<lambda>n. observed_step rooted_policy ''s'' n (tool_call ''exec'') [(''cmd'', JStr ''sh -c id'')], link_fs),
      (\<lambda>n. observed_step rooted_policy ''s'' n (tool_call ''bash'') [], link_fs)]"

theorem capability_receipts_chained_witness:
  "case newCapabilityEvaluator ''s'' of
     None \<Rightarrow> False
   | Some st \<Rightarrow>
       receipt_chain plain_codec GenesisPrevHash 0 (fst (account_run plain_codec demo_steps st))
       \<and> length (fst (account_run plain_codec demo_steps st)) = 3"
proof -
  obtain st where st: "newCapabilityEvaluator ''s'' = Some st"
    by (simp add: newCapabilityEvaluator_def NewChainEvaluator_def)
  obtain arts st' where r: "account_run plain_codec demo_steps st = (arts, st')" by (cases "account_run plain_codec demo_steps st")
  have len: "length (fst (account_run plain_codec demo_steps (the (newCapabilityEvaluator ''s'')))) = 3" by code_simp
  have "\<And>mk fs n. (mk, fs) \<in> set demo_steps \<Longrightarrow> cs_step_id (mk n) = n \<and> cs_session_id (mk n) = ''s''"
    by (auto simp: demo_steps_def)
  then show ?thesis using capability_receipts_chained [OF st _ r] st r len by simp
qed
section \<open>Held capabilities\<close>

definition held_ok :: "chain_evaluator \<Rightarrow> bool" where
  "held_ok c \<longleftrightarrow> ev_held c = filter (\<lambda>x. x \<in> set (ev_held c)) lattice \<and> CapReadSandboxMem \<in> set (ev_held c)"

lemma union_lattice_idem: "unionLattice b d = filter (\<lambda>x. x \<in> set (unionLattice b d)) lattice"
  by (auto simp: unionLattice_def intro!: filter_cong)

lemma held_subset_lattice: "held_ok c \<Longrightarrow> set (ev_held c) \<subseteq> set lattice"
  unfolding held_ok_def by (metis filter_is_subset)

lemma union_grows:
  assumes "held_ok c"
  shows "set (ev_held c) \<subseteq> set (unionLattice (ev_held c) d)"
  using held_subset_lattice [OF assms] by (auto simp: unionLattice_def)

lemma eval_held:
  assumes "held_ok c" and "Eval K fs c step prior = (res, c')"
  shows "held_ok c' \<and> set (ev_held c) \<subseteq> set (ev_held c')
    \<and> (ev_envelope c = EnvelopeStateBoundaryCrossing \<longrightarrow> ev_envelope c' = EnvelopeStateBoundaryCrossing)
    \<and> ((\<exists>r. res = Inr r \<and> rc_decision r \<noteq> DecisionAllow) \<longrightarrow> ev_envelope c' = EnvelopeStateBoundaryCrossing)"
  using assms(2)
proof (cases rule: eval_cases)
  case (sealed s attrib r)
  note f = seal_fields [OF sealed(6)]
  have h: "ev_held c' = unionLattice (ev_held c) (confirmedDelta (observed_signals K fs step) attrib (ev_held c))"
    using sealed(7) f(2) by simp
  have "held_ok c'"
    using union_lattice_idem union_grows [OF assms(1)] assms(1) unfolding held_ok_def h by blast
  moreover have "set (ev_held c) \<subseteq> set (ev_held c')" unfolding h by (rule union_grows [OF assms(1)])
  ultimately show ?thesis using sealed(1,7) f(1,10) by auto
qed (use assms(1) in simp)

lemma advance_fields [simp]:
  "ev_held (AdvanceAfterError n h c) = ev_held c" "ev_envelope (AdvanceAfterError n h c) = ev_envelope c"
  by (simp_all add: AdvanceAfterError_def)

lemma held_ok_advance [simp]: "held_ok (AdvanceAfterError n h c) = held_ok c"
  by (simp add: held_ok_def)

lemma account_step_held:
  assumes "held_ok (cst_eval st)" and "account_step K fs mk st = ((oc, art), st')"
  shows "held_ok (cst_eval st') \<and> set (ev_held (cst_eval st)) \<subseteq> set (ev_held (cst_eval st'))
    \<and> (ev_envelope (cst_eval st) = EnvelopeStateBoundaryCrossing \<longrightarrow> ev_envelope (cst_eval st') = EnvelopeStateBoundaryCrossing)
    \<and> ((\<exists>r. art = Some (Receipt r) \<and> rc_decision r \<noteq> DecisionAllow) \<longrightarrow> ev_envelope (cst_eval st') = EnvelopeStateBoundaryCrossing)"
proof -
  obtain res c where ev: "Eval K fs (cst_eval st) (mk (cst_step st + 1)) (cst_last_hash st) = (res, c)"
    by (cases "Eval K fs (cst_eval st) (mk (cst_step st + 1)) (cst_last_hash st)")
  note h = eval_held [OF assms(1) ev]
  show ?thesis
  proof (cases res)
    case (Inr r) then show ?thesis using assms(2) ev h by (auto simp: account_step_def Let_def)
  next
    case (Inl e) then show ?thesis using assms(2) ev h by (auto simp: account_step_def Let_def split: sum.splits)
  qed
qed

lemma account_run_held:
  assumes "held_ok (cst_eval st)" and "account_run K steps st = (arts, st')"
  shows "held_ok (cst_eval st') \<and> set (ev_held (cst_eval st)) \<subseteq> set (ev_held (cst_eval st'))
    \<and> (ev_envelope (cst_eval st) = EnvelopeStateBoundaryCrossing
        \<or> (\<exists>r. Receipt r \<in> set arts \<and> rc_decision r \<noteq> DecisionAllow) \<longrightarrow>
        ev_envelope (cst_eval st') = EnvelopeStateBoundaryCrossing)"
  using assms
proof (induction steps arbitrary: st arts st')
  case (Cons x steps)
  obtain mk fs where x: "x = (mk, fs)" by (cases x)
  obtain oc art st1 where s1: "account_step K fs mk st = ((oc, art), st1)" by (metis prod.exhaust)
  obtain arts1 st2 where r1: "account_run K steps st1 = (arts1, st2)" by (cases "account_run K steps st1")
  note h = account_step_held [OF Cons.prems(1) s1]
  have ok: "held_ok (cst_eval st1)" using h by blast
  note IH = Cons.IH [OF ok r1]
  have eq: "set arts = set arts1 \<union> (case art of None \<Rightarrow> {} | Some a \<Rightarrow> {a})" "st' = st2"
    using Cons.prems(2) x s1 r1 by (auto split: option.splits)
  show ?case using h IH unfolding eq by (cases art) auto
qed simp

text \<open>Held capabilities only accumulate: through any calls they stay a sublist of the lattice in its
  order, keep the baseline and everything held before, and once a call left the envelope the
  session stays in the boundary-crossing state.\<close>

theorem capabilities_accumulate:
  assumes "newCapabilityEvaluator sid = Some st0"
    and "account_run K steps st0 = (arts, st)" and "account_run K steps' st = (arts', st')"
  shows "ev_held (cst_eval st') = filter (\<lambda>c. c \<in> set (ev_held (cst_eval st'))) lattice
    \<and> CapReadSandboxMem \<in> set (ev_held (cst_eval st'))
    \<and> set (ev_held (cst_eval st)) \<subseteq> set (ev_held (cst_eval st'))
    \<and> ((\<exists>r. Receipt r \<in> set arts \<and> rc_decision r \<noteq> DecisionAllow) \<longrightarrow>
         ev_envelope (cst_eval st') = EnvelopeStateBoundaryCrossing)"
proof -
  have "held_ok (cst_eval st0)" using assms(1)
    by (auto simp: newCapabilityEvaluator_def NewChainEvaluator_def held_ok_def lattice_def cap_defs split: if_splits)
  note a = account_run_held [OF this assms(2)]
  then have "held_ok (cst_eval st)" by blast
  note b = account_run_held [OF this assms(3)]
  show ?thesis using a b by (auto simp: held_ok_def)
qed

lemma account_pause:
  assumes "capability_pause (fst (fst (account_step K fs mk st))) = []"
  shows "\<exists>r. fst (Eval K fs (cst_eval st) (mk (cst_step st + 1)) (cst_last_hash st)) = Inr r \<and> rc_decision r = DecisionAllow"
proof -
  obtain res c where ev: "Eval K fs (cst_eval st) (mk (cst_step st + 1)) (cst_last_hash st) = (res, c)"
    by (cases "Eval K fs (cst_eval st) (mk (cst_step st + 1)) (cst_last_hash st)")
  show ?thesis
  proof (cases res)
    case (Inl e) then show ?thesis using assms ev
      by (auto simp: account_step_def Let_def capability_pause_def split: sum.splits)
  next
    case (Inr r)
    have "rc_decision r \<noteq> DecisionPauseRequireProof" using assms ev Inr
      by (auto simp: account_step_def Let_def capability_pause_def)
    moreover have "rc_decision r = DecisionAllow \<or> rc_decision r = DecisionPauseRequireProof"
      using ev unfolding Inr
    proof (cases rule: eval_cases)
      case (sealed s attrib r') then show ?thesis using seal_fields(1) [OF sealed(6)] by (auto split: if_splits)
    qed simp
    ultimately show ?thesis using ev Inr by simp
  qed
qed

section \<open>A nested shell\<close>

text \<open>A shell inside an argument list: the accounting of the call ends in a pause.\<close>

definition shell_args :: args where
  "shell_args = [(''args'', JArr [JStr ''-x'', JObj [(''then'', JStr ''cd /; sh -c id'')]])]"

definition shell_outcome :: cap_outcome where
  "shell_outcome = fst (fst (account_step plain_codec link_fs
     (\<lambda>n. observed_step rooted_policy ''s'' n (tool_call ''run'') shell_args)
     \<lparr>cst_eval = fresh_evaluator, cst_step = 0, cst_last_hash = GenesisPrevHash\<rparr>))"

lemma shell_outcome_pauses:
  obtains h where "shell_outcome = CapError (Some h)"
proof -
  have "case shell_outcome of CapError (Some h) \<Rightarrow> True | _ \<Rightarrow> False" by code_simp
  then show ?thesis using that by (auto split: cap_outcome.splits option.splits)
qed

end
