(* ===== verification/Capability_Receipts.thy ===== *)
theory Capability_Receipts
  imports Capability_Properties
begin

text \<open>
  Receipt lines (\<^verbatim>\<open>src/internal/capability/receipt.go\<close>): \<^verbatim>\<open>Encode\<close>, the strict \<^verbatim>\<open>Decode\<close> with its
  scan for duplicate keys, and \<^verbatim>\<open>Validate\<close>. A line is accepted only in its canonical bytes.
\<close>

definition newline :: char where "newline = CHR 0x0A"

definition Encode :: "cap_codec \<Rightarrow> receipt \<Rightarrow> cap_error + string" where
  "Encode K r =
     (case ck_marshal K r of None \<Rightarrow> Inl (InternalError ''capability encode'') | Some data \<Rightarrow> Inr (data @ [newline]))"

definition Validate_receipt :: "cap_codec \<Rightarrow> receipt \<Rightarrow> cap_error + unit" where
  "Validate_receipt K r =
     (if rc_version r \<noteq> ReceiptVersion then Inl (InvalidStep ''unknown receipt version'')
      else if rc_session_id r = [] then Inl (InvalidStep ''empty session_id'')
      else if rc_step_id r \<le> 0 then Inl (InvalidStep ''non-positive step_id'')
      else if rc_decision r \<noteq> DecisionAllow \<and> rc_decision r \<noteq> DecisionPauseRequireProof
      then Inl (InvalidStep ''unknown decision'')
      else if rc_prev_hash r = [] \<or> rc_hash r = [] then Inl (InvalidStep ''chain fields missing'')
      else case HashReceipt K r of
        Inl e \<Rightarrow> Inl e
      | Inr want \<Rightarrow> if rc_hash r \<noteq> want then Inl (InvalidStep ''hash mismatch'') else Inr ())"

definition strip_newline :: "string \<Rightarrow> string" where
  "strip_newline data = (if data \<noteq> [] \<and> last data = newline then butlast data else data)"

definition isCanonicalLine :: "string \<Rightarrow> bool" where
  "isCanonicalLine data \<longleftrightarrow>
     (let d = strip_newline data
      in data \<noteq> [] \<and> d \<noteq> [] \<and> hd d = CHR ''{'' \<and> last d = CHR ''}'')"

section \<open>Duplicate keys\<close>

definition json_space :: "char \<Rightarrow> bool" where
  "json_space c \<longleftrightarrow> c \<in> {CHR '' '', CHR 0x09, CHR 0x0A, CHR 0x0D}"

text \<open>The body of a string literal after its opening quote: the bytes up to and with the closing
  quote, and what follows; None when it does not end.\<close>

fun string_end :: "string \<Rightarrow> (string \<times> string) option" where
  "string_end [] = None"
| "string_end (c # s) =
     (if c = CHR 0x22 then Some ([c], s)
      else if c = CHR 0x5C then
        (case s of
           [] \<Rightarrow> None
         | d # s' \<Rightarrow> map_option (\<lambda>(w, r). (c # d # w, r)) (string_end s'))
      else map_option (\<lambda>(w, r). (c # w, r)) (string_end s))"

definition literal_end :: "char \<Rightarrow> bool" where
  "literal_end c \<longleftrightarrow> c \<in> {CHR '','', CHR ''}'', CHR '']'', CHR ''{'', CHR ''['', CHR '':'', CHR 0x22} \<or> json_space c"

lemma string_end_shorter: "string_end s = Some (w, r) \<Longrightarrow> length r < length s"
  by (induction s arbitrary: w r rule: string_end.induct) (fastforce split: if_splits list.splits)+

function check_keys :: "string list list \<Rightarrow> string \<Rightarrow> cap_error + unit" where
  "check_keys stack [] = (if stack \<noteq> [] then Inl (InvalidStep ''unclosed object'') else Inr ())"
| "check_keys stack (c # s) =
     (if c = CHR ''{'' then check_keys ([] # stack) s
      else if c = CHR ''}'' then
        (case stack of [] \<Rightarrow> Inl (InvalidStep ''unbalanced object'') | _ # rest \<Rightarrow> check_keys rest s)
      else if c = CHR 0x22 then
        (case string_end s of
           None \<Rightarrow> Inl (InvalidStep ''unterminated string'')
         | Some (w, r) \<Rightarrow>
             (case dropWhile json_space r of
                d # _ \<Rightarrow>
                  if d = CHR '':'' then
                    (case stack of
                       [] \<Rightarrow> Inl (InvalidStep ''key outside object'')
                     | ks # rest \<Rightarrow>
                         if c # w \<in> set ks then Inl (InvalidStep ''duplicate key'')
                         else check_keys (((c # w) # ks) # rest) r)
                  else check_keys stack r
              | [] \<Rightarrow> check_keys stack r))
      else if c \<in> {CHR ''['', CHR '']'', CHR '','', CHR '':''} \<or> json_space c then check_keys stack s
      else check_keys stack (dropWhile (\<lambda>d. \<not> literal_end d) s))"
  by pat_completeness auto
termination
  by (relation "measure (\<lambda>(stack, s). length s)")
     (auto dest: string_end_shorter simp: less_Suc_eq_le length_dropWhile_le)

definition checkNoDuplicateKeys :: "string \<Rightarrow> cap_error + unit" where
  "checkNoDuplicateKeys data = check_keys [] data"

section \<open>Decoding\<close>

definition Decode :: "cap_codec \<Rightarrow> string \<Rightarrow> cap_error + receipt" where
  "Decode K line =
     (if line = [] then Inl (InvalidStep ''empty input'')
      else let data = strip_newline line in
      if data = [] then Inl (InvalidStep ''empty input after line terminator'')
      else if hd data \<noteq> CHR ''{'' then Inl (InvalidStep ''leading whitespace or non-object start'')
      else if \<not> isCanonicalLine data then Inl (InvalidStep ''non-canonical line'')
      else case checkNoDuplicateKeys data of Inl e \<Rightarrow> Inl e | Inr _ \<Rightarrow>
      case ck_unmarshal K data of None \<Rightarrow> Inl (InvalidStep ''decode'') | Some r \<Rightarrow>
      case Validate_receipt K r of Inl e \<Rightarrow> Inl e | Inr _ \<Rightarrow>
      case Encode K r of Inl _ \<Rightarrow> Inl (InvalidStep ''re-encode'') | Inr canon \<Rightarrow>
      if strip_newline canon \<noteq> data then Inl (InvalidStep ''non-canonical receipt'') else Inr r)"

lemma strip_newline_snoc [simp]: "strip_newline (d @ [newline]) = d"
  by (simp add: strip_newline_def)

lemma strip_newline_cases: "line = strip_newline line \<or> line = strip_newline line @ [newline]"
  by (cases line rule: rev_cases) (auto simp: strip_newline_def)

lemma decode_InrD:
  assumes "Decode K line = Inr r"
  shows "Validate_receipt K r = Inr ()" "ck_marshal K r = Some (strip_newline line)"
    "ck_unmarshal K (strip_newline line) = Some r"
proof -
  have "Validate_receipt K r = Inr () \<and> ck_marshal K r = Some (strip_newline line) \<and> ck_unmarshal K (strip_newline line) = Some r"
    using assms unfolding Decode_def Let_def
    by (auto simp: Encode_def split: if_splits sum.splits option.splits)
  then show "Validate_receipt K r = Inr ()" "ck_marshal K r = Some (strip_newline line)"
    "ck_unmarshal K (strip_newline line) = Some r" by blast+
qed

text \<open>A receipt line is accepted only in its canonical bytes: a decoded receipt has valid fields and
  the right hash, encoding it gives back the line (with the line terminator if it was missing), and
  two accepted lines that decode to the same receipt are equal up to that terminator.\<close>

theorem decode_canonical:
  assumes "Decode K line = Inr r"
  shows "(Encode K r = Inr line \<or> Encode K r = Inr (line @ [newline]))
    \<and> HashReceipt K r = Inr (rc_hash r) \<and> 0 < rc_step_id r \<and> rc_session_id r \<noteq> [] \<and> rc_version r = ReceiptVersion
    \<and> (Decode K line' = Inr r \<longrightarrow> strip_newline line' = strip_newline line)"
proof -
  note d = decode_InrD [OF assms]
  have enc: "Encode K r = Inr (strip_newline line @ [newline])" using d(2) by (simp add: Encode_def)
  have "Decode K line' = Inr r \<longrightarrow> strip_newline line' = strip_newline line"
    using d(2) decode_InrD(2) [of K line' r] by auto
  moreover have "Encode K r = Inr line \<or> Encode K r = Inr (line @ [newline])"
    using enc strip_newline_cases [of line] by metis
  ultimately show ?thesis using d(1)
    by (auto simp: Validate_receipt_def split: if_splits sum.splits)
qed

section \<open>Round trip\<close>

text \<open>What is relied on from \<^verbatim>\<open>encoding/json\<close> for a receipt: it is written as one object without
  duplicate keys that starts and ends with its braces, the field tagged \<^verbatim>\<open>json:"-"\<close> is not written,
  and reading gives the other fields back.\<close>

definition codec_faithful :: "cap_codec \<Rightarrow> receipt \<Rightarrow> bool" where
  "codec_faithful K r \<longleftrightarrow>
     (\<forall>r' x. ck_marshal K (r'\<lparr>rc_confirmation := x\<rparr>) = ck_marshal K r')
     \<and> (case ck_marshal K r of
          None \<Rightarrow> False
        | Some d \<Rightarrow> d \<noteq> [] \<and> hd d = CHR ''{'' \<and> last d = CHR ''}'' \<and> checkNoDuplicateKeys d = Inr ()
                    \<and> ck_unmarshal K d = Some (r\<lparr>rc_confirmation := []\<rparr>))"

lemma hash_ignores_confirmation:
  assumes "codec_faithful K r"
  shows "HashReceipt K (q\<lparr>rc_confirmation := x\<rparr>) = HashReceipt K q"
proof -
  have "ck_marshal K ((q\<lparr>rc_hash := []\<rparr>)\<lparr>rc_confirmation := x\<rparr>) = ck_marshal K (q\<lparr>rc_hash := []\<rparr>)"
    using assms by (simp only: codec_faithful_def)
  moreover have "(q\<lparr>rc_confirmation := x\<rparr>)\<lparr>rc_hash := []\<rparr> = (q\<lparr>rc_hash := []\<rparr>)\<lparr>rc_confirmation := x\<rparr>" by simp
  ultimately show ?thesis unfolding HashReceipt_def by (simp only:)
qed

lemma sealed_receipt_valid:
  assumes "fst (Eval K fs c step prior) = Inr r" and "ev_session_id c \<noteq> []"
  shows "Validate_receipt K r = Inr ()"
proof -
  obtain res c' where ev: "Eval K fs c step prior = (res, c')" by (cases "Eval K fs c step prior")
  show ?thesis using ev
  proof (cases rule: eval_cases)
    case (sealed s attrib r')
    then have r: "r' = r" using assms(1) ev by simp
    note f = seal_fields [OF sealed(6)] and h = seal_InrD [OF sealed(6)]
    have "0 < cs_step_id step" "cs_session_id step \<noteq> []"
      using sealed(2) assms(2) by (auto simp: chain_check_def split: if_splits)
    moreover have "rc_hash r' \<noteq> []" using h(3) by (auto simp: HashReceipt_def split: option.splits)
    ultimately show ?thesis using f(1,5,6,8) h r by (simp add: Validate_receipt_def)
  qed (use assms(1) ev in simp)
qed

text \<open>Every receipt the evaluator seals survives the round trip through its line: encoding gives a
  line, and decoding that line accepts it and gives back the receipt (without the confirmation,
  which is not written).\<close>

theorem receipt_roundtrip:
  assumes "fst (Eval K fs c step prior) = Inr r" and "ev_session_id c \<noteq> []" and "codec_faithful K r"
  shows "\<exists>line. Encode K r = Inr line \<and> Decode K line = Inr (r\<lparr>rc_confirmation := []\<rparr>)"
proof -
  obtain d where d: "ck_marshal K r = Some d" "d \<noteq> []" "hd d = CHR ''{''" "last d = CHR ''}''"
    "checkNoDuplicateKeys d = Inr ()" "ck_unmarshal K d = Some (r\<lparr>rc_confirmation := []\<rparr>)"
    using assms(3) by (auto simp: codec_faithful_def split: option.splits)
  have m: "ck_marshal K (r\<lparr>rc_confirmation := []\<rparr>) = Some d" using assms(3) d(1) by (simp add: codec_faithful_def)
  have v: "Validate_receipt K (r\<lparr>rc_confirmation := []\<rparr>) = Inr ()"
  proof -
    have "Validate_receipt K (r\<lparr>rc_confirmation := []\<rparr>) = Validate_receipt K r"
      using hash_ignores_confirmation [OF assms(3), where q = r and x = "[]"]
      by (simp add: Validate_receipt_def split: sum.split)
    then show ?thesis using sealed_receipt_valid [OF assms(1,2)] by simp
  qed
  have nn: "last d \<noteq> newline" using d(4) by (simp add: newline_def)
  then have "strip_newline d = d" by (simp add: strip_newline_def)
  then have "isCanonicalLine d" using d by (simp add: isCanonicalLine_def Let_def)
  then have "Decode K (d @ [newline]) = Inr (r\<lparr>rc_confirmation := []\<rparr>)"
    using d m v by (simp add: Decode_def Let_def Encode_def)
  then show ?thesis using d(1) by (auto simp: Encode_def)
qed

definition demo_receipt :: receipt where
  "demo_receipt =
     \<lparr>rc_version = 1, rc_session_id = ''s'', rc_step_id = 1,
      rc_declared = normalizeDeclaredAuthority (cs_declared exec_step),
      rc_signals = [exec_signal (\<lambda>s. ''0'') exec_step, egress_signal (\<lambda>s. ''0'') exec_step],
      rc_before = [CapReadSandboxMem], rc_delta = [CapHostExec, CapNetEgress],
      rc_after = [CapReadSandboxMem, CapHostExec, CapNetEgress], rc_observed = CapNetEgress,
      rc_nominal_changed = False, rc_effective_changed = True,
      rc_envelope_before = EnvelopeStateHigh, rc_envelope_after = EnvelopeStateHigh,
      rc_transition = ''HIGH -> HIGH'', rc_decision = DecisionAllow, rc_reason = [], rc_required_proof = None,
      rc_prev_hash = GenesisPrevHash, rc_hash = ''sha256:0'', rc_provisional = None,
      rc_confirmation = ConfirmationConfirmed\<rparr>"

definition demo_line :: "string \<Rightarrow> string" where
  "demo_line h = [CHR ''{'', CHR 0x22, CHR ''h'', CHR 0x22, CHR '':'', CHR 0x22] @ h @ [CHR 0x22, CHR ''}'']"

definition demo_codec :: cap_codec where
  "demo_codec =
     \<lparr>ck_sha = (\<lambda>s. ''0''), ck_marshal = (\<lambda>r. Some (demo_line (rc_hash r))),
      ck_marshal_pause = (\<lambda>r. Some (demo_line (pr_hash r))),
      ck_unmarshal = (\<lambda>s. if s = demo_line ''sha256:0'' then Some (demo_receipt\<lparr>rc_confirmation := []\<rparr>) else None)\<rparr>"

lemma demo_eval: "fst (Eval demo_codec link_fs first_evaluator exec_step GenesisPrevHash) = Inr demo_receipt"
  by code_simp

lemma demo_codec_faithful: "codec_faithful demo_codec demo_receipt"
proof -
  have "ck_marshal demo_codec demo_receipt = Some (demo_line ''sha256:0'')" by code_simp
  moreover have "demo_line ''sha256:0'' \<noteq> []" "hd (demo_line ''sha256:0'') = CHR ''{''" by code_simp+
  moreover have "last (demo_line ''sha256:0'') = CHR ''}''" by code_simp
  moreover have "checkNoDuplicateKeys (demo_line ''sha256:0'') = Inr ()" by code_simp
  ultimately show ?thesis by (simp add: codec_faithful_def) (simp add: demo_codec_def)
qed

theorem receipt_roundtrip_witness:
  "\<exists>line. Encode demo_codec demo_receipt = Inr line \<and> Decode demo_codec line = Inr (demo_receipt\<lparr>rc_confirmation := []\<rparr>)"
proof -
  have "ev_session_id first_evaluator \<noteq> []" by code_simp
  then show ?thesis by (rule receipt_roundtrip [OF demo_eval _ demo_codec_faithful])
qed

theorem decode_canonical_witness:
  "Encode demo_codec (demo_receipt\<lparr>rc_confirmation := []\<rparr>) = Inr (demo_line ''sha256:0'')
   \<or> Encode demo_codec (demo_receipt\<lparr>rc_confirmation := []\<rparr>) = Inr (demo_line ''sha256:0'' @ [newline])"
proof -
  have "Decode demo_codec (demo_line ''sha256:0'') = Inr (demo_receipt\<lparr>rc_confirmation := []\<rparr>)" by code_simp
  from decode_canonical [OF this] show ?thesis by blast
qed

end
