(* ===== verification/Printed_Numbers.thy ===== *)
theory Printed_Numbers
  imports Net_Address
begin

text \<open>
  Facts on decimal numbers in strings (\<^verbatim>\<open>strconv.Itoa\<close>, \<^verbatim>\<open>strconv.FormatUint\<close>, the \<^verbatim>\<open>%d\<close> verb):
  printing is injective, its length is bounded, and a field after its printed length can be read
  back. Keys and signed payloads built by printing rest on them.
\<close>

section \<open>Printed numbers\<close>

lemma digits_value_snoc: "digits_value (s @ [c]) = 10 * digits_value s + (int (byte c) - 48)"
  by (simp add: digits_value_def)

lemma digits_value_nat: "digits_value (nat_to_string n) = int n"
proof (induction n rule: nat_to_string.induct)
  case (1 n)
  show ?case
  proof (cases "n < 10")
    case True then show ?thesis by (subst nat_to_string.simps) (simp add: digits_value_def digit_char)
  next
    case False
    have "digits_value (nat_to_string n) = 10 * int (n div 10) + int (n mod 10)"
      using False 1 by (subst nat_to_string.simps) (simp add: digits_value_snoc digit_char)
    also have "\<dots> = int (10 * (n div 10) + n mod 10)" by (simp only: of_nat_add of_nat_mult of_nat_numeral)
    finally show ?thesis by (simp only: mult_div_mod_eq)
  qed
qed

lemma itoa_inj_nonneg: "0 \<le> i \<Longrightarrow> 0 \<le> j \<Longrightarrow> itoa i = itoa j \<Longrightarrow> i = j"
proof -
  assume h: "0 \<le> i" "0 \<le> j" "itoa i = itoa j"
  then have "nat_to_string (nat i) = nat_to_string (nat j)" by (simp add: itoa_def)
  then have "int (nat i) = int (nat j)" using digits_value_nat [of "nat i"] digits_value_nat [of "nat j"] by metis
  then show "i = j" using h by simp
qed

lemma nat_to_string_length: "n < 10 ^ Suc k \<Longrightarrow> length (nat_to_string n) \<le> Suc k"
proof (induction k arbitrary: n)
  case 0 then show ?case by (subst nat_to_string.simps) simp
next
  case (Suc k)
  show ?case
  proof (cases "n < 10")
    case True then show ?thesis by (subst nat_to_string.simps) simp
  next
    case False
    have "n div 10 < 10 ^ Suc k" using Suc.prems by (simp add: div_less_iff_less_mult)
    then show ?thesis using Suc.IH [of "n div 10"] False by (subst nat_to_string.simps) simp
  qed
qed

lemma nat_to_string_digits: "c \<in> set (nat_to_string n) \<Longrightarrow> is_digit_ascii c"
proof (induction n rule: nat_to_string.induct)
  case (1 n)
  show ?case
  proof (cases "n < 10")
    case True
    then show ?thesis using 1(2) by (subst (asm) nat_to_string.simps) (simp add: digit_char)
  next
    case False
    then show ?thesis using 1 by (subst (asm) nat_to_string.simps) (auto simp: digit_char)
  qed
qed

lemma itoa_nat_inj: "itoa (int m) = itoa (int n) \<Longrightarrow> m = n"
  using itoa_inj_nonneg [of "int m" "int n"] by simp

lemma itoa_nat_digits: "c \<in> set (itoa (int n)) \<Longrightarrow> is_digit_ascii c"
  by (simp add: itoa_def nat_to_string_digits)

lemma digit_prefix_inj:
  assumes "xs @ c # s = ys @ c # t" and "\<And>x. x \<in> set xs \<Longrightarrow> is_digit_ascii x" and "\<And>y. y \<in> set ys \<Longrightarrow> is_digit_ascii y"
    and "\<not> is_digit_ascii c"
  shows "xs = ys \<and> s = t"
  using assms(1-3)
proof (induction xs arbitrary: ys)
  case Nil
  then show ?case using assms(4) by (cases ys) auto
next
  case (Cons x xs)
  obtain y ys' where y: "ys = y # ys'" using Cons.prems assms(4) by (cases ys) auto
  with Cons.prems Cons.IH [of ys'] show ?case by simp
qed

text \<open>A field behind its length: the length in decimal, a non-digit, the bytes.\<close>

definition length_prefixed :: "char \<Rightarrow> string \<Rightarrow> string" where
  "length_prefixed c s = itoa (int (length s)) @ c # s"

lemma length_prefixed_inj:
  assumes "length_prefixed c a @ s = length_prefixed c b @ t" and "\<not> is_digit_ascii c"
  shows "a = b \<and> s = t"
proof -
  have e: "itoa (int (length a)) @ c # (a @ s) = itoa (int (length b)) @ c # (b @ t)"
    using assms(1) by (simp add: length_prefixed_def)
  have "itoa (int (length a)) = itoa (int (length b)) \<and> a @ s = b @ t"
    by (rule digit_prefix_inj [OF e _ _ assms(2)]) (auto dest: itoa_nat_digits)
  then have "itoa (int (length a)) = itoa (int (length b))" and r: "a @ s = b @ t" by blast+
  then have "length a = length b" by (intro itoa_nat_inj)
  with r show ?thesis by (simp add: append_eq_append_conv)
qed

end
