(* ===== verification/Kill_Switch.thy ===== *)
theory Kill_Switch
  imports Printed_Numbers
begin

text \<open>
  The kill switch (\<^verbatim>\<open>src/internal/killswitch/control.go\<close>) and its enforcement in the proxy
  (\<^verbatim>\<open>src/internal/proxy/kinetic_stop.go\<close>). A controller publishes a signed command that revokes a
  session through an epoch; the monitor of the session polls it, stops the session on a revocation
  and on every defect of the control channel, and records the revocation in a signed state file that
  refuses later starts.

  Epochs are 64-bit words. The control directory is part of the state: whether it is acceptable
  (type, permissions, owner) and the contents of the two files of the session. HMAC-SHA256,
  SHA-256, the JSON encoding of commands and states, and the decoder (\<^verbatim>\<open>decodeControl\<close>, which
  refuses duplicate and unknown keys and trailing data) are the fields of kill_lib.
\<close>

section \<open>Data\<close>

type_synonym epoch = "64 word"

record kill_command =
  kc_schema_version :: int
  kc_command_id :: string
  kc_session_id :: string
  kc_revoke_through :: epoch
  kc_controller_id :: string
  kc_reason :: string
  kc_signature :: string

record kill_state =
  ks_schema_version :: int
  ks_session_id :: string
  ks_revoked_through :: epoch
  ks_command_id :: string
  ks_controller_id :: string
  ks_reason :: string
  ks_observed_at :: string
  ks_resulting_state :: string
  ks_request_sha256 :: string
  ks_signature :: string

record kill_stop =
  sp_command :: kill_command
  sp_request_sha256 :: string
  sp_observed_at :: string
  sp_resulting_state :: string

record kill_lib =
  kl_hmac_hex :: "string \<Rightarrow> string \<Rightarrow> string"
  kl_sha256_hex :: "string \<Rightarrow> string"
  kl_marshal_state :: "kill_state \<Rightarrow> string option"
  kl_decode_state :: "string \<Rightarrow> kill_state option"
  kl_marshal_command :: "kill_command \<Rightarrow> string option"
  kl_decode_command :: "string \<Rightarrow> kill_command option"

definition KillSchemaVersion :: int where "KillSchemaVersion = 1"
definition MaxReasonBytes :: nat where "MaxReasonBytes = 512"
definition commandMACCtx :: string where "commandMACCtx = ''mcp-visor-kinetic-command-v1''"
definition stateMACCtx :: string where "stateMACCtx = ''mcp-visor-kinetic-state-v1''"

datatype kill_error = PreviouslyRevoked | ControlUnavailable | ControlInvalid | Unauthorized | InvalidInput | IOFailed

section \<open>Well-formed fields\<close>

definition cont :: "nat \<Rightarrow> nat \<Rightarrow> char \<Rightarrow> bool" where
  "cont lo hi c \<longleftrightarrow> lo \<le> byte c \<and> byte c \<le> hi"

text \<open>\<^verbatim>\<open>utf8.ValidString\<close>.\<close>

fun utf8_valid :: "string \<Rightarrow> bool" where
  "utf8_valid [] = True"
| "utf8_valid (a # s) =
     (if byte a < 128 then utf8_valid s
      else case s of
        [] \<Rightarrow> False
      | b # s1 \<Rightarrow>
          if 194 \<le> byte a \<and> byte a \<le> 223 then cont 128 191 b \<and> utf8_valid s1
          else (case s1 of
            [] \<Rightarrow> False
          | c # s2 \<Rightarrow>
              if 224 \<le> byte a \<and> byte a \<le> 239
              then cont (if byte a = 224 then 160 else 128) (if byte a = 237 then 159 else 191) b
                   \<and> cont 128 191 c \<and> utf8_valid s2
              else (case s2 of
                [] \<Rightarrow> False
              | d # s3 \<Rightarrow>
                  240 \<le> byte a \<and> byte a \<le> 244
                  \<and> cont (if byte a = 240 then 144 else 128) (if byte a = 244 then 143 else 191) b
                  \<and> cont 128 191 c \<and> cont 128 191 d \<and> utf8_valid s3)))"

definition validID :: "string \<Rightarrow> bool" where
  "validID s \<longleftrightarrow> s \<noteq> [] \<and> length s \<le> 256 \<and> CHR 0x00 \<notin> set s"

definition validReason :: "string \<Rightarrow> bool" where
  "validReason s \<longleftrightarrow> s \<noteq> [] \<and> length s \<le> MaxReasonBytes \<and> utf8_valid s \<and> CHR 0x00 \<notin> set s"

definition isLowerHex :: "string \<Rightarrow> nat \<Rightarrow> bool" where
  "isLowerHex s n \<longleftrightarrow> length s = n \<and> list_all (\<lambda>c. is_digit_ascii c \<or> cont 97 102 c) s"

definition validateCommand :: "kill_command \<Rightarrow> bool \<Rightarrow> bool" where
  "validateCommand c sig \<longleftrightarrow>
     kc_schema_version c = KillSchemaVersion \<and> isLowerHex (kc_command_id c) 32 \<and> validID (kc_session_id c)
     \<and> 1 \<le> kc_revoke_through c \<and> validID (kc_controller_id c) \<and> validReason (kc_reason c)
     \<and> (sig \<longrightarrow> isLowerHex (kc_signature c) 64)"

definition validateState :: "kill_state \<Rightarrow> bool \<Rightarrow> bool" where
  "validateState s sig \<longleftrightarrow>
     ks_schema_version s = KillSchemaVersion \<and> validID (ks_session_id s) \<and> 1 \<le> ks_revoked_through s
     \<and> isLowerHex (ks_command_id s) 32 \<and> validID (ks_controller_id s) \<and> validReason (ks_reason s)
     \<and> ks_observed_at s \<noteq> [] \<and> ks_resulting_state s \<noteq> [] \<and> isLowerHex (ks_request_sha256 s) 64
     \<and> (sig \<longrightarrow> isLowerHex (ks_signature s) 64)"

section \<open>Signatures\<close>

text \<open>The bytes under the MAC: every field after its length in eight big-endian bytes.\<close>

definition be64 :: "nat \<Rightarrow> string" where
  "be64 n = map (\<lambda>i. char_of (nat (int n div 256 ^ (7 - i) mod 256))) [0..<8]"

definition macFields :: "string \<Rightarrow> string list \<Rightarrow> string" where
  "macFields ctx parts = concat (map (\<lambda>s. be64 (length s) @ s) (ctx # parts))"

definition command_fields :: "kill_command \<Rightarrow> string list" where
  "command_fields c =
     [itoa (kc_schema_version c), kc_command_id c, kc_session_id c, itoa (uint (kc_revoke_through c)),
      kc_controller_id c, kc_reason c]"

definition state_fields :: "kill_state \<Rightarrow> string list" where
  "state_fields s =
     [itoa (ks_schema_version s), ks_session_id s, itoa (uint (ks_revoked_through s)), ks_command_id s,
      ks_controller_id s, ks_reason s, ks_observed_at s, ks_resulting_state s, ks_request_sha256 s]"

definition SignCommand :: "kill_lib \<Rightarrow> kill_command \<Rightarrow> string \<Rightarrow> kill_error + kill_command" where
  "SignCommand L c key =
     (if \<not> validateCommand c False then Inl InvalidInput
      else Inr (c\<lparr>kc_signature := kl_hmac_hex L (macFields commandMACCtx (command_fields c)) key\<rparr>))"

definition VerifyCommand :: "kill_lib \<Rightarrow> kill_command \<Rightarrow> string \<Rightarrow> kill_error + unit" where
  "VerifyCommand L c key =
     (if length key = 32 \<and> validateCommand c True
         \<and> kc_signature c = kl_hmac_hex L (macFields commandMACCtx (command_fields c)) key
      then Inr () else Inl Unauthorized)"

definition SignState :: "kill_lib \<Rightarrow> kill_state \<Rightarrow> string \<Rightarrow> kill_error + kill_state" where
  "SignState L s key =
     (if \<not> validateState s False then Inl InvalidInput
      else Inr (s\<lparr>ks_signature := kl_hmac_hex L (macFields stateMACCtx (state_fields s)) key\<rparr>))"

definition VerifyState :: "kill_lib \<Rightarrow> kill_state \<Rightarrow> string \<Rightarrow> kill_error + unit" where
  "VerifyState L s key =
     (if length key = 32 \<and> validateState s True
         \<and> ks_signature s = kl_hmac_hex L (macFields stateMACCtx (state_fields s)) key
      then Inr () else Inl Unauthorized)"

section \<open>The control directory\<close>

datatype control_file = Missing | Unreadable | Content string

record control_dir =
  cd_ok :: bool
  cd_commands_ok :: bool
  cd_state_ok :: bool
  cd_command_file :: control_file
  cd_state_file :: control_file

text \<open>What \<^verbatim>\<open>atomicWrite\<close> can do: fail before the rename, rename but fail to sync the directory, or
  succeed.\<close>

datatype write_result = WriteFailed | RenamedUnsynced | Written

definition written_file :: "write_result \<Rightarrow> string \<Rightarrow> control_file \<Rightarrow> control_file" where
  "written_file w data old = (if w = WriteFailed then old else Content data)"

definition WriteCommand :: "kill_lib \<Rightarrow> write_result \<Rightarrow> kill_command \<Rightarrow> control_dir \<Rightarrow> (kill_error + string) \<times> control_dir" where
  "WriteCommand L w c d =
     (case kl_marshal_command L c of
        None \<Rightarrow> (Inl InvalidInput, d)
      | Some json \<Rightarrow>
          if \<not> cd_commands_ok d \<or> \<not> cd_ok d \<or> \<not> validateCommand c True then (Inl InvalidInput, d)
          else
            let data = json @ [CHR 0x0A];
                weaker = (case cd_command_file d of
                            Content raw \<Rightarrow>
                              (case kl_decode_command L raw of
                                 None \<Rightarrow> False
                               | Some prev \<Rightarrow> kc_session_id prev = kc_session_id c
                                              \<and> kc_revoke_through c < kc_revoke_through prev)
                          | _ \<Rightarrow> False)
            in if weaker then (Inl InvalidInput, d)
               else (if w = Written then Inr (kl_sha256_hex L data) else Inl IOFailed,
                     d\<lparr>cd_command_file := written_file w data (cd_command_file d)\<rparr>))"

type_synonym controllers = "(string \<times> string) list"

definition ReadState :: "kill_lib \<Rightarrow> controllers \<Rightarrow> string \<Rightarrow> control_dir \<Rightarrow> kill_error + kill_state option" where
  "ReadState L keys sid d =
     (case cd_state_file d of
        Missing \<Rightarrow> Inr None
      | Unreadable \<Rightarrow> Inl ControlInvalid
      | Content raw \<Rightarrow>
          (case kl_decode_state L raw of
             None \<Rightarrow> Inl ControlInvalid
           | Some st \<Rightarrow>
               (case map_of keys (ks_controller_id st) of
                  None \<Rightarrow> Inl ControlInvalid
                | Some key \<Rightarrow> if ks_session_id st = sid \<and> VerifyState L st key = Inr ()
                              then Inr (Some st) else Inl ControlInvalid)))"

section \<open>The monitor\<close>

record kill_monitor =
  km_session_id :: string
  km_session_epoch :: epoch
  km_controllers :: controllers
  km_state :: "kill_state option"

definition NewMonitor :: "kill_lib \<Rightarrow> string \<Rightarrow> epoch \<Rightarrow> controllers \<Rightarrow> control_dir \<Rightarrow> kill_error + kill_monitor" where
  "NewMonitor L sid e keys d =
     (if \<not> validID sid \<or> e < 1 \<or> keys = [] \<or> \<not> cd_ok d \<or> \<not> cd_commands_ok d \<or> \<not> cd_state_ok d then Inl InvalidInput
      else if \<not> list_all (\<lambda>(i, k). validID i \<and> length k = 32) keys \<or> \<not> distinct (map snd keys) then Inl InvalidInput
      else case ReadState L keys sid d of
        Inl err \<Rightarrow> Inl err
      | Inr st \<Rightarrow> Inr \<lparr>km_session_id = sid, km_session_epoch = e, km_controllers = keys, km_state = st\<rparr>)"

datatype command_class = ClassNone | ClassStale | ClassRevoke | ClassInvalid | ClassUnavailable

definition failed_stop :: "kill_monitor \<Rightarrow> string \<Rightarrow> string \<Rightarrow> string \<Rightarrow> kill_stop" where
  "failed_stop m now res reason =
     \<lparr>sp_command = \<lparr>kc_schema_version = 0, kc_command_id = [], kc_session_id = km_session_id m, kc_revoke_through = 0,
                    kc_controller_id = [], kc_reason = reason, kc_signature = []\<rparr>,
      sp_request_sha256 = [], sp_observed_at = now, sp_resulting_state = res\<rparr>"

definition classifyCommand :: "kill_lib \<Rightarrow> string \<Rightarrow> kill_monitor \<Rightarrow> control_dir \<Rightarrow> command_class \<times> kill_stop option" where
  "classifyCommand L now m d =
     (if \<not> cd_ok d \<or> \<not> cd_commands_ok d
      then (ClassUnavailable, Some (failed_stop m now ''contained_control_unavailable'' ''kill-switch control channel unavailable''))
      else
        let invalid = (ClassInvalid, Some (failed_stop m now ''contained_control_invalid'' ''kill-switch control channel invalid''))
        in case cd_command_file d of
             Missing \<Rightarrow> (ClassNone, None)
           | Unreadable \<Rightarrow> invalid
           | Content raw \<Rightarrow>
               (case kl_decode_command L raw of
                  None \<Rightarrow> invalid
                | Some c \<Rightarrow>
                    if kc_session_id c \<noteq> km_session_id m
                       \<or> VerifyCommand L c (case map_of (km_controllers m) (kc_controller_id c) of None \<Rightarrow> [] | Some k \<Rightarrow> k) \<noteq> Inr ()
                    then invalid
                    else if kc_revoke_through c < km_session_epoch m then (ClassStale, None)
                    else (ClassRevoke,
                          Some \<lparr>sp_command = c, sp_request_sha256 = kl_sha256_hex L raw, sp_observed_at = now,
                                sp_resulting_state = ''revoked_contained''\<rparr>)))"

definition StartupCheck :: "kill_lib \<Rightarrow> string \<Rightarrow> kill_monitor \<Rightarrow> control_dir \<Rightarrow> kill_error + unit" where
  "StartupCheck L now m d =
     (if (case km_state m of
            None \<Rightarrow> False
          | Some st \<Rightarrow> ks_session_id st = km_session_id m \<and> km_session_epoch m \<le> ks_revoked_through st)
      then Inl PreviouslyRevoked
      else case fst (classifyCommand L now m d) of
        ClassRevoke \<Rightarrow> Inl PreviouslyRevoked
      | ClassInvalid \<Rightarrow> Inl ControlInvalid
      | ClassUnavailable \<Rightarrow> Inl ControlUnavailable
      | _ \<Rightarrow> Inr ())"

text \<open>The polling loop over the successive contents of the control directory: the stop it reports,
  or None when the context ends first.\<close>

fun run_monitor :: "kill_lib \<Rightarrow> (string \<times> control_dir) list \<Rightarrow> kill_monitor \<Rightarrow> (command_class \<times> kill_stop option) option" where
  "run_monitor L [] m = None"
| "run_monitor L ((now, d) # polls) m =
     (let (cl, st) = classifyCommand L now m d in
      if cl = ClassRevoke \<or> cl = ClassUnavailable \<or> cl = ClassInvalid then Some (cl, st)
      else run_monitor L polls m)"

definition WriteState :: "kill_lib \<Rightarrow> write_result \<Rightarrow> kill_stop \<Rightarrow> kill_monitor \<Rightarrow> control_dir \<Rightarrow> (kill_error + kill_monitor) \<times> control_dir" where
  "WriteState L w stop m d =
     (if \<not> cd_state_ok d then (Inl IOFailed, d)
      else case ReadState L (km_controllers m) (km_session_id m) d of
        Inl err \<Rightarrow> (Inl err, d)
      | Inr existing \<Rightarrow>
          let c = sp_command stop;
              e0 = kc_revoke_through c;
              e = (case existing of Some x \<Rightarrow> if e0 < ks_revoked_through x then ks_revoked_through x else e0 | None \<Rightarrow> e0);
              st = \<lparr>ks_schema_version = KillSchemaVersion, ks_session_id = kc_session_id c, ks_revoked_through = e,
                    ks_command_id = kc_command_id c, ks_controller_id = kc_controller_id c, ks_reason = kc_reason c,
                    ks_observed_at = sp_observed_at stop, ks_resulting_state = sp_resulting_state stop,
                    ks_request_sha256 = sp_request_sha256 stop, ks_signature = []\<rparr>;
              key = (case map_of (km_controllers m) (ks_controller_id st) of None \<Rightarrow> [] | Some k \<Rightarrow> k)
          in case SignState L st key of
               Inl err \<Rightarrow> (Inl err, d)
             | Inr sealed \<Rightarrow>
                 (case kl_marshal_state L sealed of
                    None \<Rightarrow> (Inl InvalidInput, d)
                  | Some json \<Rightarrow>
                      (if w = Written then Inr (m\<lparr>km_state := Some sealed\<rparr>) else Inl IOFailed,
                       d\<lparr>cd_state_file := written_file w (json @ [CHR 0x0A]) (cd_state_file d)\<rparr>)))"

section \<open>The MAC determines the fields\<close>

lemma be64_length [simp]: "length (be64 n) = 8"
  by (simp add: be64_def)

lemma be64_nat: "be64 n = map (\<lambda>i. char_of (n div 256 ^ (7 - i) mod 256)) [0..<8]"
proof -
  have "nat (int n div 256 ^ k mod 256) = n div 256 ^ k mod 256" for k
    by (metis nat_int of_nat_numeral of_nat_power zdiv_int zmod_int)
  then show ?thesis by (simp add: be64_def)
qed

lemma char_of_inj: "m < 256 \<Longrightarrow> n < 256 \<Longrightarrow> char_of m = (char_of n :: char) \<Longrightarrow> m = (n :: nat)"
  by (metis mod_less of_char_of)

lemma be64_inj:
  assumes "be64 m = be64 n" and "m < 2 ^ 64" and "n < 2 ^ 64"
  shows "m = n"
proof -
  have d: "m div 256 ^ (7 - i) mod 256 = n div 256 ^ (7 - i) mod 256" if "i < 8" for i
  proof -
    have "be64 m ! i = be64 n ! i" using assms(1) by simp
    then have "char_of (m div 256 ^ (7 - i) mod 256) = (char_of (n div 256 ^ (7 - i) mod 256) :: char)"
      using that by (simp add: be64_nat)
    then show ?thesis by (intro char_of_inj) simp_all
  qed
  have "m div 256 ^ j mod 256 = n div 256 ^ j mod 256" if "j < 8" for j
    using d [of "7 - j"] that by simp
  then have "m mod 256 ^ k = n mod 256 ^ k" if "k \<le> 8" for k
    using that
  proof (induction k)
    case (Suc k)
    have "m mod 256 ^ Suc k = 256 ^ k * (m div 256 ^ k mod 256) + m mod 256 ^ k"
      "n mod 256 ^ Suc k = 256 ^ k * (n div 256 ^ k mod 256) + n mod 256 ^ k"
      using mod_mult2_eq [of m "256 ^ k" 256] mod_mult2_eq [of n "256 ^ k" 256] by (simp_all add: mult.commute)
    then show ?case using Suc by simp
  qed simp
  from this [of 8] show ?thesis using assms(2,3) by simp
qed

lemma mac_concat_inj:
  assumes "concat (map (\<lambda>s. be64 (length s) @ s) xs) = concat (map (\<lambda>s. be64 (length s) @ s) ys)"
    and "\<And>s. s \<in> set xs \<union> set ys \<Longrightarrow> length s < 2 ^ 64"
  shows "xs = ys"
  using assms
proof (induction xs arbitrary: ys)
  case Nil
  then show ?case using arg_cong [OF Nil.prems(1), of length] by (cases ys) simp_all
next
  case (Cons x xs)
  show ?case
  proof (cases ys)
    case Nil
    then show ?thesis using arg_cong [OF Cons.prems(1), of length] by simp
  next
    case y: (Cons y ys')
    have e: "be64 (length x) @ x @ concat (map (\<lambda>s. be64 (length s) @ s) xs)
        = be64 (length y) @ y @ concat (map (\<lambda>s. be64 (length s) @ s) ys')"
      using Cons.prems(1) y by simp
    then have l: "be64 (length x) = be64 (length y)" and t: "x @ concat (map (\<lambda>s. be64 (length s) @ s) xs)
        = y @ concat (map (\<lambda>s. be64 (length s) @ s) ys')" by (simp_all add: append_eq_append_conv)
    have "length x = length y" using be64_inj [OF l] Cons.prems(2) y by simp
    then have "x = y" "concat (map (\<lambda>s. be64 (length s) @ s) xs) = concat (map (\<lambda>s. be64 (length s) @ s) ys')"
      using t by (simp_all add: append_eq_append_conv)
    then show ?thesis using Cons.IH [of ys'] Cons.prems(2) y by simp
  qed
qed

lemma macFields_inj:
  assumes "macFields c xs = macFields c' ys" and "\<And>s. s \<in> set (c # xs) \<union> set (c' # ys) \<Longrightarrow> length s < 2 ^ 64"
  shows "c = c' \<and> xs = ys"
  using mac_concat_inj [of "c # xs" "c' # ys"] assms by (simp add: macFields_def)

section \<open>What keeps a session alive\<close>

definition command_key :: "kill_monitor \<Rightarrow> kill_command \<Rightarrow> string" where
  "command_key m c = (case map_of (km_controllers m) (kc_controller_id c) of None \<Rightarrow> [] | Some k \<Rightarrow> k)"

definition authentic :: "kill_lib \<Rightarrow> kill_monitor \<Rightarrow> string \<Rightarrow> kill_command \<Rightarrow> bool" where
  "authentic L m raw c \<longleftrightarrow>
     kl_decode_command L raw = Some c \<and> kc_session_id c = km_session_id m \<and> VerifyCommand L c (command_key m c) = Inr ()"

lemma classify_alive:
  "fst (classifyCommand L now m d) \<in> {ClassNone, ClassStale} \<longleftrightarrow>
     cd_ok d \<and> cd_commands_ok d
     \<and> (cd_command_file d = Missing
        \<or> (\<exists>raw c. cd_command_file d = Content raw \<and> authentic L m raw c \<and> kc_revoke_through c < km_session_epoch m))"
  by (auto simp: classifyCommand_def authentic_def command_key_def Let_def split: control_file.splits option.splits if_splits)

lemma classify_revokeD:
  assumes "classifyCommand L now m d = (ClassRevoke, st)"
  shows "\<exists>raw c. cd_command_file d = Content raw \<and> authentic L m raw c \<and> km_session_epoch m \<le> kc_revoke_through c
    \<and> st = Some \<lparr>sp_command = c, sp_request_sha256 = kl_sha256_hex L raw, sp_observed_at = now, sp_resulting_state = ''revoked_contained''\<rparr>"
  using assms unfolding classifyCommand_def command_key_def [symmetric] authentic_def Let_def
  by (auto simp: not_less split: control_file.splits option.splits if_splits)

lemma run_monitor_iff:
  "run_monitor L polls m = None \<longleftrightarrow>
     (\<forall>(now, d) \<in> set polls. fst (classifyCommand L now m d) \<in> {ClassNone, ClassStale})"
proof (induction polls)
  case (Cons x polls)
  obtain now d where x: "x = (now, d)" by (cases x)
  obtain cl st where c: "classifyCommand L now m d = (cl, st)" by (cases "classifyCommand L now m d")
  show ?case using Cons x c by (cases cl) (auto simp: Let_def)
qed simp

section \<open>Revocation is permanent\<close>

text \<open>What is relied on from the library: an HMAC prints as 64 lower-case hexadecimal digits, and a
  state that was written decodes to itself.\<close>

definition kill_lib_ok :: "kill_lib \<Rightarrow> bool" where
  "kill_lib_ok L \<longleftrightarrow>
     (\<forall>data key. isLowerHex (kl_hmac_hex L data key) 64)
     \<and> (\<forall>st json. kl_marshal_state L st = Some json \<longrightarrow> kl_decode_state L (json @ [CHR 0x0A]) = Some st)"

lemma state_fields_signature [simp]: "state_fields (s\<lparr>ks_signature := x\<rparr>) = state_fields s"
  by (simp add: state_fields_def)

lemma validateState_signature:
  "validateState s False \<Longrightarrow> isLowerHex x 64 \<Longrightarrow> validateState (s\<lparr>ks_signature := x\<rparr>) True"
  by (simp add: validateState_def)

lemma sign_verify_state:
  assumes "kill_lib_ok L" and "SignState L s key = Inr s'" and "length key = 32"
  shows "VerifyState L s' key = Inr ()"
  using assms validateState_signature [of s]
  by (auto simp: SignState_def VerifyState_def kill_lib_ok_def split: if_splits)

lemma verify_command_key: "VerifyCommand L c key = Inr () \<Longrightarrow> length key = 32"
  by (simp add: VerifyCommand_def split: if_splits)

text \<open>Writing a state after an authentic revocation: either the file is as before, or it holds a
  valid state of the session with an epoch at least that of the command and that of the old state.\<close>

lemma write_state_readable:
  assumes ok: "kill_lib_ok L" and au: "authentic L m raw c" and st: "sp_command stop = c"
    and w: "WriteState L w stop m d = (res, d')"
  shows "(d' = d \<and> (\<forall>m'. res \<noteq> Inr m'))
    \<or> (\<exists>old st'. ReadState L (km_controllers m) (km_session_id m) d = Inr old
          \<and> cd_state_file d' = written_file w (the (kl_marshal_state L st') @ [CHR 0x0A]) (cd_state_file d)
          \<and> cd_ok d' = cd_ok d \<and> cd_commands_ok d' = cd_commands_ok d \<and> cd_state_ok d' = cd_state_ok d
          \<and> cd_command_file d' = cd_command_file d
          \<and> kl_decode_state L (the (kl_marshal_state L st') @ [CHR 0x0A]) = Some st'
          \<and> ks_session_id st' = km_session_id m
          \<and> (\<exists>key. map_of (km_controllers m) (ks_controller_id st') = Some key \<and> VerifyState L st' key = Inr ())
          \<and> kc_revoke_through c \<le> ks_revoked_through st'
          \<and> (\<forall>x. old = Some x \<longrightarrow> ks_revoked_through x \<le> ks_revoked_through st')
          \<and> ((\<exists>m'. res = Inr m') \<longrightarrow> w = Written))"
proof (cases "cd_state_ok d")
  case False then show ?thesis using w by (auto simp: WriteState_def)
next
  case sok: True
  show ?thesis
  proof (cases "ReadState L (km_controllers m) (km_session_id m) d")
    case (Inl e) then show ?thesis using w sok by (auto simp: WriteState_def)
  next
    case old: (Inr old)
    define e where "e = (case old of Some x \<Rightarrow> if kc_revoke_through c < ks_revoked_through x then ks_revoked_through x
                                       else kc_revoke_through c | None \<Rightarrow> kc_revoke_through c)"
    define s0 where "s0 = \<lparr>ks_schema_version = KillSchemaVersion, ks_session_id = kc_session_id c, ks_revoked_through = e,
                    ks_command_id = kc_command_id c, ks_controller_id = kc_controller_id c, ks_reason = kc_reason c,
                    ks_observed_at = sp_observed_at stop, ks_resulting_state = sp_resulting_state stop,
                    ks_request_sha256 = sp_request_sha256 stop, ks_signature = []\<rparr>"
    let ?key = "command_key m c"
    have k32: "length ?key = 32" using au verify_command_key by (auto simp: authentic_def)
    then obtain key where key: "map_of (km_controllers m) (kc_controller_id c) = Some key" "?key = key"
      by (cases "map_of (km_controllers m) (kc_controller_id c)") (auto simp: command_key_def)
    have un: "WriteState L w stop m d =
      (case SignState L s0 key of Inl err \<Rightarrow> (Inl err, d)
       | Inr sealed \<Rightarrow> (case kl_marshal_state L sealed of None \<Rightarrow> (Inl InvalidInput, d)
           | Some json \<Rightarrow> (if w = Written then Inr (m\<lparr>km_state := Some sealed\<rparr>) else Inl IOFailed,
               d\<lparr>cd_state_file := written_file w (json @ [CHR 0x0A]) (cd_state_file d)\<rparr>)))"
      using sok old st key by (simp add: WriteState_def Let_def s0_def e_def)
    show ?thesis
    proof (cases "SignState L s0 key")
      case (Inl err) then show ?thesis using w un by auto
    next
      case sg: (Inr st')
      show ?thesis
      proof (cases "kl_marshal_state L st'")
        case None then show ?thesis using w un sg by auto
      next
        case (Some json)
        have f: "ks_session_id st' = kc_session_id c" "ks_controller_id st' = kc_controller_id c" "ks_revoked_through st' = e"
          using sg by (auto simp: SignState_def s0_def split: if_splits)
        have v: "VerifyState L st' key = Inr ()" using sign_verify_state [OF ok sg] k32 key by simp
        have dec: "kl_decode_state L (json @ [CHR 0x0A]) = Some st'" using ok Some by (auto simp: kill_lib_ok_def)
        have le: "kc_revoke_through c \<le> e" "\<forall>x. old = Some x \<longrightarrow> ks_revoked_through x \<le> e"
          by (auto simp: e_def split: option.splits)
        have "res = (if w = Written then Inr (m\<lparr>km_state := Some st'\<rparr>) else Inl IOFailed)"
          "d' = d\<lparr>cd_state_file := written_file w (json @ [CHR 0x0A]) (cd_state_file d)\<rparr>"
          using w un sg Some by simp_all
        then show ?thesis using au f v dec le key old Some
          by (intro disjI2 exI [of _ old] exI [of _ st']) (auto simp: authentic_def)
      qed
    qed
  qed
qed

definition revoked_through :: "kill_lib \<Rightarrow> controllers \<Rightarrow> string \<Rightarrow> epoch \<Rightarrow> control_dir \<Rightarrow> bool" where
  "revoked_through L keys sid e d \<longleftrightarrow> (\<exists>st. ReadState L keys sid d = Inr (Some st) \<and> e \<le> ks_revoked_through st)"

lemma write_state_revoked:
  assumes "kill_lib_ok L" and "authentic L m raw c" and "sp_command stop = c"
    and "WriteState L w stop m d = (res, d')"
  shows "revoked_through L (km_controllers m) (km_session_id m) e d \<Longrightarrow> revoked_through L (km_controllers m) (km_session_id m) e d'"
    and "res = Inr m' \<Longrightarrow> revoked_through L (km_controllers m) (km_session_id m) (kc_revoke_through c) d'"
proof -
  let ?rt = "\<lambda>e d. revoked_through L (km_controllers m) (km_session_id m) e d"
  have "(?rt e d \<longrightarrow> ?rt e d') \<and> (res = Inr m' \<longrightarrow> ?rt (kc_revoke_through c) d')"
    using write_state_readable [OF assms]
  proof (elim disjE conjE exE)
    fix old st' key
    assume h: "ReadState L (km_controllers m) (km_session_id m) d = Inr old"
      "cd_state_file d' = written_file w (the (kl_marshal_state L st') @ [CHR 0x0A]) (cd_state_file d)"
      "kl_decode_state L (the (kl_marshal_state L st') @ [CHR 0x0A]) = Some st'"
      "ks_session_id st' = km_session_id m"
      "map_of (km_controllers m) (ks_controller_id st') = Some key" "VerifyState L st' key = Inr ()"
      "kc_revoke_through c \<le> ks_revoked_through st'"
      "\<forall>x. old = Some x \<longrightarrow> ks_revoked_through x \<le> ks_revoked_through st'"
      "(\<exists>m'. res = Inr m') \<longrightarrow> w = Written"
    show ?thesis
    proof (cases "w = WriteFailed")
      case True
      then have "cd_state_file d' = cd_state_file d" using h(2) by (simp add: written_file_def)
      then have "ReadState L (km_controllers m) (km_session_id m) d' = ReadState L (km_controllers m) (km_session_id m) d"
        by (simp add: ReadState_def)
      then show ?thesis using True h(9) by (auto simp: revoked_through_def)
    next
      case False
      then have "ReadState L (km_controllers m) (km_session_id m) d' = Inr (Some st')"
        using h(2-6) by (simp add: ReadState_def written_file_def)
      then show ?thesis using h(1,7,8) by (fastforce simp: revoked_through_def)
    qed
  qed auto
  then show "?rt e d \<Longrightarrow> ?rt e d'" "res = Inr m' \<Longrightarrow> ?rt (kc_revoke_through c) d'" by blast+
qed

text \<open>What may happen to the control directory afterwards: commands are published, and monitors of the
  session enforce what they find, with any outcome of the writes.\<close>

datatype kill_op = Publish write_result kill_command | Enforce write_result string epoch

fun kill_step :: "kill_lib \<Rightarrow> controllers \<Rightarrow> string \<Rightarrow> kill_op \<Rightarrow> control_dir \<Rightarrow> control_dir" where
  "kill_step L keys sid (Publish w c) d = snd (WriteCommand L w c d)"
| "kill_step L keys sid (Enforce w now e) d =
     (case NewMonitor L sid e keys d of
        Inl _ \<Rightarrow> d
      | Inr m \<Rightarrow>
          (case classifyCommand L now m d of
             (ClassRevoke, Some stop) \<Rightarrow> snd (WriteState L w stop m d)
           | _ \<Rightarrow> d))"

lemma publish_keeps_state: "cd_state_file (snd (WriteCommand L w c d)) = cd_state_file d"
  by (auto simp: WriteCommand_def Let_def split: option.splits control_file.splits)

lemma new_monitor_fields:
  "NewMonitor L sid e keys d = Inr m \<Longrightarrow>
     km_session_id m = sid \<and> km_session_epoch m = e \<and> km_controllers m = keys \<and> ReadState L keys sid d = Inr (km_state m)"
  by (auto simp: NewMonitor_def split: if_splits sum.splits)

lemma kill_step_revoked:
  assumes "kill_lib_ok L" and "revoked_through L keys sid e d"
  shows "revoked_through L keys sid e (kill_step L keys sid op d)"
proof (cases op)
  case (Publish w c)
  then have "ReadState L keys sid (kill_step L keys sid op d) = ReadState L keys sid d"
    using publish_keeps_state by (simp add: ReadState_def)
  then show ?thesis using assms(2) by (simp add: revoked_through_def)
next
  case (Enforce w now ep)
  show ?thesis
  proof (cases "NewMonitor L sid ep keys d")
    case (Inl e) then show ?thesis using Enforce assms(2) by simp
  next
    case (Inr m)
    note f = new_monitor_fields [OF Inr]
    obtain cl st where cc: "classifyCommand L now m d = (cl, st)" by (cases "classifyCommand L now m d")
    show ?thesis
    proof (cases "cl = ClassRevoke")
      case True
      obtain raw c where c: "authentic L m raw c" and st: "st = Some \<lparr>sp_command = c, sp_request_sha256 = kl_sha256_hex L raw,
          sp_observed_at = now, sp_resulting_state = ''revoked_contained''\<rparr>"
        using classify_revokeD cc True by blast
      obtain stop where stop: "st = Some stop" "sp_command stop = c" using st by simp
      obtain res d' where w: "WriteState L w stop m d = (res, d')" by (cases "WriteState L w stop m d")
      have "kill_step L keys sid op d = d'" using Enforce Inr cc True stop w by simp
      then show ?thesis using write_state_revoked(1) [OF assms(1) c stop(2) w] assms(2) f by simp
    next
      case False
      then have "kill_step L keys sid op d = d" using Enforce Inr cc by (cases cl) simp_all
      then show ?thesis using assms(2) by simp
    qed
  qed
qed

lemma kill_steps_revoked:
  assumes "kill_lib_ok L" and "revoked_through L keys sid e d"
  shows "revoked_through L keys sid e (fold (kill_step L keys sid) ops d)"
  using assms(2) by (induction ops arbitrary: d) (simp_all add: kill_step_revoked [OF assms(1)])

lemma epoch_string_length: "length (itoa (uint (e :: epoch))) \<le> 20"
proof -
  have "unat e < 2 ^ 64" using unsigned_less [of e, where ?'a = nat] by simp
  then have "nat (uint e) < 10 ^ Suc 19" by simp
  from nat_to_string_length [OF this] show ?thesis by (simp add: itoa_def)
qed

section \<open>Enforcement in the proxy\<close>

text \<open>The kill-switch part of the proxy: the revoked flag, whether the single enforcement ran, the
  supervised process and the committed audit record and persisted state in the order they happen.\<close>

datatype kinetic_effect = Contained | AuditCommitted | StatePersisted

record kinetic =
  kn_enabled :: bool
  kn_revoked :: bool
  kn_enforced :: bool
  kn_running :: bool
  kn_run_error :: "string option"
  kn_effects :: "kinetic_effect list"

definition enforceKineticStop :: "kill_stop \<Rightarrow> bool \<Rightarrow> bool \<Rightarrow> kinetic \<Rightarrow> kinetic" where
  "enforceKineticStop stop auditOK persistOK k =
     (if kn_enforced k then k
      else
        let persist = (auditOK \<and> sp_resulting_state stop = ''revoked_contained'');
            msg = ''kinetic stop enforced: '' @ sp_resulting_state stop
        in k\<lparr>kn_revoked := True, kn_enforced := True, kn_running := False,
             kn_run_error := Some (if \<not> auditOK then ''audit commit failed''
                                   else if persist \<and> \<not> persistOK then ''state write failed'' else msg),
             kn_effects := kn_effects k @ [Contained] @ (if auditOK then [AuditCommitted] else [])
                             @ (if persist \<and> persistOK then [StatePersisted] else [])\<rparr>)"

definition kineticGate :: "kinetic \<Rightarrow> bool" where
  "kineticGate k \<longleftrightarrow> kn_enabled k \<and> kn_revoked k"

definition encodeIfNotRevoked :: "string \<Rightarrow> kinetic \<Rightarrow> string option" where
  "encodeIfNotRevoked raw k = (if kn_enabled k \<and> kn_revoked k then None else Some raw)"

definition startSupervised :: "kinetic \<Rightarrow> (string + unit) \<times> kinetic" where
  "startSupervised k =
     (if kn_enabled k \<and> kn_revoked k then (Inl ''kinetic stop: refused launch'', k)
      else (Inr (), k\<lparr>kn_running := True\<rparr>))"

text \<open>The interleaving of relays, launches and the monitor's stop.\<close>

datatype kinetic_event = Relay string | Launch | StopSeen kill_stop bool bool

fun kinetic_run :: "kinetic_event list \<Rightarrow> kinetic \<Rightarrow> string list \<times> kinetic" where
  "kinetic_run [] k = ([], k)"
| "kinetic_run (Relay raw # es) k =
     (case kinetic_run es k of (out, k') \<Rightarrow>
        ((case encodeIfNotRevoked raw k of None \<Rightarrow> out | Some m \<Rightarrow> m # out), k'))"
| "kinetic_run (Launch # es) k = kinetic_run es (snd (startSupervised k))"
| "kinetic_run (StopSeen stop a p # es) k = kinetic_run es (enforceKineticStop stop a p k)"

lemma revoked_run:
  assumes "kn_enabled k" and "kn_revoked k" and "kn_enforced k" and "\<not> kn_running k"
  shows "kinetic_run es k = ([], k)"
  using assms
proof (induction es arbitrary: k)
  case (Cons x es)
  then show ?case
    by (cases x) (simp_all add: encodeIfNotRevoked_def startSupervised_def enforceKineticStop_def)
qed simp

lemma kinetic_run_append:
  "kinetic_run (es @ fs) k =
     (case kinetic_run es k of (o1, k1) \<Rightarrow> case kinetic_run fs k1 of (o2, k2) \<Rightarrow> (o1 @ o2, k2))"
proof (induction es arbitrary: k)
  case Nil then show ?case by (cases "kinetic_run fs k") simp
next
  case (Cons x es)
  show ?case
    by (cases x) (simp_all add: Cons.IH case_prod_beta split: option.split)
qed

definition kinetic_ok :: "kinetic \<Rightarrow> bool" where
  "kinetic_ok k \<longleftrightarrow> kn_enabled k \<and> kn_revoked k = kn_enforced k \<and> (kn_enforced k \<longrightarrow> \<not> kn_running k)"

lemma kinetic_run_ok: "kinetic_ok k \<Longrightarrow> kinetic_ok (snd (kinetic_run es k))"
proof (induction es arbitrary: k)
  case (Cons x es)
  show ?case
  proof (cases x)
    case (Relay raw)
    then have "snd (kinetic_run (x # es) k) = snd (kinetic_run es k)" by (simp add: case_prod_beta)
    then show ?thesis using Cons.IH [OF Cons.prems] by simp
  next
    case Launch
    have "kinetic_ok (snd (startSupervised k))" using Cons.prems by (auto simp: startSupervised_def kinetic_ok_def)
    then show ?thesis using Cons.IH Launch by simp
  next
    case (StopSeen stop a p)
    have "kinetic_ok (enforceKineticStop stop a p k)" using Cons.prems by (auto simp: enforceKineticStop_def kinetic_ok_def Let_def)
    then show ?thesis using Cons.IH StopSeen by simp
  qed
qed simp

definition fresh_kinetic :: kinetic where
  "fresh_kinetic = \<lparr>kn_enabled = True, kn_revoked = False, kn_enforced = False, kn_running = False,
     kn_run_error = None, kn_effects = []\<rparr>"


section \<open>Configuration and start\<close>

text \<open>The kill-switch part of the proxy configuration; \<^verbatim>\<open>kg_session_empty\<close> is
  \<^verbatim>\<open>p.kineticSessionEmpty\<close> and \<^verbatim>\<open>kg_durable\<close> is \<^verbatim>\<open>p.audit.Durable()\<close>.\<close>

record kinetic_config =
  kg_dir :: string
  kg_controllers :: controllers
  kg_epoch :: epoch
  kg_server_url :: string
  kg_session_id :: string
  kg_session_empty :: bool
  kg_durable :: bool

datatype kinetic_init_error = NeedsDir | NeedsDurableAudit | RemoteServer | NeedsSession | NeedsEpoch | NeedsController
  | BadController | DuplicateController | MonitorError kill_error

fun collect_controllers :: "controllers \<Rightarrow> controllers \<Rightarrow> kinetic_init_error + controllers" where
  "collect_controllers acc [] = Inr acc"
| "collect_controllers acc ((i, k) # cs) =
     (if i = [] \<or> length k \<noteq> 32 then Inl BadController
      else if map_of acc i \<noteq> None then Inl DuplicateController
      else collect_controllers (acc @ [(i, k)]) cs)"

definition initKineticStop :: "kill_lib \<Rightarrow> kinetic_config \<Rightarrow> control_dir \<Rightarrow> kinetic_init_error + kill_monitor option" where
  "initKineticStop L cfg d =
     (if kg_dir cfg = [] then
        (if kg_controllers cfg \<noteq> [] \<or> kg_epoch cfg \<noteq> 0 then Inl NeedsDir else Inr None)
      else if \<not> kg_durable cfg then Inl NeedsDurableAudit
      else if kg_server_url cfg \<noteq> [] then Inl RemoteServer
      else if kg_session_empty cfg \<or> kg_session_id cfg = [] then Inl NeedsSession
      else if kg_epoch cfg < 1 then Inl NeedsEpoch
      else if kg_controllers cfg = [] then Inl NeedsController
      else case collect_controllers [] (kg_controllers cfg) of
        Inl e \<Rightarrow> Inl e
      | Inr ctrls \<Rightarrow>
          (case NewMonitor L (kg_session_id cfg) (kg_epoch cfg) ctrls d of
             Inl e \<Rightarrow> Inl (MonitorError e)
           | Inr m \<Rightarrow> Inr (Some m)))"

definition kineticEnabled :: "kinetic_config \<Rightarrow> (kinetic_init_error + kill_monitor option) \<Rightarrow> bool" where
  "kineticEnabled cfg init \<longleftrightarrow> kg_dir cfg \<noteq> [] \<and> (case init of Inr (Some _) \<Rightarrow> True | _ \<Rightarrow> False)"

definition beginKineticRun ::
  "kill_lib \<Rightarrow> string \<Rightarrow> kinetic_config \<Rightarrow> (kinetic_init_error + kill_monitor option) \<Rightarrow> control_dir \<Rightarrow> kinetic_init_error + unit" where
  "beginKineticRun L now cfg init d =
     (case init of
        Inl e \<Rightarrow> Inl e
      | Inr mon \<Rightarrow>
          (if \<not> kineticEnabled cfg init then Inr ()
           else case StartupCheck L now (the mon) d of Inl e \<Rightarrow> Inl (MonitorError e) | Inr _ \<Rightarrow> Inr ()))"

lemma collect_controllers_result:
  "collect_controllers acc cs = Inr r \<Longrightarrow> distinct (map fst acc) \<Longrightarrow>
     r = acc @ cs \<and> distinct (map fst r)"
proof (induction acc cs rule: collect_controllers.induct)
  case (2 acc i k cs)
  have c: "i \<noteq> []" "length k = 32" "map_of acc i = None" "collect_controllers (acc @ [(i, k)]) cs = Inr r"
    using "2.prems"(1) by (auto split: if_splits)
  have "distinct (map fst (acc @ [(i, k)]))" using "2.prems"(2) c(3) by (auto simp: map_of_eq_None_iff)
  then have h: "r = (acc @ [(i, k)]) @ cs \<and> distinct (map fst r)"
    using "2.IH" c by blast
  have "r = acc @ (i, k) # cs" using conjunct1 [OF h] by simp
  with conjunct2 [OF h] show ?case by blast
qed simp

text \<open>A configured kill switch is never silently off: the proxy starts with a control directory
  configured only if the audit log is durable, the server is local, every controller is usable, and
  a monitor exists whose startup check passed.\<close>

lemma begin_run_armed:
  assumes "kg_dir cfg \<noteq> []" and "beginKineticRun L now cfg (initKineticStop L cfg d) d' = Inr ()"
  shows "kg_durable cfg \<and> kg_server_url cfg = [] \<and> distinct (map fst (kg_controllers cfg))
     \<and> (\<exists>m. initKineticStop L cfg d = Inr (Some m) \<and> StartupCheck L now m d' = Inr ()
          \<and> NewMonitor L (kg_session_id cfg) (kg_epoch cfg) (kg_controllers cfg) d = Inr m)"
proof -
  obtain mon where i: "initKineticStop L cfg d = Inr mon"
    using assms(2) by (auto simp: beginKineticRun_def split: sum.splits)
  obtain ctrls m where m: "kg_durable cfg" "kg_server_url cfg = []" "collect_controllers [] (kg_controllers cfg) = Inr ctrls"
      "NewMonitor L (kg_session_id cfg) (kg_epoch cfg) ctrls d = Inr m" "mon = Some m"
    using i assms(1) by (auto simp: initKineticStop_def split: if_splits sum.splits)
  have c: "ctrls = kg_controllers cfg" "distinct (map fst ctrls)"
    using collect_controllers_result [OF m(3)] by auto
  have "StartupCheck L now m d' = Inr ()"
    using assms i m(5) by (auto simp: beginKineticRun_def kineticEnabled_def split: sum.splits)
  then show ?thesis using i m c by blast
qed

section \<open>Properties\<close>


text \<open>C9: A recorded revocation is permanent: once a monitor found a revocation and its state was
  written, no later publication of commands and no enforcement by other monitors of the session,
  with whatever write failures, lets a monitor for a revoked epoch pass its startup check.\<close>

theorem enforced_revocation_permanent:
  assumes "kill_lib_ok L" and "classifyCommand L now m d = (ClassRevoke, Some stop)"
    and "WriteState L w stop m d = (Inr m1, d1)"
    and "d2 = fold (kill_step L (km_controllers m) (km_session_id m)) ops d1"
    and "e \<le> kc_revoke_through (sp_command stop)"
    and "NewMonitor L (km_session_id m) e (km_controllers m) d2 = Inr m2"
  shows "StartupCheck L now' m2 d2 = Inl PreviouslyRevoked"
proof -
  obtain raw c where c: "authentic L m raw c" "sp_command stop = c"
    using classify_revokeD [OF assms(2)] by auto
  have "revoked_through L (km_controllers m) (km_session_id m) (kc_revoke_through c) d1"
    using write_state_revoked(2) [OF assms(1) c assms(3)] by blast
  from kill_steps_revoked [OF assms(1) this, of ops] obtain st where
    st: "ReadState L (km_controllers m) (km_session_id m) d2 = Inr (Some st)" "kc_revoke_through c \<le> ks_revoked_through st"
    unfolding assms(4) revoked_through_def by blast
  have m2: "km_state m2 = Some st" "km_session_epoch m2 = e" "km_session_id m2 = km_session_id m"
    using new_monitor_fields [OF assms(6)] st(1) by auto
  have "ks_session_id st = km_session_id m"
    using st(1) by (auto simp: ReadState_def split: control_file.splits option.splits if_splits)
  moreover have "e \<le> ks_revoked_through st" using st(2) assms(5) c(2) by simp
  ultimately show ?thesis using m2 by (simp add: StartupCheck_def)
qed


text \<open>A command cannot be altered under its signature: if the HMAC under a key has no collisions, a
  command that verifies with the signature of a command signed under that key is that command.\<close>

theorem verified_command_was_signed:
  assumes "\<And>x y. kl_hmac_hex L x key = kl_hmac_hex L y key \<Longrightarrow> x = y"
    and "SignCommand L c0 key = Inr c1" and "VerifyCommand L c key = Inr ()" and "kc_signature c = kc_signature c1"
  shows "c = c1"
proof -
  have v: "validateCommand c True" "kc_signature c = kl_hmac_hex L (macFields commandMACCtx (command_fields c)) key"
    using assms(3) by (auto simp: VerifyCommand_def split: if_splits)
  have s: "validateCommand c0 False" "c1 = c0\<lparr>kc_signature := kl_hmac_hex L (macFields commandMACCtx (command_fields c0)) key\<rparr>"
    using assms(2) by (auto simp: SignCommand_def split: if_splits)
  have len: "length s < 2 ^ 64" if "s \<in> set (commandMACCtx # command_fields x)" "validateCommand x False" for s x
  proof -
    have "length (itoa 1) = 1" "length commandMACCtx = 28" by code_simp+
    then have "length s \<le> 512" using that epoch_string_length [of "kc_revoke_through x"]
      by (auto simp: command_fields_def validateCommand_def KillSchemaVersion_def isLowerHex_def validID_def
          validReason_def MaxReasonBytes_def)
    then show ?thesis by simp
  qed
  have vf: "validateCommand c False" using v(1) by (simp add: validateCommand_def)
  have "macFields commandMACCtx (command_fields c) = macFields commandMACCtx (command_fields c0)"
    using assms(1,4) v(2) s(2) by simp
  then have fs: "command_fields c = command_fields c0" using macFields_inj len vf s(1) by blast
  have "itoa (uint (kc_revoke_through c)) = itoa (uint (kc_revoke_through c0))" using fs by (simp add: command_fields_def)
  then have "kc_revoke_through c = kc_revoke_through c0"
    using itoa_inj_nonneg [of "uint (kc_revoke_through c)" "uint (kc_revoke_through c0)"] by (simp add: word_uint_eq_iff)
  moreover have "kc_schema_version c = kc_schema_version c0" using vf s(1) by (simp add: validateCommand_def)
  ultimately show ?thesis using fs s(2) v(2) by (simp add: command_fields_def)
qed

section \<open>Witnesses\<close>

definition demo_key :: string where
  "demo_key = replicate 32 (CHR ''k'')"

definition hex_zeros :: "nat \<Rightarrow> string" where
  "hex_zeros n = replicate n (CHR ''0'')"

definition demo_command :: kill_command where
  "demo_command = \<lparr>kc_schema_version = 1, kc_command_id = hex_zeros 32, kc_session_id = ''s'', kc_revoke_through = 3,
     kc_controller_id = ''ops'', kc_reason = ''stop'', kc_signature = hex_zeros 64\<rparr>"

definition demo_state :: kill_state where
  "demo_state = \<lparr>ks_schema_version = 1, ks_session_id = ''s'', ks_revoked_through = 3, ks_command_id = hex_zeros 32,
     ks_controller_id = ''ops'', ks_reason = ''stop'', ks_observed_at = ''t'', ks_resulting_state = ''revoked_contained'',
     ks_request_sha256 = hex_zeros 64, ks_signature = hex_zeros 64\<rparr>"

definition demo_lib :: kill_lib where
  "demo_lib = \<lparr>kl_hmac_hex = (\<lambda>d k. hex_zeros 64), kl_sha256_hex = (\<lambda>s. hex_zeros 64),
     kl_marshal_state = (\<lambda>s. if s = demo_state then Some ''state'' else None),
     kl_decode_state = (\<lambda>r. if r = ''state'' @ [CHR 0x0A] then Some demo_state else None),
     kl_marshal_command = (\<lambda>c. Some ''command''), kl_decode_command = (\<lambda>r. Some demo_command)\<rparr>"

definition demo_dir :: control_dir where
  "demo_dir = \<lparr>cd_ok = True, cd_commands_ok = True, cd_state_ok = True, cd_command_file = Content ''c'', cd_state_file = Missing\<rparr>"

definition demo_monitor :: kill_monitor where
  "demo_monitor = \<lparr>km_session_id = ''s'', km_session_epoch = 2, km_controllers = [(''ops'', demo_key)], km_state = None\<rparr>"

lemma demo_lib_ok: "kill_lib_ok demo_lib"
proof -
  have "isLowerHex (hex_zeros 64) 64" by code_simp
  then show ?thesis by (simp add: kill_lib_ok_def demo_lib_def)
qed

theorem enforced_revocation_permanent_witness:
  "\<exists>stop m1 d1 d2 m2. classifyCommand demo_lib ''t'' demo_monitor demo_dir = (ClassRevoke, Some stop)
     \<and> WriteState demo_lib Written stop demo_monitor demo_dir = (Inr m1, d1)
     \<and> d2 = fold (kill_step demo_lib (km_controllers demo_monitor) (km_session_id demo_monitor))
              [Publish RenamedUnsynced demo_command] d1
     \<and> NewMonitor demo_lib (km_session_id demo_monitor) 2 (km_controllers demo_monitor) d2 = Inr m2
     \<and> StartupCheck demo_lib ''v'' m2 d2 = Inl PreviouslyRevoked"
proof -
  let ?c = "classifyCommand demo_lib ''t'' demo_monitor demo_dir"
  let ?st = "the (snd ?c)"
  let ?w = "WriteState demo_lib Written ?st demo_monitor demo_dir"
  let ?ops = "[Publish RenamedUnsynced demo_command]"
  let ?d2 = "fold (kill_step demo_lib (km_controllers demo_monitor) (km_session_id demo_monitor)) ?ops (snd ?w)"
  have "fst ?c = ClassRevoke" "snd ?c \<noteq> None" by code_simp+
  then have c: "?c = (ClassRevoke, Some ?st)" by (cases ?c) auto
  have "\<not> isl (fst ?w)" by code_simp
  then obtain m1 where w: "?w = (Inr m1, snd ?w)" by (metis isl_def old.sum.exhaust prod.collapse)
  have e: "(2 :: epoch) \<le> kc_revoke_through (sp_command ?st)" by code_simp
  have "\<not> isl (NewMonitor demo_lib (km_session_id demo_monitor) 2 (km_controllers demo_monitor) ?d2)" by code_simp
  then obtain m2 where m2: "NewMonitor demo_lib (km_session_id demo_monitor) 2 (km_controllers demo_monitor) ?d2 = Inr m2"
    by (metis isl_def old.sum.exhaust)
  have s: "StartupCheck demo_lib ''v'' m2 ?d2 = Inl PreviouslyRevoked"
    by (rule enforced_revocation_permanent [OF demo_lib_ok c w refl e m2])
  show ?thesis by (intro exI conjI) (rule c w refl m2 s)+
qed

definition plain_lib :: kill_lib where
  "plain_lib = demo_lib\<lparr>kl_hmac_hex := (\<lambda>d k. if d = macFields commandMACCtx (command_fields demo_command) then hex_zeros 64 else CHR ''x'' # d)\<rparr>"

lemma marked_inj:
  "(if a = m then z else CHR ''x'' # a) = (if b = m then z else CHR ''x'' # b) \<Longrightarrow> hd z \<noteq> CHR ''x'' \<Longrightarrow> a = b"
  by (cases "a = m"; cases "b = m") auto

lemma hmac_updated: "kl_hmac_hex (l\<lparr>kl_hmac_hex := f\<rparr>) = f"
  by simp

lemma plain_lib_hmac:
  "kl_hmac_hex plain_lib d k = (if d = macFields commandMACCtx (command_fields demo_command) then hex_zeros 64 else CHR ''x'' # d)"
  unfolding plain_lib_def hmac_updated ..

lemma plain_lib_inj:
  assumes "kl_hmac_hex plain_lib x demo_key = kl_hmac_hex plain_lib y demo_key" shows "x = y"
proof -
  have "hd (hex_zeros 64) \<noteq> CHR ''x''" by code_simp
  then show ?thesis by (rule marked_inj [OF assms [unfolded plain_lib_hmac]])
qed

theorem verified_command_was_signed_witness:
  "\<exists>c1. SignCommand plain_lib (demo_command\<lparr>kc_signature := []\<rparr>) demo_key = Inr c1
      \<and> VerifyCommand plain_lib demo_command demo_key = Inr () \<and> demo_command = c1"
proof -
  have v: "VerifyCommand plain_lib demo_command demo_key = Inr ()" by code_simp
  let ?s = "SignCommand plain_lib (demo_command\<lparr>kc_signature := []\<rparr>) demo_key"
  have "\<not> isl ?s" by code_simp
  then obtain c1 where s: "?s = Inr c1" by (metis isl_def old.sum.exhaust)
  have "kc_signature demo_command = kc_signature (projr ?s)" by code_simp
  then have "kc_signature demo_command = kc_signature c1" unfolding s by simp
  then have "demo_command = c1" using verified_command_was_signed [OF plain_lib_inj s v] by blast
  then show ?thesis using s v by blast
qed

end
