(* ===== verification/Approval.thy ===== *)
theory Approval
  imports Printed_Numbers "HOL-Library.AList" "HOL-Library.List_Lexorder" "HOL-Library.Char_ord"
begin

text \<open>
  The approval backends: the operator's decision files and terminal prompt
  (\<^verbatim>\<open>src/internal/approval/engine.go\<close>), the durable approvals with signed receipts
  (\<^verbatim>\<open>src/internal/approval/durable.go\<close>) and the decision receipts themselves
  (\<^verbatim>\<open>src/internal/receipt/receipt.go\<close>).

  A directory is a map from file names to contents. What other processes do while a request waits is
  a list of edits per tick of the polling loop; the timeout is the end of that list. JSON, SHA-256 and
  Ed25519 are the fields of approval_lib; failures of file operations, the clock and the random nonce
  are the fields of approval_io.
\<close>

section \<open>Decision receipts\<close>

record decision_receipt =
  dc_execution_id :: string
  dc_session_id :: string
  dc_agent_id :: string
  dc_server :: string
  dc_tool :: string
  dc_original_request :: string
  dc_redacted_args :: string
  dc_policy_version :: string
  dc_policy_hash :: string
  dc_chain_context_hash :: string
  dc_approval_reason :: string
  dc_risk_level :: string
  dc_approver_id :: string
  dc_decision :: string
  dc_expiry :: int
  dc_nonce :: string
  dc_key_id :: string
  dc_algorithm :: string
  dc_public_key :: string
  dc_signature :: string

record approval_request =
  aq_id :: string
  aq_tool :: string
  aq_server :: string
  aq_arguments :: args
  aq_reason :: string
  aq_risk_level :: string
  aq_session_id :: string
  aq_agent_id :: string

record durable_request =
  pr_id :: string
  pr_tool :: string
  pr_server :: string
  pr_args :: args
  pr_reason :: string
  pr_risk_level :: string
  pr_session_id :: string
  pr_agent_id :: string
  pr_created_at :: int
  pr_expires_at :: int
  pr_request_hash :: string

record approval_lib =
  al_request_json :: "approval_request \<Rightarrow> string"
  al_marshal_pending :: "durable_request \<Rightarrow> string option"
  al_decode_pending :: "string \<Rightarrow> durable_request option"
  al_marshal_receipt :: "decision_receipt \<Rightarrow> string option"
  al_decode_receipt :: "string \<Rightarrow> decision_receipt option"
  al_signing_json :: "decision_receipt \<Rightarrow> string"
  al_sha256_hex :: "string \<Rightarrow> string"
  al_args_string :: "args \<Rightarrow> string"
  al_sign :: "string \<Rightarrow> string \<Rightarrow> string"
  al_verify :: "string \<Rightarrow> string \<Rightarrow> string \<Rightarrow> bool"

text \<open>\<^verbatim>\<open>hex.EncodeToString\<close> and \<^verbatim>\<open>hex.DecodeString\<close>.\<close>

definition hex_encode :: "string \<Rightarrow> string" where
  "hex_encode s = concat (map (\<lambda>c. [hex_digit (int (byte c) div 16), hex_digit (int (byte c) mod 16)]) s)"

fun hex_decode :: "string \<Rightarrow> string option" where
  "hex_decode [] = Some []"
| "hex_decode [c] = None"
| "hex_decode (a # b # s) =
     (case (hex_value a, hex_value b, hex_decode s) of
        (Some x, Some y, Some r) \<Rightarrow> Some (char_of (nat (16 * x + y)) # r)
      | _ \<Rightarrow> None)"

text \<open>The text fields that \<^verbatim>\<open>NewReceipt\<close> takes one by one.\<close>

type_synonym receipt_text = string

definition NewReceipt ::
  "approval_lib \<Rightarrow> string option \<Rightarrow> int \<Rightarrow> receipt_text \<Rightarrow> receipt_text \<Rightarrow> receipt_text \<Rightarrow> receipt_text \<Rightarrow> receipt_text \<Rightarrow> receipt_text \<Rightarrow> receipt_text
   \<Rightarrow> receipt_text \<Rightarrow> receipt_text \<Rightarrow> receipt_text \<Rightarrow> receipt_text \<Rightarrow> receipt_text \<Rightarrow> receipt_text \<Rightarrow> receipt_text \<Rightarrow> int \<Rightarrow> decision_receipt option" where
  "NewReceipt L nonce now executionID sessionID agentID server tool originalRequest redactedArgs
     policyVersion policyYAML chainContext approvalReason riskLevel approverID decision ttl =
     (case nonce of
        None \<Rightarrow> None
      | Some n \<Rightarrow> Some
         \<lparr>dc_execution_id = executionID, dc_session_id = sessionID, dc_agent_id = agentID, dc_server = server,
          dc_tool = tool, dc_original_request = al_sha256_hex L originalRequest,
          dc_redacted_args = al_sha256_hex L redactedArgs, dc_policy_version = policyVersion,
          dc_policy_hash = al_sha256_hex L policyYAML, dc_chain_context_hash = al_sha256_hex L chainContext,
          dc_approval_reason = approvalReason, dc_risk_level = riskLevel, dc_approver_id = approverID,
          dc_decision = decision, dc_expiry = (now + ttl) div 1000000000, dc_nonce = n, dc_key_id = [],
          dc_algorithm = [], dc_public_key = [], dc_signature = []\<rparr>)"

definition signingPayload :: "approval_lib \<Rightarrow> decision_receipt \<Rightarrow> string" where
  "signingPayload L r = al_signing_json L (r\<lparr>dc_signature := []\<rparr>)"

record key_pair =
  kp_public :: string
  kp_private :: string
  kp_id :: string

definition Sign_receipt :: "approval_lib \<Rightarrow> key_pair \<Rightarrow> decision_receipt \<Rightarrow> decision_receipt" where
  "Sign_receipt L key r =
     (let r1 = r\<lparr>dc_key_id := kp_id key, dc_algorithm := ''ed25519'', dc_public_key := hex_encode (kp_public key),
                dc_signature := []\<rparr>
      in r1\<lparr>dc_signature := hex_encode (al_sign L (kp_private key) (signingPayload L r1))\<rparr>)"

definition Verify_receipt :: "approval_lib \<Rightarrow> string \<Rightarrow> decision_receipt \<Rightarrow> bool" where
  "Verify_receipt L pub r \<longleftrightarrow>
     dc_signature r \<noteq> []
     \<and> (case hex_decode (dc_signature r) of None \<Rightarrow> False | Some sig \<Rightarrow> al_verify L pub (signingPayload L r) sig)"

definition IsExpired_receipt :: "int \<Rightarrow> decision_receipt \<Rightarrow> bool" where
  "IsExpired_receipt now r \<longleftrightarrow> now div 1000000000 > dc_expiry r"

section \<open>The decision files\<close>

type_synonym dir = "string \<Rightarrow> string option"

record approval_engine =
  ae_dir :: string
  ae_timeout :: int
  ae_cli :: bool

datatype approval_error =
    NotConfigured | UnsafeNul | UnsafeSeparator | UnsafeDot | UnsafeComponent | EscapesStateDir
  | WriteFailure | RemoveFailure | MarshalFailure | TimedOut | ReadInputFailed
  | MissingFields | InvalidReceipt | ReceiptExpired | NoVerificationKey | NotVerified | UnknownExecution
  | ReceiptMismatch | InvalidDecision | PendingNotFound | RequestExpired | InvalidStateFile | ReadDirFailed
  | BadStateDir

definition NewEngine :: "string option \<Rightarrow> bool \<Rightarrow> string \<Rightarrow> int \<Rightarrow> approval_error + approval_engine" where
  "NewEngine absdir mkdirOK dir timeout =
     (if dir = [] then Inr \<lparr>ae_dir = [], ae_timeout = timeout, ae_cli = False\<rparr>
      else case absdir of
        None \<Rightarrow> Inl BadStateDir
      | Some p \<Rightarrow> if \<not> mkdirOK then Inl BadStateDir else Inr \<lparr>ae_dir = p, ae_timeout = timeout, ae_cli = False\<rparr>)"

definition NewCLIEngine :: "int \<Rightarrow> approval_engine" where
  "NewCLIEngine timeout = \<lparr>ae_dir = [], ae_timeout = timeout, ae_cli = True\<rparr>"

definition MustEngine :: "string option \<Rightarrow> bool \<Rightarrow> string \<Rightarrow> int \<Rightarrow> approval_engine" where
  "MustEngine absdir mkdirOK dir timeout =
     (case NewEngine absdir mkdirOK dir timeout of
        Inl _ \<Rightarrow> \<lparr>ae_dir = [], ae_timeout = timeout, ae_cli = False\<rparr>
      | Inr e \<Rightarrow> e)"

definition IsEnabled :: "approval_engine \<Rightarrow> bool" where
  "IsEnabled e \<longleftrightarrow> ae_dir e \<noteq> [] \<or> ae_cli e"

definition SetTimeout :: "int \<Rightarrow> approval_engine \<Rightarrow> approval_engine" where
  "SetTimeout d e = e\<lparr>ae_timeout := d\<rparr>"

definition validateApprovalFileID :: "string \<Rightarrow> approval_error option" where
  "validateApprovalFileID i =
     (if i = [] then None
      else if CHR 0x00 \<in> set i then Some UnsafeNul
      else if contains_any i [CHR 0x2F, CHR 0x5C] \<or> sep \<in> set i then Some UnsafeSeparator
      else if i = ''.'' \<or> i = ''..'' then Some UnsafeDot
      else if path_base i \<noteq> i then Some UnsafeComponent
      else None)"

text \<open>What the operator answers at the terminal before the timeout.\<close>

datatype cli_input = CliTimeout | CliError | CliLine string

definition requestCLIApproval :: "cli_input \<Rightarrow> approval_error + bool" where
  "requestCLIApproval inp =
     (case inp of
        CliTimeout \<Rightarrow> Inl TimedOut
      | CliError \<Rightarrow> Inl ReadInputFailed
      | CliLine s \<Rightarrow> Inr (trim_space (to_lower s) = ''yes''))"

definition req_file :: "string \<Rightarrow> string" where "req_file i = ''req-'' @ i @ ''.json''"
definition ok_file :: "string \<Rightarrow> string" where "ok_file i = ''req-'' @ i @ ''.ok''"
definition no_file :: "string \<Rightarrow> string" where "no_file i = ''req-'' @ i @ ''.no''"

definition cleanup :: "string \<Rightarrow> dir \<Rightarrow> dir" where
  "cleanup i d = d(req_file i := None, ok_file i := None, no_file i := None)"

definition apply_edits :: "(string \<times> string option) list \<Rightarrow> dir \<Rightarrow> dir" where
  "apply_edits es d = fold (\<lambda>(k, v) d. d(k := v)) es d"

fun waitForDecision :: "string \<Rightarrow> (string \<times> string option) list list \<Rightarrow> dir \<Rightarrow> (approval_error + bool) \<times> dir" where
  "waitForDecision i [] d = (Inl TimedOut, cleanup i d)"
| "waitForDecision i (es # ticks) d =
     (let d1 = apply_edits es d in
      if d1 (ok_file i) \<noteq> None then (Inr True, cleanup i d1)
      else if d1 (no_file i) \<noteq> None then (Inr False, cleanup i d1)
      else waitForDecision i ticks d1)"

record approval_io =
  io_cli :: cli_input
  io_request_written :: bool
  io_ticks :: "(string \<times> string option) list list"
  io_clk :: "nat \<Rightarrow> int"
  io_nonce :: "string option"
  io_write_ok :: bool
  io_remove_ok :: bool

definition writeRequest :: "approval_lib \<Rightarrow> approval_request \<Rightarrow> dir \<Rightarrow> dir" where
  "writeRequest L q d = d(req_file (aq_id q) := Some (al_request_json L q))"

definition RequestApprovalWithTimeout ::
  "approval_lib \<Rightarrow> approval_io \<Rightarrow> approval_engine \<Rightarrow> approval_request \<Rightarrow> dir \<Rightarrow> (approval_error + bool) \<times> dir" where
  "RequestApprovalWithTimeout L io e q d =
     (if ae_cli e then (requestCLIApproval (io_cli io), d)
      else if \<not> IsEnabled e then (Inl NotConfigured, d)
      else case validateApprovalFileID (aq_id q) of
        Some err \<Rightarrow> (Inl err, d)
      | None \<Rightarrow>
          if \<not> io_request_written io then (Inl WriteFailure, d)
          else waitForDecision (aq_id q) (io_ticks io) (writeRequest L q d))"

section \<open>Durable approvals\<close>

text \<open>The state directory by file name; None as a content is a file that cannot be read.\<close>

type_synonym state_files = "(string \<times> string option) list"

record durable_engine =
  de_engine :: "approval_engine option"
  de_requests :: dir
  de_state_dir :: string
  de_pub_key :: string
  de_pending :: "(string \<times> durable_request) list"
  de_receipts :: "(string \<times> decision_receipt) list"
  de_files :: state_files

record durable_decision =
  dd_approved :: bool
  dd_requires_approval :: bool
  dd_reason :: string
  dd_execution_id :: string
  dd_request :: "durable_request option"
  dd_receipt :: "decision_receipt option"

definition no_decision :: durable_decision where
  "no_decision = \<lparr>dd_approved = False, dd_requires_approval = False, dd_reason = [], dd_execution_id = [],
     dd_request = None, dd_receipt = None\<rparr>"

definition hashRequest :: "string \<Rightarrow> string \<Rightarrow> string \<Rightarrow> string \<Rightarrow> string" where
  "hashRequest server tool sessionID agentID =
     length_prefixed (CHR '':'') server @ [CHR '':''] @ length_prefixed (CHR '':'') tool @ [CHR '':'']
     @ length_prefixed (CHR '':'') sessionID @ [CHR '':''] @ length_prefixed (CHR '':'') agentID"

definition receiptMatchesPending :: "decision_receipt \<Rightarrow> durable_request \<Rightarrow> bool" where
  "receiptMatchesPending r p \<longleftrightarrow>
     dc_execution_id r = pr_id p \<and> dc_server r = pr_server p \<and> dc_tool r = pr_tool p
     \<and> dc_session_id r = pr_session_id p \<and> dc_agent_id r = pr_agent_id p"

definition stateFilePath :: "string \<Rightarrow> string \<Rightarrow> string \<Rightarrow> approval_error + string" where
  "stateFilePath stateDir kind i =
     (case validateApprovalFileID i of
        Some e \<Rightarrow> Inl e
      | None \<Rightarrow>
          let name = kind @ ''-'' @ i @ ''.json'' in
          if path_base name \<noteq> name then Inl UnsafeComponent
          else let cleanDir = path_clean stateDir; cleanPath = path_clean (path_join [stateDir, name])
               in if cleanPath \<noteq> cleanDir \<and> \<not> starts_with (cleanDir @ [sep]) cleanPath then Inl EscapesStateDir
                  else Inr cleanPath)"

definition persist :: "approval_io \<Rightarrow> string \<Rightarrow> string \<Rightarrow> string option \<Rightarrow> durable_engine \<Rightarrow> approval_error + durable_engine" where
  "persist io kind i data de =
     (if de_state_dir de = [] then Inr de
      else case data of
        None \<Rightarrow> Inl MarshalFailure
      | Some bytes \<Rightarrow>
          (case stateFilePath (de_state_dir de) kind i of
             Inl e \<Rightarrow> Inl e
           | Inr path \<Rightarrow>
               if io_write_ok io then Inr (de\<lparr>de_files := AList.update (path_base path) (Some bytes) (de_files de)\<rparr>)
               else Inl WriteFailure))"

definition persistRequest :: "approval_lib \<Rightarrow> approval_io \<Rightarrow> durable_request \<Rightarrow> durable_engine \<Rightarrow> approval_error + durable_engine" where
  "persistRequest L io p de = persist io ''pending'' (pr_id p) (al_marshal_pending L p) de"

definition persistReceipt :: "approval_lib \<Rightarrow> approval_io \<Rightarrow> decision_receipt \<Rightarrow> durable_engine \<Rightarrow> approval_error + durable_engine" where
  "persistReceipt L io r de = persist io ''receipt'' (dc_execution_id r) (al_marshal_receipt L r) de"

definition removePending :: "bool \<Rightarrow> string \<Rightarrow> durable_engine \<Rightarrow> approval_error + durable_engine" where
  "removePending ok i de =
     (if de_state_dir de = [] then Inr de
      else case stateFilePath (de_state_dir de) ''pending'' i of
        Inl e \<Rightarrow> Inl e
      | Inr path \<Rightarrow>
          if ok \<or> map_of (de_files de) (path_base path) = None
          then Inr (de\<lparr>de_files := AList.delete (path_base path) (de_files de)\<rparr>)
          else Inl RemoveFailure)"

definition exec_id :: "int \<Rightarrow> string \<Rightarrow> string" where
  "exec_id now i = ''exec-'' @ itoa now @ ''-'' @ i"

type_synonym decision_result = "durable_decision option \<times> approval_error option"

definition live_receipt :: "approval_lib \<Rightarrow> approval_io \<Rightarrow> approval_request \<Rightarrow> decision_receipt option" where
  "live_receipt L io q =
     NewReceipt L (io_nonce io) (io_clk io 2) (exec_id (io_clk io 1) (aq_id q))
       (aq_session_id q) (aq_agent_id q) (aq_server q) (aq_tool q) (aq_reason q)
       (al_args_string L (aq_arguments q)) ''1.0'' ''embedded-policy'' ''live-session''
       (aq_reason q) (aq_risk_level q) ''cli-approver'' ''approve'' 300000000000"

definition live_approval :: "approval_lib \<Rightarrow> approval_io \<Rightarrow> approval_request \<Rightarrow> durable_engine \<Rightarrow> decision_result \<times> durable_engine" where
  "live_approval L io q de =
     (case de_engine de of None \<Rightarrow> ((None, Some NotConfigured), de)
      | Some e \<Rightarrow>
        (case RequestApprovalWithTimeout L io e q (de_requests de) of (ans, d1) \<Rightarrow>
          let de1 = de\<lparr>de_requests := d1\<rparr> in
          (case ans of
             Inl err \<Rightarrow> ((Some (no_decision\<lparr>dd_reason := ''approval error''\<rparr>), Some err), de1)
           | Inr ok \<Rightarrow>
               if \<not> ok then ((Some (no_decision\<lparr>dd_reason := ''approval denied by operator''\<rparr>), None), de1)
               else
                 (case live_receipt L io q of
                    None \<Rightarrow> ((Some (no_decision\<lparr>dd_approved := True\<rparr>), None), de1)
                  | Some r \<Rightarrow>
                      ((Some (no_decision\<lparr>dd_approved := True, dd_receipt := Some r, dd_execution_id := dc_execution_id r\<rparr>), None),
                       de1\<lparr>de_receipts :=
                         AList.update (hashRequest (aq_server q) (aq_tool q) (aq_session_id q) (aq_agent_id q)) r (de_receipts de)\<rparr>)))))"

definition defer_approval :: "approval_lib \<Rightarrow> approval_io \<Rightarrow> approval_request \<Rightarrow> string \<Rightarrow> durable_engine \<Rightarrow> decision_result \<times> durable_engine" where
  "defer_approval L io q h de =
     (let execID = exec_id (io_clk io 1) (aq_id q);
          p = \<lparr>pr_id = execID, pr_tool = aq_tool q, pr_server = aq_server q, pr_args = aq_arguments q,
               pr_reason = aq_reason q, pr_risk_level = aq_risk_level q, pr_session_id = aq_session_id q,
               pr_agent_id = aq_agent_id q, pr_created_at = io_clk io 2, pr_expires_at = io_clk io 3 + 3600000000000,
               pr_request_hash = h\<rparr>
      in case persistRequest L io p de of
           Inl e \<Rightarrow> ((None, Some e), de)
         | Inr de1 \<Rightarrow>
             ((Some (no_decision\<lparr>dd_requires_approval := True, dd_execution_id := execID, dd_request := Some p\<rparr>), None),
              de1\<lparr>de_pending := AList.update execID p (de_pending de1)\<rparr>))"

definition RequestApproval :: "approval_lib \<Rightarrow> approval_io \<Rightarrow> approval_request \<Rightarrow> durable_engine \<Rightarrow> decision_result \<times> durable_engine" where
  "RequestApproval L io q de =
     (if aq_tool q = [] \<or> aq_server q = [] \<or> aq_session_id q = [] \<or> aq_agent_id q = [] then ((None, Some MissingFields), de)
      else case validateApprovalFileID (aq_id q) of
        Some e \<Rightarrow> ((None, Some e), de)
      | None \<Rightarrow>
        (let h = hashRequest (aq_server q) (aq_tool q) (aq_session_id q) (aq_agent_id q);
             fresh = (\<lambda>de. if (case de_engine de of None \<Rightarrow> False | Some e \<Rightarrow> IsEnabled e)
                           then live_approval L io q de else defer_approval L io q h de)
         in case map_of (de_receipts de) h of
              None \<Rightarrow> fresh de
            | Some r \<Rightarrow>
                if IsExpired_receipt (io_clk io 0) r then fresh (de\<lparr>de_receipts := AList.delete h (de_receipts de)\<rparr>)
                else if dc_decision r = ''approve''
                then ((Some (no_decision\<lparr>dd_approved := True, dd_receipt := Some r, dd_execution_id := dc_execution_id r\<rparr>), None), de)
                else ((Some (no_decision\<lparr>dd_reason := ''receipt denied: '' @ dc_approval_reason r, dd_execution_id := dc_execution_id r\<rparr>), None), de)))"

definition receipt_key :: "decision_receipt \<Rightarrow> string" where
  "receipt_key r = hashRequest (dc_server r) (dc_tool r) (dc_session_id r) (dc_agent_id r)"

definition SubmitReceipt :: "approval_lib \<Rightarrow> approval_io \<Rightarrow> string \<Rightarrow> durable_engine \<Rightarrow> decision_result \<times> durable_engine" where
  "SubmitReceipt L io raw de =
     (case al_decode_receipt L raw of
        None \<Rightarrow> ((None, Some InvalidReceipt), de)
      | Some r \<Rightarrow>
          if IsExpired_receipt (io_clk io 0) r
          then ((Some (no_decision\<lparr>dd_reason := ''receipt expired'', dd_execution_id := dc_execution_id r\<rparr>), Some ReceiptExpired), de)
          else if length (de_pub_key de) \<noteq> 32 then ((None, Some NoVerificationKey), de)
          else if \<not> Verify_receipt L (de_pub_key de) r then ((None, Some NotVerified), de)
          else case map_of (de_pending de) (dc_execution_id r) of
            None \<Rightarrow>
              (case map_of (de_receipts de) (receipt_key r) of
                 Some x \<Rightarrow> ((Some (no_decision\<lparr>dd_approved := (dc_decision x = ''approve''), dd_receipt := Some x,
                                              dd_execution_id := dc_execution_id x\<rparr>), None), de)
               | None \<Rightarrow> ((None, Some UnknownExecution), de))
          | Some p \<Rightarrow>
              if \<not> receiptMatchesPending r p then ((None, Some ReceiptMismatch), de)
              else if dc_decision r \<noteq> ''approve'' \<and> dc_decision r \<noteq> ''deny'' then ((None, Some InvalidDecision), de)
              else (case persistReceipt L io r de of
                 Inl e \<Rightarrow> ((None, Some e), de)
               | Inr de1 \<Rightarrow>
                   (case removePending (io_remove_ok io) (dc_execution_id r) de1 of
                      Inl e \<Rightarrow> ((None, Some e), de1)
                    | Inr de2 \<Rightarrow>
                        (let de3 = de2\<lparr>de_pending := AList.delete (dc_execution_id r) (de_pending de2),
                                      de_receipts := AList.update (receipt_key r) r (de_receipts de2)\<rparr>
                         in if dc_decision r = ''approve''
                            then ((Some (no_decision\<lparr>dd_approved := True, dd_receipt := Some r, dd_execution_id := dc_execution_id r\<rparr>), None), de3)
                            else ((Some (no_decision\<lparr>dd_reason := ''receipt denied: '' @ dc_approval_reason r, dd_receipt := Some r,
                                                    dd_execution_id := dc_execution_id r\<rparr>), None), de3)))))"

definition GetPendingRequest :: "approval_io \<Rightarrow> string \<Rightarrow> durable_engine \<Rightarrow> (approval_error + durable_request) \<times> durable_engine" where
  "GetPendingRequest io i de =
     (case map_of (de_pending de) i of
        None \<Rightarrow> (Inl PendingNotFound, de)
      | Some p \<Rightarrow>
          if io_clk io 0 > pr_expires_at p
          then (let de1 = de\<lparr>de_pending := AList.delete i (de_pending de)\<rparr>
                in case removePending (io_remove_ok io) i de1 of
                     Inl e \<Rightarrow> (Inl e, de1)
                   | Inr de2 \<Rightarrow> (Inl RequestExpired, de2))
          else (Inr p, de))"

definition PendingRequests :: "durable_engine \<Rightarrow> durable_request list" where
  "PendingRequests de = map snd (AList.clearjunk (de_pending de))"

text \<open>\<^verbatim>\<open>Cleanup\<close>: every expired pending request and receipt is forgotten; its file is removed when
  that is possible (the errors are dropped, so a removal that fails leaves the file).\<close>

definition drop_file :: "bool \<Rightarrow> string \<Rightarrow> string \<Rightarrow> durable_engine \<Rightarrow> durable_engine" where
  "drop_file ok kind i de =
     (if de_state_dir de = [] then de
      else case stateFilePath (de_state_dir de) kind i of
        Inl _ \<Rightarrow> de
      | Inr path \<Rightarrow> if ok then de\<lparr>de_files := AList.delete (path_base path) (de_files de)\<rparr> else de)"

definition Cleanup :: "approval_io \<Rightarrow> durable_engine \<Rightarrow> durable_engine" where
  "Cleanup io de =
     (let now = io_clk io 0;
          oldP = filter (\<lambda>(i, p). now > pr_expires_at p) (de_pending de);
          de1 = fold (\<lambda>(i, p) d. drop_file (io_remove_ok io) ''pending'' i (d\<lparr>de_pending := AList.delete i (de_pending d)\<rparr>)) oldP de;
          oldR = filter (\<lambda>(h, r). IsExpired_receipt now r) (de_receipts de)
      in fold (\<lambda>(h, r) d. drop_file (io_remove_ok io) ''receipt'' (dc_execution_id r) (d\<lparr>de_receipts := AList.delete h (de_receipts d)\<rparr>)) oldR de1)"

text \<open>Loading the state directory. The year-1 zero value of \<^verbatim>\<open>time.Time\<close> in nanoseconds:\<close>

definition zero_time :: int where "zero_time = -62135596800000000000"

fun load_receipts :: "approval_lib \<Rightarrow> int \<Rightarrow> string \<Rightarrow> state_files
    \<Rightarrow> (string \<times> decision_receipt) list \<times> (string \<times> decision_receipt) list
    \<Rightarrow> approval_error + (string \<times> decision_receipt) list \<times> (string \<times> decision_receipt) list" where
  "load_receipts L now pub [] acc = Inr acc"
| "load_receipts L now pub ((name, content) # fs) acc =
     (case content of
        None \<Rightarrow> Inl InvalidStateFile
      | Some data \<Rightarrow>
          (case al_decode_receipt L data of
             None \<Rightarrow> Inl InvalidStateFile
           | Some r \<Rightarrow>
               if IsExpired_receipt now r then load_receipts L now pub fs acc
               else if length pub \<noteq> 32 then Inl NoVerificationKey
               else if \<not> Verify_receipt L pub r then Inl NotVerified
               else if dc_execution_id r = [] \<or> dc_server r = [] \<or> dc_tool r = [] \<or> dc_session_id r = [] \<or> dc_agent_id r = []
               then Inl InvalidStateFile
               else if validateApprovalFileID (dc_execution_id r) \<noteq> None then Inl InvalidStateFile
               else if dc_decision r \<noteq> ''approve'' \<and> dc_decision r \<noteq> ''deny'' then Inl InvalidDecision
               else if name \<noteq> ''receipt-'' @ dc_execution_id r @ ''.json'' then Inl InvalidStateFile
               else load_receipts L now pub fs
                      (AList.update (receipt_key r) r (fst acc), AList.update (dc_execution_id r) r (snd acc))))"

fun load_pending :: "approval_lib \<Rightarrow> int \<Rightarrow> bool \<Rightarrow> (string \<times> decision_receipt) list \<Rightarrow> state_files \<Rightarrow> durable_engine
    \<Rightarrow> approval_error + durable_engine" where
  "load_pending L now ok done [] de = Inr de"
| "load_pending L now ok done ((name, content) # fs) de =
     (case content of
        None \<Rightarrow> Inl InvalidStateFile
      | Some data \<Rightarrow>
          (case al_decode_pending L data of
             None \<Rightarrow> Inl InvalidStateFile
           | Some p \<Rightarrow>
               if pr_id p = [] \<or> pr_tool p = [] \<or> pr_server p = [] \<or> pr_session_id p = [] \<or> pr_agent_id p = []
                  \<or> pr_expires_at p = zero_time
               then Inl InvalidStateFile
               else if validateApprovalFileID (pr_id p) \<noteq> None then Inl InvalidStateFile
               else if name \<noteq> ''pending-'' @ pr_id p @ ''.json'' then Inl InvalidStateFile
               else (case map_of done (pr_id p) of
                  Some r \<Rightarrow>
                    if \<not> receiptMatchesPending r p then Inl ReceiptMismatch
                    else (case removePending ok (pr_id p) de of
                            Inl e \<Rightarrow> Inl e
                          | Inr de1 \<Rightarrow> load_pending L now ok done fs de1)
                | None \<Rightarrow>
                    load_pending L now ok done fs
                      (if now < pr_expires_at p then de\<lparr>de_pending := AList.update (pr_id p) p (de_pending de)\<rparr> else de))))"

definition loadState :: "approval_lib \<Rightarrow> approval_io \<Rightarrow> durable_engine \<Rightarrow> approval_error + durable_engine" where
  "loadState L io de =
     (if de_state_dir de = [] then Inr de
      else
        let entries = sort_key fst (de_files de);
            pendings = filter (\<lambda>(n, _). starts_with ''pending-'' n) entries;
            receipts = filter (\<lambda>(n, _). starts_with ''receipt-'' n) entries
        in if list_ex (\<lambda>(n, _). path_ext n \<noteq> ''.json'') (pendings @ receipts) then Inl InvalidStateFile
           else case load_receipts L (io_clk io 0) (de_pub_key de) receipts (de_receipts de, []) of
             Inl e \<Rightarrow> Inl e
           | Inr (tab, done) \<Rightarrow> load_pending L (io_clk io 0) (io_remove_ok io) done pendings (de\<lparr>de_receipts := tab\<rparr>))"

definition NewDurableEngine :: "approval_lib \<Rightarrow> approval_io \<Rightarrow> string option \<Rightarrow> bool \<Rightarrow> approval_engine option \<Rightarrow> dir
    \<Rightarrow> string \<Rightarrow> string \<Rightarrow> state_files \<Rightarrow> approval_error + durable_engine" where
  "NewDurableEngine L io absdir mkdirOK e reqs stateDir pub fs =
     (let mk = (\<lambda>sd. \<lparr>de_engine = e, de_requests = reqs, de_state_dir = sd, de_pub_key = pub, de_pending = [],
                      de_receipts = [], de_files = fs\<rparr>)
      in if stateDir = [] then Inr (mk [])
         else case absdir of
           None \<Rightarrow> Inl BadStateDir
         | Some p \<Rightarrow> if \<not> mkdirOK then Inl BadStateDir else loadState L io (mk p))"

section \<open>Keys and names\<close>

lemma colon_no_digit: "\<not> is_digit_ascii (CHR '':'')"
  by code_simp

lemma hashRequest_inj:
  assumes "hashRequest s t a b = hashRequest s' t' a' b'"
  shows "s = s' \<and> t = t' \<and> a = a' \<and> b = b'"
proof -
  note inj = length_prefixed_inj [OF _ colon_no_digit]
  have 1: "s = s' \<and> [CHR '':''] @ length_prefixed (CHR '':'') t @ [CHR '':''] @ length_prefixed (CHR '':'') a @ [CHR '':''] @ length_prefixed (CHR '':'') b
      = [CHR '':''] @ length_prefixed (CHR '':'') t' @ [CHR '':''] @ length_prefixed (CHR '':'') a' @ [CHR '':''] @ length_prefixed (CHR '':'') b'"
    by (rule inj) (use assms in \<open>simp only: hashRequest_def\<close>)
  then have 2: "t = t' \<and> [CHR '':''] @ length_prefixed (CHR '':'') a @ [CHR '':''] @ length_prefixed (CHR '':'') b
      = [CHR '':''] @ length_prefixed (CHR '':'') a' @ [CHR '':''] @ length_prefixed (CHR '':'') b'"
    by (intro inj) simp
  then have 3: "a = a' \<and> [CHR '':''] @ length_prefixed (CHR '':'') b = [CHR '':''] @ length_prefixed (CHR '':'') b'"
    by (intro inj) simp
  then have "length_prefixed (CHR '':'') b @ [] = length_prefixed (CHR '':'') b' @ []" by simp
  then have "b = b'" using inj by blast
  with 1 2 3 show ?thesis by blast
qed

lemma request_files_distinct:
  "req_file i \<noteq> ok_file j" "req_file i \<noteq> no_file j" "ok_file i \<noteq> no_file j"
  "ok_file i = ok_file j \<longleftrightarrow> i = j" "no_file i = no_file j \<longleftrightarrow> i = j" "req_file i = req_file j \<longleftrightarrow> i = j"
proof -
  have e: "last (req_file i) = CHR ''n''" "last (ok_file i) = CHR ''k''" "last (no_file i) = CHR ''o''" for i
    by (simp_all add: req_file_def ok_file_def no_file_def)
  show "req_file i \<noteq> ok_file j" using e(1)[of i] e(2)[of j] by auto
  show "req_file i \<noteq> no_file j" using e(1)[of i] e(3)[of j] by auto
  show "ok_file i \<noteq> no_file j" using e(2)[of i] e(3)[of j] by auto
qed (simp_all add: req_file_def ok_file_def no_file_def)

definition request_files :: "string \<Rightarrow> string set" where
  "request_files i = {req_file i, ok_file i, no_file i}"

lemma request_files_disjoint: "i \<noteq> j \<Longrightarrow> request_files i \<inter> request_files j = {}"
  using request_files_distinct by (auto simp: request_files_def)

lemma cleanup_files: "f \<in> request_files i \<Longrightarrow> cleanup i d f = None"
  by (auto simp: request_files_def cleanup_def)

lemma cleanup_others: "f \<notin> request_files i \<Longrightarrow> cleanup i d f = d f"
  by (auto simp: request_files_def cleanup_def)

section \<open>Waiting\<close>

definition dir_at :: "(string \<times> string option) list list \<Rightarrow> dir \<Rightarrow> nat \<Rightarrow> dir" where
  "dir_at ticks d n = fold apply_edits (take (Suc n) ticks) d"

definition undecided :: "string \<Rightarrow> dir \<Rightarrow> bool" where
  "undecided i d \<longleftrightarrow> d (ok_file i) = None \<and> d (no_file i) = None"

definition decided :: "bool \<Rightarrow> string \<Rightarrow> dir \<Rightarrow> bool" where
  "decided b i d \<longleftrightarrow> (if b then d (ok_file i) \<noteq> None else d (ok_file i) = None \<and> d (no_file i) \<noteq> None)"

lemma dir_at_simps [simp]:
  "dir_at (es # ticks) d 0 = apply_edits es d"
  "dir_at (es # ticks) d (Suc n) = dir_at ticks (apply_edits es d) n"
  by (simp_all add: dir_at_def)

lemma wait_cleans: "f \<in> request_files i \<Longrightarrow> snd (waitForDecision i ticks d) f = None"
  by (induction i ticks d rule: waitForDecision.induct) (simp_all add: Let_def cleanup_files)

lemma wait_iff:
  "fst (waitForDecision i ticks d) = Inr b \<longleftrightarrow>
     (\<exists>n < length ticks. (\<forall>m < n. undecided i (dir_at ticks d m))
        \<and> decided b i (dir_at ticks d n))"
proof (induction i ticks d rule: waitForDecision.induct)
  case (2 i es ticks d)
  let ?d = "apply_edits es d"
  have rhs: "(\<exists>n < length (es # ticks). (\<forall>m < n. undecided i (dir_at (es # ticks) d m)) \<and> decided b i (dir_at (es # ticks) d n))
      \<longleftrightarrow> decided b i ?d \<or> (undecided i ?d \<and> (\<exists>n < length ticks. (\<forall>m < n. undecided i (dir_at ticks ?d m)) \<and> decided b i (dir_at ticks ?d n)))"
    (is "?L \<longleftrightarrow> ?R")
  proof
    assume ?L
    then obtain n where n: "n < Suc (length ticks)" "\<forall>m < n. undecided i (dir_at (es # ticks) d m)" "decided b i (dir_at (es # ticks) d n)"
      by auto
    show ?R
    proof (cases n)
      case (Suc k)
      have u: "undecided i ?d" using n(2) Suc by (auto dest: spec [of _ 0])
      have "\<forall>m < k. undecided i (dir_at ticks ?d m)" using n(2) Suc by (metis Suc_mono dir_at_simps(2))
      then show ?thesis using u n(1,3) Suc by (intro disjI2 conjI exI [of _ k]) simp_all
    qed (use n in simp)
  next
    assume ?R
    then show ?L
    proof
      assume "decided b i ?d" then show ?L by (intro exI [of _ 0]) simp
    next
      assume "undecided i ?d \<and> (\<exists>n < length ticks. (\<forall>m < n. undecided i (dir_at ticks ?d m)) \<and> decided b i (dir_at ticks ?d n))"
      then obtain n where n: "undecided i ?d" "n < length ticks" "\<forall>m < n. undecided i (dir_at ticks ?d m)" "decided b i (dir_at ticks ?d n)"
        by blast
      have "undecided i (dir_at (es # ticks) d m)" if "m < Suc n" for m using n that by (cases m) simp_all
      then show ?L using n by (intro exI [of _ "Suc n"]) simp
    qed
  qed
  have IH: "fst (waitForDecision i ticks ?d) = Inr b \<longleftrightarrow> (\<exists>n < length ticks. (\<forall>m < n. undecided i (dir_at ticks ?d m)) \<and> decided b i (dir_at ticks ?d n))"
    if "undecided i ?d" using 2 that by (simp add: undecided_def)
  show ?case unfolding rhs
    by (cases "?d (ok_file i)"; cases "?d (no_file i)"; cases b)
       (use IH in \<open>simp_all add: Let_def undecided_def decided_def\<close>)
qed simp

section \<open>State files\<close>

lemma valid_id_sep: "validateApprovalFileID i = None \<Longrightarrow> sep \<notin> set i"
  by (auto simp: validateApprovalFileID_def split: if_splits)

lemma path_base_word: "w \<noteq> [] \<Longrightarrow> sep \<notin> set w \<Longrightarrow> path_base w = w"
proof -
  assume w: "w \<noteq> []" "sep \<notin> set w"
  have "dropWhile (\<lambda>c. c = sep) (rev w) = rev w" 
  proof (cases "rev w")
    case (Cons a u)
    then have "a \<in> set w" using set_rev [of w] by simp
    then have "a \<noteq> sep" using w by blast
    then show ?thesis by (simp add: Cons)
  qed simp
  moreover have "takeWhile (\<lambda>c. c \<noteq> sep) (rev w) = rev w" using w by (auto simp: takeWhile_eq_all_conv)
  ultimately show ?thesis using w by (simp add: path_base_def del: takeWhile_eq_all_conv)
qed

definition state_name :: "string \<Rightarrow> string \<Rightarrow> string" where
  "state_name kind i = kind @ ''-'' @ i @ ''.json''"

lemma state_name_plain: "sep \<notin> set kind \<Longrightarrow> sep \<notin> set i \<Longrightarrow> plain_elem (state_name kind i)"
proof -
  assume s: "sep \<notin> set kind" "sep \<notin> set i"
  have l: "last (state_name kind i) = CHR ''n''" by (simp add: state_name_def)
  have "state_name kind i \<noteq> ''.''" "state_name kind i \<noteq> ''..''" using l by auto
  moreover have "sep \<notin> set (state_name kind i)" using s by (simp add: state_name_def sep_def)
  ultimately show ?thesis by (simp add: plain_elem_def good_elem_def state_name_def)
qed

lemma state_name_inj: "state_name k i = state_name k j \<longleftrightarrow> i = j"
  by (simp add: state_name_def)

lemma kinds_sep_free: "sep \<notin> set ''pending''" "sep \<notin> set ''receipt''"
  by (simp_all add: sep_def)

lemma state_file_path:
  assumes "list_all plain_elem ws" and "ws \<noteq> []" and "sep \<notin> set kind" and "validateApprovalFileID i = None"
  shows "stateFilePath (mk_abs ws) kind i = Inr (mk_abs (ws @ [state_name kind i]))"
proof -
  let ?n = "state_name kind i"
  have p: "plain_elem ?n" using state_name_plain assms(3) valid_id_sep [OF assms(4)] by blast
  then have "path_base ?n = ?n" by (intro path_base_word) (auto simp: plain_elem_def good_elem_def)
  moreover have j: "path_join [mk_abs ws, ?n] = mk_abs (ws @ [?n])" using path_join_abs [OF assms(1), of "[?n]"] p by simp
  moreover have "list_all plain_elem (ws @ [?n])" using assms(1) p by simp
  moreover have "starts_with (mk_abs ws @ [sep]) (mk_abs (ws @ [?n]))"
    using assms(2) by (simp add: mk_abs_snoc starts_with_iff)
  ultimately show ?thesis using assms(1,4) by (simp add: stateFilePath_def Let_def state_name_def)
qed

lemma persistD: "persist io kind i data de = Inr de1 \<Longrightarrow> \<exists>f. de1 = de\<lparr>de_files := f\<rparr>"
  by (auto simp: persist_def split: if_splits option.splits sum.splits intro: exI [of _ "de_files de"])

lemma removePendingD: "removePending ok i de = Inr de1 \<Longrightarrow> \<exists>f. de1 = de\<lparr>de_files := f\<rparr>"
  by (auto simp: removePending_def split: if_splits sum.splits intro: exI [of _ "de_files de"])

lemma drop_fileD: "\<exists>f. drop_file ok kind i de = de\<lparr>de_files := f\<rparr>"
  by (auto simp: drop_file_def split: sum.splits intro: exI [of _ "de_files de"])

section \<open>Every receipt in force is justified\<close>

type_synonym approval_subject = "string \<times> string \<times> string \<times> string"

definition request_subject :: "approval_request \<Rightarrow> approval_subject" where
  "request_subject q = (aq_server q, aq_tool q, aq_session_id q, aq_agent_id q)"

definition receipt_subject :: "decision_receipt \<Rightarrow> approval_subject" where
  "receipt_subject r = (dc_server r, dc_tool r, dc_session_id r, dc_agent_id r)"

definition request_key :: "approval_request \<Rightarrow> string" where
  "request_key q = hashRequest (aq_server q) (aq_tool q) (aq_session_id q) (aq_agent_id q)"

lemma receipt_key_subject: "receipt_key r = request_key q \<longleftrightarrow> receipt_subject r = request_subject q"
proof
  assume "receipt_key r = request_key q"
  from hashRequest_inj [OF this [unfolded receipt_key_def request_key_def]]
  show "receipt_subject r = request_subject q" by (simp add: receipt_subject_def request_subject_def)
qed (simp add: receipt_key_def request_key_def receipt_subject_def request_subject_def)

text \<open>The operator was asked for this request and approved it.\<close>

definition operator_approved :: "approval_lib \<Rightarrow> approval_io \<Rightarrow> approval_request \<Rightarrow> durable_engine \<Rightarrow> bool" where
  "operator_approved L io q de \<longleftrightarrow>
     (case map_of (de_receipts de) (request_key q) of None \<Rightarrow> True | Some r \<Rightarrow> IsExpired_receipt (io_clk io 0) r)
     \<and> (case de_engine de of
          None \<Rightarrow> False
        | Some e \<Rightarrow> IsEnabled e \<and> fst (RequestApprovalWithTimeout L io e q (de_requests de)) = Inr True)"

text \<open>Runs of a durable engine; H holds the subjects an operator approved live during the run.\<close>

inductive durable_run :: "approval_lib \<Rightarrow> approval_subject set \<Rightarrow> durable_engine \<Rightarrow> bool" for L where
  start: "NewDurableEngine L io absdir ok e reqs sd pub fs = Inr de \<Longrightarrow> durable_run L {} de"
| request: "durable_run L H de \<Longrightarrow> RequestApproval L io q de = (res, de')
    \<Longrightarrow> durable_run L (if operator_approved L io q de then insert (request_subject q) H else H) de'"
| submit: "durable_run L H de \<Longrightarrow> SubmitReceipt L io raw de = (res, de') \<Longrightarrow> durable_run L H de'"
| get_pending: "durable_run L H de \<Longrightarrow> GetPendingRequest io i de = (r, de') \<Longrightarrow> durable_run L H de'"
| clean_up: "durable_run L H de \<Longrightarrow> durable_run L H (Cleanup io de)"

definition receipts_justified :: "approval_lib \<Rightarrow> approval_subject set \<Rightarrow> durable_engine \<Rightarrow> bool" where
  "receipts_justified L H de \<longleftrightarrow>
     (\<forall>h r. map_of (de_receipts de) h = Some r \<longrightarrow>
        h = receipt_key r \<and> (Verify_receipt L (de_pub_key de) r \<or> receipt_subject r \<in> H))"

lemma justifiedD:
  "receipts_justified L H de \<Longrightarrow> map_of (de_receipts de) h = Some r
     \<Longrightarrow> h = receipt_key r \<and> (Verify_receipt L (de_pub_key de) r \<or> receipt_subject r \<in> H)"
  by (simp add: receipts_justified_def)

lemma justified_mono: "receipts_justified L H de \<Longrightarrow> receipts_justified L (insert x H) de"
  by (auto simp: receipts_justified_def)

lemma justified_sub:
  "receipts_justified L H de \<Longrightarrow> de_pub_key de' = de_pub_key de
     \<Longrightarrow> map_of (de_receipts de') \<subseteq>\<^sub>m map_of (de_receipts de) \<Longrightarrow> receipts_justified L H de'"
  unfolding receipts_justified_def map_le_def dom_def by (metis (mono_tags, lifting) mem_Collect_eq option.distinct(1))

lemma justified_update:
  assumes "receipts_justified L H de" and "Verify_receipt L (de_pub_key de) r \<or> receipt_subject r \<in> H"
  shows "receipts_justified L H (de\<lparr>de_receipts := AList.update (receipt_key r) r (de_receipts de)\<rparr>)"
  using assms by (auto simp: receipts_justified_def update_conv')

lemma justified_delete: "receipts_justified L H de \<Longrightarrow> receipts_justified L H (de\<lparr>de_receipts := AList.delete h (de_receipts de)\<rparr>)"
  by (auto simp: receipts_justified_def delete_conv' split: if_splits)

lemma load_receipts_step:
  assumes "load_receipts L now pub ((name, content) # fs) acc = Inr res"
  obtains (expired) data r where "content = Some data" "al_decode_receipt L data = Some r" "IsExpired_receipt now r"
      "load_receipts L now pub fs acc = Inr res"
  | (valid) data r where "content = Some data" "al_decode_receipt L data = Some r" "\<not> IsExpired_receipt now r"
      "Verify_receipt L pub r" "name = state_name ''receipt'' (dc_execution_id r)" "validateApprovalFileID (dc_execution_id r) = None"
      "dc_decision r \<in> {''approve'', ''deny''}"
      "load_receipts L now pub fs (AList.update (receipt_key r) r (fst acc), AList.update (dc_execution_id r) r (snd acc)) = Inr res"
proof -
  obtain data where c: "content = Some data" using assms by (cases content) simp_all
  obtain r where r: "al_decode_receipt L data = Some r" using assms c by (cases "al_decode_receipt L data") simp_all
  show thesis
  proof (cases "IsExpired_receipt now r")
    case True then show thesis using expired c r assms by simp
  next
    case False
    have "''receipt-'' @ dc_execution_id r @ ''.json'' = state_name ''receipt'' (dc_execution_id r)" by (simp add: state_name_def)
    then show thesis using valid [OF c r False] assms c r False by (simp split: if_split_asm)
  qed
qed

lemma load_receipts_justified:
  assumes "load_receipts L now pub fs acc = Inr (t, d)"
    and "\<And>h r. map_of (fst acc) h = Some r \<Longrightarrow> h = receipt_key r \<and> Verify_receipt L pub r"
    and "map_of t h = Some r"
  shows "h = receipt_key r \<and> Verify_receipt L pub r"
  using assms
proof (induction fs arbitrary: acc)
  case (Cons f fs)
  obtain name content where f: "f = (name, content)" by (cases f)
  from Cons.prems(1) [unfolded f] show ?case
  proof (cases rule: load_receipts_step)
    case (expired data r0)
    then show ?thesis using Cons.IH Cons.prems(2,3) by blast
  next
    case (valid data r0)
    show ?thesis
    proof (rule Cons.IH [OF valid(8) _ Cons.prems(3)])
      fix h' r' assume "map_of (fst (AList.update (receipt_key r0) r0 (fst acc), AList.update (dc_execution_id r0) r0 (snd acc))) h' = Some r'"
      then show "h' = receipt_key r' \<and> Verify_receipt L pub r'"
        using valid(4) Cons.prems(2) by (cases "h' = receipt_key r0") (simp_all add: update_conv')
    qed
  qed
qed simp

lemma load_pending_step:
  assumes "load_pending L now ok done ((name, content) # fs) de = Inr res"
  obtains (completed) data p de1 r where "content = Some data" "al_decode_pending L data = Some p"
      "name = state_name ''pending'' (pr_id p)" "map_of done (pr_id p) = Some r" "receiptMatchesPending r p"
      "removePending ok (pr_id p) de = Inr de1" "load_pending L now ok done fs de1 = Inr res"
  | (open_request) data p where "content = Some data" "al_decode_pending L data = Some p"
      "name = state_name ''pending'' (pr_id p)" "map_of done (pr_id p) = None"
      "load_pending L now ok done fs
         (if now < pr_expires_at p then de\<lparr>de_pending := AList.update (pr_id p) p (de_pending de)\<rparr> else de) = Inr res"
proof -
  obtain data where c: "content = Some data" using assms by (cases content) simp_all
  obtain p where p: "al_decode_pending L data = Some p" using assms c by (cases "al_decode_pending L data") simp_all
  have n: "name = state_name ''pending'' (pr_id p)"
    using assms c p by (simp add: state_name_def split: if_split_asm)
  show thesis
  proof (cases "map_of done (pr_id p)")
    case None then show thesis using open_request [OF c p n] assms c p by (simp split: if_split_asm)
  next
    case (Some r)
    have m: "receiptMatchesPending r p" using assms c p Some by (simp split: if_split_asm)
    obtain de1 where "removePending ok (pr_id p) de = Inr de1" "load_pending L now ok done fs de1 = Inr res"
      using assms c p Some by (cases "removePending ok (pr_id p) de") (simp_all split: if_split_asm)
    then show thesis using completed [OF c p n Some m] by blast
  qed
qed

lemma load_pending_fields:
  assumes "load_pending L now ok done fs de = Inr de'"
  shows "de_pub_key de' = de_pub_key de \<and> de_receipts de' = de_receipts de"
  using assms
proof (induction fs arbitrary: de)
  case (Cons f fs)
  obtain name content where f: "f = (name, content)" by (cases f)
  from Cons.prems [unfolded f] show ?case
  proof (cases rule: load_pending_step)
    case (completed data p de1 r)
    then show ?thesis using Cons.IH [OF completed(7)] removePendingD [OF completed(6)] by auto
  next
    case (open_request data p)
    then show ?thesis using Cons.IH [OF open_request(5)] by (auto split: if_splits)
  qed
qed simp

lemma load_state_split:
  assumes "loadState L io de = Inr de'" and "de_state_dir de \<noteq> []"
  obtains tab fin where
    "load_receipts L (io_clk io 0) (de_pub_key de) (filter (\<lambda>(n, _). starts_with ''receipt-'' n) (sort_key fst (de_files de)))
       (de_receipts de, []) = Inr (tab, fin)"
    "load_pending L (io_clk io 0) (io_remove_ok io) fin (filter (\<lambda>(n, _). starts_with ''pending-'' n) (sort_key fst (de_files de)))
       (de\<lparr>de_receipts := tab\<rparr>) = Inr de'"
  using assms unfolding loadState_def Let_def
  by (auto split: if_split_asm sum.split_asm)

lemma new_engine_justified:
  assumes "NewDurableEngine L io absdir ok e reqs sd pub fs = Inr de"
  shows "receipts_justified L {} de"
proof -
  let ?mk = "\<lambda>sd. \<lparr>de_engine = e, de_requests = reqs, de_state_dir = sd, de_pub_key = pub, de_pending = [],
                      de_receipts = [], de_files = fs\<rparr>"
  consider "de = ?mk []" | p where "loadState L io (?mk p) = Inr de"
  proof (cases "sd = []")
    case True then show thesis using that(1) assms by (simp add: NewDurableEngine_def Let_def)
  next
    case False
    obtain p where "absdir = Some p" using assms False by (cases absdir) (simp_all add: NewDurableEngine_def Let_def)
    then show thesis using that(2) [of p] assms False by (cases ok) (simp_all add: NewDurableEngine_def Let_def)
  qed
  then show ?thesis
  proof cases
    case 1 then show ?thesis by (simp add: receipts_justified_def)
  next
    case (2 p)
    show ?thesis
    proof (cases "p = []")
      case True
      then have "de = ?mk p" using 2 by (simp add: loadState_def)
      then show ?thesis by (simp add: receipts_justified_def)
    next
      case False
      then obtain tab fin where l: "load_receipts L (io_clk io 0) pub (filter (\<lambda>(n, _). starts_with ''receipt-'' n) (sort_key fst fs)) ([], []) = Inr (tab, fin)"
        "load_pending L (io_clk io 0) (io_remove_ok io) fin (filter (\<lambda>(n, _). starts_with ''pending-'' n) (sort_key fst fs))
          ((?mk p)\<lparr>de_receipts := tab\<rparr>) = Inr de"
        using load_state_split [OF 2] by (metis durable_engine.select_convs(3,4,6,7))
      have "de_pub_key de = pub" "de_receipts de = tab" using load_pending_fields [OF l(2)] by simp_all
      then show ?thesis using load_receipts_justified [OF l(1)] by (auto simp: receipts_justified_def)
    qed
  qed
qed

lemma live_receipt_fields:
  "live_receipt L io q = Some r \<Longrightarrow> receipt_subject r = request_subject q \<and> dc_decision r = ''approve''"
  unfolding live_receipt_def NewReceipt_def
  by (cases "io_nonce io") (auto simp: receipt_subject_def request_subject_def)

lemma live_approval_cases:
  assumes "live_approval L io q de = (res, de')" and "de_engine de = Some e"
  shows "(\<exists>d. de' = de\<lparr>de_requests := d\<rparr>)
     \<or> (fst (RequestApprovalWithTimeout L io e q (de_requests de)) = Inr True
        \<and> (\<exists>d r. receipt_subject r = request_subject q \<and> dc_decision r = ''approve''
             \<and> de' = de\<lparr>de_requests := d, de_receipts := AList.update (request_key q) r (de_receipts de)\<rparr>))"
proof -
  obtain ans d1 where a: "RequestApprovalWithTimeout L io e q (de_requests de) = (ans, d1)"
    by (cases "RequestApprovalWithTimeout L io e q (de_requests de)")
  show ?thesis
    using assms a
    by (cases ans; cases "live_receipt L io q")
       (auto simp: live_approval_def Let_def request_key_def dest!: live_receipt_fields split: if_splits)
qed

lemma defer_fields:
  assumes "defer_approval L io q h de = (res, de')"
  shows "de_pub_key de' = de_pub_key de \<and> de_receipts de' = de_receipts de"
  using assms
  by (auto simp: defer_approval_def Let_def persistRequest_def split: sum.splits dest!: persistD)

lemma request_approval_cases:
  assumes "RequestApproval L io q de = (res, de')"
  shows "de' = de
    \<or> (\<exists>t. map_of t \<subseteq>\<^sub>m map_of (de_receipts de)
         \<and> (case map_of (de_receipts de) (request_key q) of None \<Rightarrow> True | Some r \<Rightarrow> IsExpired_receipt (io_clk io 0) r)
         \<and> ((\<exists>e. de_engine de = Some e \<and> IsEnabled e \<and> live_approval L io q (de\<lparr>de_receipts := t\<rparr>) = (res, de'))
            \<or> defer_approval L io q (request_key q) (de\<lparr>de_receipts := t\<rparr>) = (res, de')))"
proof (cases "de' = de")
  case False
  have v: "validateApprovalFileID (aq_id q) = None"
    using assms False by (cases "validateApprovalFileID (aq_id q)") (simp_all add: RequestApproval_def split: if_split_asm)
  let ?fresh = "\<lambda>de. if (case de_engine de of None \<Rightarrow> False | Some e \<Rightarrow> IsEnabled e)
                     then live_approval L io q de else defer_approval L io q (request_key q) de"
  have pick: "(\<exists>e. de_engine d = Some e \<and> IsEnabled e \<and> live_approval L io q d = (res, de'))
            \<or> defer_approval L io q (request_key q) d = (res, de')" if "?fresh d = (res, de')" for d
    using that by (auto split: option.splits if_splits)
  show ?thesis
  proof (cases "map_of (de_receipts de) (request_key q)")
    case None
    have "?fresh de = (res, de')"
      using assms False v None unfolding RequestApproval_def request_key_def Let_def by (simp split: if_split_asm)
    from pick [OF this] show ?thesis using None by (intro disjI2 exI [of _ "de_receipts de"]) simp
  next
    case (Some r)
    let ?d = "de\<lparr>de_receipts := AList.delete (request_key q) (de_receipts de)\<rparr>"
    have x: "IsExpired_receipt (io_clk io 0) r" "?fresh ?d = (res, de')"
      using assms False v Some unfolding RequestApproval_def request_key_def Let_def by (simp_all split: if_split_asm)
    have "map_of (AList.delete (request_key q) (de_receipts de)) \<subseteq>\<^sub>m map_of (de_receipts de)"
      by (auto simp: delete_conv' map_le_def)
    then show ?thesis using pick [OF x(2)] x(1) Some by (intro disjI2 exI [of _ "AList.delete (request_key q) (de_receipts de)"]) simp
  qed
qed simp

lemma request_justified:
  assumes "receipts_justified L H de" and "RequestApproval L io q de = (res, de')"
  shows "receipts_justified L (if operator_approved L io q de then insert (request_subject q) H else H) de'"
proof -
  let ?H = "if operator_approved L io q de then insert (request_subject q) H else H"
  have base: "receipts_justified L ?H (de\<lparr>de_receipts := t\<rparr>)" if "map_of t \<subseteq>\<^sub>m map_of (de_receipts de)" for t
    using justified_sub [OF assms(1), of "de\<lparr>de_receipts := t\<rparr>"] that justified_mono by auto
  from request_approval_cases [OF assms(2)] show ?thesis
  proof (elim disjE exE conjE)
    assume "de' = de" then show ?thesis using assms(1) justified_mono by auto
  next
    fix t assume t: "map_of t \<subseteq>\<^sub>m map_of (de_receipts de)" "defer_approval L io q (request_key q) (de\<lparr>de_receipts := t\<rparr>) = (res, de')"
    have "de_pub_key de' = de_pub_key de" "de_receipts de' = t" using defer_fields [OF t(2)] by simp_all
    then show ?thesis using justified_sub [OF base [OF t(1)], of de'] by simp
  next
    fix t e assume t: "map_of t \<subseteq>\<^sub>m map_of (de_receipts de)"
      and x: "case map_of (de_receipts de) (request_key q) of None \<Rightarrow> True | Some r \<Rightarrow> IsExpired_receipt (io_clk io 0) r"
      and e: "de_engine de = Some e" "IsEnabled e" and l: "live_approval L io q (de\<lparr>de_receipts := t\<rparr>) = (res, de')"
    have e': "de_engine (de\<lparr>de_receipts := t\<rparr>) = Some e" using e by simp
    from live_approval_cases [OF l e'] show ?thesis
    proof (elim disjE exE conjE)
      fix d assume "de' = de\<lparr>de_receipts := t\<rparr>\<lparr>de_requests := d\<rparr>"
      then show ?thesis using justified_sub [OF base [OF t], of de'] by simp
    next
      fix d r assume a: "fst (RequestApprovalWithTimeout L io e q (de_requests (de\<lparr>de_receipts := t\<rparr>))) = Inr True"
        and r: "receipt_subject r = request_subject q"
        and de': "de' = de\<lparr>de_receipts := t\<rparr>\<lparr>de_requests := d, de_receipts := AList.update (request_key q) r (de_receipts (de\<lparr>de_receipts := t\<rparr>))\<rparr>"
      have op: "operator_approved L io q de" using x e a by (simp add: operator_approved_def)
      have k: "request_key q = receipt_key r" using receipt_key_subject r by metis
      have b: "receipts_justified L ?H (de\<lparr>de_receipts := t\<rparr>\<lparr>de_requests := d\<rparr>)"
        using justified_sub [OF base [OF t], of "de\<lparr>de_receipts := t\<rparr>\<lparr>de_requests := d\<rparr>"] by simp
      have "receipts_justified L ?H (de\<lparr>de_receipts := t\<rparr>\<lparr>de_requests := d\<rparr>\<lparr>de_receipts := AList.update (receipt_key r) r
              (de_receipts (de\<lparr>de_receipts := t\<rparr>\<lparr>de_requests := d\<rparr>))\<rparr>)"
        by (rule justified_update [OF b]) (use op r in simp)
      then show ?thesis using de' k by simp
    qed
  qed
qed

lemma submit_cases:
  assumes "SubmitReceipt L io raw de = (res, de')"
  shows "(\<exists>f. de' = de\<lparr>de_files := f\<rparr>)
    \<or> (\<exists>r p f. al_decode_receipt L raw = Some r \<and> Verify_receipt L (de_pub_key de) r \<and> \<not> IsExpired_receipt (io_clk io 0) r
         \<and> map_of (de_pending de) (dc_execution_id r) = Some p \<and> receiptMatchesPending r p
         \<and> dc_decision r \<in> {''approve'', ''deny''}
         \<and> de' = de\<lparr>de_files := f, de_pending := AList.delete (dc_execution_id r) (de_pending de),
                    de_receipts := AList.update (receipt_key r) r (de_receipts de)\<rparr>)"
proof (cases "\<exists>f. de' = de\<lparr>de_files := f\<rparr>")
  case False
  have ne: "de' \<noteq> de" using False by (metis durable_engine.surjective durable_engine.update_convs(7))
  obtain r where r: "al_decode_receipt L raw = Some r"
    using assms ne by (cases "al_decode_receipt L raw") (simp_all add: SubmitReceipt_def)
  have v: "\<not> IsExpired_receipt (io_clk io 0) r" "Verify_receipt L (de_pub_key de) r" "length (de_pub_key de) = 32"
    using assms ne r by (simp_all add: SubmitReceipt_def split: if_split_asm)
  obtain p where p: "map_of (de_pending de) (dc_execution_id r) = Some p"
    using assms ne r v by (cases "map_of (de_pending de) (dc_execution_id r)")
      (simp_all add: SubmitReceipt_def split: if_split_asm option.split_asm)
  have m: "receiptMatchesPending r p" "dc_decision r = ''approve'' \<or> dc_decision r = ''deny''"
    using assms ne r v p by (simp_all add: SubmitReceipt_def split: if_split_asm)
  obtain de1 where d1: "persistReceipt L io r de = Inr de1"
    using assms ne r v p m by (cases "persistReceipt L io r de") (simp_all add: SubmitReceipt_def split: if_split_asm)
  then obtain f1 where f1: "de1 = de\<lparr>de_files := f1\<rparr>" using persistD persistReceipt_def by metis
  have ne1: "de1 \<noteq> de'" using False f1 by blast
  obtain de2 where d2: "removePending (io_remove_ok io) (dc_execution_id r) de1 = Inr de2"
    using assms ne1 r v p m d1 by (cases "removePending (io_remove_ok io) (dc_execution_id r) de1")
      (simp_all add: SubmitReceipt_def split: if_split_asm)
  then obtain f2 where f2: "de2 = de1\<lparr>de_files := f2\<rparr>" using removePendingD by metis
  have "de' = de2\<lparr>de_pending := AList.delete (dc_execution_id r) (de_pending de2),
                 de_receipts := AList.update (receipt_key r) r (de_receipts de2)\<rparr>"
    using assms r v p m d1 d2 by (simp add: SubmitReceipt_def Let_def split: if_split_asm)
  then show ?thesis using r v p m f1 f2 by (intro disjI2 exI [of _ r] exI [of _ p] exI [of _ f2]) simp
qed simp

lemma submit_justified:
  assumes "receipts_justified L H de" and "SubmitReceipt L io raw de = (res, de')"
  shows "receipts_justified L H de'"
  using submit_cases [OF assms(2)]
proof (elim disjE exE conjE)
  fix f assume "de' = de\<lparr>de_files := f\<rparr>"
  then show ?thesis using justified_sub [OF assms(1), of de'] by simp
next
  fix r p f assume v: "Verify_receipt L (de_pub_key de) r"
    and de': "de' = de\<lparr>de_files := f, de_pending := AList.delete (dc_execution_id r) (de_pending de),
                    de_receipts := AList.update (receipt_key r) r (de_receipts de)\<rparr>"
  have "receipts_justified L H (de\<lparr>de_receipts := AList.update (receipt_key r) r (de_receipts de)\<rparr>)"
    using justified_update [OF assms(1)] v by blast
  from justified_sub [OF this, of de'] show ?thesis using de' by simp
qed

lemma cleanup_receipts_sub:
  "de_pub_key (Cleanup io de) = de_pub_key de \<and> map_of (de_receipts (Cleanup io de)) \<subseteq>\<^sub>m map_of (de_receipts de)"
proof -
  have P: "de_pub_key (fold (\<lambda>(i, p) d. drop_file ok k i (d\<lparr>de_pending := AList.delete i (de_pending d)\<rparr>)) ps de0) = de_pub_key de0
     \<and> de_receipts (fold (\<lambda>(i, p) d. drop_file ok k i (d\<lparr>de_pending := AList.delete i (de_pending d)\<rparr>)) ps de0) = de_receipts de0" for ok k ps de0
  proof (induction ps arbitrary: de0)
    case (Cons x ps)
    obtain i p where x: "x = (i, p)" by (cases x)
    obtain f where f: "drop_file ok k i (de0\<lparr>de_pending := AList.delete i (de_pending de0)\<rparr>) = de0\<lparr>de_pending := AList.delete i (de_pending de0)\<rparr>\<lparr>de_files := f\<rparr>"
      using drop_fileD by blast
    show ?case using Cons.IH [of "de0\<lparr>de_pending := AList.delete i (de_pending de0)\<rparr>\<lparr>de_files := f\<rparr>"] x f by simp
  qed simp
  have R: "de_pub_key (fold (\<lambda>(h, r) d. drop_file ok k (dc_execution_id r) (d\<lparr>de_receipts := AList.delete h (de_receipts d)\<rparr>)) rs de0) = de_pub_key de0
     \<and> map_of (de_receipts (fold (\<lambda>(h, r) d. drop_file ok k (dc_execution_id r) (d\<lparr>de_receipts := AList.delete h (de_receipts d)\<rparr>)) rs de0))
         \<subseteq>\<^sub>m map_of (de_receipts de0)" for ok k rs de0
  proof (induction rs arbitrary: de0)
    case (Cons x rs)
    obtain h r where x: "x = (h, r)" by (cases x)
    obtain f where f: "drop_file ok k (dc_execution_id r) (de0\<lparr>de_receipts := AList.delete h (de_receipts de0)\<rparr>) = de0\<lparr>de_receipts := AList.delete h (de_receipts de0)\<rparr>\<lparr>de_files := f\<rparr>"
      using drop_fileD by blast
    have "map_of (AList.delete h (de_receipts de0)) \<subseteq>\<^sub>m map_of (de_receipts de0)" by (auto simp: delete_conv' map_le_def)
    then show ?case using Cons.IH [of "de0\<lparr>de_receipts := AList.delete h (de_receipts de0)\<rparr>\<lparr>de_files := f\<rparr>"] x f
      by (auto intro: map_le_trans)
  qed simp
  let ?ps = "filter (\<lambda>(i, p). io_clk io 0 > pr_expires_at p) (de_pending de)"
  let ?rs = "filter (\<lambda>(h, r). IsExpired_receipt (io_clk io 0) r) (de_receipts de)"
  define de1 where "de1 = fold (\<lambda>(i, p) d. drop_file (io_remove_ok io) ''pending'' i (d\<lparr>de_pending := AList.delete i (de_pending d)\<rparr>)) ?ps de"
  have c: "Cleanup io de = fold (\<lambda>(h, r) d. drop_file (io_remove_ok io) ''receipt'' (dc_execution_id r) (d\<lparr>de_receipts := AList.delete h (de_receipts d)\<rparr>)) ?rs de1"
    by (simp only: Cleanup_def Let_def de1_def)
  have "de_pub_key de1 = de_pub_key de \<and> de_receipts de1 = de_receipts de" unfolding de1_def by (rule P)
  then show ?thesis using R [of "io_remove_ok io" "''receipt''" ?rs de1] unfolding c by simp
qed

lemma get_pending_fields:
  assumes "GetPendingRequest io i de = (r, de')"
  shows "de_pub_key de' = de_pub_key de \<and> de_receipts de' = de_receipts de"
proof (cases "map_of (de_pending de) i")
  case (Some p)
  show ?thesis
  proof (cases "removePending (io_remove_ok io) i (de\<lparr>de_pending := AList.delete i (de_pending de)\<rparr>)")
    case (Inl e) then show ?thesis using assms Some by (simp add: GetPendingRequest_def Let_def split: if_split_asm) auto
  next
    case (Inr de2)
    then obtain f where "de2 = de\<lparr>de_pending := AList.delete i (de_pending de)\<rparr>\<lparr>de_files := f\<rparr>" using removePendingD by blast
    then show ?thesis using assms Some Inr by (simp add: GetPendingRequest_def Let_def split: if_split_asm) auto
  qed
qed (use assms in \<open>simp add: GetPendingRequest_def\<close>)

lemma run_justified: "durable_run L H de \<Longrightarrow> receipts_justified L H de"
proof (induction rule: durable_run.induct)
  case (start io absdir ok e reqs sd pub fs de) then show ?case by (rule new_engine_justified)
next
  case (request H de io q res de') then show ?case using request_justified by blast
next
  case (submit H de io raw res de') then show ?case using submit_justified by blast
next
  case (get_pending H de io i r de')
  have "de_receipts de' = de_receipts de" "de_pub_key de' = de_pub_key de" using get_pending_fields [OF get_pending(2)] by simp_all
  then show ?case using justified_sub [OF get_pending(3), of de'] by simp
next
  case (clean_up H de io) then show ?case using justified_sub cleanup_receipts_sub by blast
qed

section \<open>What a restart recovers\<close>

definition completed_on_disk :: "approval_lib \<Rightarrow> int \<Rightarrow> state_files \<Rightarrow> string \<Rightarrow> bool" where
  "completed_on_disk L now fs i \<longleftrightarrow>
     (\<exists>data r. (state_name ''receipt'' i, Some data) \<in> set fs \<and> al_decode_receipt L data = Some r \<and> \<not> IsExpired_receipt now r)"

definition open_on_disk :: "approval_lib \<Rightarrow> int \<Rightarrow> state_files \<Rightarrow> string \<Rightarrow> durable_request \<Rightarrow> bool" where
  "open_on_disk L now fs i p \<longleftrightarrow>
     (\<exists>data. (state_name ''pending'' i, Some data) \<in> set fs \<and> al_decode_pending L data = Some p \<and> now < pr_expires_at p)"

lemma completed_Cons:
  "completed_on_disk L now ((n, c) # fs) i \<longleftrightarrow>
     (n = state_name ''receipt'' i \<and> (\<exists>data r. c = Some data \<and> al_decode_receipt L data = Some r \<and> \<not> IsExpired_receipt now r))
     \<or> completed_on_disk L now fs i"
  by (auto simp: completed_on_disk_def)

lemma open_Cons:
  "open_on_disk L now ((n, c) # fs) i p \<longleftrightarrow>
     (n = state_name ''pending'' i \<and> (\<exists>data. c = Some data \<and> al_decode_pending L data = Some p \<and> now < pr_expires_at p))
     \<or> open_on_disk L now fs i p"
  by (auto simp: open_on_disk_def)

lemma load_receipts_done:
  assumes "load_receipts L now pub fs acc = Inr (t, d)"
  shows "map_of d i \<noteq> None \<longleftrightarrow> map_of (snd acc) i \<noteq> None \<or> completed_on_disk L now fs i"
  using assms
proof (induction fs arbitrary: acc)
  case (Cons f fs)
  obtain name content where f: "f = (name, content)" by (cases f)
  from Cons.prems [unfolded f] show ?case
  proof (cases rule: load_receipts_step)
    case (expired data r)
    then show ?thesis using Cons.IH [OF expired(4)] by (auto simp: f completed_Cons)
  next
    case (valid data r)
    have "map_of (AList.update (dc_execution_id r) r (snd acc)) i \<noteq> None \<longleftrightarrow> i = dc_execution_id r \<or> map_of (snd acc) i \<noteq> None"
      by (simp add: update_conv')
    then show ?thesis using Cons.IH [OF valid(8)] valid(1-3,5) by (auto simp: f completed_Cons state_name_inj)
  qed
qed (simp add: completed_on_disk_def)

lemma open_fresh: "state_name ''pending'' i \<notin> fst ` set fs \<Longrightarrow> \<not> open_on_disk L now fs i p"
  by (force simp: open_on_disk_def)

lemma load_pending_iff:
  assumes "load_pending L now ok fin fs de = Inr de'" and "distinct (map fst fs)"
  shows "map_of (de_pending de') i = Some p \<longleftrightarrow>
     (map_of fin i = None \<and> open_on_disk L now fs i p)
     \<or> (map_of (de_pending de) i = Some p \<and> \<not> (map_of fin i = None \<and> (\<exists>p'. open_on_disk L now fs i p')))"
  using assms
proof (induction fs arbitrary: de)
  case (Cons f fs)
  obtain name content where f: "f = (name, content)" by (cases f)
  have ds: "distinct (map fst fs)" "name \<notin> fst ` set fs" using Cons.prems(2) f by auto
  from Cons.prems(1) [unfolded f] show ?case
  proof (cases rule: load_pending_step)
    case (completed data p0 de1 r)
    have "de_pending de1 = de_pending de" using removePendingD [OF completed(6)] by auto
    moreover have "open_on_disk L now (f # fs) i p \<longleftrightarrow> open_on_disk L now fs i p" if "map_of fin i = None" for p
      using completed(3,4) that by (auto simp: f open_Cons state_name_inj)
    ultimately show ?thesis using Cons.IH [OF completed(7) ds(1)] by auto
  next
    case (open_request data p0)
    let ?de = "if now < pr_expires_at p0 then de\<lparr>de_pending := AList.update (pr_id p0) p0 (de_pending de)\<rparr> else de"
    note IH = Cons.IH [OF open_request(5) ds(1)]
    show ?thesis
    proof (cases "i = pr_id p0")
      case True
      have n: "\<not> open_on_disk L now fs i p'" for p' using ds(2) open_request(3) True open_fresh by blast
      have c: "open_on_disk L now (f # fs) i p' \<longleftrightarrow> p' = p0 \<and> now < pr_expires_at p0" for p'
        using open_request(1-3) True n by (auto simp: f open_Cons)
      show ?thesis using IH n c open_request(4) True by (auto simp: update_conv' split: if_splits)
    next
      case False
      then have "open_on_disk L now (f # fs) i p' \<longleftrightarrow> open_on_disk L now fs i p'" for p'
        using open_request(3) by (auto simp: f open_Cons state_name_inj)
      moreover have "map_of (de_pending ?de) i = map_of (de_pending de) i" using False by (simp add: update_conv')
      ultimately show ?thesis using IH by simp
    qed
  qed
qed (simp add: open_on_disk_def)

lemma starts_with_state_name: "starts_with ''receipt-'' (state_name ''receipt'' i)" "starts_with ''pending-'' (state_name ''pending'' i)"
  by (simp_all add: state_name_def)

lemma on_disk_filter:
  "completed_on_disk L now (filter (\<lambda>(n, _). starts_with ''receipt-'' n) (sort_key fst fs)) i \<longleftrightarrow> completed_on_disk L now fs i"
  "open_on_disk L now (filter (\<lambda>(n, _). starts_with ''pending-'' n) (sort_key fst fs)) i p \<longleftrightarrow> open_on_disk L now fs i p"
  by (auto simp: completed_on_disk_def open_on_disk_def starts_with_state_name)

lemma distinct_sorted_names:
  "distinct (map fst fs) \<Longrightarrow> distinct (map fst (filter P (sort_key fst fs)))"
  by (simp add: distinct_map) (auto intro: inj_on_subset)

section \<open>Hexadecimal and signatures\<close>

lemma hex_digit_value:
  assumes "0 \<le> i" and "i < 16"
  shows "hex_value (hex_digit i) = Some i"
proof -
  have "byte (hex_digit i) = nat (if i < 10 then 48 + i else 87 + i)"
    using assms by (simp add: hex_digit_def byte_def)
  then show ?thesis using assms by (auto simp: hex_value_def is_digit_ascii_def)
qed

lemma hex_roundtrip: "hex_decode (hex_encode s) = Some s"
proof (induction s)
  case (Cons c s)
  have b: "byte c < 256" by (simp add: byte_def)
  have "hex_value (hex_digit (int (byte c) div 16)) = Some (int (byte c) div 16)" by (rule hex_digit_value) (use b in auto)
  moreover have "hex_value (hex_digit (int (byte c) mod 16)) = Some (int (byte c) mod 16)" by (rule hex_digit_value) auto
  moreover have "nat (16 * (int (byte c) div 16) + int (byte c) mod 16) = byte c" by simp
  moreover have "char_of (byte c) = c" by (simp add: byte_def)
  ultimately show ?case using Cons by (simp add: hex_encode_def)
qed (simp add: hex_encode_def)

section \<open>Approved answers\<close>

lemma live_approved:
  assumes "live_approval L io q de = ((Some d, err), de')" and "dd_approved d"
  shows "\<exists>e. de_engine de = Some e \<and> fst (RequestApprovalWithTimeout L io e q (de_requests de)) = Inr True"
proof (cases "de_engine de")
  case (Some e)
  obtain ans d1 where a: "RequestApprovalWithTimeout L io e q (de_requests de) = (ans, d1)"
    by (cases "RequestApprovalWithTimeout L io e q (de_requests de)")
  have "ans = Inr True"
  proof (cases ans)
    case (Inl x) then show ?thesis using assms Some a by (auto simp: live_approval_def no_decision_def)
  next
    case (Inr b) then show ?thesis using assms Some a by (cases b) (auto simp: live_approval_def no_decision_def)
  qed
  then show ?thesis using Some a by simp
qed (use assms in \<open>simp add: live_approval_def\<close>)

lemma defer_not_approved: "defer_approval L io q h de = ((Some d, err), de') \<Longrightarrow> \<not> dd_approved d"
  by (auto simp: defer_approval_def Let_def no_decision_def split: sum.splits)

lemma fresh_approved:
  assumes "RequestApproval L io q de = ((Some d, err), de')" and "dd_approved d"
  shows "(case map_of (de_receipts de) (request_key q) of None \<Rightarrow> True | Some r \<Rightarrow> IsExpired_receipt (io_clk io 0) r)
    \<longrightarrow> (case de_engine de of None \<Rightarrow> False
         | Some e \<Rightarrow> IsEnabled e \<and> fst (RequestApprovalWithTimeout L io e q (de_requests de)) = Inr True)"
proof
  assume x: "case map_of (de_receipts de) (request_key q) of None \<Rightarrow> True | Some r \<Rightarrow> IsExpired_receipt (io_clk io 0) r"
  have v: "validateApprovalFileID (aq_id q) = None"
    using assms by (cases "validateApprovalFileID (aq_id q)") (simp_all add: RequestApproval_def split: if_split_asm)
  obtain t where t: "(if (case de_engine de of None \<Rightarrow> False | Some e \<Rightarrow> IsEnabled e)
       then live_approval L io q (de\<lparr>de_receipts := t\<rparr>) else defer_approval L io q (request_key q) (de\<lparr>de_receipts := t\<rparr>)) = ((Some d, err), de')"
  proof (cases "map_of (de_receipts de) (request_key q)")
    case None
    then show thesis using that [of "de_receipts de"] assms(1) v
      unfolding RequestApproval_def request_key_def Let_def by (simp split: if_split_asm)
  next
    case (Some r)
    then show thesis using that [of "AList.delete (request_key q) (de_receipts de)"] assms(1) v x
      unfolding RequestApproval_def request_key_def Let_def by (simp split: if_split_asm)
  qed
  show "case de_engine de of None \<Rightarrow> False
         | Some e \<Rightarrow> IsEnabled e \<and> fst (RequestApprovalWithTimeout L io e q (de_requests de)) = Inr True"
  proof (cases "case de_engine de of None \<Rightarrow> False | Some e \<Rightarrow> IsEnabled e")
    case True
    then show ?thesis using t live_approved [of L io q "de\<lparr>de_receipts := t\<rparr>" d err de'] assms(2) by (auto split: option.splits)
  next
    case False
    then show ?thesis using t defer_not_approved assms(2) by auto
  qed
qed

lemma receipt_answer:
  assumes "RequestApproval L io q de = ((Some d, err), de')" and "dd_approved d"
    and "map_of (de_receipts de) (request_key q) = Some r" and "\<not> IsExpired_receipt (io_clk io 0) r"
  shows "dd_receipt d = Some r \<and> dc_decision r = ''approve''"
proof -
  have v: "validateApprovalFileID (aq_id q) = None"
    using assms by (cases "validateApprovalFileID (aq_id q)") (simp_all add: RequestApproval_def split: if_split_asm)
  show ?thesis using assms v unfolding RequestApproval_def request_key_def Let_def
    by (auto simp: no_decision_def split: if_split_asm)
qed

section \<open>Properties\<close>

text \<open>An operator's approval is exact: at the terminal a request is approved exactly when the answer
  before the timeout is yes (up to case and surrounding space); with an approval directory exactly
  when the request could be written under a safe name and at some poll an ok file for this very ID was
  there while neither decision file was there at any poll before. Timeouts, read errors, unsafe IDs
  and an unconfigured backend never approve.\<close>

theorem operator_decision_exact:
  "fst (RequestApprovalWithTimeout L io e q d) = Inr True \<longleftrightarrow>
     (if ae_cli e then (\<exists>s. io_cli io = CliLine s \<and> trim_space (to_lower s) = ''yes'')
      else ae_dir e \<noteq> [] \<and> validateApprovalFileID (aq_id q) = None \<and> io_request_written io
           \<and> (\<exists>n < length (io_ticks io).
                 list_all (\<lambda>m. undecided (aq_id q) (dir_at (io_ticks io) (writeRequest L q d) m)) [0..<n]
                 \<and> dir_at (io_ticks io) (writeRequest L q d) n (ok_file (aq_id q)) \<noteq> None))"
proof (cases "ae_cli e")
  case True
  then show ?thesis by (cases "io_cli io") (simp_all add: RequestApprovalWithTimeout_def requestCLIApproval_def)
next
  case False
  have w: "fst (waitForDecision (aq_id q) (io_ticks io) (writeRequest L q d)) = Inr True \<longleftrightarrow>
      (\<exists>n < length (io_ticks io).
         list_all (\<lambda>m. undecided (aq_id q) (dir_at (io_ticks io) (writeRequest L q d) m)) [0..<n]
         \<and> dir_at (io_ticks io) (writeRequest L q d) n (ok_file (aq_id q)) \<noteq> None)"
    unfolding wait_iff by (auto simp: decided_def list_all_iff)
  show ?thesis using False w
    by (cases "validateApprovalFileID (aq_id q)") (simp_all add: RequestApprovalWithTimeout_def IsEnabled_def)
qed

text \<open>A decision is consumed: after a request on the approval directory ended, however it ended, a
  later request under the same ID is not approved unless an ok file for that ID is created while it
  waits, or was created between the two.\<close>

theorem approval_single_use:
  assumes "\<not> ae_cli e" and "ae_dir e \<noteq> []" and "validateApprovalFileID (aq_id q1) = None" and "io_request_written io1"
    and "RequestApprovalWithTimeout L io1 e q1 d = (res, d1)"
    and "aq_id q2 = aq_id q1"
    and "\<And>es. es \<in> set (io_ticks io2) \<Longrightarrow> ok_file (aq_id q1) \<notin> fst ` set es"
  shows "fst (RequestApprovalWithTimeout L io2 e q2 d1) \<noteq> Inr True"
proof -
  have "d1 (ok_file (aq_id q1)) = None"
    using assms(1-5) wait_cleans [of "ok_file (aq_id q1)" "aq_id q1" "io_ticks io1" "writeRequest L q1 d"]
    by (simp add: RequestApprovalWithTimeout_def IsEnabled_def request_files_def)
  then have n: "writeRequest L q2 d1 (ok_file (aq_id q1)) = None"
    using request_files_distinct(1) [of "aq_id q2" "aq_id q1"] by (simp add: writeRequest_def)
  have edit: "apply_edits es D k = D k" if "k \<notin> fst ` set es" for es :: "(string \<times> string option) list" and D k
    using that unfolding apply_edits_def by (induction es arbitrary: D) (auto simp: case_prod_beta)
  have "fold apply_edits xs D (ok_file (aq_id q1)) = D (ok_file (aq_id q1))" if "set xs \<subseteq> set (io_ticks io2)" for xs D
    using that by (induction xs arbitrary: D) (simp_all add: edit assms(7))
  then have "dir_at (io_ticks io2) (writeRequest L q2 d1) k (ok_file (aq_id q1)) = None" for k
    using n set_take_subset [of "Suc k" "io_ticks io2"] by (simp add: dir_at_def)
  then have "fst (waitForDecision (aq_id q1) (io_ticks io2) (writeRequest L q2 d1)) \<noteq> Inr True"
    unfolding wait_iff by (simp add: decided_def)
  then show ?thesis using assms(1,6)
    by (cases "validateApprovalFileID (aq_id q1)") (simp_all add: RequestApprovalWithTimeout_def)
qed

text \<open>C30: A decision file that is already there when a request starts decides it: the request is approved
  at its first poll although nobody decided on it. Request IDs are the session, the tool and the number
  of relayed calls, so a call that timed out and a later call of the same tool with other arguments
  share an ID, and an ok file that arrives after the timeout approves the later call.\<close>

theorem late_decision_reused:
  assumes "\<not> ae_cli e" and "ae_dir e \<noteq> []" and "validateApprovalFileID (aq_id q) = None" and "io_request_written io"
    and "d (ok_file (aq_id q)) \<noteq> None" and "io_ticks io = [] # ticks"
  shows "fst (RequestApprovalWithTimeout L io e q d) = Inr True"
  using assms request_files_distinct(1) [of "aq_id q" "aq_id q"]
  by (simp add: RequestApprovalWithTimeout_def IsEnabled_def writeRequest_def apply_edits_def)

text \<open>C29: An approval never covers another subject: in every run of the durable engine (restarts included,
  with failing writes and removals, and with arbitrary receipts submitted), a request is approved only
  if the operator was asked for it and approved, or if a receipt in force carries exactly its server,
  tool, session and agent, approves, has not expired, and either verifies under the configured key or
  stems from an operator's approval of the same subject in this run.\<close>

theorem durable_approval_bound:
  assumes "durable_run L H de" and "RequestApproval L io q de = ((Some d, err), de')" and "dd_approved d"
  shows "operator_approved L io q de
     \<or> (\<exists>r. dd_receipt d = Some r \<and> receipt_subject r = request_subject q \<and> dc_decision r = ''approve''
          \<and> \<not> IsExpired_receipt (io_clk io 0) r \<and> (Verify_receipt L (de_pub_key de) r \<or> request_subject q \<in> H))"
proof (cases "map_of (de_receipts de) (request_key q)")
  case None
  show ?thesis using fresh_approved [OF assms(2,3)] None by (auto simp: operator_approved_def)
next
  case (Some r)
  show ?thesis
  proof (cases "IsExpired_receipt (io_clk io 0) r")
    case True
    then show ?thesis using fresh_approved [OF assms(2,3)] Some by (auto simp: operator_approved_def)
  next
    case False
    have j: "request_key q = receipt_key r" "Verify_receipt L (de_pub_key de) r \<or> receipt_subject r \<in> H"
      using justifiedD [OF run_justified [OF assms(1)] Some] by simp_all
    then have s: "receipt_subject r = request_subject q" using receipt_key_subject by metis
    have "dd_receipt d = Some r \<and> dc_decision r = ''approve''" using receipt_answer [OF assms(2,3) Some False] .
    then show ?thesis using s j False by auto
  qed
qed

text \<open>A restart recovers exactly the open requests: after loading the state directory, a request is
  pending if and only if its file decodes to it, it has not expired, and no unexpired receipt file
  exists for it. So a request whose receipt was persisted is never asked again, even when the process
  stopped, or the removal failed, between writing the receipt and removing the request.\<close>

theorem restart_recovers_open_requests:
  assumes "loadState L io de = Inr de'" and "de_state_dir de \<noteq> []" and "de_pending de = []" and "distinct (map fst (de_files de))"
  shows "map_of (de_pending de') i = Some p \<longleftrightarrow>
     open_on_disk L (io_clk io 0) (de_files de) i p \<and> \<not> completed_on_disk L (io_clk io 0) (de_files de) i"
proof -
  obtain tab fin where
    r: "load_receipts L (io_clk io 0) (de_pub_key de) (filter (\<lambda>(n, _). starts_with ''receipt-'' n) (sort_key fst (de_files de)))
       (de_receipts de, []) = Inr (tab, fin)" and
    p: "load_pending L (io_clk io 0) (io_remove_ok io) fin (filter (\<lambda>(n, _). starts_with ''pending-'' n) (sort_key fst (de_files de)))
       (de\<lparr>de_receipts := tab\<rparr>) = Inr de'"
    using load_state_split [OF assms(1,2)] by metis
  have c: "map_of fin i \<noteq> None \<longleftrightarrow> completed_on_disk L (io_clk io 0) (de_files de) i"
    using load_receipts_done [OF r, of i] by (simp add: on_disk_filter)
  show ?thesis using load_pending_iff [OF p distinct_sorted_names [OF assms(4)], of i p] c assms(3) by (auto simp: on_disk_filter)
qed

text \<open>Signing and verifying agree: a receipt signed with a key pair verifies under its public key.\<close>

lemma sign_verifies:
  assumes "\<And>m. al_verify L (kp_public key) m (al_sign L (kp_private key) m)" and "\<And>m. al_sign L (kp_private key) m \<noteq> []"
  shows "Verify_receipt L (kp_public key) (Sign_receipt L key r)"
proof -
  have "hex_encode s \<noteq> []" if "s \<noteq> []" for s using that by (cases s) (simp_all add: hex_encode_def)
  then show ?thesis using assms by (simp add: Verify_receipt_def Sign_receipt_def Let_def hex_roundtrip signingPayload_def)
qed

section \<open>Witnesses\<close>

definition demo_request :: approval_request where
  "demo_request = \<lparr>aq_id = ''s-t-0'', aq_tool = ''t'', aq_server = ''v'', aq_arguments = [], aq_reason = ''r'',
     aq_risk_level = ''high'', aq_session_id = ''s'', aq_agent_id = ''a''\<rparr>"

definition demo_pending :: durable_request where
  "demo_pending = \<lparr>pr_id = ''e'', pr_tool = ''t'', pr_server = ''v'', pr_args = [], pr_reason = ''r'', pr_risk_level = ''high'',
     pr_session_id = ''s'', pr_agent_id = ''a'', pr_created_at = 0, pr_expires_at = 3600, pr_request_hash = ''h''\<rparr>"

definition demo_approval_lib :: approval_lib where
  "demo_approval_lib = \<lparr>al_request_json = (\<lambda>q. ''q''), al_marshal_pending = (\<lambda>p. Some ''p''),
     al_decode_pending = (\<lambda>s. Some demo_pending), al_marshal_receipt = (\<lambda>r. Some ''r''), al_decode_receipt = (\<lambda>s. None),
     al_signing_json = (\<lambda>r. ''j''), al_sha256_hex = (\<lambda>s. ''h''), al_args_string = (\<lambda>a. ''map[]''),
     al_sign = (\<lambda>k m. m), al_verify = (\<lambda>k m s. m = s)\<rparr>"

definition demo_io :: approval_io where
  "demo_io = \<lparr>io_cli = CliLine ''Yes '', io_request_written = True, io_ticks = [[], []], io_clk = (\<lambda>_. 7),
     io_nonce = Some ''n'', io_write_ok = True, io_remove_ok = True\<rparr>"

definition dir_engine :: approval_engine where
  "dir_engine = \<lparr>ae_dir = ''/a'', ae_timeout = 5, ae_cli = False\<rparr>"

definition empty_dir :: dir where "empty_dir = (\<lambda>_. None)"

theorem approval_single_use_witness:
  "fst (RequestApprovalWithTimeout demo_approval_lib demo_io dir_engine demo_request (empty_dir(ok_file ''s-t-0'' := Some []))) = Inr True
   \<and> fst (RequestApprovalWithTimeout demo_approval_lib demo_io dir_engine demo_request
          (snd (RequestApprovalWithTimeout demo_approval_lib demo_io dir_engine demo_request (empty_dir(ok_file ''s-t-0'' := Some []))))) \<noteq> Inr True"
proof -
  have c: "\<not> ae_cli dir_engine" "ae_dir dir_engine \<noteq> []" "validateApprovalFileID (aq_id demo_request) = None" "io_request_written demo_io"
    by code_simp+
  have "fst (RequestApprovalWithTimeout demo_approval_lib demo_io dir_engine demo_request (empty_dir(ok_file ''s-t-0'' := Some []))) = Inr True"
    by code_simp
  moreover have "fst (RequestApprovalWithTimeout demo_approval_lib demo_io dir_engine demo_request
          (snd (RequestApprovalWithTimeout demo_approval_lib demo_io dir_engine demo_request (empty_dir(ok_file ''s-t-0'' := Some []))))) \<noteq> Inr True"
    by (rule approval_single_use [OF c prod.collapse [symmetric] refl]) (simp add: demo_io_def)
  ultimately show ?thesis by blast
qed

theorem late_decision_reused_witness:
  "fst (RequestApprovalWithTimeout demo_approval_lib demo_io dir_engine demo_request empty_dir) = Inl TimedOut
   \<and> fst (RequestApprovalWithTimeout demo_approval_lib demo_io dir_engine (demo_request\<lparr>aq_arguments := [(''path'', JStr ''/etc'')]\<rparr>)
          ((snd (RequestApprovalWithTimeout demo_approval_lib demo_io dir_engine demo_request empty_dir))(ok_file ''s-t-0'' := Some []))) = Inr True"
proof -
  let ?q = "demo_request\<lparr>aq_arguments := [(''path'', JStr ''/etc'')]\<rparr>"
  let ?d = "(snd (RequestApprovalWithTimeout demo_approval_lib demo_io dir_engine demo_request empty_dir))(ok_file ''s-t-0'' := Some [])"
  have c: "\<not> ae_cli dir_engine" "ae_dir dir_engine \<noteq> []" "validateApprovalFileID (aq_id ?q) = None" "io_request_written demo_io"
    "io_ticks demo_io = [] # [[]]" by code_simp+
  have "aq_id ?q = ''s-t-0''" by (simp add: demo_request_def)
  then have "?d (ok_file (aq_id ?q)) \<noteq> None" by simp
  then have "fst (RequestApprovalWithTimeout demo_approval_lib demo_io dir_engine ?q ?d) = Inr True"
    by (rule late_decision_reused [OF c(1-4) _ c(5)])
  moreover have "fst (RequestApprovalWithTimeout demo_approval_lib demo_io dir_engine demo_request empty_dir) = Inl TimedOut" by code_simp
  ultimately show ?thesis by blast
qed

definition cli_durable :: durable_engine where
  "cli_durable = \<lparr>de_engine = Some (NewCLIEngine 5), de_requests = empty_dir, de_state_dir = [], de_pub_key = [], de_pending = [],
     de_receipts = [], de_files = []\<rparr>"

theorem durable_approval_bound_witness:
  "\<exists>d de'. RequestApproval demo_approval_lib demo_io demo_request cli_durable = ((Some d, None), de') \<and> dd_approved d
     \<and> operator_approved demo_approval_lib demo_io demo_request cli_durable"
proof -
  let ?r = "RequestApproval demo_approval_lib demo_io demo_request cli_durable"
  have "NewDurableEngine demo_approval_lib demo_io None True (Some (NewCLIEngine 5)) empty_dir [] [] [] = Inr cli_durable"
    by (simp add: NewDurableEngine_def cli_durable_def)
  then have run: "durable_run demo_approval_lib {} cli_durable" by (rule durable_run.start)
  have e: "snd (fst ?r) = None" "fst (fst ?r) \<noteq> None" "dd_approved (the (fst (fst ?r)))" by code_simp+
  obtain d err de' where r: "?r = ((Some d, err), de')" using e(2) by (cases ?r; cases "fst ?r") auto
  have a: "dd_approved d" "err = None" using e r by simp_all
  have empty: "\<not> Verify_receipt demo_approval_lib (de_pub_key cli_durable) x" if "dd_receipt d = Some x" for x
  proof -
    have "dd_receipt (the (fst (fst ?r))) = live_receipt demo_approval_lib demo_io demo_request" by code_simp
    then have "dc_signature x = []" using r that by (auto simp: live_receipt_def NewReceipt_def demo_io_def)
    then show ?thesis by (simp add: Verify_receipt_def)
  qed
  have "operator_approved demo_approval_lib demo_io demo_request cli_durable"
    using durable_approval_bound [OF run r a(1)] empty by auto
  then show ?thesis using r a by blast
qed

definition stored_durable :: durable_engine where
  "stored_durable = cli_durable\<lparr>de_state_dir := ''/a'', de_files := [(''pending-e.json'', Some ''p'')]\<rparr>"

theorem restart_recovers_open_requests_witness:
  "\<exists>de'. loadState demo_approval_lib demo_io stored_durable = Inr de' \<and> map_of (de_pending de') ''e'' = Some demo_pending
     \<and> open_on_disk demo_approval_lib 7 (de_files stored_durable) ''e'' demo_pending
     \<and> \<not> completed_on_disk demo_approval_lib 7 (de_files stored_durable) ''e''"
proof -
  let ?l = "loadState demo_approval_lib demo_io stored_durable"
  have e: "\<not> isl ?l" "map_of (de_pending (projr ?l)) ''e'' = Some demo_pending" by code_simp+
  obtain de' where l: "?l = Inr de'" using e(1) by (cases ?l) simp_all
  have c: "de_state_dir stored_durable \<noteq> []" "de_pending stored_durable = []" "distinct (map fst (de_files stored_durable))" by code_simp+
  have "io_clk demo_io 0 = 7" by (simp add: demo_io_def)
  then show ?thesis using restart_recovers_open_requests [OF l c, of "''e''" demo_pending] e(2) l by auto
qed

end
