(* ===== verification/Proof_Gate.thy ===== *)
theory Proof_Gate
  imports Visor_Prelude
begin

text \<open>
  What the proof packages of the repository share (\<^verbatim>\<open>causalauthority\<close>, \<^verbatim>\<open>principalderivation\<close>,
  \<^verbatim>\<open>resourceidentity\<close>, \<^verbatim>\<open>controlplaneintegrity\<close>, \<^verbatim>\<open>authoritycontext\<close>, \<^verbatim>\<open>hosttransitivity\<close>,
  \<^verbatim>\<open>selfescalation\<close>, \<^verbatim>\<open>compositiongraph\<close>, \<^verbatim>\<open>toolcorrelation\<close>, \<^verbatim>\<open>authstatefidelity\<close>,
  \<^verbatim>\<open>swarmbudget\<close>): each decides a request by a fixed sequence of checks, allows it when all hold and
  otherwise denies it with the reason of the first check that fails.

  The packages repeat the same small helpers; they are defined once here. The locale states the
  contract, its lemmas are what every package inherits, and each package interprets it on its own
  Authorize.
\<close>

text \<open>\<^verbatim>\<open>uniqueFilled\<close>: no empty and no repeated string; \<^verbatim>\<open>uniq\<close> also asks for at least one.\<close>

definition unique_filled :: "string list \<Rightarrow> bool" where
  "unique_filled xs \<longleftrightarrow> [] \<notin> set xs \<and> distinct xs"

definition uniq :: "string list \<Rightarrow> bool" where
  "uniq xs \<longleftrightarrow> unique_filled xs \<and> xs \<noteq> []"

definition pick :: "bool \<Rightarrow> string \<Rightarrow> string \<Rightarrow> string" where
  "pick ok yes no = (if ok then yes else no)"

definition format_bool :: "bool \<Rightarrow> string" where
  "format_bool b = (if b then ''true'' else ''false'')"

text \<open>A status label of a decision.\<close>

type_synonym label = string

text \<open>The part every decision has; the packages extend the record.\<close>

record gate_decision =
  gd_verdict :: string
  gd_proof :: string
  gd_reason :: string
  gd_evidence :: "string list"

fun first_failing :: "(bool \<times> string) list \<Rightarrow> string option" where
  "first_failing [] = None"
| "first_failing ((ok, r) # cs) = (if ok then first_failing cs else Some r)"

lemma first_failing_None: "first_failing cs = None \<longleftrightarrow> list_all fst cs"
  by (induction cs rule: first_failing.induct) auto

lemma first_failing_Some:
  "first_failing cs = Some r \<longleftrightarrow> (\<exists>pre post. cs = pre @ (False, r) # post \<and> list_all fst pre)"
proof (induction cs rule: first_failing.induct)
  case (2 ok s cs)
  show ?case
  proof (cases ok)
    case True
    have "(\<exists>pre post. (True, s) # cs = pre @ (False, r) # post \<and> list_all fst pre)
        \<longleftrightarrow> (\<exists>pre post. cs = pre @ (False, r) # post \<and> list_all fst pre)"
      by (auto simp: Cons_eq_append_conv) (metis append_Cons fst_conv list.pred_inject(2))
    then show ?thesis using 2 True by simp
  next
    case False
    then show ?thesis by (auto simp: Cons_eq_append_conv)
  qed
qed simp

lemma first_failing_append:
  "first_failing (cs @ ds) = (case first_failing cs of None \<Rightarrow> first_failing ds | Some r \<Rightarrow> Some r)"
  by (induction cs rule: first_failing.induct) simp_all

text \<open>The contract: the checks of a request in the order of the code, and the reason a granted
  request is given.\<close>

locale proof_gate =
  fixes authorize :: "'a \<Rightarrow> 'd gate_decision_scheme"
    and checks :: "'a \<Rightarrow> (bool \<times> string) list"
    and granted :: "'a \<Rightarrow> string"
  assumes decided: "(gd_verdict (authorize x), gd_reason (authorize x)) =
      (case first_failing (checks x) of None \<Rightarrow> (''ALLOW'', granted x) | Some r \<Rightarrow> (''DENY'', r))"
begin

lemma verdict: "gd_verdict (authorize x) = (if list_all fst (checks x) then ''ALLOW'' else ''DENY'')"
  using decided [of x] first_failing_None [of "checks x"] by (cases "first_failing (checks x)") simp_all

lemma allow_iff: "gd_verdict (authorize x) = ''ALLOW'' \<longleftrightarrow> list_all fst (checks x)"
  by (simp add: verdict)

lemma deny_iff: "gd_verdict (authorize x) = ''DENY'' \<longleftrightarrow> \<not> list_all fst (checks x)"
  by (simp add: verdict)

lemma deny_reason:
  assumes "gd_verdict (authorize x) = ''DENY''"
  shows "\<exists>pre post. checks x = pre @ (False, gd_reason (authorize x)) # post \<and> list_all fst pre"
proof (cases "first_failing (checks x)")
  case (Some r)
  then have "gd_reason (authorize x) = r" using decided [of x] by simp
  then show ?thesis using Some by (simp add: first_failing_Some)
qed (use assms decided [of x] in simp)

lemma same_checks:
  "checks x = checks y \<Longrightarrow> gd_verdict (authorize x) = gd_verdict (authorize y)"
  by (simp add: verdict)

end

end
