(* ===== verification/Identity_Proofs.thy ===== *)
theory Identity_Proofs
  imports Proof_Gate
begin

text \<open>
  The proof packages that bind an effect to a principal, an object or a host: causal authority,
  principal derivation, resource identity, control-plane integrity, authority context, host
  transitivity and self escalation (\<^verbatim>\<open>src/internal/<package>/evaluator.go\<close>, \<^verbatim>\<open>model.go\<close>).

  Each package has a trusted evaluation root and an untrusted artifact or action whose claimed fields
  appear in the evidence at most.
\<close>

section \<open>Causal authority\<close>

record ca_root =
  ca_schema_version :: int
  ca_mandate_text :: string
  ca_mandating_principal :: string
  ca_mandating_trust :: string
  ca_mandated_effect :: string
  ca_source_principal :: string
  ca_source_trust :: string
  ca_requested_effect :: string
  ca_tool_permission :: bool
  ca_command_valid :: bool
  ca_authenticated :: bool

record ca_artifact =
  ca_content :: string
  ca_visible_role :: string
  ca_claimed_verdict :: string
  ca_claimed_proof :: string
  ca_claimed_reason :: string
  ca_claimed_authority :: string
  ca_claimed_derivation :: string
  ca_claimed_principal :: string
  ca_claimed_trust :: string
  ca_claimed_source :: string

definition ca_authorityForTrust :: "string \<Rightarrow> string option" where
  "ca_authorityForTrust c =
     (if c = ''UNTRUSTED_EXTERNAL_CONTENT'' then Some ''DATA_ONLY''
      else if c = ''TRUSTED_USER'' then Some ''USER''
      else if c = ''TRUSTED_DEVELOPER'' then Some ''DEVELOPER''
      else if c = ''TRUSTED_SYSTEM'' then Some ''SYSTEM'' else None)"

definition atLeastUser :: "string \<Rightarrow> bool" where
  "atLeastUser a \<longleftrightarrow> a = ''USER'' \<or> a = ''DEVELOPER'' \<or> a = ''SYSTEM''"

definition instructionSource :: "ca_root \<Rightarrow> bool \<Rightarrow> string" where
  "instructionSource r structuralOK =
     (if \<not> structuralOK then ''untrusted external content''
      else if ca_source_trust r = ''TRUSTED_USER'' then ''trusted user mandate''
      else if ca_source_trust r = ''TRUSTED_DEVELOPER'' then ''trusted developer mandate''
      else if ca_source_trust r = ''TRUSTED_SYSTEM'' then ''trusted system mandate''
      else ''untrusted external content'')"

definition ca_evidence :: "ca_root \<Rightarrow> bool \<Rightarrow> bool \<Rightarrow> string \<Rightarrow> string \<Rightarrow> string list" where
  "ca_evidence r structuralOK causalValid verdict proof =
     (let shell = structuralOK \<and> causalValid in
      [''Tool permission '' @ pick (ca_tool_permission r) ''VALID'' ''INVALID'',
       ''Command syntactically valid '' @ pick (ca_command_valid r) ''YES'' ''NO'',
       ''Agent authenticated '' @ pick (ca_authenticated r) ''YES'' ''NO'',
       ''Instruction source '' @ instructionSource r structuralOK,
       ''Source authorized to invoke shell '' @ pick shell ''YES'' ''NO'',
       ''Mandate-derived reason for shell execution '' @ pick shell ''PRESENT'' ''ABSENT'',
       ''Causal Authority Proof '' @ pick structuralOK proof ''INVALID'',
       ''Execution '' @ pick structuralOK verdict ''DENY''])"

definition ca_finish :: "ca_root \<Rightarrow> bool \<Rightarrow> bool \<Rightarrow> label \<Rightarrow> label \<Rightarrow> label \<Rightarrow> gate_decision" where
  "ca_finish r structuralOK causalValid verdict proof reason =
     \<lparr>gd_verdict = verdict, gd_proof = proof, gd_reason = reason,
      gd_evidence = ca_evidence r structuralOK causalValid verdict proof\<rparr>"

definition causal_valid :: "ca_root \<Rightarrow> string \<Rightarrow> string \<Rightarrow> bool" where
  "causal_valid r mandAuth srcAuth \<longleftrightarrow>
     atLeastUser mandAuth \<and> ca_mandated_effect r = ''SHELL_EXECUTION'' \<and> ca_requested_effect r = ca_mandated_effect r
     \<and> ca_source_principal r = ca_mandating_principal r \<and> atLeastUser srcAuth"

definition EvaluateCausalProof :: "ca_root \<Rightarrow> gate_decision" where
  "EvaluateCausalProof r =
     (if ca_schema_version r \<noteq> 1 \<or> ca_mandate_text r = [] \<or> ca_mandating_principal r = [] \<or> ca_source_principal r = []
      then ca_finish r False False ''DENY'' ''INVALID'' ''invalid evaluation root''
      else if ca_mandated_effect r = [] \<or> ca_requested_effect r = []
      then ca_finish r False False ''DENY'' ''INVALID'' ''invalid evaluation root''
      else case (ca_authorityForTrust (ca_mandating_trust r), ca_authorityForTrust (ca_source_trust r)) of
        (Some mandAuth, Some srcAuth) \<Rightarrow>
          (let valid = causal_valid r mandAuth srcAuth; proof = pick valid ''VALID'' ''INVALID'' in
           if \<not> ca_authenticated r then ca_finish r True valid ''DENY'' proof ''agent unauthenticated''
           else if \<not> ca_tool_permission r then ca_finish r True valid ''DENY'' proof ''tool permission invalid''
           else if \<not> ca_command_valid r then ca_finish r True valid ''DENY'' proof ''command syntax invalid''
           else if \<not> valid then ca_finish r True False ''DENY'' proof ''causal authority proof invalid''
           else ca_finish r True True ''ALLOW'' proof ''authorized'')
      | _ \<Rightarrow> ca_finish r False False ''DENY'' ''INVALID'' ''invalid evaluation root'')"

definition ca_Authorize :: "ca_root \<times> ca_artifact \<Rightarrow> gate_decision" where
  "ca_Authorize x = EvaluateCausalProof (fst x)"

definition trusted_class :: "string \<Rightarrow> bool" where
  "trusted_class c \<longleftrightarrow> c = ''TRUSTED_USER'' \<or> c = ''TRUSTED_DEVELOPER'' \<or> c = ''TRUSTED_SYSTEM''"

definition ca_well_formed :: "ca_root \<Rightarrow> bool" where
  "ca_well_formed r \<longleftrightarrow> ca_schema_version r = 1 \<and> ca_mandate_text r \<noteq> [] \<and> ca_mandating_principal r \<noteq> [] \<and> ca_source_principal r \<noteq> []
     \<and> ca_mandated_effect r \<noteq> [] \<and> ca_requested_effect r \<noteq> []
     \<and> ca_authorityForTrust (ca_mandating_trust r) \<noteq> None \<and> ca_authorityForTrust (ca_source_trust r) \<noteq> None"

definition ca_checks :: "ca_root \<times> ca_artifact \<Rightarrow> (bool \<times> string) list" where
  "ca_checks x = (let r = fst x in
     [(ca_well_formed r, ''invalid evaluation root''), (ca_authenticated r, ''agent unauthenticated''),
      (ca_tool_permission r, ''tool permission invalid''), (ca_command_valid r, ''command syntax invalid''),
      (trusted_class (ca_mandating_trust r) \<and> trusted_class (ca_source_trust r) \<and> ca_mandated_effect r = ''SHELL_EXECUTION''
         \<and> ca_requested_effect r = ''SHELL_EXECUTION'' \<and> ca_source_principal r = ca_mandating_principal r,
       ''causal authority proof invalid'')])"

lemma ca_trusted: "ca_authorityForTrust c = Some a \<Longrightarrow> atLeastUser a \<longleftrightarrow> trusted_class c"
  by (auto simp: ca_authorityForTrust_def atLeastUser_def trusted_class_def split: if_splits)

lemma ca_causal:
  "ca_authorityForTrust (ca_mandating_trust r) = Some m \<Longrightarrow> ca_authorityForTrust (ca_source_trust r) = Some s
   \<Longrightarrow> causal_valid r m s \<longleftrightarrow> trusted_class (ca_mandating_trust r) \<and> trusted_class (ca_source_trust r)
        \<and> ca_mandated_effect r = ''SHELL_EXECUTION'' \<and> ca_requested_effect r = ''SHELL_EXECUTION''
        \<and> ca_source_principal r = ca_mandating_principal r"
  by (auto simp: causal_valid_def ca_trusted)

lemma ca_invalid: "\<not> ca_well_formed r \<Longrightarrow> EvaluateCausalProof r = ca_finish r False False ''DENY'' ''INVALID'' ''invalid evaluation root''"
  by (auto simp: ca_well_formed_def EvaluateCausalProof_def split: option.split)

lemma ca_decided:
  "(gd_verdict (ca_Authorize x), gd_reason (ca_Authorize x)) =
     (case first_failing (ca_checks x) of None \<Rightarrow> (''ALLOW'', ''authorized'') | Some r \<Rightarrow> (''DENY'', r))"
proof (cases "ca_well_formed (fst x)")
  case True
  then obtain m s where "ca_authorityForTrust (ca_mandating_trust (fst x)) = Some m" "ca_authorityForTrust (ca_source_trust (fst x)) = Some s"
    by (auto simp: ca_well_formed_def)
  then show ?thesis using True ca_causal [of "fst x" m s]
    by (simp add: ca_Authorize_def ca_checks_def EvaluateCausalProof_def Let_def ca_finish_def) (simp add: ca_well_formed_def)
qed (simp add: ca_Authorize_def ca_checks_def ca_invalid ca_finish_def Let_def)

interpretation causal: proof_gate ca_Authorize ca_checks "\<lambda>_. ''authorized''"
  by unfold_locales (rule ca_decided)

section \<open>Principal derivation\<close>

record pd_root =
  pd_schema_version :: int
  pd_transport_trust :: string
  pd_transport_principal :: string
  pd_session_bound :: bool
  pd_session_principal :: string
  pd_agent_authenticated :: bool
  pd_agent_principal :: string
  pd_delegation :: bool
  pd_mandating_principal :: string
  pd_mandating_trust :: string
  pd_mandated_agent :: string
  pd_tool_available :: bool

text \<open>Destination, host, origin, forwarded headers, DNS answer, locality and claimed identity.\<close>

record pd_artifact =
  pd_destination :: string
  pd_host :: string
  pd_origin :: string
  pd_forwarded_proto :: string
  pd_forwarded_host :: string
  pd_dns_answer :: string
  pd_socket_locality :: string
  pd_transport_kind :: string
  pd_claimed_principal :: string
  pd_visible_role :: string
  pd_webpage :: string
  pd_claimed_verdict :: string
  pd_claimed_proof :: string
  pd_claimed_authority :: string
  pd_claimed_subject :: string
  pd_claimed_reason :: string

record pd_decision = gate_decision +
  pd_caller_authority :: string

definition authorityForTrust :: "string \<Rightarrow> string option" where
  "authorityForTrust c =
     (if c = ''UNTRUSTED_EXTERNAL'' then Some ''ZERO''
      else if c = ''TRUSTED_USER'' then Some ''USER''
      else if c = ''TRUSTED_DEVELOPER'' then Some ''DEVELOPER''
      else if c = ''TRUSTED_SYSTEM'' then Some ''SYSTEM'' else None)"

definition pd_evidence :: "pd_root \<Rightarrow> bool \<Rightarrow> bool \<Rightarrow> label \<Rightarrow> label \<Rightarrow> label \<Rightarrow> string list" where
  "pd_evidence r structuralOK proofValid verdict proof authority =
     (let attested = (structuralOK \<and> pd_transport_trust r = ''ATTESTED'');
          t = (if attested then ''Transport identity ATTESTED''
                 @ (if pd_transport_principal r \<noteq> [] then '' '' @ pd_transport_principal r else [])
               else ''Transport identity UNATTESTED'');
          sessionOK = (attested \<and> pd_session_bound r \<and> pd_session_principal r \<noteq> [] \<and> pd_session_principal r = pd_transport_principal r);
          agentOK = (sessionOK \<and> pd_agent_authenticated r \<and> pd_agent_principal r \<noteq> [] \<and> pd_agent_principal r = pd_session_principal r)
      in [t,
          pick sessionOK (''Transport identity -> session identity JUSTIFIED '' @ pd_session_principal r)
            ''Transport identity -> session identity DENIED (session identity ABSENT)'',
          pick agentOK (''Session identity -> agent identity JUSTIFIED '' @ pd_agent_principal r)
            ''Session identity -> agent identity DENIED (authenticated MCP principal ABSENT)'',
          pick proofValid (''Agent identity -> mandate JUSTIFIED '' @ pd_mandating_principal r @ ''=>'' @ pd_agent_principal r)
            ''Agent identity -> mandate DENIED (delegation from user ABSENT)'',
          pick (pd_tool_available r) ''Tool capability AVAILABLE'' ''Tool capability UNAVAILABLE'',
          ''Caller authority '' @ pick structuralOK authority ''ZERO'',
          ''Principal Derivation Proof '' @ pick structuralOK proof ''INVALID'',
          ''Request '' @ pick structuralOK verdict ''DENY''])"

definition pd_finish :: "pd_root \<Rightarrow> bool \<Rightarrow> bool \<Rightarrow> label \<Rightarrow> label \<Rightarrow> label \<Rightarrow> label \<Rightarrow> pd_decision" where
  "pd_finish r structuralOK proofValid verdict proof reason authority =
     \<lparr>gd_verdict = verdict, gd_proof = proof, gd_reason = reason,
      gd_evidence = pd_evidence r structuralOK proofValid verdict proof authority, pd_caller_authority = authority\<rparr>"

definition EvaluatePrincipalDerivationProof :: "pd_root \<Rightarrow> pd_decision" where
  "EvaluatePrincipalDerivationProof r =
     (if pd_schema_version r \<noteq> 1 \<or> (pd_transport_trust r \<noteq> ''UNATTESTED'' \<and> pd_transport_trust r \<noteq> ''ATTESTED'')
      then pd_finish r False False ''DENY'' ''INVALID'' ''invalid evaluation root'' ''ZERO''
      else case authorityForTrust (pd_mandating_trust r) of
        None \<Rightarrow> pd_finish r False False ''DENY'' ''INVALID'' ''invalid evaluation root'' ''ZERO''
      | Some mandAuth \<Rightarrow>
          (let c1 = (pd_transport_trust r = ''ATTESTED'');
               c2 = (pd_transport_principal r \<noteq> []);
               c3 = pd_session_bound r;
               c4 = (pd_session_principal r \<noteq> [] \<and> pd_session_principal r = pd_transport_principal r);
               c5 = pd_agent_authenticated r;
               c6 = (pd_agent_principal r \<noteq> [] \<and> pd_agent_principal r = pd_session_principal r);
               c7 = pd_delegation r;
               c8 = (pd_mandating_principal r \<noteq> []);
               c9 = atLeastUser mandAuth;
               c10 = (pd_mandated_agent r \<noteq> [] \<and> pd_mandated_agent r = pd_agent_principal r);
               valid = (c1 \<and> c2 \<and> c3 \<and> c4 \<and> c5 \<and> c6 \<and> c7 \<and> c8 \<and> c9 \<and> c10);
               fin = (\<lambda>verdict reason. pd_finish r True valid verdict (pick valid ''VALID'' ''INVALID'') reason (pick valid mandAuth ''ZERO''))
           in if \<not> c1 then fin ''DENY'' ''transport identity unattested''
              else if \<not> c2 then fin ''DENY'' ''transport principal absent''
              else if \<not> c3 then fin ''DENY'' ''session identity unbound''
              else if \<not> c4 then fin ''DENY'' ''transport and session principals differ''
              else if \<not> c5 then fin ''DENY'' ''MCP principal unauthenticated''
              else if \<not> c6 then fin ''DENY'' ''session and agent principals differ''
              else if \<not> c7 then fin ''DENY'' ''delegation from user absent''
              else if \<not> c8 then fin ''DENY'' ''mandating principal absent''
              else if \<not> c9 then fin ''DENY'' ''mandating principal lacks authority''
              else if \<not> c10 then fin ''DENY'' ''mandate targets another principal''
              else if \<not> pd_tool_available r then fin ''DENY'' ''tool capability unavailable''
              else fin ''ALLOW'' ''authorized''))"

definition pd_Authorize :: "pd_root \<times> pd_artifact \<Rightarrow> pd_decision" where
  "pd_Authorize x = EvaluatePrincipalDerivationProof (fst x)"

definition pd_checks :: "pd_root \<times> pd_artifact \<Rightarrow> (bool \<times> string) list" where
  "pd_checks x = (let r = fst x in
     [(pd_schema_version r = 1 \<and> pd_transport_trust r \<in> {''UNATTESTED'', ''ATTESTED''} \<and> authorityForTrust (pd_mandating_trust r) \<noteq> None,
       ''invalid evaluation root''),
      (pd_transport_trust r = ''ATTESTED'', ''transport identity unattested''),
      (pd_transport_principal r \<noteq> [], ''transport principal absent''),
      (pd_session_bound r, ''session identity unbound''),
      (pd_session_principal r \<noteq> [] \<and> pd_session_principal r = pd_transport_principal r, ''transport and session principals differ''),
      (pd_agent_authenticated r, ''MCP principal unauthenticated''),
      (pd_agent_principal r \<noteq> [] \<and> pd_agent_principal r = pd_session_principal r, ''session and agent principals differ''),
      (pd_delegation r, ''delegation from user absent''),
      (pd_mandating_principal r \<noteq> [], ''mandating principal absent''),
      (trusted_class (pd_mandating_trust r), ''mandating principal lacks authority''),
      (pd_mandated_agent r \<noteq> [] \<and> pd_mandated_agent r = pd_agent_principal r, ''mandate targets another principal''),
      (pd_tool_available r, ''tool capability unavailable'')])"

lemma trusted_authority: "authorityForTrust c = Some a \<Longrightarrow> atLeastUser a \<longleftrightarrow> trusted_class c"
  by (auto simp: authorityForTrust_def atLeastUser_def trusted_class_def split: if_splits)

lemma pd_decided:
  "(gd_verdict (pd_Authorize x), gd_reason (pd_Authorize x)) =
     (case first_failing (pd_checks x) of None \<Rightarrow> (''ALLOW'', ''authorized'') | Some r \<Rightarrow> (''DENY'', r))"
proof (cases "authorityForTrust (pd_mandating_trust (fst x))")
  case None
  then show ?thesis by (simp add: pd_Authorize_def pd_checks_def EvaluatePrincipalDerivationProof_def Let_def pd_finish_def)
next
  case (Some a)
  then show ?thesis using trusted_authority [OF Some]
    by (simp add: pd_Authorize_def pd_checks_def EvaluatePrincipalDerivationProof_def Let_def pd_finish_def)
qed

interpretation principal: proof_gate pd_Authorize pd_checks "\<lambda>_. ''authorized''"
  by unfold_locales (rule pd_decided)

section \<open>Resource identity\<close>

record ri_root =
  ri_schema_version :: int
  ri_identity_authorized :: string
  ri_identity_at_effect :: string
  ri_mandating_principal :: string
  ri_mandating_trust :: string
  ri_mandated_identity :: string
  ri_path_permission :: bool
  ri_effect_write :: bool

record ri_artifact =
  ri_requested_path :: string
  ri_resolved_path :: string
  ri_presentation_name :: string
  ri_symlink_target :: string
  ri_is_symlink :: bool
  ri_visible_role :: string
  ri_claimed_verdict :: string
  ri_claimed_proof :: string
  ri_claimed_reason :: string
  ri_claimed_authorized :: string
  ri_claimed_at_effect :: string
  ri_claimed_mandated :: string

definition ri_evidence :: "ri_root \<Rightarrow> bool \<Rightarrow> string \<Rightarrow> string \<Rightarrow> string list" where
  "ri_evidence r structuralOK verdict proof =
     [pick (ri_path_permission r) ''Path permission VALID'' ''Path permission INVALID'',
      pick (ri_effect_write r) ''Effect class WRITE'' ''Effect class NOT WRITE'',
      ''Authorized resource identity '' @ ri_identity_authorized r,
      ''Effect-time resource identity '' @ ri_identity_at_effect r,
      pick (structuralOK \<and> ri_identity_authorized r \<noteq> [] \<and> ri_identity_authorized r = ri_identity_at_effect r)
        ''Identity continuity PRESERVED'' ''Identity continuity FAILED'',
      pick (structuralOK \<and> ri_mandated_identity r \<noteq> [] \<and> ri_mandated_identity r = ri_identity_at_effect r)
        ''Mandate for effect-time identity PRESENT'' ''Mandate for effect-time identity ABSENT'',
      ''Resource Identity Proof '' @ pick structuralOK proof ''INVALID'',
      pick (structuralOK \<and> verdict = ''ALLOW'') ''WRITE ALLOWED'' ''WRITE DENIED'']"

definition ri_finish :: "ri_root \<Rightarrow> bool \<Rightarrow> label \<Rightarrow> label \<Rightarrow> label \<Rightarrow> gate_decision" where
  "ri_finish r structuralOK verdict proof reason =
     \<lparr>gd_verdict = verdict, gd_proof = proof, gd_reason = reason, gd_evidence = ri_evidence r structuralOK verdict proof\<rparr>"

definition EvaluateResourceIdentityProof :: "ri_root \<Rightarrow> gate_decision" where
  "EvaluateResourceIdentityProof r =
     (if ri_schema_version r \<noteq> 1 then ri_finish r False ''DENY'' ''INVALID'' ''invalid evaluation root''
      else case authorityForTrust (ri_mandating_trust r) of
        None \<Rightarrow> ri_finish r False ''DENY'' ''INVALID'' ''invalid evaluation root''
      | Some mandAuth \<Rightarrow>
          (let c1 = (ri_identity_authorized r \<noteq> []);
               c2 = (ri_identity_at_effect r \<noteq> []);
               c3 = (ri_identity_authorized r = ri_identity_at_effect r);
               c4 = (ri_mandating_principal r \<noteq> []);
               c5 = (ri_mandated_identity r \<noteq> []);
               c6 = atLeastUser mandAuth;
               c7 = (ri_mandated_identity r = ri_identity_at_effect r);
               proof = pick (c1 \<and> c2 \<and> c3 \<and> c4 \<and> c5 \<and> c6 \<and> c7) ''VALID'' ''INVALID'';
               fin = (\<lambda>verdict reason. ri_finish r True verdict proof reason)
           in if \<not> c1 then fin ''DENY'' ''authorized resource identity absent''
              else if \<not> c2 then fin ''DENY'' ''effect-time resource identity absent''
              else if \<not> c3 then fin ''DENY'' ''identity continuity failed''
              else if \<not> c4 then fin ''DENY'' ''mandating principal absent''
              else if \<not> c5 then fin ''DENY'' ''mandated resource identity absent''
              else if \<not> c6 then fin ''DENY'' ''mandating principal lacks authority''
              else if \<not> c7 then fin ''DENY'' ''mandate for effect-time identity absent''
              else if \<not> ri_path_permission r then fin ''DENY'' ''path permission invalid''
              else if \<not> ri_effect_write r then fin ''DENY'' ''effect class is not WRITE''
              else fin ''ALLOW'' ''authorized''))"

definition ri_Authorize :: "ri_root \<times> ri_artifact \<Rightarrow> gate_decision" where
  "ri_Authorize x = EvaluateResourceIdentityProof (fst x)"

definition ri_checks :: "ri_root \<times> ri_artifact \<Rightarrow> (bool \<times> string) list" where
  "ri_checks x = (let r = fst x in
     [(ri_schema_version r = 1 \<and> authorityForTrust (ri_mandating_trust r) \<noteq> None, ''invalid evaluation root''),
      (ri_identity_authorized r \<noteq> [], ''authorized resource identity absent''),
      (ri_identity_at_effect r \<noteq> [], ''effect-time resource identity absent''),
      (ri_identity_authorized r = ri_identity_at_effect r, ''identity continuity failed''),
      (ri_mandating_principal r \<noteq> [], ''mandating principal absent''),
      (ri_mandated_identity r \<noteq> [], ''mandated resource identity absent''),
      (trusted_class (ri_mandating_trust r), ''mandating principal lacks authority''),
      (ri_mandated_identity r = ri_identity_at_effect r, ''mandate for effect-time identity absent''),
      (ri_path_permission r, ''path permission invalid''),
      (ri_effect_write r, ''effect class is not WRITE'')])"

lemma ri_decided:
  "(gd_verdict (ri_Authorize x), gd_reason (ri_Authorize x)) =
     (case first_failing (ri_checks x) of None \<Rightarrow> (''ALLOW'', ''authorized'') | Some r \<Rightarrow> (''DENY'', r))"
proof (cases "authorityForTrust (ri_mandating_trust (fst x))")
  case None
  then show ?thesis by (simp add: ri_Authorize_def ri_checks_def EvaluateResourceIdentityProof_def Let_def ri_finish_def)
next
  case (Some a)
  then show ?thesis using trusted_authority [OF Some]
    by (simp add: ri_Authorize_def ri_checks_def EvaluateResourceIdentityProof_def Let_def ri_finish_def)
qed

interpretation resource: proof_gate ri_Authorize ri_checks "\<lambda>_. ''authorized''"
  by unfold_locales (rule ri_decided)

section \<open>Control-plane integrity\<close>

record catalog_tuple =
  ct_kind :: string
  ct_product :: string
  ct_build :: string
  ct_measurement :: string

record ci_catalog =
  cc_trusted_builds :: "catalog_tuple list"
  cc_critical_builds :: "catalog_tuple list"

record ci_root =
  ci_schema_version :: int
  ci_mandate_valid :: bool
  ci_policy_allow :: bool
  ci_identity_store :: catalog_tuple
  ci_policy_store :: catalog_tuple
  ci_execution_runtime :: catalog_tuple
  ci_resource_registry :: catalog_tuple
  ci_catalog :: ci_catalog

record ci_artifact =
  ci_claimed_policy_bytes :: string
  ci_claimed_policy_allow :: bool
  ci_claimed_identity :: catalog_tuple
  ci_claimed_policy :: catalog_tuple
  ci_claimed_runtime :: catalog_tuple
  ci_claimed_registry :: catalog_tuple
  ci_visible_role :: string
  ci_claimed_verdict :: string
  ci_claimed_proof :: string
  ci_claimed_reason :: string
  ci_claimed_control_plane :: string

record ci_decision = gate_decision +
  ci_control_plane :: string
  ci_identity_integrity :: string
  ci_policy_integrity :: string
  ci_runtime_integrity :: string
  ci_registry_integrity :: string

definition filled :: "catalog_tuple \<Rightarrow> bool" where
  "filled t \<longleftrightarrow> ct_kind t \<noteq> [] \<and> ct_product t \<noteq> [] \<and> ct_build t \<noteq> [] \<and> ct_measurement t \<noteq> []"

definition catalogOK :: "ci_catalog \<Rightarrow> bool" where
  "catalogOK c \<longleftrightarrow> list_all filled (cc_trusted_builds c) \<and> distinct (cc_trusted_builds c)
     \<and> list_all filled (cc_critical_builds c) \<and> distinct (cc_critical_builds c)
     \<and> list_all (\<lambda>t. t \<notin> set (cc_trusted_builds c)) (cc_critical_builds c)"

definition ci_classify :: "catalog_tuple \<Rightarrow> string \<Rightarrow> ci_catalog \<Rightarrow> string" where
  "ci_classify a want c =
     (if \<not> filled a \<or> ct_kind a \<noteq> want then ''INVALID''
      else if a \<in> set (cc_critical_builds c) then ''UNPROVEN''
      else if a \<in> set (cc_trusted_builds c) then ''VALID''
      else ''UNPROVEN'')"

definition ci_evidence :: "ci_root \<Rightarrow> label \<Rightarrow> label \<Rightarrow> label \<Rightarrow> label \<Rightarrow> label \<Rightarrow> label \<Rightarrow> string list" where
  "ci_evidence r ident pol rt reg proof verdict =
     [pick (ci_mandate_valid r) ''Mandate structurally VALID'' ''Mandate structurally INVALID'',
      pick (ci_policy_allow r) ''Conventional policy result ALLOW'' ''Conventional policy result DENY'',
      ''identity-store integrity '' @ ident, ''policy-store integrity '' @ pol,
      ''execution-runtime integrity '' @ rt, ''resource-registry integrity '' @ reg,
      ''Control-Plane Integrity Proof '' @ proof,
      pick (verdict = ''ALLOW'') ''CONTROL-PLANE EFFECT ALLOWED'' ''CONTROL-PLANE EFFECT DENIED'']"

definition ci_finish :: "ci_root \<Rightarrow> label \<Rightarrow> label \<Rightarrow> label \<Rightarrow> label \<Rightarrow> bool \<Rightarrow> string \<Rightarrow> string \<Rightarrow> ci_decision" where
  "ci_finish r ident pol rt reg valid verdict reason =
     (let status = pick valid ''VALID'' ''INVALID'' in
      \<lparr>gd_verdict = verdict, gd_proof = status, gd_reason = reason,
       gd_evidence = ci_evidence r ident pol rt reg status verdict, ci_control_plane = status,
       ci_identity_integrity = ident, ci_policy_integrity = pol, ci_runtime_integrity = rt, ci_registry_integrity = reg\<rparr>)"

definition EvaluateControlPlaneIntegrityProof :: "ci_root \<Rightarrow> ci_decision" where
  "EvaluateControlPlaneIntegrityProof r =
     (if ci_schema_version r \<noteq> 1 \<or> \<not> catalogOK (ci_catalog r)
      then ci_finish r ''INVALID'' ''INVALID'' ''INVALID'' ''INVALID'' False ''DENY'' ''invalid evaluation root''
      else
        let ident = ci_classify (ci_identity_store r) ''identity-store'' (ci_catalog r);
            pol = ci_classify (ci_policy_store r) ''policy-store'' (ci_catalog r);
            rt = ci_classify (ci_execution_runtime r) ''execution-runtime'' (ci_catalog r);
            reg = ci_classify (ci_resource_registry r) ''resource-registry'' (ci_catalog r);
            valid = (ident = ''VALID'' \<and> pol = ''VALID'' \<and> rt = ''VALID'' \<and> reg = ''VALID'');
            fin = (\<lambda>verdict reason. ci_finish r ident pol rt reg valid verdict reason)
        in if ident = ''INVALID'' then fin ''DENY'' ''identity-store integrity invalid''
           else if ident = ''UNPROVEN'' then fin ''DENY'' ''identity-store integrity unproven''
           else if pol = ''INVALID'' then fin ''DENY'' ''policy-store integrity invalid''
           else if pol = ''UNPROVEN'' then fin ''DENY'' ''policy-store integrity unproven''
           else if rt = ''INVALID'' then fin ''DENY'' ''execution-runtime integrity invalid''
           else if rt = ''UNPROVEN'' then fin ''DENY'' ''execution-runtime integrity unproven''
           else if reg = ''INVALID'' then fin ''DENY'' ''resource-registry integrity invalid''
           else if reg = ''UNPROVEN'' then fin ''DENY'' ''resource-registry integrity unproven''
           else if \<not> ci_mandate_valid r then fin ''DENY'' ''mandate structurally invalid''
           else if \<not> ci_policy_allow r then fin ''DENY'' ''conventional policy denied''
           else fin ''ALLOW'' ''authorized'')"

definition ci_Authorize :: "ci_root \<times> ci_artifact \<Rightarrow> ci_decision" where
  "ci_Authorize x = EvaluateControlPlaneIntegrityProof (fst x)"

definition ci_named :: "ci_root \<Rightarrow> catalog_tuple \<Rightarrow> string \<Rightarrow> bool" where
  "ci_named r a want \<longleftrightarrow> filled a \<and> ct_kind a = want"

definition ci_proven :: "ci_root \<Rightarrow> catalog_tuple \<Rightarrow> bool" where
  "ci_proven r a \<longleftrightarrow> a \<in> set (cc_trusted_builds (ci_catalog r)) \<and> a \<notin> set (cc_critical_builds (ci_catalog r))"

definition ci_checks :: "ci_root \<times> ci_artifact \<Rightarrow> (bool \<times> string) list" where
  "ci_checks x = (let r = fst x in
     [(ci_schema_version r = 1 \<and> catalogOK (ci_catalog r), ''invalid evaluation root''),
      (ci_named r (ci_identity_store r) ''identity-store'', ''identity-store integrity invalid''),
      (ci_proven r (ci_identity_store r), ''identity-store integrity unproven''),
      (ci_named r (ci_policy_store r) ''policy-store'', ''policy-store integrity invalid''),
      (ci_proven r (ci_policy_store r), ''policy-store integrity unproven''),
      (ci_named r (ci_execution_runtime r) ''execution-runtime'', ''execution-runtime integrity invalid''),
      (ci_proven r (ci_execution_runtime r), ''execution-runtime integrity unproven''),
      (ci_named r (ci_resource_registry r) ''resource-registry'', ''resource-registry integrity invalid''),
      (ci_proven r (ci_resource_registry r), ''resource-registry integrity unproven''),
      (ci_mandate_valid r, ''mandate structurally invalid''),
      (ci_policy_allow r, ''conventional policy denied'')])"

lemma ci_classify_cases:
  "ci_classify a want (ci_catalog r) = ''INVALID'' \<longleftrightarrow> \<not> ci_named r a want"
  "ci_named r a want \<Longrightarrow> ci_classify a want (ci_catalog r) = (if ci_proven r a then ''VALID'' else ''UNPROVEN'')"
  by (auto simp: ci_classify_def ci_named_def ci_proven_def)

lemma ci_decided:
  "(gd_verdict (ci_Authorize x), gd_reason (ci_Authorize x)) =
     (case first_failing (ci_checks x) of None \<Rightarrow> (''ALLOW'', ''authorized'') | Some r \<Rightarrow> (''DENY'', r))"
  by (simp add: ci_Authorize_def ci_checks_def EvaluateControlPlaneIntegrityProof_def Let_def ci_finish_def ci_classify_cases)

interpretation control_plane: proof_gate ci_Authorize ci_checks "\<lambda>_. ''authorized''"
  by unfold_locales (rule ci_decided)

section \<open>Authority context\<close>

record ax_mandate =
  am_mandate_id :: string
  am_principal_id :: string
  am_authorized_domains :: "string list"

record ax_root =
  ax_schema_version :: int
  ax_held_principal :: string
  ax_held_domain :: string
  ax_mandate :: ax_mandate
  ax_enabled :: bool

record ax_action =
  aa_action_id :: string
  aa_effect_class :: string
  aa_requested_principal :: string
  aa_requested_domain :: string
  aa_observed_principal :: string
  aa_observed_domain :: string
  aa_claimed_principal :: string
  aa_claimed_domain :: string
  aa_claimed_inherited_principal :: string
  aa_claimed_inherited_domain :: string
  aa_claimed_context_valid :: bool
  aa_claimed_proof_valid :: bool
  aa_claimed_authorized :: bool
  aa_claimed_cached :: bool

record ax_decision = gate_decision +
  ax_principal_binding :: string
  ax_domain_authority :: string
  ax_context_binding :: string

definition ax_structuralOK :: "ax_root \<Rightarrow> bool" where
  "ax_structuralOK r \<longleftrightarrow> ax_schema_version r = 1 \<and> ax_held_principal r \<noteq> [] \<and> ax_held_domain r \<noteq> []
     \<and> am_mandate_id (ax_mandate r) \<noteq> [] \<and> am_principal_id (ax_mandate r) \<noteq> [] \<and> am_principal_id (ax_mandate r) = ax_held_principal r
     \<and> uniq (am_authorized_domains (ax_mandate r))"

definition ax_finish :: "ax_root \<Rightarrow> ax_action \<Rightarrow> label \<Rightarrow> label \<Rightarrow> label \<Rightarrow> label \<Rightarrow> label \<Rightarrow> label \<Rightarrow> ax_decision" where
  "ax_finish r a verdict proof reason bound domain ctx =
     \<lparr>gd_verdict = verdict, gd_proof = proof, gd_reason = reason,
      gd_evidence =
        [''Mandate '' @ am_mandate_id (ax_mandate r), ''Held principal '' @ ax_held_principal r,
         ''Requested context '' @ aa_requested_principal a @ ''@'' @ aa_requested_domain a,
         ''Observed context '' @ aa_observed_principal a @ ''@'' @ aa_observed_domain a,
         ''Principal binding '' @ bound, ''Observed-domain authority '' @ domain,
         ''Authority-Context Integrity Proof '' @ proof,
         pick (verdict = ''ALLOW'') ''CONTEXT EFFECT ALLOWED'' ''CONTEXT EFFECT DENIED''],
      ax_principal_binding = bound, ax_domain_authority = domain, ax_context_binding = ctx\<rparr>"

definition EvaluateAuthorityContextIntegrity :: "ax_root \<times> ax_action \<Rightarrow> ax_decision" where
  "EvaluateAuthorityContextIntegrity x =
     (let r = fst x; a = snd x; deny = (\<lambda>reason. ax_finish r a ''DENY'' ''INVALID'' reason ''INVALID'' ''INVALID'' ''INVALID'') in
      if \<not> ax_structuralOK r then deny ''invalid evaluation root''
      else if aa_action_id a = [] then deny ''action identifier absent''
      else if aa_effect_class a \<noteq> ''EXECUTE'' then deny ''unsupported effect class''
      else if aa_requested_principal a = [] then deny ''requested principal absent''
      else if aa_requested_domain a = [] then deny ''requested domain absent''
      else if aa_observed_principal a = [] then deny ''observed principal absent''
      else if aa_observed_domain a = [] then deny ''observed domain absent''
      else if \<not> ax_enabled r
      then ax_finish r a ''DENY'' ''DISABLED'' ''authority context disabled'' ''DISABLED'' ''DISABLED'' ''DISABLED''
      else
        let c8 = (aa_requested_principal a = ax_held_principal r);
            c9 = (aa_observed_principal a = aa_requested_principal a);
            c10 = (aa_observed_domain a = aa_requested_domain a);
            c11 = (aa_observed_domain a \<in> set (am_authorized_domains (ax_mandate r)));
            c12 = (aa_observed_domain a = ax_held_domain r);
            fin = (\<lambda>verdict proof reason. ax_finish r a verdict proof reason
                     (pick (c8 \<and> c9) ''VALID'' ''INVALID'') (pick c11 ''PRESENT'' ''ABSENT'') (pick (c10 \<and> c12) ''VALID'' ''INVALID''))
        in if \<not> c8 then fin ''DENY'' ''INVALID'' ''requested principal does not match held principal''
           else if \<not> c9 then fin ''DENY'' ''INVALID'' ''observed principal does not match requested principal''
           else if \<not> c10 then fin ''DENY'' ''INVALID'' ''observed domain does not match requested domain''
           else if \<not> c11 then fin ''DENY'' ''INVALID'' ''observed domain outside mandate''
           else if \<not> c12 then fin ''DENY'' ''INVALID'' ''observed domain does not match held execution context''
           else fin ''ALLOW'' ''VALID'' ''authorized'')"

definition ax_checks :: "ax_root \<times> ax_action \<Rightarrow> (bool \<times> string) list" where
  "ax_checks x = (let r = fst x; a = snd x in
     [(ax_structuralOK r, ''invalid evaluation root''), (aa_action_id a \<noteq> [], ''action identifier absent''),
      (aa_effect_class a = ''EXECUTE'', ''unsupported effect class''), (aa_requested_principal a \<noteq> [], ''requested principal absent''),
      (aa_requested_domain a \<noteq> [], ''requested domain absent''), (aa_observed_principal a \<noteq> [], ''observed principal absent''),
      (aa_observed_domain a \<noteq> [], ''observed domain absent''), (ax_enabled r, ''authority context disabled''),
      (aa_requested_principal a = ax_held_principal r, ''requested principal does not match held principal''),
      (aa_observed_principal a = aa_requested_principal a, ''observed principal does not match requested principal''),
      (aa_observed_domain a = aa_requested_domain a, ''observed domain does not match requested domain''),
      (aa_observed_domain a \<in> set (am_authorized_domains (ax_mandate r)), ''observed domain outside mandate''),
      (aa_observed_domain a = ax_held_domain r, ''observed domain does not match held execution context'')])"

lemma ax_decided:
  "(gd_verdict (EvaluateAuthorityContextIntegrity x), gd_reason (EvaluateAuthorityContextIntegrity x)) =
     (case first_failing (ax_checks x) of None \<Rightarrow> (''ALLOW'', ''authorized'') | Some r \<Rightarrow> (''DENY'', r))"
  by (simp add: ax_checks_def EvaluateAuthorityContextIntegrity_def Let_def ax_finish_def)

interpretation context_integrity: proof_gate EvaluateAuthorityContextIntegrity ax_checks "\<lambda>_. ''authorized''"
  by unfold_locales (rule ax_decided)

section \<open>Host transitivity\<close>

record host_grant =
  hg_grant_id :: string
  hg_principal :: string
  hg_bound_host :: string
  hg_bound_domain :: string
  hg_declared_hosts :: "string list"
  hg_credential_paths :: "string list"
  hg_egress_paths :: "string list"
  hg_package_install :: bool
  hg_persistent_listener :: bool
  hg_replica_bootstrap :: bool

record ht_root =
  ht_schema_version :: int
  ht_held_principal :: string
  ht_held_host :: string
  ht_held_domain :: string
  ht_grant :: host_grant
  ht_enabled :: bool

record ht_action =
  ha_action_id :: string
  ha_effect_class :: string
  ha_requested_principal :: string
  ha_requested_host :: string
  ha_requested_domain :: string
  ha_observed_principal :: string
  ha_observed_host :: string
  ha_observed_domain :: string
  ha_target_host :: string
  ha_resource_path :: string
  ha_egress_path :: string
  ha_claimed_inherited_grant :: string
  ha_claimed_replica :: string
  ha_claimed_host_authorized :: bool
  ha_claimed_grant_valid :: bool
  ha_claimed_proof_valid :: bool
  ha_claimed_authorized :: bool

record ht_decision = gate_decision +
  ht_local_binding :: string
  ht_target_authority :: string
  ht_path_authority :: string
  ht_edge_authority :: string

definition knownEffect :: "string \<Rightarrow> bool" where
  "knownEffect e \<longleftrightarrow> e = ''TRANSFER'' \<or> e = ''CREDENTIAL_READ'' \<or> e = ''REMOTE_EXEC'' \<or> e = ''BULK_EGRESS''
     \<or> e = ''PACKAGE_INSTALL'' \<or> e = ''PERSISTENT_LISTENER'' \<or> e = ''REPLICA_BOOTSTRAP''"

definition ht_structuralOK :: "ht_root \<Rightarrow> bool" where
  "ht_structuralOK r \<longleftrightarrow>
     (let g = ht_grant r in
      ht_schema_version r = 1 \<and> ht_held_principal r \<noteq> [] \<and> ht_held_host r \<noteq> [] \<and> ht_held_domain r \<noteq> []
      \<and> hg_grant_id g \<noteq> [] \<and> hg_principal g = ht_held_principal r \<and> hg_bound_host g = ht_held_host r \<and> hg_bound_domain g = ht_held_domain r
      \<and> hg_declared_hosts g \<noteq> [] \<and> unique_filled (hg_declared_hosts g) \<and> hg_bound_host g \<in> set (hg_declared_hosts g)
      \<and> unique_filled (hg_credential_paths g) \<and> unique_filled (hg_egress_paths g))"

definition hostComp :: "string \<Rightarrow> string \<Rightarrow> host_grant \<Rightarrow> string \<Rightarrow> bool" where
  "hostComp e target g held =
     (if e = ''CREDENTIAL_READ'' \<or> e = ''PACKAGE_INSTALL'' \<or> e = ''PERSISTENT_LISTENER'' \<or> e = ''REPLICA_BOOTSTRAP'' then target = hg_bound_host g
      else if e = ''REMOTE_EXEC'' \<or> e = ''BULK_EGRESS'' then target \<in> set (hg_declared_hosts g)
      else if e = ''TRANSFER'' then held \<in> set (hg_declared_hosts g) \<and> target \<in> set (hg_declared_hosts g)
      else False)"

definition ht_finish :: "ht_root \<Rightarrow> ht_action \<Rightarrow> label \<Rightarrow> label \<Rightarrow> label \<Rightarrow> label \<Rightarrow> label \<Rightarrow> label \<Rightarrow> label \<Rightarrow> ht_decision" where
  "ht_finish r a verdict proof reason binding target path edge =
     \<lparr>gd_verdict = verdict, gd_proof = proof, gd_reason = reason,
      gd_evidence =
        [''Grant '' @ hg_grant_id (ht_grant r), ''Held binding '' @ ht_held_principal r @ ''@'' @ ht_held_host r @ ''/'' @ ht_held_domain r,
         ''Requested binding '' @ ha_requested_principal a @ ''@'' @ ha_requested_host a @ ''/'' @ ha_requested_domain a,
         ''Observed binding '' @ ha_observed_principal a @ ''@'' @ ha_observed_host a @ ''/'' @ ha_observed_domain a,
         ''Target host '' @ ha_target_host a,
         ''Authority local='' @ binding @ '' target='' @ target @ '' path='' @ path @ '' edge='' @ edge,
         ''Host Transitivity Proof '' @ proof, pick (verdict = ''ALLOW'') ''HOST EFFECT ALLOWED'' ''HOST EFFECT DENIED''],
      ht_local_binding = binding, ht_target_authority = target, ht_path_authority = path, ht_edge_authority = edge\<rparr>"

text \<open>The two tables of the code: the checks before the disabled switch, and the effect rules after it.\<close>

definition ht_early :: "ht_root \<Rightarrow> ht_action \<Rightarrow> (bool \<times> string) list" where
  "ht_early r a =
     [(ht_structuralOK r, ''invalid evaluation root''), (ha_action_id a \<noteq> [], ''action identifier absent''),
      (knownEffect (ha_effect_class a), ''unsupported effect class''), (ha_requested_principal a \<noteq> [], ''requested principal absent''),
      (ha_requested_host a \<noteq> [], ''requested host absent''), (ha_requested_domain a \<noteq> [], ''requested execution domain absent''),
      (ha_observed_principal a \<noteq> [], ''observed principal absent''), (ha_observed_host a \<noteq> [], ''observed host absent''),
      (ha_observed_domain a \<noteq> [], ''observed execution domain absent''), (ha_target_host a \<noteq> [], ''target host absent'')]"

definition ht_edges :: "ht_root \<Rightarrow> ht_action \<Rightarrow> (bool \<times> string) list" where
  "ht_edges r a =
     (let g = ht_grant r; e = ha_effect_class a; t = ha_target_host a in
      [(e \<noteq> ''CREDENTIAL_READ'' \<or> t = hg_bound_host g \<and> ha_resource_path a \<in> set (hg_credential_paths g), ''credential read outside grant''),
       (e \<noteq> ''REMOTE_EXEC'' \<or> t \<in> set (hg_declared_hosts g), ''remote-exec target host undeclared''),
       (e \<noteq> ''BULK_EGRESS'' \<or> t \<in> set (hg_declared_hosts g) \<and> ha_egress_path a \<in> set (hg_egress_paths g), ''bulk egress outside declared paths''),
       (e \<noteq> ''PACKAGE_INSTALL'' \<or> t = hg_bound_host g \<and> hg_package_install g, ''package install not granted on bound host''),
       (e \<noteq> ''PERSISTENT_LISTENER'' \<or> t = hg_bound_host g \<and> hg_persistent_listener g, ''persistent listener not granted''),
       (e \<noteq> ''REPLICA_BOOTSTRAP'' \<or> t = hg_bound_host g \<and> hg_replica_bootstrap g, ''replica bootstrap lacks fresh local grant''),
       (e \<noteq> ''TRANSFER'' \<or> ht_held_host r \<in> set (hg_declared_hosts g) \<and> t \<in> set (hg_declared_hosts g), ''transfer host undeclared'')])"

definition ht_later :: "ht_root \<Rightarrow> ht_action \<Rightarrow> (bool \<times> string) list" where
  "ht_later r a =
     [(ha_requested_principal a = ht_held_principal r \<and> ha_requested_host a = ht_held_host r \<and> ha_requested_domain a = ht_held_domain r,
       ''requested binding does not match held grant binding''),
      (ha_observed_principal a = ha_requested_principal a \<and> ha_observed_host a = ha_requested_host a \<and> ha_observed_domain a = ha_requested_domain a,
       ''observed binding does not match requested binding'')] @ ht_edges r a"

definition EvaluateHostTransitivity :: "ht_root \<times> ht_action \<Rightarrow> ht_decision" where
  "EvaluateHostTransitivity x =
     (let r = fst x; a = snd x; g = ht_grant r in
      case first_failing (ht_early r a) of
        Some reason \<Rightarrow> ht_finish r a ''DENY'' ''INVALID'' reason ''INVALID'' ''INVALID'' ''INVALID'' ''INVALID''
      | None \<Rightarrow>
          if \<not> ht_enabled r then ht_finish r a ''DENY'' ''DISABLED'' ''host authority disabled'' ''DISABLED'' ''DISABLED'' ''DISABLED'' ''DISABLED''
          else
            let binding = pick (list_all fst (take 2 (ht_later r a))) ''VALID'' ''INVALID'';
                target = pick (hostComp (ha_effect_class a) (ha_target_host a) g (ht_held_host r)) ''PRESENT'' ''ABSENT'';
                path = (if ha_effect_class a = ''CREDENTIAL_READ'' then pick (ha_resource_path a \<in> set (hg_credential_paths g)) ''PRESENT'' ''ABSENT''
                        else if ha_effect_class a = ''BULK_EGRESS'' then pick (ha_egress_path a \<in> set (hg_egress_paths g)) ''PRESENT'' ''ABSENT''
                        else ''NOT_APPLICABLE'');
                edge = pick (list_all fst (ht_edges r a)) ''PRESENT'' ''ABSENT''
            in case first_failing (ht_later r a) of
                 Some reason \<Rightarrow> ht_finish r a ''DENY'' ''INVALID'' reason binding target path edge
               | None \<Rightarrow> ht_finish r a ''ALLOW'' ''VALID'' ''authorized'' binding target path edge)"

definition ht_checks :: "ht_root \<times> ht_action \<Rightarrow> (bool \<times> string) list" where
  "ht_checks x = ht_early (fst x) (snd x) @ [(ht_enabled (fst x), ''host authority disabled'')] @ ht_later (fst x) (snd x)"

lemma ht_decided:
  "(gd_verdict (EvaluateHostTransitivity x), gd_reason (EvaluateHostTransitivity x)) =
     (case first_failing (ht_checks x) of None \<Rightarrow> (''ALLOW'', ''authorized'') | Some r \<Rightarrow> (''DENY'', r))"
  by (simp add: ht_checks_def EvaluateHostTransitivity_def Let_def ht_finish_def first_failing_append split: option.split)

interpretation host: proof_gate EvaluateHostTransitivity ht_checks "\<lambda>_. ''authorized''"
  by unfold_locales (rule ht_decided)

section \<open>Self escalation\<close>

record parent_delegation =
  pl_delegation_id :: string
  pl_child :: string
  pl_allowed :: "string list"

record meta_grant =
  mg_grant_id :: string
  mg_grantee :: string
  mg_authority :: string
  mg_proof_type :: string

record se_root =
  se_schema_version :: int
  se_delegation :: parent_delegation
  se_meta_grants :: "meta_grant list"
  se_meta_enabled :: bool
  se_surfaces :: "string list"

record se_action =
  sa_action_id :: string
  sa_actor :: string
  sa_requested :: string
  sa_surface :: string
  sa_claimed_host :: string
  sa_claimed_attribution :: string
  sa_claimed_danger :: bool
  sa_claimed_rewrite :: bool
  sa_claimed_authorized :: bool

record se_decision = gate_decision +
  se_delegation_authority :: string
  se_meta_authority :: string
  se_reachability :: string
  se_attribution :: string

definition se_structuralOK :: "se_root \<Rightarrow> bool" where
  "se_structuralOK r \<longleftrightarrow>
     se_schema_version r = 1 \<and> pl_delegation_id (se_delegation r) \<noteq> [] \<and> pl_child (se_delegation r) \<noteq> []
     \<and> uniq (pl_allowed (se_delegation r)) \<and> uniq (se_surfaces r)
     \<and> list_all (\<lambda>g. mg_grant_id g \<noteq> [] \<and> mg_grantee g \<noteq> [] \<and> mg_authority g \<noteq> []
                    \<and> (mg_proof_type g = ''META_AUTHORITY'' \<or> mg_proof_type g = ''ORDINARY_ACTION'')) (se_meta_grants r)
     \<and> distinct (map mg_grant_id (se_meta_grants r))"

definition metaOK :: "se_root \<Rightarrow> string \<Rightarrow> string \<Rightarrow> bool" where
  "metaOK r actor auth \<longleftrightarrow>
     list_ex (\<lambda>g. mg_grantee g = actor \<and> mg_authority g = auth \<and> mg_proof_type g = ''META_AUTHORITY'') (se_meta_grants r)"

definition none :: "string \<Rightarrow> string" where
  "none s = (if s = [] then ''<none>'' else s)"

definition proofLine :: "string \<Rightarrow> string \<Rightarrow> string" where
  "proofLine p auth =
     (if p = ''MISSING'' then ''Missing proof ''
      else if p = ''VALID'' then ''Authority Proof VALID ''
      else if p = ''DISABLED'' then ''Self-Escalation Proof DISABLED ''
      else ''Authority Proof INVALID '') @ auth"

definition se_finish :: "se_root \<Rightarrow> se_action \<Rightarrow> label \<Rightarrow> label \<Rightarrow> label \<Rightarrow> label \<Rightarrow> label \<Rightarrow> label \<Rightarrow> label \<Rightarrow> se_decision" where
  "se_finish r a verdict proof reason deleg meta surface attr =
     \<lparr>gd_verdict = verdict, gd_proof = proof, gd_reason = reason,
      gd_evidence =
        [''Authority root delegation='' @ pl_delegation_id (se_delegation r) @ '' child='' @ pl_child (se_delegation r)
           @ '' allowed='' @ itoa (int (length (pl_allowed (se_delegation r)))) @ '' meta_grants='' @ itoa (int (length (se_meta_grants r)))
           @ '' surfaces='' @ itoa (int (length (se_surfaces r))),
         ''Requested action '' @ sa_action_id a @ '' actor='' @ sa_actor a @ '' authority='' @ sa_requested a,
         ''Management surface '' @ none (sa_surface a) @ '' reachability='' @ surface,
         ''Claims host='' @ none (sa_claimed_host a) @ '' attribution='' @ none (sa_claimed_attribution a)
           @ '' danger_full_access='' @ format_bool (sa_claimed_danger a) @ '' policy_rewrite='' @ format_bool (sa_claimed_rewrite a)
           @ '' authorized='' @ format_bool (sa_claimed_authorized a),
         ''Authority delegation='' @ deleg @ '' meta='' @ meta @ '' attribution='' @ attr,
         proofLine proof (sa_requested a), ''reason '' @ reason,
         pick (verdict = ''ALLOW'') ''ACTION ALLOWED'' ''ACTION DENIED''],
      se_delegation_authority = deleg, se_meta_authority = meta, se_reachability = surface, se_attribution = attr\<rparr>"

definition se_Authorize :: "se_root \<times> se_action \<Rightarrow> se_decision" where
  "se_Authorize x =
     (let r = fst x; a = snd x;
          self = (sa_requested a = ''authority.modify(self)'');
          c4 = (sa_actor a = pl_child (se_delegation r));
          c5 = (sa_requested a \<in> set (pl_allowed (se_delegation r)));
          granted = metaOK r (sa_actor a) (sa_requested a);
          reach = pick (sa_surface a \<noteq> [] \<and> sa_surface a \<in> set (se_surfaces r)) ''PRESENT'' ''ABSENT'';
          invalid = (\<lambda>reason. se_finish r a ''DENY'' ''INVALID'' reason ''INVALID'' ''INVALID'' ''INVALID'' ''INVALID'')
      in if \<not> se_structuralOK r then invalid ''invalid evaluation root''
         else if sa_action_id a = [] then invalid ''action identifier absent''
         else if sa_actor a = [] then invalid ''actor principal absent''
         else if sa_requested a = [] then invalid ''requested authority absent''
         else if \<not> c4 then se_finish r a ''DENY'' ''INVALID'' ''actor outside parent delegation'' ''INVALID''
                (pick (self \<and> se_meta_enabled r) ''MISSING'' ''NOT_REQUIRED'') reach ''INVALID''
         else if self \<and> \<not> se_meta_enabled r then se_finish r a ''DENY'' ''DISABLED'' ''meta-authority enforcement disabled''
                (pick c5 ''PRESENT'' ''ABSENT'') ''DISABLED'' ''DISABLED'' ''DISABLED''
         else if self \<and> \<not> granted then se_finish r a ''DENY'' ''MISSING'' ''meta-authority proof missing''
                (pick c5 ''PRESENT'' ''ABSENT'') ''MISSING'' reach ''AGENT''
         else if \<not> c5 then se_finish r a ''DENY'' ''INVALID'' ''requested authority outside parent delegation'' ''ABSENT'' ''NOT_REQUIRED'' reach ''AGENT''
         else se_finish r a ''ALLOW'' ''VALID'' ''authorized'' ''PRESENT'' (pick self ''PRESENT'' ''NOT_REQUIRED'') reach ''AGENT'')"

definition se_checks :: "se_root \<times> se_action \<Rightarrow> (bool \<times> string) list" where
  "se_checks x = (let r = fst x; a = snd x; self = (sa_requested a = ''authority.modify(self)'') in
     [(se_structuralOK r, ''invalid evaluation root''), (sa_action_id a \<noteq> [], ''action identifier absent''),
      (sa_actor a \<noteq> [], ''actor principal absent''), (sa_requested a \<noteq> [], ''requested authority absent''),
      (sa_actor a = pl_child (se_delegation r), ''actor outside parent delegation''),
      (self \<longrightarrow> se_meta_enabled r, ''meta-authority enforcement disabled''),
      (self \<longrightarrow> metaOK r (sa_actor a) (sa_requested a), ''meta-authority proof missing''),
      (sa_requested a \<in> set (pl_allowed (se_delegation r)), ''requested authority outside parent delegation'')])"

lemma se_decided:
  "(gd_verdict (se_Authorize x), gd_reason (se_Authorize x)) =
     (case first_failing (se_checks x) of None \<Rightarrow> (''ALLOW'', ''authorized'') | Some r \<Rightarrow> (''DENY'', r))"
  by (simp add: se_checks_def se_Authorize_def Let_def se_finish_def) auto

interpretation escalation: proof_gate se_Authorize se_checks "\<lambda>_. ''authorized''"
  by unfold_locales (rule se_decided)

section \<open>Properties\<close>

definition derivation_chain :: "pd_root \<Rightarrow> bool" where
  "derivation_chain r \<longleftrightarrow>
     pd_schema_version r = 1 \<and> pd_transport_trust r = ''ATTESTED'' \<and> pd_transport_principal r \<noteq> [] \<and> pd_session_bound r
     \<and> pd_session_principal r = pd_transport_principal r \<and> pd_agent_authenticated r \<and> pd_agent_principal r = pd_transport_principal r
     \<and> pd_delegation r \<and> pd_mandating_principal r \<noteq> [] \<and> trusted_class (pd_mandating_trust r)
     \<and> pd_mandated_agent r = pd_transport_principal r"

lemma trusted_known: "trusted_class c \<Longrightarrow> authorityForTrust c \<noteq> None"
  by (auto simp: trusted_class_def authorityForTrust_def)

lemma authority_zero: "authorityForTrust c = Some a \<Longrightarrow> a = ''ZERO'' \<longleftrightarrow> \<not> trusted_class c"
  by (auto simp: authorityForTrust_def trusted_class_def split: if_splits)

text \<open>Authority of a caller is derived, never presented: a request is allowed exactly when an attested
  transport principal is the bound session principal, is the authenticated agent, is the agent the
  mandate names, the user delegated, the mandating principal is trusted and the tool is available. The
  caller authority is above ZERO exactly when that chain holds, with or without the tool. Host, origin,
  forwarded headers, DNS answers, socket locality and claimed proofs have no influence.\<close>

theorem principal_authority_derived:
  "(gd_verdict (pd_Authorize (r, a)) = ''ALLOW'' \<longleftrightarrow> derivation_chain r \<and> pd_tool_available r)
   \<and> (pd_caller_authority (pd_Authorize (r, a)) \<noteq> ''ZERO'' \<longleftrightarrow> derivation_chain r)"
proof
  show "gd_verdict (pd_Authorize (r, a)) = ''ALLOW'' \<longleftrightarrow> derivation_chain r \<and> pd_tool_available r"
    using trusted_known [of "pd_mandating_trust r"]
    by (simp add: principal.allow_iff pd_checks_def Let_def derivation_chain_def) auto
  show "pd_caller_authority (pd_Authorize (r, a)) \<noteq> ''ZERO'' \<longleftrightarrow> derivation_chain r"
  proof (cases "authorityForTrust (pd_mandating_trust r)")
    case None
    then have "\<not> trusted_class (pd_mandating_trust r)" using trusted_known by blast
    then show ?thesis using None
      by (simp add: pd_Authorize_def EvaluatePrincipalDerivationProof_def pd_finish_def derivation_chain_def)
  next
    case (Some m)
    note t = trusted_authority [OF Some] authority_zero [OF Some]
    show ?thesis using Some t
      by (simp add: pd_Authorize_def EvaluatePrincipalDerivationProof_def pd_finish_def derivation_chain_def Let_def pick_def)
  qed
qed

text \<open>Host authority does not travel: an allowed host effect was requested and observed by exactly the
  principal, on exactly the host and in exactly the domain the grant binds, and its target is the bound
  host or one of the hosts the grant declares; an effect that installs, listens, bootstraps a replica or
  reads credentials stays on the bound host. So a replica under another principal or on another host is
  denied under the original's grant, whatever it claims to have inherited.\<close>

theorem host_authority_not_transitive:
  assumes "gd_verdict (EvaluateHostTransitivity (r, a)) = ''ALLOW''"
  shows "ha_observed_principal a = hg_principal (ht_grant r) \<and> ha_observed_host a = hg_bound_host (ht_grant r)
     \<and> ha_observed_domain a = hg_bound_domain (ht_grant r) \<and> ha_requested_principal a = hg_principal (ht_grant r)
     \<and> ha_target_host a \<in> set (hg_declared_hosts (ht_grant r))
     \<and> (ha_effect_class a \<in> {''CREDENTIAL_READ'', ''PACKAGE_INSTALL'', ''PERSISTENT_LISTENER'', ''REPLICA_BOOTSTRAP''}
          \<longrightarrow> ha_target_host a = hg_bound_host (ht_grant r))"
proof -
  have c: "list_all fst (ht_early r a)" "list_all fst (ht_later r a)"
    using assms by (simp_all add: host.allow_iff ht_checks_def)
  have s: "hg_principal (ht_grant r) = ht_held_principal r" "hg_bound_host (ht_grant r) = ht_held_host r"
      "hg_bound_domain (ht_grant r) = ht_held_domain r" "hg_bound_host (ht_grant r) \<in> set (hg_declared_hosts (ht_grant r))"
      and k: "knownEffect (ha_effect_class a)"
    using c(1) by (auto simp: ht_early_def ht_structuralOK_def Let_def)
  have b: "ha_requested_principal a = ht_held_principal r" "ha_observed_principal a = ht_held_principal r"
      "ha_observed_host a = ht_held_host r" "ha_observed_domain a = ht_held_domain r" and e: "list_all fst (ht_edges r a)"
    using c(2) by (simp_all add: ht_later_def)
  have t: "ha_target_host a \<in> set (hg_declared_hosts (ht_grant r))" using k e s(4) unfolding knownEffect_def
    by (elim disjE) (simp_all add: ht_edges_def Let_def)
  have "ha_target_host a = hg_bound_host (ht_grant r)"
    if "ha_effect_class a \<in> {''CREDENTIAL_READ'', ''PACKAGE_INSTALL'', ''PERSISTENT_LISTENER'', ''REPLICA_BOOTSTRAP''}"
    using that e by (elim insertE) (simp_all add: ht_edges_def Let_def)
  then show ?thesis using s b t by simp
qed

definition demo_host_root :: ht_root where
  "demo_host_root = \<lparr>ht_schema_version = 1, ht_held_principal = ''p'', ht_held_host = ''h'', ht_held_domain = ''d'',
     ht_grant = \<lparr>hg_grant_id = ''g'', hg_principal = ''p'', hg_bound_host = ''h'', hg_bound_domain = ''d'', hg_declared_hosts = [''h'', ''k''],
       hg_credential_paths = [], hg_egress_paths = [], hg_package_install = True, hg_persistent_listener = False, hg_replica_bootstrap = False\<rparr>,
     ht_enabled = True\<rparr>"

definition demo_host_action :: "string \<Rightarrow> string \<Rightarrow> ht_action" where
  "demo_host_action effect target = \<lparr>ha_action_id = ''a'', ha_effect_class = effect, ha_requested_principal = ''p'', ha_requested_host = ''h'',
     ha_requested_domain = ''d'', ha_observed_principal = ''p'', ha_observed_host = ''h'', ha_observed_domain = ''d'', ha_target_host = target,
     ha_resource_path = [], ha_egress_path = [], ha_claimed_inherited_grant = ''g'', ha_claimed_replica = ''r'', ha_claimed_host_authorized = True,
     ha_claimed_grant_valid = True, ha_claimed_proof_valid = True, ha_claimed_authorized = True\<rparr>"

theorem host_authority_not_transitive_witness:
  "gd_verdict (EvaluateHostTransitivity (demo_host_root, demo_host_action ''PACKAGE_INSTALL'' ''h'')) = ''ALLOW''
   \<and> ha_observed_principal (demo_host_action ''PACKAGE_INSTALL'' ''h'') = hg_principal (ht_grant demo_host_root)"
proof -
  have a: "gd_verdict (EvaluateHostTransitivity (demo_host_root, demo_host_action ''PACKAGE_INSTALL'' ''h'')) = ''ALLOW''" by code_simp
  from host_authority_not_transitive [OF this] a show ?thesis by blast
qed

text \<open>No self escalation: an agent may modify its own authority only if it is the child of the parent
  delegation, enforcement is on, the delegation lists that authority and a grant of type META_AUTHORITY
  names this agent; ordinary-action grants, reachable management surfaces, claimed host headers, claimed
  user attribution and claimed permissions do not help.\<close>

theorem self_escalation_needs_meta_grant:
  "gd_verdict (se_Authorize (r, a\<lparr>sa_requested := ''authority.modify(self)''\<rparr>)) = ''ALLOW'' \<longleftrightarrow>
     se_structuralOK r \<and> sa_action_id a \<noteq> [] \<and> sa_actor a = pl_child (se_delegation r) \<and> se_meta_enabled r
     \<and> ''authority.modify(self)'' \<in> set (pl_allowed (se_delegation r))
     \<and> (\<exists>g\<in>set (se_meta_grants r). mg_grantee g = sa_actor a \<and> mg_authority g = ''authority.modify(self)'' \<and> mg_proof_type g = ''META_AUTHORITY'')"
  by (auto simp: escalation.allow_iff se_checks_def Let_def metaOK_def list_ex_iff se_structuralOK_def)

end
