(* ===== verification/Trajectory_Proofs.thy ===== *)
theory Trajectory_Proofs
  imports Proof_Gate "HOL-Library.AList" "HOL-Library.List_Lexorder" "HOL-Library.Char_ord"
begin

text \<open>
  The proof packages that judge a trajectory of actions: capability composition, cross-tool
  correlation, authorization-state fidelity and swarm budgets
  (\<^verbatim>\<open>src/internal/compositiongraph\<close>, \<^verbatim>\<open>toolcorrelation\<close>, \<^verbatim>\<open>authstatefidelity\<close>, \<^verbatim>\<open>swarmbudget\<close>).
  Each has an abstract specification beside the code: a path through the installed edges, a sum over the
  referenced uses, a log without a later revocation, and a budget that an admitted action keeps.
\<close>

section \<open>Capability composition\<close>

record cg_mandate =
  cm_mandate_id :: string
  cm_effects :: "string list"
  cm_destinations :: "string list"
  cm_artifacts :: "string list"

record cg_edge =
  ce_edge_id :: string
  ce_from :: string
  ce_to :: string
  ce_effect :: string
  ce_destination :: string

record cg_skill =
  cs_skill_id :: string
  cs_edges :: "cg_edge list"

record cg_step =
  cp_skill_id :: string
  cp_edge_id :: string

record cg_root =
  cg_schema_version :: int
  cg_mandate :: cg_mandate
  cg_skills :: "cg_skill list"
  cg_enabled :: bool

record cg_action =
  cq_action_id :: string
  cq_start :: string
  cq_final :: string
  cq_destination :: string
  cq_steps :: "cg_step list"
  cq_claimed_signatures :: bool
  cq_claimed_individual :: bool
  cq_claimed_composition :: bool
  cq_claimed_authorized :: bool

record cg_decision = gate_decision +
  cd_graph :: string
  cd_continuity :: string
  cd_effects :: string
  cd_destination :: string
  cd_artifacts :: string
  cd_composition :: string

definition okEff :: "string \<Rightarrow> bool" where
  "okEff e \<longleftrightarrow> e = ''READ'' \<or> e = ''TRANSFORM'' \<or> e = ''SEND''"

definition cg_edgeOK :: "cg_edge \<Rightarrow> bool" where
  "cg_edgeOK e \<longleftrightarrow> ce_edge_id e \<noteq> [] \<and> ce_from e \<noteq> [] \<and> ce_to e \<noteq> [] \<and> okEff (ce_effect e)
     \<and> (ce_effect e = ''SEND'' \<longleftrightarrow> ce_destination e \<noteq> [])"

definition cg_structuralOK :: "cg_root \<Rightarrow> bool" where
  "cg_structuralOK r \<longleftrightarrow>
     cg_schema_version r = 1 \<and> cm_mandate_id (cg_mandate r) \<noteq> [] \<and> uniq (cm_effects (cg_mandate r))
     \<and> uniq (cm_destinations (cg_mandate r)) \<and> uniq (cm_artifacts (cg_mandate r)) \<and> cg_skills r \<noteq> []
     \<and> list_all okEff (cm_effects (cg_mandate r))
     \<and> list_all (\<lambda>s. cs_skill_id s \<noteq> [] \<and> cs_edges s \<noteq> []) (cg_skills r) \<and> distinct (map cs_skill_id (cg_skills r))
     \<and> list_all cg_edgeOK (concat (map cs_edges (cg_skills r)))
     \<and> distinct (map ce_edge_id (concat (map cs_edges (cg_skills r))))"

text \<open>\<^verbatim>\<open>resolve\<close>: the edges found up to the first step that fails, whether its skill is missing and
  whether its edge is missing.\<close>

fun cg_resolve :: "cg_skill list \<Rightarrow> cg_step list \<Rightarrow> cg_edge list \<times> bool \<times> bool" where
  "cg_resolve skills [] = ([], False, False)"
| "cg_resolve skills (st # steps) =
     (case find (\<lambda>s. cs_skill_id s = cp_skill_id st) skills of
        None \<Rightarrow> ([], True, False)
      | Some s \<Rightarrow>
          (case find (\<lambda>e. ce_edge_id e = cp_edge_id st) (cs_edges s) of
             None \<Rightarrow> ([], False, True)
           | Some e \<Rightarrow> (case cg_resolve skills steps of (es, missSk, missEd) \<Rightarrow> (e # es, missSk, missEd))))"

text \<open>\<^verbatim>\<open>inspect\<close>: continuity, endpoints, effects and artifact classes of the resolved edges.\<close>

definition cg_inspect :: "string \<Rightarrow> string \<Rightarrow> string \<Rightarrow> string list \<Rightarrow> string list \<Rightarrow> cg_edge list \<Rightarrow> bool \<times> bool \<times> bool \<times> bool" where
  "cg_inspect start final dest allowedE allowedA edges =
     (if edges = [] then (False, False, False, False)
      else
        (ce_from (hd edges) = start \<and> list_all (\<lambda>(a, b). ce_to a = ce_from b) (zip edges (List.tl edges)),
         ce_to (last edges) = final \<and> ce_destination (last edges) = dest \<and> list_all (\<lambda>e. ce_destination e = []) (butlast edges),
         list_all (\<lambda>e. ce_effect e \<in> set allowedE) edges,
         ce_from (hd edges) \<in> set allowedA \<and> list_all (\<lambda>e. ce_to e \<in> set allowedA) edges))"

definition cg_pathStr :: "cg_step list \<Rightarrow> string" where
  "cg_pathStr steps = join_strings ''>'' (map (\<lambda>s. cp_skill_id s @ ''/'' @ cp_edge_id s) steps)"

definition cg_finish :: "cg_root \<Rightarrow> cg_action \<Rightarrow> label \<Rightarrow> label \<Rightarrow> label \<Rightarrow> label \<Rightarrow> label \<Rightarrow> label \<Rightarrow> label \<Rightarrow> label \<Rightarrow> label \<Rightarrow> cg_decision" where
  "cg_finish r a verdict proof reason graph cont eff dest art composed =
     \<lparr>gd_verdict = verdict, gd_proof = proof, gd_reason = reason,
      gd_evidence =
        [''Composition root mandate='' @ cm_mandate_id (cg_mandate r) @ '' skills='' @ itoa (int (length (cg_skills r)))
           @ '' edges='' @ itoa (int (length (concat (map cs_edges (cg_skills r))))),
         ''Requested flow '' @ cq_start a @ ''|'' @ cq_final a @ '' destination='' @ cq_destination a,
         ''Declared path '' @ cg_pathStr (cq_steps a),
         ''Claims signatures='' @ format_bool (cq_claimed_signatures a) @ '' individual_allow='' @ format_bool (cq_claimed_individual a)
           @ '' composition_valid='' @ format_bool (cq_claimed_composition a) @ '' authorized='' @ format_bool (cq_claimed_authorized a),
         ''Authority graph='' @ graph @ '' continuity='' @ cont @ '' effects='' @ eff @ '' destination='' @ dest
           @ '' artifacts='' @ art @ '' composition='' @ composed,
         ''Capability Composition Proof '' @ proof, ''reason '' @ reason,
         pick (verdict = ''ALLOW'') ''ACTION ALLOWED'' ''ACTION DENIED''],
      cd_graph = graph, cd_continuity = cont, cd_effects = eff, cd_destination = dest, cd_artifacts = art, cd_composition = composed\<rparr>"

definition cg_Authorize :: "cg_root \<times> cg_action \<Rightarrow> cg_decision" where
  "cg_Authorize x =
     (let r = fst x; a = snd x; m = cg_mandate r;
          invalid = (\<lambda>reason. cg_finish r a ''DENY'' ''INVALID'' reason ''INVALID'' ''INVALID'' ''INVALID'' ''INVALID'' ''INVALID'' ''INVALID'')
      in if \<not> cg_structuralOK r then invalid ''invalid evaluation root''
         else if cq_action_id a = [] then invalid ''action identifier absent''
         else if cq_start a = [] then invalid ''start artifact class absent''
         else if cq_final a = [] then invalid ''final artifact class absent''
         else if cq_destination a = [] then invalid ''destination absent''
         else if cq_steps a = [] then invalid ''capability path absent''
         else if \<not> cg_enabled r
         then cg_finish r a ''DENY'' ''DISABLED'' ''capability composition disabled'' ''DISABLED'' ''DISABLED'' ''DISABLED'' ''DISABLED'' ''DISABLED'' ''DISABLED''
         else case cg_resolve (cg_skills r) (cq_steps a) of (edges, missSk, missEd) \<Rightarrow>
           (let resolved = (\<not> missSk \<and> \<not> missEd \<and> length edges = length (cq_steps a));
                c13 = (cq_destination a \<in> set (cm_destinations m));
                dest = pick c13 ''PRESENT'' ''ABSENT''
            in case cg_inspect (cq_start a) (cq_final a) (cq_destination a) (cm_effects m) (cm_artifacts m) edges of (i9, i10, i11, i12) \<Rightarrow>
              (let c9 = (resolved \<and> i9); c10 = (resolved \<and> i10); c11 = (resolved \<and> i11); c12 = (resolved \<and> i12);
                   fin = (\<lambda>verdict proof reason composed.
                     cg_finish r a verdict proof reason (pick resolved ''PRESENT'' ''ABSENT'') (pick (c9 \<and> c10) ''VALID'' ''INVALID'')
                       (if resolved then pick c11 ''PRESENT'' ''ABSENT'' else ''INVALID'') dest
                       (if resolved then pick c12 ''PRESENT'' ''ABSENT'' else ''INVALID'') composed)
               in if resolved \<and> c9 \<and> c10 \<and> c11 \<and> c12 \<and> c13 then fin ''ALLOW'' ''VALID'' ''authorized'' ''VALID''
                  else if missSk then fin ''DENY'' ''INVALID'' ''referenced skill absent'' ''INVALID''
                  else if missEd then fin ''DENY'' ''INVALID'' ''declared capability edge absent'' ''INVALID''
                  else if \<not> c9 then fin ''DENY'' ''INVALID'' ''capability path not contiguous'' ''INVALID''
                  else if \<not> c10 then fin ''DENY'' ''INVALID'' ''capability path endpoint mismatch'' ''INVALID''
                  else if \<not> c11 then fin ''DENY'' ''INVALID'' ''composed effect outside mandate'' ''INVALID''
                  else if \<not> c12 then fin ''DENY'' ''INVALID'' ''composed artifact trajectory outside mandate'' ''INVALID''
                  else fin ''DENY'' ''INVALID'' ''composition destination outside mandate'' ''INVALID'')))"

definition cg_checks :: "cg_root \<times> cg_action \<Rightarrow> (bool \<times> string) list" where
  "cg_checks x =
     (let r = fst x; a = snd x; m = cg_mandate r in
      case cg_resolve (cg_skills r) (cq_steps a) of (edges, missSk, missEd) \<Rightarrow>
      (case cg_inspect (cq_start a) (cq_final a) (cq_destination a) (cm_effects m) (cm_artifacts m) edges of (c9, c10, c11, c12) \<Rightarrow>
        [(cg_structuralOK r, ''invalid evaluation root''), (cq_action_id a \<noteq> [], ''action identifier absent''),
         (cq_start a \<noteq> [], ''start artifact class absent''), (cq_final a \<noteq> [], ''final artifact class absent''),
         (cq_destination a \<noteq> [], ''destination absent''), (cq_steps a \<noteq> [], ''capability path absent''),
         (cg_enabled r, ''capability composition disabled''), (\<not> missSk, ''referenced skill absent''),
         (\<not> missEd, ''declared capability edge absent''), (c9, ''capability path not contiguous''),
         (c10, ''capability path endpoint mismatch''), (c11, ''composed effect outside mandate''),
         (c12, ''composed artifact trajectory outside mandate''),
         (cq_destination a \<in> set (cm_destinations m), ''composition destination outside mandate'')]))"

lemma cg_resolve_length:
  "cg_resolve skills steps = (edges, False, False) \<Longrightarrow> length edges = length steps"
  by (induction steps arbitrary: edges) (auto split: option.splits prod.splits)

lemma cg_decided:
  "(gd_verdict (cg_Authorize x), gd_reason (cg_Authorize x)) =
     (case first_failing (cg_checks x) of None \<Rightarrow> (''ALLOW'', ''authorized'') | Some r \<Rightarrow> (''DENY'', r))"
proof -
  let ?r = "fst x" and ?a = "snd x"
  obtain edges missSk missEd where e: "cg_resolve (cg_skills ?r) (cq_steps ?a) = (edges, missSk, missEd)" by (metis prod_cases3)
  obtain i9 i10 i11 i12 where i: "cg_inspect (cq_start ?a) (cq_final ?a) (cq_destination ?a) (cm_effects (cg_mandate ?r))
      (cm_artifacts (cg_mandate ?r)) edges = (i9, i10, i11, i12)" by (metis prod_cases4)
  have l: "\<not> missSk \<Longrightarrow> \<not> missEd \<Longrightarrow> length edges = length (cq_steps ?a)" using cg_resolve_length e by simp
  show ?thesis using e i l by (simp add: cg_Authorize_def cg_checks_def Let_def cg_finish_def)
qed

interpretation composition: proof_gate cg_Authorize cg_checks "\<lambda>_. ''authorized''"
  by unfold_locales (rule cg_decided)

text \<open>The specification: a path of installed edges.\<close>

inductive edge_path :: "string \<Rightarrow> cg_edge list \<Rightarrow> string \<Rightarrow> bool" where
  stop: "ce_from e = s \<Longrightarrow> ce_to e = t \<Longrightarrow> edge_path s [e] t"
| step: "ce_from e = s \<Longrightarrow> edge_path (ce_to e) es t \<Longrightarrow> edge_path s (e # es) t"

definition declared_edge :: "cg_skill list \<Rightarrow> cg_step \<Rightarrow> cg_edge \<Rightarrow> bool" where
  "declared_edge skills st e \<longleftrightarrow>
     (\<exists>s\<in>set skills. cs_skill_id s = cp_skill_id st \<and> e \<in> set (cs_edges s) \<and> ce_edge_id e = cp_edge_id st)"

lemma edge_path_iff:
  "edge_path s (e # es) t \<longleftrightarrow> ce_from e = s \<and> list_all (\<lambda>(a, b). ce_to a = ce_from b) (zip (e # es) es) \<and> ce_to (last (e # es)) = t"
proof (induction es arbitrary: e s)
  case Nil
  have "\<not> edge_path u [] v" for u v by (subst edge_path.simps) simp
  then show ?case by (subst edge_path.simps) auto
next
  case (Cons f fs)
  have 1: "edge_path s (e # f # fs) t \<longleftrightarrow> ce_from e = s \<and> edge_path (ce_to e) (f # fs) t"
    by (subst edge_path.simps) simp
  show ?case unfolding 1 Cons.IH [of "ce_to e" f] by (simp add: eq_commute [of "ce_from f" "ce_to e"])
qed

lemma find_unique:
  "distinct (map key xs) \<Longrightarrow> find (\<lambda>x. key x = k) xs = Some x \<longleftrightarrow> x \<in> set xs \<and> key x = k"
  by (induction xs) (auto simp: image_iff)

lemma cg_edges_distinct:
  assumes "cg_structuralOK r" and "s \<in> set (cg_skills r)"
  shows "distinct (map ce_edge_id (cs_edges s))"
proof -
  have d: "distinct (concat (map (map ce_edge_id \<circ> cs_edges) (cg_skills r)))"
    using assms(1) by (simp add: cg_structuralOK_def map_concat)
  then show ?thesis using assms(2) by (auto simp: distinct_concat_iff)
qed

lemma cg_resolve_iff:
  assumes "cg_structuralOK r"
  shows "cg_resolve (cg_skills r) steps = (edges, False, False) \<longleftrightarrow> list_all2 (declared_edge (cg_skills r)) steps edges"
proof (induction steps arbitrary: edges)
  case (Cons st steps)
  note IH = Cons.IH
  have ds: "distinct (map cs_skill_id (cg_skills r))" using assms by (simp add: cg_structuralOK_def)
  have hd_iff: "declared_edge (cg_skills r) st e \<longleftrightarrow>
      (\<exists>s. find (\<lambda>s. cs_skill_id s = cp_skill_id st) (cg_skills r) = Some s \<and> find (\<lambda>e. ce_edge_id e = cp_edge_id st) (cs_edges s) = Some e)" for e
    using find_unique [OF ds] find_unique [OF cg_edges_distinct [OF assms]] by (auto simp: declared_edge_def)
  show ?case
  proof (cases edges)
    case Nil
    then show ?thesis by (auto split: option.splits prod.splits)
  next
    case (Cons e es)
    have "cg_resolve (cg_skills r) (st # steps) = (e # es, False, False) \<longleftrightarrow>
        declared_edge (cg_skills r) st e \<and> cg_resolve (cg_skills r) steps = (es, False, False)"
      unfolding hd_iff by (auto split: option.splits prod.splits)
    then show ?thesis using IH Cons by simp
  qed
qed auto


text \<open>Capability composition allows an action exactly when its steps name installed edges that form one
  unbroken path from the start class to the final class, every composed effect and every artifact class
  on the way lies in the mandate, only the last edge sends, and it sends to the requested, mandated
  destination; the claims carried by the action play no part.
\<close>

theorem composition_allow_iff:
  "gd_verdict (cg_Authorize (r, a)) = ''ALLOW'' \<longleftrightarrow>
     cg_structuralOK r \<and> cq_action_id a \<noteq> [] \<and> cq_start a \<noteq> [] \<and> cq_final a \<noteq> [] \<and> cq_destination a \<noteq> [] \<and> cg_enabled r
     \<and> cq_destination a \<in> set (cm_destinations (cg_mandate r))
     \<and> (\<exists>edges. edges \<noteq> [] \<and> list_all2 (declared_edge (cg_skills r)) (cq_steps a) edges
          \<and> edge_path (cq_start a) edges (cq_final a)
          \<and> ce_destination (last edges) = cq_destination a \<and> list_all (\<lambda>e. ce_destination e = []) (butlast edges)
          \<and> list_all (\<lambda>e. ce_effect e \<in> set (cm_effects (cg_mandate r))) edges
          \<and> cq_start a \<in> set (cm_artifacts (cg_mandate r))
          \<and> list_all (\<lambda>e. ce_to e \<in> set (cm_artifacts (cg_mandate r))) edges)"
proof (cases "cg_structuralOK r")
  case True
  obtain es ms me where res: "cg_resolve (cg_skills r) (cq_steps a) = (es, ms, me)" by (metis prod_cases3)
  have edges: "es = edges \<and> \<not> ms \<and> \<not> me \<longleftrightarrow> list_all2 (declared_edge (cg_skills r)) (cq_steps a) edges" for edges
    using cg_resolve_iff [OF True, of "cq_steps a" edges] res by auto
  have len: "cq_steps a \<noteq> [] \<longleftrightarrow> es \<noteq> []" if "\<not> ms" "\<not> me"
    using edges [of es] that by (auto dest: list_all2_lengthD)
  have allow: "gd_verdict (cg_Authorize (r, a)) = ''ALLOW'' \<longleftrightarrow>
      cq_action_id a \<noteq> [] \<and> cq_start a \<noteq> [] \<and> cq_final a \<noteq> [] \<and> cq_destination a \<noteq> [] \<and> cg_enabled r
      \<and> cq_destination a \<in> set (cm_destinations (cg_mandate r)) \<and> \<not> ms \<and> \<not> me \<and> es \<noteq> [] \<and> edge_path (cq_start a) es (cq_final a)
      \<and> ce_destination (last es) = cq_destination a \<and> list_all (\<lambda>e. ce_destination e = []) (butlast es)
      \<and> list_all (\<lambda>e. ce_effect e \<in> set (cm_effects (cg_mandate r))) es
      \<and> cq_start a \<in> set (cm_artifacts (cg_mandate r)) \<and> list_all (\<lambda>e. ce_to e \<in> set (cm_artifacts (cg_mandate r))) es"
  proof (cases "es = [] \<or> ms \<or> me")
    case True
    then show ?thesis unfolding composition.allow_iff by (auto simp: cg_checks_def Let_def res cg_inspect_def)
  next
    case False
    then obtain e fs where es: "es = e # fs" by (cases es) auto
    show ?thesis using False len \<open>cg_structuralOK r\<close> unfolding composition.allow_iff es edge_path_iff
      by (auto simp: cg_checks_def Let_def res cg_inspect_def es)
  qed
  show ?thesis unfolding allow using True edges by (metis (no_types, lifting))
qed (simp add: composition.allow_iff cg_checks_def Let_def split: prod.split)

section \<open>Cross-tool correlation\<close>

record tc_ceiling =
  tl_capability :: string
  tl_max_units :: int

record tc_use =
  tu_use_id :: string
  tu_server :: string
  tu_tool :: string
  tu_capability :: string
  tu_units :: int

record tc_ref =
  tf_use_id :: string
  tf_server :: string
  tf_tool :: string

record tc_root =
  tc_schema_version :: int
  tc_ceilings :: "tc_ceiling list"
  tc_uses :: "tc_use list"
  tc_edges :: "(string \<times> string) list"
  tc_enabled :: bool

record tc_action =
  ta_action_id :: string
  ta_capability :: string
  ta_uses :: "tc_ref list"
  ta_claimed_per_tool :: bool
  ta_claimed_hop :: bool
  ta_claimed_authorized :: bool
  ta_claimed_quota :: int

record tc_decision = gate_decision +
  td_servers :: int
  td_tools :: int
  td_total :: int
  td_ceiling :: int
  td_graph :: string
  td_trajectory :: string
  td_capability_status :: string
  td_ceiling_status :: string
  td_usage :: string
  td_correlation :: string

definition tc_structuralOK :: "tc_root \<Rightarrow> bool" where
  "tc_structuralOK r \<longleftrightarrow>
     tc_schema_version r = 1 \<and> tc_ceilings r \<noteq> [] \<and> tc_uses r \<noteq> [] \<and> tc_edges r \<noteq> []
     \<and> list_all (\<lambda>c. tl_capability c \<noteq> [] \<and> tl_max_units c > 0) (tc_ceilings r) \<and> distinct (map tl_capability (tc_ceilings r))
     \<and> list_all (\<lambda>u. tu_use_id u \<noteq> [] \<and> tu_server u \<noteq> [] \<and> tu_tool u \<noteq> [] \<and> tu_capability u \<noteq> [] \<and> tu_units u > 0) (tc_uses r)
     \<and> distinct (map tu_use_id (tc_uses r))
     \<and> list_all (\<lambda>(f, t). f \<noteq> [] \<and> t \<noteq> [] \<and> f \<noteq> t \<and> f \<in> set (map tu_use_id (tc_uses r)) \<and> t \<in> set (map tu_use_id (tc_uses r))) (tc_edges r)
     \<and> distinct (tc_edges r)"

definition tc_find :: "tc_root \<Rightarrow> tc_ref \<Rightarrow> tc_use option" where
  "tc_find r f = find (\<lambda>u. tf_use_id f = tu_use_id u \<and> tf_server f = tu_server u \<and> tf_tool f = tu_tool u) (tc_uses r)"

text \<open>The loop over the referenced uses: the use resolved before, and the three flags so far. A
  reference that is not found clears all three and ends the loop.\<close>

fun tc_loop :: "tc_root \<Rightarrow> string \<Rightarrow> tc_use option \<Rightarrow> tc_ref list \<Rightarrow> tc_use list \<times> bool \<times> bool \<times> bool
    \<Rightarrow> tc_use list \<times> bool \<times> bool \<times> bool" where
  "tc_loop r cap prev [] st = st"
| "tc_loop r cap prev (f # fs) (res, c5, c6, c7) =
     (case tc_find r f of
        None \<Rightarrow> (res, False, False, False)
      | Some u \<Rightarrow>
          tc_loop r cap (Some u) fs
            (res @ [u], c5,
             c6 \<and> (case prev of None \<Rightarrow> True | Some p \<Rightarrow> (tu_use_id p, tu_use_id u) \<in> set (tc_edges r)),
             c7 \<and> tu_capability u = cap))"

text \<open>64-bit addition, and the loop that adds the units and stops before the sum would overflow.\<close>

definition max_int64 :: int where "max_int64 = 2 ^ 63 - 1"

definition add64 :: "int \<Rightarrow> int \<Rightarrow> int" where
  "add64 a b = (a + b + 2 ^ 63) mod 2 ^ 64 - 2 ^ 63"

fun tc_sum :: "tc_use list \<Rightarrow> int \<Rightarrow> tc_use list \<Rightarrow> int \<times> tc_use list \<times> bool" where
  "tc_sum seen s [] = (s, seen, False)"
| "tc_sum seen s (u # us) =
     (if tu_units u > 0 \<and> s > max_int64 - tu_units u then (s, seen @ [u], True)
      else tc_sum (seen @ [u]) (add64 s (tu_units u)) us)"

definition tc_pathStr :: "tc_ref list \<Rightarrow> string" where
  "tc_pathStr uses = join_strings ''>'' (map (\<lambda>u. tf_use_id u @ ''@'' @ tf_server u @ ''/'' @ tf_tool u) uses)"

definition tc_finish :: "tc_root \<Rightarrow> tc_action \<Rightarrow> label \<Rightarrow> label \<Rightarrow> label \<Rightarrow> int \<Rightarrow> int \<Rightarrow> int \<Rightarrow> int
    \<Rightarrow> label \<Rightarrow> label \<Rightarrow> label \<Rightarrow> label \<Rightarrow> label \<Rightarrow> label \<Rightarrow> tc_decision" where
  "tc_finish r a verdict proof reason servers tools units_sum ceil_units graph traj cap ceil usage corr =
     \<lparr>gd_verdict = verdict, gd_proof = proof, gd_reason = reason,
      gd_evidence =
        [''Correlation root ceilings='' @ itoa (int (length (tc_ceilings r))) @ '' uses='' @ itoa (int (length (tc_uses r)))
           @ '' edges='' @ itoa (int (length (tc_edges r))),
         ''Requested capability '' @ ta_capability a @ '' total_units='' @ itoa units_sum @ '' ceiling_units='' @ itoa ceil_units,
         ''Requested uses '' @ tc_pathStr (ta_uses a),
         ''Claims per_tool_allow='' @ format_bool (ta_claimed_per_tool a) @ '' server_hop_innocent='' @ format_bool (ta_claimed_hop a)
           @ '' remaining_quota='' @ itoa (ta_claimed_quota a) @ '' authorized='' @ format_bool (ta_claimed_authorized a),
         ''Authority graph='' @ graph @ '' trajectory='' @ traj @ '' capability='' @ cap @ '' ceiling='' @ ceil @ '' usage='' @ usage
           @ '' correlation='' @ corr,
         ''Cross-Tool Correlation Proof '' @ proof, ''reason '' @ reason,
         pick (verdict = ''ALLOW'') ''ACTION ALLOWED'' ''ACTION DENIED''],
      td_servers = servers, td_tools = tools, td_total = units_sum, td_ceiling = ceil_units, td_graph = graph, td_trajectory = traj,
      td_capability_status = cap, td_ceiling_status = ceil, td_usage = usage, td_correlation = corr\<rparr>"

definition tc_ceiling_of :: "tc_root \<Rightarrow> string \<Rightarrow> int option" where
  "tc_ceiling_of r cap = map_option tl_max_units (find (\<lambda>c. tl_capability c = cap) (tc_ceilings r))"

definition tc_Authorize :: "tc_root \<times> tc_action \<Rightarrow> tc_decision" where
  "tc_Authorize x =
     (let r = fst x; a = snd x;
          invalid = (\<lambda>reason. tc_finish r a ''DENY'' ''INVALID'' reason 0 0 0 0 ''INVALID'' ''INVALID'' ''INVALID'' ''INVALID'' ''INVALID'' ''INVALID'')
      in if \<not> tc_structuralOK r then invalid ''invalid evaluation root''
         else if ta_action_id a = [] then invalid ''action identifier absent''
         else if ta_capability a = [] then invalid ''capability identifier absent''
         else if ta_uses a = [] then invalid ''resource-use trajectory absent''
         else if \<not> tc_enabled r
         then tc_finish r a ''DENY'' ''DISABLED'' ''tool correlation disabled'' 0 0 0 0 ''DISABLED'' ''DISABLED'' ''DISABLED'' ''DISABLED'' ''DISABLED'' ''DISABLED''
         else case tc_loop r (ta_capability a) None (ta_uses a) ([], True, True, True) of (resolved, c5, c6, c7) \<Rightarrow>
           (let ceil = tc_ceiling_of r (ta_capability a);
                c8 = (ceil \<noteq> None); units = (case ceil of None \<Rightarrow> 0 | Some m \<Rightarrow> m)
            in case (if c5 then tc_sum [] 0 resolved else (0, [], False)) of (units_sum, seen, over) \<Rightarrow>
              (let c9 = (\<not> over \<and> units_sum \<le> units);
                   fin = (\<lambda>verdict proof reason corr.
                     tc_finish r a verdict proof reason
                       (int (length (remdups (map tu_server seen)))) (int (length (remdups (map (\<lambda>u. (tu_server u, tu_tool u)) seen)))) units_sum units
                       (pick (c5 \<and> c6) ''PRESENT'' ''ABSENT'') (pick (c5 \<and> c6) ''VALID'' ''INVALID'')
                       (if c5 then pick c7 ''PRESENT'' ''ABSENT'' else ''INVALID'')
                       (if c5 \<and> c6 \<and> c7 then pick c8 ''PRESENT'' ''ABSENT'' else ''INVALID'')
                       (if c5 \<and> c6 \<and> c7 \<and> c8 then pick c9 ''WITHIN'' ''EXCEEDED'' else ''INVALID'') corr)
               in if c5 \<and> c6 \<and> c7 \<and> c8 \<and> c9 then fin ''ALLOW'' ''VALID'' ''authorized'' ''VALID''
                  else if \<not> c5 then fin ''DENY'' ''INVALID'' ''referenced resource use absent'' ''INVALID''
                  else if \<not> c6 then fin ''DENY'' ''INVALID'' ''correlation edge absent'' ''INVALID''
                  else if \<not> c7 then fin ''DENY'' ''INVALID'' ''trajectory capability mismatch'' ''INVALID''
                  else if \<not> c8 then fin ''DENY'' ''INVALID'' ''capability ceiling absent'' ''INVALID''
                  else fin ''DENY'' ''INVALID'' ''correlated capability ceiling exceeded'' ''INVALID'')))"

definition tc_checks :: "tc_root \<times> tc_action \<Rightarrow> (bool \<times> string) list" where
  "tc_checks x =
     (let r = fst x; a = snd x in
      case tc_loop r (ta_capability a) None (ta_uses a) ([], True, True, True) of (resolved, c5, c6, c7) \<Rightarrow>
        (case tc_sum [] 0 resolved of (units_sum, seen, over) \<Rightarrow>
          [(tc_structuralOK r, ''invalid evaluation root''), (ta_action_id a \<noteq> [], ''action identifier absent''),
           (ta_capability a \<noteq> [], ''capability identifier absent''), (ta_uses a \<noteq> [], ''resource-use trajectory absent''),
           (tc_enabled r, ''tool correlation disabled''), (c5, ''referenced resource use absent''),
           (c6, ''correlation edge absent''), (c7, ''trajectory capability mismatch''),
           (tc_ceiling_of r (ta_capability a) \<noteq> None, ''capability ceiling absent''),
           (\<not> over \<and> units_sum \<le> the (tc_ceiling_of r (ta_capability a)), ''correlated capability ceiling exceeded'')]))"

lemma tc_decided:
  "(gd_verdict (tc_Authorize x), gd_reason (tc_Authorize x)) =
     (case first_failing (tc_checks x) of None \<Rightarrow> (''ALLOW'', ''authorized'') | Some r \<Rightarrow> (''DENY'', r))"
proof -
  obtain resolved c5 c6 c7 where l: "tc_loop (fst x) (ta_capability (snd x)) None (ta_uses (snd x)) ([], True, True, True) = (resolved, c5, c6, c7)"
    by (metis prod_cases4)
  obtain units_sum seen over where s: "tc_sum [] 0 resolved = (units_sum, seen, over)" by (metis prod_cases3)
  show ?thesis
    by (cases "tc_ceiling_of (fst x) (ta_capability (snd x))"; cases c5)
       (simp_all add: tc_Authorize_def tc_checks_def Let_def tc_finish_def l s)
qed

interpretation correlation: proof_gate tc_Authorize tc_checks "\<lambda>_. ''authorized''"
  by unfold_locales (rule tc_decided)

lemma add64_exact: "0 \<le> s \<Longrightarrow> s \<le> max_int64 - u \<Longrightarrow> 0 < u \<Longrightarrow> add64 s u = s + u"
  by (simp add: add64_def max_int64_def)

lemma tc_sum_exact:
  assumes "tc_sum seen s us = (x, sn, over)" and "list_all (\<lambda>u. tu_units u > 0) us" and "0 \<le> s" and "s \<le> max_int64"
  shows "(\<not> over \<longleftrightarrow> s + sum_list (map tu_units us) \<le> max_int64) \<and> (\<not> over \<longrightarrow> x = s + sum_list (map tu_units us))"
  using assms
proof (induction us arbitrary: seen s)
  case (Cons u us)
  have u: "tu_units u > 0" and us: "list_all (\<lambda>u. tu_units u > 0) us" using Cons.prems(2) by simp_all
  have nn: "0 \<le> sum_list (map tu_units us)" using us by (intro sum_list_nonneg) (auto simp: list_all_iff)
  show ?case
  proof (cases "s > max_int64 - tu_units u")
    case True
    then show ?thesis using u nn Cons.prems(1) by auto
  next
    case False
    then have a: "add64 s (tu_units u) = s + tu_units u" using add64_exact Cons.prems(3) u by simp
    have b: "0 \<le> s + tu_units u" "s + tu_units u \<le> max_int64" using False u Cons.prems(3) by simp_all
    have "tc_sum (seen @ [u]) (s + tu_units u) us = (x, sn, over)" using Cons.prems(1) False a by simp
    from Cons.IH [OF this us b] show ?thesis by (simp add: add.assoc)
  qed
qed auto

definition adjacent_edges :: "(string \<times> string) list \<Rightarrow> tc_use list \<Rightarrow> bool" where
  "adjacent_edges es us \<longleftrightarrow> list_all (\<lambda>(p, u). (tu_use_id p, tu_use_id u) \<in> set es) (zip us (List.tl us))"

lemma tc_loop_spec:
  "tc_loop r cap prev fs (res, c5, c6, c7) = (us, True, True, True) \<longleftrightarrow>
     c5 \<and> c6 \<and> c7 \<and> (\<exists>vs. us = res @ vs \<and> map (tc_find r) fs = map Some vs
        \<and> adjacent_edges (tc_edges r) ((case prev of None \<Rightarrow> [] | Some p \<Rightarrow> [p]) @ vs)
        \<and> list_all (\<lambda>u. tu_capability u = cap) vs)"
proof (induction fs arbitrary: prev res c5 c6 c7)
  case Nil
  then show ?case by (cases prev) (auto simp: adjacent_edges_def)
next
  case (Cons f fs)
  show ?case
  proof (cases "tc_find r f")
    case None then show ?thesis by (auto simp: Cons_eq_map_conv)
  next
    case (Some u)
    have step: "adjacent_edges (tc_edges r) ((case prev of None \<Rightarrow> [] | Some p \<Rightarrow> [p]) @ u # vs) \<longleftrightarrow>
        (case prev of None \<Rightarrow> True | Some p \<Rightarrow> (tu_use_id p, tu_use_id u) \<in> set (tc_edges r)) \<and> adjacent_edges (tc_edges r) (u # vs)" for vs
      by (cases prev) (simp_all add: adjacent_edges_def)
    show ?thesis using Some by (auto simp: Cons.IH Cons_eq_map_conv step)
  qed
qed

lemma tc_found_units:
  assumes "tc_structuralOK r" and "map (tc_find r) fs = map Some us"
  shows "list_all (\<lambda>u. tu_units u > 0) us"
proof -
  have "u \<in> set (tc_uses r)" if "u \<in> set us" for u
  proof -
    have "Some u \<in> set (map (tc_find r) fs)" using that assms(2) by simp
    then show ?thesis by (auto simp: tc_find_def find_Some_iff dest!: sym [of "Some u"])
  qed
  then show ?thesis using assms(1) by (auto simp: tc_structuralOK_def list_all_iff)
qed

text \<open>C32: Cross-tool correlation allows an action exactly when every referenced use is installed under the
  server and tool named, each consecutive pair is a correlation edge, all of them use the capability asked
  for, and the exact sum of their units, over all the servers and tools together, is within the installed
  ceiling; the sum is the mathematical one, so no 64-bit wrap-around can slip an action under it.
\<close>

theorem correlation_allow_iff:
  "gd_verdict (tc_Authorize (r, a)) = ''ALLOW'' \<longleftrightarrow>
     tc_structuralOK r \<and> ta_action_id a \<noteq> [] \<and> ta_capability a \<noteq> [] \<and> ta_uses a \<noteq> [] \<and> tc_enabled r
     \<and> (\<exists>us ceil. map (tc_find r) (ta_uses a) = map Some us \<and> adjacent_edges (tc_edges r) us
          \<and> list_all (\<lambda>u. tu_capability u = ta_capability a) us \<and> tc_ceiling_of r (ta_capability a) = Some ceil
          \<and> sum_list (map tu_units us) \<le> min ceil max_int64)"
proof (cases "tc_structuralOK r")
  case True
  obtain us c5 c6 c7 where l: "tc_loop r (ta_capability a) None (ta_uses a) ([], True, True, True) = (us, c5, c6, c7)"
    by (metis prod_cases4)
  have spec: "us = vs \<and> c5 \<and> c6 \<and> c7 \<longleftrightarrow> map (tc_find r) (ta_uses a) = map Some vs \<and> adjacent_edges (tc_edges r) vs
      \<and> list_all (\<lambda>u. tu_capability u = ta_capability a) vs" for vs
    using tc_loop_spec [of r "ta_capability a" None "ta_uses a" "[]" True True True vs] l by simp
  obtain s seen over where s: "tc_sum [] 0 us = (s, seen, over)" by (metis prod_cases3)
  have allow: "gd_verdict (tc_Authorize (r, a)) = ''ALLOW'' \<longleftrightarrow>
      ta_action_id a \<noteq> [] \<and> ta_capability a \<noteq> [] \<and> ta_uses a \<noteq> [] \<and> tc_enabled r \<and> c5 \<and> c6 \<and> c7
      \<and> (\<exists>ceil. tc_ceiling_of r (ta_capability a) = Some ceil \<and> \<not> over \<and> s \<le> ceil)"
    using True unfolding correlation.allow_iff by (auto simp: tc_checks_def Let_def l s)
  have sum: "(\<not> over \<and> s \<le> ceil) = (sum_list (map tu_units us) \<le> min ceil max_int64)" if "c5" "c6" "c7" for ceil
    using tc_sum_exact [OF s tc_found_units [OF True, of "ta_uses a"]] spec [of us] that by (auto simp: max_int64_def)
  show ?thesis unfolding allow using True spec sum by (metis (no_types, lifting))
qed (simp add: correlation.allow_iff tc_checks_def Let_def split: prod.split)

section \<open>Authorization-state fidelity\<close>

record af_event =
  ae_event_id :: string
  ae_kind :: string
  ae_principal :: string
  ae_subject :: string
  ae_permission :: string
  ae_grant_event :: string
  ae_tick :: int

record af_grant_principal =
  ag_principal :: string
  ag_grantable :: "string list"

record af_root =
  af_schema_version :: int
  af_log :: "af_event list"
  af_principals :: "af_grant_principal list"
  af_tick :: int
  af_enabled :: bool

record af_action =
  aq_action_id :: string
  aq_subject :: string
  aq_permission :: string
  aq_cited :: string
  aq_claimed_memory :: bool
  aq_claimed_principal :: string
  aq_claimed_grant :: bool
  aq_claimed_proof :: bool
  aq_claimed_state :: bool
  aq_claimed_authorized :: bool

record af_binding =
  ab_subject :: string
  ab_permission :: string
  ab_source :: string
  ab_principal :: string
  ab_tick :: int

record af_decision = gate_decision +
  ad_source_principal :: string
  ad_source_status :: string
  ad_principal_authority :: string
  ad_exact_state :: string

definition canGrant :: "af_root \<Rightarrow> string \<Rightarrow> string \<Rightarrow> bool" where
  "canGrant r p perm = list_ex (\<lambda>g. ag_principal g = p \<and> perm \<in> set (ag_grantable g)) (af_principals r)"

definition af_eventOK :: "af_event \<Rightarrow> bool" where
  "af_eventOK e \<longleftrightarrow>
     ae_event_id e \<noteq> [] \<and> ae_principal e \<noteq> [] \<and> ae_subject e \<noteq> [] \<and> ae_permission e \<noteq> [] \<and> ae_tick e \<ge> 0
     \<and> ((ae_kind e = ''GRANT'' \<and> ae_grant_event e = []) \<or> (ae_kind e = ''REVOKE'' \<and> ae_grant_event e \<noteq> []))"

definition af_structuralOK :: "af_root \<Rightarrow> bool" where
  "af_structuralOK r \<longleftrightarrow>
     af_schema_version r = 1 \<and> af_tick r \<ge> 0 \<and> af_log r \<noteq> [] \<and> af_principals r \<noteq> []
     \<and> list_all af_eventOK (af_log r) \<and> sorted (map ae_tick (af_log r)) \<and> distinct (map ae_event_id (af_log r))
     \<and> list_all (\<lambda>g. ag_principal g \<noteq> [] \<and> unique_filled (ag_grantable g)) (af_principals r)
     \<and> distinct (map ag_principal (af_principals r))"

definition af_binding_of :: "af_event \<Rightarrow> af_binding" where
  "af_binding_of e = \<lparr>ab_subject = ae_subject e, ab_permission = ae_permission e, ab_source = ae_event_id e,
     ab_principal = ae_principal e, ab_tick = ae_tick e\<rparr>"

text \<open>\<^verbatim>\<open>reduce\<close>: the body of its loop on the map of active bindings, the loop, and the sorted result.\<close>

definition af_step :: "af_root \<Rightarrow> af_event \<Rightarrow> (string \<times> af_binding) list \<Rightarrow> (string \<times> af_binding) list" where
  "af_step r e active =
     (if ae_tick e > af_tick r then active
      else if ae_kind e = ''GRANT''
      then (if canGrant r (ae_principal e) (ae_permission e) then AList.update (ae_event_id e) (af_binding_of e) active else active)
      else case map_of active (ae_grant_event e) of
             None \<Rightarrow> active
           | Some g \<Rightarrow> (if ab_principal g = ae_principal e \<and> ab_subject g = ae_subject e \<and> ab_permission g = ae_permission e
                         \<and> canGrant r (ae_principal e) (ae_permission e)
                       then AList.delete (ae_grant_event e) active else active))"

definition af_sort_key :: "af_binding \<Rightarrow> string" where
  "af_sort_key b = ab_subject b @ [CHR 0x00] @ ab_permission b @ [CHR 0x00] @ ab_source b @ [CHR 0x00] @ ab_principal b"

definition af_reduce :: "af_root \<Rightarrow> af_binding list" where
  "af_reduce r = sort_key af_sort_key (map snd (fold (af_step r) (af_log r) []))"

definition RecomputeAuthorizationState :: "af_root \<Rightarrow> string + af_binding list" where
  "RecomputeAuthorizationState r =
     (if \<not> af_structuralOK r then Inl ''invalid evaluation root''
      else if \<not> af_enabled r then Inl ''authorization state disabled''
      else Inr (af_reduce r))"

definition af_no_event :: af_event where
  "af_no_event = \<lparr>ae_event_id = [], ae_kind = [], ae_principal = [], ae_subject = [], ae_permission = [], ae_grant_event = [], ae_tick = 0\<rparr>"

definition af_cited :: "af_root \<Rightarrow> af_action \<Rightarrow> af_event option" where
  "af_cited r a = find (\<lambda>e. ae_event_id e = aq_cited a) (af_log r)"

definition af_finish :: "af_root \<Rightarrow> af_action \<Rightarrow> label \<Rightarrow> label \<Rightarrow> label \<Rightarrow> label \<Rightarrow> label \<Rightarrow> label \<Rightarrow> af_decision" where
  "af_finish r a verdict proof reason source prin state =
     (let sp = (case af_cited r a of None \<Rightarrow> [] | Some e \<Rightarrow> ae_principal e)
      in \<lparr>gd_verdict = verdict, gd_proof = proof, gd_reason = reason,
          gd_evidence =
            [''Authorization root tick='' @ itoa (af_tick r) @ '' events='' @ itoa (int (length (af_log r))),
             ''Requested pair '' @ aq_subject a @ ''|'' @ aq_permission a,
             ''Memory claim permission='' @ pick (aq_claimed_memory a) ''PRESENT'' ''ABSENT'' @ '' grant='' @ aq_cited a,
             ''Source event '' @ aq_cited a @ '' principal='' @ sp @ '' status='' @ source,
             ''Authority principal='' @ prin @ '' exact_state='' @ state,
             ''Authorization-State Fidelity Proof '' @ proof, ''reason '' @ reason,
             pick (verdict = ''ALLOW'') ''ACTION ALLOWED'' ''ACTION DENIED''],
          ad_source_principal = sp, ad_source_status = source, ad_principal_authority = prin, ad_exact_state = state\<rparr>)"

definition af_on :: "af_root \<Rightarrow> af_action \<Rightarrow> bool" where
  "af_on r a = list_ex (\<lambda>b. ab_source b = aq_cited a \<and> ab_subject b = aq_subject a \<and> ab_permission b = aq_permission a) (af_reduce r)"

text \<open>The table of steps that the default branch walks through, with the event that was found or the
  zero event.\<close>

definition af_steps :: "af_root \<Rightarrow> af_action \<Rightarrow> (bool \<times> string) list" where
  "af_steps r a =
     (let found = (af_cited r a \<noteq> None); ev = (case af_cited r a of None \<Rightarrow> af_no_event | Some e \<Rightarrow> e)
      in [(found, ''cited source event absent''), (ae_kind ev = ''GRANT'', ''cited source event is not a grant''),
          (ae_tick ev \<le> af_tick r, ''cited grant not yet effective''),
          (found \<and> ae_subject ev = aq_subject a \<and> ae_permission ev = aq_permission a, ''cited grant does not match requested pair''),
          (found \<and> ae_kind ev = ''GRANT'' \<and> canGrant r (ae_principal ev) (ae_permission ev), ''grant principal not authorized''),
          (af_on r a, ''cited grant revoked'')])"

definition af_Authorize :: "af_root \<times> af_action \<Rightarrow> af_decision" where
  "af_Authorize x =
     (let r = fst x; a = snd x;
          invalid = (\<lambda>reason. af_finish r a ''DENY'' ''INVALID'' reason ''INVALID'' ''INVALID'' ''INVALID'')
      in if \<not> af_structuralOK r then invalid ''invalid evaluation root''
         else if aq_action_id a = [] then invalid ''action identifier absent''
         else if aq_subject a = [] then invalid ''subject identifier absent''
         else if aq_permission a = [] then invalid ''permission absent''
         else if aq_cited a = [] then invalid ''source grant citation absent''
         else if \<not> af_enabled r
         then af_finish r a ''DENY'' ''DISABLED'' ''authorization state disabled'' ''DISABLED'' ''DISABLED'' ''DISABLED''
         else
           let found = (af_cited r a \<noteq> None); ev = (case af_cited r a of None \<Rightarrow> af_no_event | Some e \<Rightarrow> e);
               okP = (found \<and> ae_kind ev = ''GRANT'' \<and> canGrant r (ae_principal ev) (ae_permission ev));
               on = af_on r a;
               prin = (if okP then ''PRESENT'' else if found \<and> ae_kind ev = ''GRANT'' then ''ABSENT'' else ''INVALID'');
               pair = (found \<and> ae_subject ev = aq_subject a \<and> ae_permission ev = aq_permission a);
               source = (if \<not> found then ''ABSENT''
                         else if ae_kind ev \<noteq> ''GRANT'' \<or> \<not> pair \<or> \<not> okP then ''INVALID''
                         else if ae_tick ev > af_tick r then ''NOT_YET_EFFECTIVE''
                         else if \<not> on then ''REVOKED'' else ''VALID'');
               state = pick on ''AUTHORIZED'' ''UNAUTHORIZED''
           in case first_failing (af_steps r a) of
                None \<Rightarrow> af_finish r a ''ALLOW'' ''VALID'' ''authorized'' source prin state
              | Some reason \<Rightarrow> af_finish r a ''DENY'' ''INVALID'' reason source prin state)"

definition af_checks :: "af_root \<times> af_action \<Rightarrow> (bool \<times> string) list" where
  "af_checks x =
     [(af_structuralOK (fst x), ''invalid evaluation root''), (aq_action_id (snd x) \<noteq> [], ''action identifier absent''),
      (aq_subject (snd x) \<noteq> [], ''subject identifier absent''), (aq_permission (snd x) \<noteq> [], ''permission absent''),
      (aq_cited (snd x) \<noteq> [], ''source grant citation absent''), (af_enabled (fst x), ''authorization state disabled'')]
     @ af_steps (fst x) (snd x)"

lemma af_decided:
  "(gd_verdict (af_Authorize x), gd_reason (af_Authorize x)) =
     (case first_failing (af_checks x) of None \<Rightarrow> (''ALLOW'', ''authorized'') | Some r \<Rightarrow> (''DENY'', r))"
  by (cases "first_failing (af_steps (fst x) (snd x))") (simp_all add: af_Authorize_def af_checks_def Let_def af_finish_def first_failing_append)

interpretation fidelity: proof_gate af_Authorize af_checks "\<lambda>_. ''authorized''"
  by unfold_locales (rule af_decided)

text \<open>The specification: which events bind, which later ones undo a binding, and what holds in a log.\<close>

definition effective_grant :: "af_root \<Rightarrow> af_event \<Rightarrow> bool" where
  "effective_grant r e \<longleftrightarrow> ae_kind e = ''GRANT'' \<and> ae_tick e \<le> af_tick r \<and> canGrant r (ae_principal e) (ae_permission e)"

definition revokes :: "af_root \<Rightarrow> af_binding \<Rightarrow> af_event \<Rightarrow> bool" where
  "revokes r b e \<longleftrightarrow> ae_kind e \<noteq> ''GRANT'' \<and> ae_tick e \<le> af_tick r \<and> ae_grant_event e = ab_source b \<and> ae_principal e = ab_principal b
     \<and> ae_subject e = ab_subject b \<and> ae_permission e = ab_permission b \<and> canGrant r (ae_principal e) (ae_permission e)"

definition bound_in :: "af_root \<Rightarrow> af_event list \<Rightarrow> af_binding \<Rightarrow> bool" where
  "bound_in r evs b \<longleftrightarrow>
     (\<exists>pre e post. evs = pre @ e # post \<and> b = af_binding_of e \<and> effective_grant r e \<and> list_all (\<lambda>v. \<not> revokes r b v) post)"

lemma bound_in_snoc:
  "bound_in r (evs @ [x]) b \<longleftrightarrow> (b = af_binding_of x \<and> effective_grant r x) \<or> (bound_in r evs b \<and> \<not> revokes r b x)"
  (is "?L \<longleftrightarrow> ?R")
proof
  assume ?L
  then obtain pre e post where *: "evs @ [x] = pre @ e # post" "b = af_binding_of e" "effective_grant r e" "list_all (\<lambda>v. \<not> revokes r b v) post"
    unfolding bound_in_def by blast
  show ?R
  proof (cases post rule: rev_cases)
    case Nil then show ?thesis using * by simp
  next
    case (snoc q y)
    then have "evs = pre @ e # q" "x = y" using *(1) by (simp_all add: append_Cons [symmetric] append_assoc [symmetric] del: append_Cons append_assoc)
    then show ?thesis using * snoc unfolding bound_in_def by auto
  qed
next
  assume ?R
  then show ?L
  proof (elim disjE conjE)
    assume "b = af_binding_of x" "effective_grant r x"
    then show ?L unfolding bound_in_def by (intro exI [of _ evs] exI [of _ x] exI [of _ "[]"]) simp
  next
    assume "bound_in r evs b" "\<not> revokes r b x"
    then obtain pre e post where "evs = pre @ e # post" "b = af_binding_of e" "effective_grant r e" "list_all (\<lambda>v. \<not> revokes r b v) post"
      unfolding bound_in_def by blast
    with \<open>\<not> revokes r b x\<close> show ?L unfolding bound_in_def by (intro exI [of _ pre] exI [of _ e] exI [of _ "post @ [x]"]) simp
  qed
qed

lemma bound_in_source: "bound_in r evs b \<Longrightarrow> ab_source b \<in> set (map ae_event_id evs)"
  by (auto simp: bound_in_def af_binding_of_def)

lemma af_fold_bound:
  assumes "distinct (map ae_event_id evs)"
  shows "distinct (map fst (fold (af_step r) evs [])) \<and>
     (\<forall>k b. map_of (fold (af_step r) evs []) k = Some b \<longleftrightarrow> ab_source b = k \<and> bound_in r evs b)"
  using assms
proof (induction evs rule: rev_induct)
  case Nil
  show ?case by (simp add: bound_in_def)
next
  case (snoc x evs)
  define act where "act = fold (af_step r) evs []"
  have d: "distinct (map fst act)" and m: "map_of act k = Some b \<longleftrightarrow> ab_source b = k \<and> bound_in r evs b" for k b
    using snoc unfolding act_def by auto
  have new: "ab_source b \<noteq> ae_event_id x" if "bound_in r evs b" for b
    using bound_in_source [OF that] snoc.prems by auto
  have dist: "distinct (map fst (af_step r x act))"
    using d by (auto simp: af_step_def distinct_update distinct_delete split: option.split)
  have "map_of (af_step r x act) k = Some b \<longleftrightarrow> ab_source b = k \<and> bound_in r (evs @ [x]) b" for k b
  proof (cases "ae_kind x = ''GRANT''")
    case True
    then have "\<not> revokes r b x" by (simp add: revokes_def)
    moreover have "ab_source (af_binding_of x) = ae_event_id x" by (simp add: af_binding_of_def)
    ultimately show ?thesis using True new m [of k b]
      by (auto simp: af_step_def bound_in_snoc effective_grant_def update_conv')
  next
    case False
    then have ng: "\<not> effective_grant r x" by (simp add: effective_grant_def)
    show ?thesis
    proof (cases "map_of act (ae_grant_event x)")
      case None
      then have "\<not> (ab_source b = ae_grant_event x \<and> bound_in r evs b)" using m by (metis option.distinct(1))
      then show ?thesis using None False ng m [of k b] by (auto simp: af_step_def bound_in_snoc revokes_def)
    next
      case (Some g)
      then have g: "ab_source g = ae_grant_event x" "bound_in r evs g" using m by auto
      have e: "map_of (af_step r x act) k = (if revokes r g x \<and> k = ae_grant_event x then None else map_of act k)"
        using Some False g(1) by (auto simp: af_step_def revokes_def delete_conv')
      have "ab_source b = k \<Longrightarrow> revokes r b x \<Longrightarrow> k = ae_grant_event x" by (simp add: revokes_def)
      then show ?thesis using ng m [of k b] g Some unfolding bound_in_snoc e
        by (cases "k = ae_grant_event x") auto
    qed
  qed
  then show ?case using dist by (simp add: act_def)
qed

lemma af_reduce_bound:
  assumes "af_structuralOK r"
  shows "b \<in> set (af_reduce r) \<longleftrightarrow> bound_in r (af_log r) b"
proof -
  define act where "act = fold (af_step r) (af_log r) []"
  have d: "distinct (map fst act)" and m: "map_of act k = Some b \<longleftrightarrow> ab_source b = k \<and> bound_in r (af_log r) b" for k b
    using af_fold_bound [of "af_log r" r] assms by (auto simp: act_def af_structuralOK_def)
  have "b \<in> set (af_reduce r) \<longleftrightarrow> (\<exists>k. map_of act k = Some b)"
    using d by (auto simp: af_reduce_def act_def [symmetric] image_iff) (metis map_of_SomeD snd_conv)+
  then show ?thesis by (simp add: m)
qed


lemma af_binding_of_sel:
  "ab_source (af_binding_of e) = ae_event_id e" "ab_subject (af_binding_of e) = ae_subject e"
  "ab_permission (af_binding_of e) = ae_permission e"
  by (simp_all add: af_binding_of_def)

text \<open>Authorization-state fidelity allows an action exactly when the log holds the cited grant for
  the requested subject and permission, already effective and issued by a principal that may grant the
  permission, and no later effective event of the log revokes it; what the action claims to remember
  plays no part.
\<close>

theorem fidelity_allow_iff:
  "gd_verdict (af_Authorize (r, a)) = ''ALLOW'' \<longleftrightarrow>
     af_structuralOK r \<and> af_enabled r \<and> aq_action_id a \<noteq> []
     \<and> (\<exists>pre e post. af_log r = pre @ e # post \<and> ae_event_id e = aq_cited a \<and> ae_subject e = aq_subject a
          \<and> ae_permission e = aq_permission a \<and> effective_grant r e
          \<and> list_all (\<lambda>v. \<not> revokes r (af_binding_of e) v) post)"
proof (cases "af_structuralOK r")
  case True
  have on: "af_on r a \<longleftrightarrow> (\<exists>b. bound_in r (af_log r) b \<and> ab_source b = aq_cited a \<and> ab_subject b = aq_subject a \<and> ab_permission b = aq_permission a)"
    by (auto simp: af_on_def list_ex_iff af_reduce_bound [OF True])
  have d: "distinct (map ae_event_id (af_log r))" and ok: "\<And>e. e \<in> set (af_log r) \<Longrightarrow> af_eventOK e"
    using True by (auto simp: af_structuralOK_def list_all_iff)
  have cited: "af_cited r a = Some e \<longleftrightarrow> e \<in> set (af_log r) \<and> ae_event_id e = aq_cited a" for e
    unfolding af_cited_def by (rule find_unique [OF d])
  have ev: "af_on r a \<longleftrightarrow> (\<exists>pre e post. af_log r = pre @ e # post \<and> ae_event_id e = aq_cited a \<and> ae_subject e = aq_subject a
          \<and> ae_permission e = aq_permission a \<and> effective_grant r e \<and> list_all (\<lambda>v. \<not> revokes r (af_binding_of e) v) post)"
    unfolding on bound_in_def af_binding_of_sel [symmetric] by blast
  have grant: "\<exists>e. af_cited r a = Some e \<and> effective_grant r e \<and> ae_subject e = aq_subject a \<and> ae_permission e = aq_permission a \<and> af_eventOK e"
    if "af_on r a"
    using that ok unfolding ev cited by (metis in_set_conv_decomp)
  have "list_all fst (af_checks (r, a)) \<longleftrightarrow> af_enabled r \<and> aq_action_id a \<noteq> [] \<and> af_on r a"
  proof (cases "af_on r a")
    case on: True
    obtain e where e: "af_cited r a = Some e" "effective_grant r e" "ae_subject e = aq_subject a" "ae_permission e = aq_permission a" "af_eventOK e"
      using grant [OF on] by blast
    have "aq_cited a \<noteq> []" "aq_subject a \<noteq> []" "aq_permission a \<noteq> []"
      using e cited [of e] by (auto simp: af_eventOK_def)
    then show ?thesis using True on e by (auto simp: af_checks_def af_steps_def effective_grant_def)
  qed (simp add: af_checks_def af_steps_def Let_def)
  then show ?thesis using True by (simp add: fidelity.allow_iff ev)
qed (simp add: fidelity.allow_iff af_checks_def)

section \<open>Swarm authority budgets\<close>

record sb_budget =
  sb_max_targets :: int
  sb_max_concurrent :: int
  sb_discovery_limit :: int
  sb_use_limit :: int
  sb_new_target_limit :: int
  sb_domain_approval :: bool
  sb_authorized_targets :: "string list"
  sb_approved_origins :: "string list"
  sb_enabled :: bool

record sb_state =
  ss_admitted :: "string list"
  ss_in_flight :: "string list"
  ss_discovered :: "string list"
  ss_used :: "string list"
  ss_domain_approved :: "string list"
  ss_tick :: int
  ss_window_tick :: int
  ss_window_count :: int

record sb_root =
  sr_schema_version :: int
  sr_campaign :: string
  sr_budget :: sb_budget
  sr_state :: sb_state

record sb_action =
  sa_worker :: string
  sa_origin :: string
  sa_target :: string
  sa_effect :: string
  sa_credential :: string
  sa_instruction :: string
  sa_claimed_ignore :: bool
  sa_claimed_host :: bool
  sa_claimed_concurrent :: bool
  sa_claimed_approval :: bool

record sb_decision = gate_decision +
  sd_origin :: string
  sd_target :: string
  sd_target_budget :: string
  sd_concurrency :: string
  sd_rate :: string
  sd_credential :: string
  sd_discovery :: string
  sd_use :: string
  sd_domain :: string

definition rateCount :: "sb_state \<Rightarrow> int" where
  "rateCount s = (if ss_window_tick s = ss_tick s then ss_window_count s else 0)"

definition discoverEffect :: "string \<Rightarrow> bool" where
  "discoverEffect c \<longleftrightarrow> c = ''CREDENTIAL_DISCOVER'' \<or> c = ''CREDENTIAL_HARVEST''"

definition credentialEffect :: "string \<Rightarrow> bool" where
  "credentialEffect c \<longleftrightarrow> c = ''CREDENTIAL_DISCOVER'' \<or> c = ''CREDENTIAL_HARVEST'' \<or> c = ''CREDENTIAL_USE''"

definition sb_structuralOK :: "sb_root \<Rightarrow> bool" where
  "sb_structuralOK r \<longleftrightarrow> (let b = sr_budget r; s = sr_state r in
     sr_schema_version r = 2 \<and> sr_campaign r \<noteq> [] \<and> sb_max_targets b > 0 \<and> sb_max_concurrent b > 0
     \<and> sb_discovery_limit b \<ge> 0 \<and> sb_use_limit b \<ge> 0 \<and> sb_new_target_limit b > 0 \<and> sb_domain_approval b
     \<and> uniq (sb_authorized_targets b) \<and> uniq (sb_approved_origins b)
     \<and> unique_filled (ss_admitted s) \<and> unique_filled (ss_in_flight s) \<and> unique_filled (ss_discovered s)
     \<and> unique_filled (ss_used s) \<and> unique_filled (ss_domain_approved s)
     \<and> set (ss_admitted s) \<subseteq> set (sb_authorized_targets b) \<and> set (ss_domain_approved s) \<subseteq> set (sb_authorized_targets b)
     \<and> set (ss_used s) \<subseteq> set (ss_discovered s)
     \<and> ss_tick s \<ge> 0 \<and> ss_window_tick s \<ge> 0 \<and> ss_window_tick s \<le> ss_tick s \<and> ss_window_count s \<ge> 0)"

definition sb_finish :: "sb_root \<Rightarrow> sb_action \<Rightarrow> label \<Rightarrow> label \<Rightarrow> label \<Rightarrow> label \<Rightarrow> label \<Rightarrow> label \<Rightarrow> label \<Rightarrow> string
    \<Rightarrow> label \<Rightarrow> label \<Rightarrow> label \<Rightarrow> label \<Rightarrow> sb_decision" where
  "sb_finish r a verdict proof reason orig tgt tgtB conc rate cred disc useB domA =
     (let b = sr_budget r; s = sr_state r;
          ratio = (\<lambda>label n limit status. label @ '' '' @ itoa n @ ''/'' @ itoa limit @ '' '' @ status)
      in \<lparr>gd_verdict = verdict, gd_proof = proof, gd_reason = reason,
          gd_evidence =
            [''Campaign '' @ sr_campaign r, ''Principal '' @ sa_worker a, ''Origin '' @ sa_origin a, ''Target '' @ sa_target a,
             ''Target authority '' @ tgt,
             ratio ''Target budget'' (int (length (ss_admitted s))) (sb_max_targets b) tgtB,
             ratio ''Concurrency budget'' (int (length (ss_in_flight s))) (sb_max_concurrent b) conc,
             ratio ''New-target authorization rate'' (rateCount s) (sb_new_target_limit b) rate,
             ratio ''Credential discovery budget'' (int (length (ss_discovered s))) (sb_discovery_limit b) disc,
             ratio ''Credential use budget'' (int (length (ss_used s))) (sb_use_limit b) useB,
             ''Domain approval '' @ domA, ''Swarm Authority Budget Proof '' @ proof,
             pick (verdict = ''ALLOW'') ''TARGET EFFECT ALLOWED'' ''TARGET EFFECT DENIED''],
          sd_origin = orig, sd_target = tgt, sd_target_budget = tgtB, sd_concurrency = conc, sd_rate = rate, sd_credential = cred,
          sd_discovery = disc, sd_use = useB, sd_domain = domA\<rparr>)"

definition sb_uniform :: "sb_root \<Rightarrow> sb_action \<Rightarrow> label \<Rightarrow> label \<Rightarrow> label \<Rightarrow> label \<Rightarrow> sb_decision" where
  "sb_uniform r a verdict proof reason st = sb_finish r a verdict proof reason st st st st st st st st st"

definition sb_supported :: "string \<Rightarrow> bool" where
  "sb_supported c \<longleftrightarrow> c = ''TARGET_ACCESS'' \<or> discoverEffect c \<or> c = ''CREDENTIAL_USE'' \<or> c = ''DOMAIN_ESCALATION''"

text \<open>The nine conditions of the default branch, in the order the code computes them, and the statuses it
  fills in from them.\<close>

definition cOrigin :: "sb_budget \<Rightarrow> sb_action \<Rightarrow> bool" where
  "cOrigin b a \<longleftrightarrow> sa_origin a \<in> set (sb_approved_origins b)"

definition sb_c4 :: "sb_budget \<Rightarrow> sb_action \<Rightarrow> bool" where
  "sb_c4 b a \<longleftrightarrow> sa_target a \<in> set (sb_authorized_targets b)"

definition sb_c5 :: "sb_budget \<Rightarrow> sb_state \<Rightarrow> sb_action \<Rightarrow> bool" where
  "sb_c5 b s a \<longleftrightarrow> sa_target a \<in> set (ss_admitted s) \<or> int (length (ss_admitted s)) < sb_max_targets b"

definition sb_c6 :: "sb_budget \<Rightarrow> sb_state \<Rightarrow> sb_action \<Rightarrow> bool" where
  "sb_c6 b s a \<longleftrightarrow> sa_worker a \<in> set (ss_in_flight s) \<or> int (length (ss_in_flight s)) < sb_max_concurrent b"

definition sb_c7 :: "sb_budget \<Rightarrow> sb_state \<Rightarrow> sb_action \<Rightarrow> bool" where
  "sb_c7 b s a \<longleftrightarrow> sa_target a \<in> set (ss_admitted s) \<or> rateCount s < sb_new_target_limit b"

definition cDiscover :: "sb_budget \<Rightarrow> sb_state \<Rightarrow> sb_action \<Rightarrow> bool" where
  "cDiscover b s a \<longleftrightarrow> \<not> discoverEffect (sa_effect a) \<or> sa_credential a \<in> set (ss_discovered s)
     \<or> int (length (ss_discovered s)) < sb_discovery_limit b"

definition cUseAuth :: "sb_state \<Rightarrow> sb_action \<Rightarrow> bool" where
  "cUseAuth s a \<longleftrightarrow> sa_effect a \<noteq> ''CREDENTIAL_USE'' \<or> sa_credential a \<in> set (ss_discovered s)"

definition cUse :: "sb_budget \<Rightarrow> sb_state \<Rightarrow> sb_action \<Rightarrow> bool" where
  "cUse b s a \<longleftrightarrow> sa_effect a \<noteq> ''CREDENTIAL_USE'' \<or> sa_credential a \<in> set (ss_used s) \<or> int (length (ss_used s)) < sb_use_limit b"

definition sb_c9 :: "sb_state \<Rightarrow> sb_action \<Rightarrow> bool" where
  "sb_c9 s a \<longleftrightarrow> sa_effect a \<noteq> ''DOMAIN_ESCALATION'' \<or> sa_target a \<in> set (ss_domain_approved s)"

lemmas sb_conditions = cOrigin_def sb_c4_def sb_c5_def sb_c6_def sb_c7_def cDiscover_def cUseAuth_def cUse_def sb_c9_def

definition sb_statuses :: "sb_root \<Rightarrow> sb_action \<Rightarrow> label \<Rightarrow> label \<Rightarrow> label \<Rightarrow> sb_decision" where
  "sb_statuses r a verdict proof reason =
     (let b = sr_budget r; s = sr_state r; e = sa_effect a
      in sb_finish r a verdict proof reason
           (pick (cOrigin b a) ''PRESENT'' ''ABSENT'') (pick (sb_c4 b a) ''PRESENT'' ''ABSENT'')
           (pick (sb_c5 b s a) ''WITHIN'' ''EXHAUSTED'') (pick (sb_c6 b s a) ''WITHIN'' ''EXHAUSTED'')
           (pick (sb_c7 b s a) ''WITHIN'' ''EXHAUSTED'')
           (if e = ''CREDENTIAL_USE'' then pick (cUseAuth s a) ''PRESENT'' ''ABSENT'' else ''NOT_APPLICABLE'')
           (if discoverEffect e then pick (cDiscover b s a) ''WITHIN'' ''EXHAUSTED'' else ''NOT_APPLICABLE'')
           (if e = ''CREDENTIAL_USE'' then pick (cUse b s a) ''WITHIN'' ''EXHAUSTED'' else ''NOT_APPLICABLE'')
           (if e = ''DOMAIN_ESCALATION'' then pick (sb_c9 s a) ''PRESENT'' ''ABSENT'' else ''NOT_APPLICABLE''))"

definition sb_default :: "sb_root \<Rightarrow> sb_action \<Rightarrow> sb_decision" where
  "sb_default r a =
     (let b = sr_budget r; s = sr_state r; fin = sb_statuses r a
     in if \<not> cOrigin b a then fin ''DENY'' ''INVALID'' ''origin not approved''
        else if \<not> sb_c4 b a then fin ''DENY'' ''INVALID'' ''target authority absent''
        else if \<not> sb_c5 b s a then fin ''DENY'' ''INVALID'' ''maximum target budget exhausted''
        else if \<not> sb_c6 b s a then fin ''DENY'' ''INVALID'' ''concurrent principal budget exhausted''
        else if \<not> sb_c7 b s a then fin ''DENY'' ''INVALID'' ''new target authorization rate exhausted''
        else if \<not> cUseAuth s a then fin ''DENY'' ''INVALID'' ''credential authority absent''
        else if \<not> cDiscover b s a then fin ''DENY'' ''INVALID'' ''credential discovery budget exhausted''
        else if \<not> cUse b s a then fin ''DENY'' ''INVALID'' ''credential use budget exhausted''
        else if \<not> sb_c9 s a then fin ''DENY'' ''INVALID'' ''external approval required for domain escalation''
        else fin ''ALLOW'' ''VALID'' ''authorized'')"

definition EvaluateSwarmAuthorityBudget :: "sb_root \<times> sb_action \<Rightarrow> sb_decision" where
  "EvaluateSwarmAuthorityBudget x =
     (let r = fst x; a = snd x; e = sa_effect a;
          invalid = (\<lambda>reason. sb_uniform r a ''DENY'' ''INVALID'' reason ''INVALID'')
      in if \<not> sb_structuralOK r then invalid ''invalid evaluation root''
         else if sa_worker a = [] then invalid ''worker principal absent''
         else if sa_target a = [] then invalid ''target absent''
         else if \<not> sb_supported e then invalid ''unsupported effect class''
         else if credentialEffect e \<and> sa_credential a = [] then invalid ''credential identifier absent''
         else if \<not> sb_enabled (sr_budget r) then sb_uniform r a ''ALLOW'' ''DISABLED'' ''authority budget disabled'' ''DISABLED''
         else sb_default r a)"


text \<open>The checks in order; with the budget disabled the request is allowed once it is well formed.\<close>

definition sb_budget_checks :: "sb_budget \<Rightarrow> sb_state \<Rightarrow> sb_action \<Rightarrow> (bool \<times> string) list" where
  "sb_budget_checks b s a =
     [(cOrigin b a, ''origin not approved''), (sb_c4 b a, ''target authority absent''),
      (sb_c5 b s a, ''maximum target budget exhausted''), (sb_c6 b s a, ''concurrent principal budget exhausted''),
      (sb_c7 b s a, ''new target authorization rate exhausted''), (cUseAuth s a, ''credential authority absent''),
      (cDiscover b s a, ''credential discovery budget exhausted''), (cUse b s a, ''credential use budget exhausted''),
      (sb_c9 s a, ''external approval required for domain escalation'')]"

definition sb_checks :: "sb_root \<times> sb_action \<Rightarrow> (bool \<times> string) list" where
  "sb_checks x =
     [(sb_structuralOK (fst x), ''invalid evaluation root''), (sa_worker (snd x) \<noteq> [], ''worker principal absent''),
      (sa_target (snd x) \<noteq> [], ''target absent''), (sb_supported (sa_effect (snd x)), ''unsupported effect class''),
      (\<not> credentialEffect (sa_effect (snd x)) \<or> sa_credential (snd x) \<noteq> [], ''credential identifier absent'')]
     @ (if sb_enabled (sr_budget (fst x)) then sb_budget_checks (sr_budget (fst x)) (sr_state (fst x)) (snd x) else [])"

lemma sb_statuses_decision:
  "gd_verdict (sb_statuses r a v p reason) = v" "gd_reason (sb_statuses r a v p reason) = reason"
  "gd_verdict (sb_uniform r a v p reason st) = v" "gd_reason (sb_uniform r a v p reason st) = reason"
  by (simp_all add: sb_statuses_def sb_uniform_def sb_finish_def Let_def)

lemma sb_default_decided:
  "(gd_verdict (sb_default r a), gd_reason (sb_default r a)) =
     (case first_failing (sb_budget_checks (sr_budget r) (sr_state r) a) of None \<Rightarrow> (''ALLOW'', ''authorized'') | Some r \<Rightarrow> (''DENY'', r))"
  by (simp add: sb_default_def sb_budget_checks_def Let_def sb_statuses_decision)

lemma sb_decided:
  "(gd_verdict (EvaluateSwarmAuthorityBudget x), gd_reason (EvaluateSwarmAuthorityBudget x)) =
     (case first_failing (sb_checks x) of
        None \<Rightarrow> (''ALLOW'', if sb_enabled (sr_budget (fst x)) then ''authorized'' else ''authority budget disabled'')
      | Some r \<Rightarrow> (''DENY'', r))"
  using sb_default_decided [of "fst x" "snd x"]
  by (cases "sb_enabled (sr_budget (fst x))")
     (auto simp: EvaluateSwarmAuthorityBudget_def sb_checks_def first_failing_append Let_def sb_statuses_decision)

interpretation swarm: proof_gate EvaluateSwarmAuthorityBudget sb_checks
    "\<lambda>x. if sb_enabled (sr_budget (fst x)) then ''authorized'' else ''authority budget disabled''"
  by unfold_locales (rule sb_decided)

text \<open>The specification: the state of a campaign that records what it admitted, and the limits it keeps.\<close>

definition sb_admit :: "sb_action \<Rightarrow> sb_state \<Rightarrow> sb_state" where
  "sb_admit a s = s
     \<lparr>ss_admitted := List.insert (sa_target a) (ss_admitted s), ss_in_flight := List.insert (sa_worker a) (ss_in_flight s),
      ss_discovered := (if discoverEffect (sa_effect a) then List.insert (sa_credential a) (ss_discovered s) else ss_discovered s),
      ss_used := (if sa_effect a = ''CREDENTIAL_USE'' then List.insert (sa_credential a) (ss_used s) else ss_used s),
      ss_window_tick := (if sa_target a \<in> set (ss_admitted s) then ss_window_tick s else ss_tick s),
      ss_window_count := (if sa_target a \<in> set (ss_admitted s) then ss_window_count s else rateCount s + 1)\<rparr>"

definition sb_within :: "sb_root \<Rightarrow> bool" where
  "sb_within r \<longleftrightarrow> (let b = sr_budget r; s = sr_state r in
     int (length (ss_admitted s)) \<le> sb_max_targets b \<and> int (length (ss_in_flight s)) \<le> sb_max_concurrent b
     \<and> int (length (ss_discovered s)) \<le> sb_discovery_limit b \<and> int (length (ss_used s)) \<le> sb_use_limit b
     \<and> rateCount s \<le> sb_new_target_limit b)"

definition sb_next :: "sb_root \<Rightarrow> sb_action \<Rightarrow> sb_root" where
  "sb_next r a = (if gd_verdict (EvaluateSwarmAuthorityBudget (r, a)) = ''ALLOW'' then r\<lparr>sr_state := sb_admit a (sr_state r)\<rparr> else r)"

lemma unique_filled_insert: "x \<noteq> [] \<Longrightarrow> unique_filled xs \<Longrightarrow> unique_filled (List.insert x xs)"
  by (auto simp: unique_filled_def)

lemma length_insert_le:
  "x \<in> set xs \<or> int (length xs) < n \<Longrightarrow> int (length xs) \<le> n \<Longrightarrow> int (length (List.insert x xs)) \<le> n"
  by (auto simp: List.insert_def)

lemma credential_effects: "credentialEffect c \<longleftrightarrow> discoverEffect c \<or> c = ''CREDENTIAL_USE''"
  by (auto simp: credentialEffect_def discoverEffect_def)

lemma sb_admit_structural:
  assumes "gd_verdict (EvaluateSwarmAuthorityBudget (r, a)) = ''ALLOW''" and "sb_enabled (sr_budget r)"
  shows "sb_structuralOK (r\<lparr>sr_state := sb_admit a (sr_state r)\<rparr>)"
proof -
  have c: "sb_structuralOK r" "sa_worker a \<noteq> []" "sa_target a \<noteq> []" "sa_target a \<in> set (sb_authorized_targets (sr_budget r))"
    "discoverEffect (sa_effect a) \<Longrightarrow> sa_credential a \<noteq> []" "sa_effect a = ''CREDENTIAL_USE'' \<Longrightarrow> sa_credential a \<noteq> []"
    "sa_effect a = ''CREDENTIAL_USE'' \<Longrightarrow> sa_credential a \<in> set (ss_discovered (sr_state r))"
    using assms(1)[unfolded swarm.allow_iff] assms(2) by (auto simp: sb_checks_def sb_budget_checks_def sb_conditions credential_effects)
  show ?thesis using c unfolding sb_structuralOK_def Let_def sb_admit_def
    by (auto simp: unique_filled_insert rateCount_def)
qed

lemma sb_admit_within:
  assumes "gd_verdict (EvaluateSwarmAuthorityBudget (r, a)) = ''ALLOW''" and "sb_enabled (sr_budget r)" and "sb_within r"
  shows "sb_within (r\<lparr>sr_state := sb_admit a (sr_state r)\<rparr>)"
proof -
  define b where "b = sr_budget r"
  define s where "s = sr_state r"
  have c: "list_all fst (sb_budget_checks b s a)"
    using assms(1)[unfolded swarm.allow_iff] assms(2) by (simp add: sb_checks_def b_def s_def)
  have w: "int (length (ss_admitted s)) \<le> sb_max_targets b" "int (length (ss_in_flight s)) \<le> sb_max_concurrent b"
     "int (length (ss_discovered s)) \<le> sb_discovery_limit b" "int (length (ss_used s)) \<le> sb_use_limit b"
     "rateCount s \<le> sb_new_target_limit b"
    using assms(3) by (simp_all add: sb_within_def b_def s_def Let_def)
  have g: "sb_c5 b s a" "sb_c6 b s a" "sb_c7 b s a" "cDiscover b s a" "cUse b s a"
    using c by (simp_all add: sb_budget_checks_def)
  have "int (length (ss_admitted (sb_admit a s))) \<le> sb_max_targets b"
    using g(1) w(1) length_insert_le unfolding sb_c5_def sb_admit_def by simp
  moreover have "int (length (ss_in_flight (sb_admit a s))) \<le> sb_max_concurrent b"
    using g(2) w(2) length_insert_le unfolding sb_c6_def sb_admit_def by simp
  moreover have "int (length (ss_discovered (sb_admit a s))) \<le> sb_discovery_limit b"
    using g(4) w(3) length_insert_le unfolding cDiscover_def sb_admit_def by (cases "discoverEffect (sa_effect a)") simp_all
  moreover have "int (length (ss_used (sb_admit a s))) \<le> sb_use_limit b"
    using g(5) w(4) length_insert_le unfolding cUse_def sb_admit_def by (cases "sa_effect a = ''CREDENTIAL_USE''") simp_all
  moreover have "rateCount (sb_admit a s) \<le> sb_new_target_limit b"
    using g(3) w(5) unfolding sb_c7_def rateCount_def sb_admit_def by (cases "sa_target a \<in> set (ss_admitted s)") (simp_all split: if_splits)
  ultimately show ?thesis by (simp add: sb_within_def Let_def b_def [symmetric] s_def [symmetric])
qed

lemma sb_next_keeps:
  assumes "sb_structuralOK r" and "sb_within r" and "sb_enabled (sr_budget r)"
  shows "sb_structuralOK (sb_next r a) \<and> sb_within (sb_next r a) \<and> sr_budget (sb_next r a) = sr_budget r"
  using assms sb_admit_structural [of r a] sb_admit_within [of r a] by (simp add: sb_next_def)


definition demo_campaign :: sb_root where
  "demo_campaign =
     \<lparr>sr_schema_version = 2, sr_campaign = ''campaign:c'',
      sr_budget = \<lparr>sb_max_targets = 1, sb_max_concurrent = 2, sb_discovery_limit = 0, sb_use_limit = 0, sb_new_target_limit = 1,
        sb_domain_approval = True, sb_authorized_targets = [''t1'', ''t2''], sb_approved_origins = [''control''], sb_enabled = True\<rparr>,
      sr_state = \<lparr>ss_admitted = [], ss_in_flight = [], ss_discovered = [], ss_used = [], ss_domain_approved = [],
        ss_tick = 3, ss_window_tick = 0, ss_window_count = 0\<rparr>\<rparr>"

definition demo_access :: "string \<Rightarrow> sb_action" where
  "demo_access t = \<lparr>sa_worker = ''w1'', sa_origin = ''control'', sa_target = t, sa_effect = ''TARGET_ACCESS'', sa_credential = [],
     sa_instruction = [], sa_claimed_ignore = True, sa_claimed_host = True, sa_claimed_concurrent = True, sa_claimed_approval = True\<rparr>"


end
