(* ===== verification/Workflow_Status.thy ===== *)
theory Workflow_Status
  imports File_Path "HOL-Library.List_Lexorder" "HOL-Library.Char_ord"
begin

text \<open>
  The supervised-workflow tool (\<^verbatim>\<open>src/internal/workflow/workflow.go\<close>), first part: the task contract and
  its validation, the command log, the review journal, and the status that is derived from them. The
  JSON encoder and SHA-256 are the fields of wf_lib; a decoded JSON document is its value or the error
  text of the decoder.
\<close>

section \<open>Data\<close>

record req_cmd =
  rc_name :: string
  rc_expect :: string
  rc_argv :: "string list"

record attack_class =
  ac_id :: string
  ac_failure_class :: string
  ac_expected :: string

record wf_task =
  tk_task_id :: string
  tk_invariant_ids :: "string list"
  tk_security_sensitive :: bool
  tk_security_problem :: string
  tk_required_behavior :: string
  tk_failure_behavior :: string
  tk_allowed_paths :: "string list"
  tk_approval_gated :: "string list"
  tk_max_attempts :: int
  tk_commands :: "req_cmd list"
  tk_spec_revision :: int
  tk_non_goals :: "string list"
  tk_attack_classes :: "attack_class list"

record command_record =
  cr_name :: string
  cr_args :: "string list"
  cr_exit :: int
  cr_source :: string
  cr_base :: string
  cr_head :: string
  cr_digest :: string
  cr_log_path :: string
  cr_recorded :: int
  cr_spec_sequence :: int

record review_artifact =
  rv_passed :: bool
  rv_phase :: string
  rv_findings :: "string list"
  rv_failure_classes :: "string list"
  rv_spec_revision :: int
  rv_contract_digest :: string
  rv_covered :: "string list"
  rv_counterexamples :: "string list"
  rv_reviewer :: string
  rv_notes :: string
  rv_head :: string
  rv_digest :: string
  rv_base :: string
  rv_sequence :: int
  rv_recorded :: int

record scope_result =
  sc_base :: string
  sc_changed :: "string list"
  sc_out_of_scope :: "string list"
  sc_approval_gated :: "string list"
  sc_pass :: bool
  sc_dirty :: "string list"

record snapshot =
  sn_base :: string
  sn_head :: string
  sn_digest :: string

datatype status =
    Unspecified | Specified | SpecReviewed | FailureReproduced | TargetVerified | HarnessVerified | SecurityReviewed | Blocked

record wf_lib =
  wl_marshal_task :: "wf_task \<Rightarrow> string + string"
  wl_sha256_hex :: "string \<Rightarrow> string"

definition DefaultApprovalGated :: "string list" where
  "DefaultApprovalGated =
     [''*_test.go'', ''harness/invariants.md'', ''go.mod'', ''go.sum'', ''README.md'', ''SECURITY.md'', ''.github/workflows/*'',
      ''.goreleaser.yaml'', ''.goreleaser.yml'']"

definition ContractDigest :: "wf_lib \<Rightarrow> wf_task \<Rightarrow> string + string" where
  "ContractDigest L t =
     (case wl_marshal_task L t of
        Inl err \<Rightarrow> Inl (''marshal task contract: '' @ err)
      | Inr contract \<Rightarrow> Inr (wl_sha256_hex L contract))"

section \<open>The task contract\<close>

definition clean :: "string list \<Rightarrow> string list" where
  "clean ss = filter (\<lambda>s. s \<noteq> []) (map trim_space ss)"

definition wf_uniq :: "string list \<Rightarrow> string list" where
  "wf_uniq ss = sort (remdups ss)"

definition validTaskID :: "string \<Rightarrow> bool" where
  "validTaskID s \<longleftrightarrow> s \<noteq> ''.'' \<and> s \<noteq> ''..''
     \<and> list_all (\<lambda>c. is_lower_ascii c \<or> is_upper_ascii c \<or> is_digit_ascii c \<or> c = CHR ''.'' \<or> c = CHR ''-'' \<or> c = CHR ''_'') s"

definition specRegime :: "wf_task \<Rightarrow> bool" where
  "specRegime t \<longleftrightarrow> tk_security_sensitive t \<and> tk_spec_revision t \<ge> 1"

definition canonicalClasses :: "wf_task \<Rightarrow> string list" where
  "canonicalClasses t = remdups (clean (map ac_failure_class (tk_attack_classes t)))"

definition excluded_prefixes :: "string list" where
  "excluded_prefixes = [''evidence/workflow'', ''evidence/harness'']"

definition token_touches :: "string \<Rightarrow> string \<Rightarrow> bool" where
  "token_touches s pre \<longleftrightarrow>
     s = pre \<or> starts_with (pre @ ''/'') s \<or> str_contains s (''/'' @ pre @ ''/'') \<or> str_contains s ('' '' @ pre)
     \<or> starts_with (''--input='' @ pre) s \<or> str_contains s (CHR 0x27 # pre) \<or> str_contains s (CHR 0x22 # pre)"

text \<open>The first excluded tree that some argument touches, or the empty string.\<close>

definition argvTouchesExcludedLocalState :: "string list \<Rightarrow> string" where
  "argvTouchesExcludedLocalState argv =
     (case find (\<lambda>raw. list_ex (token_touches (trim_space raw)) excluded_prefixes) argv of
        None \<Rightarrow> []
      | Some raw \<Rightarrow> (case find (token_touches (trim_space raw)) excluded_prefixes of None \<Rightarrow> [] | Some p \<Rightarrow> p))"

text \<open>ValidateTask normalizes the names and expectations of the commands in place before it checks them.\<close>

definition normalize_cmd :: "req_cmd \<Rightarrow> req_cmd" where
  "normalize_cmd c = c\<lparr>rc_name := trim_space (rc_name c), rc_expect := to_lower (trim_space (rc_expect c))\<rparr>"

definition normalize_task :: "wf_task \<Rightarrow> wf_task" where
  "normalize_task t = t\<lparr>tk_commands := map normalize_cmd (tk_commands t)\<rparr>"

definition at_index :: "string \<Rightarrow> nat \<Rightarrow> string \<Rightarrow> string" where
  "at_index base i rest = base @ ''['' @ itoa (int i) @ '']'' @ rest"

definition argv_errors :: "nat \<Rightarrow> string list \<Rightarrow> string list" where
  "argv_errors i argv =
     (if argv = [] then [at_index ''required_commands'' i ''.argv must be non-empty''] else [])
     @ concat (map (\<lambda>(j, a). if trim_space a = [] then [at_index ''required_commands'' i (at_index ''.argv'' j '' empty'')] else [])
         (enumerate 0 argv))"

fun command_errors :: "nat \<Rightarrow> string list \<Rightarrow> req_cmd list \<Rightarrow> string list" where
  "command_errors i seen [] = []"
| "command_errors i seen (c # cs) =
     (if rc_name c = [] then [at_index ''required_commands'' i ''.name required''] else [])
     @ (if rc_name c \<in> set seen then [''duplicate command name: '' @ rc_name c] else [])
     @ (if rc_expect c \<noteq> ''pass'' \<and> rc_expect c \<noteq> ''fail'' then [at_index ''required_commands'' i ''.expect must be pass|fail''] else [])
     @ argv_errors i (rc_argv c)
     @ command_errors (Suc i) (rc_name c # seen) cs"

fun class_errors :: "nat \<Rightarrow> string list \<Rightarrow> attack_class list \<Rightarrow> string list" where
  "class_errors i seen [] = []"
| "class_errors i seen (a # as) =
     (let fc = trim_space (ac_failure_class a) in
      (if trim_space (ac_id a) = [] then [at_index ''attack_classes'' i ''.id required''] else [])
      @ (if fc = [] then [at_index ''attack_classes'' i ''.failure_class required'']
         else if fc \<in> set seen then [at_index ''attack_classes'' i (''.failure_class duplicate: '' @ fc)] else [])
      @ (if trim_space (ac_expected a) = [] then [at_index ''attack_classes'' i ''.expected required''] else [])
      @ class_errors (Suc i) (fc # seen) as)"

definition regime_errors :: "wf_task \<Rightarrow> string list" where
  "regime_errors t =
     (if specRegime t then
        (if tk_attack_classes t = [] then [''attack_classes must be non-empty when spec_revision >= 1''] else [])
        @ (if clean (tk_non_goals t) = [] then [''non_goals must be non-empty when spec_revision >= 1''] else [])
        @ class_errors 0 [] (tk_attack_classes t)
      else [])"

definition excluded_errors :: "req_cmd list \<Rightarrow> string list" where
  "excluded_errors cs = concat (map (\<lambda>(i, c).
     let hit = argvTouchesExcludedLocalState (rc_argv c) in
     if hit \<noteq> [] then [at_index ''required_commands'' i (''.argv must not depend on excluded local-state path '' @ go_quote hit)] else [])
     (enumerate 0 cs))"

text \<open>The error list of a task whose commands are already normalized.\<close>

definition task_errors :: "wf_task \<Rightarrow> string list" where
  "task_errors t =
     (if trim_space (tk_task_id t) = [] then [''task_id required'']
      else if \<not> validTaskID (tk_task_id t) then [''task_id must contain only ASCII letters, digits, '' @ [CHR 0x27, CHR ''.'', CHR 0x27] @ '', ''
        @ [CHR 0x27, CHR ''-'', CHR 0x27] @ '', or '' @ [CHR 0x27, CHR ''_'', CHR 0x27]]
      else [])
     @ (if clean (tk_invariant_ids t) = [] then [''invariant_ids must be non-empty''] else [])
     @ (if clean (tk_allowed_paths t) = [] then [''allowed_paths must be non-empty''] else [])
     @ (if tk_max_attempts t < 1 then [''max_attempts must be >= 1''] else [])
     @ (if tk_commands t = [] then [''required_commands must be non-empty''] else [])
     @ command_errors 0 [] (tk_commands t)
     @ (if list_ex (\<lambda>c. rc_name c = ''harness'' \<and> rc_expect c = ''pass'') (tk_commands t) then []
        else [''required_commands must include harness with expect=pass''])
     @ (if list_ex (\<lambda>c. rc_name c \<noteq> ''harness'' \<and> rc_expect c = ''pass'') (tk_commands t) then []
        else [''required_commands must include a non-harness expect=pass target''])
     @ (if tk_security_sensitive t \<and> \<not> list_ex (\<lambda>c. rc_expect c = ''fail'') (tk_commands t)
        then [''security_sensitive tasks require at least one expect=fail command''] else [])
     @ (if tk_security_sensitive t \<and> tk_spec_revision t < 1
        then [''security_sensitive tasks require spec_revision >= 1 (spec gate is mandatory)''] else [])
     @ regime_errors t
     @ (if trim_space (tk_security_problem t) = [] then [''security_problem required''] else [])
     @ (if trim_space (tk_required_behavior t) = [] then [''required_behavior required''] else [])
     @ (if trim_space (tk_failure_behavior t) = [] then [''failure_behavior required''] else [])
     @ excluded_errors (tk_commands t)"

definition ValidateTask :: "wf_task \<Rightarrow> string + wf_task" where
  "ValidateTask t =
     (let n = normalize_task t; e = task_errors n
      in if e \<noteq> [] then Inl (join_strings ''; '' e) else Inr n)"

text \<open>\<^verbatim>\<open>LoadTask\<close>: the strict decoder gives the first value of the file and says what follows it.\<close>

datatype trailing = TrailingNothing | TrailingValue | TrailingError string

definition LoadTask :: "(string \<Rightarrow> string + wf_task \<times> trailing) \<Rightarrow> string + string \<Rightarrow> string + wf_task" where
  "LoadTask decode content =
     (case content of
        Inl err \<Rightarrow> Inl err
      | Inr b \<Rightarrow> (case decode b of
          Inl err \<Rightarrow> Inl (''parse task: '' @ err)
        | Inr (t, TrailingValue) \<Rightarrow> Inl ''parse task: trailing JSON value''
        | Inr (t, TrailingError err) \<Rightarrow> Inl (''parse task trailing data: '' @ err)
        | Inr (t, TrailingNothing) \<Rightarrow> (case ValidateTask t of
            Inl err \<Rightarrow> Inl err
          | Inr n \<Rightarrow> Inr (n\<lparr>tk_approval_gated := wf_uniq (DefaultApprovalGated @ tk_approval_gated n)\<rparr>))))"

definition LookupCommand :: "wf_task \<Rightarrow> string \<Rightarrow> req_cmd option" where
  "LookupCommand t name = find (\<lambda>c. rc_name c = name) (tk_commands t)"

section \<open>The command log\<close>

text \<open>\<^verbatim>\<open>LoadCommands\<close>: a missing log is empty, blank lines are skipped, the first line that does not
  parse is an error, and a record that does not say it was executed is marked invalid.\<close>

fun load_lines :: "(string \<Rightarrow> string + command_record) \<Rightarrow> string list \<Rightarrow> string + command_record list" where
  "load_lines decode [] = Inr []"
| "load_lines decode (l # ls) =
     (let line = trim_space l in
      if line = [] then load_lines decode ls
      else case decode line of
             Inl err \<Rightarrow> Inl err
           | Inr r \<Rightarrow> (case load_lines decode ls of
               Inl err \<Rightarrow> Inl err
             | Inr rs \<Rightarrow> Inr ((if cr_source r \<noteq> ''executed'' then r\<lparr>cr_source := ''invalid''\<rparr> else r) # rs)))"

datatype file_read = FileMissing | FileError string | FileData string

definition LoadCommands :: "(string \<Rightarrow> string + command_record) \<Rightarrow> file_read \<Rightarrow> string + command_record list" where
  "LoadCommands decode f =
     (case f of FileMissing \<Rightarrow> Inr [] | FileError err \<Rightarrow> Inl err | FileData b \<Rightarrow> load_lines decode (split_on (CHR 0x0A) b))"

section \<open>Reviews\<close>

definition currentContract :: "wf_task \<Rightarrow> string \<Rightarrow> review_artifact \<Rightarrow> bool" where
  "currentContract t live r \<longleftrightarrow> specRegime t \<and> rv_contract_digest r = live \<and> rv_spec_revision r = tk_spec_revision t"

text \<open>\<^verbatim>\<open>ValidateReviewArtifact\<close>, on the two phases. The code ranges over the set of class names, so which of
  several uncovered classes the message names is not determined; the model names the first in the
  order of the task.\<close>

definition spec_review_error :: "wf_task \<Rightarrow> string \<Rightarrow> review_artifact \<Rightarrow> string option" where
  "spec_review_error t live r =
     (if rv_spec_revision r < 1 then Some ''spec review requires spec_revision >= 1''
      else if trim_space (rv_contract_digest r) = [] then Some ''spec review requires contract_digest''
      else if \<not> currentContract t live r then None
      else case find (\<lambda>c. c \<notin> set (canonicalClasses t)) (rv_covered r) of
             Some c \<Rightarrow> Some (''spec review covers unknown attack class '' @ go_quote c)
           | None \<Rightarrow>
               if \<not> rv_passed r then None
               else case find (\<lambda>c. c \<notin> set (rv_covered r)) (canonicalClasses t) of
                      Some c \<Rightarrow> Some (''passing spec review does not cover attack class '' @ go_quote c)
                    | None \<Rightarrow> if clean (rv_counterexamples r) = [] then Some ''passing spec review requires counterexamples'' else None)"

definition impl_review_error :: "wf_task \<Rightarrow> string \<Rightarrow> review_artifact \<Rightarrow> string option" where
  "impl_review_error t live r =
     (let unbound = (if rv_head r = [] \<or> rv_digest r = [] \<or> rv_base r = []
                     then Some ''implementation review requires head_sha, workspace_digest, base_sha'' else None)
      in if \<not> specRegime t then unbound
         else if trim_space (rv_contract_digest r) = [] \<or> rv_spec_revision r < 1
         then Some ''implementation review requires contract_digest and spec_revision''
         else if \<not> currentContract t live r then unbound
         else case find (\<lambda>c. c \<notin> set (canonicalClasses t)) (rv_failure_classes r) of
                Some c \<Rightarrow> Some (''unknown failure class '' @ go_quote c)
              | None \<Rightarrow> unbound)"

definition ValidateReviewArtifact :: "wf_lib \<Rightarrow> wf_task \<Rightarrow> review_artifact \<Rightarrow> string option" where
  "ValidateReviewArtifact L t r =
     (let phase = (if rv_phase r = [] then ''implementation'' else rv_phase r)
      in if phase \<noteq> ''spec'' \<and> phase \<noteq> ''implementation'' then Some (''invalid review phase '' @ go_quote (rv_phase r))
         else case (if specRegime t then ContractDigest L t else Inr []) of
                Inl err \<Rightarrow> Some (''contract digest: '' @ err)
              | Inr live \<Rightarrow> if phase = ''spec'' then spec_review_error t live r else impl_review_error t live r)"

definition bound_spec :: "string \<Rightarrow> int \<Rightarrow> review_artifact \<Rightarrow> bool" where
  "bound_spec digest revision r \<longleftrightarrow> rv_phase r = ''spec'' \<and> rv_contract_digest r = digest \<and> rv_spec_revision r = revision"

definition LatestSpecReview :: "review_artifact list \<Rightarrow> string \<Rightarrow> int \<Rightarrow> review_artifact option" where
  "LatestSpecReview reviews digest revision =
     fold (\<lambda>r latest. if bound_spec digest revision r then Some r else latest) reviews None"

definition currentSpecPass :: "review_artifact list \<Rightarrow> string \<Rightarrow> int \<Rightarrow> review_artifact option" where
  "currentSpecPass reviews digest revision =
     (case LatestSpecReview reviews digest revision of
        None \<Rightarrow> None
      | Some r \<Rightarrow> if rv_passed r then Some r else None)"

definition latestJournalReview :: "review_artifact list \<Rightarrow> wf_task \<Rightarrow> string \<Rightarrow> review_artifact option" where
  "latestJournalReview reviews t digest =
     (let specSeq = (if specRegime t then (case currentSpecPass reviews digest (tk_spec_revision t) of None \<Rightarrow> 0 | Some p \<Rightarrow> rv_sequence p) else 0)
      in find (\<lambda>r. rv_phase r \<noteq> ''spec''
                 \<and> \<not> (specRegime t \<and> (rv_contract_digest r \<noteq> digest \<or> rv_spec_revision r \<noteq> tk_spec_revision t))
                 \<and> \<not> (specSeq > 0 \<and> rv_sequence r \<le> specSeq))
           (rev reviews))"

section \<open>The derived status\<close>

definition isTargetPassCmd :: "wf_task \<Rightarrow> string \<Rightarrow> bool" where
  "isTargetPassCmd t name = list_ex (\<lambda>c. rc_name c = name \<and> rc_expect c = ''pass'' \<and> rc_name c \<noteq> ''harness'') (tk_commands t)"

definition isRedFailCmd :: "wf_task \<Rightarrow> string \<Rightarrow> bool" where
  "isRedFailCmd t name = list_ex (\<lambda>c. rc_name c = name \<and> rc_expect c = ''fail'') (tk_commands t)"

fun count_attempts :: "wf_task \<Rightarrow> (string \<Rightarrow> int) \<Rightarrow> int \<Rightarrow> command_record list \<Rightarrow> int" where
  "count_attempts t per m [] = m"
| "count_attempts t per m (c # cs) =
     (if cr_source c \<noteq> ''executed'' \<or> \<not> isTargetPassCmd t (cr_name c) then count_attempts t per m cs
      else let n = per (cr_name c) + 1 in count_attempts t (per(cr_name c := n)) (if n > m then n else m) cs)"

definition countTargetAttempts :: "wf_task \<Rightarrow> command_record list \<Rightarrow> int" where
  "countTargetAttempts t cmds = count_attempts t (\<lambda>_. 0) 0 cmds"

definition contract_record :: "req_cmd \<Rightarrow> command_record \<Rightarrow> bool" where
  "contract_record req c \<longleftrightarrow> cr_name c = rc_name req \<and> cr_source c = ''executed'' \<and> cr_args c = rc_argv req"

definition lastMatching :: "wf_task \<Rightarrow> command_record list \<Rightarrow> string \<Rightarrow> bool option \<Rightarrow> (nat \<times> command_record) option" where
  "lastMatching t cmds name requirePass =
     (case LookupCommand t name of
        None \<Rightarrow> None
      | Some req \<Rightarrow>
          (case find (\<lambda>(i, c). cr_name c = name \<and> cr_source c = ''executed'' \<and> cr_args c = rc_argv req) (rev (enumerate 0 cmds)) of
             None \<Rightarrow> None
           | Some (i, c) \<Rightarrow>
               (case requirePass of
                  Some want \<Rightarrow> if want \<noteq> (cr_exit c = 0) then None else Some (i, c)
                | None \<Rightarrow> Some (i, c))))"

text \<open>The first record that is not an executed one or that departs from the argument vector of the contract.\<close>

fun record_error :: "wf_task \<Rightarrow> command_record list \<Rightarrow> string option" where
  "record_error t [] = None"
| "record_error t (c # cs) =
     (if cr_source c \<noteq> ''executed'' then Some (''invalid_command_record:'' @ cr_name c)
      else case LookupCommand t (cr_name c) of
             Some req \<Rightarrow> if cr_args c \<noteq> rc_argv req then Some (''argv_mismatch:'' @ cr_name c) else record_error t cs
           | None \<Rightarrow> record_error t cs)"

fun review_error :: "wf_lib \<Rightarrow> wf_task \<Rightarrow> review_artifact list \<Rightarrow> string option" where
  "review_error L t [] = None"
| "review_error L t (r # rs) = (case ValidateReviewArtifact L t r of Some err \<Rightarrow> Some err | None \<Rightarrow> review_error L t rs)"

text \<open>A red record: a failing run of an expected failure with the contract's arguments, and of the
  current spec cycle.\<close>

definition red_record :: "wf_task \<Rightarrow> review_artifact option \<Rightarrow> command_record \<Rightarrow> bool" where
  "red_record t specPass c \<longleftrightarrow>
     cr_source c = ''executed'' \<and> isRedFailCmd t (cr_name c) \<and> cr_exit c \<noteq> 0
     \<and> (case LookupCommand t (cr_name c) of None \<Rightarrow> False | Some req \<Rightarrow> cr_args c = rc_argv req)
     \<and> (case specPass of None \<Rightarrow> True | Some p \<Rightarrow> cr_spec_sequence c = rv_sequence p)"

definition red_index :: "wf_task \<Rightarrow> review_artifact option \<Rightarrow> command_record list \<Rightarrow> int" where
  "red_index t specPass cmds =
     (if tk_security_sensitive t
      then (case find (\<lambda>(i, c). red_record t specPass c) (enumerate 0 cmds) of None \<Rightarrow> - 1 | Some (i, c) \<Rightarrow> int i)
      else - 1)"

text \<open>The loop over the required pass targets: the flag, the last index and the reasons.\<close>

fun target_loop :: "wf_task \<Rightarrow> command_record list \<Rightarrow> snapshot \<Rightarrow> int \<Rightarrow> req_cmd list \<Rightarrow> bool \<times> int \<times> string list \<Rightarrow> bool \<times> int \<times> string list" where
  "target_loop t cmds snap redIdx [] st = st"
| "target_loop t cmds snap redIdx (r # rs) (ok, lastIdx, reasons) =
     (if rc_name r = ''harness'' \<or> rc_expect r \<noteq> ''pass'' then target_loop t cmds snap redIdx rs (ok, lastIdx, reasons)
      else case lastMatching t cmds (rc_name r) (Some True) of
             None \<Rightarrow> target_loop t cmds snap redIdx rs (False, lastIdx, reasons @ [''required_pass_missing_or_failed:'' @ rc_name r])
           | Some (idx, c) \<Rightarrow>
               if cr_digest c \<noteq> sn_digest snap
               then target_loop t cmds snap redIdx rs (False, lastIdx, reasons @ [''target_snapshot_mismatch:'' @ rc_name r])
               else if cr_base c \<noteq> sn_base snap
               then target_loop t cmds snap redIdx rs (False, lastIdx, reasons @ [''target_base_mismatch:'' @ rc_name r])
               else if tk_security_sensitive t \<and> redIdx \<ge> 0 \<and> int idx \<le> redIdx
               then target_loop t cmds snap redIdx rs (False, lastIdx, reasons @ [''red_must_precede_green''])
               else target_loop t cmds snap redIdx rs (ok, max lastIdx (int idx), reasons))"

definition harness_stage :: "wf_task \<Rightarrow> command_record list \<Rightarrow> snapshot \<Rightarrow> int \<Rightarrow> status \<times> string" where
  "harness_stage t cmds snap lastTargetIdx =
     (case lastMatching t cmds ''harness'' (Some True) of
        None \<Rightarrow> (TargetVerified,
                 if lastMatching t cmds ''harness'' (Some False) \<noteq> None then ''harness_failed'' else ''harness_missing'')
      | Some (hIdx, h) \<Rightarrow>
          if cr_digest h \<noteq> sn_digest snap then (TargetVerified, ''harness_snapshot_mismatch'')
          else if cr_base h \<noteq> sn_base snap then (TargetVerified, ''harness_base_mismatch'')
          else if int hIdx \<le> lastTargetIdx then (TargetVerified, ''harness_must_follow_target'')
          else (HarnessVerified, ''harness_pass''))"

definition review_stage :: "wf_task \<Rightarrow> string \<Rightarrow> review_artifact option \<Rightarrow> review_artifact list \<Rightarrow> snapshot \<Rightarrow> status \<Rightarrow> status \<times> string list" where
  "review_stage t digest specPass reviews snap st =
     (case latestJournalReview reviews t digest of
        None \<Rightarrow> (st, [])
      | Some r \<Rightarrow>
          if \<not> rv_passed r then (st, [])
          else if st \<noteq> HarnessVerified then (st, [''review_ignored_gates_not_met''])
          else if rv_phase r = ''spec'' then (st, [''review_ignored_gates_not_met''])
          else if rv_head r \<noteq> sn_head snap \<or> rv_digest r \<noteq> sn_digest snap \<or> rv_base r \<noteq> sn_base snap
          then (st, [''review_snapshot_mismatch''])
          else if specRegime t \<and> (rv_contract_digest r \<noteq> digest \<or> rv_spec_revision r \<noteq> tk_spec_revision t)
          then (st, [''review_contract_mismatch''])
          else if specRegime t \<and> (case specPass of None \<Rightarrow> False | Some p \<Rightarrow> rv_sequence r \<le> rv_sequence p)
          then (st, [''review_before_current_spec''])
          else (SecurityReviewed, [''review_pass'']))"

text \<open>From the spec gate on: red, targets, harness, review.\<close>

definition gated_status :: "wf_task \<Rightarrow> string \<Rightarrow> review_artifact option \<Rightarrow> command_record list \<Rightarrow> scope_result \<Rightarrow> review_artifact list \<Rightarrow> snapshot
    \<Rightarrow> status \<Rightarrow> string list \<Rightarrow> status \<times> string list" where
  "gated_status t digest specPass cmds scope reviews snap st0 reasons0 =
     (let redIdx = red_index t specPass cmds;
          (st1, reasons1) =
            (if \<not> tk_security_sensitive t then (st0, reasons0)
             else if redIdx \<ge> 0 then (FailureReproduced, reasons0 @ [''red_failure_recorded''])
             else (st0, reasons0 @ [if specPass \<noteq> None then ''red_failure_stale_or_missing'' else ''red_failure_missing'']));
          reasons2 = (if sc_pass scope then reasons1 else reasons1 @ [''scope_not_pass'']);
          ok0 = (sc_pass scope \<and> \<not> (tk_security_sensitive t \<and> redIdx < 0));
          (ok, lastIdx, reasons3) = target_loop t cmds snap redIdx (tk_commands t) (ok0, - 1, reasons2);
          (st2, reasons4) = (if ok \<and> lastIdx \<ge> 0 then (TargetVerified, reasons3 @ [''scope_and_targets_pass'']) else (st1, reasons3));
          (st3, reasons5) =
            (if st2 = TargetVerified then (case harness_stage t cmds snap lastIdx of (s, reason) \<Rightarrow> (s, reasons4 @ [reason])) else (st2, reasons4));
          (st4, more) = review_stage t digest specPass reviews snap st3
      in (st4, reasons5 @ more))"

definition DeriveStatus :: "wf_lib \<Rightarrow> wf_task \<Rightarrow> command_record list \<Rightarrow> scope_result \<Rightarrow> review_artifact list \<Rightarrow> snapshot \<Rightarrow> status \<times> string list" where
  "DeriveStatus L task cmds scope reviews snap =
     (case ValidateTask task of
        Inl err \<Rightarrow> (Unspecified, [''invalid_task: '' @ err])
      | Inr t \<Rightarrow>
        (case record_error t cmds of Some err \<Rightarrow> (Blocked, [err]) | None \<Rightarrow>
        (case review_error L t reviews of Some err \<Rightarrow> (Blocked, [''invalid_review_evidence: '' @ err]) | None \<Rightarrow>
        (case ContractDigest L t of Inl err \<Rightarrow> (Blocked, [''contract_digest_error: '' @ err]) | Inr digest \<Rightarrow>
        (let attempts = countTargetAttempts t cmds
         in if attempts > tk_max_attempts t
            then (Blocked, [''max_attempts_exceeded:'' @ itoa attempts @ ''>'' @ itoa (tk_max_attempts t)])
            else if \<not> specRegime t then gated_status t digest None cmds scope reviews snap Specified [''valid_task_contract'']
            else case currentSpecPass reviews digest (tk_spec_revision t) of
                   None \<Rightarrow> (Specified, [''valid_task_contract'', ''spec_review_required'']
                     @ (case LatestSpecReview reviews digest (tk_spec_revision t) of
                          None \<Rightarrow> [] | Some l \<Rightarrow> if \<not> rv_passed l then [''spec_review_latest_failed''] else []))
                 | Some p \<Rightarrow> gated_status t digest (Some p) cmds scope reviews snap SpecReviewed [''valid_task_contract'', ''spec_review_pass''])))))"

definition StatusRank :: "status \<Rightarrow> nat" where
  "StatusRank s = (case s of Specified \<Rightarrow> 1 | SpecReviewed \<Rightarrow> 2 | FailureReproduced \<Rightarrow> 3 | TargetVerified \<Rightarrow> 4
     | HarnessVerified \<Rightarrow> 5 | SecurityReviewed \<Rightarrow> 6 | _ \<Rightarrow> 0)"

section \<open>Evidence\<close>

text \<open>The specification of the log: the latest run of a named command under the contract passed, and a
  record belongs to the snapshot.\<close>

definition latest_pass :: "wf_task \<Rightarrow> command_record list \<Rightarrow> string \<Rightarrow> nat \<Rightarrow> bool" where
  "latest_pass t cmds name i \<longleftrightarrow> i < length cmds \<and>
     (\<exists>req. LookupCommand t name = Some req \<and> contract_record req (cmds ! i) \<and> cr_exit (cmds ! i) = 0
        \<and> list_all (\<lambda>c. \<not> contract_record req c) (drop (Suc i) cmds))"

definition bound_to :: "snapshot \<Rightarrow> command_record \<Rightarrow> bool" where
  "bound_to snap c \<longleftrightarrow> cr_digest c = sn_digest snap \<and> cr_base c = sn_base snap"

definition is_target :: "req_cmd \<Rightarrow> bool" where
  "is_target r \<longleftrightarrow> rc_name r \<noteq> ''harness'' \<and> rc_expect r = ''pass''"

lemma find_last_index:
  "find (\<lambda>(i, c). P c) (rev (enumerate k xs)) = Some (i, c) \<longleftrightarrow>
     k \<le> i \<and> i < k + length xs \<and> xs ! (i - k) = c \<and> P c \<and> list_all (\<lambda>c. \<not> P c) (drop (Suc (i - k)) xs)"
proof (induction xs rule: rev_induct)
  case (snoc x xs)
  have e: "rev (enumerate k (xs @ [x])) = (k + length xs, x) # rev (enumerate k xs)"
    by (simp add: enumerate_append_eq)
  show ?case
  proof (cases "P x")
    case True
    then show ?thesis unfolding e
      by (auto simp: nth_append list_all_iff dest!: Cons_nth_drop_Suc [symmetric])
  next
    case False
    then show ?thesis unfolding e using snoc.IH by (auto simp: nth_append)
  qed
qed simp

lemma LookupCommand_name: "LookupCommand t name = Some req \<Longrightarrow> rc_name req = name"
  by (auto simp: LookupCommand_def dest: find_SomeD)

lemma lastMatching_pass:
  "lastMatching t cmds name (Some True) = Some (i, c) \<longleftrightarrow> latest_pass t cmds name i \<and> c = cmds ! i"
proof (cases "LookupCommand t name")
  case (Some req)
  have P: "(cr_name c = name \<and> cr_source c = ''executed'' \<and> cr_args c = rc_argv req) = contract_record req c" for c
    using LookupCommand_name [OF Some] by (auto simp: contract_record_def)
  have f: "find (\<lambda>(i, c). contract_record req c) (rev (enumerate 0 cmds)) = Some (i, c) \<longleftrightarrow>
      i < length cmds \<and> cmds ! i = c \<and> contract_record req c \<and> list_all (\<lambda>c. \<not> contract_record req c) (drop (Suc i) cmds)" for i c
    using find_last_index [of "contract_record req" 0 cmds i c] by simp
  have lp: "latest_pass t cmds name i \<longleftrightarrow>
      find (\<lambda>(i, c). contract_record req c) (rev (enumerate 0 cmds)) = Some (i, cmds ! i) \<and> cr_exit (cmds ! i) = 0" for i
    unfolding latest_pass_def f using Some by auto
  show ?thesis
  proof (cases "find (\<lambda>(i, c). contract_record req c) (rev (enumerate 0 cmds))")
    case None
    then show ?thesis unfolding lp by (simp add: lastMatching_def Some P)
  next
    case (Some p)
    then obtain a b where ab: "find (\<lambda>(i, c). contract_record req c) (rev (enumerate 0 cmds)) = Some (a, b)" by (cases p) simp
    then have "b = cmds ! a" using f [of a b] by simp
    then show ?thesis unfolding lp ab using \<open>LookupCommand t name = Some req\<close> ab by (auto simp: lastMatching_def P)
  qed
qed (simp add: lastMatching_def latest_pass_def)

definition target_good :: "wf_task \<Rightarrow> command_record list \<Rightarrow> snapshot \<Rightarrow> int \<Rightarrow> req_cmd \<Rightarrow> bool" where
  "target_good t cmds snap redIdx r \<longleftrightarrow>
     (\<exists>i. latest_pass t cmds (rc_name r) i \<and> bound_to snap (cmds ! i) \<and> \<not> (tk_security_sensitive t \<and> redIdx \<ge> 0 \<and> int i \<le> redIdx))"

lemma latest_pass_unique: "latest_pass t cmds name i \<Longrightarrow> latest_pass t cmds name j \<Longrightarrow> i = j"
  using lastMatching_pass [of t cmds name i "cmds ! i"] lastMatching_pass [of t cmds name j "cmds ! j"] by simp

lemma latest_pass_ex: "latest_pass t cmds name i \<Longrightarrow> (\<exists>j. latest_pass t cmds name j \<and> Q j) \<longleftrightarrow> Q i"
  using latest_pass_unique by blast

lemma target_loop_spec:
  assumes "target_loop t cmds snap redIdx rs (ok, l, reasons) = (ok', l', reasons')"
  shows "(ok' \<longleftrightarrow> ok \<and> list_all (\<lambda>r. is_target r \<longrightarrow> target_good t cmds snap redIdx r) rs)
     \<and> (ok' \<longrightarrow> (\<forall>x. l' < x \<longleftrightarrow> l < x \<and> list_all (\<lambda>r. is_target r \<longrightarrow> (\<exists>i. latest_pass t cmds (rc_name r) i \<and> int i < x)) rs))"
  using assms
proof (induction rs arbitrary: ok l reasons)
  case (Cons r rs)
  show ?case
  proof (cases "is_target r")
    case False
    then have "rc_name r = ''harness'' \<or> rc_expect r \<noteq> ''pass''" by (auto simp: is_target_def)
    then show ?thesis using Cons.IH [of ok l reasons] Cons.prems False by auto
  next
    case True
    then have nt: "\<not> (rc_name r = ''harness'' \<or> rc_expect r \<noteq> ''pass'')" by (auto simp: is_target_def)
    have bad: ?thesis if ng: "\<not> target_good t cmds snap redIdx r" and tl: "\<exists>rsn. target_loop t cmds snap redIdx rs (False, l, rsn) = (ok', l', reasons')"
    proof -
      obtain rsn where "target_loop t cmds snap redIdx rs (False, l, rsn) = (ok', l', reasons')" using tl by blast
      from Cons.IH [OF this] show ?thesis using ng True by simp
    qed
    show ?thesis
    proof (cases "lastMatching t cmds (rc_name r) (Some True)")
      case None
      then have "\<not> latest_pass t cmds (rc_name r) i" for i by (metis lastMatching_pass option.distinct(1))
      then have "\<not> target_good t cmds snap redIdx r" by (simp add: target_good_def)
      moreover have "\<exists>rsn. target_loop t cmds snap redIdx rs (False, l, rsn) = (ok', l', reasons')"
        using Cons.prems nt None by (simp add: nt) blast
      ultimately show ?thesis by (rule bad)
    next
      case (Some p)
      then obtain i c where m: "lastMatching t cmds (rc_name r) (Some True) = Some (i, c)" by (cases p) simp
      then have lp: "latest_pass t cmds (rc_name r) i" "c = cmds ! i" by (simp_all add: lastMatching_pass)
      have good: "target_good t cmds snap redIdx r \<longleftrightarrow> bound_to snap c \<and> \<not> (tk_security_sensitive t \<and> redIdx \<ge> 0 \<and> int i \<le> redIdx)"
        unfolding target_good_def latest_pass_ex [OF lp(1)] lp(2) by (rule refl)
      show ?thesis
      proof (cases "target_good t cmds snap redIdx r")
        case False
        moreover have "\<exists>rsn. target_loop t cmds snap redIdx rs (False, l, rsn) = (ok', l', reasons')"
          using Cons.prems nt m good False by (simp add: bound_to_def split: if_split_asm) blast+
        ultimately show ?thesis by (rule bad)
      next
        case g: True
        then have n: "target_loop t cmds snap redIdx rs (ok, max l (int i), reasons) = (ok', l', reasons')"
          using Cons.prems nt m good by (auto simp: bound_to_def)
        have "(\<exists>j. latest_pass t cmds (rc_name r) j \<and> int j < x) \<longleftrightarrow> int i < x" for x
          by (rule latest_pass_ex [OF lp(1)])
        then show ?thesis using Cons.IH [OF n] True g by auto
      qed
    qed
  qed
qed auto


lemma review_stage_iff:
  "fst (review_stage t digest specPass reviews snap st) = SecurityReviewed \<longleftrightarrow>
     st = SecurityReviewed \<or> (st = HarnessVerified \<and> (\<exists>v. latestJournalReview reviews t digest = Some v \<and> rv_passed v
        \<and> rv_head v = sn_head snap \<and> rv_digest v = sn_digest snap \<and> rv_base v = sn_base snap
        \<and> \<not> (specRegime t \<and> (case specPass of None \<Rightarrow> False | Some p \<Rightarrow> rv_sequence v \<le> rv_sequence p))))"
proof (cases "latestJournalReview reviews t digest")
  case (Some v)
  then have "rv_phase v \<noteq> ''spec''" "\<not> (specRegime t \<and> (rv_contract_digest v \<noteq> digest \<or> rv_spec_revision v \<noteq> tk_spec_revision t))"
    unfolding latestJournalReview_def Let_def by (auto dest!: find_SomeD)
  then show ?thesis using Some
    by (cases "st = HarnessVerified"; cases "rv_passed v"; cases "rv_head v \<noteq> sn_head snap \<or> rv_digest v \<noteq> sn_digest snap \<or> rv_base v \<noteq> sn_base snap")
       (auto simp: review_stage_def)
qed (simp add: review_stage_def)

lemma harness_stage_iff:
  "fst (harness_stage t cmds snap l) = HarnessVerified \<longleftrightarrow>
     (\<exists>h. latest_pass t cmds ''harness'' h \<and> bound_to snap (cmds ! h) \<and> l < int h)"
proof (cases "lastMatching t cmds ''harness'' (Some True)")
  case None
  then have "\<not> latest_pass t cmds ''harness'' h" for h using lastMatching_pass by (metis option.distinct(1))
  then show ?thesis using None by (simp add: harness_stage_def)
next
  case (Some p)
  then obtain h c where m: "lastMatching t cmds ''harness'' (Some True) = Some (h, c)" by (cases p) simp
  then have lp: "latest_pass t cmds ''harness'' h" and c: "c = cmds ! h" by (simp_all add: lastMatching_pass)
  show ?thesis unfolding latest_pass_ex [OF lp]
    by (simp add: harness_stage_def m bound_to_def c)
qed

lemma harness_stage_cases: "fst (harness_stage t cmds snap l) = HarnessVerified \<or> fst (harness_stage t cmds snap l) = TargetVerified"
  by (auto simp: harness_stage_def split: option.splits prod.splits)

lemma gated_status_iff:
  assumes "list_ex is_target (tk_commands t)" and "st0 = Specified \<or> st0 = SpecReviewed"
  shows "fst (gated_status t digest specPass cmds scope reviews snap st0 reasons0) = SecurityReviewed \<longleftrightarrow>
     (tk_security_sensitive t \<longrightarrow> red_index t specPass cmds \<ge> 0)
     \<and> sc_pass scope
     \<and> (\<exists>h. latest_pass t cmds ''harness'' h \<and> bound_to snap (cmds ! h)
          \<and> list_all (\<lambda>r. is_target r \<longrightarrow> (\<exists>i. latest_pass t cmds (rc_name r) i \<and> bound_to snap (cmds ! i) \<and> red_index t specPass cmds < int i \<and> i < h)) (tk_commands t))
     \<and> (\<exists>v. latestJournalReview reviews t digest = Some v \<and> rv_passed v
          \<and> rv_head v = sn_head snap \<and> rv_digest v = sn_digest snap \<and> rv_base v = sn_base snap
          \<and> \<not> (specRegime t \<and> (case specPass of None \<Rightarrow> False | Some p \<Rightarrow> rv_sequence v \<le> rv_sequence p)))"
    (is "?L \<longleftrightarrow> ?sens \<and> sc_pass scope \<and> ?harness \<and> ?review")
proof -
  define red where "red = red_index t specPass cmds"
  obtain st1 reasons1 where s1: "(if \<not> tk_security_sensitive t then (st0, reasons0)
       else if red \<ge> 0 then (FailureReproduced, reasons0 @ [''red_failure_recorded''])
       else (st0, reasons0 @ [if specPass \<noteq> None then ''red_failure_stale_or_missing'' else ''red_failure_missing''])) = (st1, reasons1)"
    by fastforce
  then have st1: "st1 \<noteq> TargetVerified" "st1 \<noteq> HarnessVerified" "st1 \<noteq> SecurityReviewed" using assms(2) by (auto split: if_splits)
  obtain ok l reasons3 where tl: "target_loop t cmds snap red (tk_commands t)
      (sc_pass scope \<and> \<not> (tk_security_sensitive t \<and> red < 0), - 1, if sc_pass scope then reasons1 else reasons1 @ [''scope_not_pass'']) = (ok, l, reasons3)"
    by (rule prod_cases3)
  have gated: "gated_status t digest specPass cmds scope reviews snap st0 reasons0 =
      (let (st2, reasons4) = (if ok \<and> l \<ge> 0 then (TargetVerified, reasons3 @ [''scope_and_targets_pass'']) else (st1, reasons3));
           (st3, reasons5) = (if st2 = TargetVerified then (case harness_stage t cmds snap l of (s, reason) \<Rightarrow> (s, reasons4 @ [reason])) else (st2, reasons4));
           (st4, more) = review_stage t digest specPass reviews snap st3
       in (st4, reasons5 @ more))"
    unfolding gated_status_def Let_def red_def [symmetric] s1 prod.case tl by (rule refl)
  note spec = target_loop_spec [OF tl]
  have ok: "ok \<longleftrightarrow> sc_pass scope \<and> (tk_security_sensitive t \<longrightarrow> red \<ge> 0) \<and> list_all (\<lambda>r. is_target r \<longrightarrow> target_good t cmds snap red r) (tk_commands t)"
    using conjunct1 [OF spec] by (simp add: not_less)
  have l: "l < x \<longleftrightarrow> - 1 < x \<and> list_all (\<lambda>r. is_target r \<longrightarrow> (\<exists>i. latest_pass t cmds (rc_name r) i \<and> int i < x)) (tk_commands t)" if ok for x
    using conjunct2 [OF spec] that by blast
  have l0: "l \<ge> 0" if ok
  proof (rule ccontr)
    assume "\<not> l \<ge> 0"
    then have "l < 0" by simp
    then show False using l [OF that, of 0] assms(1) by (auto simp: list_all_iff list_ex_iff)
  qed
  have "?L \<longleftrightarrow> ok \<and> fst (harness_stage t cmds snap l) = HarnessVerified \<and> ?review"
  proof (cases ok)
    case True
    obtain s reason where h: "harness_stage t cmds snap l = (s, reason)" by (metis surj_pair)
    then have "s \<noteq> SecurityReviewed" using harness_stage_cases [of t cmds snap l] by auto
    then show ?thesis unfolding gated using True l0 h review_stage_iff [of t digest specPass reviews snap s]
      by (simp add: split_def Let_def)
  next
    case False
    then show ?thesis unfolding gated using st1 review_stage_iff [of t digest specPass reviews snap st1]
      by (simp add: split_def Let_def)
  qed
  also have "\<dots> \<longleftrightarrow> ?sens \<and> sc_pass scope \<and> ?harness \<and> ?review"
  proof -
    have neg: "red_index t specPass cmds = - 1 \<or> tk_security_sensitive t" by (simp add: red_index_def)
    have tg: "target_good t cmds snap red r \<and> (\<exists>i. latest_pass t cmds (rc_name r) i \<and> int i < int h) \<longleftrightarrow>
        (\<exists>i. latest_pass t cmds (rc_name r) i \<and> bound_to snap (cmds ! i) \<and> red < int i \<and> i < h)"
      if "tk_security_sensitive t \<longrightarrow> red \<ge> 0" for r h
    proof -
      have r: "(\<not> (tk_security_sensitive t \<and> red \<ge> 0 \<and> int i \<le> red)) = (red < int i)" for i
        using neg that by (auto simp: red_def)
      show ?thesis
      proof (cases "\<exists>i. latest_pass t cmds (rc_name r) i")
        case True
        then obtain i where lp: "latest_pass t cmds (rc_name r) i" by blast
        show ?thesis unfolding target_good_def r latest_pass_ex [OF lp] by simp
      qed (simp add: target_good_def)
    qed
    have "ok \<and> fst (harness_stage t cmds snap l) = HarnessVerified \<longleftrightarrow> ?sens \<and> sc_pass scope \<and> ?harness"
    proof (cases "tk_security_sensitive t \<longrightarrow> red \<ge> 0")
      case True
      have "ok \<and> (\<exists>h. latest_pass t cmds ''harness'' h \<and> bound_to snap (cmds ! h) \<and> l < int h) \<longleftrightarrow>
          sc_pass scope \<and> (\<exists>h. latest_pass t cmds ''harness'' h \<and> bound_to snap (cmds ! h)
            \<and> list_all (\<lambda>r. is_target r \<longrightarrow> target_good t cmds snap red r \<and> (\<exists>i. latest_pass t cmds (rc_name r) i \<and> int i < int h)) (tk_commands t))"
        using ok l True by (auto simp: list_all_iff)
      then show ?thesis using True tg [OF True] unfolding harness_stage_iff by (simp add: red_def)
    qed (use ok in \<open>auto simp: red_def\<close>)
    then show ?thesis by blast
  qed
  finally show ?thesis .
qed

lemma no_error:
  "(if b then [x] else []) = [] \<longleftrightarrow> \<not> b" "(if b then [] else [x]) = [] \<longleftrightarrow> b"
  "(if b then [x] else if c then [y] else []) = [] \<longleftrightarrow> \<not> b \<and> \<not> c" "(if b then xs else []) = [] \<longleftrightarrow> (b \<longrightarrow> xs = [])"
  by simp_all

lemma argv_errors_Nil: "argv_errors i argv = [] \<longleftrightarrow> argv \<noteq> [] \<and> [] \<notin> set (map trim_space argv)"
proof -
  have "concat (map (\<lambda>(j, a). if trim_space a = [] then [f j] else []) (enumerate n argv)) = [] \<longleftrightarrow> [] \<notin> set (map trim_space argv)"
    for f :: "nat \<Rightarrow> string" and n
    by (induction argv arbitrary: n) auto
  then show ?thesis unfolding argv_errors_def append_is_Nil_conv no_error by simp
qed

definition command_ok :: "req_cmd \<Rightarrow> bool" where
  "command_ok c \<longleftrightarrow> rc_name c \<noteq> [] \<and> (rc_expect c = ''pass'' \<or> rc_expect c = ''fail'') \<and> rc_argv c \<noteq> [] \<and> [] \<notin> set (map trim_space (rc_argv c))"

lemma command_errors_Nil:
  "command_errors i seen cs = [] \<longleftrightarrow> list_all command_ok cs \<and> distinct (map rc_name cs) \<and> set (map rc_name cs) \<inter> set seen = {}"
proof (induction cs arbitrary: i seen)
  case (Cons c cs)
  show ?case unfolding command_errors.simps append_is_Nil_conv no_error argv_errors_Nil Cons.IH
    by (auto simp: command_ok_def [of c])
qed simp

definition class_ok :: "attack_class \<Rightarrow> bool" where
  "class_ok a \<longleftrightarrow> trim_space (ac_id a) \<noteq> [] \<and> trim_space (ac_failure_class a) \<noteq> [] \<and> trim_space (ac_expected a) \<noteq> []"

lemma class_errors_Nil:
  "class_errors i seen as = [] \<longleftrightarrow> list_all class_ok as \<and> distinct (map (trim_space \<circ> ac_failure_class) as)
     \<and> set (map (trim_space \<circ> ac_failure_class) as) \<inter> set seen = {}"
proof (induction as arbitrary: i seen)
  case (Cons a as)
  show ?case unfolding class_errors.simps Let_def append_is_Nil_conv no_error Cons.IH by (auto simp: class_ok_def [of a] comp_def)
qed simp

lemma excluded_errors_Nil: "excluded_errors cs = [] \<longleftrightarrow> list_all (\<lambda>c. argvTouchesExcludedLocalState (rc_argv c) = []) cs"
proof -
  have "concat (map (\<lambda>(i, c). let hit = argvTouchesExcludedLocalState (rc_argv c) in if hit \<noteq> [] then [f i hit] else []) (enumerate n cs)) = []
      \<longleftrightarrow> list_all (\<lambda>c. argvTouchesExcludedLocalState (rc_argv c) = []) cs" for f :: "nat \<Rightarrow> string \<Rightarrow> string" and n
    by (induction cs arbitrary: n) (auto simp: Let_def)
  then show ?thesis by (simp add: excluded_errors_def)
qed

text \<open>The contract that ValidateTask enforces, as one predicate on the normalized task.\<close>

definition task_ok :: "wf_task \<Rightarrow> bool" where
  "task_ok t \<longleftrightarrow>
     trim_space (tk_task_id t) \<noteq> [] \<and> validTaskID (tk_task_id t) \<and> clean (tk_invariant_ids t) \<noteq> [] \<and> clean (tk_allowed_paths t) \<noteq> []
     \<and> tk_max_attempts t \<ge> 1
     \<and> list_all command_ok (tk_commands t) \<and> distinct (map rc_name (tk_commands t))
     \<and> list_ex (\<lambda>c. rc_name c = ''harness'' \<and> rc_expect c = ''pass'') (tk_commands t) \<and> list_ex is_target (tk_commands t)
     \<and> list_all (\<lambda>c. argvTouchesExcludedLocalState (rc_argv c) = []) (tk_commands t)
     \<and> (tk_security_sensitive t \<longrightarrow> tk_spec_revision t \<ge> 1 \<and> list_ex (\<lambda>c. rc_expect c = ''fail'') (tk_commands t)
          \<and> tk_attack_classes t \<noteq> [] \<and> clean (tk_non_goals t) \<noteq> []
          \<and> list_all class_ok (tk_attack_classes t) \<and> distinct (map (trim_space \<circ> ac_failure_class) (tk_attack_classes t)))
     \<and> trim_space (tk_security_problem t) \<noteq> [] \<and> trim_space (tk_required_behavior t) \<noteq> [] \<and> trim_space (tk_failure_behavior t) \<noteq> []"

lemma task_errors_Nil: "task_errors t = [] \<longleftrightarrow> task_ok t"
proof -
  have e: "list_ex is_target (tk_commands t) = list_ex (\<lambda>c. rc_name c \<noteq> ''harness'' \<and> rc_expect c = ''pass'') (tk_commands t)"
    by (simp add: is_target_def [abs_def])
  have ne: "list_ex is_target (tk_commands t) \<Longrightarrow> tk_commands t \<noteq> []" by auto
  show ?thesis
    unfolding task_errors_def append_is_Nil_conv no_error command_errors_Nil regime_errors_def class_errors_Nil excluded_errors_Nil
      task_ok_def e [symmetric] specRegime_def
    using ne by (auto simp: not_less not_le)
qed

lemma ValidateTask_iff: "ValidateTask task = Inr t \<longleftrightarrow> t = normalize_task task \<and> task_ok t"
  by (auto simp: ValidateTask_def Let_def task_errors_Nil)

lemma validated_task:
  assumes "ValidateTask task = Inr t"
  shows "list_ex is_target (tk_commands t)" and "tk_security_sensitive t \<longleftrightarrow> specRegime t"
  using assms unfolding ValidateTask_iff task_ok_def specRegime_def by blast+

lemma find_first_index:
  "find (\<lambda>(i, c). P c) (enumerate k xs) = (if \<exists>j<length xs. P (xs ! j) then (let j = (LEAST j. j < length xs \<and> P (xs ! j)) in Some (k + j, xs ! j)) else None)"
proof (induction xs arbitrary: k)
  case (Cons x xs)
  show ?case
  proof (cases "P x")
    case True
    then have "(LEAST j. j < length (x # xs) \<and> P ((x # xs) ! j)) = 0" by (intro Least_eq_0) simp
    moreover have "\<exists>j<length (x # xs). P ((x # xs) ! j)" using True by auto
    ultimately show ?thesis using True by (simp add: Let_def)
  next
    case False
    have ex: "(\<exists>j<length (x # xs). P ((x # xs) ! j)) \<longleftrightarrow> (\<exists>j<length xs. P (xs ! j))"
      using False by (auto simp: less_Suc_eq_0_disj)
    show ?thesis
    proof (cases "\<exists>j<length xs. P (xs ! j)")
      case True
      then obtain n where "n < length xs \<and> P (xs ! n)" by blast
      then have "(LEAST j. j < length (x # xs) \<and> P ((x # xs) ! j)) = Suc (LEAST j. j < length xs \<and> P (xs ! j))"
        using False Least_Suc [of "\<lambda>j. j < length (x # xs) \<and> P ((x # xs) ! j)" "Suc n"] by simp
      then show ?thesis using Cons.IH [of "Suc k"] False True ex by (simp add: Let_def)
    next
      case no: False
      have "find (\<lambda>(i, c). P c) (enumerate (Suc k) xs) = None" unfolding Cons.IH using no by auto
      then show ?thesis using False no ex by auto
    qed
  qed
qed simp

lemma red_index_before:
  assumes "tk_security_sensitive t"
  shows "(red_index t specPass cmds \<ge> 0 \<and> (\<forall>i\<in>I. red_index t specPass cmds < int i)) \<longleftrightarrow>
     (\<exists>k<length cmds. red_record t specPass (cmds ! k) \<and> (\<forall>i\<in>I. k < i))"
proof (cases "\<exists>j<length cmds. red_record t specPass (cmds ! j)")
  case True
  define m where "m = (LEAST j. j < length cmds \<and> red_record t specPass (cmds ! j))"
  have m: "m < length cmds" "red_record t specPass (cmds ! m)"
    using LeastI_ex [of "\<lambda>j. j < length cmds \<and> red_record t specPass (cmds ! j)"] True unfolding m_def by blast+
  have least: "m \<le> k" if "k < length cmds" "red_record t specPass (cmds ! k)" for k
    unfolding m_def using that by (simp add: Least_le)
  have r: "red_index t specPass cmds = int m"
    using assms True by (simp add: red_index_def find_first_index Let_def m_def)
  show ?thesis unfolding r using m least by (auto intro: le_less_trans)
next
  case False
  then have "find (\<lambda>(i, c). red_record t specPass c) (enumerate 0 cmds) = None" unfolding find_first_index by auto
  then have "red_index t specPass cmds = - 1" by (simp add: red_index_def)
  then show ?thesis using False by auto
qed

definition spec_cycle :: "wf_task \<Rightarrow> string \<Rightarrow> review_artifact list \<Rightarrow> command_record list \<Rightarrow> review_artifact \<Rightarrow> int \<Rightarrow> bool" where
  "spec_cycle t digest reviews cmds v red \<longleftrightarrow>
     (if tk_security_sensitive t
      then \<exists>p k. currentSpecPass reviews digest (tk_spec_revision t) = Some p \<and> rv_sequence p < rv_sequence v
             \<and> k < length cmds \<and> red_record t (Some p) (cmds ! k) \<and> red = int k
      else red = - 1)"

definition verified_targets :: "wf_task \<Rightarrow> command_record list \<Rightarrow> snapshot \<Rightarrow> int \<Rightarrow> nat \<Rightarrow> bool" where
  "verified_targets t cmds snap red h \<longleftrightarrow>
     list_all (\<lambda>r. is_target r \<longrightarrow> (\<exists>i. latest_pass t cmds (rc_name r) i \<and> bound_to snap (cmds ! i) \<and> red < int i \<and> i < h)) (tk_commands t)"

definition passing_review :: "wf_task \<Rightarrow> string \<Rightarrow> review_artifact list \<Rightarrow> snapshot \<Rightarrow> review_artifact \<Rightarrow> bool" where
  "passing_review t digest reviews snap v \<longleftrightarrow> latestJournalReview reviews t digest = Some v \<and> rv_passed v
     \<and> rv_head v = sn_head snap \<and> rv_digest v = sn_digest snap \<and> rv_base v = sn_base snap"

definition target_indices :: "wf_task \<Rightarrow> command_record list \<Rightarrow> snapshot \<Rightarrow> nat \<Rightarrow> nat set" where
  "target_indices t cmds snap h =
     {i. \<exists>r\<in>set (tk_commands t). is_target r \<and> latest_pass t cmds (rc_name r) i \<and> bound_to snap (cmds ! i) \<and> i < h}"

lemma verified_targets_before:
  "verified_targets t cmds snap red h \<longleftrightarrow>
     list_all (\<lambda>r. is_target r \<longrightarrow> (\<exists>i. latest_pass t cmds (rc_name r) i \<and> bound_to snap (cmds ! i) \<and> i < h)) (tk_commands t)
     \<and> (\<forall>i\<in>target_indices t cmds snap h. red < int i)"
proof -
  have one: "(\<exists>i. latest_pass t cmds n i \<and> bound_to snap (cmds ! i) \<and> red < int i \<and> i < h) \<longleftrightarrow>
      (\<exists>i. latest_pass t cmds n i \<and> bound_to snap (cmds ! i) \<and> i < h) \<and> (\<forall>i. latest_pass t cmds n i \<and> bound_to snap (cmds ! i) \<and> i < h \<longrightarrow> red < int i)" for n
    using latest_pass_unique [of t cmds n] by metis
  show ?thesis unfolding verified_targets_def one target_indices_def list_all_iff by blast
qed

lemma spec_cycle_targets:
  assumes "tk_security_sensitive t" and "currentSpecPass reviews digest (tk_spec_revision t) = Some p"
  shows "(red_index t (Some p) cmds \<ge> 0 \<and> verified_targets t cmds snap (red_index t (Some p) cmds) h \<and> rv_sequence p < rv_sequence v) \<longleftrightarrow>
     (\<exists>red. spec_cycle t digest reviews cmds v red \<and> verified_targets t cmds snap red h)"
proof -
  have "(\<exists>red. spec_cycle t digest reviews cmds v red \<and> verified_targets t cmds snap red h) \<longleftrightarrow>
      rv_sequence p < rv_sequence v \<and> (\<exists>k<length cmds. red_record t (Some p) (cmds ! k) \<and> verified_targets t cmds snap (int k) h)"
    using assms by (auto simp: spec_cycle_def)
  then show ?thesis unfolding verified_targets_before
    using red_index_before [OF assms(1), of "Some p" cmds "target_indices t cmds snap h"] by auto
qed


text \<open>A security-sensitive task with its complete evidence.\<close>

definition demo_wf_lib :: wf_lib where
  "demo_wf_lib = \<lparr>wl_marshal_task = (\<lambda>t. Inr (tk_task_id t)), wl_sha256_hex = (\<lambda>s. ''d:'' @ s)\<rparr>"

definition demo_task :: wf_task where
  "demo_task =
     \<lparr>tk_task_id = ''t1'', tk_invariant_ids = [''I1''], tk_security_sensitive = True, tk_security_problem = ''p'', tk_required_behavior = ''r'',
      tk_failure_behavior = ''f'', tk_allowed_paths = [''a''], tk_approval_gated = [], tk_max_attempts = 2,
      tk_commands = [\<lparr>rc_name = ''red'', rc_expect = ''fail'', rc_argv = [''x'']\<rparr>, \<lparr>rc_name = ''green'', rc_expect = ''pass'', rc_argv = [''y'']\<rparr>,
        \<lparr>rc_name = ''harness'', rc_expect = ''pass'', rc_argv = [''h'']\<rparr>],
      tk_spec_revision = 1, tk_non_goals = [''n''], tk_attack_classes = [\<lparr>ac_id = ''A'', ac_failure_class = ''c'', ac_expected = ''e''\<rparr>]\<rparr>"

definition wf_demo_run :: "string \<Rightarrow> string \<Rightarrow> int \<Rightarrow> command_record" where
  "wf_demo_run name arg code = \<lparr>cr_name = name, cr_args = [arg], cr_exit = code, cr_source = ''executed'', cr_base = ''b'', cr_head = ''h'',
     cr_digest = ''w'', cr_log_path = [], cr_recorded = 0, cr_spec_sequence = 1\<rparr>"

definition demo_review :: "string \<Rightarrow> int \<Rightarrow> review_artifact" where
  "demo_review phase seqno = \<lparr>rv_passed = True, rv_phase = phase, rv_findings = [], rv_failure_classes = [], rv_spec_revision = 1,
     rv_contract_digest = ''d:t1'', rv_covered = [''c''], rv_counterexamples = [''k''], rv_reviewer = [], rv_notes = [],
     rv_head = ''h'', rv_digest = ''w'', rv_base = ''b'', rv_sequence = seqno, rv_recorded = 0\<rparr>"

definition demo_scope :: scope_result where
  "demo_scope = \<lparr>sc_base = ''b'', sc_changed = [], sc_out_of_scope = [], sc_approval_gated = [], sc_pass = True, sc_dirty = []\<rparr>"

lemma demo_task_reviewed:
  "fst (DeriveStatus demo_wf_lib demo_task [wf_demo_run ''red'' ''x'' 1, wf_demo_run ''green'' ''y'' 0, wf_demo_run ''harness'' ''h'' 0] demo_scope
     [demo_review ''spec'' 1, demo_review ''implementation'' 2] \<lparr>sn_base = ''b'', sn_head = ''h'', sn_digest = ''w''\<rparr>) = SecurityReviewed"
  by code_simp

lemma demo_task_unproven:
  "fst (DeriveStatus demo_wf_lib demo_task [wf_demo_run ''green'' ''y'' 0, wf_demo_run ''red'' ''x'' 1, wf_demo_run ''harness'' ''h'' 0] demo_scope
     [demo_review ''spec'' 1, demo_review ''implementation'' 2] \<lparr>sn_base = ''b'', sn_head = ''h'', sn_digest = ''w''\<rparr>) = FailureReproduced"
  by code_simp

end
