(* ===== verification/Workflow_Journal.thy ===== *)
theory Workflow_Journal
  imports Workflow_Status
begin

text \<open>
  The supervised-workflow tool (\<^verbatim>\<open>src/internal/workflow/workflow.go\<close>), second part: the check for
  duplicate keys in a JSON document and the loading of the review journal. The decoders are parameters:
  a document is given by the tokens of the streaming decoder and by the result of the strict one.
\<close>

section \<open>Duplicate keys in a JSON document\<close>

text \<open>The tokens of Go's JSON decoder; commas and colons are consumed by the decoder. When the tokens run
  out the decoder reports an error, which is a parameter.\<close>

datatype json_token = TDelim char | TString string | TScalar

text \<open>\<^verbatim>\<open>dec.More\<close>: is there another element before the closing delimiter?\<close>

definition has_more :: "json_token list \<Rightarrow> bool" where
  "has_more toks = (case toks of TDelim c # _ \<Rightarrow> c \<noteq> CHR '']'' \<and> c \<noteq> CHR 0x7D | _ \<Rightarrow> True)"

definition next_token :: "string \<Rightarrow> json_token list \<Rightarrow> string + json_token \<times> json_token list" where
  "next_token eof toks = (case toks of [] \<Rightarrow> Inl eof | t # ts \<Rightarrow> Inr (t, ts))"

text \<open>The recursion of \<^verbatim>\<open>rejectDuplicateJSONKeysDec\<close>, its loop over members and its loop over elements. The
  fuel bounds the number of calls; it is the number of tokens, and each call consumes one.\<close>

fun reject_value :: "nat \<Rightarrow> string \<Rightarrow> json_token list \<Rightarrow> string + json_token list"
  and reject_members :: "nat \<Rightarrow> string \<Rightarrow> string list \<Rightarrow> json_token list \<Rightarrow> string + json_token list"
  and reject_elements :: "nat \<Rightarrow> string \<Rightarrow> json_token list \<Rightarrow> string + json_token list" where
  "reject_value 0 eof toks = Inl ''out of fuel''"
| "reject_value (Suc n) eof toks =
     (case next_token eof toks of
        Inl err \<Rightarrow> Inl err
      | Inr (TDelim c, ts) \<Rightarrow>
          if c = CHR 0x7B then reject_members n eof [] ts
          else if c = CHR ''['' then reject_elements n eof ts
          else Inl (''unexpected JSON delimiter '' @ [c])
      | Inr (_, ts) \<Rightarrow> Inr ts)"
| "reject_members 0 eof seen toks = Inl ''out of fuel''"
| "reject_members (Suc n) eof seen toks =
     (if toks \<noteq> [] \<and> has_more toks then
        (case next_token eof toks of
           Inl err \<Rightarrow> Inl err
         | Inr (TString key, ts) \<Rightarrow>
             if key \<in> set seen then Inl (''duplicate JSON key '' @ go_quote key)
             else (case reject_value n eof ts of Inl err \<Rightarrow> Inl err | Inr rest \<Rightarrow> reject_members n eof (key # seen) rest)
         | Inr (_, ts) \<Rightarrow> Inl ''expected JSON object key'')
      else map_sum id snd (next_token eof toks))"
| "reject_elements 0 eof toks = Inl ''out of fuel''"
| "reject_elements (Suc n) eof toks =
     (if toks \<noteq> [] \<and> has_more toks then
        (case reject_value n eof toks of Inl err \<Rightarrow> Inl err | Inr rest \<Rightarrow> reject_elements n eof rest)
      else map_sum id snd (next_token eof toks))"

definition rejectDuplicateJSONKeys :: "string \<Rightarrow> json_token list \<Rightarrow> string option" where
  "rejectDuplicateJSONKeys eof toks = (case reject_value (Suc (length toks)) eof toks of Inl err \<Rightarrow> Some err | Inr _ \<Rightarrow> None)"

text \<open>The specification: the tokens of a value, and a value in which no object repeats a key.\<close>

fun tokens_of :: "json \<Rightarrow> json_token list" where
  "tokens_of JNull = [TScalar]"
| "tokens_of (JBool b) = [TScalar]"
| "tokens_of (JNum q) = [TScalar]"
| "tokens_of (JStr s) = [TString s]"
| "tokens_of (JArr vs) = TDelim (CHR ''['') # concat (map tokens_of vs) @ [TDelim (CHR '']'')]"
| "tokens_of (JObj ms) = TDelim (CHR 0x7B) # concat (map (\<lambda>(k, v). TString k # tokens_of v) ms) @ [TDelim (CHR 0x7D)]"

fun keys_distinct :: "json \<Rightarrow> bool" where
  "keys_distinct (JArr vs) = list_all keys_distinct vs"
| "keys_distinct (JObj ms) = (distinct (map fst ms) \<and> list_all (\<lambda>(k, v). keys_distinct v) ms)"
| "keys_distinct _ = True"

lemma tokens_of_start: "\<exists>t ts. tokens_of v = t # ts \<and> (\<forall>us. has_more (t # us))"
  by (cases v) (auto simp: has_more_def)

lemma more_value: "tokens_of v @ us \<noteq> [] \<and> has_more (tokens_of v @ us)"
proof -
  obtain t ts where "tokens_of v = t # ts" "\<forall>us. has_more (t # us)" using tokens_of_start by blast
  then show ?thesis by simp
qed

definition value_checked :: "string \<Rightarrow> json \<Rightarrow> bool" where
  "value_checked eof v \<longleftrightarrow> (\<forall>n us. n > length (tokens_of v) \<longrightarrow>
     (if keys_distinct v then reject_value n eof (tokens_of v @ us) = Inr us else isl (reject_value n eof (tokens_of v @ us))))"

lemma reject_members_loop:
  assumes "list_all (\<lambda>(k, v). value_checked eof v) ms"
    and "n > Suc (length (concat (map (\<lambda>(k, v). TString k # tokens_of v) ms)))"
  shows "if distinct (map fst ms) \<and> set (map fst ms) \<inter> set seen = {} \<and> list_all (\<lambda>(k, v). keys_distinct v) ms
     then reject_members n eof seen (concat (map (\<lambda>(k, v). TString k # tokens_of v) ms) @ TDelim (CHR 0x7D) # us) = Inr us
     else isl (reject_members n eof seen (concat (map (\<lambda>(k, v). TString k # tokens_of v) ms) @ TDelim (CHR 0x7D) # us))"
  using assms
proof (induction ms arbitrary: n seen)
  case Nil
  then obtain m where "n = Suc m" by (cases n) auto
  then show ?case by (simp add: has_more_def next_token_def)
next
  case (Cons kv ms)
  obtain k v where kv: "kv = (k, v)" by (cases kv)
  obtain m where n: "n = Suc m" using Cons.prems(2) by (cases n) auto
  define rest where "rest = concat (map (\<lambda>(k, v). TString k # tokens_of v) ms) @ TDelim (CHR 0x7D) # us"
  have step: "reject_members n eof seen (concat (map (\<lambda>(k, v). TString k # tokens_of v) (kv # ms)) @ TDelim (CHR 0x7D) # us) =
      (if k \<in> set seen then Inl (''duplicate JSON key '' @ go_quote k)
       else case reject_value m eof (tokens_of v @ rest) of Inl err \<Rightarrow> Inl err | Inr r \<Rightarrow> reject_members m eof (k # seen) r)"
    by (simp add: kv n has_more_def next_token_def rest_def)
  have v: "if keys_distinct v then reject_value m eof (tokens_of v @ rest) = Inr rest else isl (reject_value m eof (tokens_of v @ rest))"
    using Cons.prems kv n by (simp add: value_checked_def)
  have ms: "if distinct (map fst ms) \<and> set (map fst ms) \<inter> set (k # seen) = {} \<and> list_all (\<lambda>(k, v). keys_distinct v) ms
      then reject_members m eof (k # seen) rest = Inr us else isl (reject_members m eof (k # seen) rest)"
    unfolding rest_def by (intro Cons.IH) (use Cons.prems kv n in auto)
  show ?case unfolding step using v ms kv
    by (cases "keys_distinct v"; cases "reject_value m eof (tokens_of v @ rest)") (auto split: if_splits)
qed

lemma reject_elements_loop:
  assumes "list_all (value_checked eof) vs"
    and "n > Suc (length (concat (map tokens_of vs)))"
  shows "if list_all keys_distinct vs
     then reject_elements n eof (concat (map tokens_of vs) @ TDelim (CHR '']'') # us) = Inr us
     else isl (reject_elements n eof (concat (map tokens_of vs) @ TDelim (CHR '']'') # us))"
  using assms
proof (induction vs arbitrary: n)
  case Nil
  then obtain m where "n = Suc m" by (cases n) auto
  then show ?case by (simp add: has_more_def next_token_def)
next
  case (Cons v vs)
  obtain m where n: "n = Suc m" using Cons.prems(2) by (cases n) auto
  define rest where "rest = concat (map tokens_of vs) @ TDelim (CHR '']'') # us"
  have step: "reject_elements n eof (concat (map tokens_of (v # vs)) @ TDelim (CHR '']'') # us) =
      (case reject_value m eof (tokens_of v @ rest) of Inl err \<Rightarrow> Inl err | Inr r \<Rightarrow> reject_elements m eof r)"
    using more_value [of v rest] by (simp add: n rest_def)
  have v: "if keys_distinct v then reject_value m eof (tokens_of v @ rest) = Inr rest else isl (reject_value m eof (tokens_of v @ rest))"
    using Cons.prems n by (simp add: value_checked_def)
  have vs: "if list_all keys_distinct vs then reject_elements m eof rest = Inr us else isl (reject_elements m eof rest)"
    unfolding rest_def by (intro Cons.IH) (use Cons.prems n tokens_of_start [of v] in auto)
  show ?case unfolding step using v vs
    by (cases "keys_distinct v"; cases "reject_value m eof (tokens_of v @ rest)") auto
qed

lemma reject_value_spec: "value_checked eof v"
proof (induction v)
  case (JArr vs)
  have "if list_all keys_distinct vs
     then reject_value n eof (tokens_of (JArr vs) @ us) = Inr us else isl (reject_value n eof (tokens_of (JArr vs) @ us))"
    if len: "n > length (tokens_of (JArr vs))" for n us
  proof -
    obtain m where n: "n = Suc m" using len by (cases n) auto
    have "m > Suc (length (concat (map tokens_of vs)))" using len n by simp
    from reject_elements_loop [OF _ this, of eof us] show ?thesis using JArr by (simp add: n next_token_def list_all_iff)
  qed
  then show ?case unfolding value_checked_def keys_distinct.simps by blast
next
  case (JObj ms)
  have all: "list_all (\<lambda>(k, v). value_checked eof v) ms" using JObj by (auto simp: list_all_iff snds.simps)
  have "if distinct (map fst ms) \<and> list_all (\<lambda>(k, v). keys_distinct v) ms
     then reject_value n eof (tokens_of (JObj ms) @ us) = Inr us else isl (reject_value n eof (tokens_of (JObj ms) @ us))"
    if len: "n > length (tokens_of (JObj ms))" for n us
  proof -
    obtain m where n: "n = Suc m" using len by (cases n) auto
    have "m > Suc (length (concat (map (\<lambda>(k, v). TString k # tokens_of v) ms)))" using len n by simp
    from reject_members_loop [OF all this, of "[]" us] show ?thesis by (simp add: n next_token_def)
  qed
  then show ?case unfolding value_checked_def keys_distinct.simps by blast
qed (auto simp: value_checked_def next_token_def elim!: Suc_lessE)

text \<open>C35: The duplicate-key check terminates on every document and accepts it exactly when no object in it,
  at any depth, repeats a member name; what follows the document is not looked at.
\<close>

theorem duplicate_keys_rejected_iff:
  "rejectDuplicateJSONKeys eof (tokens_of v @ us) = None \<longleftrightarrow> keys_distinct v"
  using reject_value_spec [of eof v, unfolded value_checked_def, rule_format, of "Suc (length (tokens_of v @ us))" us]
  by (cases "reject_value (Suc (length (tokens_of v @ us))) eof (tokens_of v @ us)")
     (auto simp: rejectDuplicateJSONKeys_def split: if_splits)

section \<open>The review journal\<close>

text \<open>\<^verbatim>\<open>strconv.Atoi\<close>: an optional sign, decimal digits, and a value that fits into 64 bits.\<close>

definition atoi :: "string \<Rightarrow> int option" where
  "atoi s =
     (let (neg, ds) = (case s of [] \<Rightarrow> (False, []) | c # cs \<Rightarrow> if c = CHR ''-'' then (True, cs) else if c = CHR ''+'' then (False, cs) else (False, s))
      in if ds = [] \<or> \<not> list_all is_digit_ascii ds then None
         else let n = foldl (\<lambda>v c. 10 * v + (int (byte c) - 48)) 0 ds; v = (if neg then - n else n)
              in if v < - (2 ^ 63) \<or> v > 2 ^ 63 - 1 then None else Some v)"

record dir_entry =
  de_name :: string
  de_is_dir :: bool
  de_content :: "string + string"

datatype dir_read = DirMissing | DirError string | DirEntries "dir_entry list"

record review_lib =
  rl_tokens :: "string \<Rightarrow> json_token list"
  rl_eof :: "string \<Rightarrow> string"
  rl_decode :: "string \<Rightarrow> string + review_artifact \<times> trailing"

definition cut_json :: "string \<Rightarrow> string option" where
  "cut_json name = (if starts_with (rev ''.json'') (rev name) then Some (take (length name - 5) name) else None)"

fun number_entries :: "dir_entry list \<Rightarrow> string + (int \<times> dir_entry) list" where
  "number_entries [] = Inr []"
| "number_entries (e # es) =
     (if de_is_dir e then Inl (''invalid review evidence: unexpected directory '' @ go_quote (de_name e))
      else
        let bad = Inl (''invalid review evidence: file '' @ go_quote (de_name e) @ '' must be named <positive-int>.json'')
        in case cut_json (de_name e) of
             None \<Rightarrow> bad
           | Some stem \<Rightarrow>
               if stem = [] then bad
               else case atoi stem of
                      None \<Rightarrow> bad
                    | Some n \<Rightarrow> if n < 1 then bad
                                else (case number_entries es of Inl err \<Rightarrow> Inl err | Inr fs \<Rightarrow> Inr ((n, e) # fs)))"

fun sequence_error :: "int \<Rightarrow> (int \<times> dir_entry) list \<Rightarrow> string option" where
  "sequence_error i [] = None"
| "sequence_error i ((n, e) # fs) =
     (if n \<noteq> i then Some (''invalid review evidence: expected sequence '' @ itoa i @ '' but found '' @ itoa n @ '' (gap or duplicate)'')
      else sequence_error (i + 1) fs)"

definition load_review :: "wf_lib \<Rightarrow> review_lib \<Rightarrow> wf_task \<Rightarrow> int \<Rightarrow> dir_entry \<Rightarrow> string + review_artifact" where
  "load_review L R t n e =
     (let wrap = (\<lambda>err. Inl (''invalid review evidence '' @ de_name e @ '': '' @ err)) in
      case de_content e of
        Inl err \<Rightarrow> Inl err
      | Inr b \<Rightarrow>
          (case rejectDuplicateJSONKeys (rl_eof R b) (rl_tokens R b) of
             Some err \<Rightarrow> wrap err
           | None \<Rightarrow>
               (case rl_decode R b of
                  Inl err \<Rightarrow> wrap err
                | Inr (r, TrailingValue) \<Rightarrow> wrap ''trailing JSON value''
                | Inr (r, TrailingError err) \<Rightarrow> wrap err
                | Inr (r, TrailingNothing) \<Rightarrow>
                    if rv_sequence r \<noteq> 0 \<and> rv_sequence r \<noteq> n
                    then wrap (''sequence field '' @ itoa (rv_sequence r) @ '' does not match filename '' @ itoa n)
                    else (let r' = r\<lparr>rv_sequence := n\<rparr> in
                          case ValidateReviewArtifact L t r' of Some err \<Rightarrow> wrap err | None \<Rightarrow> Inr r'))))"

fun load_reviews :: "wf_lib \<Rightarrow> review_lib \<Rightarrow> wf_task \<Rightarrow> (int \<times> dir_entry) list \<Rightarrow> string + review_artifact list" where
  "load_reviews L R t [] = Inr []"
| "load_reviews L R t ((n, e) # fs) =
     (case load_review L R t n e of
        Inl err \<Rightarrow> Inl err
      | Inr r \<Rightarrow> (case load_reviews L R t fs of Inl err \<Rightarrow> Inl err | Inr rs \<Rightarrow> Inr (r # rs)))"

definition LoadReviewSequence :: "wf_lib \<Rightarrow> review_lib \<Rightarrow> wf_task \<Rightarrow> dir_read \<Rightarrow> string + review_artifact list" where
  "LoadReviewSequence L R t d =
     (case d of
        DirMissing \<Rightarrow> Inr []
      | DirError err \<Rightarrow> Inl err
      | DirEntries es \<Rightarrow>
          (case number_entries es of
             Inl err \<Rightarrow> Inl err
           | Inr files \<Rightarrow>
               (let sorted_files = sort_key fst files in
                case sequence_error 1 sorted_files of
                  Some err \<Rightarrow> Inl err
                | None \<Rightarrow> load_reviews L R t sorted_files)))"

lemma number_entries_fields:
  "number_entries es = Inr fs \<Longrightarrow> map snd fs = es \<and> list_all (\<lambda>(n, e). \<exists>stem. cut_json (de_name e) = Some stem \<and> atoi stem = Some n) fs"
proof (induction es arbitrary: fs)
  case (Cons e es)
  from Cons.prems obtain stem n gs where "cut_json (de_name e) = Some stem" "atoi stem = Some n" "number_entries es = Inr gs" "fs = (n, e) # gs"
    by (auto simp: Let_def split: if_split_asm option.split_asm sum.split_asm)
  then show ?case using Cons.IH by simp
qed simp

lemma sequence_ok: "sequence_error i fs = None \<longleftrightarrow> map fst fs = map (\<lambda>k. i + int k) [0..<length fs]"
proof (induction fs arbitrary: i)
  case (Cons f fs)
  obtain n e where f: "f = (n, e)" by (cases f)
  have "map (\<lambda>k. i + int k) [0..<length (f # fs)] = i # map (\<lambda>k. i + 1 + int k) [0..<length fs]"
    by (simp add: upt_conv_Cons map_Suc_upt [symmetric] del: upt_Suc)
  then show ?case using Cons.IH [of "i + 1"] f by auto
qed simp

lemma load_review_fields:
  "load_review L R t n e = Inr r \<Longrightarrow> rv_sequence r = n \<and> ValidateReviewArtifact L t r = None
     \<and> (\<exists>b. de_content e = Inr b \<and> rejectDuplicateJSONKeys (rl_eof R b) (rl_tokens R b) = None)"
  by (auto simp: load_review_def Let_def split: sum.split_asm option.split_asm prod.split_asm trailing.split_asm if_split_asm)

lemma load_reviews_fields:
  "load_reviews L R t fs = Inr rs \<Longrightarrow> list_all2 (\<lambda>(n, e) r. load_review L R t n e = Inr r) fs rs"
proof (induction fs arbitrary: rs)
  case (Cons f fs)
  obtain n e where f: "f = (n, e)" by (cases f)
  from Cons.prems obtain r rs' where "load_review L R t n e = Inr r" "load_reviews L R t fs = Inr rs'" "rs = r # rs'"
    by (auto simp: f split: sum.split_asm)
  then show ?case using Cons.IH f by simp
qed simp

lemma list_all2_member: "list_all2 P xs ys \<Longrightarrow> x \<in> set xs \<Longrightarrow> \<exists>y\<in>set ys. P x y"
  by (induction rule: list_all2_induct) auto

lemma loaded_reviews_valid: "list_all (\<lambda>r. ValidateReviewArtifact L t r = None) rs \<longleftrightarrow> review_error L t rs = None"
  by (induction rs) (auto split: option.split)

text \<open>A review journal that loads is complete and gapless: every file of the directory is one review, the
  reviews are numbered 1 to N by their file names in this order, none repeats a JSON key, and each is
  valid against the task, so the status derived from it is never blocked for its reviews.
\<close>

theorem journal_contiguous:
  assumes "LoadReviewSequence L R t (DirEntries es) = Inr rs"
  shows "map rv_sequence rs = map (\<lambda>k. 1 + int k) [0..<length es] \<and> review_error L t rs = None
    \<and> list_all (\<lambda>e. \<exists>r b. r \<in> set rs \<and> de_content e = Inr b \<and> rejectDuplicateJSONKeys (rl_eof R b) (rl_tokens R b) = None
          \<and> (\<exists>stem. cut_json (de_name e) = Some stem \<and> atoi stem = Some (rv_sequence r))) es"
proof (intro conjI)
  obtain fs where n: "number_entries es = Inr fs" using assms by (auto simp: LoadReviewSequence_def split: sum.split_asm)
  define gs where "gs = sort_key fst fs"
  have g: "sequence_error 1 gs = None" "load_reviews L R t gs = Inr rs"
    using assms n by (auto simp: LoadReviewSequence_def Let_def gs_def split: option.split_asm)
  note all = load_reviews_fields [OF g(2)]
  have len: "length gs = length es" using number_entries_fields [OF n] by (metis gs_def length_map length_sort)
  have "list_all2 (\<lambda>(n, e) r. rv_sequence r = n) gs rs"
    using all by (rule list_all2_mono) (auto dest: load_review_fields)
  then have "map rv_sequence rs = map fst gs"
    by (induction rule: list_all2_induct) auto
  then show "map rv_sequence rs = map (\<lambda>k. 1 + int k) [0..<length es]" using g(1) len by (simp add: sequence_ok)
  have "list_all (\<lambda>r. ValidateReviewArtifact L t r = None) rs"
    using all by (auto simp: list_all_iff in_set_conv_nth list_all2_conv_all_nth split_def dest!: load_review_fields)
  then show "review_error L t rs = None" by (simp add: loaded_reviews_valid)
  have "\<exists>r b. r \<in> set rs \<and> de_content e = Inr b \<and> rejectDuplicateJSONKeys (rl_eof R b) (rl_tokens R b) = None
      \<and> (\<exists>stem. cut_json (de_name e) = Some stem \<and> atoi stem = Some (rv_sequence r))" if mem: "e \<in> set es" for e
  proof -
    have "e \<in> set (map snd fs)" using mem number_entries_fields [OF n] by simp
    then obtain k where k: "(k, e) \<in> set fs" by auto
    then have stem: "\<exists>stem. cut_json (de_name e) = Some stem \<and> atoi stem = Some k" using number_entries_fields [OF n] by (auto simp: list_all_iff)
    have "(k, e) \<in> set gs" using k by (simp add: gs_def)
    then obtain r where r: "r \<in> set rs" "load_review L R t k e = Inr r"
      using list_all2_member [OF all] by fastforce
    then show ?thesis using load_review_fields [OF r(2)] stem by auto
  qed
  then show "list_all (\<lambda>e. \<exists>r b. r \<in> set rs \<and> de_content e = Inr b \<and> rejectDuplicateJSONKeys (rl_eof R b) (rl_tokens R b) = None
      \<and> (\<exists>stem. cut_json (de_name e) = Some stem \<and> atoi stem = Some (rv_sequence r))) es" by (simp add: list_all_iff)
qed

definition demo_entry :: "string \<Rightarrow> dir_entry" where
  "demo_entry name = \<lparr>de_name = name, de_is_dir = False, de_content = Inr (take 1 name)\<rparr>"

definition demo_review_lib :: review_lib where
  "demo_review_lib =
     \<lparr>rl_tokens = (\<lambda>b. [TDelim (CHR 0x7B), TDelim (CHR 0x7D)]), rl_eof = (\<lambda>b. ''EOF''),
      rl_decode = (\<lambda>b. Inr (demo_review (if b = ''1'' then ''spec'' else ''implementation'') 0, TrailingNothing))\<rparr>"

theorem journal_contiguous_witness:
  "\<exists>rs. LoadReviewSequence demo_wf_lib demo_review_lib demo_task (DirEntries [demo_entry ''2.json'', demo_entry ''1.json'']) = Inr rs
     \<and> map rv_sequence rs = [1, 2] \<and> review_error demo_wf_lib demo_task rs = None"
proof -
  have l: "LoadReviewSequence demo_wf_lib demo_review_lib demo_task (DirEntries [demo_entry ''2.json'', demo_entry ''1.json''])
      = Inr [demo_review ''spec'' 1, demo_review ''implementation'' 2]" by code_simp
  from journal_contiguous [OF this] show ?thesis using l by simp
qed

end
