(* ===== verification/Workflow_Scope.thy ===== *)
theory Workflow_Scope
  imports Workflow_Journal Ownership Printed_Numbers
begin

text \<open>
  The supervised-workflow tool (\<^verbatim>\<open>src/internal/workflow/workflow.go\<close>), third part: the snapshot digest,
  the scope of a change, running a named command, the report and the place of artifacts. Git, the file
  system and the process runner belong to the environment and are the fields of wf_env and run_io.
\<close>

section \<open>The environment\<close>

datatype marker = MarkerPresent | MarkerAbsent | MarkerError string

text \<open>What \<^verbatim>\<open>Lstat\<close>, \<^verbatim>\<open>Readlink\<close> and reading say about a path: no such path, a link with its target, a
  directory with the result of looking for its git marker and its mode, another special file with its
  mode, or a regular file with its nine permission bits, size and content.\<close>

datatype wf_file =
    FAbsent
  | FLink string
  | FDir marker string
  | FSpecial string
  | FRegular "9 word" nat "string + string"

text \<open>\<^verbatim>\<open>EvalSymlinks\<close>: the resolved path, no such path, or another error.\<close>

datatype resolved = ResolvedTo string | NotExist string | ResolveError string

record wf_env =
  we_lib :: wf_lib
  we_git :: "string list \<Rightarrow> (string \<times> string) + string"
  we_lstat :: "string \<Rightarrow> wf_file"
  we_cwd :: "string option"
  we_resolve :: "string \<Rightarrow> resolved"
  we_match :: "string \<Rightarrow> string \<Rightarrow> bool"

definition git :: "wf_env \<Rightarrow> string list \<Rightarrow> string + string" where
  "git E args =
     (case we_git E args of
        Inl (err, stderr) \<Rightarrow> Inl (''git '' @ join_strings '' '' args @ '': '' @ err @ '' ('' @ trim_space stderr @ '')'')
      | Inr out \<Rightarrow> Inr (rev (dropWhile (\<lambda>c. c = CHR 0x0D \<or> c = CHR 0x0A) (rev out))))"

definition ResolveBase :: "wf_env \<Rightarrow> string \<Rightarrow> string + string" where
  "ResolveBase E base =
     (if trim_space base \<noteq> [] then git E [''rev-parse'', base]
      else case git E [''merge-base'', ''HEAD'', ''origin/main''] of
             Inr out \<Rightarrow> if out \<noteq> [] then Inr out
               else Inl ''cannot resolve default base: origin/main is unavailable; pass -base explicitly''
           | Inl _ \<Rightarrow> Inl ''cannot resolve default base: origin/main is unavailable; pass -base explicitly'')"

definition skipLocalState :: "string \<Rightarrow> bool" where
  "skipLocalState p \<longleftrightarrow> p = ''evidence/workflow'' \<or> starts_with ''evidence/workflow/'' p
     \<or> p = ''evidence/harness'' \<or> starts_with ''evidence/harness/'' p"

definition nul_paths :: "string \<Rightarrow> string list" where
  "nul_paths s = filter (\<lambda>p. p \<noteq> []) (split_on (CHR 0x00) s)"

section \<open>The workspace digest\<close>

definition writeRecord :: "string list \<Rightarrow> string" where
  "writeRecord flds = put_uvarint (length flds) @ concat (map writeField flds)"

text \<open>The permission bits with \<^verbatim>\<open>%04o\<close>: they are at most 0777, so four octal digits are exact.\<close>

definition oct_digit :: "nat \<Rightarrow> char" where
  "oct_digit n = char_of (48 + n mod 8)"

definition oct4 :: "nat \<Rightarrow> string" where
  "oct4 n = [oct_digit (n div 512), oct_digit (n div 64), oct_digit (n div 8), oct_digit n]"

text \<open>The record written for one path, or the error that ends the digest.\<close>

definition file_record :: "wf_lib \<Rightarrow> string \<Rightarrow> wf_file \<Rightarrow> string + string list" where
  "file_record L p f =
     (case f of
        FAbsent \<Rightarrow> Inr [''D'', p]
      | FLink tgt \<Rightarrow> Inr [''L'', p, tgt]
      | FDir MarkerPresent mode \<Rightarrow> Inl (''embedded repository is not supported: '' @ p)
      | FDir (MarkerError err) mode \<Rightarrow> Inl (''inspect embedded repository marker '' @ p @ '': '' @ err)
      | FDir MarkerAbsent mode \<Rightarrow> Inr [''X'', p, mode]
      | FSpecial mode \<Rightarrow> Inr [''X'', p, mode]
      | FRegular perm len (Inl err) \<Rightarrow> Inl err
      | FRegular perm len (Inr content) \<Rightarrow> Inr [''F'', p, oct4 (unat perm), wl_sha256_hex L content, itoa (int len)])"

fun file_records :: "wf_env \<Rightarrow> string \<Rightarrow> string list \<Rightarrow> string + string list list" where
  "file_records E wroot [] = Inr []"
| "file_records E wroot (p # ps) =
     (case file_record (we_lib E) p (we_lstat E (path_join [wroot, p])) of
        Inl err \<Rightarrow> Inl err
      | Inr r \<Rightarrow> (case file_records E wroot ps of Inl err \<Rightarrow> Inl err | Inr rs \<Rightarrow> Inr (r # rs)))"

text \<open>The paths that are bound: tracked, untracked, ignored, untracked empty directories (this listing may
  fail) and deleted ones, without the generated evidence.\<close>

definition bound_paths :: "wf_env \<Rightarrow> string + string list" where
  "bound_paths E =
     (case git E [''ls-files'', ''-c'', ''-z''] of Inl err \<Rightarrow> Inl err | Inr tracked \<Rightarrow>
      case git E [''ls-files'', ''-o'', ''--exclude-standard'', ''-z''] of Inl err \<Rightarrow> Inl err | Inr others \<Rightarrow>
      case git E [''ls-files'', ''-o'', ''-i'', ''--exclude-standard'', ''-z''] of Inl err \<Rightarrow> Inl err | Inr ignored \<Rightarrow>
      let dirs = (case git E [''ls-files'', ''-o'', ''--exclude-standard'', ''--directory'', ''-z''] of Inl _ \<Rightarrow> [] | Inr s \<Rightarrow> nul_paths s)
      in case git E [''diff'', ''--name-only'', ''--diff-filter=D'', ''-z'', ''HEAD''] of Inl err \<Rightarrow> Inl err | Inr deleted \<Rightarrow>
      Inr (wf_uniq (filter (\<lambda>p. \<not> skipLocalState p)
        (nul_paths tracked @ nul_paths others @ nul_paths ignored @ dirs @ nul_paths deleted))))"

definition workspace_stream :: "string \<Rightarrow> string list list \<Rightarrow> string" where
  "workspace_stream head recs = concat (map writeRecord ([''head'', head] # recs))"

definition WorkspaceDigest :: "wf_env \<Rightarrow> string \<Rightarrow> string + string" where
  "WorkspaceDigest E wroot =
     (case git E [''rev-parse'', ''HEAD''] of Inl err \<Rightarrow> Inl err | Inr head \<Rightarrow>
      case bound_paths E of Inl err \<Rightarrow> Inl err | Inr paths \<Rightarrow>
      case file_records E wroot paths of Inl err \<Rightarrow> Inl err | Inr recs \<Rightarrow>
      Inr (wl_sha256_hex (we_lib E) (workspace_stream head recs)))"

definition CurrentSnapshot :: "wf_env \<Rightarrow> string \<Rightarrow> string \<Rightarrow> wf_task \<Rightarrow> string + snapshot" where
  "CurrentSnapshot E wroot base t =
     (case ResolveBase E base of Inl err \<Rightarrow> Inl err | Inr baseSHA \<Rightarrow>
      case git E [''rev-parse'', ''HEAD''] of Inl err \<Rightarrow> Inl err | Inr head \<Rightarrow>
      case WorkspaceDigest E wroot of Inl err \<Rightarrow> Inl err | Inr workspace \<Rightarrow>
      case ContractDigest (we_lib E) t of Inl err \<Rightarrow> Inl err | Inr contract \<Rightarrow>
      Inr \<lparr>sn_base = baseSHA, sn_head = head,
           sn_digest = wl_sha256_hex (we_lib E) (''workspace:'' @ workspace @ [CHR 0x0A] @ ''task:'' @ contract @ [CHR 0x0A])\<rparr>)"

lemma writeRecord_prefix: "writeRecord a @ s = writeRecord b @ t \<Longrightarrow> a = b \<and> s = t"
proof -
  have flds: "concat (map writeField a) @ s = concat (map writeField b) @ t \<Longrightarrow> length a = length b \<Longrightarrow> a = b \<and> s = t"
    for a b :: "string list" and s t
  proof (induction a arbitrary: b)
    case (Cons x xs)
    then obtain y ys where "b = y # ys" by (cases b) auto
    then show ?case using Cons by (auto simp: writeField_prefix)
  qed simp
  assume "writeRecord a @ s = writeRecord b @ t"
  then have "put_uvarint (length a) @ (concat (map writeField a) @ s) = put_uvarint (length b) @ (concat (map writeField b) @ t)"
    by (simp add: writeRecord_def)
  from put_uvarint_prefix [OF this] show ?thesis using flds by blast
qed

lemma writeRecord_not_Nil: "writeRecord a \<noteq> []"
  by (cases "length a < 128") (simp_all add: writeRecord_def put_uvarint_cases)

lemma records_inj: "concat (map writeRecord xs) = concat (map writeRecord ys) \<Longrightarrow> xs = ys"
proof (induction xs arbitrary: ys)
  case Nil
  then show ?case by (cases ys) (auto simp: writeRecord_not_Nil)
next
  case (Cons x xs)
  then obtain y zs where ys: "ys = y # zs" by (cases ys) (auto simp: writeRecord_not_Nil)
  then show ?case using Cons writeRecord_prefix [of x "concat (map writeRecord xs)" y "concat (map writeRecord zs)"] by auto
qed

lemma oct4_inj:
  assumes "oct4 m = oct4 n" and "m < 4096" and "n < 4096"
  shows "m = n"
proof -
  have d: "char_of (48 + a mod 8) = (char_of (48 + b mod 8) :: char) \<Longrightarrow> a mod 8 = b mod 8" for a b :: nat
  proof -
    assume "char_of (48 + a mod 8) = (char_of (48 + b mod 8) :: char)"
    then have "of_char (char_of (48 + a mod 8) :: char) = (of_char (char_of (48 + b mod 8) :: char) :: nat)" by simp
    moreover have "48 + a mod 8 < 256" "48 + b mod 8 < 256"
      using mod_less_divisor [of 8 a] mod_less_divisor [of 8 b] by linarith+
    ultimately show ?thesis by simp
  qed
  have "m div 512 mod 8 = n div 512 mod 8" "m div 64 mod 8 = n div 64 mod 8" "m div 8 mod 8 = n div 8 mod 8" "m mod 8 = n mod 8"
    using assms(1) by (auto simp: oct4_def oct_digit_def dest: d)
  moreover have e: "k = (k div 512 mod 8) * 512 + (k div 64 mod 8) * 64 + (k div 8 mod 8) * 8 + k mod 8" if "k < 4096" for k :: nat
  proof -
    have "8 * (k div 8) + k mod 8 = k" by (rule mult_div_mod_eq)
    moreover have "8 * (k div 64) + k div 8 mod 8 = k div 8" using mult_div_mod_eq [of 8 "k div 8"] by (simp add: div_mult2_eq [symmetric])
    moreover have "8 * (k div 512) + k div 64 mod 8 = k div 64" using mult_div_mod_eq [of 8 "k div 64"] by (simp add: div_mult2_eq [symmetric])
    moreover have "k div 512 mod 8 = k div 512" using less_mult_imp_div_less [of k 8 512] that by simp
    ultimately show ?thesis by linarith
  qed
  ultimately show ?thesis using e [OF assms(2)] e [OF assms(3)] by metis
qed

text \<open>What the digest distinguishes: a directory without a git marker and another special file of the
  same mode give the same record.\<close>

definition same_file :: "wf_file \<Rightarrow> wf_file \<Rightarrow> bool" where
  "same_file f g \<longleftrightarrow> f = g \<or> (\<exists>m. {f, g} \<subseteq> {FDir MarkerAbsent m, FSpecial m})"

lemma perm_inj: "oct4 (unat (a :: 9 word)) = oct4 (unat b) \<Longrightarrow> a = b"
proof -
  assume o: "oct4 (unat a) = oct4 (unat b)"
  have "unat w < 4096" for w :: "9 word"
    using unsigned_less [of w, where ?'a = nat] by simp
  then show ?thesis using oct4_inj [OF o] by (simp add: word_unat_eq_iff)
qed

lemma itoa_len_inj: "itoa (int a) = itoa (int b) \<longleftrightarrow> a = b"
  using itoa_inj_nonneg [of "int a" "int b"] by auto

lemma file_record_path: "file_record L p f = Inr r \<Longrightarrow> r ! 1 = p"
  by (auto simp: file_record_def split: wf_file.split_asm marker.split_asm sum.split_asm)

lemma file_record_view:
  assumes "inj (wl_sha256_hex L)" and "file_record L p f = Inr r" and "file_record L p g = Inr r"
  shows "same_file f g"
proof -
  note views = wf_file.split_asm marker.split_asm sum.split_asm
  show ?thesis using assms(2,3) injD [OF assms(1)] perm_inj
    by (auto simp: file_record_def same_file_def itoa_len_inj split: views)
qed

lemma file_records_view:
  assumes "we_lib E = we_lib F" and "inj (wl_sha256_hex (we_lib E))" and "file_records E r ps = Inr recs" and "file_records F q qs = Inr recs"
  shows "ps = qs \<and> list_all (\<lambda>p. same_file (we_lstat E (path_join [r, p])) (we_lstat F (path_join [q, p]))) ps"
  using assms(3,4)
proof (induction ps arbitrary: qs recs)
  case Nil
  then show ?case by (cases qs) (auto split: sum.split_asm)
next
  case (Cons p ps)
  from Cons.prems(1) obtain x xs where p: "file_record (we_lib E) p (we_lstat E (path_join [r, p])) = Inr x" "file_records E r ps = Inr xs" "recs = x # xs"
    by (auto split: sum.split_asm)
  with Cons.prems(2) obtain p' qs' where q: "qs = p' # qs'" by (cases qs) auto
  with Cons.prems(2) p have x: "file_record (we_lib E) p' (we_lstat F (path_join [q, p'])) = Inr x" "file_records F q qs' = Inr xs"
    using assms(1) by (auto split: sum.split_asm)
  have "p = p'" using file_record_path [OF p(1)] file_record_path [OF x(1)] by simp
  then show ?case using Cons.IH [OF p(2) x(2)] file_record_view [OF assms(2) p(1), of "we_lstat F (path_join [q, p])"] x(1) q by auto
qed

lemma digest_parts:
  "WorkspaceDigest E r = Inr d \<Longrightarrow> \<exists>head ps recs. git E [''rev-parse'', ''HEAD''] = Inr head \<and> bound_paths E = Inr ps
     \<and> file_records E r ps = Inr recs \<and> d = wl_sha256_hex (we_lib E) (workspace_stream head recs)"
  by (auto simp: WorkspaceDigest_def split: sum.split_asm)

text \<open>C34: The workspace digest binds the workspace: if two states of a repository have the same digest under a
  hash without collisions, they have the same head commit, the same set of bound paths, and at every
  bound path the same kind of file with the same permissions, size, content or link target. No change of
  one file, rename or deletion can be hidden by moving bytes between the fields of the record stream.
\<close>

theorem workspace_digest_binds:
  assumes "inj (wl_sha256_hex (we_lib E))" and "we_lib E = we_lib F"
    and "WorkspaceDigest E r = Inr d" and "WorkspaceDigest F q = Inr d"
  shows "git E [''rev-parse'', ''HEAD''] = git F [''rev-parse'', ''HEAD''] \<and> bound_paths E = bound_paths F
    \<and> (\<exists>ps. bound_paths E = Inr ps \<and> list_all (\<lambda>p. same_file (we_lstat E (path_join [r, p])) (we_lstat F (path_join [q, p]))) ps)"
proof -
  obtain h ps recs where e: "git E [''rev-parse'', ''HEAD''] = Inr h" "bound_paths E = Inr ps" "file_records E r ps = Inr recs"
    "d = wl_sha256_hex (we_lib E) (workspace_stream h recs)" using digest_parts [OF assms(3)] by blast
  obtain h' qs recs' where f: "git F [''rev-parse'', ''HEAD''] = Inr h'" "bound_paths F = Inr qs" "file_records F q qs = Inr recs'"
    "d = wl_sha256_hex (we_lib F) (workspace_stream h' recs')" using digest_parts [OF assms(4)] by blast
  have "wl_sha256_hex (we_lib E) (workspace_stream h recs) = wl_sha256_hex (we_lib E) (workspace_stream h' recs')"
    using e(4) f(4) unfolding assms(2) by (rule trans [OF sym])
  then have "workspace_stream h recs = workspace_stream h' recs'" by (rule injD [OF assms(1)])
  then have "[''head'', h] # recs = [''head'', h'] # recs'" unfolding workspace_stream_def by (rule records_inj)
  then have s: "h = h'" "recs = recs'" by simp_all
  have v: "ps = qs \<and> list_all (\<lambda>p. same_file (we_lstat E (path_join [r, p])) (we_lstat F (path_join [q, p]))) ps"
    using f(3) unfolding s(2) [symmetric] by (rule file_records_view [OF assms(2,1) e(3)])
  show ?thesis unfolding e(1,2) f(1,2) s(1) using v by blast
qed

section \<open>The scope of a change\<close>

definition pathAllowed :: "string \<Rightarrow> string list \<Rightarrow> bool" where
  "pathAllowed p allowed =
     list_ex (\<lambda>a0. let a1 = trim_space a0; a = (if a1 \<noteq> [] \<and> last a1 = sep then butlast a1 else a1)
                   in a \<noteq> [] \<and> (p = a \<or> starts_with (a @ [sep]) p)) allowed"

definition pathGated :: "wf_env \<Rightarrow> string \<Rightarrow> string list \<Rightarrow> bool" where
  "pathGated E p patterns =
     list_ex (\<lambda>pat0. let pat = trim_space pat0; base = path_base p in
        if pat = [] then False
        else if starts_with (rev ''/*'') (rev pat)
        then (let pre = take (length pat - 2) pat in p = pre \<or> starts_with (pre @ ''/'') p)
        else if str_contains pat ''*'' then we_match E pat base \<or> we_match E pat p
        else p = pat \<or> base = pat) patterns"

text \<open>\<^verbatim>\<open>addNameStatusZ\<close>: a status, its path, and for a rename or a copy the second path.\<close>

fun name_status :: "string list \<Rightarrow> string + string list" where
  "name_status [] = Inr []"
| "name_status (st # parts) =
     (if st = [] then name_status parts
      else case parts of
             [] \<Rightarrow> Inl ''malformed git --name-status -z output''
           | p # rest \<Rightarrow>
               if p = [] then Inl ''malformed git --name-status -z output''
               else if starts_with ''R'' st \<or> starts_with ''C'' st
               then (case rest of
                       [] \<Rightarrow> Inl ''malformed git rename/copy output''
                     | q # rest2 \<Rightarrow>
                         if q = [] then Inl ''malformed git rename/copy output''
                         else map_sum id (\<lambda>ps. p # q # ps) (name_status rest2))
               else map_sum id (\<lambda>ps. p # ps) (name_status rest))"

definition changed_paths :: "wf_env \<Rightarrow> string \<Rightarrow> string + string list" where
  "changed_paths E baseSHA =
     (case git E [''diff'', ''--name-status'', ''-z'', baseSHA] of Inl err \<Rightarrow> Inl err | Inr s1 \<Rightarrow>
      case name_status (split_on (CHR 0x00) s1) of Inl err \<Rightarrow> Inl err | Inr tracked \<Rightarrow>
      case git E [''ls-files'', ''-o'', ''--exclude-standard'', ''-z''] of Inl err \<Rightarrow> Inl err | Inr s2 \<Rightarrow>
      case git E [''ls-files'', ''-o'', ''-i'', ''--exclude-standard'', ''-z''] of Inl err \<Rightarrow> Inl err | Inr s3 \<Rightarrow>
      Inr (wf_uniq (tracked @ nul_paths s2 @ nul_paths s3)))"

definition dirty_paths :: "wf_env \<Rightarrow> string + string list" where
  "dirty_paths E =
     (case git E [''diff'', ''--name-only'', ''-z'', ''HEAD''] of Inl err \<Rightarrow> Inl err | Inr s1 \<Rightarrow>
      case git E [''ls-files'', ''-o'', ''--exclude-standard'', ''-z''] of Inl err \<Rightarrow> Inl err | Inr s2 \<Rightarrow>
      Inr (wf_uniq (nul_paths s1 @ nul_paths s2)))"

text \<open>What one changed path contributes to the out-of-scope list.\<close>

definition link_violation :: "wf_env \<Rightarrow> string \<Rightarrow> string \<Rightarrow> string list" where
  "link_violation E wroot p =
     (let full = path_join [wroot, p] in
      case we_lstat E full of
        FLink _ \<Rightarrow>
          (case we_resolve E full of
             ResolvedTo target \<Rightarrow>
               (case path_rel wroot target of
                  None \<Rightarrow> [p @ ''->SYMLINK_ESCAPE'']
                | Some rel \<Rightarrow> if rel_outside rel then [p @ ''->SYMLINK_ESCAPE''] else [])
           | _ \<Rightarrow> [p @ ''->SYMLINK_UNRESOLVED''])
      | _ \<Rightarrow> [])"

definition scope_violations :: "wf_env \<Rightarrow> string \<Rightarrow> wf_task \<Rightarrow> string \<Rightarrow> string list" where
  "scope_violations E wroot t p = (if pathAllowed p (tk_allowed_paths t) then [] else [p]) @ link_violation E wroot p"

definition CheckScope :: "wf_env \<Rightarrow> string \<Rightarrow> wf_task \<Rightarrow> string \<Rightarrow> string + scope_result" where
  "CheckScope E wroot t base =
     (case ResolveBase E base of Inl err \<Rightarrow> Inl err | Inr baseSHA \<Rightarrow>
      case changed_paths E baseSHA of Inl err \<Rightarrow> Inl err | Inr changed \<Rightarrow>
      case dirty_paths E of Inl err \<Rightarrow> Inl err | Inr dirty \<Rightarrow>
      let kept = filter (\<lambda>p. \<not> skipLocalState p) changed;
          oos = concat (map (scope_violations E wroot t) kept)
      in Inr \<lparr>sc_base = baseSHA, sc_changed = kept, sc_out_of_scope = wf_uniq oos,
              sc_approval_gated = wf_uniq (filter (\<lambda>p. pathGated E p (tk_approval_gated t)) kept),
              sc_pass = (oos = []), sc_dirty = dirty\<rparr>)"

text \<open>The specification: a change as git prints it, and a link that stays inside.\<close>

datatype git_change = Touched string string | Moved string string string

fun change_paths :: "git_change \<Rightarrow> string list" where
  "change_paths (Touched st p) = [p]"
| "change_paths (Moved st p q) = [p, q]"

definition moves :: "string \<Rightarrow> bool" where
  "moves st \<longleftrightarrow> starts_with ''R'' st \<or> starts_with ''C'' st"

fun change_ok :: "git_change \<Rightarrow> bool" where
  "change_ok (Touched st p) = (st \<noteq> [] \<and> p \<noteq> [] \<and> CHR 0x00 \<notin> set (st @ p) \<and> \<not> moves st)"
| "change_ok (Moved st p q) = (st \<noteq> [] \<and> p \<noteq> [] \<and> q \<noteq> [] \<and> CHR 0x00 \<notin> set (st @ p @ q) \<and> moves st)"

fun change_words :: "git_change \<Rightarrow> string list" where
  "change_words (Touched st p) = [st, p]"
| "change_words (Moved st p q) = [st, p, q]"

definition render_changes :: "git_change list \<Rightarrow> string" where
  "render_changes cs = concat (map (\<lambda>w. w @ [CHR 0x00]) (concat (map change_words cs)))"

lemma split_terminated:
  "list_all (\<lambda>w. d \<notin> set w) ws \<Longrightarrow> split_on d (concat (map (\<lambda>w. w @ [d]) ws)) = ws @ [[]]"
proof (induction ws)
  case (Cons w ws)
  have "split_on d (w @ d # s) = w # split_on d s" if "d \<notin> set w" for s
    using that by (induction w) auto
  then show ?case using Cons by simp
qed simp

lemma name_status_words:
  "list_all change_ok cs \<Longrightarrow> name_status (concat (map change_words cs) @ [[]]) = Inr (concat (map change_paths cs))"
proof (induction cs)
  case (Cons c cs)
  then show ?case by (cases c) (simp_all add: moves_def)
qed simp

lemma change_words_free: "list_all change_ok cs \<Longrightarrow> list_all (\<lambda>w. CHR 0x00 \<notin> set w) (concat (map change_words cs))"
proof (induction cs)
  case (Cons c cs)
  then show ?case by (cases c) simp_all
qed simp

text \<open>Reading git's change list loses nothing: for every list of changes with the statuses and paths git can
  print, the parser returns exactly the touched paths, both sides of every rename and copy included.
\<close>

theorem name_status_complete:
  assumes "list_all change_ok cs"
  shows "name_status (split_on (CHR 0x00) (render_changes cs)) = Inr (concat (map change_paths cs))"
  unfolding render_changes_def split_terminated [OF change_words_free [OF assms]] by (rule name_status_words [OF assms])

theorem name_status_complete_witness:
  "name_status (split_on (CHR 0x00) (render_changes [Touched ''M'' ''a.go'', Moved ''R100'' ''b.go'' ''c.go''])) = Inr [''a.go'', ''b.go'', ''c.go'']"
proof -
  have "list_all change_ok [Touched ''M'' ''a.go'', Moved ''R100'' ''b.go'' ''c.go'']" by code_simp
  from name_status_complete [OF this] show ?thesis by simp
qed

definition link_inside :: "wf_env \<Rightarrow> string \<Rightarrow> string \<Rightarrow> bool" where
  "link_inside E wroot p \<longleftrightarrow>
     (\<forall>target. we_lstat E (path_join [wroot, p]) = FLink target \<longrightarrow>
        (\<exists>dest rel. we_resolve E (path_join [wroot, p]) = ResolvedTo dest \<and> path_rel wroot dest = Some rel \<and> \<not> rel_outside rel))"

lemma link_violation_Nil: "link_violation E wroot p = [] \<longleftrightarrow> link_inside E wroot p"
  by (auto simp: link_violation_def link_inside_def Let_def split: wf_file.split resolved.split option.split)

lemma sort_remdups_set: "set (wf_uniq xs) = set xs"
  by (simp add: wf_uniq_def)

text \<open>The scope check passes exactly when every changed path outside the generated evidence lies under an
  allowed path and, if it is a symbolic link, resolves to a place inside the repository; every path that git
  reports as changed, untracked or ignored is among the changed paths.
\<close>

theorem scope_pass_iff:
  assumes "CheckScope E wroot t base = Inr s"
  shows "(sc_pass s \<longleftrightarrow> list_all (\<lambda>p. pathAllowed p (tk_allowed_paths t) \<and> link_inside E wroot p) (sc_changed s))
    \<and> (\<exists>baseSHA changed. ResolveBase E base = Inr baseSHA \<and> changed_paths E baseSHA = Inr changed
         \<and> set (sc_changed s) = {p \<in> set changed. \<not> skipLocalState p})
    \<and> (sc_pass s \<longleftrightarrow> sc_out_of_scope s = [])"
proof -
  obtain baseSHA changed dirty where c: "ResolveBase E base = Inr baseSHA" "changed_paths E baseSHA = Inr changed" "dirty_paths E = Inr dirty"
    using assms by (auto simp: CheckScope_def split: sum.split_asm)
  define kept where "kept = filter (\<lambda>p. \<not> skipLocalState p) changed"
  have s: "sc_changed s = kept" "sc_pass s \<longleftrightarrow> concat (map (scope_violations E wroot t) kept) = []"
      "sc_out_of_scope s = wf_uniq (concat (map (scope_violations E wroot t) kept))"
    using assms c by (auto simp: CheckScope_def Let_def kept_def)
  have "concat (map (scope_violations E wroot t) kept) = [] \<longleftrightarrow> list_all (\<lambda>p. pathAllowed p (tk_allowed_paths t) \<and> link_inside E wroot p) kept"
    by (auto simp: list_all_iff scope_violations_def link_violation_Nil)
  moreover have "wf_uniq xs = [] \<longleftrightarrow> xs = []" for xs :: "string list" using sort_remdups_set [of xs] by (metis set_empty)
  ultimately show ?thesis using c s by (auto simp: kept_def)
qed

section \<open>Running a command\<close>

datatype run_outcome = RunExit int | RunFailed string

text \<open>What the surroundings do while a command runs: the review directory, the log directory and the log
  file, the process, the command log, and the clock.\<close>

record run_io =
  ri_reviews :: dir_read
  ri_mkdir :: "string option"
  ri_log :: "string + string"
  ri_exec :: run_outcome
  ri_open :: "string option"
  ri_write :: "string option"
  ri_now :: int

datatype run_result = RunError string | Recorded command_record | Unrecorded command_record string

definition sanitize :: "string \<Rightarrow> string" where
  "sanitize s = (let b = filter (\<lambda>c. is_lower_ascii c \<or> is_upper_ascii c \<or> is_digit_ascii c \<or> c = CHR ''-'' \<or> c = CHR ''_'') s
     in if b = [] then ''cmd'' else b)"

definition spec_sequence_of :: "wf_env \<Rightarrow> review_lib \<Rightarrow> wf_task \<Rightarrow> dir_read \<Rightarrow> string + int" where
  "spec_sequence_of E R t d =
     (if \<not> specRegime t then Inr 0
      else case LoadReviewSequence (we_lib E) R t d of Inl err \<Rightarrow> Inl (''review evidence: '' @ err) | Inr reviews \<Rightarrow>
        (case ContractDigest (we_lib E) t of Inl err \<Rightarrow> Inl err | Inr digest \<Rightarrow>
          (case currentSpecPass reviews digest (tk_spec_revision t) of
             None \<Rightarrow> Inl ''spec_review_required: current passing spec review for contract digest + spec_revision required before task commands''
           | Some p \<Rightarrow> Inr (rv_sequence p))))"

definition RunNamedCommand :: "wf_env \<Rightarrow> review_lib \<Rightarrow> string \<Rightarrow> wf_task \<Rightarrow> string \<Rightarrow> string \<Rightarrow> run_io \<Rightarrow> run_result" where
  "RunNamedCommand E R wroot t name base io =
     (case LookupCommand t name of
        None \<Rightarrow> RunError (''unknown command name '' @ go_quote name @ '' (must be defined in task required_commands)'')
      | Some req \<Rightarrow>
        (case CurrentSnapshot E wroot base t of Inl err \<Rightarrow> RunError err | Inr snap \<Rightarrow>
        (case spec_sequence_of E R t (ri_reviews io) of Inl err \<Rightarrow> RunError err | Inr specSeq \<Rightarrow>
        (case ri_mkdir io of Some err \<Rightarrow> RunError err | None \<Rightarrow>
        (case ri_log io of Inl err \<Rightarrow> RunError err | Inr logPath \<Rightarrow>
        (case ri_exec io of RunFailed err \<Rightarrow> RunError err | RunExit code \<Rightarrow>
        (let rec = \<lparr>cr_name = name, cr_args = rc_argv req, cr_exit = code, cr_source = ''executed'', cr_base = sn_base snap,
              cr_head = sn_head snap, cr_digest = sn_digest snap, cr_log_path = logPath, cr_recorded = ri_now io, cr_spec_sequence = specSeq\<rparr>
         in case ri_open io of Some err \<Rightarrow> Unrecorded rec err | None \<Rightarrow>
            (case ri_write io of Some err \<Rightarrow> Unrecorded rec err | None \<Rightarrow> Recorded rec))))))))"

lemma record_error_append: "record_error t (cmds @ [c]) = None \<longleftrightarrow> record_error t cmds = None \<and> record_error t [c] = None"
  by (induction cmds) (auto split: option.splits)

text \<open>A log that was written by the tool alone, run by run, in changing surroundings.\<close>

inductive tool_log :: "review_lib \<Rightarrow> wf_task \<Rightarrow> command_record list \<Rightarrow> bool" for R t where
  log_empty: "tool_log R t []"
| log_run: "tool_log R t cmds \<Longrightarrow> RunNamedCommand E R wroot t name base io = Recorded rec \<Longrightarrow> tool_log R t (cmds @ [rec])"

lemma recorded_fields:
  assumes "RunNamedCommand E R wroot t name base io = Recorded rec"
  shows "\<exists>req snap. LookupCommand t name = Some req \<and> contract_record req rec \<and> CurrentSnapshot E wroot base t = Inr snap
     \<and> bound_to snap rec \<and> spec_sequence_of E R t (ri_reviews io) = Inr (cr_spec_sequence rec)"
  using assms LookupCommand_name
  by (auto simp: RunNamedCommand_def Let_def contract_record_def bound_to_def split: option.split_asm sum.split_asm run_outcome.split_asm)

lemma recorded_clean:
  assumes "RunNamedCommand E R wroot t name base io = Recorded rec"
  shows "record_error t [rec] = None"
proof -
  obtain req where "LookupCommand t name = Some req" "contract_record req rec" using recorded_fields [OF assms] by blast
  then show ?thesis using LookupCommand_name by (auto simp: contract_record_def)
qed

lemma spec_sequence_current:
  assumes "spec_sequence_of E R t d = Inr n" and "specRegime t"
  shows "\<exists>reviews digest p. LoadReviewSequence (we_lib E) R t d = Inr reviews \<and> ContractDigest (we_lib E) t = Inr digest
     \<and> currentSpecPass reviews digest (tk_spec_revision t) = Some p \<and> n = rv_sequence p"
  using assms by (auto simp: spec_sequence_of_def split: sum.split_asm option.split_asm)

text \<open>A command log that only the tool wrote is never the reason for a blocked task: every record carries the
  arguments of the contract. Under the spec regime a record is written only while a passing review of this
  very contract is the latest one, and it carries the journal number of that review.
\<close>

theorem tool_log_clean:
  assumes "tool_log R t cmds"
  shows "record_error t cmds = None \<and> list_all (\<lambda>c. \<exists>req. LookupCommand t (cr_name c) = Some req \<and> cr_args c = rc_argv req
     \<and> (\<not> specRegime t \<or> (\<exists>L d reviews digest p. LoadReviewSequence L R t d = Inr reviews \<and> ContractDigest L t = Inr digest
          \<and> currentSpecPass reviews digest (tk_spec_revision t) = Some p \<and> cr_spec_sequence c = rv_sequence p))) cmds"
  using assms
proof induction
  case (log_run cmds E wroot name base io rec)
  note f = recorded_fields [OF log_run.hyps(2)]
  then obtain req where r: "LookupCommand t name = Some req" "contract_record req rec" "spec_sequence_of E R t (ri_reviews io) = Inr (cr_spec_sequence rec)" by blast
  have "\<not> specRegime t \<or> (\<exists>L d reviews digest p. LoadReviewSequence L R t d = Inr reviews \<and> ContractDigest L t = Inr digest
          \<and> currentSpecPass reviews digest (tk_spec_revision t) = Some p \<and> cr_spec_sequence rec = rv_sequence p)"
    using spec_sequence_current [OF r(3)] by blast
  moreover have "LookupCommand t (cr_name rec) = Some req \<and> cr_args rec = rc_argv req"
    using r(1,2) LookupCommand_name [OF r(1)] by (simp add: contract_record_def)
  ultimately show ?case using log_run.IH recorded_clean [OF log_run.hyps(2)] by (simp add: record_error_append del: record_error.simps)
qed simp

section \<open>The report\<close>

record wf_report =
  rp_task_id :: string
  rp_invariants :: "string list"
  rp_snapshot :: snapshot
  rp_dirty :: bool
  rp_status :: status
  rp_reasons :: "string list"
  rp_scope :: scope_result
  rp_commands :: "command_record list"
  rp_review :: "review_artifact option"
  rp_spec_pass :: bool
  rp_contract_digest :: string

definition BuildReport :: "wf_env \<Rightarrow> review_lib \<Rightarrow> (string \<Rightarrow> string + command_record) \<Rightarrow> string \<Rightarrow> wf_task \<Rightarrow> string \<Rightarrow> file_read \<Rightarrow> dir_read
    \<Rightarrow> string + wf_report" where
  "BuildReport E R decode wroot t base log_file review_dir =
     (case CurrentSnapshot E wroot base t of Inl err \<Rightarrow> Inl err | Inr snap \<Rightarrow>
      case CheckScope E wroot t (sn_base snap) of Inl err \<Rightarrow> Inl err | Inr scope \<Rightarrow>
      case LoadCommands decode log_file of Inl err \<Rightarrow> Inl err | Inr cmds \<Rightarrow>
      let report = (\<lambda>st reasons review specPass digest.
            \<lparr>rp_task_id = tk_task_id t, rp_invariants = tk_invariant_ids t, rp_snapshot = snap, rp_dirty = (sc_dirty scope \<noteq> []),
             rp_status = st, rp_reasons = reasons, rp_scope = scope, rp_commands = cmds, rp_review = review, rp_spec_pass = specPass,
             rp_contract_digest = digest\<rparr>)
      in case LoadReviewSequence (we_lib E) R t review_dir of
           Inl err \<Rightarrow> Inr (report Blocked [''invalid_review_evidence: '' @ err] None False [])
         | Inr reviews \<Rightarrow>
             (let digest = (case ContractDigest (we_lib E) t of Inl _ \<Rightarrow> [] | Inr d \<Rightarrow> d);
                  (st, reasons) = DeriveStatus (we_lib E) t cmds scope reviews snap;
                  specPass = (specRegime t \<and> \<not> isl (ContractDigest (we_lib E) t) \<and> currentSpecPass reviews digest (tk_spec_revision t) \<noteq> None)
              in Inr (report st reasons (latestJournalReview reviews t digest) specPass digest)))"

section \<open>Where artifacts may live\<close>

text \<open>\<^verbatim>\<open>resolveWithMissingLeaf\<close>: the walk to the deepest ancestor that resolves; an unresolvable link and
  every error other than a missing path end it.\<close>

function resolve_missing :: "wf_env \<Rightarrow> string \<Rightarrow> string list \<Rightarrow> string + string" where
  "resolve_missing E cur missing =
     (case we_resolve E cur of
        ResolvedTo r \<Rightarrow> Inr (path_clean (foldl (\<lambda>acc w. path_join [acc, w]) r missing))
      | ResolveError err \<Rightarrow> Inl err
      | NotExist err \<Rightarrow>
          if (case we_lstat E cur of FLink _ \<Rightarrow> True | _ \<Rightarrow> False) then Inl err
          else let parent = path_dir cur in
               if parent = cur then Inl err else resolve_missing E parent (path_base cur # missing))"
  by pat_completeness auto
termination
proof (relation "measure (\<lambda>(E, cur, missing). if cur = ''.'' then 0 else Suc (length cur))", goal_cases)
  case (2 E cur missing err parent)
  have "path_dir ''.'' = ''.''" by code_simp
  then show ?case using 2 dir_measure [of cur] by auto
qed simp

declare resolve_missing.simps [simp del]

definition resolveWithMissingLeaf :: "wf_env \<Rightarrow> string \<Rightarrow> string + string" where
  "resolveWithMissingLeaf E p = resolve_missing E (path_clean p) []"

definition wf_abs :: "wf_env \<Rightarrow> string \<Rightarrow> string option" where
  "wf_abs E s = path_abs \<lparr>fs_cwd = we_cwd E, fs_eval_symlinks = (\<lambda>_. None)\<rparr> s"

definition ValidateArtifactPath :: "wf_env \<Rightarrow> string \<Rightarrow> string \<Rightarrow> string \<Rightarrow> string option" where
  "ValidateArtifactPath E wroot p kind =
     (if trim_space p = [] then Some (kind @ '' artifact path required'')
      else case wf_abs E wroot of None \<Rightarrow> Some ''resolve repository root'' | Some rootAbs \<Rightarrow>
      case we_resolve E rootAbs of
        ResolvedTo rootReal \<Rightarrow>
          (case wf_abs E p of None \<Rightarrow> Some (''resolve '' @ kind @ '' path'') | Some pathAbs \<Rightarrow>
           case resolveWithMissingLeaf E pathAbs of Inl err \<Rightarrow> Some (''resolve '' @ kind @ '' path symlinks: '' @ err) | Inr pathReal \<Rightarrow>
           case path_rel rootReal pathReal of None \<Rightarrow> Some (''compare '' @ kind @ '' path to repository'') | Some rel \<Rightarrow>
           let inside = (rel \<noteq> ''..'' \<and> \<not> starts_with ''../'' rel \<and> \<not> is_abs rel)
           in if inside \<and> \<not> skipLocalState rel
              then Some (kind @ '' artifact inside repository must be stored under evidence/workflow/, evidence/harness/, or outside the repository'')
              else None)
      | NotExist err \<Rightarrow> Some (''resolve repository root symlinks: '' @ err)
      | ResolveError err \<Rightarrow> Some (''resolve repository root symlinks: '' @ err))"

lemma bound_paths_kept: "bound_paths E = Inr ps \<Longrightarrow> p \<in> set ps \<Longrightarrow> \<not> skipLocalState p"
  by (auto simp: bound_paths_def Let_def sort_remdups_set split: sum.split_asm)

text \<open>Writing an accepted artifact does not touch a path that the snapshot binds.\<close>

lemma accepted_artifact_unbound:
  assumes "ValidateArtifactPath E wroot p kind = None" and "bound_paths E = Inr ps"
  shows "\<exists>rootAbs rootReal pathAbs pathReal rel. wf_abs E wroot = Some rootAbs \<and> we_resolve E rootAbs = ResolvedTo rootReal
    \<and> wf_abs E p = Some pathAbs \<and> resolveWithMissingLeaf E pathAbs = Inr pathReal \<and> path_rel rootReal pathReal = Some rel
    \<and> (rel_outside rel \<or> is_abs rel \<or> rel \<notin> set ps)"
  using assms bound_paths_kept [OF assms(2)]
  by (auto simp: ValidateArtifactPath_def Let_def rel_outside_def sep_def split: if_split_asm option.split_asm resolved.split_asm sum.split_asm)

section \<open>Status names\<close>

definition status_name :: "status \<Rightarrow> string" where
  "status_name s = (case s of Unspecified \<Rightarrow> ''UNSPECIFIED'' | Specified \<Rightarrow> ''SPECIFIED'' | SpecReviewed \<Rightarrow> ''SPEC_REVIEWED''
     | FailureReproduced \<Rightarrow> ''FAILURE_REPRODUCED'' | TargetVerified \<Rightarrow> ''TARGET_VERIFIED'' | HarnessVerified \<Rightarrow> ''HARNESS_VERIFIED''
     | SecurityReviewed \<Rightarrow> ''SECURITY_REVIEWED'' | Blocked \<Rightarrow> ''BLOCKED'')"

definition all_statuses :: "status list" where
  "all_statuses = [Unspecified, Specified, SpecReviewed, FailureReproduced, TargetVerified, HarnessVerified, SecurityReviewed, Blocked]"

definition ParseStatus :: "string \<Rightarrow> string + status" where
  "ParseStatus s =
     (case find (\<lambda>st. status_name st = trim_space s) all_statuses of
        None \<Rightarrow> Inl (''unknown status '' @ go_quote s)
      | Some st \<Rightarrow> Inr st)"

definition ParseMinStatus :: "string \<Rightarrow> string + status" where
  "ParseMinStatus s =
     (case find (\<lambda>st. status_name st = trim_space s) all_statuses of
        None \<Rightarrow> Inl (''unknown status '' @ go_quote s)
      | Some st \<Rightarrow> if st = Blocked \<or> st = Unspecified
                   then Inl (''status '' @ go_quote s @ '' is not a valid verify -min progression status'') else Inr st)"

lemma ParseStatus_roundtrip: "ParseStatus (status_name st) = Inr st"
  by (cases st) (simp_all only: status_name_def status.case, code_simp+)

lemma ParseMinStatus_rank: "ParseMinStatus s = Inr st \<Longrightarrow> 1 \<le> StatusRank st"
  by (cases st) (auto simp: ParseMinStatus_def StatusRank_def split: option.split_asm if_split_asm)

section \<open>Writing the report\<close>

text \<open>\<^verbatim>\<open>WriteReportJSON\<close> writes to a temporary file of the same directory and renames it. Each step may be the
  one that fails; the deferred clean-up removes the temporary file unless the rename succeeded.\<close>

datatype report_step = StepMkdir | StepMarshal | StepCreate | StepWrite | StepSync | StepClose | StepRename

definition WriteReportJSON :: "report_step option \<Rightarrow> bool \<Rightarrow> nat \<Rightarrow> string \<Rightarrow> string \<Rightarrow> string \<Rightarrow> (string \<rightharpoonup> string) \<Rightarrow> bool \<times> (string \<rightharpoonup> string)" where
  "WriteReportJSON failing removed written path tmp json files =
     (let b = json @ [CHR 0x0A];
          clean_up = (\<lambda>content. (False, if removed then files(tmp := None) else files(tmp \<mapsto> content)))
      in case failing of
           None \<Rightarrow> (True, files(tmp := None, path \<mapsto> b))
         | Some StepMkdir \<Rightarrow> (False, files)
         | Some StepMarshal \<Rightarrow> (False, files)
         | Some StepCreate \<Rightarrow> (False, files)
         | Some StepWrite \<Rightarrow> clean_up (take written b)
         | Some StepSync \<Rightarrow> clean_up b
         | Some StepClose \<Rightarrow> clean_up b
         | Some StepRename \<Rightarrow> clean_up b)"

lemma report_write_atomic:
  assumes "path \<noteq> tmp" and "WriteReportJSON failing removed written path tmp json files = (ok, files')"
  shows "files' path = (if ok then Some (json @ [CHR 0x0A]) else files path)"
  using assms by (auto simp: WriteReportJSON_def Let_def split: option.split_asm report_step.split_asm if_split_asm)

section \<open>A repository with one changed file\<close>

definition demo_git :: "string list \<Rightarrow> (string \<times> string) + string" where
  "demo_git args =
     (if args = [''rev-parse'', ''HEAD''] then Inr ''h''
      else if args = [''rev-parse'', ''b''] then Inr ''b''
      else if args = [''ls-files'', ''-c'', ''-z''] then Inr (''a/x.go'' @ [CHR 0x00])
      else if args = [''diff'', ''--name-status'', ''-z'', ''b''] then Inr (''M'' @ [CHR 0x00] @ ''a/x.go'' @ [CHR 0x00])
      else Inr [])"

definition demo_wf_env :: "bool \<Rightarrow> wf_env" where
  "demo_wf_env linked =
     \<lparr>we_lib = demo_wf_lib, we_git = demo_git,
      we_lstat = (\<lambda>p. if linked then FLink ''/etc/passwd'' else FRegular 0 2 (Inr ''hi'')),
      we_cwd = Some ''/w'', we_resolve = (\<lambda>p. if linked then ResolvedTo ''/etc/passwd'' else ResolvedTo p), we_match = (\<lambda>_ _. False)\<rparr>"

theorem workspace_digest_binds_witness:
  "\<exists>d. WorkspaceDigest (demo_wf_env False) ''/w'' = Inr d \<and> WorkspaceDigest (demo_wf_env False) ''/v'' = Inr d
     \<and> (\<exists>ps. bound_paths (demo_wf_env False) = Inr ps
          \<and> list_all (\<lambda>p. same_file (we_lstat (demo_wf_env False) (path_join [''/w'', p])) (we_lstat (demo_wf_env False) (path_join [''/v'', p]))) ps)"
proof -
  have i: "inj (wl_sha256_hex (we_lib (demo_wf_env False)))" by (auto simp: demo_wf_env_def demo_wf_lib_def inj_def)
  have w: "WorkspaceDigest (demo_wf_env False) ''/w'' = WorkspaceDigest (demo_wf_env False) ''/v''" by code_simp
  have "\<not> isl (WorkspaceDigest (demo_wf_env False) ''/w'')" by code_simp
  then obtain d where d: "WorkspaceDigest (demo_wf_env False) ''/w'' = Inr d" by (cases "WorkspaceDigest (demo_wf_env False) ''/w''") simp_all
  have v: "WorkspaceDigest (demo_wf_env False) ''/v'' = Inr d" using w d by simp
  from workspace_digest_binds [OF i refl d v] d v show ?thesis by blast
qed

theorem scope_pass_iff_witness:
  "\<exists>s u. CheckScope (demo_wf_env False) ''/w'' demo_task ''b'' = Inr s \<and> sc_pass s
     \<and> CheckScope (demo_wf_env True) ''/w'' demo_task ''b'' = Inr u \<and> \<not> list_all (\<lambda>p. pathAllowed p [''a''] \<and> link_inside (demo_wf_env True) ''/w'' p) (sc_changed u)"
proof -
  have "map_sum id sc_pass (CheckScope (demo_wf_env False) ''/w'' demo_task ''b'') = Inr True" by code_simp
  then obtain s where s: "CheckScope (demo_wf_env False) ''/w'' demo_task ''b'' = Inr s" "sc_pass s"
    by (cases "CheckScope (demo_wf_env False) ''/w'' demo_task ''b''") simp_all
  have "map_sum id sc_pass (CheckScope (demo_wf_env True) ''/w'' demo_task ''b'') = Inr False" by code_simp
  then obtain u where u: "CheckScope (demo_wf_env True) ''/w'' demo_task ''b'' = Inr u" "\<not> sc_pass u"
    by (cases "CheckScope (demo_wf_env True) ''/w'' demo_task ''b''") simp_all
  have "tk_allowed_paths demo_task = [''a'']" by (simp add: demo_task_def)
  then show ?thesis using s u scope_pass_iff [OF u(1)] by auto
qed

definition wf_demo_io :: run_io where
  "wf_demo_io = \<lparr>ri_reviews = DirEntries [demo_entry ''1.json''], ri_mkdir = None, ri_log = Inr ''l'', ri_exec = RunExit 1, ri_open = None,
     ri_write = None, ri_now = 5\<rparr>"

theorem tool_log_clean_witness:
  "\<exists>rec. RunNamedCommand (demo_wf_env False) demo_review_lib ''/w'' demo_task ''red'' ''b'' wf_demo_io = Recorded rec
     \<and> cr_spec_sequence rec = 1 \<and> record_error demo_task [rec] = None"
proof -
  have r: "case RunNamedCommand (demo_wf_env False) demo_review_lib ''/w'' demo_task ''red'' ''b'' wf_demo_io of Recorded rec \<Rightarrow> cr_spec_sequence rec = 1 | _ \<Rightarrow> False"
    by code_simp
  then obtain rec where rec: "RunNamedCommand (demo_wf_env False) demo_review_lib ''/w'' demo_task ''red'' ''b'' wf_demo_io = Recorded rec" "cr_spec_sequence rec = 1"
    by (cases "RunNamedCommand (demo_wf_env False) demo_review_lib ''/w'' demo_task ''red'' ''b'' wf_demo_io") simp_all
  have "tool_log demo_review_lib demo_task ([] @ [rec])" by (rule log_run [OF log_empty rec(1)])
  from tool_log_clean [OF this] show ?thesis using rec by auto
qed

end
