(* ===== verification/Json_Text.thy ===== *)
theory Json_Text
  imports Visor_Prelude "HOL-Library.List_Lexorder" "HOL-Library.Char_ord"
begin

text \<open>
  JSON text as Go's \<^verbatim>\<open>encoding/json\<close> reads and writes it, at the level of bytes: the scanner with its nesting
  limit, string unquoting with UTF-8 repair and surrogate pairs, number literals kept as text, and the
  encoder with HTML escaping off. The envelope gate and the message rewriting are modelled on it.
\<close>

section \<open>UTF-8\<close>

definition in_range :: "nat \<Rightarrow> nat \<Rightarrow> char \<Rightarrow> bool" where
  "in_range lo hi c \<longleftrightarrow> lo \<le> byte c \<and> byte c \<le> hi"

text \<open>The width of the valid UTF-8 sequence at the head of a text, 0 when \<^verbatim>\<open>utf8.DecodeRune\<close> reports an error.\<close>

definition rune_width :: "string \<Rightarrow> nat" where
  "rune_width s =
     (case s of
        [] \<Rightarrow> 0
      | a # s1 \<Rightarrow>
          if byte a < 128 then 1
          else case s1 of
            [] \<Rightarrow> 0
          | b # s2 \<Rightarrow>
              if in_range 194 223 a then (if in_range 128 191 b then 2 else 0)
              else case s2 of
                [] \<Rightarrow> 0
              | c # s3 \<Rightarrow>
                  if in_range 224 239 a
                  then (if in_range (if byte a = 224 then 160 else 128) (if byte a = 237 then 159 else 191) b
                           \<and> in_range 128 191 c then 3 else 0)
                  else case s3 of
                    [] \<Rightarrow> 0
                  | d # _ \<Rightarrow>
                      if in_range 240 244 a
                         \<and> in_range (if byte a = 240 then 144 else 128) (if byte a = 244 then 143 else 191) b
                         \<and> in_range 128 191 c \<and> in_range 128 191 d
                      then 4 else 0)"

text \<open>\<^verbatim>\<open>utf8.EncodeRune\<close> on a code point that is not a surrogate.\<close>

definition utf8_encode :: "nat \<Rightarrow> string" where
  "utf8_encode n =
     (if n < 128 then [char_of n]
      else if n < 2048 then [char_of (192 + n div 64), char_of (128 + n mod 64)]
      else if n < 65536 then [char_of (224 + n div 4096), char_of (128 + n div 64 mod 64), char_of (128 + n mod 64)]
      else [char_of (240 + n div 262144), char_of (128 + n div 4096 mod 64), char_of (128 + n div 64 mod 64), char_of (128 + n mod 64)])"

definition replacement :: string where "replacement = [CHR 0xEF, CHR 0xBF, CHR 0xBD]"

section \<open>Strings\<close>

definition hex_nibble :: "char \<Rightarrow> nat option" where
  "hex_nibble c =
     (if CHR ''0'' \<le> c \<and> c \<le> CHR ''9'' then Some (byte c - 48)
      else if CHR ''a'' \<le> c \<and> c \<le> CHR ''f'' then Some (byte c - 87)
      else if CHR ''A'' \<le> c \<and> c \<le> CHR ''F'' then Some (byte c - 55)
      else None)"

text \<open>\<^verbatim>\<open>getu4\<close>: the number after a backslash and \<open>u\<close>.\<close>

definition getu4 :: "string \<Rightarrow> nat option" where
  "getu4 s =
     (case s of
        b # u # w # x # y # z # _ \<Rightarrow>
          if b = CHR 0x5C \<and> u = CHR ''u''
          then (case (hex_nibble w, hex_nibble x, hex_nibble y, hex_nibble z) of
                  (Some i, Some j, Some k, Some l) \<Rightarrow> Some (4096 * i + 256 * j + 16 * k + l)
                | _ \<Rightarrow> None)
          else None
      | _ \<Rightarrow> None)"

definition surrogate :: "nat \<Rightarrow> bool" where "surrogate n \<longleftrightarrow> 55296 \<le> n \<and> n < 57344"

text \<open>\<^verbatim>\<open>utf16.DecodeRune\<close>, None for the replacement character.\<close>

definition decode_pair :: "nat \<Rightarrow> nat \<Rightarrow> nat option" where
  "decode_pair hi lo =
     (if 55296 \<le> hi \<and> hi < 56320 \<and> 56320 \<le> lo \<and> lo < 57344
      then Some ((hi - 55296) * 1024 + (lo - 56320) + 65536) else None)"

text \<open>The meaning of a one-letter escape.\<close>

definition short_escape :: "char \<Rightarrow> char option" where
  "short_escape c =
     (if c = CHR 0x22 \<or> c = CHR 0x5C \<or> c = CHR ''/'' then Some c
      else if c = CHR ''b'' then Some (CHR 0x08)
      else if c = CHR ''f'' then Some (CHR 0x0C)
      else if c = CHR ''n'' then Some (CHR 0x0A)
      else if c = CHR ''r'' then Some (CHR 0x0D)
      else if c = CHR ''t'' then Some (CHR 0x09)
      else None)"

text \<open>One unit inside a string literal: the bytes it stands for and the number of bytes read. None is a syntax
  error (an unknown escape or a control character).\<close>

definition string_unit :: "string \<Rightarrow> (string \<times> nat) option" where
  "string_unit s =
     (case s of
        [] \<Rightarrow> None
      | c # r \<Rightarrow>
          if c = CHR 0x5C then
            (case r of
               [] \<Rightarrow> None
             | e # _ \<Rightarrow>
                 if e = CHR ''u'' then
                   (case getu4 s of
                      None \<Rightarrow> None
                    | Some n \<Rightarrow>
                        if surrogate n then
                          (case getu4 (drop 6 s) of
                             None \<Rightarrow> Some (replacement, 6)
                           | Some m \<Rightarrow> (case decode_pair n m of None \<Rightarrow> Some (replacement, 6) | Some k \<Rightarrow> Some (utf8_encode k, 12)))
                        else Some (utf8_encode n, 6))
                 else map_option (\<lambda>x. ([x], 2)) (short_escape e))
          else if byte c < 32 then None
          else if rune_width s = 0 then Some (replacement, 1)
          else Some (take (rune_width s) s, rune_width s))"

text \<open>The rest of a string literal after its opening quote: the decoded bytes and the text after the closing quote.\<close>

function json_chars :: "string \<Rightarrow> (string \<times> string) option" where
  "json_chars s =
     (case s of
        [] \<Rightarrow> None
      | c # r \<Rightarrow>
          if c = CHR 0x22 then Some ([], r)
          else (case string_unit s of
                  None \<Rightarrow> None
                | Some (u, k) \<Rightarrow> (case json_chars (drop (k - 1) r) of None \<Rightarrow> None | Some (t, rest) \<Rightarrow> Some (u @ t, rest))))"
  by pat_completeness auto
termination by (relation "measure length") auto
declare json_chars.simps [simp del]

section \<open>Numbers\<close>

definition digits_of :: "string \<Rightarrow> string" where "digits_of s = takeWhile is_digit_ascii s"

definition int_part :: "string \<Rightarrow> string option" where
  "int_part s =
     (case s of
        [] \<Rightarrow> None
      | c # _ \<Rightarrow> if c = CHR ''0'' then Some [c] else if is_digit_ascii c then Some (digits_of s) else None)"

definition frac_part :: "string \<Rightarrow> string option" where
  "frac_part s =
     (case s of
        [] \<Rightarrow> Some []
      | c # r \<Rightarrow> if c = CHR ''.'' then (if digits_of r = [] then None else Some (c # digits_of r)) else Some [])"

definition exp_part :: "string \<Rightarrow> string option" where
  "exp_part s =
     (case s of
        [] \<Rightarrow> Some []
      | c # r \<Rightarrow>
          if c = CHR ''e'' \<or> c = CHR ''E'' then
            (let sg = (case r of x # _ \<Rightarrow> if x = CHR ''+'' \<or> x = CHR ''-'' then [x] else [] | [] \<Rightarrow> []);
                 ds = digits_of (drop (length sg) r)
             in if ds = [] then None else Some (c # sg @ ds))
          else Some [])"

definition json_number :: "string \<Rightarrow> (string \<times> string) option" where
  "json_number s =
     (let sg = (case s of c # _ \<Rightarrow> if c = CHR ''-'' then [c] else [] | [] \<Rightarrow> []); s1 = drop (length sg) s in
      case int_part s1 of
        None \<Rightarrow> None
      | Some i \<Rightarrow>
          (let s2 = drop (length i) s1 in
           case frac_part s2 of
             None \<Rightarrow> None
           | Some f \<Rightarrow>
               (let s3 = drop (length f) s2 in
                case exp_part s3 of
                  None \<Rightarrow> None
                | Some x \<Rightarrow> Some (sg @ i @ f @ x, drop (length x) s3))))"

section \<open>Values\<close>

text \<open>A parsed value: numbers as written (\<^verbatim>\<open>json.Number\<close>), the members of an object in their order with duplicates.\<close>

datatype jtext =
    VNull
  | VBool bool
  | VNum string
  | VStr string
  | VArr "jtext list"
  | VObj "(string \<times> jtext) list"

definition json_blank :: "char \<Rightarrow> bool" where
  "json_blank c \<longleftrightarrow> c = CHR '' '' \<or> c = CHR 0x09 \<or> c = CHR 0x0D \<or> c = CHR 0x0A"

definition skip_blank :: "string \<Rightarrow> string" where "skip_blank s = dropWhile json_blank s"

definition maxNestingDepth :: int where "maxNestingDepth = 10000"

definition json_word :: "string \<Rightarrow> (jtext \<times> string) option" where
  "json_word s =
     (if starts_with ''null'' s then Some (VNull, drop 4 s)
      else if starts_with ''true'' s then Some (VBool True, drop 4 s)
      else if starts_with ''false'' s then Some (VBool False, drop 5 s)
      else None)"

text \<open>A value, the elements of an array after the opening bracket or a comma, the members of an object likewise.
  The number d is the nesting that is left. The fuel bounds the recursion; every call consumes a byte or
  is followed by one that does, so twice the length of the text is enough.\<close>

fun json_value :: "nat \<Rightarrow> int \<Rightarrow> string \<Rightarrow> (jtext \<times> string) option"
  and json_elements :: "nat \<Rightarrow> int \<Rightarrow> string \<Rightarrow> (jtext list \<times> string) option"
  and json_members :: "nat \<Rightarrow> int \<Rightarrow> string \<Rightarrow> ((string \<times> jtext) list \<times> string) option" where
  "json_value 0 d s = None"
| "json_value (Suc n) d s =
     (case skip_blank s of
        [] \<Rightarrow> None
      | c # r \<Rightarrow>
          if c = CHR 0x7B then
            (if d \<le> 0 then None
             else case skip_blank r of
                    [] \<Rightarrow> None
                  | x # r1 \<Rightarrow> if x = CHR 0x7D then Some (VObj [], r1) else map_option (apfst VObj) (json_members n (d - 1) r))
          else if c = CHR ''['' then
            (if d \<le> 0 then None
             else case skip_blank r of
                    [] \<Rightarrow> None
                  | x # r1 \<Rightarrow> if x = CHR '']'' then Some (VArr [], r1) else map_option (apfst VArr) (json_elements n (d - 1) r))
          else if c = CHR 0x22 then map_option (apfst VStr) (json_chars r)
          else if c = CHR ''-'' \<or> is_digit_ascii c then map_option (apfst VNum) (json_number (c # r))
          else json_word (c # r))"
| "json_elements 0 d s = None"
| "json_elements (Suc n) d s =
     (case json_value n d s of
        None \<Rightarrow> None
      | Some (v, r) \<Rightarrow>
          (case skip_blank r of
             [] \<Rightarrow> None
           | x # r1 \<Rightarrow>
               if x = CHR '']'' then Some ([v], r1)
               else if x = CHR '','' then map_option (apfst (Cons v)) (json_elements n d r1)
               else None))"
| "json_members 0 d s = None"
| "json_members (Suc n) d s =
     (case skip_blank s of
        [] \<Rightarrow> None
      | q # r0 \<Rightarrow>
          if q \<noteq> CHR 0x22 then None
          else case json_chars r0 of
            None \<Rightarrow> None
          | Some (k, r1) \<Rightarrow>
              (case skip_blank r1 of
                 [] \<Rightarrow> None
               | x # r2 \<Rightarrow>
                   if x \<noteq> CHR '':'' then None
                   else case json_value n d r2 of
                     None \<Rightarrow> None
                   | Some (v, r) \<Rightarrow>
                       (case skip_blank r of
                          [] \<Rightarrow> None
                        | y # r3 \<Rightarrow>
                            if y = CHR 0x7D then Some ([(k, v)], r3)
                            else if y = CHR '','' then map_option (apfst (Cons (k, v))) (json_members n d r3)
                            else None)))"

text \<open>The next value of a decoder's stream.\<close>

definition decode_value :: "string \<Rightarrow> (jtext \<times> string) option" where
  "decode_value s = json_value (2 * length s + 2) maxNestingDepth s"

text \<open>The syntax check of \<^verbatim>\<open>json.Unmarshal\<close>: one value and nothing but blanks after it.\<close>

definition parse_document :: "string \<Rightarrow> jtext option" where
  "parse_document s = (case decode_value s of Some (v, r) \<Rightarrow> if skip_blank r = [] then Some v else None | None \<Rightarrow> None)"

section \<open>The encoder\<close>

definition hex_char :: "nat \<Rightarrow> char" where "hex_char n = ''0123456789abcdef'' ! n"

text \<open>How one rune of a valid text is written.\<close>

definition escape_rune :: "string \<Rightarrow> string" where
  "escape_rune u =
     (if u = [CHR 0x22] \<or> u = [CHR 0x5C] then CHR 0x5C # u
      else if u = [CHR 0x08] then [CHR 0x5C, CHR ''b'']
      else if u = [CHR 0x0C] then [CHR 0x5C, CHR ''f'']
      else if u = [CHR 0x0A] then [CHR 0x5C, CHR ''n'']
      else if u = [CHR 0x0D] then [CHR 0x5C, CHR ''r'']
      else if u = [CHR 0x09] then [CHR 0x5C, CHR ''t'']
      else if u = [CHR 0xE2, CHR 0x80, CHR 0xA8] then CHR 0x5C # ''u2028''
      else if u = [CHR 0xE2, CHR 0x80, CHR 0xA9] then CHR 0x5C # ''u2029''
      else case u of
             [c] \<Rightarrow> if byte c < 32 then CHR 0x5C # ''u00'' @ [hex_char (byte c div 16), hex_char (byte c mod 16)] else u
           | _ \<Rightarrow> u)"

function encode_chars :: "string \<Rightarrow> string" where
  "encode_chars s =
     (case s of
        [] \<Rightarrow> []
      | c # r \<Rightarrow>
          if rune_width s = 0 then CHR 0x5C # ''ufffd'' @ encode_chars r
          else escape_rune (take (rune_width s) s) @ encode_chars (drop (rune_width s - 1) r))"
  by pat_completeness auto
termination by (relation "measure length") auto
declare encode_chars.simps [simp del]

definition encode_string :: "string \<Rightarrow> string" where
  "encode_string s = CHR 0x22 # encode_chars s @ [CHR 0x22]"

definition commas :: "string list \<Rightarrow> string" where
  "commas xs = (case xs of [] \<Rightarrow> [] | x # ys \<Rightarrow> x @ concat (map (Cons (CHR '','')) ys))"

fun encode_value :: "jtext \<Rightarrow> string" where
  "encode_value VNull = ''null''"
| "encode_value (VBool b) = (if b then ''true'' else ''false'')"
| "encode_value (VNum l) = l"
| "encode_value (VStr s) = encode_string s"
| "encode_value (VArr vs) = ''['' @ commas (map encode_value vs) @ '']''"
| "encode_value (VObj ms) = CHR 0x7B # commas (map (\<lambda>(k, v). encode_string k @ CHR '':'' # encode_value v) ms) @ [CHR 0x7D]"

text \<open>A value of type \<^verbatim>\<open>any\<close>: in every object the last member of a name wins, and the encoder writes the names
  in the order of their bytes.\<close>

definition last_wins :: "(string \<times> 'a) list \<Rightarrow> (string \<times> 'a) list" where
  "last_wins ms = map (\<lambda>k. (k, the (map_of (rev ms) k))) (sort (remdups (map fst ms)))"

fun canonical :: "jtext \<Rightarrow> jtext" where
  "canonical (VArr vs) = VArr (map canonical vs)"
| "canonical (VObj ms) = VObj (last_wins (map (\<lambda>(k, v). (k, canonical v)) ms))"
| "canonical v = v"

section \<open>Reading what was written\<close>

subsection \<open>Strings\<close>

text \<open>One valid rune; a text made of valid runes.\<close>

definition is_rune :: "string \<Rightarrow> bool" where "is_rune u \<longleftrightarrow> u \<noteq> [] \<and> rune_width u = length u"

inductive valid_text :: "string \<Rightarrow> bool" where
  empty: "valid_text []"
| rune: "is_rune u \<Longrightarrow> valid_text s \<Longrightarrow> valid_text (u @ s)"

lemma rune_width_length: "rune_width s \<le> length s"
  unfolding rune_width_def by (auto split: list.splits)

lemma rune_shape:
  assumes "rune_width s \<noteq> 0"
  shows "(\<exists>a t. s = a # t \<and> byte a < 128)
    \<or> (\<exists>a b t. s = a # b # t \<and> \<not> byte a < 128 \<and> in_range 194 223 a \<and> in_range 128 191 b)
    \<or> (\<exists>a b c t. s = a # b # c # t \<and> \<not> byte a < 128 \<and> \<not> in_range 194 223 a \<and> in_range 224 239 a
         \<and> in_range (if byte a = 224 then 160 else 128) (if byte a = 237 then 159 else 191) b \<and> in_range 128 191 c)
    \<or> (\<exists>a b c d t. s = a # b # c # d # t \<and> \<not> byte a < 128 \<and> \<not> in_range 194 223 a \<and> \<not> in_range 224 239 a \<and> in_range 240 244 a
         \<and> in_range (if byte a = 240 then 144 else 128) (if byte a = 244 then 143 else 191) b
         \<and> in_range 128 191 c \<and> in_range 128 191 d)"
proof (cases s)
  case Nil
  then show ?thesis using assms by (simp add: rune_width_def)
next
  case 1: (Cons a s1)
  show ?thesis
  proof (cases "byte a < 128")
    case True
    then show ?thesis using 1 by blast
  next
    case a: False
    then obtain b s2 where 2: "s1 = b # s2" using assms 1 by (cases s1) (simp_all add: rune_width_def)
    show ?thesis
    proof (cases "in_range 194 223 a")
      case True
      then have "in_range 128 191 b" using assms 1 2 a by (simp add: rune_width_def split: if_splits)
      then show ?thesis using 1 2 a True by blast
    next
      case r2: False
      then obtain c s3 where 3: "s2 = c # s3" using assms 1 2 a by (cases s2) (simp_all add: rune_width_def)
      show ?thesis
      proof (cases "in_range 224 239 a")
        case True
        then have "in_range (if byte a = 224 then 160 else 128) (if byte a = 237 then 159 else 191) b \<and> in_range 128 191 c"
          using assms 1 2 3 a r2 by (simp add: rune_width_def del: if_True if_False split del: if_split split: if_splits)
        then show ?thesis using 1 2 3 a r2 True by blast
      next
        case r3: False
        then obtain d s4 where 4: "s3 = d # s4" using assms 1 2 3 a r2 by (cases s3) (simp_all add: rune_width_def)
        have "in_range 240 244 a
          \<and> in_range (if byte a = 240 then 144 else 128) (if byte a = 244 then 143 else 191) b
          \<and> in_range 128 191 c \<and> in_range 128 191 d"
          using assms unfolding 1 2 3 4 rune_width_def list.case if_not_P [OF a] if_not_P [OF r2] if_not_P [OF r3]
          by (metis (no_types, lifting))
        then show ?thesis using 1 2 3 4 a r2 r3 by blast
      qed
    qed
  qed
qed

lemma rune_width_take:
  assumes "rune_width s \<noteq> 0"
  shows "rune_width (take (rune_width s) s @ t) = rune_width s"
  using rune_shape [OF assms] by (elim disjE exE conjE) (simp_all add: rune_width_def)

lemma is_rune_take: "rune_width s \<noteq> 0 \<Longrightarrow> is_rune (take (rune_width s) s)"
  using rune_width_take [of s "[]"] rune_width_length [of s] by (auto simp: is_rune_def)

lemma rune_width_append: "is_rune u \<Longrightarrow> rune_width (u @ t) = length u"
  using rune_width_take [of u t] by (auto simp: is_rune_def)

lemma valid_append: "valid_text s \<Longrightarrow> valid_text t \<Longrightarrow> valid_text (s @ t)"
  by (induction rule: valid_text.induct) (auto intro: valid_text.rune)

lemma byte_char_of: "n < 256 \<Longrightarrow> byte (char_of n) = n"
  by (simp add: byte_def)

lemma utf8_encode_rune:
  assumes "n < 1114112" "\<not> surrogate n"
  shows "is_rune (utf8_encode n)"
proof -
  consider "n < 128" | "128 \<le> n" "n < 2048" | "2048 \<le> n" "n < 65536" | "65536 \<le> n" by linarith
  then show ?thesis
  proof cases
    case 1
    then show ?thesis by (simp add: is_rune_def utf8_encode_def rune_width_def byte_char_of)
  next
    case 2
    then have "n div 64 < 32" "2 \<le> n div 64" by auto
    with 2 show ?thesis by (simp add: is_rune_def utf8_encode_def rune_width_def byte_char_of in_range_def)
  next
    case 3
    then have b: "n div 4096 < 16" "n div 64 mod 64 < 64" "n mod 64 < 64" by auto
    have z: "32 \<le> n div 64 mod 64" if "n div 4096 = 0" using that 3 by auto
    have t: "n div 64 mod 64 < 32" if "n div 4096 = 13"
    proof -
      have "n < 55296" using that 3 assms(2) by (simp add: surrogate_def) linarith
      then have "n div 64 < 864" by auto
      moreover have "n div 64 div 64 = 13" using that by (simp add: div_mult2_eq [symmetric])
      ultimately show ?thesis using div_mult_mod_eq [of "n div 64" 64] by linarith
    qed
    show ?thesis using 3 b z t by (auto simp: is_rune_def utf8_encode_def rune_width_def byte_char_of in_range_def)
  next
    case 4
    then have b: "n div 262144 \<le> 4" "n div 4096 mod 64 < 64" "n div 64 mod 64 < 64" "n mod 64 < 64" using assms(1) by auto
    have z: "16 \<le> n div 4096 mod 64" if "n div 262144 = 0" using that 4 by auto
    have t: "n div 4096 mod 64 < 16" if "n div 262144 = 4"
    proof -
      have "n div 4096 < 272" using assms(1) by auto
      moreover have "n div 4096 div 64 = 4" using that by (simp add: div_mult2_eq [symmetric])
      ultimately show ?thesis using div_mult_mod_eq [of "n div 4096" 64] by linarith
    qed
    show ?thesis using 4 b z t by (auto simp: is_rune_def utf8_encode_def rune_width_def byte_char_of in_range_def)
  qed
qed

lemma replacement_rune: "is_rune replacement"
  by (simp add: is_rune_def replacement_def rune_width_def in_range_def byte_def)

lemma ascii_rune: "byte c < 128 \<Longrightarrow> is_rune [c]"
  by (simp add: is_rune_def rune_width_def)

lemma hex_nibble_bound: "hex_nibble c = Some n \<Longrightarrow> n < 16"
  by (auto simp: hex_nibble_def byte_def less_eq_char_def split: if_splits)

lemma getu4_bound: "getu4 s = Some n \<Longrightarrow> n < 65536"
  by (auto simp: getu4_def split: list.splits if_splits option.splits dest!: hex_nibble_bound)

lemma decode_pair_scalar: "decode_pair m n = Some k \<Longrightarrow> k < 1114112 \<and> \<not> surrogate k"
  by (auto simp: decode_pair_def surrogate_def split: if_splits)

lemma short_escape_ascii: "short_escape c = Some x \<Longrightarrow> byte x < 128"
  by (auto simp: short_escape_def byte_def split: if_splits)

lemma string_unit_rune: "string_unit s = Some (u, k) \<Longrightarrow> is_rune u"
  using is_rune_take [of s]
  by (auto simp: string_unit_def replacement_rune split: list.splits if_splits option.splits
      intro!: utf8_encode_rune ascii_rune dest: getu4_bound decode_pair_scalar short_escape_ascii)

lemma json_chars_Cons:
  "json_chars (c # r) = (if c = CHR 0x22 then Some ([], r)
     else case string_unit (c # r) of
            None \<Rightarrow> None
          | Some (u, k) \<Rightarrow> (case json_chars (drop (k - 1) r) of None \<Rightarrow> None | Some (t, rest) \<Rightarrow> Some (u @ t, rest)))"
  by (subst json_chars.simps) simp

lemma encode_chars_Cons:
  "encode_chars (c # r) = (if rune_width (c # r) = 0 then CHR 0x5C # ''ufffd'' @ encode_chars r
     else escape_rune (take (rune_width (c # r)) (c # r)) @ encode_chars (drop (rune_width (c # r) - 1) r))"
  by (subst encode_chars.simps) simp

text \<open>Whatever bytes a literal contains, the decoded string is valid UTF-8.\<close>

lemma json_chars_valid: "json_chars s = Some (t, r) \<Longrightarrow> valid_text t"
proof (induction s arbitrary: t r rule: json_chars.induct)
  case (1 s)
  from "1.prems" obtain c s1 where s: "s = c # s1" by (cases s) (simp_all add: json_chars.simps)
  show ?case
  proof (cases "c = CHR 0x22")
    case True
    then show ?thesis using "1.prems" s by (simp add: json_chars.simps valid_text.empty)
  next
    case False
    then obtain u k t1 where u: "string_unit s = Some (u, k)" "json_chars (drop (k - 1) s1) = Some (t1, r)" "t = u @ t1"
      using "1.prems" s by (auto simp: json_chars_Cons split: option.splits)
    then show ?thesis using "1.IH" [OF s False u(1) refl u(2)] string_unit_rune [OF u(1)] by (simp add: valid_text.rune)
  qed
qed

lemma plain_unit:
  assumes "is_rune u" and "escape_rune u = u"
  shows "string_unit (u @ t) = Some (u, length u) \<and> hd u \<noteq> CHR 0x22"
proof -
  obtain c r where u: "u = c # r" using assms(1) by (cases u) (auto simp: is_rune_def)
  have c: "\<not> (c = CHR 0x22 \<or> c = CHR 0x5C)"
  proof
    assume q: "c = CHR 0x22 \<or> c = CHR 0x5C"
    then have "byte c < 128" by (auto simp: byte_def)
    then have "r = []" using assms(1) u by (simp add: is_rune_def rune_width_def)
    then show False using q assms(2) u by (auto simp: escape_rune_def)
  qed
  have "\<not> byte c < 32"
  proof
    assume b: "byte c < 32"
    then have "r = []" using assms(1) u by (simp add: is_rune_def rune_width_def)
    then show False using b assms(2) u by (auto simp: escape_rune_def split: if_splits)
  qed
  then show ?thesis using c u rune_width_append [OF assms(1), of t] assms(1)
    by (simp add: string_unit_def is_rune_def)
qed

lemma short_unit: "short_escape e = Some x \<Longrightarrow> string_unit (CHR 0x5C # e # t) = Some ([x], 2)"
  by (auto simp: string_unit_def short_escape_def split: if_splits)

lemma control_hex:
  assumes "n < 32"
  shows "hex_nibble (hex_char (n div 16)) = Some (n div 16) \<and> hex_nibble (hex_char (n mod 16)) = Some (n mod 16)"
proof -
  have "list_all (\<lambda>k. hex_nibble (hex_char k) = Some k) [0,1,2,3,4,5,6,7,8,9,10,11,12,13,14,15]" by code_simp
  moreover have "k \<in> set [0,1,2,3,4,5,6,7,8,9,10,11,12,13,14,15]" if "k < 16" for k :: nat using that by (simp add: eval_nat_numeral less_Suc_eq)
  moreover have "n div 16 < 16" "n mod 16 < 16" using assms by auto
  ultimately show ?thesis unfolding list_all_iff by blast
qed

lemma hex_zero: "hex_nibble (CHR ''0'') = Some 0" by code_simp

lemma control_unit:
  assumes "byte c < 32"
  shows "string_unit (CHR 0x5C # CHR ''u'' # CHR ''0'' # CHR ''0'' # hex_char (byte c div 16) # hex_char (byte c mod 16) # t) = Some ([c], 6)"
proof -
  have "char_of (byte c) = c" by (simp add: byte_def)
  then have "utf8_encode (byte c) = [c]" using assms by (simp add: utf8_encode_def)
  moreover have "getu4 (CHR 0x5C # CHR ''u'' # CHR ''0'' # CHR ''0'' # hex_char (byte c div 16) # hex_char (byte c mod 16) # t) = Some (byte c)"
    using control_hex [OF assms] by (simp add: getu4_def hex_zero)
  moreover have "\<not> surrogate (byte c)" using assms by (simp add: surrogate_def)
  ultimately show ?thesis by (simp add: string_unit_def)
qed

lemma line_separators: "utf8_encode 8232 = [CHR 0xE2, CHR 0x80, CHR 0xA8]" "utf8_encode 8233 = [CHR 0xE2, CHR 0x80, CHR 0xA9]"
  by (simp_all add: utf8_encode_def char_of_def bit_iff_odd)

lemma hex_digits_read: "hex_nibble (CHR ''2'') = Some 2" "hex_nibble (CHR ''8'') = Some 8" "hex_nibble (CHR ''9'') = Some 9"
  by code_simp+

lemma line_separator_unit:
  "string_unit (CHR 0x5C # ''u2028'' @ t) = Some ([CHR 0xE2, CHR 0x80, CHR 0xA8], 6)"
  "string_unit (CHR 0x5C # ''u2029'' @ t) = Some ([CHR 0xE2, CHR 0x80, CHR 0xA9], 6)"
  by (simp_all add: string_unit_def getu4_def hex_zero hex_digits_read surrogate_def line_separators)

lemma escaped_unit:
  assumes "is_rune u"
  shows "string_unit (escape_rune u @ t) = Some (u, length (escape_rune u)) \<and> escape_rune u \<noteq> [] \<and> hd (escape_rune u) \<noteq> CHR 0x22"
proof (cases "escape_rune u = u")
  case True
  then show ?thesis using plain_unit [OF assms True, of t] assms by (auto simp: is_rune_def)
next
  case ne: False
  consider (special) "u = [CHR 0x22] \<or> u = [CHR 0x5C] \<or> u = [CHR 0x08] \<or> u = [CHR 0x0C] \<or> u = [CHR 0x0A] \<or> u = [CHR 0x0D] \<or> u = [CHR 0x09]"
    | (lsep) "u = [CHR 0xE2, CHR 0x80, CHR 0xA8]" | (psep) "u = [CHR 0xE2, CHR 0x80, CHR 0xA9]"
    | (control) c where "u = [c]" "byte c < 32" "escape_rune u = CHR 0x5C # ''u00'' @ [hex_char (byte c div 16), hex_char (byte c mod 16)]"
  proof (cases "u = [CHR 0x22] \<or> u = [CHR 0x5C] \<or> u = [CHR 0x08] \<or> u = [CHR 0x0C] \<or> u = [CHR 0x0A] \<or> u = [CHR 0x0D] \<or> u = [CHR 0x09]
      \<or> u = [CHR 0xE2, CHR 0x80, CHR 0xA8] \<or> u = [CHR 0xE2, CHR 0x80, CHR 0xA9]")
    case True
    then show thesis by (elim disjE) (rule special lsep psep, simp)+
  next
    case False
    then have e: "escape_rune u = (case u of
             [c] \<Rightarrow> if byte c < 32 then CHR 0x5C # ''u00'' @ [hex_char (byte c div 16), hex_char (byte c mod 16)] else u
           | _ \<Rightarrow> u)" unfolding escape_rune_def by simp
    obtain c where c: "u = [c]"
    proof (cases u)
      case (Cons c r)
      then show ?thesis using that ne e by (cases r) auto
    qed (use ne e in auto)
    then have "byte c < 32" using e ne by (auto split: if_splits)
    then show thesis using control [OF c] c e by simp
  qed
  then show ?thesis
  proof cases
    case lsep
    then show ?thesis using line_separator_unit(1) [of t] by (simp add: escape_rune_def)
  next
    case psep
    then show ?thesis using line_separator_unit(2) [of t] by (simp add: escape_rune_def)
  next
    case control
    then show ?thesis using control_unit [of c t] by simp
  next
    case special
    then show ?thesis by (elim disjE) (simp_all add: escape_rune_def string_unit_def short_escape_def)
  qed
qed

lemma encode_chars_rune: "is_rune u \<Longrightarrow> encode_chars (u @ s) = escape_rune u @ encode_chars s"
proof -
  assume u: "is_rune u"
  then obtain c r where c: "u = c # r" by (cases u) (auto simp: is_rune_def)
  show ?thesis using rune_width_append [OF u, of s] c by (simp add: encode_chars_Cons)
qed

lemma chars_roundtrip: "valid_text s \<Longrightarrow> json_chars (encode_chars s @ CHR 0x22 # rest) = Some (s, rest)"
proof (induction rule: valid_text.induct)
  case empty
  then show ?case by (simp add: encode_chars.simps json_chars.simps)
next
  case (rune u s)
  define tail where "tail = encode_chars s @ CHR 0x22 # rest"
  have w: "string_unit (escape_rune u @ tail) = Some (u, length (escape_rune u))" "escape_rune u \<noteq> []" "hd (escape_rune u) \<noteq> CHR 0x22"
    using escaped_unit [OF rune.hyps(1)] by blast+
  obtain c r where c: "escape_rune u = c # r" using w(2) by (cases "escape_rune u") auto
  have "json_chars (escape_rune u @ tail) = Some (u @ s, rest)"
    using w c rune.IH by (simp add: json_chars_Cons tail_def)
  then show ?case by (simp add: encode_chars_rune [OF rune.hyps(1)] tail_def)
qed

subsection \<open>Numbers\<close>

text \<open>What may follow a number: none of the characters that would continue it.\<close>

definition ends_number :: "string \<Rightarrow> bool" where
  "ends_number t \<longleftrightarrow> (case t of [] \<Rightarrow> True | c # _ \<Rightarrow> \<not> is_digit_ascii c \<and> c \<notin> {CHR ''.'', CHR ''e'', CHR ''E''})"

definition no_digit :: "string \<Rightarrow> bool" where
  "no_digit t \<longleftrightarrow> (case t of [] \<Rightarrow> True | c # _ \<Rightarrow> \<not> is_digit_ascii c)"

definition number_literal :: "string \<Rightarrow> bool" where "number_literal l \<longleftrightarrow> json_number l = Some (l, [])"

lemma digits_of_append: "no_digit t \<Longrightarrow> digits_of (digits_of s @ t) = digits_of s"
  by (auto simp: digits_of_def no_digit_def takeWhile_append split: list.splits dest: set_takeWhileD)

lemma number_marks:
  "\<not> is_digit_ascii (CHR ''.'')" "\<not> is_digit_ascii (CHR ''e'')" "\<not> is_digit_ascii (CHR ''E'')" "\<not> is_digit_ascii (CHR ''-'')"
  "\<not> is_digit_ascii (CHR ''+'')" "is_digit_ascii (CHR ''0'')"
  by code_simp+

lemma digits_of_prefix: "s = digits_of s @ drop (length (digits_of s)) s"
  unfolding digits_of_def dropWhile_eq_drop [symmetric] by simp

lemma digits_of_digits: "\<forall>c\<in>set (digits_of s). is_digit_ascii c"
  by (auto simp: digits_of_def dest: set_takeWhileD)

lemma int_part_append:
  assumes "int_part s = Some i" and "no_digit t"
  shows "int_part (i @ t) = Some i \<and> i \<noteq> [] \<and> is_digit_ascii (hd i) \<and> s = i @ drop (length i) s"
proof (cases s)
  case Nil
  then show ?thesis using assms by (simp add: int_part_def)
next
  case (Cons c r)
  show ?thesis
  proof (cases "c = CHR ''0''")
    case True
    then have "i = ''0''" using Cons assms(1) by (simp add: int_part_def)
    then show ?thesis using Cons True number_marks by (simp add: int_part_def)
  next
    case False
    then have i: "is_digit_ascii c" "i = c # digits_of r" "i = digits_of s"
      using Cons assms(1) by (auto simp: int_part_def digits_of_def split: if_splits)
    then have "digits_of (i @ t) = i" using digits_of_append [OF assms(2), of s] by simp
    then show ?thesis using i False digits_of_prefix [of s] by (simp add: int_part_def)
  qed
qed

lemma frac_part_append:
  assumes "frac_part s = Some f" and "no_digit t" and "f = [] \<Longrightarrow> t = [] \<or> hd t \<noteq> CHR ''.''"
  shows "frac_part (f @ t) = Some f \<and> s = f @ drop (length f) s \<and> (f = [] \<or> hd f = CHR ''.'')"
proof (cases "f = []")
  case True
  then show ?thesis using assms(3) by (cases t) (auto simp: frac_part_def)
next
  case False
  then obtain r where s: "s = CHR ''.'' # r" "digits_of r \<noteq> []" "f = CHR ''.'' # digits_of r"
    using assms(1) by (auto simp: frac_part_def split: list.splits if_splits)
  then show ?thesis using digits_of_append [OF assms(2), of r] digits_of_prefix [of r] by (simp add: frac_part_def)
qed

lemma exp_part_append:
  assumes "exp_part s = Some x" and "no_digit t" and "x = [] \<Longrightarrow> t = [] \<or> hd t \<noteq> CHR ''e'' \<and> hd t \<noteq> CHR ''E''"
  shows "exp_part (x @ t) = Some x \<and> s = x @ drop (length x) s \<and> (x = [] \<or> hd x = CHR ''e'' \<or> hd x = CHR ''E'')"
proof (cases "x = []")
  case True
  then show ?thesis using assms(3) by (cases t) (auto simp: exp_part_def)
next
  case False
  define sg where "sg = (\<lambda>r. case r of y # _ \<Rightarrow> if y = CHR ''+'' \<or> y = CHR ''-'' then [y] else [] | [] \<Rightarrow> ([] :: string))"
  have sg: "sg r = [] \<or> (\<exists>y. sg r = [y] \<and> (y = CHR ''+'' \<or> y = CHR ''-'') \<and> hd r = y \<and> r \<noteq> [])" for r
    by (auto simp: sg_def split: list.splits)
  obtain c r where s: "s = c # r" "c = CHR ''e'' \<or> c = CHR ''E''" "digits_of (drop (length (sg r)) r) \<noteq> []"
      "x = c # sg r @ digits_of (drop (length (sg r)) r)"
    using assms(1) False unfolding exp_part_def sg_def [symmetric] by (auto simp: Let_def split: list.splits if_splits)
  define ds where "ds = digits_of (drop (length (sg r)) r)"
  have ds: "ds \<noteq> []" "digits_of (ds @ t) = ds" using s(3) digits_of_append [OF assms(2)] by (simp_all add: ds_def)
  have hd: "is_digit_ascii (hd ds)" using digits_of_digits [of "drop (length (sg r)) r"] hd_in_set [OF ds(1)] by (simp add: ds_def)
  have r: "r = sg r @ ds @ drop (length (sg r @ ds)) r"
    using sg [of r] digits_of_prefix [of "drop (length (sg r)) r"] by (cases r) (auto simp: ds_def)
  have "sg (sg r @ ds @ t) = sg r"
    using sg [of r] ds(1) hd number_marks by (cases ds) (auto simp: sg_def)
  then have "exp_part (c # (sg r @ ds) @ t) = Some (c # sg r @ ds)"
    using s(2) ds unfolding exp_part_def sg_def [symmetric] by (simp add: Let_def)
  then show ?thesis using s r by (simp add: ds_def)
qed

lemma number_append:
  assumes "json_number s = Some (l, r)" and "ends_number t"
  shows "json_number (l @ t) = Some (l, t) \<and> s = l @ r \<and> l \<noteq> [] \<and> (hd l = CHR ''-'' \<or> is_digit_ascii (hd l))"
proof -
  define sg where "sg = (case s of c # _ \<Rightarrow> if c = CHR ''-'' then [c] else [] | [] \<Rightarrow> [])"
  have sg: "sg = [] \<or> sg = ''-'' \<and> s \<noteq> [] \<and> hd s = CHR ''-''" by (auto simp: sg_def split: list.splits)
  obtain i where i: "int_part (drop (length sg) s) = Some i"
    using assms(1) unfolding json_number_def sg_def [symmetric] by (auto simp: Let_def split: option.splits)
  define s2 where "s2 = drop (length i) (drop (length sg) s)"
  obtain f where f: "frac_part s2 = Some f"
    using assms(1) i unfolding json_number_def sg_def [symmetric] by (auto simp: Let_def s2_def split: option.splits)
  define s3 where "s3 = drop (length f) s2"
  obtain x where x: "exp_part s3 = Some x"
    using assms(1) i f unfolding json_number_def sg_def [symmetric] by (auto simp: Let_def s2_def s3_def split: option.splits)
  have l: "l = sg @ i @ f @ x" "r = drop (length x) s3"
    using assms(1) i f x unfolding json_number_def sg_def [symmetric] by (simp_all add: Let_def s2_def s3_def)
  have nt: "no_digit t" "t = [] \<or> hd t \<noteq> CHR ''e'' \<and> hd t \<noteq> CHR ''E''" "t = [] \<or> hd t \<noteq> CHR ''.''"
    using assms(2) by (auto simp: ends_number_def no_digit_def split: list.splits)
  have X: "exp_part (x @ t) = Some x" "s3 = x @ drop (length x) s3" "x = [] \<or> hd x = CHR ''e'' \<or> hd x = CHR ''E''"
    using exp_part_append [OF x nt(1)] nt(2) by blast+
  have nx: "no_digit (x @ t) \<and> (x @ t = [] \<or> hd (x @ t) \<noteq> CHR ''.'')"
  proof (cases x)
    case Nil
    then show ?thesis using nt by simp
  next
    case (Cons c y)
    then show ?thesis using X(3) number_marks by (elim disjE) (simp_all add: no_digit_def)
  qed
  have F: "frac_part (f @ x @ t) = Some f" "s2 = f @ drop (length f) s2" "f = [] \<or> hd f = CHR ''.''"
    using frac_part_append [OF f conjunct1 [OF nx]] nx by blast+
  have nf: "no_digit (f @ x @ t)" using F(3) nx number_marks by (cases f) (auto simp: no_digit_def)
  have I: "int_part (i @ f @ x @ t) = Some i" "i \<noteq> []" "is_digit_ascii (hd i)" "drop (length sg) s = i @ s2"
    using int_part_append [OF i nf] by (auto simp: s2_def)
  have S: "(case l @ t of c # _ \<Rightarrow> if c = CHR ''-'' then [c] else [] | [] \<Rightarrow> []) = sg"
    using sg I(2,3) number_marks by (cases i) (auto simp: l)
  have "json_number (l @ t) = Some (l, t)"
    unfolding json_number_def S using I(1) F(1) X(1) by (simp add: Let_def l)
  moreover have "s = l @ r" using sg I(4) F(2) X(2) by (cases s) (auto simp: l s3_def)
  ultimately show ?thesis using sg I(2,3) by (cases i) (auto simp: l)
qed

lemma number_numeral: "json_number s = Some (l, r) \<Longrightarrow> number_literal l"
  using number_append [of s l r "[]"] by (simp add: number_literal_def ends_number_def)

lemma numeral_append: "number_literal l \<Longrightarrow> ends_number t \<Longrightarrow> json_number (l @ t) = Some (l, t) \<and> l \<noteq> [] \<and> (hd l = CHR ''-'' \<or> is_digit_ascii (hd l))"
  using number_append [of l l "[]" t] by (simp add: number_literal_def)

subsection \<open>Values\<close>

text \<open>What the decoder can return: valid strings, number literals, nesting within the limit.\<close>

fun encodable :: "int \<Rightarrow> jtext \<Rightarrow> bool" where
  "encodable d (VNum l) = number_literal l"
| "encodable d (VStr s) = valid_text s"
| "encodable d (VArr vs) = (0 < d \<and> list_all (encodable (d - 1)) vs)"
| "encodable d (VObj ms) = (0 < d \<and> list_all (\<lambda>(k, v). valid_text k \<and> encodable (d - 1) v) ms)"
| "encodable d v = True"

definition reads_back :: "int \<Rightarrow> jtext \<Rightarrow> bool" where
  "reads_back d v \<longleftrightarrow> (\<forall>n t. 2 * length (encode_value v) \<le> n \<and> ends_number t \<longrightarrow> json_value n d (encode_value v @ t) = Some (v, t))"

text \<open>The first byte of an encoded value decides how it is read.\<close>

lemma starts_value:
  assumes "encodable d v"
  shows "\<exists>c r. encode_value v = c # r \<and> \<not> json_blank c \<and> c \<noteq> CHR '']'' \<and> c \<noteq> CHR 0x7D"
proof (cases v)
  case (VNum l)
  then have l: "l \<noteq> []" "hd l = CHR ''-'' \<or> is_digit_ascii (hd l)"
    using assms numeral_append [of l "[]"] by (auto simp: ends_number_def)
  have d: "\<not> json_blank c \<and> c \<noteq> CHR '']'' \<and> c \<noteq> CHR 0x7D" if "c = CHR ''-'' \<or> is_digit_ascii c" for c
    using that by (auto simp: json_blank_def is_digit_ascii_def byte_def)
  then show ?thesis using l VNum by (cases l) auto
qed (auto simp: encode_string_def json_blank_def)

lemma skip_blank_id: "\<not> json_blank c \<Longrightarrow> skip_blank (c # r) = c # r"
  by (simp add: skip_blank_def)

lemma punctuation_skip:
  "skip_blank (CHR '','' # r) = CHR '','' # r" "skip_blank (CHR '']'' # r) = CHR '']'' # r" "skip_blank (CHR 0x7D # r) = CHR 0x7D # r"
  "skip_blank (CHR 0x22 # r) = CHR 0x22 # r" "skip_blank (CHR '':'' # r) = CHR '':'' # r" "skip_blank (CHR 0x7B # r) = CHR 0x7B # r"
  "skip_blank (CHR ''['' # r) = CHR ''['' # r" "skip_blank [] = []"
  by (simp_all add: skip_blank_def json_blank_def)

lemma punctuation_ends: "ends_number (CHR '','' # r)" "ends_number (CHR '']'' # r)" "ends_number (CHR 0x7D # r)"
  by (simp_all add: ends_number_def is_digit_ascii_def byte_def)

lemma commas_Cons: "commas (x # xs) = x @ (if xs = [] then [] else CHR '','' # commas xs)"
  by (cases xs) (simp_all add: commas_def)

lemma elements_read:
  assumes "list_all (reads_back d) vs" and "vs \<noteq> []" and "2 * length (commas (map encode_value vs)) + 1 \<le> n"
  shows "json_elements n d (commas (map encode_value vs) @ CHR '']'' # t) = Some (vs, t)"
  using assms
proof (induction vs arbitrary: n)
  case (Cons v vs)
  obtain m where n: "n = Suc m" using Cons.prems(3) by (cases n) auto
  show ?case
  proof (cases "vs = []")
    case True
    have "json_value m d (encode_value v @ CHR '']'' # t) = Some (v, CHR '']'' # t)"
      using Cons.prems n True by (simp add: reads_back_def commas_Cons punctuation_ends)
    then show ?thesis using n True by (simp add: commas_Cons punctuation_skip)
  next
    case False
    define rest where "rest = commas (map encode_value vs) @ CHR '']'' # t"
    have "json_value m d (encode_value v @ CHR '','' # rest) = Some (v, CHR '','' # rest)"
      using Cons.prems n False by (simp add: reads_back_def commas_Cons punctuation_ends)
    moreover have "json_elements m d rest = Some (vs, t)"
      unfolding rest_def by (rule Cons.IH) (use Cons.prems n False in \<open>auto simp: commas_Cons\<close>)
    ultimately show ?thesis using n False by (simp add: commas_Cons punctuation_skip rest_def)
  qed
qed simp

definition encode_member :: "string \<times> jtext \<Rightarrow> string" where
  "encode_member = (\<lambda>(k, v). encode_string k @ CHR '':'' # encode_value v)"

lemma member_key: "valid_text k \<Longrightarrow> json_chars (encode_chars k @ CHR 0x22 # t) = Some (k, t)"
  by (rule chars_roundtrip)

lemma members_read:
  assumes "list_all (\<lambda>(k, v). valid_text k \<and> reads_back d v) ms" and "ms \<noteq> []" and "2 * length (commas (map encode_member ms)) \<le> n"
  shows "json_members n d (commas (map encode_member ms) @ CHR 0x7D # t) = Some (ms, t)"
  using assms
proof (induction ms arbitrary: n)
  case (Cons kv ms)
  obtain k v where kv: "kv = (k, v)" by (cases kv)
  have k: "valid_text k" and v: "reads_back d v" using Cons.prems(1) kv by auto
  have len: "length (encode_member kv) = length (encode_chars k) + 3 + length (encode_value v)"
    by (simp add: kv encode_member_def encode_string_def)
  obtain m where n: "n = Suc m" using Cons.prems(3) len by (cases n) (auto simp: commas_Cons)
  have m: "2 * length (encode_value v) \<le> m" using Cons.prems(3) len n by (auto simp: commas_Cons split: if_splits)
  show ?case
  proof (cases "ms = []")
    case True
    have "json_value m d (encode_value v @ CHR 0x7D # t) = Some (v, CHR 0x7D # t)"
      using v m by (simp add: reads_back_def punctuation_ends)
    then show ?thesis using n True kv
      by (simp add: commas_Cons encode_member_def encode_string_def punctuation_skip member_key [OF k])
  next
    case False
    define rest where "rest = commas (map encode_member ms) @ CHR 0x7D # t"
    have "json_value m d (encode_value v @ CHR '','' # rest) = Some (v, CHR '','' # rest)"
      using v m by (simp add: reads_back_def punctuation_ends)
    moreover have "json_members m d rest = Some (ms, t)"
      unfolding rest_def by (rule Cons.IH) (use Cons.prems n len False in \<open>auto simp: commas_Cons\<close>)
    ultimately show ?thesis using n False kv
      by (simp add: commas_Cons encode_member_def encode_string_def punctuation_skip member_key [OF k] rest_def [unfolded encode_member_def])
  qed
qed simp

lemma encode_value_obj: "encode_value (VObj ms) = CHR 0x7B # commas (map encode_member ms) @ [CHR 0x7D]"
  by (simp add: encode_member_def)

lemma value_reads_back: "encodable d v \<Longrightarrow> reads_back d v"
proof (induction v arbitrary: d)
  case (VNum l)
  show ?case unfolding reads_back_def
  proof (intro allI impI, elim conjE)
    fix n t assume n: "2 * length (encode_value (VNum l)) \<le> n" and t: "ends_number t"
    have l: "json_number (l @ t) = Some (l, t)" "l \<noteq> []" "hd l = CHR ''-'' \<or> is_digit_ascii (hd l)"
      using VNum numeral_append [of l t] t by auto
    obtain c r where c: "l = c # r" using l(2) by (cases l) auto
    obtain m where m: "n = Suc m" using n l(2) by (cases n) auto
    have "\<not> json_blank c" using starts_value [OF VNum] c by simp
    moreover have "c \<noteq> CHR 0x7B \<and> c \<noteq> CHR ''['' \<and> c \<noteq> CHR 0x22" using l(3) c by (auto simp: is_digit_ascii_def byte_def)
    ultimately show "json_value n d (encode_value (VNum l) @ t) = Some (VNum l, t)"
      using l c m by (simp add: skip_blank_id)
  qed
next
  case (VArr vs)
  have all: "list_all (reads_back (d - 1)) vs" using VArr by (auto simp: list_all_iff)
  show ?case unfolding reads_back_def
  proof (intro allI impI, elim conjE)
    fix n t assume n: "2 * length (encode_value (VArr vs)) \<le> n"
    then obtain m where m: "n = Suc m" by (cases n) auto
    show "json_value n d (encode_value (VArr vs) @ t) = Some (VArr vs, t)"
    proof (cases vs)
      case Nil
      then show ?thesis using VArr.prems m by (simp add: punctuation_skip commas_def)
    next
      case (Cons v ws)
      then obtain c r where c: "encode_value v = c # r" "\<not> json_blank c" "c \<noteq> CHR '']''"
        using VArr.prems starts_value [of "d - 1" v] by auto
      have "json_elements m (d - 1) (commas (map encode_value vs) @ CHR '']'' # t) = Some (vs, t)"
        using elements_read [OF all] Cons n m by simp
      moreover have "commas (map encode_value vs) = c # r @ (if ws = [] then [] else CHR '','' # commas (map encode_value ws))"
        using Cons c(1) by (simp add: commas_Cons)
      ultimately show ?thesis using VArr.prems m c by (simp add: punctuation_skip skip_blank_id)
    qed
  qed
next
  case (VObj ms)
  have all: "list_all (\<lambda>(k, v). valid_text k \<and> reads_back (d - 1) v) ms"
    using VObj by (fastforce simp: list_all_iff)
  show ?case unfolding reads_back_def encode_value_obj
  proof (intro allI impI, elim conjE)
    fix n t assume n: "2 * length (CHR 0x7B # commas (map encode_member ms) @ [CHR 0x7D]) \<le> n"
    then obtain m where m: "n = Suc m" by (cases n) auto
    show "json_value n d ((CHR 0x7B # commas (map encode_member ms) @ [CHR 0x7D]) @ t) = Some (VObj ms, t)"
    proof (cases ms)
      case Nil
      then show ?thesis using VObj.prems m by (simp add: punctuation_skip commas_def)
    next
      case (Cons kv ws)
      have "json_members m (d - 1) (commas (map encode_member ms) @ CHR 0x7D # t) = Some (ms, t)"
        using members_read [OF all] Cons n m by simp
      moreover obtain r where "commas (map encode_member ms) = CHR 0x22 # r"
        using Cons by (cases kv) (simp add: commas_Cons encode_member_def encode_string_def)
      ultimately show ?thesis using VObj.prems m by (simp add: punctuation_skip)
    qed
  qed
next
  case VNull
  show ?case unfolding reads_back_def
  proof (intro allI impI, elim conjE)
    fix n t assume "2 * length (encode_value VNull) \<le> n"
    then obtain m where "n = Suc m" by (cases n) auto
    then show "json_value n d (encode_value VNull @ t) = Some (VNull, t)"
      by (simp add: skip_blank_def json_blank_def json_word_def is_digit_ascii_def byte_def)
  qed
next
  case (VBool b)
  show ?case unfolding reads_back_def
  proof (intro allI impI, elim conjE)
    fix n t assume "2 * length (encode_value (VBool b)) \<le> n"
    then obtain m where "n = Suc m" by (cases n) (auto split: if_splits)
    then show "json_value n d (encode_value (VBool b) @ t) = Some (VBool b, t)"
      by (simp add: skip_blank_def json_blank_def json_word_def is_digit_ascii_def byte_def)
  qed
next
  case (VStr s)
  show ?case unfolding reads_back_def
  proof (intro allI impI, elim conjE)
    fix n t assume "2 * length (encode_value (VStr s)) \<le> n"
    then obtain m where "n = Suc m" by (cases n) (auto simp: encode_string_def)
    then show "json_value n d (encode_value (VStr s) @ t) = Some (VStr s, t)"
      using VStr by (simp add: encode_string_def punctuation_skip member_key)
  qed
qed

text \<open>The decoder returns only encodable values.\<close>

lemma json_word_encodable: "json_word s = Some (v, r) \<Longrightarrow> encodable d v"
  by (auto simp: json_word_def split: if_splits)

lemma decoded_encodable:
  "json_value n d s = Some (v, r) \<Longrightarrow> encodable d v"
  "json_elements n d s = Some (vs, r) \<Longrightarrow> list_all (encodable d) vs"
  "json_members n d s = Some (ms, r) \<Longrightarrow> list_all (\<lambda>(k, v). valid_text k \<and> encodable d v) ms"
proof (induction n d s and n d s and n d s arbitrary: v r and vs r and ms r rule: json_value_json_elements_json_members.induct)
  case (2 n d s)
  from "2.prems" obtain c q where s: "skip_blank s = c # q" by (auto split: list.splits)
  show ?case
    using "2.prems" "2.IH"(1) [OF s] "2.IH"(2) [OF s]
    by (auto simp: s json_word_encodable split: if_splits list.splits intro: number_numeral json_chars_valid)
next
  case (4 n d s)
  then show ?case by (auto split: option.splits list.splits if_splits)
next
  case (6 n d s)
  then show ?case by (auto split: option.splits list.splits if_splits dest!: json_chars_valid)
qed simp_all

section \<open>The canonical form\<close>

fun distinct_keys :: "jtext \<Rightarrow> bool" where
  "distinct_keys (VArr vs) = list_all distinct_keys vs"
| "distinct_keys (VObj ms) = (distinct (map fst ms) \<and> list_all (\<lambda>(k, v). distinct_keys v) ms)"
| "distinct_keys v = True"

lemma last_wins_keys: "map fst (last_wins ms) = sort (remdups (map fst ms))"
  by (simp add: last_wins_def comp_def)

lemma map_of_rev_key: "k \<in> set (map fst ms) \<Longrightarrow> \<exists>v. map_of (rev ms) k = Some v"
  using map_of_eq_None_iff [of "rev ms" k] by (cases "map_of (rev ms) k") auto

lemma last_wins_subset: "set (last_wins ms) \<subseteq> set ms"
proof
  fix kv assume "kv \<in> set (last_wins ms)"
  then obtain k where k: "k \<in> set (map fst ms)" "kv = (k, the (map_of (rev ms) k))"
    by (auto simp: last_wins_def)
  obtain v where "map_of (rev ms) k = Some v" using map_of_rev_key [OF k(1)] by blast
  then show "kv \<in> set ms" using k(2) map_of_SomeD by fastforce
qed

lemma last_wins_map: "map_of (last_wins ms) = map_of (rev ms)"
proof
  fix k
  show "map_of (last_wins ms) k = map_of (rev ms) k"
  proof (cases "k \<in> set (map fst ms)")
    case True
    obtain v where "map_of (rev ms) k = Some v" using map_of_rev_key [OF True] by blast
    then have "(k, v) \<in> set (last_wins ms)" using True by (force simp: last_wins_def)
    moreover have "distinct (map fst (last_wins ms))" by (simp add: last_wins_keys)
    ultimately show ?thesis using \<open>map_of (rev ms) k = Some v\<close> by simp
  next
    case False
    then have "k \<notin> set (map fst (last_wins ms))" "k \<notin> set (map fst (rev ms))" by (simp_all add: last_wins_keys)
    then have "map_of (last_wins ms) k = None" "map_of (rev ms) k = None" unfolding map_of_eq_None_iff by simp_all
    then show ?thesis by simp
  qed
qed

lemma canonical_encodable: "encodable d v \<Longrightarrow> encodable d (canonical v)"
proof (induction v arbitrary: d)
  case (VObj ms)
  have "list_all (\<lambda>(k, v). valid_text k \<and> encodable (d - 1) v) (map (\<lambda>(k, v). (k, canonical v)) ms)"
    using VObj by (fastforce simp: list_all_iff)
  then show ?case using VObj.prems last_wins_subset by (fastforce simp: list_all_iff)
qed (auto simp: list_all_iff)

lemma canonical_distinct: "distinct_keys (canonical v)"
proof (induction v)
  case (VObj ms)
  have "list_all (\<lambda>(k, v). distinct_keys v) (map (\<lambda>(k, v). (k, canonical v)) ms)"
    using VObj by (fastforce simp: list_all_iff)
  then show ?case using last_wins_subset by (fastforce simp: list_all_iff last_wins_keys)
qed (auto simp: list_all_iff)

text \<open>A canonical value is its own canonical form.\<close>

lemma last_wins_id: "sorted (map fst ms) \<Longrightarrow> distinct (map fst ms) \<Longrightarrow> last_wins ms = ms"
proof -
  assume s: "sorted (map fst ms)" and d: "distinct (map fst ms)"
  have "the (map_of (rev ms) k) = v" if "(k, v) \<in> set ms" for k v
    using that d map_of_is_SomeI [of "rev ms" k v] by (simp add: rev_map [symmetric])
  then have "map (\<lambda>k. (k, the (map_of (rev ms) k))) (map fst ms) = ms" by (auto intro!: map_idI)
  then show ?thesis using s d by (simp add: last_wins_def distinct_remdups_id sorted_sort_id)
qed

lemma canonical_idem: "canonical (canonical v) = canonical v"
proof (induction v)
  case (VObj ms)
  define cs where "cs = map (\<lambda>(k, v). (k, canonical v)) ms"
  have "\<forall>(k, v)\<in>set cs. canonical v = v" using VObj by (fastforce simp: cs_def)
  then have "\<forall>(k, v)\<in>set (last_wins cs). canonical v = v" using last_wins_subset by blast
  then have "map (\<lambda>(k, v). (k, canonical v)) (last_wins cs) = last_wins cs" by (auto intro!: map_idI)
  moreover have "last_wins (last_wins cs) = last_wins cs" by (rule last_wins_id) (simp_all add: last_wins_keys)
  ultimately show ?case by (simp add: cs_def)
qed auto

text \<open>A document that is written in canonical form is read back.\<close>

lemma decode_encoded: "encodable maxNestingDepth v \<Longrightarrow> ends_number t \<Longrightarrow> decode_value (encode_value v @ t) = Some (v, t)"
proof -
  assume v: "encodable maxNestingDepth v" and t: "ends_number t"
  have "2 * length (encode_value v) \<le> 2 * length (encode_value v @ t) + 2" by simp
  then show ?thesis using value_reads_back [OF v] t unfolding decode_value_def reads_back_def by blast
qed

lemma parse_encoded: "encodable maxNestingDepth v \<Longrightarrow> skip_blank t = [] \<Longrightarrow> ends_number t \<Longrightarrow> parse_document (encode_value v @ t) = Some v"
  by (simp add: parse_document_def decode_encoded)

lemma decoded_document: "decode_value s = Some (v, r) \<Longrightarrow> encodable maxNestingDepth v"
  unfolding decode_value_def by (rule decoded_encodable(1))

lemma parsed_document: "parse_document s = Some v \<Longrightarrow> encodable maxNestingDepth v"
  by (auto simp: parse_document_def split: option.splits if_splits dest: decoded_document)

end
