(* ===== verification/Json_Stream.thy ===== *)
theory Json_Stream
  imports Json_Text
begin

text \<open>
  The streaming side of the JSON decoder: what a value's text is, that reading a value does not depend on what
  follows it, and the token streams over the members of an object and the elements of an array that the
  envelope gate (\<^verbatim>\<open>src/internal/mcp/envelope.go\<close>) scans.
\<close>

section \<open>The text of a value\<close>

text \<open>What is read as a value does not depend on the text after it, and the text of a value is read again as that
  value. A string literal ends with its closing quote.\<close>

lemma getu4_no_quote: "getu4 s = Some n \<Longrightarrow> 6 \<le> length s \<and> CHR 0x22 \<notin> set (take 6 s)"
proof -
  assume g: "getu4 s = Some n"
  have q: "hex_nibble (CHR 0x22) = None" by code_simp
  from g obtain b u w x y z r where s: "s = b # u # w # x # y # z # r" "b = CHR 0x5C" "u = CHR ''u''"
      "hex_nibble w \<noteq> None" "hex_nibble x \<noteq> None" "hex_nibble y \<noteq> None" "hex_nibble z \<noteq> None"
    unfolding getu4_def by (auto split: list.splits if_splits option.splits)
  then have "w \<noteq> CHR 0x22" "x \<noteq> CHR 0x22" "y \<noteq> CHR 0x22" "z \<noteq> CHR 0x22" using q by auto
  then show ?thesis using s by simp
qed

lemma getu4_take: "6 \<le> length s \<Longrightarrow> getu4 (s @ t) = getu4 s"
proof -
  assume "6 \<le> length s"
  then obtain a b c d e f r where "s = a # b # c # d # e # f # r"
    by (auto simp: eval_nat_numeral Suc_le_length_iff)
  then show ?thesis by (simp add: getu4_def)
qed

lemma getu4_quote: "getu4 (w @ CHR 0x22 # r) = getu4 (w @ CHR 0x22 # t)"
proof (cases "6 \<le> length w")
  case True
  then show ?thesis by (simp add: getu4_take)
next
  case False
  have "getu4 (w @ CHR 0x22 # t) = None" for t
  proof (cases "getu4 (w @ CHR 0x22 # t)")
    case (Some n)
    have "CHR 0x22 \<in> set (take 6 (w @ CHR 0x22 # t))" using False by (simp add: take_Cons')
    then show ?thesis using getu4_no_quote [OF Some] by simp
  qed
  then show ?thesis by simp
qed

lemma rune_width_quote: "w \<noteq> [] \<Longrightarrow> rune_width (w @ CHR 0x22 # r) = rune_width (w @ CHR 0x22 # t)"
proof -
  have q: "\<not> in_range lo hi (CHR 0x22)" if "lo \<ge> 128" for lo hi using that by (simp add: in_range_def byte_def)
  assume "w \<noteq> []"
  then consider a where "w = [a]" | a b where "w = [a, b]" | a b c where "w = [a, b, c]" | a b c d e where "w = a # b # c # d # e"
    by (metis neq_Nil_conv)
  then show ?thesis by cases (simp_all add: rune_width_def q split: list.split)
qed

lemma string_unit_length: "string_unit s = Some (u, k) \<Longrightarrow> 1 \<le> k \<and> k \<le> length s"
  using rune_width_length [of s] getu4_no_quote [of s] getu4_no_quote [of "drop 6 s"]
  by (auto simp: string_unit_def split: list.splits if_splits option.splits)

lemma string_unit_quote:
  assumes "string_unit (w @ CHR 0x22 # r) = Some (u, k)" and "k \<le> length w"
  shows "string_unit (w @ CHR 0x22 # t) = Some (u, k)"
proof -
  have "w \<noteq> []" using assms string_unit_length [OF assms(1)] by auto
  then obtain c w1 where w: "w = c # w1" by (cases w) auto
  have rw: "rune_width (w @ CHR 0x22 # t) = rune_width (w @ CHR 0x22 # r)" using rune_width_quote [OF \<open>w \<noteq> []\<close>] .
  show ?thesis
  proof (cases "c = CHR 0x5C")
    case False
    then have "rune_width (w @ CHR 0x22 # r) \<le> length w"
      using assms w by (auto simp: string_unit_def split: if_splits)
    then have "take (rune_width (w @ CHR 0x22 # r)) (w @ CHR 0x22 # t) = take (rune_width (w @ CHR 0x22 # r)) (w @ CHR 0x22 # r)" by simp
    then show ?thesis using assms(1) False rw unfolding string_unit_def by (simp only: w append_Cons list.case if_False)
  next
    case True
    have "2 \<le> k" using assms(1) True w by (auto simp: string_unit_def split: list.splits if_splits option.splits)
    then obtain e w2 where w1: "w1 = e # w2" using assms(2) w by (cases w1) auto
    show ?thesis
    proof (cases "e = CHR ''u''")
      case False
      then show ?thesis using assms(1) True w w1 by (simp add: string_unit_def)
    next
      case u: True
      have g: "getu4 (w @ CHR 0x22 # t) = getu4 (w @ CHR 0x22 # r)" by (rule getu4_quote)
      have "6 \<le> length w" using assms True w w1 u by (auto simp: string_unit_def split: option.splits if_splits)
      then have "drop 6 (w @ x) = drop 6 w @ x" for x by simp
      then have g2: "getu4 (drop 6 (w @ CHR 0x22 # t)) = getu4 (drop 6 (w @ CHR 0x22 # r))" using getu4_quote by simp
      have eq: "string_unit (w @ y) =
          (case getu4 (w @ y) of
             None \<Rightarrow> None
           | Some n \<Rightarrow>
               if surrogate n then
                 (case getu4 (drop 6 (w @ y)) of
                    None \<Rightarrow> Some (replacement, 6)
                  | Some m \<Rightarrow> (case decode_pair n m of None \<Rightarrow> Some (replacement, 6) | Some k \<Rightarrow> Some (utf8_encode k, 12)))
               else Some (utf8_encode n, 6))" for y
        unfolding string_unit_def w w1 u True by simp
      show ?thesis using assms(1) unfolding eq g g2 .
    qed
  qed
qed

lemma json_chars_local:
  assumes "json_chars s = Some (x, r)"
  shows "\<exists>w. s = w @ CHR 0x22 # r \<and> (\<forall>t. json_chars (w @ CHR 0x22 # t) = Some (x, t))"
  using assms
proof (induction s arbitrary: x r rule: json_chars.induct)
  case (1 s)
  from "1.prems" obtain c s1 where s: "s = c # s1" by (cases s) (simp_all add: json_chars.simps)
  show ?case
  proof (cases "c = CHR 0x22")
    case True
    then have "s = [] @ CHR 0x22 # r \<and> (\<forall>t. json_chars ([] @ CHR 0x22 # t) = Some (x, t))"
      using "1.prems" s by (simp add: json_chars_Cons)
    then show ?thesis by blast
  next
    case False
    obtain u k x1 where u: "string_unit s = Some (u, k)" "json_chars (drop (k - 1) s1) = Some (x1, r)" "x = u @ x1"
      using "1.prems" s False by (auto simp: json_chars_Cons split: option.splits)
    obtain w1 where w1: "drop (k - 1) s1 = w1 @ CHR 0x22 # r" "\<forall>t. json_chars (w1 @ CHR 0x22 # t) = Some (x1, t)"
      using "1.IH" [OF s False u(1) refl u(2)] by blast
    have k: "1 \<le> k" "k \<le> length s" using string_unit_length [OF u(1)] by auto
    define w where "w = take k s @ w1"
    have sw: "s = w @ CHR 0x22 # r"
    proof -
      obtain j where j: "k = Suc j" using k(1) by (cases k) auto
      have "drop k s = w1 @ CHR 0x22 # r" using w1(1) unfolding s j by simp
      then show ?thesis unfolding w_def append.assoc by (metis append_take_drop_id)
    qed
    have lw: "k \<le> length w" using k by (simp add: w_def)
    have "json_chars (w @ CHR 0x22 # t) = Some (x, t)" for t
    proof -
      have "string_unit (w @ CHR 0x22 # t) = Some (u, k)" using string_unit_quote [OF u(1) [unfolded sw] lw] .
      moreover have "w @ CHR 0x22 # t = c # take (k - 1) s1 @ w1 @ CHR 0x22 # t" using s k by (cases k) (simp_all add: w_def)
      moreover have "length (take (k - 1) s1) = k - 1" using k s by simp
      ultimately show ?thesis using w1(2) u(3) False by (simp add: json_chars_Cons)
    qed
    then show ?thesis using sw by blast
  qed
qed

definition blanks :: "string \<Rightarrow> string" where "blanks s = takeWhile json_blank s"

lemma blanks_skip: "s = blanks s @ skip_blank s"
  by (simp add: blanks_def skip_blank_def)

lemma skip_blanks: "skip_blank (blanks s @ t) = skip_blank t"
proof -
  have "\<forall>c\<in>set (blanks s). json_blank c" by (auto simp: blanks_def dest: set_takeWhileD)
  then show ?thesis by (simp add: skip_blank_def dropWhile_append2)
qed

lemma skip_blank_idem: "skip_blank (skip_blank s) = skip_blank s"
  by (simp add: skip_blank_def)

lemma skip_blank_head: "skip_blank s = c # r \<Longrightarrow> \<not> json_blank c"
  unfolding skip_blank_def by (metis dropWhile_eq_Cons_conv)

lemma ends_number_blanks: "ends_number t \<Longrightarrow> ends_number (blanks s @ t)"
proof (cases "blanks s")
  case (Cons c b)
  then have "json_blank c" by (metis blanks_def list.set_intros(1) set_takeWhileD)
  then show ?thesis using Cons by (auto simp: json_blank_def ends_number_def is_digit_ascii_def byte_def)
qed simp

lemma json_value_skip: "json_value n d (skip_blank s) = json_value n d s"
  by (cases n) (simp_all add: skip_blank_idem)

lemma json_value_blanks: "json_value n d (blanks s @ t) = json_value n d t"
  using json_value_skip [of n d "blanks s @ t"] json_value_skip [of n d t] by (simp add: skip_blanks)

definition value_text :: "string \<Rightarrow> int \<Rightarrow> jtext \<Rightarrow> bool" where
  "value_text p d v \<longleftrightarrow> (\<exists>c q. p = c # q \<and> \<not> json_blank c)
     \<and> (\<forall>m e t. 2 * length p \<le> m \<and> d \<le> e \<and> ends_number t \<longrightarrow> json_value m e (p @ t) = Some (v, t))"

definition elements_text :: "string \<Rightarrow> int \<Rightarrow> jtext list \<Rightarrow> bool" where
  "elements_text p d vs \<longleftrightarrow> (\<exists>c q. skip_blank p = c # q)
     \<and> (\<forall>m e t. 2 * length p \<le> m \<and> d \<le> e \<longrightarrow> json_elements m e (p @ t) = Some (vs, t))"

definition members_text :: "string \<Rightarrow> int \<Rightarrow> (string \<times> jtext) list \<Rightarrow> bool" where
  "members_text p d ms \<longleftrightarrow> (\<exists>c q. skip_blank p = c # q)
     \<and> (\<forall>m e t. 2 * length p \<le> m \<and> d \<le> e \<longrightarrow> json_members m e (p @ t) = Some (ms, t))"

lemma skip_blank_append: "skip_blank p = c # q \<Longrightarrow> skip_blank (p @ t) = c # q @ t"
  using blanks_skip [of p] skip_blanks [of p "c # q @ t"] skip_blank_head [of p c q]
  by (metis append_Cons append_assoc skip_blank_id)

lemma value_textD: "value_text p d v \<Longrightarrow> 2 * length p \<le> m \<Longrightarrow> d \<le> e \<Longrightarrow> ends_number t \<Longrightarrow> json_value m e (p @ t) = Some (v, t)"
  by (simp add: value_text_def)

text \<open>The texts of the composite values.\<close>

lemma string_text: "json_chars r = Some (x, rest) \<Longrightarrow> \<exists>p. CHR 0x22 # r = p @ rest \<and> value_text p d (VStr x)"
proof -
  assume "json_chars r = Some (x, rest)"
  then obtain w where w: "r = w @ CHR 0x22 # rest" "\<And>t. json_chars (w @ CHR 0x22 # t) = Some (x, t)" using json_chars_local by blast
  have "json_value m e ((CHR 0x22 # w @ [CHR 0x22]) @ t) = Some (VStr x, t)" if "2 * length (CHR 0x22 # w @ [CHR 0x22]) \<le> m" for m e t
    using that w(2) by (cases m) (simp_all add: punctuation_skip)
  then have "value_text (CHR 0x22 # w @ [CHR 0x22]) d (VStr x)" by (auto simp: value_text_def json_blank_def)
  then show ?thesis using w(1) by (intro exI [of _ "CHR 0x22 # w @ [CHR 0x22]"]) simp
qed

lemma number_text:
  assumes "json_number s = Some (l, rest)"
  shows "s = l @ rest \<and> value_text l d (VNum l)"
proof -
  have "encodable d (VNum l)" using number_numeral [OF assms] by simp
  then have "reads_back e (VNum l)" for e using value_reads_back [of e "VNum l"] by simp
  moreover have "\<exists>c q. l = c # q \<and> \<not> json_blank c" using starts_value [OF \<open>encodable d (VNum l)\<close>] by auto
  ultimately show ?thesis using number_append [OF assms, of "[]"] by (simp add: value_text_def reads_back_def ends_number_def)
qed

lemma word_text:
  assumes "json_word s = Some (v, rest)"
  shows "\<exists>p. s = p @ rest \<and> value_text p d v"
proof -
  have sw: "s = p @ drop (length p) s" if "starts_with p s" for p
    using that by (induction p s rule: starts_with.induct) auto
  have w: "v = VNull \<or> v = VBool True \<or> v = VBool False" "starts_with (encode_value v) s" "rest = drop (length (encode_value v)) s"
    using assms by (auto simp: json_word_def eval_nat_numeral split: if_splits)
  have e: "encodable e v" for e using w(1) by auto
  have "value_text (encode_value v) d v"
    using value_reads_back [OF e] starts_value [OF e] by (auto simp: value_text_def reads_back_def)
  then show ?thesis using sw [OF w(2)] w(3) by metis
qed

lemma after_value:
  assumes "value_text p d v" and "2 * length p \<le> m" and "d \<le> e" and "ends_number (y # u)"
  shows "json_value m e (blanks s @ p @ blanks r @ y # u) = Some (v, blanks r @ y # u)"
  unfolding json_value_blanks using value_textD [OF assms(1-3)] ends_number_blanks [OF assms(4)] by simp

lemma elements_text_step:
  assumes v: "skip_blank s = p @ r" "value_text p d v" and x: "skip_blank r = x # r1"
    and tail: "x = CHR '']'' \<and> vs = [v] \<and> q = [] \<or> x = CHR '','' \<and> (\<exists>ws. vs = v # ws \<and> elements_text q d ws)"
  shows "elements_text (blanks s @ p @ blanks r @ x # q) d vs"
proof -
  have nb: "skip_blank (blanks r @ x # u) = x # u" for u
    using skip_blanks [of r "x # u"] skip_blank_id [OF skip_blank_head [OF x], of u] by simp
  have en: "ends_number (x # u)" for u using tail punctuation_ends by auto
  have step: "json_elements m e ((blanks s @ p @ blanks r @ x # q) @ t) = Some (vs, t)"
    if le: "2 * length (blanks s @ p @ blanks r @ x # q) \<le> m" and de: "d \<le> e" for m e t
  proof -
    obtain k where k: "m = Suc k" using le by (cases m) auto
    have "json_value k e (blanks s @ p @ blanks r @ x # (q @ t)) = Some (v, blanks r @ x # (q @ t))"
      by (rule after_value [OF v(2)]) (use le de k en in auto)
    moreover have "json_elements k e (q @ t) = Some (ws, t)" if "elements_text q d ws" for ws
      using that le de k by (simp add: elements_text_def)
    ultimately show ?thesis using tail by (auto simp: k nb)
  qed
  obtain c p1 where c: "p = c # p1" "\<not> json_blank c" using v(2) by (auto simp: value_text_def)
  have "\<exists>c q'. skip_blank (blanks s @ p @ blanks r @ x # q) = c # q'"
    using c skip_blanks [of s] by (simp add: skip_blank_id)
  then show ?thesis using step by (simp add: elements_text_def)
qed

lemma members_text_step:
  assumes k: "skip_blank s = CHR 0x22 # r0" "json_chars r0 = Some (key, r1)" and colon: "skip_blank r1 = CHR '':'' # r2"
    and v: "skip_blank r2 = p @ r" "value_text p d v" and x: "skip_blank r = x # r3"
    and tail: "x = CHR 0x7D \<and> ms = [(key, v)] \<and> q = [] \<or> x = CHR '','' \<and> (\<exists>ns. ms = (key, v) # ns \<and> members_text q d ns)"
  shows "\<exists>a. s = a @ blanks r2 @ p @ r \<and> members_text (a @ blanks r2 @ p @ blanks r @ x # q) d ms"
proof -
  obtain w where w: "r0 = w @ CHR 0x22 # r1" "\<And>t. json_chars (w @ CHR 0x22 # t) = Some (key, t)" using json_chars_local [OF k(2)] by blast
  define a where "a = blanks s @ CHR 0x22 # w @ CHR 0x22 # blanks r1 @ [CHR '':'']"
  have s: "s = a @ blanks r2 @ p @ r"
    using blanks_skip [of s] blanks_skip [of r1] blanks_skip [of r2] unfolding k(1) colon v(1) w(1) by (simp add: a_def)
  have nb: "skip_blank (blanks r @ x # u) = x # u" for u
    using skip_blanks [of r "x # u"] skip_blank_id [OF skip_blank_head [OF x], of u] by simp
  have en: "ends_number (x # u)" for u using tail punctuation_ends by auto
  have sa: "skip_blank (a @ u) = CHR 0x22 # w @ CHR 0x22 # blanks r1 @ CHR '':'' # u" for u
    by (simp add: a_def skip_blanks punctuation_skip)
  have step: "json_members m e ((a @ blanks r2 @ p @ blanks r @ x # q) @ t) = Some (ms, t)"
    if le: "2 * length (a @ blanks r2 @ p @ blanks r @ x # q) \<le> m" and de: "d \<le> e" for m e t
  proof -
    obtain k where k: "m = Suc k" using le by (cases m) auto
    have "json_value k e (blanks r2 @ p @ blanks r @ x # (q @ t)) = Some (v, blanks r @ x # (q @ t))"
      by (rule after_value [OF v(2)]) (use le de k en in auto)
    moreover have "json_members k e (q @ t) = Some (ns, t)" if "members_text q d ns" for ns
      using that le de k by (simp add: members_text_def)
    ultimately show ?thesis using tail
      by (auto simp: k nb sa [of "blanks r2 @ p @ blanks r @ x # (q @ t)", simplified] sa w(2) skip_blanks punctuation_skip)
  qed
  show ?thesis using s step sa [of "blanks r2 @ p @ blanks r @ x # q"] by (auto simp: members_text_def intro!: exI [of _ a])
qed

lemma array_text:
  assumes "elements_text q (d - 1) vs" and "0 < d" and "\<And>c u. skip_blank q = c # u \<Longrightarrow> c \<noteq> CHR '']''"
  shows "value_text (CHR ''['' # q) d (VArr vs)"
proof -
  obtain c u where c: "skip_blank q = c # u" using assms(1) by (auto simp: elements_text_def)
  have "json_value m e ((CHR ''['' # q) @ t) = Some (VArr vs, t)" if le: "2 * length (CHR ''['' # q) \<le> m" and de: "d \<le> e" for m e t
  proof -
    obtain k where k: "m = Suc k" using le by (cases m) auto
    have "json_elements k (e - 1) (q @ t) = Some (vs, t)" using assms(1) le de k by (simp add: elements_text_def)
    then show ?thesis using k de assms(2) assms(3) [OF c] skip_blank_append [OF c, of t] by (simp add: punctuation_skip)
  qed
  then show ?thesis by (auto simp: value_text_def json_blank_def)
qed

lemma object_text:
  assumes "members_text q (d - 1) ms" and "0 < d" and "\<And>c u. skip_blank q = c # u \<Longrightarrow> c \<noteq> CHR 0x7D"
  shows "value_text (CHR 0x7B # q) d (VObj ms)"
proof -
  obtain c u where c: "skip_blank q = c # u" using assms(1) by (auto simp: members_text_def)
  have "json_value m e ((CHR 0x7B # q) @ t) = Some (VObj ms, t)" if le: "2 * length (CHR 0x7B # q) \<le> m" and de: "d \<le> e" for m e t
  proof -
    obtain k where k: "m = Suc k" using le by (cases m) auto
    have "json_members k (e - 1) (q @ t) = Some (ms, t)" using assms(1) le de k by (simp add: members_text_def)
    then show ?thesis using k de assms(2) assms(3) [OF c] skip_blank_append [OF c, of t] by (simp add: punctuation_skip)
  qed
  then show ?thesis by (auto simp: value_text_def json_blank_def)
qed

lemma empty_text:
  assumes "skip_blank r = x # r1" and "0 < d" and "c = CHR ''['' \<and> x = CHR '']'' \<and> v = VArr [] \<or> c = CHR 0x7B \<and> x = CHR 0x7D \<and> v = VObj []"
  shows "c # r = (c # blanks r @ [x]) @ r1 \<and> value_text (c # blanks r @ [x]) d v"
proof -
  have "json_value m e ((c # blanks r @ [x]) @ t) = Some (v, t)" if "2 * length (c # blanks r @ [x]) \<le> m" "d \<le> e" for m e t
    using that assms(2,3) by (cases m) (auto simp: punctuation_skip skip_blanks)
  then show ?thesis using assms blanks_skip [of r] by (auto simp: value_text_def json_blank_def)
qed

lemma read_text:
  "json_value n d s = Some (v, r) \<Longrightarrow> \<exists>p. skip_blank s = p @ r \<and> value_text p d v"
  "json_elements n d s = Some (vs, r) \<Longrightarrow> \<exists>p. s = p @ r \<and> elements_text p d vs"
  "json_members n d s = Some (ms, r) \<Longrightarrow> \<exists>p. s = p @ r \<and> members_text p d ms"
proof (induction n d s and n d s and n d s arbitrary: v r and vs r and ms r rule: json_value_json_elements_json_members.induct)
  case (2 n d s)
  from "2.prems" obtain c q where s: "skip_blank s = c # q" by (auto split: list.splits)
  consider (obj) "c = CHR 0x7B" | (arr) "c = CHR ''[''" | (str) "c = CHR 0x22" | (num) "c = CHR ''-'' \<or> is_digit_ascii c" "c \<notin> {CHR 0x7B, CHR ''['', CHR 0x22}"
    | (word) "c \<notin> {CHR 0x7B, CHR ''['', CHR 0x22}" "\<not> (c = CHR ''-'' \<or> is_digit_ascii c)" by blast
  then show ?case
  proof cases
    case obj
    then obtain x q1 where x: "skip_blank q = x # q1" "0 < d" using "2.prems" s by (auto split: list.splits if_splits)
    show ?thesis
    proof (cases "x = CHR 0x7D")
      case True
      then have v: "v = VObj []" "r = q1" using "2.prems" s obj x by simp_all
      have "c # q = (c # blanks q @ [x]) @ q1 \<and> value_text (c # blanks q @ [x]) d v"
        by (rule empty_text [OF x]) (simp add: obj True v(1))
      then show ?thesis using s v(2) by (intro exI [of _ "c # blanks q @ [x]"]) simp
    next
      case False
      then obtain ms where ms: "json_members n (d - 1) q = Some (ms, r)" "v = VObj ms" using "2.prems" s obj x by auto
      then obtain p where p: "q = p @ r" "members_text p (d - 1) ms" using "2.IH"(1) [OF s obj _ x(1) False] x(2) by auto
      have "value_text (CHR 0x7B # p) d (VObj ms)"
        by (rule object_text [OF p(2) x(2)]) (use x(1) False skip_blank_append [of p _ _ r] p(1) in auto)
      then show ?thesis using s obj p(1) ms(2) by (intro exI [of _ "CHR 0x7B # p"]) simp
    qed
  next
    case arr
    then obtain x q1 where x: "skip_blank q = x # q1" "0 < d" using "2.prems" s by (auto split: list.splits if_splits)
    show ?thesis
    proof (cases "x = CHR '']''")
      case True
      then have v: "v = VArr []" "r = q1" using "2.prems" s arr x by simp_all
      have "c # q = (c # blanks q @ [x]) @ q1 \<and> value_text (c # blanks q @ [x]) d v"
        by (rule empty_text [OF x]) (simp add: arr True v(1))
      then show ?thesis using s v(2) by (intro exI [of _ "c # blanks q @ [x]"]) simp
    next
      case False
      then obtain vs where vs: "json_elements n (d - 1) q = Some (vs, r)" "v = VArr vs" using "2.prems" s arr x by auto
      then obtain p where p: "q = p @ r" "elements_text p (d - 1) vs" using "2.IH"(2) [OF s _ arr _ x(1) False] x(2) arr by auto
      have "value_text (CHR ''['' # p) d (VArr vs)"
        by (rule array_text [OF p(2) x(2)]) (use x(1) False skip_blank_append [of p _ _ r] p(1) in auto)
      then show ?thesis using s arr p(1) vs(2) by (intro exI [of _ "CHR ''['' # p"]) simp
    qed
  next
    case str
    then obtain x where "json_chars q = Some (x, r)" "v = VStr x" using "2.prems" s by auto
    then show ?thesis using string_text [of q x r d] s str by simp
  next
    case num
    then obtain l where "json_number (c # q) = Some (l, r)" "v = VNum l" using "2.prems" s by auto
    then show ?thesis using number_text [of "c # q" l r d] s by auto
  next
    case word
    then have "json_word (c # q) = Some (v, r)" using "2.prems" s by simp
    then show ?thesis using word_text [of "c # q" v r d] s by simp
  qed
next
  case (4 n d s)
  from "4.prems" obtain v r1 x r2 where v: "json_value n d s = Some (v, r1)" and x: "skip_blank r1 = x # r2"
    by (auto split: option.splits list.splits)
  obtain p where p: "skip_blank s = p @ r1" "value_text p d v" using "4.IH"(1) [OF v] by blast
  have s: "s = blanks s @ p @ blanks r1 @ x # r2" using blanks_skip [of s] blanks_skip [of r1] unfolding p(1) x by simp
  show ?case
  proof (cases "x = CHR '']''")
    case True
    then have "vs = [v]" "r = r2" using "4.prems" v x by auto
    then show ?thesis using elements_text_step [OF p x, of vs "[]"] True s by (intro exI [of _ "blanks s @ p @ blanks r1 @ [x]"]) simp
  next
    case False
    then obtain ws where ws: "x = CHR '',''" "json_elements n d r2 = Some (ws, r)" "vs = v # ws"
      using "4.prems" v x by (auto split: if_splits)
    obtain q where q: "r2 = q @ r" "elements_text q d ws" using "4.IH"(2) [OF v refl x False ws(1,2)] by blast
    then show ?thesis using elements_text_step [OF p x, of vs q] ws s by (intro exI [of _ "blanks s @ p @ blanks r1 @ x # q"]) simp
  qed
next
  case (6 n d s)
  from "6.prems" obtain r0 key r1 r2 v r3 x r4 where k: "skip_blank s = CHR 0x22 # r0" "json_chars r0 = Some (key, r1)"
      and c: "skip_blank r1 = CHR '':'' # r2" and v: "json_value n d r2 = Some (v, r3)" and x: "skip_blank r3 = x # r4"
    by (auto split: option.splits list.splits if_splits)
  obtain p where p: "skip_blank r2 = p @ r3" "value_text p d v"
    using "6.IH"(1) [OF k(1) _ k(2) refl c _ v] by auto
  have r3: "r3 = blanks r3 @ x # r4" using blanks_skip [of r3] unfolding x .
  show ?case
  proof (cases "x = CHR 0x7D")
    case True
    then have "ms = [(key, v)]" "r = r4" using "6.prems" k c v x by auto
    then obtain a where a: "s = a @ blanks r2 @ p @ r3" "members_text (a @ blanks r2 @ p @ blanks r3 @ [x]) d ms"
      using members_text_step [OF k c p x, of ms "[]"] True by auto
    then show ?thesis using r3 \<open>r = r4\<close> by (intro exI [of _ "a @ blanks r2 @ p @ blanks r3 @ [x]"]) simp
  next
    case False
    then obtain ns where ns: "x = CHR '',''" "json_members n d r4 = Some (ns, r)" "ms = (key, v) # ns"
      using "6.prems" k c v x by (auto split: if_splits)
    obtain q where q: "r4 = q @ r" "members_text q d ns"
      using "6.IH"(2) [OF k(1) _ k(2) refl c _ v refl x False ns(1,2)] by auto
    obtain a where a: "s = a @ blanks r2 @ p @ r3" "members_text (a @ blanks r2 @ p @ blanks r3 @ x # q) d ms"
      using members_text_step [OF k c p x, of ms q] ns q(2) by auto
    then show ?thesis using r3 q(1) by (intro exI [of _ "a @ blanks r2 @ p @ blanks r3 @ x # q"]) simp
  qed
qed simp_all

section \<open>Streams\<close>

text \<open>The text of the value that the decoder consumed (a \<^verbatim>\<open>json.RawMessage\<close>), without the blanks before it.\<close>

definition raw_of :: "string \<Rightarrow> string \<Rightarrow> string" where
  "raw_of s r = take (length (skip_blank s) - length r) (skip_blank s)"

text \<open>One member read by the token stream of a decoder: the name, the text of the value, the value and the rest.\<close>

definition member_at :: "string \<Rightarrow> (string \<times> string \<times> jtext \<times> string) option" where
  "member_at s =
     (case skip_blank s of
        [] \<Rightarrow> None
      | q # r0 \<Rightarrow>
          if q \<noteq> CHR 0x22 then None
          else case json_chars r0 of
            None \<Rightarrow> None
          | Some (k, r1) \<Rightarrow>
              (case skip_blank r1 of
                 [] \<Rightarrow> None
               | x # r2 \<Rightarrow>
                   if x \<noteq> CHR '':'' then None
                   else (case decode_value r2 of None \<Rightarrow> None | Some (v, r) \<Rightarrow> Some (k, raw_of r2 r, v, r))))"

text \<open>The members after the opening brace, up to the end of the object or the first error. The fuel is the length
  of the text; every member takes at least one byte.\<close>

fun member_stream :: "nat \<Rightarrow> bool \<Rightarrow> string \<Rightarrow> (string \<times> string \<times> jtext) list" where
  "member_stream 0 first s = []"
| "member_stream (Suc n) first s =
     (case skip_blank s of
        [] \<Rightarrow> []
      | x # r \<Rightarrow>
          if x = CHR '']'' \<or> x = CHR 0x7D then []
          else case (if first then member_at s else if x = CHR '','' then member_at r else None) of
                 None \<Rightarrow> []
               | Some (k, raw, v, rest) \<Rightarrow> (k, raw, v) # member_stream n False rest)"

definition object_members :: "string \<Rightarrow> (string \<times> string \<times> jtext) list" where
  "object_members data = (case skip_blank data of c # r \<Rightarrow> if c = CHR 0x7B then member_stream (length r) True r else [] | [] \<Rightarrow> [])"

text \<open>The elements after the opening bracket, likewise.\<close>

fun element_stream :: "nat \<Rightarrow> bool \<Rightarrow> string \<Rightarrow> (string \<times> jtext) list" where
  "element_stream 0 first s = []"
| "element_stream (Suc n) first s =
     (case skip_blank s of
        [] \<Rightarrow> []
      | x # r \<Rightarrow>
          if x = CHR '']'' \<or> x = CHR 0x7D then []
          else let t = (if first then s else r) in
               if \<not> first \<and> x \<noteq> CHR '','' then []
               else case decode_value t of None \<Rightarrow> [] | Some (v, rest) \<Rightarrow> (raw_of t rest, v) # element_stream n False rest)"

definition array_elements :: "string \<Rightarrow> (string \<times> jtext) list" where
  "array_elements data = (case skip_blank data of c # r \<Rightarrow> if c = CHR ''['' then element_stream (length r) True r else [] | [] \<Rightarrow> [])"

lemma decode_raw:
  assumes "decode_value s = Some (v, r)"
  shows "skip_blank s = raw_of s r @ r \<and> value_text (raw_of s r) maxNestingDepth v \<and> parse_document (raw_of s r) = Some v"
proof -
  obtain p where p: "skip_blank s = p @ r" "value_text p maxNestingDepth v"
    using read_text(1) assms unfolding decode_value_def by blast
  have r: "raw_of s r = p" by (simp add: raw_of_def p(1))
  have "json_value (2 * length p + 2) maxNestingDepth (p @ []) = Some (v, [])"
    by (rule value_textD [OF p(2)]) (simp_all add: ends_number_def)
  then have "parse_document p = Some v" by (simp add: parse_document_def decode_value_def punctuation_skip)
  then show ?thesis using p r by simp
qed

lemma decode_inside:
  assumes "json_value n d s = Some (v, r)" and "d \<le> maxNestingDepth" and "skip_blank r = x # r1" and "x = CHR '','' \<or> x = CHR '']'' \<or> x = CHR 0x7D"
  shows "decode_value s = Some (v, r)"
proof -
  obtain p where p: "skip_blank s = p @ r" "value_text p d v" using read_text(1) [OF assms(1)] by blast
  have s: "s = blanks s @ p @ r" using blanks_skip [of s] unfolding p(1) .
  have "ends_number (x # r1)" using assms(4) punctuation_ends by auto
  then have r: "ends_number r" using ends_number_blanks [of "x # r1" r] blanks_skip [of r] unfolding assms(3) by simp
  have "length p \<le> length s" using s by (metis le_add1 le_add2 le_trans length_append)
  then have "json_value (2 * length s + 2) maxNestingDepth (p @ r) = Some (v, r)"
    using value_textD [OF p(2) _ assms(2) r, of "2 * length s + 2"] by linarith
  then show ?thesis unfolding decode_value_def using json_value_blanks [of _ _ s "p @ r"] s by metis
qed

definition seen :: "string \<times> string \<times> jtext \<Rightarrow> string \<times> jtext" where "seen = (\<lambda>(k, raw, v). (k, v))"

lemma members_stream:
  assumes "json_members n d s = Some (ms, r)" and "d \<le> maxNestingDepth" and "length ms \<le> m"
    and "first \<and> u = s \<or> \<not> first \<and> skip_blank u = CHR '','' # s"
  shows "map seen (member_stream m first u) = ms"
  using assms
proof (induction ms arbitrary: n s m first u)
  case Nil
  then show ?case by (cases n) (auto split: option.splits list.splits if_splits)
next
  case (Cons kv ms)
  obtain n1 where n: "n = Suc n1" using Cons.prems(1) by (cases n) auto
  obtain m1 where m: "m = Suc m1" using Cons.prems(3) by (cases m) auto
  from Cons.prems(1) n obtain r0 key r1 r2 v r3 x r4 where k: "skip_blank s = CHR 0x22 # r0" "json_chars r0 = Some (key, r1)"
      and c: "skip_blank r1 = CHR '':'' # r2" and v: "json_value n1 d r2 = Some (v, r3)" and x: "skip_blank r3 = x # r4"
      and e: "x = CHR 0x7D \<and> kv # ms = [(key, v)] \<or> x = CHR '','' \<and> kv = (key, v) \<and> json_members n1 d r4 = Some (ms, r)"
    by (auto split: option.splits list.splits if_splits)
  have "decode_value r2 = Some (v, r3)" by (rule decode_inside [OF v Cons.prems(2) x]) (use e in auto)
  then have a: "member_at s = Some (key, raw_of r2 r3, v, r3)" using k c by (simp add: member_at_def)
  have "member_stream m first u = (key, raw_of r2 r3, v) # member_stream m1 False r3"
    using Cons.prems(4) a k(1) m by auto
  moreover have "map seen (member_stream m1 False r3) = ms"
  proof (cases "x = CHR 0x7D")
    case True
    then have "ms = []" using e by simp
    then show ?thesis using x True by (cases m1) simp_all
  next
    case False
    then show ?thesis using Cons.IH [of n1 r4 m1 False r3] Cons.prems(2,3) e x m by simp
  qed
  ultimately show ?case using e by (auto simp: seen_def)
qed

lemma elements_stream:
  assumes "json_elements n d s = Some (vs, r)" and "d \<le> maxNestingDepth" and "length vs \<le> m"
    and "first \<and> u = s \<and> (\<exists>c q. skip_blank s = c # q \<and> c \<noteq> CHR '']'' \<and> c \<noteq> CHR 0x7D) \<or> \<not> first \<and> skip_blank u = CHR '','' # s"
  shows "map snd (element_stream m first u) = vs"
  using assms
proof (induction vs arbitrary: n s m first u)
  case Nil
  then show ?case by (cases n) (auto split: option.splits list.splits if_splits)
next
  case (Cons v vs)
  obtain n1 where n: "n = Suc n1" using Cons.prems(1) by (cases n) auto
  obtain m1 where m: "m = Suc m1" using Cons.prems(3) by (cases m) auto
  from Cons.prems(1) n obtain r3 x r4 where v: "json_value n1 d s = Some (v, r3)" and x: "skip_blank r3 = x # r4"
      and e: "x = CHR '']'' \<and> vs = [] \<or> x = CHR '','' \<and> json_elements n1 d r4 = Some (vs, r)"
    by (auto split: option.splits list.splits if_splits)
  have "decode_value s = Some (v, r3)" by (rule decode_inside [OF v Cons.prems(2) x]) (use e in auto)
  then have "element_stream m first u = (raw_of s r3, v) # element_stream m1 False r3"
    using Cons.prems(4) m by auto
  moreover have "map snd (element_stream m1 False r3) = vs"
  proof (cases "x = CHR '']''")
    case True
    then have "vs = []" using e by simp
    then show ?thesis using x True by (cases m1) simp_all
  next
    case False
    then show ?thesis using Cons.IH [of n1 r4 m1 False r3] Cons.prems(2,3) e x m by simp
  qed
  ultimately show ?case by simp
qed

lemma skip_blank_length: "skip_blank s = c # r \<Longrightarrow> length r < length s"
  using blanks_skip [of s] by (metis add_strict_increasing2 length_Cons length_append lessI less_imp_le_nat zero_le le_add2 order_less_le_trans)

lemma json_value_length: "json_value n d s = Some (v, r) \<Longrightarrow> length r < length s"
proof -
  assume "json_value n d s = Some (v, r)"
  then obtain p where "skip_blank s = p @ r" "value_text p d v" using read_text(1) by blast
  then obtain c q where "skip_blank s = c # q @ r" by (auto simp: value_text_def)
  then show ?thesis using skip_blank_length by fastforce
qed

lemma json_chars_length: "json_chars s = Some (x, r) \<Longrightarrow> length r < length s"
  using json_chars_local by fastforce

lemma members_length: "json_members n d s = Some (ms, r) \<Longrightarrow> length ms \<le> length s"
proof (induction ms arbitrary: n s)
  case (Cons kv ms)
  obtain n1 where n: "n = Suc n1" using Cons.prems by (cases n) auto
  from Cons.prems n obtain r0 key r1 r2 v r3 x r4 where k: "skip_blank s = CHR 0x22 # r0" "json_chars r0 = Some (key, r1)"
      and c: "skip_blank r1 = CHR '':'' # r2" and v: "json_value n1 d r2 = Some (v, r3)" and x: "skip_blank r3 = x # r4"
      and e: "x = CHR 0x7D \<and> kv # ms = [(key, v)] \<or> x = CHR '','' \<and> kv = (key, v) \<and> json_members n1 d r4 = Some (ms, r)"
    by (auto split: option.splits list.splits if_splits)
  have "length r4 < length s"
    using skip_blank_length [OF k(1)] json_chars_length [OF k(2)] skip_blank_length [OF c] json_value_length [OF v] skip_blank_length [OF x] by linarith
  moreover have "length ms \<le> length r4" using Cons.IH [of n1 r4] e by auto
  ultimately show ?case by simp
qed simp

lemma elements_length: "json_elements n d s = Some (vs, r) \<Longrightarrow> length vs \<le> length s"
proof (induction vs arbitrary: n s)
  case (Cons v vs)
  obtain n1 where n: "n = Suc n1" using Cons.prems by (cases n) auto
  from Cons.prems n obtain r3 x r4 where v: "json_value n1 d s = Some (v, r3)" and x: "skip_blank r3 = x # r4"
      and e: "x = CHR '']'' \<and> vs = [] \<or> x = CHR '','' \<and> json_elements n1 d r4 = Some (vs, r)"
    by (auto split: option.splits list.splits if_splits)
  have "length r4 < length s" using json_value_length [OF v] skip_blank_length [OF x] by linarith
  moreover have "length vs \<le> length r4" using Cons.IH [of n1 r4] e by auto
  ultimately show ?case by simp
qed simp

text \<open>On a well-formed document the streams see exactly the members and the elements of the parsed value.\<close>

lemma decode_object:
  assumes "decode_value s = Some (VObj ms, r)"
  shows "map seen (object_members s) = ms"
proof -
  obtain n where n: "json_value (Suc n) maxNestingDepth s = Some (VObj ms, r)"
    using assms unfolding decode_value_def by (metis add_2_eq_Suc')
  then obtain c q where s: "skip_blank s = c # q" by (auto split: list.splits)
  have c: "c = CHR 0x7B" using n s by (auto simp: json_word_def split: if_splits list.splits)
  obtain x q1 where x: "skip_blank q = x # q1" using n s c by (auto split: list.splits if_splits)
  show ?thesis
  proof (cases "x = CHR 0x7D")
    case True
    then have "ms = []" using n s c x by (auto split: if_splits)
    then show ?thesis using s c x True by (cases q) (simp_all add: object_members_def)
  next
    case False
    then have m: "json_members n (maxNestingDepth - 1) q = Some (ms, r)" using n s c x by (auto split: if_splits)
    show ?thesis unfolding object_members_def s list.case if_P [OF c]
      by (rule members_stream [OF m]) (use members_length [OF m] in auto)
  qed
qed

lemma decode_array:
  assumes "decode_value s = Some (VArr vs, r)"
  shows "map snd (array_elements s) = vs"
proof -
  obtain n where n: "json_value (Suc n) maxNestingDepth s = Some (VArr vs, r)"
    using assms unfolding decode_value_def by (metis add_2_eq_Suc')
  then obtain c q where s: "skip_blank s = c # q" by (auto split: list.splits)
  have c: "c = CHR ''[''" using n s by (auto simp: json_word_def split: if_splits list.splits)
  obtain x q1 where x: "skip_blank q = x # q1" using n s c by (auto split: list.splits if_splits)
  show ?thesis
  proof (cases "x = CHR '']''")
    case True
    then have "vs = []" using n s c x by (auto split: if_splits)
    then show ?thesis using s c x True by (cases q) (simp_all add: array_elements_def)
  next
    case False
    then have m: "json_elements n (maxNestingDepth - 1) q = Some (vs, r)" using n s c x by (auto split: if_splits)
    obtain k where k: "n = Suc k" using m by (cases n) auto
    obtain v r3 where "json_value k (maxNestingDepth - 1) q = Some (v, r3)" using m k by (auto split: option.splits)
    then have "x \<noteq> CHR 0x7D" using x by (cases k) (auto simp: json_word_def is_digit_ascii_def byte_def)
    then show ?thesis unfolding array_elements_def s list.case if_P [OF c]
      by (intro elements_stream [OF m]) (use elements_length [OF m] x False in auto)
  qed
qed

lemma element_stream_raw: "(raw, v) \<in> set (element_stream n first s) \<Longrightarrow> parse_document raw = Some v"
  by (induction n arbitrary: first s) (auto simp: Let_def decode_raw split: list.splits if_splits option.splits)

lemma member_stream_raw: "(k, raw, v) \<in> set (member_stream n first s) \<Longrightarrow> parse_document raw = Some v"
proof (induction n arbitrary: first s)
  case (Suc n)
  have at: "parse_document raw = Some v" if "member_at t = Some (k, raw, v, rest)" for t rest
    using that by (auto simp: member_at_def decode_raw split: list.splits if_splits option.splits)
  show ?case using Suc.prems Suc.IH at [OF sym] by (auto split: list.splits if_splits option.splits)
qed simp

end
