(* ===== verification/Client_Envelope.thy ===== *)
theory Client_Envelope
  imports Json_Stream
begin

text \<open>
  The client envelope gate, first part: the classification of client messages (\<^verbatim>\<open>src/internal/mcp/envelope.go\<close>) and the canonical
  form of a message (\<^verbatim>\<open>src/internal/mcp/canonicalize.go\<close>).
  Messages are byte strings; the only parameter is
  num, the float64 value of a number literal, None when it is out of range.
\<close>

section \<open>Messages\<close>

definition JSONRPCVersion :: string where "JSONRPCVersion = ''2.0''"
definition MethodToolsCall :: string where "MethodToolsCall = ''tools/call''"

text \<open>A request; the identifier is JSON null when it is absent (\<^verbatim>\<open>nil\<close>), the parameters are the text of the value.\<close>

record request =
  rq_jsonrpc :: string
  rq_id :: jtext
  rq_method :: string
  rq_params :: string

definition no_request :: request where
  "no_request = \<lparr>rq_jsonrpc = [], rq_id = VNull, rq_method = [], rq_params = []\<rparr>"

definition IsNotification :: "request \<Rightarrow> bool" where "IsNotification q \<longleftrightarrow> rq_id q = VNull"

text \<open>Decoding into a struct: the field of a member name, exact or up to case folding.\<close>

definition field_of :: "string list \<Rightarrow> string \<Rightarrow> string option" where
  "field_of names k = (if k \<in> set names then Some k else find (\<lambda>f. equal_fold f k) names)"

fun numbers_ok :: "(string \<Rightarrow> rat option) \<Rightarrow> jtext \<Rightarrow> bool" where
  "numbers_ok num (VNum l) = (num l \<noteq> None)"
| "numbers_ok num (VArr vs) = list_all (numbers_ok num) vs"
| "numbers_ok num (VObj ms) = list_all (\<lambda>(k, v). numbers_ok num v) ms"
| "numbers_ok num v = True"

text \<open>A value stored into a string field: null leaves the field as it is, another type is an error of the decoder,
  which continues with the next member.\<close>

definition store_text :: "jtext \<Rightarrow> string \<Rightarrow> string \<times> bool" where
  "store_text v old = (case v of VStr s \<Rightarrow> (s, True) | VNull \<Rightarrow> (old, True) | _ \<Rightarrow> (old, False))"

definition request_fields :: "string list" where
  "request_fields = [''jsonrpc'', ''id'', ''method'', ''params'']"

definition store_member :: "(string \<Rightarrow> rat option) \<Rightarrow> string \<times> string \<times> jtext \<Rightarrow> request \<times> bool \<Rightarrow> request \<times> bool" where
  "store_member num = (\<lambda>(k, raw, v) (q, ok).
     case field_of request_fields k of
       None \<Rightarrow> (q, ok)
     | Some f \<Rightarrow>
         if f = ''jsonrpc'' then (let (s, fine) = store_text v (rq_jsonrpc q) in (q\<lparr>rq_jsonrpc := s\<rparr>, ok \<and> fine))
         else if f = ''id'' then (q\<lparr>rq_id := canonical v\<rparr>, ok \<and> numbers_ok num v)
         else if f = ''method'' then (let (s, fine) = store_text v (rq_method q) in (q\<lparr>rq_method := s\<rparr>, ok \<and> fine))
         else (q\<lparr>rq_params := raw\<rparr>, ok))"

definition decode_members :: "(string \<Rightarrow> rat option) \<Rightarrow> (string \<times> string \<times> jtext) list \<Rightarrow> request \<times> bool" where
  "decode_members num ms = fold (store_member num) ms (no_request, True)"

text \<open>\<^verbatim>\<open>json.Unmarshal(data, &req)\<close>.\<close>

definition unmarshal_request :: "(string \<Rightarrow> rat option) \<Rightarrow> string \<Rightarrow> request option" where
  "unmarshal_request num data =
     (case parse_document data of
        Some (VObj _) \<Rightarrow> (let (q, ok) = decode_members num (object_members data) in if ok then Some q else None)
      | Some VNull \<Rightarrow> Some no_request
      | _ \<Rightarrow> None)"

section \<open>Classification\<close>

datatype envelope_kind = EnvelopeForward | EnvelopeToolsCallRequest | EnvelopeToolsCallNotification | EnvelopeToolsCallMalformed

record client_envelope =
  ev_kind :: envelope_kind
  ev_request :: request

record client_scan =
  hasToolsCallMethod :: bool
  methodCount :: nat
  scan_id :: string

definition no_scan :: client_scan where
  "no_scan = \<lparr>hasToolsCallMethod = False, methodCount = 0, scan_id = []\<rparr>"

definition hasResponseID :: "client_scan \<Rightarrow> bool" where
  "hasResponseID sc \<longleftrightarrow> scan_id sc \<noteq> [] \<and> scan_id sc \<noteq> ''null''"

definition scan_member :: "string \<times> string \<times> jtext \<Rightarrow> client_scan \<Rightarrow> client_scan" where
  "scan_member = (\<lambda>(k, raw, v) sc.
     if k = ''method''
     then sc\<lparr>methodCount := methodCount sc + 1, hasToolsCallMethod := hasToolsCallMethod sc \<or> v = VStr MethodToolsCall\<rparr>
     else if k = ''id'' then sc\<lparr>scan_id := raw\<rparr>
     else sc)"

definition scanClientEnvelope :: "string \<Rightarrow> client_scan" where
  "scanClientEnvelope data = fold scan_member (object_members data) no_scan"

text \<open>\<^verbatim>\<open>decodePeekID\<close>: the identifier as a value, null when it does not decode.\<close>

definition decodePeekID :: "(string \<Rightarrow> rat option) \<Rightarrow> string \<Rightarrow> jtext" where
  "decodePeekID num raw = (case parse_document raw of Some v \<Rightarrow> if numbers_ok num v then canonical v else VNull | None \<Rightarrow> VNull)"

definition classifyScannedToolsCall :: "(string \<Rightarrow> rat option) \<Rightarrow> client_scan \<Rightarrow> client_envelope" where
  "classifyScannedToolsCall num sc =
     (if \<not> hasResponseID sc
      then \<lparr>ev_kind = EnvelopeToolsCallNotification, ev_request = no_request\<lparr>rq_method := MethodToolsCall\<rparr>\<rparr>
      else \<lparr>ev_kind = EnvelopeToolsCallMalformed,
            ev_request = no_request\<lparr>rq_method := MethodToolsCall, rq_id := decodePeekID num (scan_id sc)\<rparr>\<rparr>)"

text \<open>The first element of a batch that is an object with a \<open>tools/call\<close> method decides.\<close>

definition scanBatchEnvelope :: "string \<Rightarrow> client_scan" where
  "scanBatchEnvelope data =
     (case find hasToolsCallMethod (map (\<lambda>(raw, v). scanClientEnvelope raw) (array_elements data)) of
        None \<Rightarrow> no_scan
      | Some sc \<Rightarrow> \<lparr>hasToolsCallMethod = True, methodCount = 1, scan_id = scan_id sc\<rparr>)"

definition forward_envelope :: client_envelope where
  "forward_envelope = \<lparr>ev_kind = EnvelopeForward, ev_request = no_request\<rparr>"

definition classifyBatchEnvelope :: "(string \<Rightarrow> rat option) \<Rightarrow> string \<Rightarrow> client_envelope" where
  "classifyBatchEnvelope num data =
     (let sc = scanBatchEnvelope data in
      if \<not> hasToolsCallMethod sc then forward_envelope else classifyScannedToolsCall num sc)"

definition trimEnvelopeJSON :: "string \<Rightarrow> string" where
  "trimEnvelopeJSON raw = rev (dropWhile (\<lambda>c. c = CHR 0x0A \<or> c = CHR 0x0D) (rev raw))"

definition classify_object :: "(string \<Rightarrow> rat option) \<Rightarrow> string \<Rightarrow> client_envelope" where
  "classify_object num data =
     (let sc = scanClientEnvelope data in
      case unmarshal_request num data of
        Some q \<Rightarrow>
          if rq_method q \<noteq> MethodToolsCall
          then (if \<not> hasToolsCallMethod sc then forward_envelope else classifyScannedToolsCall num sc)
          else if methodCount sc > 1 then classifyScannedToolsCall num sc
          else if IsNotification q then \<lparr>ev_kind = EnvelopeToolsCallNotification, ev_request = q\<rparr>
          else if rq_jsonrpc q \<noteq> JSONRPCVersion then \<lparr>ev_kind = EnvelopeToolsCallMalformed, ev_request = q\<rparr>
          else \<lparr>ev_kind = EnvelopeToolsCallRequest, ev_request = q\<rparr>
      | None \<Rightarrow> if \<not> hasToolsCallMethod sc then forward_envelope else classifyScannedToolsCall num sc)"

definition ClassifyClientEnvelope :: "(string \<Rightarrow> rat option) \<Rightarrow> string \<Rightarrow> client_envelope" where
  "ClassifyClientEnvelope num raw =
     (let data = skip_blank (trimEnvelopeJSON raw) in
      case data of
        c # _ \<Rightarrow> if c = CHR ''['' then classifyBatchEnvelope num data else classify_object num data
      | [] \<Rightarrow> classify_object num data)"

section \<open>The canonical form of a message\<close>

datatype canon_error = EmptyJSON | InvalidJSON | TrailingJSON

definition CanonicalizeJSONLine :: "string \<Rightarrow> canon_error + string" where
  "CanonicalizeJSONLine raw =
     (let trimmed = trim_space raw in
      if trimmed = [] then Inl EmptyJSON
      else case decode_value trimmed of
             None \<Rightarrow> Inl InvalidJSON
           | Some (v, r) \<Rightarrow>
               if skip_blank r \<noteq> [] then Inl TrailingJSON
               else let out = encode_value (canonical v) in
                    Inr (if raw \<noteq> [] \<and> last raw = CHR 0x0A then out @ [CHR 0x0A] else out))"

section \<open>What the scan sees\<close>

lemma scan_fold: "hasToolsCallMethod (fold scan_member xs sc) \<longleftrightarrow> hasToolsCallMethod sc \<or> (''method'', VStr MethodToolsCall) \<in> set (map seen xs)"
proof (induction xs arbitrary: sc)
  case (Cons x xs)
  obtain k raw v where x: "x = (k, raw, v)" by (cases x)
  have "hasToolsCallMethod (scan_member x sc) \<longleftrightarrow> hasToolsCallMethod sc \<or> seen x = (''method'', VStr MethodToolsCall)"
    by (simp add: x scan_member_def seen_def)
  then show ?case using Cons.IH [of "scan_member x sc"] by auto
qed simp

lemma scan_method: "hasToolsCallMethod (scanClientEnvelope data) \<longleftrightarrow> (''method'', VStr MethodToolsCall) \<in> set (map seen (object_members data))"
  unfolding scanClientEnvelope_def scan_fold by (simp add: no_scan_def)

text \<open>Decoding into the request does not look at the texts of the values, apart from keeping the parameters.\<close>

definition unread :: "string \<times> jtext \<Rightarrow> string \<times> string \<times> jtext" where "unread = (\<lambda>(k, v). (k, [], v))"

lemma store_fold:
  assumes "rq_jsonrpc q1 = rq_jsonrpc q2" "rq_id q1 = rq_id q2" "rq_method q1 = rq_method q2"
  shows "snd (fold (store_member num) xs (q1, ok)) = snd (fold (store_member num) (map unread (map seen xs)) (q2, ok))
    \<and> rq_jsonrpc (fst (fold (store_member num) xs (q1, ok))) = rq_jsonrpc (fst (fold (store_member num) (map unread (map seen xs)) (q2, ok)))
    \<and> rq_id (fst (fold (store_member num) xs (q1, ok))) = rq_id (fst (fold (store_member num) (map unread (map seen xs)) (q2, ok)))
    \<and> rq_method (fst (fold (store_member num) xs (q1, ok))) = rq_method (fst (fold (store_member num) (map unread (map seen xs)) (q2, ok)))"
  using assms
proof (induction xs arbitrary: q1 q2 ok)
  case (Cons x xs)
  obtain k raw v where x: "x = (k, raw, v)" by (cases x)
  obtain p1 o1 where 1: "store_member num x (q1, ok) = (p1, o1)" by fastforce
  obtain p2 o2 where 2: "store_member num (unread (seen x)) (q2, ok) = (p2, o2)" by fastforce
  have "o1 = o2 \<and> rq_jsonrpc p1 = rq_jsonrpc p2 \<and> rq_id p1 = rq_id p2 \<and> rq_method p1 = rq_method p2"
    using 1 2 Cons.prems unfolding x
    by (auto simp: store_member_def seen_def unread_def Let_def split: option.splits if_splits prod.splits)
  then show ?case using Cons.IH [of p1 p2 o1] 1 2 by simp
qed simp

text \<open>The method that a Go decoder reads from the members of an object: the last member whose name is \<open>method\<close> up to
  case, provided the other fields have their types.\<close>

definition go_method :: "(string \<Rightarrow> rat option) \<Rightarrow> (string \<times> jtext) list \<Rightarrow> string option" where
  "go_method num ms = (let (q, ok) = decode_members num (map unread ms) in if ok then Some (rq_method q) else None)"

definition calls_tool :: "(string \<Rightarrow> rat option) \<Rightarrow> jtext \<Rightarrow> bool" where
  "calls_tool num v \<longleftrightarrow>
     (case v of
        VObj ms \<Rightarrow> (''method'', VStr MethodToolsCall) \<in> set ms \<or> go_method num ms = Some MethodToolsCall
      | VArr vs \<Rightarrow> list_ex (\<lambda>w. case w of VObj ms \<Rightarrow> (''method'', VStr MethodToolsCall) \<in> set ms | _ \<Rightarrow> False) vs
      | _ \<Rightarrow> False)"

definition envelope_text :: "string \<Rightarrow> string" where "envelope_text raw = skip_blank (trimEnvelopeJSON raw)"

lemma decoded_head:
  assumes "decode_value s = Some (v, r)"
  shows "\<exists>c q. skip_blank s = c # q \<and> (c = CHR 0x7B \<longleftrightarrow> (\<exists>ms. v = VObj ms)) \<and> (c = CHR ''['' \<longleftrightarrow> (\<exists>vs. v = VArr vs))"
proof -
  obtain n where n: "json_value (Suc n) maxNestingDepth s = Some (v, r)"
    using assms unfolding decode_value_def by (metis add_2_eq_Suc')
  then obtain c q where s: "skip_blank s = c # q" by (auto split: list.splits)
  then show ?thesis using n by (auto simp: json_word_def split: if_splits list.splits)
qed

lemma scanned_object:
  assumes "parse_document s = Some v"
  shows "hasToolsCallMethod (scanClientEnvelope s) \<longleftrightarrow> (case v of VObj ms \<Rightarrow> (''method'', VStr MethodToolsCall) \<in> set ms | _ \<Rightarrow> False)"
proof -
  obtain r where r: "decode_value s = Some (v, r)" using assms by (auto simp: parse_document_def split: option.splits if_splits)
  show ?thesis
  proof (cases "\<exists>ms. v = VObj ms")
    case True
    then obtain ms where "v = VObj ms" by blast
    then show ?thesis using r by (simp add: scan_method decode_object del: set_map)
  next
    case False
    then have "object_members s = []" using decoded_head [OF r] by (auto simp: object_members_def)
    then show ?thesis using False by (auto simp: scan_method split: jtext.splits)
  qed
qed

lemma unmarshal_object:
  assumes "parse_document s = Some (VObj ms)"
  shows "map_option rq_method (unmarshal_request num s) = go_method num ms"
proof -
  obtain r where r: "decode_value s = Some (VObj ms, r)" using assms by (auto simp: parse_document_def split: option.splits if_splits)
  show ?thesis
    using store_fold [of no_request no_request num "object_members s" True] decode_object [OF r] assms
    by (simp add: unmarshal_request_def go_method_def decode_members_def split_def Let_def)
qed

lemma forward_kind [simp]: "ev_kind forward_envelope = EnvelopeForward" by (simp add: forward_envelope_def)

lemma scanned_kind [simp]: "ev_kind (classifyScannedToolsCall num sc) \<noteq> EnvelopeForward"
  by (simp add: classifyScannedToolsCall_def)

lemma classify_object_forward:
  "ev_kind (classify_object num s) = EnvelopeForward \<longleftrightarrow>
     \<not> hasToolsCallMethod (scanClientEnvelope s) \<and> map_option rq_method (unmarshal_request num s) \<noteq> Some MethodToolsCall"
  by (cases "unmarshal_request num s") (simp_all add: classify_object_def Let_def)

lemma batch_forward:
  assumes "decode_value s = Some (VArr vs, r)"
  shows "ev_kind (classifyBatchEnvelope num s) = EnvelopeForward \<longleftrightarrow>
    \<not> list_ex (\<lambda>w. case w of VObj ms \<Rightarrow> (''method'', VStr MethodToolsCall) \<in> set ms | _ \<Rightarrow> False) vs"
proof -
  have raw: "hasToolsCallMethod (scanClientEnvelope t) \<longleftrightarrow> (case w of VObj ms \<Rightarrow> (''method'', VStr MethodToolsCall) \<in> set ms | _ \<Rightarrow> False)"
    if "(t, w) \<in> set (array_elements s)" for t w
    using that scanned_object element_stream_raw by (fastforce simp: array_elements_def split: list.splits if_splits)
  have "ev_kind (classifyBatchEnvelope num s) = EnvelopeForward \<longleftrightarrow>
      find hasToolsCallMethod (map (\<lambda>(raw, v). scanClientEnvelope raw) (array_elements s)) = None"
    by (auto simp: classifyBatchEnvelope_def scanBatchEnvelope_def no_scan_def Let_def split: option.splits)
  also have "\<dots> \<longleftrightarrow> (\<forall>(t, w) \<in> set (array_elements s). \<not> hasToolsCallMethod (scanClientEnvelope t))"
    by (auto simp: find_None_iff)
  also have "\<dots> \<longleftrightarrow> (\<forall>w \<in> set (map snd (array_elements s)). \<not> (case w of VObj ms \<Rightarrow> (''method'', VStr MethodToolsCall) \<in> set ms | _ \<Rightarrow> False))"
    using raw by auto
  finally show ?thesis unfolding decode_array [OF assms] by (simp add: list_ex_iff)
qed

lemma classify_forward_iff:
  assumes "parse_document (envelope_text raw) = Some v"
  shows "ev_kind (ClassifyClientEnvelope num raw) = EnvelopeForward \<longleftrightarrow> \<not> calls_tool num v"
proof -
  define data where "data = envelope_text raw"
  obtain r where r: "decode_value data = Some (v, r)" using assms by (auto simp: data_def parse_document_def split: option.splits if_splits)
  obtain c q where c: "data = c # q" "c = CHR 0x7B \<longleftrightarrow> (\<exists>ms. v = VObj ms)" "c = CHR ''['' \<longleftrightarrow> (\<exists>vs. v = VArr vs)"
    using decoded_head [OF r] by (auto simp: data_def envelope_text_def skip_blank_idem)
  have k: "ClassifyClientEnvelope num raw = (if c = CHR ''['' then classifyBatchEnvelope num data else classify_object num data)"
    using c(1) by (simp add: ClassifyClientEnvelope_def data_def envelope_text_def Let_def)
  show ?thesis
  proof (cases v)
    case (VArr vs)
    then show ?thesis using k c(3) batch_forward [of data vs r num] r by (simp add: calls_tool_def)
  next
    case (VObj ms)
    then show ?thesis using k c scanned_object [of data v] unmarshal_object [of data ms num] assms
      by (simp add: calls_tool_def classify_object_forward data_def)
  qed (use k c scanned_object [of data v] assms in \<open>simp_all add: calls_tool_def classify_object_forward data_def unmarshal_request_def no_request_def MethodToolsCall_def\<close>)
qed


definition demo_num :: "string \<Rightarrow> rat option" where "demo_num l = Some 0"

definition demo_batch :: string where
  "demo_batch = ''[{\"method\":\"ping\"}, {\"id\":2,\"method\":\"tools/call\"}]'' @ [CHR 0x0A]"


text \<open>C37: The gate looks at the first value of a line only. When a line continues after an object that is not a tool call,
  for example with a carriage return and another message, the whole line is forwarded, whatever follows: a server
  that splits its input at carriage returns, or reads a stream of values, receives a tool call that was not decided.\<close>

theorem second_message_unexamined:
  assumes "decode_value (envelope_text raw) = Some (VObj ms, r)" and "skip_blank r \<noteq> []"
    and "(''method'', VStr MethodToolsCall) \<notin> set ms"
  shows "ev_kind (ClassifyClientEnvelope num raw) = EnvelopeForward"
proof -
  define data where "data = envelope_text raw"
  obtain c q where c: "data = c # q" "c = CHR 0x7B"
    using decoded_head [OF assms(1)] by (auto simp: data_def envelope_text_def skip_blank_idem)
  have "parse_document data = None" using assms(1,2) by (simp add: data_def parse_document_def)
  then have "unmarshal_request num data = None" by (simp add: unmarshal_request_def)
  moreover have "\<not> hasToolsCallMethod (scanClientEnvelope data)"
    using assms(1,3) by (simp add: scan_method decode_object data_def del: set_map)
  ultimately have "ev_kind (classify_object num data) = EnvelopeForward" by (simp add: classify_object_forward)
  then show ?thesis using c by (simp add: ClassifyClientEnvelope_def data_def envelope_text_def Let_def)
qed

definition smuggled_call :: string where "smuggled_call = ''{\"id\":2,\"method\":\"tools/call\"}''"

definition smuggling_line :: string where
  "smuggling_line = ''{\"id\":1,\"method\":\"ping\"}'' @ [CHR 0x0D] @ smuggled_call @ [CHR 0x0A]"

lemma second_message_unexamined_witness:
  "ev_kind (ClassifyClientEnvelope demo_num smuggling_line) = EnvelopeForward
   \<and> parse_document smuggled_call = Some (VObj [(''id'', VNum ''2''), (''method'', VStr ''tools/call'')])
   \<and> calls_tool demo_num (VObj [(''id'', VNum ''2''), (''method'', VStr ''tools/call'')])"
proof -
  have d: "decode_value (envelope_text smuggling_line) = Some (VObj [(''id'', VNum ''1''), (''method'', VStr ''ping'')], CHR 0x0D # smuggled_call)"
    by code_simp
  have "skip_blank (CHR 0x0D # smuggled_call) \<noteq> []" by (simp add: smuggled_call_def skip_blank_def json_blank_def)
  moreover have "(''method'', VStr MethodToolsCall) \<notin> set [(''id'', VNum ''1''), (''method'', VStr ''ping'')]" by (simp add: MethodToolsCall_def)
  moreover have "parse_document smuggled_call = Some (VObj [(''id'', VNum ''2''), (''method'', VStr ''tools/call'')])" by code_simp
  ultimately show ?thesis using second_message_unexamined [OF d, of demo_num] by (simp add: calls_tool_def MethodToolsCall_def)
qed

lemma canonical_line:
  assumes "CanonicalizeJSONLine raw = Inr out"
  shows "\<exists>v. parse_document (trim_space raw) = Some v \<and> parse_document out = Some (canonical v) \<and> distinct_keys (canonical v)
    \<and> (out = encode_value (canonical v) \<or> out = encode_value (canonical v) @ [CHR 0x0A])"
proof -
  obtain v r where v: "decode_value (trim_space raw) = Some (v, r)" "skip_blank r = []"
      and out: "out = encode_value (canonical v) \<or> out = encode_value (canonical v) @ [CHR 0x0A]"
    using assms by (auto simp: CanonicalizeJSONLine_def Let_def split: if_splits option.splits)
  have e: "encodable maxNestingDepth (canonical v)" using canonical_encodable [OF decoded_document [OF v(1)]] .
  have nl: "skip_blank [CHR 0x0A] = []" "ends_number [CHR 0x0A]" "ends_number []"
    by (simp_all add: skip_blank_def json_blank_def ends_number_def is_digit_ascii_def byte_def)
  have "parse_document out = Some (canonical v)"
    using out parse_encoded [OF e, of "[]"] parse_encoded [OF e, of "[CHR 0x0A]"] nl by (auto simp: punctuation_skip)
  then show ?thesis using v out canonical_distinct by (auto simp: parse_document_def)
qed

text \<open>C7: A canonical line is read back as the canonical form of the value on the input line: in every object the last
  member of each name, exactly once, so that decoders in which the first member wins and decoders in which the
  last one wins see the same message. The canonical form is stable.\<close>

theorem canonical_line_faithful:
  assumes "CanonicalizeJSONLine raw = Inr out"
  shows "\<exists>v. parse_document (trim_space raw) = Some v \<and> parse_document out = Some (canonical v)
    \<and> distinct_keys (canonical v) \<and> canonical (canonical v) = canonical v"
  using canonical_line [OF assms] canonical_idem by blast

lemma canonical_line_faithful_witness:
  "CanonicalizeJSONLine ('' {\"b\":1, \"a\":2, \"b\":3}'' @ [CHR 0x0A]) = Inr (''{\"a\":2,\"b\":3}'' @ [CHR 0x0A])
   \<and> (\<exists>v. parse_document (''{\"a\":2,\"b\":3}'' @ [CHR 0x0A]) = Some v \<and> distinct_keys v)"
proof -
  have c: "CanonicalizeJSONLine ('' {\"b\":1, \"a\":2, \"b\":3}'' @ [CHR 0x0A]) = Inr (''{\"a\":2,\"b\":3}'' @ [CHR 0x0A])" by code_simp
  then show ?thesis using canonical_line_faithful [OF c] by blast
qed

end
