(* ===== verification/Envelope_Gate.thy ===== *)
theory Envelope_Gate
  imports Client_Envelope Tools_Call_Properties Kill_Switch
begin

text \<open>
  The client envelope gate, second part: the interception that both transports and the handshake go through
  (\<^verbatim>\<open>src/internal/proxy/client_envelope.go\<close>), from the bytes of a client message to \<^verbatim>\<open>processToolsCall\<close>, and the loop
  that relays client messages (\<^verbatim>\<open>relayClientToServer\<close>, \<^verbatim>\<open>interceptAndModify\<close> of \<^verbatim>\<open>src/internal/proxy/proxy.go\<close>).
\<close>

section \<open>Reading the call\<close>

text \<open>A value of Go type \<^verbatim>\<open>any\<close>.\<close>

fun to_json :: "(string \<Rightarrow> rat option) \<Rightarrow> jtext \<Rightarrow> json" where
  "to_json num VNull = JNull"
| "to_json num (VBool b) = JBool b"
| "to_json num (VNum l) = JNum (case num l of Some q \<Rightarrow> q | None \<Rightarrow> 0)"
| "to_json num (VStr s) = JStr s"
| "to_json num (VArr vs) = JArr (map (to_json num) vs)"
| "to_json num (VObj ms) = JObj (last_wins (map (\<lambda>(k, v). (k, to_json num v)) ms))"

text \<open>What \<^verbatim>\<open>extractArgs\<close> decodes from the text of the arguments.\<close>

definition raw_arguments :: "(string \<Rightarrow> rat option) \<Rightarrow> string \<Rightarrow> raw_json" where
  "raw_arguments num text =
     (if text = [] then RawEmpty
      else case parse_document text of
             None \<Rightarrow> RawInvalid
           | Some v \<Rightarrow> if numbers_ok num v then RawJson (to_json num v) else RawInvalid)"

text \<open>\<^verbatim>\<open>ToolsCallRequest\<close>: the name and the text of the arguments.\<close>

definition call_fields :: "string list" where "call_fields = [''name'', ''arguments'']"

definition store_call :: "string \<times> string \<times> jtext \<Rightarrow> (string \<times> string) \<times> bool \<Rightarrow> (string \<times> string) \<times> bool" where
  "store_call = (\<lambda>(k, raw, v) ((name, text), ok).
     case field_of call_fields k of
       None \<Rightarrow> ((name, text), ok)
     | Some f \<Rightarrow>
         if f = ''name'' then (let (s, fine) = store_text v name in ((s, text), ok \<and> fine))
         else ((name, raw), ok))"

definition unmarshal_call :: "string \<Rightarrow> (string \<times> string) option" where
  "unmarshal_call params =
     (case parse_document params of
        Some (VObj _) \<Rightarrow> (let (c, ok) = fold store_call (object_members params) (([], []), True) in if ok then Some c else None)
      | Some VNull \<Rightarrow> Some ([], [])
      | _ \<Rightarrow> None)"

definition peek_name :: "string \<times> string \<times> jtext \<Rightarrow> string \<times> bool \<Rightarrow> string \<times> bool" where
  "peek_name = (\<lambda>(k, raw, v) (name, ok).
     case field_of [''name''] k of
       None \<Rightarrow> (name, ok)
     | Some f \<Rightarrow> (let (s, fine) = store_text v name in (s, ok \<and> fine)))"

definition toolNameFromToolsCallParams :: "string \<Rightarrow> string" where
  "toolNameFromToolsCallParams params =
     (if params = [] then []
      else case parse_document params of
             Some (VObj _) \<Rightarrow> (let (name, ok) = fold peek_name (object_members params) ([], True) in if ok then name else [])
           | _ \<Rightarrow> [])"

section \<open>The gate\<close>

definition reasonNotificationToolsCallBlocked :: string where
  "reasonNotificationToolsCallBlocked = ''notification-form tools/call blocked''"
definition reasonInvalidToolsCallRequest :: string where
  "reasonInvalidToolsCallRequest = ''invalid tools/call request''"

text \<open>A message that never reaches \<^verbatim>\<open>processToolsCall\<close> is logged with the server, the tool name as far as it can be read and
  the reason.\<close>

record envelope_log =
  el_server :: string
  el_tool :: string
  el_reason :: string

definition denyToolsCallEnvelope :: "string \<Rightarrow> string \<Rightarrow> string \<Rightarrow> proxy \<Rightarrow> call_result \<times> envelope_log option" where
  "denyToolsCallEnvelope server tool reason p =
     (\<lparr>res_action = Denied, res_proxy = count_denied (count_processed p), res_responses = [], res_events = [EvDenied reason], res_message = []\<rparr>,
      Some \<lparr>el_server = server, el_tool = tool, el_reason = reason\<rparr>)"

text \<open>The denial of a request that is not well-formed: the client gets an error.\<close>

definition invalid_request :: "string \<Rightarrow> string \<Rightarrow> proxy \<Rightarrow> call_result \<times> envelope_log option" where
  "invalid_request server params p =
     (denied (count_processed p) reasonInvalidToolsCallRequest [EvDenied reasonInvalidToolsCallRequest],
      Some \<lparr>el_server = server, el_tool = toolNameFromToolsCallParams params, el_reason = reasonInvalidToolsCallRequest\<rparr>)"

text \<open>Parameters that are not an object are denied without being counted.\<close>

definition invalid_parameters :: "string \<Rightarrow> proxy \<Rightarrow> call_result \<times> envelope_log option" where
  "invalid_parameters server p =
     (\<lparr>res_action = Denied, res_proxy = p, res_responses = [''invalid tools/call parameters''],
       res_events = [EvDenied ''invalid tools/call parameters''], res_message = []\<rparr>,
      Some \<lparr>el_server = server, el_tool = [], el_reason = ''invalid tools/call parameters''\<rparr>)"

definition relay_unexamined :: "string \<Rightarrow> proxy \<Rightarrow> call_result \<times> envelope_log option" where
  "relay_unexamined raw p =
     (\<lparr>res_action = Forward, res_proxy = p, res_responses = [], res_events = [], res_message = raw\<rparr>, None)"

text \<open>The size that the runtime limit is compared with: the parameters as they were sent.\<close>

definition originalArgumentBytes :: "string \<Rightarrow> int" where "originalArgumentBytes params = int (length params)"

text \<open>The call that is decided: read from the canonical line, which is also the message to relay.\<close>

definition canonical_call :: "(string \<Rightarrow> rat option) \<Rightarrow> string \<Rightarrow> string \<Rightarrow> string \<times> string \<Rightarrow> call" where
  "canonical_call num server line = (\<lambda>(tool, text).
     \<lparr>cl_server = server, cl_tool = tool, cl_arguments = raw_arguments num text, cl_raw = line\<rparr>)"

definition interceptClientToServerEnvelope ::
    "go_env \<Rightarrow> regex_lib \<Rightarrow> crypto_env \<Rightarrow> sign_env \<Rightarrow> (string \<Rightarrow> rat option) \<Rightarrow> call_env \<Rightarrow> string \<Rightarrow> string \<Rightarrow> proxy \<Rightarrow> call_result \<times> envelope_log option" where
  "interceptClientToServerEnvelope E X C G num ce server raw p =
     (let classified = ClassifyClientEnvelope num raw; params = rq_params (ev_request classified) in
      case ev_kind classified of
        EnvelopeForward \<Rightarrow> relay_unexamined raw p
      | EnvelopeToolsCallNotification \<Rightarrow>
          denyToolsCallEnvelope server (toolNameFromToolsCallParams params) reasonNotificationToolsCallBlocked p
      | EnvelopeToolsCallMalformed \<Rightarrow> invalid_request server params p
      | EnvelopeToolsCallRequest \<Rightarrow>
          (case CanonicalizeJSONLine raw of
             Inl _ \<Rightarrow> invalid_request server params p
           | Inr line \<Rightarrow>
               let env = ClassifyClientEnvelope num line in
               if ev_kind env \<noteq> EnvelopeToolsCallRequest then invalid_request server params p
               else case unmarshal_call (rq_params (ev_request env)) of
                      None \<Rightarrow> invalid_parameters server p
                    | Some c \<Rightarrow>
                        (processToolsCall E X C G (ce\<lparr>ce_argument_bytes := originalArgumentBytes params\<rparr>)
                           (canonical_call num server line c) p, None)))"

definition serverNameOrDefault :: "string \<Rightarrow> string \<Rightarrow> string" where
  "serverNameOrDefault serverName fallback = (if serverName \<noteq> [] then serverName else fallback)"

text \<open>The configured names of the server, and the name the policy is evaluated under: the handshake over a URL falls
  back to the URL, the others to the command.\<close>

record server_config =
  sv_name :: string
  sv_command :: string
  sv_url :: string

definition handshake_server :: "server_config \<Rightarrow> string" where
  "handshake_server cfg = (if sv_url cfg \<noteq> [] then serverNameOrDefault (sv_name cfg) (sv_url cfg) else serverNameOrDefault (sv_name cfg) (sv_command cfg))"

definition interceptAndModify ::
    "go_env \<Rightarrow> regex_lib \<Rightarrow> crypto_env \<Rightarrow> sign_env \<Rightarrow> (string \<Rightarrow> rat option) \<Rightarrow> server_config \<Rightarrow> call_env \<Rightarrow> string \<Rightarrow> proxy \<Rightarrow> call_result \<times> envelope_log option" where
  "interceptAndModify E X C G num cfg ce raw p =
     interceptClientToServerEnvelope E X C G num ce (serverNameOrDefault (sv_name cfg) (sv_command cfg)) raw p"

text \<open>The post-initialize message of the handshake: denied messages end it, otherwise only what the gate returned is sent.\<close>

definition enforceHandshakeEnvelope ::
    "go_env \<Rightarrow> regex_lib \<Rightarrow> crypto_env \<Rightarrow> sign_env \<Rightarrow> (string \<Rightarrow> rat option) \<Rightarrow> server_config \<Rightarrow> call_env \<Rightarrow> string \<Rightarrow> proxy \<Rightarrow> (string + string) \<times> proxy" where
  "enforceHandshakeEnvelope E X C G num cfg ce raw p =
     (let res = fst (interceptClientToServerEnvelope E X C G num ce (handshake_server cfg) raw p) in
      (if res_action res = Denied then Inl ''post-initialize message denied'' else Inr (res_message res), res_proxy res))"

text \<open>A relayed message that is a tool call is recorded in the session.\<close>

definition logClientMessage :: "(string \<Rightarrow> rat option) \<Rightarrow> server_config \<Rightarrow> int \<Rightarrow> string \<Rightarrow> proxy \<Rightarrow> proxy" where
  "logClientMessage num cfg now raw p =
     (case unmarshal_request num raw of
        None \<Rightarrow> p
      | Some q \<Rightarrow>
          if rq_jsonrpc q \<noteq> JSONRPCVersion \<or> IsNotification q \<or> rq_method q \<noteq> MethodToolsCall then p
          else case unmarshal_call (rq_params q) of
                 None \<Rightarrow> p
               | Some (tool, text) \<Rightarrow>
                   p\<lparr>px_session := RecordToolCall now (sv_name cfg) tool text (raw_arguments num text) [] (px_session p)\<rparr>)"

text \<open>The relay loop on the messages of the client: a denied message is skipped, otherwise the returned message is sent
  unless the session was revoked, which ends the loop. Each message comes with the environment of its call, the
  state of the kill switch when it is sent and the time of its record.\<close>

fun relayClientToServer ::
    "go_env \<Rightarrow> regex_lib \<Rightarrow> crypto_env \<Rightarrow> sign_env \<Rightarrow> (string \<Rightarrow> rat option) \<Rightarrow> server_config \<Rightarrow>
     (string \<times> call_env \<times> kinetic \<times> int) list \<Rightarrow> proxy \<Rightarrow> string list \<times> proxy" where
  "relayClientToServer E X C G num cfg [] p = ([], p)"
| "relayClientToServer E X C G num cfg ((raw, ce, k, now) # msgs) p =
     (let res = fst (interceptAndModify E X C G num cfg ce raw p) in
      if res_action res = Denied then relayClientToServer E X C G num cfg msgs (res_proxy res)
      else let p1 = logClientMessage num cfg now (res_message res) (res_proxy res) in
           case encodeIfNotRevoked (res_message res) k of
             None \<Rightarrow> ([], p1)
           | Some sent \<Rightarrow>
               let (rest, p2) = relayClientToServer E X C G num cfg msgs p1 in (sent # rest, p2))"

section \<open>The decided call and the relayed call\<close>

lemma trim_newline: "last s \<noteq> CHR 0x0A \<Longrightarrow> last s \<noteq> CHR 0x0D \<Longrightarrow> s \<noteq> [] \<Longrightarrow> trimEnvelopeJSON (s @ [CHR 0x0A]) = s \<and> trimEnvelopeJSON s = s"
  by (cases s rule: rev_cases) (simp_all add: trimEnvelopeJSON_def)

text \<open>The text that the classification of a canonical object line works on.\<close>

lemma canonical_text:
  assumes "line = encode_value (VObj ms) \<or> line = encode_value (VObj ms) @ [CHR 0x0A]"
  shows "envelope_text line = encode_value (VObj ms)"
proof -
  have "trimEnvelopeJSON line = encode_value (VObj ms)" using trim_newline [of "encode_value (VObj ms)"] assms by auto
  then show ?thesis by (simp add: envelope_text_def punctuation_skip)
qed

text \<open>Names in ASCII: a name that differs from a field only in case sorts before the field.\<close>

definition ascii_names :: "string list \<Rightarrow> bool" where
  "ascii_names ks \<longleftrightarrow> list_all (list_all (\<lambda>c. byte c < 128)) ks"

lemma fold_runes_ascii: "list_all (\<lambda>c. byte c < 128) k \<Longrightarrow> fold_runes k = map ascii_lower k"
proof (induction k)
  case (Cons c k)
  then have "c \<noteq> CHR 0xE2" "c \<noteq> CHR 0xC5" by (auto simp: byte_def)
  then show ?case using Cons by simp
qed simp

lemma ascii_lower_ge: "byte c < 128 \<Longrightarrow> c \<le> ascii_lower c"
  by (auto simp: ascii_lower_def is_upper_ascii_def less_eq_char_def byte_def)

lemma lower_ge: "list_all (\<lambda>c. byte c < 128) k \<Longrightarrow> k \<le> map ascii_lower k"
proof (induction k)
  case (Cons c k)
  then show ?case using ascii_lower_ge [of c] by (auto simp: less_le)
qed simp

lemma folded_le:
  assumes "equal_fold f k" and "list_all (\<lambda>c. byte c < 128) k" and "fold_runes f = f"
  shows "k \<le> f"
  using lower_ge [OF assms(2)] fold_runes_ascii [OF assms(2)] assms(1,3) by (simp add: equal_fold_def)

lemma field_of_le:
  assumes "field_of names k = Some f" and "list_all (\<lambda>c. byte c < 128) k" and "list_all (\<lambda>f. fold_runes f = f) names"
  shows "k \<le> f"
proof (cases "k \<in> set names")
  case True
  then show ?thesis using assms(1) by (simp add: field_of_def)
next
  case False
  then have "equal_fold f k" "f \<in> set names" using assms(1) by (auto simp: field_of_def dest: find_SomeD)
  then show ?thesis using folded_le assms(2,3) by (auto simp: list_all_iff)
qed

lemma find_append: "find P (xs @ ys) = (case find P xs of None \<Rightarrow> find P ys | Some x \<Rightarrow> Some x)"
  by (induction xs) auto

text \<open>In a list that is sorted by name the exact field is the last member that is stored into it.\<close>

lemma last_field:
  assumes "sorted (map fst xs)" and "distinct (map fst xs)" and "ascii_names (map fst xs)" and "list_all (\<lambda>f. fold_runes f = f) names"
    and "(f, y) \<in> set xs" and "f \<in> set names"
  shows "find (\<lambda>x. field_of names (fst x) = Some f) (rev xs) = Some (f, y)"
proof -
  obtain as bs where xs: "xs = as @ (f, y) # bs" using assms(5) split_list by fastforce
  have "field_of names (fst x) \<noteq> Some f" if x: "x \<in> set bs" for x
  proof
    assume m: "field_of names (fst x) = Some f"
    have "list_all (\<lambda>c. byte c < 128) (fst x)" using assms(3) x xs by (auto simp: ascii_names_def list_all_iff)
    then have "fst x \<le> f" using field_of_le [OF m _ assms(4)] by blast
    moreover have "f \<le> fst x" "fst x \<noteq> f" using assms(1,2) x xs by (auto simp: sorted_append)
    ultimately show False by simp
  qed
  then have "find (\<lambda>x. field_of names (fst x) = Some f) (rev bs) = None" by (auto simp: find_None_iff)
  moreover have "field_of names f = Some f" using assms(6) by (simp add: field_of_def)
  ultimately show ?thesis by (simp add: xs find_append)
qed

definition stored_at :: "string list \<Rightarrow> string \<Rightarrow> (string \<times> 'a) list \<Rightarrow> (string \<times> 'a) option" where
  "stored_at names f xs = find (\<lambda>x. field_of names (fst x) = Some f) (rev xs)"

lemma stored_snoc: "stored_at names f (xs @ [x]) = (if field_of names (fst x) = Some f then Some x else stored_at names f xs)"
  by (simp add: stored_at_def)

lemma stored_params:
  "rq_params (fst (fold (store_member num) xs st)) = (case stored_at request_fields ''params'' xs of Some (_, raw, _) \<Rightarrow> raw | None \<Rightarrow> rq_params (fst st))"
proof (induction xs rule: rev_induct)
  case Nil
  then show ?case by (simp add: stored_at_def)
next
  case (snoc x xs)
  obtain k raw v where x: "x = (k, raw, v)" by (cases x)
  obtain q ok where q: "fold (store_member num) xs st = (q, ok)" by fastforce
  have "rq_params (fst (store_member num (k, raw, v) (q, ok))) = (if field_of request_fields k = Some ''params'' then raw else rq_params q)"
    by (auto simp: store_member_def Let_def request_fields_def field_of_def split: option.splits prod.splits dest!: find_SomeD)
  then show ?case using snoc q by (simp add: x stored_snoc)
qed

lemma stored_text:
  "snd (fst (fold store_call xs st)) = (case stored_at call_fields ''arguments'' xs of Some (_, raw, _) \<Rightarrow> raw | None \<Rightarrow> snd (fst st))"
proof (induction xs rule: rev_induct)
  case Nil
  then show ?case by (simp add: stored_at_def)
next
  case (snoc x xs)
  obtain k raw v where x: "x = (k, raw, v)" by (cases x)
  obtain name rest ok where q: "fold store_call xs st = ((name, rest), ok)" by (metis surj_pair)
  have "snd (fst (store_call (k, raw, v) ((name, rest), ok))) = (if field_of call_fields k = Some ''arguments'' then raw else rest)"
    by (auto simp: store_call_def Let_def call_fields_def field_of_def split: option.splits prod.splits dest!: find_SomeD)
  then show ?case using snoc q by (simp add: x stored_snoc)
qed

lemma stored_name:
  assumes "stored_at call_fields ''name'' xs = Some (k, raw, VStr s)"
  shows "fst (fst (fold store_call xs st)) = s"
  using assms
proof (induction xs rule: rev_induct)
  case Nil
  then show ?case by (simp add: stored_at_def)
next
  case (snoc x xs)
  obtain k' raw' v where x: "x = (k', raw', v)" by (cases x)
  obtain name rest ok where q: "fold store_call xs st = ((name, rest), ok)" by (metis surj_pair)
  show ?case
  proof (cases "field_of call_fields k' = Some ''name''")
    case True
    then have "v = VStr s" using snoc.prems x by (simp add: stored_snoc)
    then have "fst (fst (store_call (k', raw', v) ((name, rest), ok))) = s" using True by (simp add: store_call_def store_text_def)
    then show ?thesis by (simp add: x q)
  next
    case False
    then have "fst (fst (fold store_call xs st)) = s" using snoc x by (simp add: stored_snoc)
    moreover have "fst (fst (store_call (k', raw', v) ((name, rest), ok))) = name"
      using False by (auto simp: store_call_def Let_def split: option.splits)
    ultimately show ?thesis by (simp add: x q)
  qed
qed

text \<open>The members of the text of a canonical object, with their texts.\<close>

lemma object_raw:
  assumes "parse_document s = Some (VObj ms)" and "(k, v) \<in> set ms"
  shows "\<exists>raw. (k, raw, v) \<in> set (object_members s) \<and> parse_document raw = Some v"
proof -
  obtain r where r: "decode_value s = Some (VObj ms, r)" using assms by (auto simp: parse_document_def split: option.splits if_splits)
  have "(k, v) \<in> set (map seen (object_members s))" using decode_object [OF r] assms(2) by simp
  then obtain raw where raw: "(k, raw, v) \<in> set (object_members s)" by (auto simp: seen_def)
  then show ?thesis using member_stream_raw by (fastforce simp: object_members_def split: list.splits if_splits)
qed

lemma object_keys:
  assumes "parse_document s = Some (VObj ms)"
  shows "map fst (object_members s) = map fst ms"
proof -
  obtain r where r: "decode_value s = Some (VObj ms, r)" using assms by (auto simp: parse_document_def split: option.splits if_splits)
  have "map fst xs = map fst (map seen xs)" for xs by (induction xs) (auto simp: seen_def)
  then show ?thesis using decode_object [OF r] by metis
qed

definition canonical_object :: "(string \<times> jtext) list \<Rightarrow> bool" where
  "canonical_object ms \<longleftrightarrow> sorted (map fst ms) \<and> distinct (map fst ms)"

lemma stored_exact:
  assumes "parse_document s = Some (VObj ms)" and "canonical_object ms" and "ascii_names (map fst ms)"
    and "map_of ms f = Some v" and "f \<in> set names" and "list_all (\<lambda>f. fold_runes f = f) names"
  shows "\<exists>raw. stored_at names f (object_members s) = Some (f, raw, v) \<and> parse_document raw = Some v"
proof -
  obtain raw where raw: "(f, raw, v) \<in> set (object_members s)" "parse_document raw = Some v"
    using object_raw [OF assms(1)] map_of_SomeD [OF assms(4)] by blast
  have "stored_at names f (object_members s) = Some (f, raw, v)"
    unfolding stored_at_def
    by (rule last_field) (use assms raw object_keys [OF assms(1)] in \<open>simp_all add: canonical_object_def\<close>)
  then show ?thesis using raw by blast
qed

lemma request_folded: "list_all (\<lambda>f. fold_runes f = f) request_fields" by code_simp
lemma call_folded: "list_all (\<lambda>f. fold_runes f = f) call_fields" by code_simp

lemma canonical_objects: "canonical v = VObj ms \<Longrightarrow> canonical_object ms \<and> (\<forall>(k, w) \<in> set ms. canonical w = w)"
proof (cases v)
  case (VObj ns)
  assume c: "canonical v = VObj ms"
  then have "ms = last_wins (map (\<lambda>(k, v). (k, canonical v)) ns)" using VObj by simp
  then have "canonical_object ms" by (simp add: canonical_object_def last_wins_keys)
  moreover have "canonical w = w" if "(k, w) \<in> set ms" for k w
  proof -
    have "(k, w) \<in> set (map (\<lambda>(k, v). (k, canonical v)) ns)"
      using that \<open>ms = _\<close> last_wins_subset by blast
    then show ?thesis using canonical_idem by auto
  qed
  ultimately show ?thesis by blast
qed auto

lemma request_kind:
  assumes "ev_kind (ClassifyClientEnvelope num line) = EnvelopeToolsCallRequest"
  shows "unmarshal_request num (envelope_text line) = Some (ev_request (ClassifyClientEnvelope num line))"
proof -
  define data where "data = envelope_text line"
  have nb: "ev_kind (classifyBatchEnvelope num data) \<noteq> EnvelopeToolsCallRequest"
    by (simp add: classifyBatchEnvelope_def classifyScannedToolsCall_def forward_envelope_def Let_def)
  have k: "ClassifyClientEnvelope num line = classify_object num data"
    using assms nb by (simp add: ClassifyClientEnvelope_def data_def envelope_text_def Let_def split: list.splits if_splits)
  have "ev_kind (classify_object num data) = EnvelopeToolsCallRequest \<Longrightarrow> unmarshal_request num data = Some (ev_request (classify_object num data))"
    by (cases "unmarshal_request num data")
      (simp_all add: classify_object_def classifyScannedToolsCall_def forward_envelope_def Let_def split: if_splits)
  then show ?thesis using assms k by (simp add: data_def)
qed

text \<open>C5: The call that is decided is the call that is relayed: when the member names of the request and of its parameters are
  ASCII, the tool and the arguments that the policy sees are those of the members params, name and
  arguments of the canonical line, the message that goes to the server, however the client spelled, ordered
  or repeated the members of its message.\<close>

theorem decided_call_is_relayed:
  assumes "CanonicalizeJSONLine raw = Inr line" and "ev_kind (ClassifyClientEnvelope num line) = EnvelopeToolsCallRequest"
    and "unmarshal_call (rq_params (ev_request (ClassifyClientEnvelope num line))) = Some (tool, arguments)"
    and "parse_document line = Some (VObj ms)" and "ascii_names (map fst ms)"
    and "map_of ms ''params'' = Some (VObj ps)" and "ascii_names (map fst ps)"
    and "map_of ps ''name'' = Some (VStr name)" and "map_of ps ''arguments'' = Some args"
  shows "tool = name \<and> parse_document arguments = Some args"
proof -
  obtain v where c: "parse_document line = Some (canonical v)" "line = encode_value (canonical v) \<or> line = encode_value (canonical v) @ [CHR 0x0A]"
    using canonical_line [OF assms(1)] by blast
  then have v: "canonical v = VObj ms" "line = encode_value (VObj ms) \<or> line = encode_value (VObj ms) @ [CHR 0x0A]"
      "encodable maxNestingDepth (VObj ms)" using assms(4) parsed_document [OF assms(4)] by simp_all
  have ms: "canonical_object ms" "canonical (VObj ps) = VObj ps"
    using canonical_objects [OF v(1)] map_of_SomeD [OF assms(6)] by auto
  have ps: "canonical_object ps" using canonical_objects [OF ms(2)] by blast
  define data where "data = encode_value (VObj ms)"
  have data: "envelope_text line = data" using canonical_text [OF v(2)] by (simp add: data_def)
  have doc: "parse_document data = Some (VObj ms)"
    using parse_encoded [OF v(3), of "[]"] by (simp add: data_def punctuation_skip ends_number_def)
  obtain praw where praw: "stored_at request_fields ''params'' (object_members data) = Some (''params'', praw, VObj ps)" "parse_document praw = Some (VObj ps)"
    using stored_exact [OF doc ms(1) assms(5,6) _ request_folded] by (auto simp: request_fields_def)
  have "rq_params (ev_request (ClassifyClientEnvelope num line)) = praw"
    using request_kind [OF assms(2)] praw(1) stored_params [of num "object_members data" "(no_request, True)"] data doc
    by (auto simp: unmarshal_request_def decode_members_def split_def Let_def split: if_splits)
  then have u: "unmarshal_call praw = Some (tool, arguments)" using assms(3) by simp
  then have c: "fst (fold store_call (object_members praw) (([], []), True)) = (tool, arguments)"
    using praw(2) by (auto simp: unmarshal_call_def split_def Let_def split: if_splits)
  obtain nraw where "stored_at call_fields ''name'' (object_members praw) = Some (''name'', nraw, VStr name)"
    using stored_exact [OF praw(2) ps assms(7,8) _ call_folded] by (auto simp: call_fields_def)
  then have "tool = name" using stored_name c by (metis fst_conv)
  moreover obtain araw where araw: "stored_at call_fields ''arguments'' (object_members praw) = Some (''arguments'', araw, args)" "parse_document araw = Some args"
    using stored_exact [OF praw(2) ps assms(7,9) _ call_folded] by (auto simp: call_fields_def)
  moreover have "arguments = araw" using stored_text [of "object_members praw" "(([], []), True)"] araw(1) c by simp
  ultimately show ?thesis by simp
qed

definition doubled_line :: string where
  "doubled_line = ''{\"id\":1,\"jsonrpc\":\"2.0\",\"method\":\"tools/call\",\"params\":{\"name\":\"cat\",\"arguments\":{\"p\":\"b\"},\"arguments\":{\"p\":\"a\"}}}''"

definition single_line :: string where
  "single_line = ''{\"id\":1,\"jsonrpc\":\"2.0\",\"method\":\"tools/call\",\"params\":{\"arguments\":{\"p\":\"a\"},\"name\":\"cat\"}}''"

definition single_params :: "(string \<times> jtext) list" where
  "single_params = [(''arguments'', VObj [(''p'', VStr ''a'')]), (''name'', VStr ''cat'')]"

definition single_members :: "(string \<times> jtext) list" where
  "single_members = [(''id'', VNum ''1''), (''jsonrpc'', VStr ''2.0''), (''method'', VStr ''tools/call''), (''params'', VObj single_params)]"

lemma decided_call_is_relayed_witness:
  "CanonicalizeJSONLine doubled_line = Inr single_line
   \<and> ev_kind (ClassifyClientEnvelope demo_num single_line) = EnvelopeToolsCallRequest
   \<and> (\<exists>arguments. unmarshal_call (rq_params (ev_request (ClassifyClientEnvelope demo_num single_line))) = Some (''cat'', arguments)
        \<and> parse_document arguments = Some (VObj [(''p'', VStr ''a'')]))"
proof -
  have c: "CanonicalizeJSONLine doubled_line = Inr single_line" by code_simp
  have k: "ev_kind (ClassifyClientEnvelope demo_num single_line) = EnvelopeToolsCallRequest" by code_simp
  have u: "unmarshal_call (rq_params (ev_request (ClassifyClientEnvelope demo_num single_line))) = Some (''cat'', ''{\"p\":\"a\"}'')" by code_simp
  have d: "parse_document single_line = Some (VObj single_members)" by code_simp
  have a: "ascii_names (map fst single_members)" "ascii_names (map fst single_params)" by code_simp+
  have m: "map_of single_members ''params'' = Some (VObj single_params)" "map_of single_params ''name'' = Some (VStr ''cat'')"
      "map_of single_params ''arguments'' = Some (VObj [(''p'', VStr ''a'')])"
    by (simp_all add: single_members_def single_params_def)
  show ?thesis using decided_call_is_relayed [OF c k u d a(1) m(1) a(2) m(2,3)] c k u by blast
qed

definition redirecting_line :: string where
  "redirecting_line = ''{\"id\":1,\"jsonrpc\":\"2.0\",\"method\":\"tools/call\",\"params\":{\"arguments\":{\"p\":\"b\"},\"argument'' @ [CHR 0xC5, CHR 0xBF]
     @ ''\":{\"p\":\"a\"},\"name\":\"cat\"}}''"


section \<open>What reaches the server\<close>

text \<open>A message is accounted for by the messages of the client when it is one of them and, if it is a JSON document, not a tool
  call, or when it is what \<^verbatim>\<open>processToolsCall\<close> returned for the call of a canonical line and this was to forward.\<close>

definition accounted_by ::
    "go_env \<Rightarrow> regex_lib \<Rightarrow> crypto_env \<Rightarrow> sign_env \<Rightarrow> (string \<Rightarrow> rat option) \<Rightarrow> string \<Rightarrow> string \<Rightarrow> string \<Rightarrow> bool" where
  "accounted_by E X C G num server raw m \<longleftrightarrow>
     m = raw \<and> (\<forall>v. parse_document (envelope_text raw) = Some v \<longrightarrow> \<not> calls_tool num v)
     \<or> (\<exists>line c ce p. CanonicalizeJSONLine raw = Inr line
          \<and> ev_kind (ClassifyClientEnvelope num line) = EnvelopeToolsCallRequest
          \<and> unmarshal_call (rq_params (ev_request (ClassifyClientEnvelope num line))) = Some c
          \<and> res_action (processToolsCall E X C G ce (canonical_call num server line c) p) = Forward
          \<and> m = res_message (processToolsCall E X C G ce (canonical_call num server line c) p))"

definition accounted_message ::
    "go_env \<Rightarrow> regex_lib \<Rightarrow> crypto_env \<Rightarrow> sign_env \<Rightarrow> (string \<Rightarrow> rat option) \<Rightarrow> string \<Rightarrow> (string \<times> call_env \<times> kinetic \<times> int) list \<Rightarrow> string \<Rightarrow> bool" where
  "accounted_message E X C G num server msgs m \<longleftrightarrow>
     list_ex (\<lambda>(raw, ce, k, now). \<not> (kn_enabled k \<and> kn_revoked k) \<and> accounted_by E X C G num server raw m) msgs"

lemma intercept_forward:
  assumes "res_action (fst (interceptClientToServerEnvelope E X C G num ce server raw p)) = Forward"
  shows "accounted_by E X C G num server raw (res_message (fst (interceptClientToServerEnvelope E X C G num ce server raw p)))"
proof (cases "ev_kind (ClassifyClientEnvelope num raw)")
  case EnvelopeForward
  then have "res_message (fst (interceptClientToServerEnvelope E X C G num ce server raw p)) = raw"
    by (simp add: interceptClientToServerEnvelope_def relay_unexamined_def)
  moreover have "\<not> calls_tool num v" if "parse_document (envelope_text raw) = Some v" for v
    using classify_forward_iff [OF that] EnvelopeForward by blast
  ultimately show ?thesis unfolding accounted_by_def by blast
next
  case EnvelopeToolsCallRequest
  obtain line where l: "CanonicalizeJSONLine raw = Inr line"
    using assms(1) EnvelopeToolsCallRequest
    by (cases "CanonicalizeJSONLine raw") (auto simp: interceptClientToServerEnvelope_def invalid_request_def denied_def)
  have k2: "ev_kind (ClassifyClientEnvelope num line) = EnvelopeToolsCallRequest"
    using assms(1) EnvelopeToolsCallRequest l
    by (auto simp: interceptClientToServerEnvelope_def invalid_request_def denied_def Let_def split: if_splits)
  obtain c where c: "unmarshal_call (rq_params (ev_request (ClassifyClientEnvelope num line))) = Some c"
    using assms(1) EnvelopeToolsCallRequest l k2
    by (cases "unmarshal_call (rq_params (ev_request (ClassifyClientEnvelope num line)))")
      (auto simp: interceptClientToServerEnvelope_def invalid_parameters_def Let_def)
  define ce1 where "ce1 = ce\<lparr>ce_argument_bytes := originalArgumentBytes (rq_params (ev_request (ClassifyClientEnvelope num raw)))\<rparr>"
  have "fst (interceptClientToServerEnvelope E X C G num ce server raw p) = processToolsCall E X C G ce1 (canonical_call num server line c) p"
    using EnvelopeToolsCallRequest l k2 c by (simp add: interceptClientToServerEnvelope_def ce1_def Let_def)
  then show ?thesis unfolding accounted_by_def using assms l k2 c by metis
qed (use assms(1) in \<open>simp_all add: interceptClientToServerEnvelope_def denyToolsCallEnvelope_def invalid_request_def denied_def Let_def\<close>)

lemma accounted_mono: "accounted_message E X C G num server msgs m \<Longrightarrow> accounted_message E X C G num server (x # msgs) m"
  by (simp add: accounted_message_def)


end
