(* ===== verification/Server_Identity.thy ===== *)
theory Server_Identity
  imports Kill_Switch Tools_Call File_Path
begin

text \<open>
  The identity of the launched server (\<^verbatim>\<open>src/internal/serveridentity/identity.go\<close>): the framed bytes of a stdio invocation,
  the launchers that cannot be pinned, the resolution, and its use when the proxy starts (\<^verbatim>\<open>prepareIdentity\<close> and
  \<^verbatim>\<open>resolveLaunchedIdentity\<close> of \<^verbatim>\<open>src/internal/proxy/proxy.go\<close>). The file system, the search path and SHA-256 are the fields
  of host.
\<close>

unbundle bit_operations_syntax

section \<open>Frames\<close>

definition KindStdioInvocationSHA256V1 :: string where "KindStdioInvocationSHA256V1 = ''stdio_invocation_sha256_v1''"

definition tagFormat :: char where "tagFormat = CHR 0x01"
definition tagExecutable :: char where "tagExecutable = CHR 0x02"
definition tagArgument :: char where "tagArgument = CHR 0x03"
definition tagEntryPayload :: char where "tagEntryPayload = CHR 0x04"

definition writeFieldHeader :: "char \<Rightarrow> nat \<Rightarrow> nat \<Rightarrow> string" where
  "writeFieldHeader tag index len = tag # be64 index @ be64 len"

definition write_frame :: "char \<Rightarrow> nat \<Rightarrow> string \<Rightarrow> string" where
  "write_frame tag index data = writeFieldHeader tag index (length data) @ data"

section \<open>Resolution\<close>

record file_info =
  fi_regular :: bool
  fi_perm :: "32 word"
  fi_size :: nat

text \<open>Errors are their texts. io_copy is the content that is read from the opened file.\<close>

record host =
  look_path :: "string \<Rightarrow> string + string"
  eval_symlinks :: "string \<Rightarrow> string + string"
  stat_file :: "string \<Rightarrow> string + file_info"
  open_error :: "string \<Rightarrow> string option"
  io_copy :: "string \<Rightarrow> string + string"
  sha256_hex :: "string \<Rightarrow> string"

record resolved =
  rs_kind :: string
  rs_digest :: string

definition launcher_label :: "string list \<Rightarrow> string \<Rightarrow> string" where
  "launcher_label args c =
     (if c \<in> set [''npx'', ''uvx'', ''bunx'', ''pnpx'', ''pnx''] then c
      else if c = ''npm'' then (if take 1 args = [''exec''] then ''npm exec'' else if take 1 args = [''x''] then ''npm x'' else [])
      else if c = ''yarn'' then (if take 1 args = [''dlx''] then ''yarn dlx'' else [])
      else if c = ''pnpm'' then (if take 1 args = [''dlx''] then ''pnpm dlx'' else [])
      else if c = ''bun'' then (if take 1 args = [''x''] then ''bun x'' else [])
      else if c = ''uv'' then (if take 2 args = [''tool'', ''run''] then ''uv tool run'' else [])
      else [])"

definition unpinnableLauncher :: "string \<Rightarrow> string \<Rightarrow> string list \<Rightarrow> string" where
  "unpinnableLauncher command lookPath args =
     (let first = launcher_label args (path_base command) in
      if first \<noteq> [] then first else launcher_label args (path_base lookPath))"

definition resolution_error :: "string \<Rightarrow> string" where
  "resolution_error msg = ''resolve stdio invocation'' @ msg"

text \<open>The content field of an opened file: its size comes from the earlier stat and has to agree.\<close>

definition content_frame :: "host \<Rightarrow> char \<Rightarrow> nat \<Rightarrow> string \<Rightarrow> nat \<Rightarrow> string \<Rightarrow> string \<Rightarrow> string + string" where
  "content_frame h tag index path sz what hash_what =
     (case io_copy h path of
        Inl err \<Rightarrow> Inl (resolution_error (hash_what @ '': '' @ err))
      | Inr content \<Rightarrow>
          if length content \<noteq> sz
          then Inl (resolution_error (what @ '': size changed while hashing ('' @ itoa (int (length content)) @ '' != '' @ itoa (int sz) @ '')''))
          else Inr (writeFieldHeader tag index sz @ content))"

definition entry_payload :: "host \<Rightarrow> nat \<Rightarrow> string \<Rightarrow> string + string" where
  "entry_payload h i arg =
     (let what = '' entry payload '' @ go_quote arg in
      case eval_symlinks h arg of
        Inl err \<Rightarrow> Inl (resolution_error (what @ '': '' @ err))
      | Inr p \<Rightarrow>
          (case stat_file h p of
             Inl err \<Rightarrow> Inl (resolution_error (what @ '': '' @ err))
           | Inr fi \<Rightarrow>
               if \<not> fi_regular fi then Inl (resolution_error (what @ '': not a regular file''))
               else case open_error h p of
                 Some err \<Rightarrow> Inl (resolution_error (what @ '': '' @ err))
               | None \<Rightarrow> content_frame h tagEntryPayload i p (fi_size fi) what ('' entry payload hash '' @ go_quote arg)))"

fun argument_frames :: "host \<Rightarrow> int list \<Rightarrow> nat \<Rightarrow> string list \<Rightarrow> string + string" where
  "argument_frames h declared i [] = Inr []"
| "argument_frames h declared i (arg # args) =
     (case (if int i \<in> set declared then entry_payload h i arg else Inr []) of
        Inl err \<Rightarrow> Inl err
      | Inr payload \<Rightarrow>
          (case argument_frames h declared (Suc i) args of
             Inl err \<Rightarrow> Inl err
           | Inr rest \<Rightarrow> Inr (write_frame tagArgument i arg @ payload @ rest)))"

text \<open>The first declared position, in sorted order, that is not a position of the arguments.\<close>

definition bad_position :: "string list \<Rightarrow> int list \<Rightarrow> int option" where
  "bad_position args positions = find (\<lambda>pos. pos < 0 \<or> int (length args) \<le> pos) (sort positions)"

definition ResolveStdioInvocation :: "host \<Rightarrow> string \<Rightarrow> string list \<Rightarrow> int list \<Rightarrow> string + resolved" where
  "ResolveStdioInvocation h command args positions =
     (if command = [] then Inl (resolution_error '': command is empty'')
      else case look_path h command of
        Inl err \<Rightarrow> Inl (resolution_error ('' '' @ go_quote command @ '': '' @ err))
      | Inr path \<Rightarrow>
          (let launcher = unpinnableLauncher command path args in
           if launcher \<noteq> []
           then Inl (resolution_error ('': launcher '' @ go_quote launcher @ '' selects a registry payload that cannot be content-pinned''))
           else case eval_symlinks h path of
             Inl err \<Rightarrow> Inl (resolution_error ('' symlinks '' @ go_quote path @ '': '' @ err))
           | Inr resolvedPath \<Rightarrow>
               (let what = '' '' @ go_quote resolvedPath in
                case stat_file h resolvedPath of
                  Inl err \<Rightarrow> Inl (resolution_error ('' stat'' @ what @ '': '' @ err))
                | Inr info \<Rightarrow>
                    if \<not> fi_regular info then Inl (resolution_error (what @ '': not a regular file''))
                    else if fi_perm info AND 73 = 0 then Inl (resolution_error (what @ '': not executable''))
                    else case bad_position args positions of
                      Some pos \<Rightarrow> Inl (resolution_error ('' entry position '' @ itoa pos @ '': out of range for '' @ itoa (int (length args)) @ '' args''))
                    | None \<Rightarrow>
                        (case open_error h resolvedPath of
                           Some err \<Rightarrow> Inl (resolution_error ('' open'' @ what @ '': '' @ err))
                         | None \<Rightarrow>
                             (case content_frame h tagExecutable 0 resolvedPath (fi_size info) what ('' hash'' @ what) of
                                Inl err \<Rightarrow> Inl err
                              | Inr executable \<Rightarrow>
                                  (case argument_frames h positions 0 args of
                                     Inl err \<Rightarrow> Inl err
                                   | Inr rest \<Rightarrow>
                                       Inr \<lparr>rs_kind = KindStdioInvocationSHA256V1,
                                            rs_digest = ''sha256:'' @ sha256_hex h
                                              (write_frame tagFormat 0 KindStdioInvocationSHA256V1 @ executable @ rest)\<rparr>))))))"

definition ResolveStdioExecutable :: "host \<Rightarrow> string \<Rightarrow> string + resolved" where
  "ResolveStdioExecutable h command = ResolveStdioInvocation h command [] []"

section \<open>The identity of the launched server\<close>

text \<open>The launch configuration: an identity that was configured directly, the command line, the URL of a remote server.\<close>

record launch_config =
  lc_resolved :: "resolved option"
  lc_server_name :: string
  lc_command :: string
  lc_args :: "string list"
  lc_url :: string

definition prepareIdentity :: "host \<Rightarrow> launch_config \<Rightarrow> policy \<Rightarrow> resolved option" where
  "prepareIdentity h cfg pol =
     (case findServerByName pol (lc_server_name cfg) of
        None \<Rightarrow> None
      | Some srv \<Rightarrow>
          (case srv_attestation srv of
             None \<Rightarrow> None
           | Some pin \<Rightarrow>
               (case lc_resolved cfg of
                  Some r \<Rightarrow> Some r
                | None \<Rightarrow>
                    if lc_url cfg \<noteq> [] \<or> lc_command cfg = [] then None
                    else case ResolveStdioInvocation h (lc_command cfg) (lc_args cfg) (att_entry_arg_positions pin) of
                           Inl _ \<Rightarrow> None
                         | Inr r \<Rightarrow> Some r)))"

definition resolveLaunchedIdentity :: "host \<Rightarrow> launch_config \<Rightarrow> proxy \<Rightarrow> proxy" where
  "resolveLaunchedIdentity h cfg p =
     (let pol = eng_policy (px_engine p) in
      p\<lparr>px_resolved_digest := map_option rs_digest (prepareIdentity h cfg pol),
        px_launch_shape :=
          (case findServerByName pol (lc_server_name cfg) of
             None \<Rightarrow> px_launch_shape p
           | Some srv \<Rightarrow>
               (case srv_attestation srv of
                  None \<Rightarrow> px_launch_shape p
                | Some pin \<Rightarrow> Some (att_kind pin, sort (att_entry_arg_positions pin))))\<rparr>)"

section \<open>The digest determines the invocation\<close>

type_synonym frame = "char \<times> nat \<times> string"

definition frame_bytes :: "frame \<Rightarrow> string" where "frame_bytes = (\<lambda>(tag, i, data). write_frame tag i data)"

definition frame_small :: "frame \<Rightarrow> bool" where "frame_small = (\<lambda>(tag, i, data). i < 2 ^ 64 \<and> length data < 2 ^ 64)"

lemma frame_prefix:
  assumes "frame_bytes f @ r = frame_bytes g @ s" and "frame_small f" and "frame_small g"
  shows "f = g \<and> r = s"
proof -
  obtain t i d where f: "f = (t, i, d)" by (cases f)
  obtain u j e where g: "g = (u, j, e)" by (cases g)
  have eq: "t = u" "be64 i @ be64 (length d) @ d @ r = be64 j @ be64 (length e) @ e @ s"
    using assms(1) by (simp_all add: f g frame_bytes_def write_frame_def writeFieldHeader_def)
  then have i: "be64 i = be64 j" and l: "be64 (length d) = be64 (length e)" and d: "d @ r = e @ s"
    by (simp_all add: append_eq_append_conv)
  have "i = j" using be64_inj [OF i] assms(2,3) f g by (simp add: frame_small_def)
  moreover have "length d = length e" using be64_inj [OF l] assms(2,3) f g by (simp add: frame_small_def)
  ultimately show ?thesis using eq(1) d f g by (simp add: append_eq_append_conv)
qed

lemma frames_inj:
  assumes "concat (map frame_bytes fs) = concat (map frame_bytes gs)" and "list_all frame_small fs" and "list_all frame_small gs"
  shows "fs = gs"
  using assms
proof (induction fs arbitrary: gs)
  case Nil
  then show ?case by (cases gs) (auto simp: frame_bytes_def write_frame_def writeFieldHeader_def)
next
  case (Cons f fs)
  then obtain g hs where g: "gs = g # hs" by (cases gs) (auto simp: frame_bytes_def write_frame_def writeFieldHeader_def split: prod.splits)
  then have "f = g \<and> concat (map frame_bytes fs) = concat (map frame_bytes hs)"
    using frame_prefix [of f "concat (map frame_bytes fs)" g "concat (map frame_bytes hs)"] Cons.prems by simp
  then show ?case using Cons.IH [of hs] Cons.prems g by simp
qed

text \<open>The fields that a resolution serializes, given the contents of the entry payloads.\<close>

fun arg_fields :: "(nat \<Rightarrow> string \<Rightarrow> string option) \<Rightarrow> nat \<Rightarrow> string list \<Rightarrow> frame list" where
  "arg_fields payload i [] = []"
| "arg_fields payload i (a # as) =
     (tagArgument, i, a) # (case payload i a of Some c \<Rightarrow> [(tagEntryPayload, i, c)] | None \<Rightarrow> []) @ arg_fields payload (Suc i) as"

definition file_content :: "host \<Rightarrow> string \<Rightarrow> string option" where
  "file_content h arg =
     (case eval_symlinks h arg of
        Inr p \<Rightarrow> (case io_copy h p of Inr c \<Rightarrow> Some c | Inl _ \<Rightarrow> None)
      | Inl _ \<Rightarrow> None)"

definition executable_content :: "host \<Rightarrow> string \<Rightarrow> string option" where
  "executable_content h command = (case look_path h command of Inr path \<Rightarrow> file_content h path | Inl _ \<Rightarrow> None)"

definition declared_payload :: "host \<Rightarrow> int list \<Rightarrow> nat \<Rightarrow> string \<Rightarrow> string option" where
  "declared_payload h positions i arg = (if int i \<in> set positions then file_content h arg else None)"

lemma content_frame_Inr:
  "content_frame h tag i p sz w hw = Inr bytes \<Longrightarrow> \<exists>c. io_copy h p = Inr c \<and> bytes = write_frame tag i c"
  by (auto simp: content_frame_def write_frame_def split: sum.splits if_splits)

lemma entry_payload_Inr:
  assumes "entry_payload h i arg = Inr bytes"
  shows "\<exists>c. file_content h arg = Some c \<and> bytes = write_frame tagEntryPayload i c"
proof -
  obtain p fi where p: "eval_symlinks h arg = Inr p" "stat_file h p = Inr fi"
    "content_frame h tagEntryPayload i p (fi_size fi) ('' entry payload '' @ go_quote arg) ('' entry payload hash '' @ go_quote arg) = Inr bytes"
    using assms unfolding entry_payload_def Let_def by (simp split: sum.splits if_splits option.splits)
  then show ?thesis using content_frame_Inr [OF p(3)] by (auto simp: file_content_def)
qed

lemma argument_frames_Inr:
  "argument_frames h positions i args = Inr bytes \<Longrightarrow>
     bytes = concat (map frame_bytes (arg_fields (declared_payload h positions) i args))
     \<and> list_all (\<lambda>(j, a). int j \<in> set positions \<longrightarrow> file_content h a \<noteq> None) (List.enumerate i args)"
proof (induction args arbitrary: i bytes)
  case (Cons a args)
  obtain pl where pl: "(if int i \<in> set positions then entry_payload h i a else Inr []) = Inr pl"
    using Cons.prems by (auto split: sum.splits)
  obtain rest where rest: "argument_frames h positions (Suc i) args = Inr rest" "bytes = write_frame tagArgument i a @ pl @ rest"
    using Cons.prems pl by (auto split: sum.splits)
  show ?case
  proof (cases "int i \<in> set positions")
    case True
    then have "entry_payload h i a = Inr pl" using pl by simp
    then obtain c where "file_content h a = Some c" "pl = write_frame tagEntryPayload i c" using entry_payload_Inr by blast
    then show ?thesis using Cons.IH [OF rest(1)] rest(2) True by (simp add: declared_payload_def frame_bytes_def)
  next
    case False
    then show ?thesis using Cons.IH [OF rest(1)] rest(2) pl by (simp add: declared_payload_def frame_bytes_def)
  qed
qed simp

definition invocation_fields :: "host \<Rightarrow> string \<Rightarrow> string list \<Rightarrow> int list \<Rightarrow> frame list" where
  "invocation_fields h exe args positions =
     (tagFormat, 0, KindStdioInvocationSHA256V1) # (tagExecutable, 0, exe) # arg_fields (declared_payload h positions) 0 args"

lemma resolve_Inr:
  assumes "ResolveStdioInvocation h command args positions = Inr r"
  shows "\<exists>exe. executable_content h command = Some exe
    \<and> rs_digest r = ''sha256:'' @ sha256_hex h (concat (map frame_bytes (invocation_fields h exe args positions)))
    \<and> list_all (\<lambda>(j, a). int j \<in> set positions \<longrightarrow> file_content h a \<noteq> None) (List.enumerate 0 args)
    \<and> list_all (\<lambda>pos. 0 \<le> pos \<and> pos < int (length args)) positions"
proof -
  obtain path where path: "look_path h command = Inr path" "command \<noteq> []"
    using assms unfolding ResolveStdioInvocation_def by (simp split: if_splits sum.splits)
  have l: "unpinnableLauncher command path args = []"
    using assms path unfolding ResolveStdioInvocation_def Let_def by (simp split: if_splits)
  obtain rp where rp: "eval_symlinks h path = Inr rp"
    using assms path l unfolding ResolveStdioInvocation_def Let_def by (simp split: sum.splits)
  obtain info where info: "stat_file h rp = Inr info"
    using assms path l rp unfolding ResolveStdioInvocation_def Let_def by (simp split: sum.splits)
  have bp: "bad_position args positions = None"
    using assms path l rp info unfolding ResolveStdioInvocation_def Let_def by (simp split: if_splits option.splits)
  obtain e where e: "content_frame h tagExecutable 0 rp (fi_size info) ('' '' @ go_quote rp) ('' hash '' @ go_quote rp) = Inr e"
    using assms path l rp info bp unfolding ResolveStdioInvocation_def Let_def by (simp split: if_splits option.splits sum.splits)
  obtain rest where rest: "argument_frames h positions 0 args = Inr rest"
    using assms path l rp info bp e unfolding ResolveStdioInvocation_def Let_def by (simp split: if_splits option.splits sum.splits)
  have d: "rs_digest r = ''sha256:'' @ sha256_hex h (write_frame tagFormat 0 KindStdioInvocationSHA256V1 @ e @ rest)"
    using assms path l rp info bp e rest unfolding ResolveStdioInvocation_def Let_def by (auto split: if_splits option.splits)
  obtain exe where exe: "io_copy h rp = Inr exe" "e = write_frame tagExecutable 0 exe" using content_frame_Inr [OF e] by blast
  have "executable_content h command = Some exe" using path rp exe(1) by (simp add: executable_content_def file_content_def)
  moreover have "list_all (\<lambda>pos. 0 \<le> pos \<and> pos < int (length args)) positions"
    using bp by (auto simp: bad_position_def find_None_iff list_all_iff)
  ultimately show ?thesis using d exe(2) argument_frames_Inr [OF rest] by (simp add: invocation_fields_def frame_bytes_def)
qed

text \<open>The fields determine the arguments, the declared positions and the payloads.\<close>

definition declared_contents :: "host \<Rightarrow> int list \<Rightarrow> nat \<Rightarrow> string list \<Rightarrow> (string \<times> string option) list" where
  "declared_contents h positions i args = map (\<lambda>(j, a). (a, declared_payload h positions j a)) (List.enumerate i args)"

lemma arg_fields_inj:
  "arg_fields p i as = arg_fields q i bs \<Longrightarrow> map (\<lambda>(j, a). (a, p j a)) (List.enumerate i as) = map (\<lambda>(j, a). (a, q j a)) (List.enumerate i bs)"
proof (induction as arbitrary: i bs)
  case Nil
  then show ?case by (cases bs) simp_all
next
  case (Cons a as)
  then obtain b cs where b: "bs = b # cs" by (cases bs) auto
  have t: "arg_fields r j es \<noteq> (tagEntryPayload, y) # z" "(tagEntryPayload, y) # z \<noteq> arg_fields r j es" for r j es y z
    by (cases es; simp add: tagArgument_def tagEntryPayload_def)+
  have "a = b \<and> p i a = q i b \<and> arg_fields p (Suc i) as = arg_fields q (Suc i) cs"
    using Cons.prems b t by (cases "p i a"; cases "q i b") auto
  then show ?case using Cons.IH [of "Suc i" cs] b by auto
qed

lemma same_declared:
  assumes "declared_contents h ps i args = declared_contents h' qs i args"
    and "list_all (\<lambda>(j, a). int j \<in> set ps \<longrightarrow> file_content h a \<noteq> None) (List.enumerate i args)"
    and "list_all (\<lambda>(j, a). int j \<in> set qs \<longrightarrow> file_content h' a \<noteq> None) (List.enumerate i args)"
    and "i \<le> j" "j < i + length args"
  shows "int j \<in> set ps \<longleftrightarrow> int j \<in> set qs"
proof -
  have m: "(j, args ! (j - i)) \<in> set (List.enumerate i args)" using assms(4,5) by (auto simp: in_set_enumerate_eq)
  then have "declared_payload h ps j (args ! (j - i)) = declared_payload h' qs j (args ! (j - i))"
    using assms(1) unfolding declared_contents_def by (auto simp: map_eq_conv)
  moreover have "int j \<in> set ps \<longrightarrow> file_content h (args ! (j - i)) \<noteq> None" "int j \<in> set qs \<longrightarrow> file_content h' (args ! (j - i)) \<noteq> None"
    using assms(2,3) m by (auto simp: list_all_iff)
  ultimately show ?thesis by (auto simp: declared_payload_def split: if_splits)
qed

text \<open>Sizes fit into the 64-bit length of a frame.\<close>

definition frames_small :: "host \<Rightarrow> string \<Rightarrow> string list \<Rightarrow> int list \<Rightarrow> bool" where
  "frames_small h command args positions \<longleftrightarrow>
     (case executable_content h command of None \<Rightarrow> False | Some exe \<Rightarrow> list_all frame_small (invocation_fields h exe args positions))"

lemma enumerate_args: "map fst (declared_contents h ps i args) = args"
proof -
  have "map fst (declared_contents h ps i args) = map snd (List.enumerate i args)" by (simp add: declared_contents_def split_def comp_def)
  then show ?thesis by simp
qed

lemma positions_from_contents:
  assumes "list_all (\<lambda>pos. 0 \<le> pos \<and> pos < int n) ps" "list_all (\<lambda>pos. 0 \<le> pos \<and> pos < int n) qs"
    and "\<And>j. j < n \<Longrightarrow> int j \<in> set ps \<longleftrightarrow> int j \<in> set qs"
  shows "set ps = set qs"
proof -
  have "x \<in> set ps \<longleftrightarrow> x \<in> set qs" for x
  proof (cases "0 \<le> x \<and> x < int n")
    case True
    then show ?thesis using assms(3) [of "nat x"] by auto
  next
    case False
    then show ?thesis using assms(1,2) by (auto simp: list_all_iff)
  qed
  then show ?thesis by blast
qed

text \<open>C15: The digest of an invocation binds what will run: two resolutions with the same digest measured the same
  executable bytes, the same arguments, the same declared positions and the same payload bytes at each of
  them, on the same or on different hosts, unless two different inputs of SHA-256 collide.\<close>

theorem invocation_digest_binds:
  assumes "ResolveStdioInvocation h command args ps = Inr r" and "ResolveStdioInvocation h' command' args' qs = Inr r'"
    and "rs_digest r = rs_digest r'" and "sha256_hex h' = sha256_hex h"
    and "frames_small h command args ps" and "frames_small h' command' args' qs"
  shows "executable_content h command = executable_content h' command' \<and> args = args' \<and> set ps = set qs
      \<and> declared_contents h ps 0 args = declared_contents h' qs 0 args'
    \<or> (\<exists>x y. x \<noteq> y \<and> sha256_hex h x = sha256_hex h y)"
proof -
  obtain exe where 1: "executable_content h command = Some exe"
      "rs_digest r = ''sha256:'' @ sha256_hex h (concat (map frame_bytes (invocation_fields h exe args ps)))"
      "list_all (\<lambda>(j, a). int j \<in> set ps \<longrightarrow> file_content h a \<noteq> None) (List.enumerate 0 args)"
      "list_all (\<lambda>pos. 0 \<le> pos \<and> pos < int (length args)) ps" using resolve_Inr [OF assms(1)] by blast
  obtain exe' where 2: "executable_content h' command' = Some exe'"
      "rs_digest r' = ''sha256:'' @ sha256_hex h' (concat (map frame_bytes (invocation_fields h' exe' args' qs)))"
      "list_all (\<lambda>(j, a). int j \<in> set qs \<longrightarrow> file_content h' a \<noteq> None) (List.enumerate 0 args')"
      "list_all (\<lambda>pos. 0 \<le> pos \<and> pos < int (length args')) qs" using resolve_Inr [OF assms(2)] by blast
  define x where "x = concat (map frame_bytes (invocation_fields h exe args ps))"
  define y where "y = concat (map frame_bytes (invocation_fields h' exe' args' qs))"
  have eq: "sha256_hex h x = sha256_hex h y" using 1(2) 2(2) assms(3,4) by (simp add: x_def y_def)
  show ?thesis
  proof (cases "x = y")
    case False
    then show ?thesis using eq by blast
  next
    case True
    then have "invocation_fields h exe args ps = invocation_fields h' exe' args' qs"
      using frames_inj assms(5,6) 1(1) 2(1) by (simp add: x_def y_def frames_small_def)
    then have f: "exe = exe'" "arg_fields (declared_payload h ps) 0 args = arg_fields (declared_payload h' qs) 0 args'"
      by (simp_all add: invocation_fields_def)
    have c: "declared_contents h ps 0 args = declared_contents h' qs 0 args'"
      using arg_fields_inj [OF f(2)] by (simp add: declared_contents_def)
    have a: "args = args'" using arg_cong [OF c, of "map fst"] unfolding enumerate_args .
    have "set ps = set qs"
      by (rule positions_from_contents [OF 1(4) 2(4) [folded a]])
        (use same_declared [OF c [folded a] 1(3) 2(3) [folded a]] in simp)
    then show ?thesis using 1(1) 2(1) f(1) a c by simp
  qed
qed

definition demo_host :: host where
  "demo_host = \<lparr>look_path = (\<lambda>c. Inr (''/bin/'' @ c)), eval_symlinks = Inr,
     stat_file = (\<lambda>p. Inr \<lparr>fi_regular = True, fi_perm = 73, fi_size = length p\<rparr>), open_error = (\<lambda>p. None),
     io_copy = Inr, sha256_hex = (\<lambda>s. s)\<rparr>"

lemma demo_resolves: "\<exists>r. ResolveStdioInvocation demo_host ''node'' [''a.js'', ''-v''] [0] = Inr r"
proof -
  have "unpinnableLauncher ''node'' ''/bin/node'' [''a.js'', ''-v''] = []" by code_simp
  moreover have "bad_position [''a.js'', ''-v''] [0] = None" by code_simp
  ultimately show ?thesis
    by (simp add: ResolveStdioInvocation_def demo_host_def content_frame_def entry_payload_def Let_def)
qed

theorem invocation_digest_binds_witness:
  "\<exists>r r'. ResolveStdioInvocation demo_host ''node'' [''a.js'', ''-v''] [0] = Inr r
     \<and> ResolveStdioInvocation demo_host ''node'' [''a.js'', ''-v''] [0] = Inr r' \<and> rs_digest r = rs_digest r'
     \<and> (declared_contents demo_host [0] 0 [''a.js'', ''-v''] = [(''a.js'', Some ''a.js''), (''-v'', None)])
     \<and> (executable_content demo_host ''node'' = executable_content demo_host ''node'' \<or> (\<exists>x y. x \<noteq> y \<and> sha256_hex demo_host x = sha256_hex demo_host y))"
proof -
  obtain r where r: "ResolveStdioInvocation demo_host ''node'' [''a.js'', ''-v''] [0] = Inr r" using demo_resolves by blast
  have s: "frames_small demo_host ''node'' [''a.js'', ''-v''] [0]"
    by (simp add: frames_small_def executable_content_def file_content_def demo_host_def invocation_fields_def frame_small_def
        declared_payload_def KindStdioInvocationSHA256V1_def)
  have "declared_contents demo_host [0] 0 [''a.js'', ''-v''] = [(''a.js'', Some ''a.js''), (''-v'', None)]"
    by (simp add: declared_contents_def declared_payload_def file_content_def demo_host_def)
  then show ?thesis using invocation_digest_binds [OF r r refl refl s s] r by blast
qed

text \<open>Attestation is bound to the launch: whatever policy is loaded later, a server satisfies its pin only when the invocation
  was resolved when the proxy started, with the declared positions of the pin, and the measured digest is the
  pinned one.\<close>

theorem attested_server_was_measured:
  assumes "identityEvidence ((resolveLaunchedIdentity h cfg p)\<lparr>px_engine := e\<rparr>) name = Some (Inr ())" and "lc_resolved cfg = None"
  shows "\<exists>srv pin positions r. findServerByName (eng_policy e) name = Some srv \<and> srv_attestation srv = Some pin
    \<and> ResolveStdioInvocation h (lc_command cfg) (lc_args cfg) positions = Inr r
    \<and> sort positions = sort (att_entry_arg_positions pin) \<and> rs_digest r = att_digest pin"
proof -
  define q where "q = (resolveLaunchedIdentity h cfg p)\<lparr>px_engine := e\<rparr>"
  obtain srv pin digest where now: "findServerByName (eng_policy e) name = Some srv" "srv_attestation srv = Some pin"
      "px_resolved_digest q = Some digest" "attestationShapeMatches q pin" "digest = att_digest pin"
    using assms(1) unfolding q_def [symmetric] identityEvidence_def
    by (auto simp: q_def split: option.splits if_splits)
  have "px_resolved_digest q = map_option rs_digest (prepareIdentity h cfg (eng_policy (px_engine p)))"
    by (simp add: q_def resolveLaunchedIdentity_def Let_def)
  then obtain r where r: "prepareIdentity h cfg (eng_policy (px_engine p)) = Some r" "rs_digest r = digest"
    using now(3) by (metis map_option_eq_Some)
  obtain srv0 pin0 where launch: "findServerByName (eng_policy (px_engine p)) (lc_server_name cfg) = Some srv0" "srv_attestation srv0 = Some pin0"
      "ResolveStdioInvocation h (lc_command cfg) (lc_args cfg) (att_entry_arg_positions pin0) = Inr r"
    using r(1) assms(2) by (auto simp: prepareIdentity_def split: option.splits if_splits sum.splits)
  have "px_launch_shape q = Some (att_kind pin0, sort (att_entry_arg_positions pin0))"
    using launch by (simp add: q_def resolveLaunchedIdentity_def Let_def)
  then have "sort (att_entry_arg_positions pin0) = sort (att_entry_arg_positions pin)"
    using now(4) by (simp add: attestationShapeMatches_def)
  then show ?thesis using now launch(3) r(2) by blast
qed

end
