(* ===== verification/Brake_Metrics.thy ===== *)
theory Brake_Metrics
  imports Visor_Prelude "HOL-Library.Multiset" "HOL-Library.List_Lexorder" "HOL-Library.Char_ord"
begin

text \<open>
  The brake metrics (\<^verbatim>\<open>src/internal/observability/brake.go\<close>): loading an audit log, counting what the enforcement point decided,
  and reconciling declared denials with the log. An event is the part of an audit record that the metrics read; the
  JSON decoder is a parameter.
\<close>

section \<open>Data\<close>

record brake_event =
  be_type :: string
  be_session :: string
  be_policy_rule :: string
  be_taints :: "string list"
  be_request_hash :: string
  be_receipt_hash :: string
  be_receipt :: "args option"

definition brake_denied :: string where "brake_denied = ''tool_call_denied''"
definition brake_allowed :: string where "brake_allowed = ''tool_call_allowed''"
definition brake_approval_required :: string where "brake_approval_required = ''tool_call_approval_required''"
definition brake_chain_detected :: string where "brake_chain_detected = ''tool_call_chain_detected''"

text \<open>A Go map of counters is a function that is 0 outside the map.\<close>

record brake_report =
  br_denied_total :: nat
  br_denied_by_rule :: "string \<Rightarrow> nat"
  br_denied_no_rule :: nat
  br_approval_gates :: nat
  br_approval_grants :: nat
  br_chain_intercepts :: nat
  br_taint_blocks :: nat
  br_unlogged_denials :: nat
  br_unlogged_detail :: "string list"
  br_unjoinable :: nat

record decision_ref =
  dr_request_hash :: string
  dr_session_id :: string
  dr_decision :: string

definition empty_report :: brake_report where
  "empty_report = \<lparr>br_denied_total = 0, br_denied_by_rule = (\<lambda>_. 0), br_denied_no_rule = 0, br_approval_gates = 0,
     br_approval_grants = 0, br_chain_intercepts = 0, br_taint_blocks = 0, br_unlogged_denials = 0, br_unlogged_detail = [],
     br_unjoinable = 0\<rparr>"

section \<open>Loading\<close>

definition isJSONSpace :: "char \<Rightarrow> bool" where
  "isJSONSpace c \<longleftrightarrow> c = CHR '' '' \<or> c = CHR 0x09 \<or> c = CHR 0x0D \<or> c = CHR 0x0A"

definition isBlankLine :: "string \<Rightarrow> bool" where "isBlankLine line = list_all isJSONSpace line"

text \<open>The text of a log, line by line: each step takes the bytes up to and including the next newline.\<close>

function LoadEvents :: "(string \<Rightarrow> string + brake_event) \<Rightarrow> string \<Rightarrow> string + brake_event list" where
  "LoadEvents unmarshal s =
     (if CHR 0x0A \<notin> set s
      then (if isBlankLine s then Inr [] else Inl ''truncated tail: final record lacks terminating newline'')
      else
        let line = takeWhile (\<lambda>c. c \<noteq> CHR 0x0A) s @ [CHR 0x0A]; rest = drop (length line) s in
        if isBlankLine line then LoadEvents unmarshal rest
        else case unmarshal line of
               Inl err \<Rightarrow> Inl (''malformed record: '' @ err)
             | Inr ev \<Rightarrow>
                 if be_type ev = [] then Inl ''record missing event_type''
                 else map_sum id (Cons ev) (LoadEvents unmarshal rest))"
  by pat_completeness auto
termination by (relation "measure (\<lambda>(u, s). length s)") (auto dest: length_pos_if_in_set)
declare LoadEvents.simps [simp del]

section \<open>Counting\<close>

definition isHumanApproveReceipt :: "args option \<Rightarrow> bool" where
  "isHumanApproveReceipt rec =
     (case rec of
        None \<Rightarrow> False
      | Some m \<Rightarrow>
          (case map_of m ''approver_id'' of Some (JStr a) \<Rightarrow> a \<noteq> [] | _ \<Rightarrow> False)
          \<and> map_of m ''decision'' = Some (JStr ''approve''))"

definition holdKey :: "string \<Rightarrow> string \<Rightarrow> string" where
  "holdKey session hash = hash @ CHR 0x00 # session"

text \<open>One event: the report and the open holds per key.\<close>

definition count_event :: "brake_event \<Rightarrow> brake_report \<times> (string \<Rightarrow> nat) \<Rightarrow> brake_report \<times> (string \<Rightarrow> nat)" where
  "count_event ev = (\<lambda>(rep, holds).
     let key = holdKey (be_session ev) (be_request_hash ev) in
     if be_type ev = brake_denied then
       (let rep1 = rep\<lparr>br_denied_total := br_denied_total rep + 1\<rparr>;
            rep2 = (if be_policy_rule ev = [] then rep1\<lparr>br_denied_no_rule := br_denied_no_rule rep1 + 1\<rparr>
                    else rep1\<lparr>br_denied_by_rule := (br_denied_by_rule rep1)(be_policy_rule ev := br_denied_by_rule rep1 (be_policy_rule ev) + 1)\<rparr>);
            rep3 = (if be_taints ev \<noteq> [] then rep2\<lparr>br_taint_blocks := br_taint_blocks rep2 + 1\<rparr> else rep2)
        in (rep3, if be_request_hash ev \<noteq> [] then holds(key := (if holds key \<le> 1 then 0 else holds key - 1)) else holds))
     else if be_type ev = brake_allowed then
       (if be_receipt_hash ev \<noteq> [] \<and> be_request_hash ev \<noteq> [] \<and> isHumanApproveReceipt (be_receipt ev) \<and> 0 < holds key
        then (rep\<lparr>br_approval_grants := br_approval_grants rep + 1\<rparr>, holds(key := holds key - 1))
        else (rep, holds))
     else if be_type ev = brake_approval_required then
       (rep\<lparr>br_approval_gates := br_approval_gates rep + 1\<rparr>,
        if be_request_hash ev \<noteq> [] then holds(key := holds key + 1) else holds)
     else if be_type ev = brake_chain_detected then
       (rep\<lparr>br_chain_intercepts := br_chain_intercepts rep + 1\<rparr>, holds)
     else (rep, holds))"

definition Compute :: "brake_event list \<Rightarrow> brake_report" where
  "Compute events = fst (fold count_event events (empty_report, \<lambda>_. 0))"

section \<open>Reconciling\<close>

text \<open>The keys of the denials in the log, and what they count to.\<close>

definition logged_keys :: "brake_event list \<Rightarrow> string list" where
  "logged_keys events =
     map (\<lambda>ev. holdKey (be_session ev) (be_request_hash ev)) (filter (\<lambda>ev. be_type ev = brake_denied \<and> be_request_hash ev \<noteq> []) events)"

definition index_denials :: "brake_event list \<Rightarrow> string \<Rightarrow> nat" where
  "index_denials events = fold (\<lambda>k m. m(k := m k + 1)) (logged_keys events) (\<lambda>_. 0)"

definition reconcile_step :: "decision_ref \<Rightarrow> brake_report \<times> (string \<Rightarrow> nat) \<Rightarrow> brake_report \<times> (string \<Rightarrow> nat)" where
  "reconcile_step d = (\<lambda>(rep, byKey).
     if dr_decision d = [] then (rep\<lparr>br_unjoinable := br_unjoinable rep + 1\<rparr>, byKey)
     else if dr_decision d \<noteq> ''deny'' then (rep, byKey)
     else if dr_request_hash d = [] \<or> dr_session_id d = [] then (rep\<lparr>br_unjoinable := br_unjoinable rep + 1\<rparr>, byKey)
     else let key = holdKey (dr_session_id d) (dr_request_hash d) in
          if byKey key = 0
          then (rep\<lparr>br_unlogged_denials := br_unlogged_denials rep + 1, br_unlogged_detail := br_unlogged_detail rep @ [key]\<rparr>, byKey)
          else (rep, byKey(key := byKey key - 1)))"

definition Reconcile :: "brake_report \<Rightarrow> decision_ref list \<Rightarrow> brake_event list \<Rightarrow> brake_report" where
  "Reconcile rep decisions events =
     (let rep1 = fst (fold reconcile_step decisions (rep, index_denials events))
      in rep1\<lparr>br_unlogged_detail := sort (br_unlogged_detail rep1)\<rparr>)"

section \<open>What the numbers mean\<close>

text \<open>The keys that are declared as denied.\<close>

definition declared_keys :: "decision_ref list \<Rightarrow> string list" where
  "declared_keys decisions =
     map (\<lambda>d. holdKey (dr_session_id d) (dr_request_hash d))
       (filter (\<lambda>d. dr_decision d = ''deny'' \<and> dr_request_hash d \<noteq> [] \<and> dr_session_id d \<noteq> []) decisions)"

lemma index_count: "fold (\<lambda>k m. m(k := m k + 1)) ks m k = m k + count (mset ks) (k :: string)" for m :: "string \<Rightarrow> nat"
  by (induction ks arbitrary: m) auto

lemma reconcile_fold:
  assumes "\<And>k. byKey k = count L k"
  shows "mset (br_unlogged_detail (fst (fold reconcile_step ds (rep, byKey)))) = mset (br_unlogged_detail rep) + (mset (declared_keys ds) - L)
    \<and> br_unlogged_denials (fst (fold reconcile_step ds (rep, byKey))) = br_unlogged_denials rep + size (mset (declared_keys ds) - L)"
  using assms
proof (induction ds arbitrary: rep byKey L)
  case Nil
  then show ?case by (simp add: declared_keys_def)
next
  case (Cons d ds)
  show ?case
  proof (cases "dr_decision d = ''deny'' \<and> dr_request_hash d \<noteq> [] \<and> dr_session_id d \<noteq> []")
    case False
    then have k: "declared_keys (d # ds) = declared_keys ds" by (auto simp: declared_keys_def)
    define rep1 where "rep1 = (if dr_decision d = [] \<or> dr_decision d = ''deny'' then rep\<lparr>br_unjoinable := br_unjoinable rep + 1\<rparr> else rep)"
    have r: "reconcile_step d (rep, byKey) = (rep1, byKey)" using False by (simp add: reconcile_step_def rep1_def)
    have "br_unlogged_detail rep1 = br_unlogged_detail rep" "br_unlogged_denials rep1 = br_unlogged_denials rep" by (simp_all add: rep1_def)
    then show ?thesis using Cons.IH [OF Cons.prems, of rep1] k r by simp
  next
    case True
    define key where "key = holdKey (dr_session_id d) (dr_request_hash d)"
    have k: "declared_keys (d # ds) = key # declared_keys ds" using True by (simp add: declared_keys_def key_def)
    show ?thesis
    proof (cases "byKey key = 0")
      case z: True
      define rep1 where "rep1 = rep\<lparr>br_unlogged_denials := br_unlogged_denials rep + 1, br_unlogged_detail := br_unlogged_detail rep @ [key]\<rparr>"
      have s: "reconcile_step d (rep, byKey) = (rep1, byKey)" using True z by (simp add: reconcile_step_def rep1_def key_def Let_def)
      have "count L key = 0" using z Cons.prems by simp
      then have "add_mset key (mset (declared_keys ds)) - L = add_mset key (mset (declared_keys ds) - L)"
        by (simp add: not_in_iff add_mset_diff_bothsides [symmetric] diff_add_mset_swap)
      then show ?thesis using Cons.IH [OF Cons.prems, of rep1] k s by (simp add: rep1_def)
    next
      case nz: False
      have s: "reconcile_step d (rep, byKey) = (rep, byKey(key := byKey key - 1))" using True nz by (simp add: reconcile_step_def key_def Let_def)
      have "key \<in># L" using nz Cons.prems by (metis count_inI)
      then have L: "add_mset key (L - {#key#}) = L" by simp
      have "(byKey(key := byKey key - 1)) x = count (L - {#key#}) x" for x using Cons.prems by simp
      then have "mset (br_unlogged_detail (fst (fold reconcile_step ds (rep, byKey(key := byKey key - 1)))))
            = mset (br_unlogged_detail rep) + (mset (declared_keys ds) - (L - {#key#}))
          \<and> br_unlogged_denials (fst (fold reconcile_step ds (rep, byKey(key := byKey key - 1))))
            = br_unlogged_denials rep + size (mset (declared_keys ds) - (L - {#key#}))"
        by (rule Cons.IH)
      moreover have "add_mset key (mset (declared_keys ds)) - L = mset (declared_keys ds) - (L - {#key#})"
        using L by (metis add_mset_diff_bothsides)
      ultimately show ?thesis using k s by simp
    qed
  qed
qed

text \<open>Reconciliation is multiset difference: the denials that are reported as unlogged are, with their multiplicity, the declared
  denials minus the denials of the log, per session and request hash; each logged denial accounts for one
  declared one.\<close>

theorem reconcile_is_difference:
  "mset (br_unlogged_detail (Reconcile (Compute events) decisions events)) = mset (declared_keys decisions) - mset (logged_keys events)
   \<and> br_unlogged_denials (Reconcile (Compute events) decisions events) = size (mset (declared_keys decisions) - mset (logged_keys events))
   \<and> sorted (br_unlogged_detail (Reconcile (Compute events) decisions events))"
proof -
  have idx: "index_denials events k = count (mset (logged_keys events)) k" for k
    using index_count [of "logged_keys events" "\<lambda>_. 0" k] by (simp add: index_denials_def)
  have keep: "br_unlogged_detail (fst (fold count_event evs st)) = br_unlogged_detail (fst st)
      \<and> br_unlogged_denials (fst (fold count_event evs st)) = br_unlogged_denials (fst st)" for evs st
  proof (induction evs arbitrary: st)
    case (Cons ev evs)
    have "br_unlogged_detail (fst (count_event ev st)) = br_unlogged_detail (fst st) \<and> br_unlogged_denials (fst (count_event ev st)) = br_unlogged_denials (fst st)"
      by (cases st) (simp add: count_event_def Let_def)
    then show ?case using Cons [of "count_event ev st"] by simp
  qed simp
  have "br_unlogged_detail (Compute events) = []" "br_unlogged_denials (Compute events) = 0"
    using keep [of events "(empty_report, \<lambda>_. 0)"] by (simp_all add: Compute_def empty_report_def)
  then show ?thesis using reconcile_fold [OF idx, of decisions "Compute events"] by (simp add: Reconcile_def Let_def)
qed

text \<open>The counters of the report.\<close>

lemma count_fold:
  "br_denied_total (fst (fold count_event evs st)) = br_denied_total (fst st) + length (filter (\<lambda>e. be_type e = brake_denied) evs)
   \<and> br_denied_no_rule (fst (fold count_event evs st)) = br_denied_no_rule (fst st) + length (filter (\<lambda>e. be_type e = brake_denied \<and> be_policy_rule e = []) evs)
   \<and> br_taint_blocks (fst (fold count_event evs st)) = br_taint_blocks (fst st) + length (filter (\<lambda>e. be_type e = brake_denied \<and> be_taints e \<noteq> []) evs)
   \<and> br_approval_gates (fst (fold count_event evs st)) = br_approval_gates (fst st) + length (filter (\<lambda>e. be_type e = brake_approval_required) evs)
   \<and> br_chain_intercepts (fst (fold count_event evs st)) = br_chain_intercepts (fst st) + length (filter (\<lambda>e. be_type e = brake_chain_detected) evs)
   \<and> br_denied_by_rule (fst (fold count_event evs st))
        = (\<lambda>r. br_denied_by_rule (fst st) r + length (filter (\<lambda>e. be_type e = brake_denied \<and> be_policy_rule e = r \<and> r \<noteq> []) evs))"
proof (induction evs arbitrary: st)
  case (Cons e evs)
  have d: "brake_denied \<noteq> brake_allowed" "brake_denied \<noteq> brake_approval_required" "brake_denied \<noteq> brake_chain_detected"
      "brake_allowed \<noteq> brake_approval_required" "brake_allowed \<noteq> brake_chain_detected" "brake_approval_required \<noteq> brake_chain_detected"
    by (simp_all add: brake_denied_def brake_allowed_def brake_approval_required_def brake_chain_detected_def)
  obtain rep holds where st: "st = (rep, holds)" by (cases st)
  consider "be_type e = brake_denied" | "be_type e = brake_allowed" | "be_type e = brake_approval_required" | "be_type e = brake_chain_detected"
    | "be_type e \<noteq> brake_denied" "be_type e \<noteq> brake_allowed" "be_type e \<noteq> brake_approval_required" "be_type e \<noteq> brake_chain_detected" by blast
  then show ?case
    by cases (use Cons [of "count_event e st"] d in \<open>auto simp: st count_event_def Let_def fun_eq_iff\<close>)
qed simp

lemma grants_fold:
  assumes "\<And>k. snd st k = count H k" and "br_approval_grants (fst st) + size H \<le> br_approval_gates (fst st)"
  shows "br_approval_grants (fst (fold count_event evs st)) \<le> br_approval_gates (fst (fold count_event evs st))"
  using assms
proof (induction evs arbitrary: st H)
  case (Cons e evs)
  obtain rep holds where st: "st = (rep, holds)" by (cases st)
  define key where "key = holdKey (be_session e) (be_request_hash e)"
  have "\<exists>H'. (\<forall>k. snd (count_event e st) k = count H' k) \<and> br_approval_grants (fst (count_event e st)) + size H' \<le> br_approval_gates (fst (count_event e st))"
  proof (cases "be_type e = brake_denied")
    case True
    have "size (H - {#key#}) \<le> size H" by (simp add: size_Diff_singleton_if)
    then have "(\<forall>k. snd (count_event e st) k = count (if be_request_hash e \<noteq> [] then H - {#key#} else H) k)
        \<and> br_approval_grants (fst (count_event e st)) + size (if be_request_hash e \<noteq> [] then H - {#key#} else H) \<le> br_approval_gates (fst (count_event e st))"
      using Cons.prems True by (auto simp: st count_event_def key_def Let_def)
    then show ?thesis by blast
  next
    case nd: False
    show ?thesis
    proof (cases "be_type e = brake_allowed")
      case True
      show ?thesis
      proof (cases "be_receipt_hash e \<noteq> [] \<and> be_request_hash e \<noteq> [] \<and> isHumanApproveReceipt (be_receipt e) \<and> 0 < holds key")
        case g: True
        then have "key \<in># H" using Cons.prems(1) [of key] st by simp
        then have "size H = Suc (size (H - {#key#}))" by (simp add: size_Suc_Diff1)
        then have "(\<forall>k. snd (count_event e st) k = count (H - {#key#}) k)
            \<and> br_approval_grants (fst (count_event e st)) + size (H - {#key#}) \<le> br_approval_gates (fst (count_event e st))"
          using Cons.prems True nd g by (auto simp: st count_event_def key_def Let_def)
        then show ?thesis by blast
      next
        case False
        then have "count_event e st = st" using True nd by (auto simp: st count_event_def key_def Let_def)
        then show ?thesis using Cons.prems by auto
      qed
    next
      case na: False
      show ?thesis
      proof (cases "be_type e = brake_approval_required")
        case True
        have "(\<forall>k. snd (count_event e st) k = count (if be_request_hash e \<noteq> [] then add_mset key H else H) k)
            \<and> br_approval_grants (fst (count_event e st)) + size (if be_request_hash e \<noteq> [] then add_mset key H else H) \<le> br_approval_gates (fst (count_event e st))"
          using Cons.prems True nd na by (auto simp: st count_event_def key_def Let_def)
        then show ?thesis by blast
      next
        case False
        then have "snd (count_event e st) = snd st" "br_approval_grants (fst (count_event e st)) = br_approval_grants (fst st)"
            "br_approval_gates (fst (count_event e st)) = br_approval_gates (fst st)"
          using nd na by (simp_all add: st count_event_def Let_def)
        then show ?thesis using Cons.prems by auto
      qed
    qed
  qed
  then obtain H' where "\<And>k. snd (count_event e st) k = count H' k"
      "br_approval_grants (fst (count_event e st)) + size H' \<le> br_approval_gates (fst (count_event e st))" by blast
  then show ?case using Cons.IH by simp
qed simp

text \<open>The report is what the log says: every counter of denials, gates, chains and taints is the number of such events, the
  denials split into those of each rule and those without a rule, and no more approvals are credited than
  calls were held for approval.\<close>

theorem report_counts_log:
  "br_denied_total (Compute evs) = length (filter (\<lambda>e. be_type e = brake_denied) evs)
   \<and> br_denied_no_rule (Compute evs) = length (filter (\<lambda>e. be_type e = brake_denied \<and> be_policy_rule e = []) evs)
   \<and> br_denied_by_rule (Compute evs) = (\<lambda>r. length (filter (\<lambda>e. be_type e = brake_denied \<and> be_policy_rule e = r \<and> r \<noteq> []) evs))
   \<and> br_taint_blocks (Compute evs) = length (filter (\<lambda>e. be_type e = brake_denied \<and> be_taints e \<noteq> []) evs)
   \<and> br_approval_gates (Compute evs) = length (filter (\<lambda>e. be_type e = brake_approval_required) evs)
   \<and> br_chain_intercepts (Compute evs) = length (filter (\<lambda>e. be_type e = brake_chain_detected) evs)
   \<and> br_approval_grants (Compute evs) \<le> br_approval_gates (Compute evs)"
  using count_fold [of evs "(empty_report, \<lambda>_. 0)"] grants_fold [of "(empty_report, \<lambda>_. 0)" "{#}" evs]
  by (simp add: Compute_def empty_report_def)

text \<open>A log that was written record by record is loaded completely, and a torn last record is reported.\<close>

lemma LoadEvents_line:
  assumes "CHR 0x0A \<notin> set l" and "\<not> isBlankLine (l @ [CHR 0x0A])" and "unmarshal (l @ [CHR 0x0A]) = Inr ev" and "be_type ev \<noteq> []"
  shows "LoadEvents unmarshal (l @ CHR 0x0A # rest) = map_sum id (Cons ev) (LoadEvents unmarshal rest)"
proof -
  have "takeWhile (\<lambda>c. c \<noteq> CHR 0x0A) (l @ CHR 0x0A # rest) = l" using assms(1) by (induction l) auto
  then show ?thesis using assms by (simp add: LoadEvents.simps [of unmarshal "l @ CHR 0x0A # rest"] Let_def)
qed

lemma load_complete:
  assumes "list_all (\<lambda>(l, ev). CHR 0x0A \<notin> set l \<and> \<not> isBlankLine (l @ [CHR 0x0A]) \<and> unmarshal (l @ [CHR 0x0A]) = Inr ev \<and> be_type ev \<noteq> []) recs"
    and "CHR 0x0A \<notin> set torn"
  shows "LoadEvents unmarshal (concat (map (\<lambda>(l, ev). l @ [CHR 0x0A]) recs) @ torn) =
    (if isBlankLine torn then Inr (map snd recs) else Inl ''truncated tail: final record lacks terminating newline'')"
  using assms(1)
proof (induction recs)
  case Nil
  then show ?case using assms(2) by (simp add: LoadEvents.simps)
next
  case (Cons r recs)
  obtain l ev where r: "r = (l, ev)" by (cases r)
  show ?case using Cons LoadEvents_line [of l unmarshal ev "concat (map (\<lambda>(l, ev). l @ [CHR 0x0A]) recs) @ torn"] r by simp
qed

end
