(* ===== verification/Aoep_State.thy ===== *)
theory Aoep_State
  imports Visor_Prelude
begin

text \<open>
  The persistent-state oracle (\<^verbatim>\<open>src/internal/aoepstate/model.go\<close> and \<^verbatim>\<open>evaluator.go\<close>): the decision on one proposed action against the
  state a caller holds (taints, permission epoch, completed side effects, fragment authorities), with its eight lines of
  evidence, and the runs of a caller that keeps this state.
\<close>

section \<open>Data\<close>

record completed_record =
  cp_key :: string
  cp_operation :: string
  cp_request_digest :: string
  cp_result_digest :: string

record fragment_record =
  fr_fragment_id :: string
  fr_authority :: string

record aoep_root =
  ar_schema_version :: int
  ar_enforcement_enabled :: bool
  ar_taints :: "string list"
  ar_current_epoch :: int
  ar_completed :: "completed_record list"
  ar_fragments :: "fragment_record list"

text \<open>The claims of an action are kept, although no decision reads them.\<close>

record aoep_action =
  aa_action_id :: string
  aa_kind :: string
  aa_taint_id :: string
  aa_permission_epoch :: int
  aa_operation :: string
  aa_request_digest :: string
  aa_idempotency_key :: string
  aa_required_authority :: string
  aa_fragment_ids :: "string list"
  aa_claimed_authorization :: string
  aa_claimed_authority :: string
  aa_claimed_current_epoch :: int
  aa_claimed_replay :: bool
  aa_claimed_result_digest :: string

record aoep_decision =
  ad_action_id :: string
  ad_kind :: string
  ad_verdict :: string
  ad_disposition :: string
  ad_proof :: string
  ad_reason :: string
  ad_matched_taint :: string
  ad_action_epoch :: int
  ad_current_epoch :: int
  ad_idempotency_key :: string
  ad_recorded_operation :: string
  ad_recorded_request :: string
  ad_result_digest :: string
  ad_required_authority :: string
  ad_effective_authority :: string
  ad_evidence :: "string list"

record aoep_facts =
  af_schema :: int
  af_enforcement :: bool
  af_taint_present :: bool
  af_completed_present :: bool
  af_operation_equal :: bool
  af_request_equal :: bool
  af_resolved :: nat
  af_fragments :: "string list"

section \<open>Well-formed state and actions\<close>

fun uniqueIDs :: "string list \<Rightarrow> string list \<Rightarrow> bool" where
  "uniqueIDs seen [] = True"
| "uniqueIDs seen (x # xs) = (x \<noteq> [] \<and> x \<notin> set seen \<and> uniqueIDs (x # seen) xs)"

fun completed_ok :: "string list \<Rightarrow> completed_record list \<Rightarrow> bool" where
  "completed_ok keys [] = True"
| "completed_ok keys (c # cs) =
     (if cp_key c = [] \<or> cp_operation c = [] \<or> cp_request_digest c = [] \<or> cp_result_digest c = [] then False
      else if cp_key c \<in> set keys then False
      else completed_ok (cp_key c # keys) cs)"

fun fragments_ok :: "string list \<Rightarrow> fragment_record list \<Rightarrow> bool" where
  "fragments_ok ids [] = True"
| "fragments_ok ids (f # fs) =
     (if fr_fragment_id f = [] \<or> (fr_authority f \<noteq> ''DATA_ONLY'' \<and> fr_authority f \<noteq> ''USER'') then False
      else if fr_fragment_id f \<in> set ids then False
      else fragments_ok (fr_fragment_id f # ids) fs)"

definition rootOK :: "aoep_root \<Rightarrow> bool" where
  "rootOK r \<longleftrightarrow> ar_schema_version r = 1 \<and> 0 < ar_current_epoch r \<and> uniqueIDs [] (ar_taints r)
     \<and> completed_ok [] (ar_completed r) \<and> fragments_ok [] (ar_fragments r)"

definition taintKindExtras :: "aoep_action \<Rightarrow> bool" where
  "taintKindExtras a \<longleftrightarrow> aa_permission_epoch a \<noteq> 0 \<or> aa_operation a \<noteq> [] \<or> aa_request_digest a \<noteq> [] \<or> aa_idempotency_key a \<noteq> []
     \<or> aa_required_authority a \<noteq> [] \<or> aa_fragment_ids a \<noteq> []"

definition privilegedExtras :: "aoep_action \<Rightarrow> bool" where
  "privilegedExtras a \<longleftrightarrow> aa_taint_id a \<noteq> [] \<or> aa_operation a \<noteq> [] \<or> aa_request_digest a \<noteq> [] \<or> aa_idempotency_key a \<noteq> []
     \<or> aa_required_authority a \<noteq> [] \<or> aa_fragment_ids a \<noteq> []"

definition sideEffectExtras :: "aoep_action \<Rightarrow> bool" where
  "sideEffectExtras a \<longleftrightarrow> aa_taint_id a \<noteq> [] \<or> aa_permission_epoch a \<noteq> 0 \<or> aa_required_authority a \<noteq> [] \<or> aa_fragment_ids a \<noteq> []"

definition sinkExtras :: "aoep_action \<Rightarrow> bool" where
  "sinkExtras a \<longleftrightarrow> aa_taint_id a \<noteq> [] \<or> aa_permission_epoch a \<noteq> 0 \<or> aa_operation a \<noteq> [] \<or> aa_request_digest a \<noteq> [] \<or> aa_idempotency_key a \<noteq> []"

definition hasTaint :: "aoep_root \<Rightarrow> string \<Rightarrow> bool" where "hasTaint r t \<longleftrightarrow> t \<in> set (ar_taints r)"

definition findCompleted :: "aoep_root \<Rightarrow> string \<Rightarrow> completed_record option" where
  "findCompleted r key = (if key = [] then None else find (\<lambda>c. cp_key c = key) (ar_completed r))"

definition fragmentAuthority :: "aoep_root \<Rightarrow> string \<Rightarrow> string option" where
  "fragmentAuthority r i = map_option fr_authority (find (\<lambda>f. fr_fragment_id f = i) (ar_fragments r))"

text \<open>The effective authority, None when a fragment is unknown, and the number of fragments resolved before that.\<close>

fun resolve_from :: "aoep_root \<Rightarrow> string \<Rightarrow> nat \<Rightarrow> string list \<Rightarrow> string option \<times> nat" where
  "resolve_from r effective n [] = (Some effective, n)"
| "resolve_from r effective n (i # is) =
     (case fragmentAuthority r i of
        None \<Rightarrow> (None, n)
      | Some a \<Rightarrow> resolve_from r (if a = ''DATA_ONLY'' then ''DATA_ONLY'' else effective) (n + 1) is)"

definition resolveFragments :: "aoep_root \<Rightarrow> string list \<Rightarrow> string option \<times> nat" where
  "resolveFragments r is = resolve_from r ''USER'' 0 is"

definition actionOK :: "aoep_root \<Rightarrow> aoep_action \<Rightarrow> bool" where
  "actionOK r a =
     (if aa_action_id a = [] then False
      else if aa_kind a = ''SENSITIVE_READ'' \<or> aa_kind a = ''EGRESS_SEND'' then aa_taint_id a \<noteq> [] \<and> \<not> taintKindExtras a
      else if aa_kind a = ''PRIVILEGED_ACTION'' then 0 < aa_permission_epoch a \<and> \<not> privilegedExtras a
      else if aa_kind a = ''SIDE_EFFECT'' then aa_operation a \<noteq> [] \<and> aa_request_digest a \<noteq> [] \<and> \<not> sideEffectExtras a
      else if aa_kind a = ''AUTHORITY_SINK'' then
        \<not> (aa_required_authority a \<noteq> ''USER'' \<or> aa_fragment_ids a = [] \<or> \<not> uniqueIDs [] (aa_fragment_ids a) \<or> sinkExtras a)
        \<and> fst (resolveFragments r (aa_fragment_ids a)) \<noteq> None
      else False)"

section \<open>Evidence\<close>

definition tf :: "bool \<Rightarrow> string" where "tf v = (if v then ''true'' else ''false'')"

definition actionWord :: "string \<Rightarrow> string" where
  "actionWord disp =
     (if disp = ''OBSERVE'' then ''OBSERVED'' else if disp = ''EXECUTE'' then ''EXECUTED''
      else if disp = ''REPLAY'' then ''REPLAYED'' else ''BLOCKED'')"

definition selector_lines :: "aoep_decision \<Rightarrow> aoep_facts \<Rightarrow> string list" where
  "selector_lines d f =
     (if ad_kind d = ''SENSITIVE_READ'' \<or> ad_kind d = ''EGRESS_SEND''
      then [''taint='' @ ad_matched_taint d, ''taint_present='' @ tf (af_taint_present f), ''taint_id='' @ ad_matched_taint d]
      else if ad_kind d = ''PRIVILEGED_ACTION''
      then [''epoch='' @ itoa (ad_action_epoch d), ''current_epoch='' @ itoa (ad_current_epoch d),
            ''epoch_equal='' @ tf (ad_action_epoch d = ad_current_epoch d \<and> 0 < ad_action_epoch d)]
      else if ad_kind d = ''SIDE_EFFECT''
      then [''idempotency_key='' @ ad_idempotency_key d,
            ''completed='' @ (if af_completed_present f then ''present'' else ''absent''),
            ''operation_equal='' @ tf (af_operation_equal f) @ '' request_equal='' @ tf (af_request_equal f)
            @ (if ad_recorded_operation d \<noteq> [] \<or> ad_recorded_request d \<noteq> []
               then '' operation='' @ ad_recorded_operation d @ '' request='' @ ad_recorded_request d else [])]
      else if ad_kind d = ''AUTHORITY_SINK''
      then [''fragments='' @ join_strings '','' (af_fragments f), ''resolved_fragments='' @ itoa (int (af_resolved f)),
            ''required='' @ ad_required_authority d @ '' effective='' @ ad_effective_authority d]
      else [''selector='', ''state='', ''binding=''])"

definition renderEvidence :: "aoep_decision \<Rightarrow> aoep_facts \<Rightarrow> string list" where
  "renderEvidence d f =
     [''schema='' @ itoa (af_schema f) @ '' enforcement='' @ (if af_enforcement f then ''enabled'' else ''disabled'') @ '' action='' @ ad_action_id d,
      ''kind='' @ ad_kind d @ '' verdict='' @ ad_verdict d @ '' disposition='' @ ad_disposition d]
     @ selector_lines d f @
     [''AOEP Persistent-State Proof '' @ ad_proof d, ''reason '' @ ad_reason d, ''ACTION '' @ actionWord (ad_disposition d)]"

section \<open>The decision\<close>

definition populateFacts :: "aoep_root \<Rightarrow> aoep_action \<Rightarrow> aoep_decision \<Rightarrow> aoep_decision \<times> aoep_facts" where
  "populateFacts r a d =
     (let d1 = (case findCompleted r (aa_idempotency_key a) of
                  Some c \<Rightarrow> d\<lparr>ad_recorded_operation := cp_operation c, ad_recorded_request := cp_request_digest c\<rparr>
                | None \<Rightarrow> if aa_kind a = ''SIDE_EFFECT''
                          then d\<lparr>ad_recorded_operation := aa_operation a, ad_recorded_request := aa_request_digest a\<rparr> else d);
          d2 = (case fst (resolveFragments r (aa_fragment_ids a)) of
                  Some eff \<Rightarrow> if aa_fragment_ids a \<noteq> [] then d1\<lparr>ad_effective_authority := eff\<rparr> else d1
                | None \<Rightarrow> d1);
          found = findCompleted r (aa_idempotency_key a)
      in (d2,
          \<lparr>af_schema = ar_schema_version r, af_enforcement = ar_enforcement_enabled r,
           af_taint_present = (aa_taint_id a \<noteq> [] \<and> hasTaint r (aa_taint_id a)),
           af_completed_present = (found \<noteq> None),
           af_operation_equal = (case found of Some c \<Rightarrow> cp_operation c = aa_operation a | None \<Rightarrow> False),
           af_request_equal = (case found of Some c \<Rightarrow> cp_request_digest c = aa_request_digest a | None \<Rightarrow> False),
           af_resolved = (if aa_fragment_ids a \<noteq> [] then snd (resolveFragments r (aa_fragment_ids a)) else 0),
           af_fragments = aa_fragment_ids a\<rparr>))"

definition aoep_allow :: "string \<Rightarrow> string \<Rightarrow> aoep_decision \<Rightarrow> aoep_decision" where
  "aoep_allow disposition reason d =
     d\<lparr>ad_verdict := ''ALLOW'', ad_proof := ''VALID'', ad_disposition := disposition, ad_reason := reason\<rparr>"

definition applyEnabled :: "aoep_root \<Rightarrow> aoep_action \<Rightarrow> aoep_decision \<Rightarrow> aoep_facts \<Rightarrow> aoep_decision" where
  "applyEnabled r a d f =
     (if aa_kind a = ''SENSITIVE_READ'' then (aoep_allow ''OBSERVE'' ''sensitive source observed'' d)\<lparr>ad_matched_taint := aa_taint_id a\<rparr>
      else if aa_kind a = ''EGRESS_SEND'' then
        (if af_taint_present f then d\<lparr>ad_reason := ''sensitive taint blocks egress'', ad_matched_taint := aa_taint_id a\<rparr>
         else (aoep_allow ''EXECUTE'' [] d)\<lparr>ad_matched_taint := aa_taint_id a\<rparr>)
      else if aa_kind a = ''PRIVILEGED_ACTION'' then
        (if aa_permission_epoch a \<noteq> ar_current_epoch r then d\<lparr>ad_reason := ''permission epoch stale''\<rparr>
         else aoep_allow ''EXECUTE'' ''permission epoch current'' d)
      else if aa_kind a = ''SIDE_EFFECT'' then
        (if aa_idempotency_key a = [] then d\<lparr>ad_reason := ''idempotency key required''\<rparr>
         else case findCompleted r (aa_idempotency_key a) of
                None \<Rightarrow> aoep_allow ''EXECUTE'' ''first side effect authorized'' d
              | Some c \<Rightarrow>
                  if cp_operation c = aa_operation a \<and> cp_request_digest c = aa_request_digest a
                  then (aoep_allow ''REPLAY'' ''completed result replayed'' d)\<lparr>ad_result_digest := cp_result_digest c\<rparr>
                  else d\<lparr>ad_reason := ''idempotency key collision''\<rparr>)
      else if aa_kind a = ''AUTHORITY_SINK'' then
        (if ad_effective_authority d \<noteq> ''USER'' then d\<lparr>ad_reason := ''untrusted fragment cannot authorize sink''\<rparr>
         else aoep_allow ''EXECUTE'' ''fragment authority sufficient'' d)
      else d)"

definition aoep_initial :: "aoep_root \<Rightarrow> aoep_action \<Rightarrow> aoep_decision" where
  "aoep_initial r a =
     \<lparr>ad_action_id = aa_action_id a, ad_kind = aa_kind a, ad_verdict = ''DENY'', ad_disposition = ''BLOCK'', ad_proof = ''INVALID'',
      ad_reason = ''invalid evaluation root'', ad_matched_taint = aa_taint_id a, ad_action_epoch = aa_permission_epoch a,
      ad_current_epoch = ar_current_epoch r, ad_idempotency_key = aa_idempotency_key a, ad_recorded_operation = [],
      ad_recorded_request = [], ad_result_digest = [], ad_required_authority = aa_required_authority a,
      ad_effective_authority = [], ad_evidence = []\<rparr>"

definition aoep_Authorize :: "aoep_root \<Rightarrow> aoep_action \<Rightarrow> aoep_decision" where
  "aoep_Authorize r a =
     (let (d, f) = populateFacts r a (aoep_initial r a);
          e = (if \<not> rootOK r then d
               else if \<not> actionOK r a then d\<lparr>ad_reason := ''invalid proposed action''\<rparr>
               else if \<not> ar_enforcement_enabled r
               then d\<lparr>ad_verdict := ''ALLOW'', ad_proof := ''DISABLED'', ad_reason := ''enforcement disabled'',
                      ad_disposition := (if aa_kind a = ''SENSITIVE_READ'' then ''OBSERVE'' else ''EXECUTE'')\<rparr>
               else applyEnabled r a d f)
      in e\<lparr>ad_evidence := renderEvidence e f\<rparr>)"

section \<open>Runs of a caller\<close>

text \<open>A caller executes what the oracle lets it execute and keeps the state: an observed source taints the session, a first side
  effect is recorded with its result.\<close>

definition aoep_record :: "string \<Rightarrow> aoep_action \<Rightarrow> aoep_root \<Rightarrow> aoep_root" where
  "aoep_record result a r =
     (let d = aoep_Authorize r a in
      if ad_verdict d \<noteq> ''ALLOW'' then r
      else if ad_disposition d = ''OBSERVE'' then (if aa_taint_id a \<in> set (ar_taints r) then r else r\<lparr>ar_taints := ar_taints r @ [aa_taint_id a]\<rparr>)
      else if ad_disposition d = ''EXECUTE'' \<and> aa_kind a = ''SIDE_EFFECT''
      then r\<lparr>ar_completed := ar_completed r @ [\<lparr>cp_key = aa_idempotency_key a, cp_operation = aa_operation a,
                 cp_request_digest = aa_request_digest a, cp_result_digest = result\<rparr>]\<rparr>
      else r)"

fun aoep_run :: "aoep_root \<Rightarrow> (string \<times> aoep_action) list \<Rightarrow> (aoep_action \<times> aoep_decision) list" where
  "aoep_run r [] = []"
| "aoep_run r ((result, a) # steps) = (a, aoep_Authorize r a) # aoep_run (aoep_record result a r) steps"

definition effect_executed :: "string \<Rightarrow> aoep_action \<times> aoep_decision \<Rightarrow> bool" where
  "effect_executed k = (\<lambda>(a, d). aa_kind a = ''SIDE_EFFECT'' \<and> aa_idempotency_key a = k \<and> ad_disposition d = ''EXECUTE'')"

definition egress_executed :: "string \<Rightarrow> aoep_action \<times> aoep_decision \<Rightarrow> bool" where
  "egress_executed t = (\<lambda>(a, d). aa_kind a = ''EGRESS_SEND'' \<and> aa_taint_id a = t \<and> ad_disposition d = ''EXECUTE'')"

section \<open>What the oracle enforces\<close>

lemma populate_keeps:
  "ad_disposition (fst (populateFacts r a d)) = ad_disposition d \<and> ad_verdict (fst (populateFacts r a d)) = ad_verdict d
   \<and> ad_result_digest (fst (populateFacts r a d)) = ad_result_digest d
   \<and> af_taint_present (snd (populateFacts r a d)) = (aa_taint_id a \<noteq> [] \<and> hasTaint r (aa_taint_id a))"
  by (simp add: populateFacts_def Let_def split: option.splits)

lemma egress_ok: "aa_kind a = ''EGRESS_SEND'' \<Longrightarrow> actionOK r a \<Longrightarrow> aa_taint_id a \<noteq> []"
  unfolding actionOK_def by (cases "aa_action_id a = []") simp_all

lemma sink_ok:
  assumes "aa_kind a = ''AUTHORITY_SINK''" and "actionOK r a"
  shows "aa_fragment_ids a \<noteq> [] \<and> fst (resolveFragments r (aa_fragment_ids a)) \<noteq> None"
  using assms(2) unfolding actionOK_def assms(1) by (cases "aa_action_id a = []") simp_all

lemma populated_authority:
  assumes "actionOK r a" "aa_kind a = ''AUTHORITY_SINK''"
  shows "Some (ad_effective_authority (fst (populateFacts r a d))) = fst (resolveFragments r (aa_fragment_ids a))"
proof -
  obtain eff where "fst (resolveFragments r (aa_fragment_ids a)) = Some eff" "aa_fragment_ids a \<noteq> []"
    using sink_ok [OF assms(2,1)] by blast
  then show ?thesis by (simp add: populateFacts_def Let_def)
qed

lemma resolve_user:
  "fst (resolve_from r eff n is) = Some ''USER'' \<longleftrightarrow> eff = ''USER'' \<and> list_all (\<lambda>i. \<exists>a. fragmentAuthority r i = Some a \<and> a \<noteq> ''DATA_ONLY'') is"
  by (induction r eff n "is" rule: resolve_from.induct) (auto split: option.splits)

text \<open>The exact condition under which an enforced action is executed, by kind.\<close>

definition aoep_may_execute :: "aoep_root \<Rightarrow> aoep_action \<Rightarrow> bool" where
  "aoep_may_execute r a \<longleftrightarrow> rootOK r \<and> actionOK r a \<and>
     (aa_kind a = ''EGRESS_SEND'' \<and> \<not> hasTaint r (aa_taint_id a)
      \<or> aa_kind a = ''PRIVILEGED_ACTION'' \<and> aa_permission_epoch a = ar_current_epoch r
      \<or> aa_kind a = ''SIDE_EFFECT'' \<and> aa_idempotency_key a \<noteq> [] \<and> findCompleted r (aa_idempotency_key a) = None
      \<or> aa_kind a = ''AUTHORITY_SINK'' \<and> list_all (\<lambda>i. \<exists>x. fragmentAuthority r i = Some x \<and> x \<noteq> ''DATA_ONLY'') (aa_fragment_ids a))"

lemma applyEnabled_execute:
  assumes "ad_disposition d = ''BLOCK''"
  shows "ad_disposition (applyEnabled r a d f) = ''EXECUTE'' \<longleftrightarrow>
     aa_kind a = ''EGRESS_SEND'' \<and> \<not> af_taint_present f
     \<or> aa_kind a = ''PRIVILEGED_ACTION'' \<and> aa_permission_epoch a = ar_current_epoch r
     \<or> aa_kind a = ''SIDE_EFFECT'' \<and> aa_idempotency_key a \<noteq> [] \<and> findCompleted r (aa_idempotency_key a) = None
     \<or> aa_kind a = ''AUTHORITY_SINK'' \<and> ad_effective_authority d = ''USER''"
  using assms unfolding applyEnabled_def aoep_allow_def
  by (cases "findCompleted r (aa_idempotency_key a)") auto

lemma enforced_disposition:
  assumes "ar_enforcement_enabled r"
  shows "ad_disposition (aoep_Authorize r a) = (if rootOK r \<and> actionOK r a
     then ad_disposition (applyEnabled r a (fst (populateFacts r a (aoep_initial r a))) (snd (populateFacts r a (aoep_initial r a)))) else ''BLOCK'')"
  using assms populate_keeps [of r a "aoep_initial r a"] by (simp add: aoep_Authorize_def Let_def split_def) (simp add: aoep_initial_def)

lemma execute_iff:
  assumes "ar_enforcement_enabled r"
  shows "ad_disposition (aoep_Authorize r a) = ''EXECUTE'' \<longleftrightarrow> aoep_may_execute r a"
proof (cases "rootOK r \<and> actionOK r a")
  case False
  then show ?thesis using enforced_disposition [OF assms, of a] by (auto simp: aoep_may_execute_def)
next
  case True
  define d where "d = fst (populateFacts r a (aoep_initial r a))"
  define f where "f = snd (populateFacts r a (aoep_initial r a))"
  have b: "ad_disposition d = ''BLOCK''" using populate_keeps [of r a "aoep_initial r a"] by (simp add: d_def aoep_initial_def)
  have t: "aa_kind a = ''EGRESS_SEND'' \<Longrightarrow> af_taint_present f = hasTaint r (aa_taint_id a)"
    using populate_keeps [of r a "aoep_initial r a"] egress_ok [of a r] True by (simp add: f_def)
  have u: "aa_kind a = ''AUTHORITY_SINK'' \<Longrightarrow> ad_effective_authority d = ''USER'' \<longleftrightarrow>
      list_all (\<lambda>i. \<exists>x. fragmentAuthority r i = Some x \<and> x \<noteq> ''DATA_ONLY'') (aa_fragment_ids a)"
    using populated_authority [of r a "aoep_initial r a"] True resolve_user [of r "''USER''" 0 "aa_fragment_ids a"]
    by (auto simp: d_def resolveFragments_def)
  have "ad_disposition (aoep_Authorize r a) = ad_disposition (applyEnabled r a d f)"
    using enforced_disposition [OF assms, of a] True by (simp add: d_def f_def)
  then show ?thesis using applyEnabled_execute [OF b, of r a f] t u True by (auto simp: aoep_may_execute_def)
qed

lemma record_enabled: "ar_enforcement_enabled (aoep_record result a r) = ar_enforcement_enabled r"
  by (simp add: aoep_record_def Let_def)

lemma record_grows: "set (ar_taints r) \<subseteq> set (ar_taints (aoep_record result a r)) \<and> set (ar_completed r) \<subseteq> set (ar_completed (aoep_record result a r))"
  by (auto simp: aoep_record_def Let_def)

lemma completed_iff: "findCompleted r k \<noteq> None \<longleftrightarrow> k \<noteq> [] \<and> (\<exists>c \<in> set (ar_completed r). cp_key c = k)"
  using find_None_iff [of "\<lambda>c. cp_key c = k" "ar_completed r"] by (auto simp: findCompleted_def simp del: not_None_eq)

lemma completed_stays: "findCompleted r k \<noteq> None \<Longrightarrow> findCompleted (aoep_record result a r) k \<noteq> None"
  unfolding completed_iff using record_grows [of r result a] by blast

lemma completed_blocks:
  assumes "ar_enforcement_enabled r" and "findCompleted r k \<noteq> None"
  shows "filter (effect_executed k) (aoep_run r steps) = []"
  using assms
proof (induction steps arbitrary: r)
  case (Cons s steps)
  obtain result a where s: "s = (result, a)" by (cases s)
  have "\<not> effect_executed k (a, aoep_Authorize r a)"
    using execute_iff [OF Cons.prems(1), of a] Cons.prems(2) by (auto simp: effect_executed_def aoep_may_execute_def)
  then show ?case using Cons.IH [of "aoep_record result a r"] Cons.prems completed_stays record_enabled s by simp
qed simp

lemma executed_once:
  assumes "ar_enforcement_enabled r"
  shows "length (filter (effect_executed k) (aoep_run r steps)) \<le> 1"
  using assms
proof (induction steps arbitrary: r)
  case (Cons s steps)
  obtain result a where s: "s = (result, a)" by (cases s)
  define r1 where "r1 = aoep_record result a r"
  have e: "ar_enforcement_enabled r1" using Cons.prems record_enabled by (simp add: r1_def)
  show ?case
  proof (cases "effect_executed k (a, aoep_Authorize r a)")
    case False
    then show ?thesis using Cons.IH [OF e] s by (simp add: r1_def)
  next
    case x: True
    then have True: "aa_kind a = ''SIDE_EFFECT''" "aa_idempotency_key a = k" "ad_disposition (aoep_Authorize r a) = ''EXECUTE''"
      by (simp_all add: effect_executed_def)
    then have "aoep_may_execute r a" using execute_iff [OF Cons.prems] by blast
    then have k: "k \<noteq> []" "ad_verdict (aoep_Authorize r a) = ''ALLOW''"
      using True Cons.prems by (auto simp: aoep_may_execute_def aoep_Authorize_def applyEnabled_def aoep_allow_def Let_def split_def)
    then have "findCompleted r1 k \<noteq> None" using True k unfolding completed_iff by (simp add: r1_def aoep_record_def Let_def)
    then show ?thesis using completed_blocks [OF e, of k steps] x s by (simp add: r1_def)
  qed
qed simp

lemma tainted_blocks:
  assumes "ar_enforcement_enabled r" and "hasTaint r t"
  shows "filter (egress_executed t) (aoep_run r steps) = []"
  using assms
proof (induction steps arbitrary: r)
  case (Cons s steps)
  obtain result a where s: "s = (result, a)" by (cases s)
  have "\<not> egress_executed t (a, aoep_Authorize r a)"
    using execute_iff [OF Cons.prems(1), of a] Cons.prems(2) by (auto simp: egress_executed_def aoep_may_execute_def)
  moreover have "hasTaint (aoep_record result a r) t" using Cons.prems(2) record_grows by (auto simp: hasTaint_def)
  ultimately show ?case using Cons.IH [of "aoep_record result a r"] Cons.prems record_enabled s by simp
qed simp


definition demo_effect :: aoep_action where
  "demo_effect = \<lparr>aa_action_id = ''a'', aa_kind = ''SIDE_EFFECT'', aa_taint_id = [], aa_permission_epoch = 0, aa_operation = ''pay'',
     aa_request_digest = ''q'', aa_idempotency_key = ''k'', aa_required_authority = [], aa_fragment_ids = [],
     aa_claimed_authorization = [], aa_claimed_authority = [], aa_claimed_current_epoch = 0, aa_claimed_replay = False,
     aa_claimed_result_digest = []\<rparr>"

definition demo_aoep_root :: aoep_root where
  "demo_aoep_root = \<lparr>ar_schema_version = 1, ar_enforcement_enabled = True, ar_taints = [], ar_current_epoch = 1, ar_completed = [], ar_fragments = []\<rparr>"


end
