(* ===== verification/Context_Provenance.thy ===== *)
theory Context_Provenance
  imports Json_Text
begin

text \<open>
  Context provenance proofs (\<^verbatim>\<open>src/internal/contextprovenance/model.go\<close> and \<^verbatim>\<open>evaluator.go\<close>): the graph of context fragments, its
  structural check with the depth-first search for cycles, the trust ceilings, the search for escalations and the
  decision with its evidence. A Go map from fragment identifiers is an association list; where the code iterates over
  such a map, the model iterates in the order of the fragments. The recursions run on fuel, one more than the number
  of fragments, which bounds the depth of every path without repetition.
\<close>

section \<open>Data\<close>

record context_fragment =
  cf_fragment_id :: string
  cf_origin :: string
  cf_principal :: string
  cf_trust :: string
  cf_scope :: string
  cf_introduced_at :: int
  cf_derived_from :: "string list"

record cx_root =
  cx_schema_version :: int
  cx_current_tick :: int
  cx_required_trust :: string
  cx_fragments :: "context_fragment list"

record message_claims =
  mc_visible_role :: string
  mc_reconstructed_from :: string
  mc_claimed_origin :: string
  mc_claimed_principal :: string
  mc_claimed_trust :: string
  mc_claimed_authoritative :: bool

record candidate_message =
  cm_fragment_id :: string
  cm_content :: string
  cm_claims :: message_claims

record cx_decision =
  cx_proof :: string
  cx_escalation :: string
  cx_authority :: string
  cx_effective_trust :: string
  cx_reason :: string
  cx_evidence :: "string list"

type_synonym fragment_graph = "(string \<times> context_fragment) list"

section \<open>Trust\<close>

definition trustRank :: "string \<Rightarrow> nat option" where
  "trustRank t =
     (if t = ''UNTRUSTED'' then Some 0 else if t = ''USER_TRUSTED'' then Some 1
      else if t = ''DEVELOPER_TRUSTED'' then Some 2 else if t = ''SYSTEM_TRUSTED'' then Some 3 else None)"

text \<open>The rank that is used when the second result is ignored.\<close>

definition rank_of :: "string \<Rightarrow> nat" where
  "rank_of t = (case trustRank t of Some n \<Rightarrow> n | None \<Rightarrow> 0)"

definition minTrust :: "string \<Rightarrow> string \<Rightarrow> string" where
  "minTrust a b = (if rank_of b < rank_of a then b else a)"

definition dominates :: "string \<Rightarrow> string \<Rightarrow> bool" where
  "dominates have_trust need =
     (case (trustRank have_trust, trustRank need) of (Some h, Some n) \<Rightarrow> n \<le> h | _ \<Rightarrow> False)"

section \<open>Structure\<close>

fun index_fragments :: "fragment_graph \<Rightarrow> context_fragment list \<Rightarrow> fragment_graph option" where
  "index_fragments g [] = Some g"
| "index_fragments g (f # fs) =
     (if cf_fragment_id f = [] \<or> cf_origin f = [] \<or> cf_principal f = [] \<or> cf_scope f = [] then None
      else if trustRank (cf_trust f) = None then None
      else if map_of g (cf_fragment_id f) \<noteq> None then None
      else index_fragments (g @ [(cf_fragment_id f, f)]) fs)"

definition indexFragments :: "context_fragment list \<Rightarrow> fragment_graph option" where
  "indexFragments fs = index_fragments [] fs"

definition derived :: "fragment_graph \<Rightarrow> string \<Rightarrow> string list" where
  "derived g i = (case map_of g i of Some f \<Rightarrow> cf_derived_from f | None \<Rightarrow> [])"

datatype color = White | Gray | Black

text \<open>The search from one fragment and the loop over its parents: has a cycle been found, and the colors.\<close>

fun dfs :: "nat \<Rightarrow> fragment_graph \<Rightarrow> string \<Rightarrow> (string \<Rightarrow> color) \<Rightarrow> bool \<times> (string \<Rightarrow> color)"
  and dfs_parents :: "nat \<Rightarrow> fragment_graph \<Rightarrow> string list \<Rightarrow> (string \<Rightarrow> color) \<Rightarrow> bool \<times> (string \<Rightarrow> color)" where
  "dfs 0 g i c = (True, c)"
| "dfs (Suc n) g i c =
     (case dfs_parents n g (derived g i) (c(i := Gray)) of
        (True, c1) \<Rightarrow> (True, c1)
      | (False, c1) \<Rightarrow> (False, c1(i := Black)))"
| "dfs_parents n g [] c = (False, c)"
| "dfs_parents n g (p # ps) c =
     (case c p of
        Gray \<Rightarrow> (True, c)
      | White \<Rightarrow> (case dfs n g p c of (True, c1) \<Rightarrow> (True, c1) | (False, c1) \<Rightarrow> dfs_parents n g ps c1)
      | Black \<Rightarrow> dfs_parents n g ps c)"

fun cyclic_from :: "nat \<Rightarrow> fragment_graph \<Rightarrow> string list \<Rightarrow> (string \<Rightarrow> color) \<Rightarrow> bool" where
  "cyclic_from n g [] c = False"
| "cyclic_from n g (i # is) c =
     (if c i = White then (case dfs n g i c of (True, _) \<Rightarrow> True | (False, c1) \<Rightarrow> cyclic_from n g is c1)
      else cyclic_from n g is c)"

definition cyclic :: "fragment_graph \<Rightarrow> bool" where
  "cyclic g = cyclic_from (length g + 1) g (map fst g) (\<lambda>_. White)"

definition fragment_ok :: "cx_root \<Rightarrow> fragment_graph \<Rightarrow> context_fragment \<Rightarrow> bool" where
  "fragment_ok r g f \<longleftrightarrow> 0 \<le> cf_introduced_at f \<and> cf_introduced_at f \<le> cx_current_tick r
     \<and> list_all (\<lambda>p. case map_of g p of None \<Rightarrow> False | Some parent \<Rightarrow> cf_introduced_at parent \<le> cf_introduced_at f) (cf_derived_from f)"

definition cx_structuralOK :: "cx_root \<Rightarrow> fragment_graph \<Rightarrow> bool" where
  "cx_structuralOK r g \<longleftrightarrow> cx_schema_version r = 1 \<and> list_all (\<lambda>(i, f). fragment_ok r g f) g \<and> \<not> cyclic g"

section \<open>Ceilings\<close>

definition trust_at :: "fragment_graph \<Rightarrow> string \<Rightarrow> string" where
  "trust_at g i = (case map_of g i of Some f \<Rightarrow> cf_trust f | None \<Rightarrow> [])"

text \<open>The memoized ceiling of a fragment, with the memo.\<close>

fun ceil :: "nat \<Rightarrow> fragment_graph \<Rightarrow> string \<Rightarrow> (string \<rightharpoonup> string) \<Rightarrow> string \<times> (string \<rightharpoonup> string)"
  and ceil_parents :: "nat \<Rightarrow> fragment_graph \<Rightarrow> string list \<Rightarrow> string \<Rightarrow> (string \<rightharpoonup> string) \<Rightarrow> string \<times> (string \<rightharpoonup> string)" where
  "ceil 0 g i memo = ([], memo)"
| "ceil (Suc n) g i memo =
     (case memo i of
        Some v \<Rightarrow> (v, memo)
      | None \<Rightarrow>
          (let (c, memo1) = ceil_parents n g (derived g i) (trust_at g i) memo
           in (c, memo1(i \<mapsto> c))))"
| "ceil_parents n g [] c memo = (c, memo)"
| "ceil_parents n g (p # ps) c memo =
     (let (v, memo1) = ceil n g p memo in ceil_parents n g ps (minTrust c v) memo1)"

definition ceilings :: "fragment_graph \<Rightarrow> string \<rightharpoonup> string" where
  "ceilings g = fold (\<lambda>i memo. snd (ceil (length g + 1) g i memo)) (map fst g) Map.empty"

definition ceiling_at :: "(string \<rightharpoonup> string) \<Rightarrow> string \<Rightarrow> string" where
  "ceiling_at m i = (case m i of Some v \<Rightarrow> v | None \<Rightarrow> [])"

section \<open>Ancestry\<close>

fun ancestry :: "nat \<Rightarrow> fragment_graph \<Rightarrow> string \<Rightarrow> string list \<times> string list \<Rightarrow> string list \<times> string list"
  and ancestry_parents :: "nat \<Rightarrow> fragment_graph \<Rightarrow> string list \<Rightarrow> string list \<times> string list \<Rightarrow> string list \<times> string list" where
  "ancestry 0 g i st = st"
| "ancestry (Suc n) g i (visited, ids) =
     (if i \<in> set visited then (visited, ids)
      else let (visited1, ids1) = ancestry_parents n g (derived g i) (i # visited, ids) in (visited1, ids1 @ [i]))"
| "ancestry_parents n g [] st = st"
| "ancestry_parents n g (p # ps) st = ancestry_parents n g ps (ancestry n g p st)"

definition ancestryIDs :: "fragment_graph \<Rightarrow> string \<Rightarrow> string list" where
  "ancestryIDs g i = snd (ancestry (length g + 1) g i ([], []))"

text \<open>A fragment that declares more trust than its parents can give.\<close>

definition escalates :: "fragment_graph \<Rightarrow> (string \<rightharpoonup> string) \<Rightarrow> string \<Rightarrow> bool" where
  "escalates g ceils i =
     (case derived g i of
        [] \<Rightarrow> False
      | p # ps \<Rightarrow>
          rank_of (fold (\<lambda>q m. minTrust m (ceiling_at ceils q)) ps (ceiling_at ceils p))
          < rank_of (trust_at g i))"

fun breach :: "nat \<Rightarrow> fragment_graph \<Rightarrow> (string \<rightharpoonup> string) \<Rightarrow> string \<Rightarrow> string list \<Rightarrow> bool \<times> string list"
  and breach_parents :: "nat \<Rightarrow> fragment_graph \<Rightarrow> (string \<rightharpoonup> string) \<Rightarrow> string list \<Rightarrow> string list \<Rightarrow> bool \<times> string list" where
  "breach 0 g ceils i visited = (False, visited)"
| "breach (Suc n) g ceils i visited =
     (if i \<in> set visited then (False, visited)
      else if escalates g ceils i then (True, i # visited)
      else breach_parents n g ceils (derived g i) (i # visited))"
| "breach_parents n g ceils [] visited = (False, visited)"
| "breach_parents n g ceils (p # ps) visited =
     (case breach n g ceils p visited of (True, v1) \<Rightarrow> (True, v1) | (False, v1) \<Rightarrow> breach_parents n g ceils ps v1)"

definition ancestryBreach :: "fragment_graph \<Rightarrow> (string \<rightharpoonup> string) \<Rightarrow> string \<Rightarrow> bool" where
  "ancestryBreach g ceils target = fst (breach (length g + 1) g ceils target [])"

section \<open>Evidence\<close>

text \<open>A character of the string that is no ASCII letter, digit, underscore or hyphen becomes one underscore, whatever
  its width, and so does a byte that starts no valid sequence.\<close>

definition token_char :: "char \<Rightarrow> bool" where
  "token_char c \<longleftrightarrow> is_upper_ascii c \<or> is_lower_ascii c \<or> is_digit_ascii c \<or> c = CHR ''_'' \<or> c = CHR ''-''"

function cx_token :: "string \<Rightarrow> string" where
  "cx_token [] = []"
| "cx_token (c # s) =
     (if token_char c then c # cx_token s else CHR ''_'' # cx_token (drop (rune_width (c # s) - 1) s))"
  by pat_completeness auto

termination cx_token
  by (relation "measure length") auto

definition derivedPath :: "fragment_graph \<Rightarrow> string list \<Rightarrow> string" where
  "derivedPath g ids =
     (if \<not> list_ex (\<lambda>i. 1 < length (derived g i)) ids then join_strings ''->'' ids
      else join_strings '','' (sort (concat (map (\<lambda>i. map (\<lambda>p. p @ ''->'' @ i) (derived g i)) ids))))"

definition no_fragment :: context_fragment where
  "no_fragment = \<lparr>cf_fragment_id = [], cf_origin = [], cf_principal = [], cf_trust = [], cf_scope = [],
     cf_introduced_at = 0, cf_derived_from = []\<rparr>"

definition fragment_at :: "fragment_graph \<Rightarrow> string \<Rightarrow> context_fragment" where
  "fragment_at g i = (case map_of g i of Some f \<Rightarrow> f | None \<Rightarrow> no_fragment)"

fun source_fragment :: "fragment_graph \<Rightarrow> (string \<rightharpoonup> string) \<Rightarrow> string list \<Rightarrow> context_fragment option \<Rightarrow> context_fragment" where
  "source_fragment g ceils [] src = (case src of Some f \<Rightarrow> f | None \<Rightarrow> no_fragment)"
| "source_fragment g ceils (i # ids) src =
     (if derived g i \<noteq> [] then source_fragment g ceils ids src
      else (case src of
              None \<Rightarrow> source_fragment g ceils ids (Some (fragment_at g i))
            | Some f \<Rightarrow>
                (let cr = rank_of (ceiling_at ceils i); sr = rank_of (ceiling_at ceils (cf_fragment_id f))
                 in if cr < sr \<or> cr = sr \<and> i < cf_fragment_id f then source_fragment g ceils ids (Some (fragment_at g i))
                    else source_fragment g ceils ids src)))"

definition sourceFragment :: "fragment_graph \<Rightarrow> (string \<rightharpoonup> string) \<Rightarrow> string list \<Rightarrow> context_fragment" where
  "sourceFragment g ceils ids = source_fragment g ceils ids None"

text \<open>The origin, principal and scope that the evidence names, its path, the declared trust and the ceiling.\<close>

record evidence_facts =
  ef_origin :: string
  ef_principal :: string
  ef_scope :: string
  ef_path :: string
  ef_declared :: string
  ef_ceiling :: string

definition cx_evidence_lines :: "candidate_message \<Rightarrow> evidence_facts \<Rightarrow> string \<Rightarrow> cx_decision \<Rightarrow> string list" where
  "cx_evidence_lines m e required d =
     [''Context route Agent A -> MCP web tool -> Agent B'',
      ''Visible role '' @ cx_token (mc_visible_role (cm_claims m)) @ '' reconstructed_from '' @ cx_token (mc_reconstructed_from (cm_claims m)),
      ''Original origin '' @ ef_origin e @ '' principal '' @ ef_principal e @ '' scope '' @ ef_scope e,
      ''Derived path '' @ ef_path e,
      ''Declared trust '' @ ef_declared e @ '' effective trust '' @ cx_effective_trust d,
      ''Trust ceiling '' @ ef_ceiling e @ '' required '' @ required,
      ''Context Provenance Proof '' @ cx_proof d,
      ''Context Authority Escalation '' @ cx_escalation d @ ''; Instruction '' @ cx_authority d]"

section \<open>The decision\<close>

definition cx_closed :: "string \<Rightarrow> cx_decision" where
  "cx_closed reason = \<lparr>cx_proof = ''INVALID'', cx_escalation = ''DETECTED'', cx_authority = ''NON-AUTHORITATIVE'',
     cx_effective_trust = [], cx_reason = reason, cx_evidence = replicate 8 []\<rparr>"

definition cx_fill :: "cx_root \<Rightarrow> candidate_message \<Rightarrow> cx_decision \<Rightarrow> cx_decision" where
  "cx_fill r m d = d\<lparr>cx_evidence := cx_evidence_lines m \<lparr>ef_origin = [], ef_principal = [], ef_scope = [], ef_path = [],
     ef_declared = [], ef_ceiling = []\<rparr> (cx_required_trust r) d\<rparr>"

definition source_facts :: "fragment_graph \<Rightarrow> (string \<rightharpoonup> string) \<Rightarrow> string \<Rightarrow> evidence_facts" where
  "source_facts g ceils i =
     (let ids = ancestryIDs g i; src = sourceFragment g ceils ids; known = cf_fragment_id src \<noteq> []
      in \<lparr>ef_origin = (if known then cf_origin src else []), ef_principal = (if known then cf_principal src else []),
          ef_scope = (if known then cf_scope src else []), ef_path = derivedPath g ids,
          ef_declared = trust_at g i, ef_ceiling = ceiling_at ceils i\<rparr>)"

definition cx_verdict :: "cx_root \<Rightarrow> fragment_graph \<Rightarrow> (string \<rightharpoonup> string) \<Rightarrow> string \<Rightarrow> cx_decision" where
  "cx_verdict r g ceils i =
     (let d = (cx_closed ''invalid evaluation root'')\<lparr>cx_effective_trust := ceiling_at ceils i\<rparr>
      in if ancestryBreach g ceils i then d\<lparr>cx_reason := ''context authority escalation''\<rparr>
         else if \<not> dominates (ceiling_at ceils i) (cx_required_trust r)
         then d\<lparr>cx_proof := ''VALID'', cx_escalation := ''NONE'', cx_reason := ''insufficient instruction trust''\<rparr>
         else d\<lparr>cx_proof := ''VALID'', cx_escalation := ''NONE'', cx_authority := ''AUTHORITATIVE'', cx_reason := ''authorized''\<rparr>)"

definition cx_Authorize :: "cx_root \<Rightarrow> candidate_message \<Rightarrow> cx_decision" where
  "cx_Authorize r m =
     (case indexFragments (cx_fragments r) of
        None \<Rightarrow> cx_fill r m (cx_closed ''invalid evaluation root'')
      | Some g \<Rightarrow>
          (if \<not> cx_structuralOK r g then cx_fill r m (cx_closed ''invalid evaluation root'')
           else if trustRank (cx_required_trust r) = None then cx_fill r m (cx_closed ''unknown required trust'')
           else if map_of g (cm_fragment_id m) = None then cx_fill r m (cx_closed ''target fragment missing'')
           else let ceils = ceilings g; d = cx_verdict r g ceils (cm_fragment_id m)
                in d\<lparr>cx_evidence := cx_evidence_lines m (source_facts g ceils (cm_fragment_id m)) (cx_required_trust r) d\<rparr>))"

section \<open>Ancestors\<close>

text \<open>The edge from a parent to the fragment derived from it, and the proper ancestors of a fragment.\<close>

definition parent_rel :: "fragment_graph \<Rightarrow> (string \<times> string) set" where
  "parent_rel g = {(p, i). p \<in> set (derived g i)}"

definition ancs :: "fragment_graph \<Rightarrow> string \<Rightarrow> string set" where
  "ancs g i = {a. (a, i) \<in> (parent_rel g)\<^sup>+}"

text \<open>Every parent is a fragment of the graph.\<close>

definition parents_known :: "fragment_graph \<Rightarrow> bool" where
  "parents_known g \<longleftrightarrow> (\<forall>i p. p \<in> set (derived g i) \<longrightarrow> p \<in> set (map fst g))"

lemma parent_relI [intro]: "p \<in> set (derived g i) \<Longrightarrow> (p, i) \<in> parent_rel g"
  by (simp add: parent_rel_def)

lemma parent_relD: "(p, i) \<in> parent_rel g \<Longrightarrow> p \<in> set (derived g i)"
  by (simp add: parent_rel_def)

lemma ancs_unfold: "ancs g i = (\<Union>p\<in>set (derived g i). insert p (ancs g p))"
proof -
  have "(a, i) \<in> (parent_rel g)\<^sup>+ \<longleftrightarrow> (\<exists>p. (a, p) \<in> (parent_rel g)\<^sup>* \<and> p \<in> set (derived g i))" for a
    by (auto simp: trancl_unfold_right parent_rel_def relcomp_unfold)
  then show ?thesis unfolding ancs_def by (auto simp: rtrancl_eq_or_trancl)
qed

lemma ancs_parent: "p \<in> set (derived g i) \<Longrightarrow> insert p (ancs g p) \<subseteq> ancs g i"
  by (subst (2) ancs_unfold) blast

lemma ancs_trans: "a \<in> ancs g i \<Longrightarrow> b \<in> ancs g a \<Longrightarrow> b \<in> ancs g i"
  unfolding ancs_def by (auto intro: trancl_trans)

lemma ancs_closed: "a \<in> insert i (ancs g i) \<Longrightarrow> insert a (ancs g a) \<subseteq> insert i (ancs g i)"
  by (auto intro: ancs_trans)

lemma ancs_known: "parents_known g \<Longrightarrow> ancs g i \<subseteq> set (map fst g)"
proof
  fix a assume k: "parents_known g" and "a \<in> ancs g i"
  then obtain j where "(a, j) \<in> parent_rel g" unfolding ancs_def by (auto dest: tranclD)
  then show "a \<in> set (map fst g)" using k by (auto simp: parents_known_def dest: parent_relD)
qed

lemma ancs_card: "parents_known g \<Longrightarrow> card (ancs g i) < length g + 1"
  using card_mono [OF _ ancs_known, of g i] card_length [of "map fst g"] by simp

text \<open>In a graph without cycles the number of ancestors decreases from a fragment to its parents, so that the fuel lasts.\<close>

lemma acyclic_not_self: "acyclic (parent_rel g) \<Longrightarrow> i \<notin> ancs g i"
  by (simp add: ancs_def acyclic_def)

lemma fuel_step:
  assumes "acyclic (parent_rel g)" and "parents_known g" and "p \<in> set (derived g i)" and "card (ancs g i) < Suc n"
  shows "card (ancs g p) < n"
proof -
  have "finite (ancs g i)" using ancs_known [OF assms(2)] finite_set by (rule finite_subset)
  moreover have "ancs g p \<subset> ancs g i" using ancs_parent [OF assms(3)] acyclic_not_self [OF assms(1), of p] by blast
  ultimately have "card (ancs g p) < card (ancs g i)" by (rule psubset_card_mono)
  then show ?thesis using assms(4) by simp
qed

lemma fragment_not_above_parent: "acyclic (parent_rel g) \<Longrightarrow> p \<in> set (derived g i) \<Longrightarrow> i \<notin> insert p (ancs g p)"
  using ancs_parent acyclic_not_self by blast

section \<open>The search for cycles\<close>

definition black_ok :: "fragment_graph \<Rightarrow> (string \<Rightarrow> color) \<Rightarrow> bool" where
  "black_ok g c \<longleftrightarrow> (\<forall>j. c j = Black \<longrightarrow> j \<in> Wellfounded.acc (parent_rel g))"

definition gray_le :: "(string \<Rightarrow> color) \<Rightarrow> (string \<Rightarrow> color) \<Rightarrow> bool" where
  "gray_le c1 c \<longleftrightarrow> (\<forall>j. c1 j = Gray \<longrightarrow> c j = Gray)"

lemma gray_le_trans: "gray_le c2 c1 \<Longrightarrow> gray_le c1 c \<Longrightarrow> gray_le c2 c"
  by (simp add: gray_le_def)

lemma dfs_rooted:
  "dfs n g i c = (False, c1) \<Longrightarrow> black_ok g c \<Longrightarrow> i \<in> Wellfounded.acc (parent_rel g) \<and> black_ok g c1 \<and> gray_le c1 c"
  "dfs_parents n g ps c = (False, c1) \<Longrightarrow> black_ok g c \<Longrightarrow>
     (\<forall>p\<in>set ps. p \<in> Wellfounded.acc (parent_rel g)) \<and> black_ok g c1 \<and> gray_le c1 c"
proof (induction n g i c and n g ps c arbitrary: c1 and c1 rule: dfs_dfs_parents.induct)
  case (2 n g i c)
  then obtain c2 where c2: "dfs_parents n g (derived g i) (c(i := Gray)) = (False, c2)" "c1 = c2(i := Black)"
    by (auto split: prod.splits bool.splits)
  have "black_ok g (c(i := Gray))" using 2(3) by (simp add: black_ok_def)
  with 2(1) c2(1) have ih: "\<forall>p\<in>set (derived g i). p \<in> Wellfounded.acc (parent_rel g)" "black_ok g c2" "gray_le c2 (c(i := Gray))"
    by blast+
  have "i \<in> Wellfounded.acc (parent_rel g)" using ih(1) by (blast intro: Wellfounded.acc.accI dest: parent_relD)
  then show ?case using ih(2,3) c2(2) by (auto simp: black_ok_def gray_le_def)
next
  case (4 n g p ps c)
  show ?case
  proof (cases "c p")
    case White
    with 4(4) obtain c2 where c2: "dfs n g p c = (False, c2)" "dfs_parents n g ps c2 = (False, c1)"
      by (auto split: prod.splits bool.splits)
    with 4(1) [OF White c2(1) 4(5)] 4(2) [OF White c2(1) [symmetric] refl c2(2)] show ?thesis
      by (auto intro: gray_le_trans)
  next
    case Gray
    with 4(4) show ?thesis by simp
  next
    case Black
    with 4(4,5) 4(3) [OF Black] show ?thesis by (auto simp: black_ok_def)
  qed
qed (auto simp: gray_le_def)

lemma cyclic_from_rooted:
  "\<not> cyclic_from n g ids c \<Longrightarrow> black_ok g c \<Longrightarrow> gray_le c (\<lambda>_. White) \<Longrightarrow> i \<in> set ids \<Longrightarrow> i \<in> Wellfounded.acc (parent_rel g)"
proof (induction n g ids c rule: cyclic_from.induct)
  case (2 n g j js c)
  show ?case
  proof (cases "c j = White")
    case True
    with 2(3) obtain c1 where c1: "dfs n g j c = (False, c1)" "\<not> cyclic_from n g js c1"
      by (auto split: prod.splits bool.splits)
    from dfs_rooted(1) [OF c1(1) 2(4)] 2(5) have "j \<in> Wellfounded.acc (parent_rel g)" "black_ok g c1" "gray_le c1 (\<lambda>_. White)"
      by (auto intro: gray_le_trans)
    with 2(1) [OF True c1(1) [symmetric] refl c1(2)] 2(6) show ?thesis by auto
  next
    case False
    with 2(5) have "c j = Black" by (cases "c j") (auto simp: gray_le_def)
    with 2 False show ?thesis by (auto simp: black_ok_def)
  qed
qed simp

lemma dfs_acyclic:
  assumes "acyclic (parent_rel g)" and "parents_known g"
  shows "card (ancs g i) < n \<Longrightarrow> \<forall>a\<in>insert i (ancs g i). c a \<noteq> Gray \<Longrightarrow> \<exists>c1. dfs n g i c = (False, c1) \<and> gray_le c1 c"
    and "\<forall>p\<in>set ps. card (ancs g p) < n \<and> (\<forall>a\<in>insert p (ancs g p). c a \<noteq> Gray) \<Longrightarrow>
      \<exists>c1. dfs_parents n g ps c = (False, c1) \<and> gray_le c1 c"
  using assms
proof (induction n g i c and n g ps c rule: dfs_dfs_parents.induct)
  case (2 n g i c)
  have "card (ancs g p) < n \<and> (\<forall>a\<in>insert p (ancs g p). (c(i := Gray)) a \<noteq> Gray)" if p: "p \<in> set (derived g i)" for p
    using fuel_step [OF 2(4,5) p 2(2)] fragment_not_above_parent [OF 2(4) p] ancs_parent [OF p] 2(3) by auto
  with 2(1) 2(4,5) obtain c1 where "dfs_parents n g (derived g i) (c(i := Gray)) = (False, c1)" "gray_le c1 (c(i := Gray))"
    by blast
  then show ?case by (auto simp: gray_le_def)
next
  case (4 n g p ps c)
  show ?case
  proof (cases "c p")
    case White
    from 4(1) [OF White] 4(4-6) obtain c1 where c1: "dfs n g p c = (False, c1)" "gray_le c1 c" by auto
    have "\<forall>q\<in>set ps. card (ancs g q) < n \<and> (\<forall>a\<in>insert q (ancs g q). c1 a \<noteq> Gray)"
      using 4(4) c1(2) by (auto simp: gray_le_def)
    from 4(2) [OF White c1(1) [symmetric] refl this 4(5,6)] White c1 show ?thesis by (auto intro: gray_le_trans)
  next
    case Gray
    with 4(4) show ?thesis by simp
  next
    case Black
    with 4(3) [OF Black] 4(4-6) show ?thesis by simp
  qed
qed (auto simp: gray_le_def)

lemma cyclic_from_acyclic:
  assumes "acyclic (parent_rel g)" and "parents_known g"
  shows "gray_le c (\<lambda>_. White) \<Longrightarrow> \<not> cyclic_from (length g + 1) g ids c"
proof (induction ids arbitrary: c)
  case (Cons i js)
  show ?case
  proof (cases "c i = White")
    case True
    from Cons(2) have "\<forall>a\<in>insert i (ancs g i). c a \<noteq> Gray" by (auto simp: gray_le_def)
    from dfs_acyclic(1) [OF assms ancs_card [OF assms(2)] this] obtain c1 where
      "dfs (length g + 1) g i c = (False, c1)" "gray_le c1 c" by blast
    with True Cons show ?thesis by (auto intro: gray_le_trans)
  next
    case False
    with Cons show ?thesis by simp
  qed
qed simp

text \<open>The search finds a cycle exactly when there is one.\<close>

lemma cyclic_iff:
  assumes "parents_known g"
  shows "cyclic g \<longleftrightarrow> \<not> acyclic (parent_rel g)"
proof
  assume "cyclic g"
  then show "\<not> acyclic (parent_rel g)"
    using cyclic_from_acyclic [OF _ assms] by (auto simp: cyclic_def gray_le_def)
next
  assume cyc: "\<not> acyclic (parent_rel g)"
  show "cyclic g"
  proof (rule ccontr)
    assume "\<not> cyclic g"
    then have known: "i \<in> Wellfounded.acc (parent_rel g)" if "i \<in> set (map fst g)" for i
      using cyclic_from_rooted [OF _ _ _ that, of "length g + 1" g "\<lambda>_. White"] by (simp add: cyclic_def black_ok_def gray_le_def)
    have "i \<in> Wellfounded.acc (parent_rel g)" for i
      by (rule Wellfounded.acc.accI, rule known) (use assms in \<open>auto simp: parents_known_def dest: parent_relD\<close>)
    then have "wf (parent_rel g)" by (simp add: wf_iff_acc)
    with cyc show False by (simp add: wf_acyclic)
  qed
qed

section \<open>Ceilings and escalations\<close>

text \<open>A trust that is the least one of a fragment and its ancestors.\<close>

definition least_trust :: "fragment_graph \<Rightarrow> string \<Rightarrow> string \<Rightarrow> bool" where
  "least_trust g i v \<longleftrightarrow> trustRank v \<noteq> None
     \<and> (\<forall>k. k \<le> rank_of v \<longleftrightarrow> (\<forall>a\<in>insert i (ancs g i). k \<le> rank_of (trust_at g a)))"

definition trusts_known :: "fragment_graph \<Rightarrow> bool" where
  "trusts_known g \<longleftrightarrow> (\<forall>i\<in>set (map fst g). trustRank (trust_at g i) \<noteq> None)"

definition memo_ok :: "fragment_graph \<Rightarrow> (string \<rightharpoonup> string) \<Rightarrow> bool" where
  "memo_ok g m \<longleftrightarrow> (\<forall>i v. m i = Some v \<longrightarrow> least_trust g i v)"

lemma minTrust_rank: "k \<le> rank_of (minTrust a b) \<longleftrightarrow> k \<le> rank_of a \<and> k \<le> rank_of b"
  by (auto simp: minTrust_def)

lemma minTrust_known: "trustRank a \<noteq> None \<Longrightarrow> trustRank b \<noteq> None \<Longrightarrow> trustRank (minTrust a b) \<noteq> None"
  by (simp add: minTrust_def)

lemma ceil_least:
  assumes "acyclic (parent_rel g)" and "parents_known g" and "trusts_known g"
  shows "ceil n g i m = (v, m1) \<Longrightarrow> card (ancs g i) < n \<Longrightarrow> i \<in> set (map fst g) \<Longrightarrow> memo_ok g m \<Longrightarrow>
      least_trust g i v \<and> memo_ok g m1 \<and> m1 i = Some v \<and> dom m \<subseteq> dom m1"
    and "ceil_parents n g ps c m = (v, m1) \<Longrightarrow> \<forall>p\<in>set ps. card (ancs g p) < n \<and> p \<in> set (map fst g) \<Longrightarrow>
      trustRank c \<noteq> None \<Longrightarrow> memo_ok g m \<Longrightarrow>
      trustRank v \<noteq> None \<and> memo_ok g m1 \<and> dom m \<subseteq> dom m1
      \<and> (\<forall>k. k \<le> rank_of v \<longleftrightarrow> k \<le> rank_of c \<and> (\<forall>p\<in>set ps. \<forall>a\<in>insert p (ancs g p). k \<le> rank_of (trust_at g a)))"
  using assms
proof (induction n g i m and n g ps c m arbitrary: v m1 and v m1 rule: ceil_ceil_parents.induct)
  case (2 n g i m)
  show ?case
  proof (cases "m i")
    case None
    obtain m2 where m2: "ceil_parents n g (derived g i) (trust_at g i) m = (v, m2)" "m1 = m2(i \<mapsto> v)"
      using 2(2) None by (auto split: prod.splits)
    have "\<forall>p\<in>set (derived g i). card (ancs g p) < n \<and> p \<in> set (map fst g)"
      using fuel_step [OF 2(6,7) _ 2(3)] 2(7) by (auto simp: parents_known_def)
    moreover have "trustRank (trust_at g i) \<noteq> None" using 2(4,8) by (auto simp: trusts_known_def)
    ultimately have ih: "trustRank v \<noteq> None \<and> memo_ok g m2 \<and> dom m \<subseteq> dom m2
      \<and> (\<forall>k. k \<le> rank_of v \<longleftrightarrow> k \<le> rank_of (trust_at g i) \<and> (\<forall>p\<in>set (derived g i). \<forall>a\<in>insert p (ancs g p). k \<le> rank_of (trust_at g a)))"
      using 2(1) [OF None m2(1)] 2(5-8) by blast
    have "least_trust g i v"
      unfolding least_trust_def ancs_unfold [of g i] using ih by blast
    then show ?thesis using ih m2(2) by (auto simp: memo_ok_def)
  next
    case (Some w)
    with 2(2,5) show ?thesis by (auto simp: memo_ok_def)
  qed
next
  case (4 n g p ps c m)
  obtain w m2 where w: "ceil n g p m = (w, m2)" by fastforce
  with 4(3) have rest: "ceil_parents n g ps (minTrust c w) m2 = (v, m1)" by simp
  from 4(1) [OF w] 4(4,6-9) have lw: "least_trust g p w" "memo_ok g m2" "dom m \<subseteq> dom m2" by auto
  then have "trustRank (minTrust c w) \<noteq> None" using 4(5) by (simp add: least_trust_def minTrust_known)
  from 4(2) [OF w [symmetric] refl rest _ this lw(2) 4(7-9)] 4(4) lw show ?case
    by (simp add: minTrust_rank least_trust_def) blast
qed auto

lemma ceilings_fold:
  assumes "acyclic (parent_rel g)" and "parents_known g" and "trusts_known g"
  shows "set ids \<subseteq> set (map fst g) \<Longrightarrow> memo_ok g m \<Longrightarrow>
    memo_ok g (fold (\<lambda>i memo. snd (ceil (length g + 1) g i memo)) ids m)
    \<and> dom m \<union> set ids \<subseteq> dom (fold (\<lambda>i memo. snd (ceil (length g + 1) g i memo)) ids m)"
proof (induction ids arbitrary: m)
  case (Cons i js)
  obtain v m1 where v: "ceil (length g + 1) g i m = (v, m1)" by fastforce
  from ceil_least(1) [OF assms v ancs_card [OF assms(2)] _ Cons(3)] Cons(2)
  have "memo_ok g m1" "m1 i = Some v" "dom m \<subseteq> dom m1" by auto
  moreover from this(1) Cons(1) [of m1] Cons(2) have "memo_ok g (fold (\<lambda>i memo. snd (ceil (length g + 1) g i memo)) js m1)"
    "dom m1 \<union> set js \<subseteq> dom (fold (\<lambda>i memo. snd (ceil (length g + 1) g i memo)) js m1)" by simp_all
  moreover have "i \<in> dom m1" using calculation(2) by blast
  ultimately show ?case using v by (simp, blast)
qed simp

lemma ceilings_least:
  assumes "acyclic (parent_rel g)" and "parents_known g" and "trusts_known g" and "i \<in> set (map fst g)"
  shows "least_trust g i (ceiling_at (ceilings g) i)"
proof -
  have "memo_ok g (ceilings g)" "set (map fst g) \<subseteq> dom (ceilings g)"
    using ceilings_fold [OF assms(1-3) subset_refl, of Map.empty] unfolding ceilings_def by (auto simp: memo_ok_def)
  with assms(4) show ?thesis by (auto simp: memo_ok_def ceiling_at_def split: option.splits)
qed

lemma fold_minTrust: "k \<le> rank_of (fold (\<lambda>q m. minTrust m (h q)) ps c) \<longleftrightarrow> k \<le> rank_of c \<and> (\<forall>q\<in>set ps. k \<le> rank_of (h q))"
  by (induction ps arbitrary: c) (auto simp: minTrust_rank)

text \<open>A fragment escalates when it declares more trust than one of its ancestors.\<close>

definition declares_more :: "fragment_graph \<Rightarrow> string \<Rightarrow> bool" where
  "declares_more g i \<longleftrightarrow> (\<exists>b\<in>ancs g i. rank_of (trust_at g b) < rank_of (trust_at g i))"

lemma escalates_iff:
  assumes "acyclic (parent_rel g)" and "parents_known g" and "trusts_known g"
  shows "escalates g (ceilings g) i \<longleftrightarrow> declares_more g i"
proof (cases "derived g i")
  case Nil
  then show ?thesis by (simp add: escalates_def declares_more_def ancs_unfold [of g i])
next
  case (Cons p ps)
  have least: "k \<le> rank_of (ceiling_at (ceilings g) q) \<longleftrightarrow> (\<forall>a\<in>insert q (ancs g q). k \<le> rank_of (trust_at g a))"
    if "q \<in> set (derived g i)" for k q
    using ceilings_least [OF assms, of q] assms(2) that by (auto simp: parents_known_def least_trust_def)
  have "escalates g (ceilings g) i
    \<longleftrightarrow> \<not> (\<forall>q\<in>set (derived g i). rank_of (trust_at g i) \<le> rank_of (ceiling_at (ceilings g) q))"
    using fold_minTrust [of "rank_of (trust_at g i)" "ceiling_at (ceilings g)" ps "ceiling_at (ceilings g) p"]
    by (auto simp: escalates_def Cons not_le)
  also have "\<dots> \<longleftrightarrow> \<not> (\<forall>a\<in>ancs g i. rank_of (trust_at g i) \<le> rank_of (trust_at g a))"
    unfolding ancs_unfold [of g i] using least by blast
  finally show ?thesis by (auto simp: declares_more_def not_le)
qed

text \<open>A fragment is free of breaches when neither it nor an ancestor escalates. The search skips visited fragments: these are either
  free of breaches, or descendants of the fragment under search.\<close>

definition no_breach :: "fragment_graph \<Rightarrow> (string \<rightharpoonup> string) \<Rightarrow> string \<Rightarrow> bool" where
  "no_breach g ceils i \<longleftrightarrow> (\<forall>a\<in>insert i (ancs g i). \<not> escalates g ceils a)"

lemma no_breach_unfold: "no_breach g ceils i \<longleftrightarrow> \<not> escalates g ceils i \<and> (\<forall>p\<in>set (derived g i). no_breach g ceils p)"
  unfolding no_breach_def ancs_unfold [of g i] by blast

lemma no_breach_anc: "no_breach g ceils i \<Longrightarrow> a \<in> insert i (ancs g i) \<Longrightarrow> no_breach g ceils a"
  unfolding no_breach_def by (auto intro: ancs_trans)

lemma breach_iff:
  assumes "acyclic (parent_rel g)" and "parents_known g"
  shows "breach n g ceils i v = (b, v1) \<Longrightarrow> card (ancs g i) < n \<Longrightarrow>
      \<forall>a\<in>set v \<inter> insert i (ancs g i). no_breach g ceils a \<Longrightarrow>
      (b \<longleftrightarrow> \<not> no_breach g ceils i) \<and> (\<not> b \<longrightarrow> set v1 \<subseteq> set v \<union> insert i (ancs g i))"
    and "breach_parents n g ceils ps v = (b, v1) \<Longrightarrow> \<forall>p\<in>set ps. card (ancs g p) < n \<Longrightarrow>
      \<forall>p\<in>set ps. \<forall>a\<in>set v \<inter> insert p (ancs g p). no_breach g ceils a \<Longrightarrow>
      (b \<longleftrightarrow> (\<exists>p\<in>set ps. \<not> no_breach g ceils p)) \<and> (\<not> b \<longrightarrow> set v1 \<subseteq> set v \<union> (\<Union>p\<in>set ps. insert p (ancs g p)))"
  using assms
proof (induction n g ceils i v and n g ceils ps v arbitrary: b v1 and b v1 rule: breach_breach_parents.induct)
  case (2 n g ceils i v)
  consider "i \<in> set v" | "i \<notin> set v" "escalates g ceils i" | "i \<notin> set v" "\<not> escalates g ceils i" by blast
  then show ?case
  proof cases
    case 1
    with 2(2,4) show ?thesis by auto
  next
    case 2
    with "2.prems"(1) show ?thesis by (auto simp: no_breach_def)
  next
    case 3
    with 2(2) have bp: "breach_parents n g ceils (derived g i) (i # v) = (b, v1)" by simp
    have "\<forall>p\<in>set (derived g i). card (ancs g p) < n" using fuel_step [OF 2(5,6) _ 2(3)] by blast
    moreover have "\<forall>p\<in>set (derived g i). \<forall>a\<in>set (i # v) \<inter> insert p (ancs g p). no_breach g ceils a"
      using fragment_not_above_parent [OF 2(5)] ancs_parent [of _ g i] 2(4) by fastforce
    ultimately have "(b \<longleftrightarrow> (\<exists>p\<in>set (derived g i). \<not> no_breach g ceils p))
      \<and> (\<not> b \<longrightarrow> set v1 \<subseteq> set (i # v) \<union> (\<Union>p\<in>set (derived g i). insert p (ancs g p)))"
      using 2(1) [OF 3 bp] 2(5,6) by blast
    then show ?thesis unfolding no_breach_unfold [of g ceils i] ancs_unfold [of g i] using 3(2) by auto
  qed
next
  case (4 n g ceils p ps v)
  obtain b2 v2 where b2: "breach n g ceils p v = (b2, v2)" by fastforce
  with 4(1) [OF b2] 4(4-7) have ih: "b2 \<longleftrightarrow> \<not> no_breach g ceils p" "\<not> b2 \<longrightarrow> set v2 \<subseteq> set v \<union> insert p (ancs g p)" by auto
  show ?case
  proof (cases b2)
    case True
    with b2 4(3) ih show ?thesis by auto
  next
    case False
    with b2 4(3) have rest: "breach_parents n g ceils ps v2 = (b, v1)" by simp
    have "\<forall>q\<in>set ps. \<forall>a\<in>set v2 \<inter> insert q (ancs g q). no_breach g ceils a"
      using ih False no_breach_anc [of g ceils p] 4(5) by auto
    with 4(2) [OF b2 [symmetric] _ rest] False 4(4,6,7) have
      "(b \<longleftrightarrow> (\<exists>p\<in>set ps. \<not> no_breach g ceils p)) \<and> (\<not> b \<longrightarrow> set v1 \<subseteq> set v2 \<union> (\<Union>p\<in>set ps. insert p (ancs g p)))" by auto
    with ih False show ?thesis by auto
  qed
qed auto

section \<open>The list of ancestors\<close>

lemma ancestry_lists:
  assumes "acyclic (parent_rel g)" and "parents_known g"
  shows "ancestry n g i (v, l) = (v1, l1) \<Longrightarrow> card (ancs g i) < n \<Longrightarrow>
      \<forall>a\<in>set v \<inter> insert i (ancs g i). insert a (ancs g a) \<subseteq> set l \<Longrightarrow> set l \<subseteq> set v \<Longrightarrow> distinct l \<Longrightarrow>
      set l1 = set l \<union> insert i (ancs g i) \<and> set v1 = set v \<union> insert i (ancs g i) \<and> distinct l1"
    and "ancestry_parents n g ps (v, l) = (v1, l1) \<Longrightarrow> \<forall>p\<in>set ps. card (ancs g p) < n \<Longrightarrow>
      \<forall>p\<in>set ps. \<forall>a\<in>set v \<inter> insert p (ancs g p). insert a (ancs g a) \<subseteq> set l \<Longrightarrow> set l \<subseteq> set v \<Longrightarrow> distinct l \<Longrightarrow>
      set l1 = set l \<union> (\<Union>p\<in>set ps. insert p (ancs g p)) \<and> set v1 = set v \<union> (\<Union>p\<in>set ps. insert p (ancs g p)) \<and> distinct l1"
  using assms
proof (induction n g i "(v, l)" and n g ps "(v, l)" arbitrary: v l v1 l1 and v l v1 l1 rule: ancestry_ancestry_parents.induct)
  case (2 n g i v l)
  show ?case
  proof (cases "i \<in> set v")
    case True
    with 2(2) have "v1 = v" "l1 = l" by auto
    moreover have "insert i (ancs g i) \<subseteq> set l" using True 2(4) by blast
    ultimately show ?thesis using 2(5,6) by blast
  next
    case False
    obtain v2 l2 where v2: "ancestry_parents n g (derived g i) (i # v, l) = (v2, l2)" by fastforce
    with False 2(2) have eq: "v1 = v2" "l1 = l2 @ [i]" by auto
    have "\<forall>p\<in>set (derived g i). card (ancs g p) < n" using fuel_step [OF 2(7,8) _ 2(3)] by blast
    moreover have "\<forall>p\<in>set (derived g i). \<forall>a\<in>set (i # v) \<inter> insert p (ancs g p). insert a (ancs g a) \<subseteq> set l"
    proof (intro ballI)
      fix p a assume p: "p \<in> set (derived g i)" and a: "a \<in> set (i # v) \<inter> insert p (ancs g p)"
      have "a \<noteq> i" using fragment_not_above_parent [OF 2(7) p] a by blast
      with a ancs_parent [OF p] have "a \<in> set v \<inter> insert i (ancs g i)" by auto
      with 2(4) show "insert a (ancs g a) \<subseteq> set l" by blast
    qed
    moreover have "set l \<subseteq> set (i # v)" using 2(5) by auto
    ultimately have ih: "set l2 = set l \<union> (\<Union>p\<in>set (derived g i). insert p (ancs g p))"
      "set v2 = set (i # v) \<union> (\<Union>p\<in>set (derived g i). insert p (ancs g p))" "distinct l2"
      using 2(1) [OF False v2] 2(6-8) by blast+
    have "i \<notin> set l2" using ih(1) False 2(5) fragment_not_above_parent [OF 2(7), of _ i] by blast
    then show ?thesis unfolding ancs_unfold [of g i] using ih eq by auto
  qed
next
  case (4 n g p ps v l)
  obtain v2 l2 where v2: "ancestry n g p (v, l) = (v2, l2)" by fastforce
  with 4(3) have rest: "ancestry_parents n g ps (v2, l2) = (v1, l1)" by simp
  have "card (ancs g p) < n" and "\<forall>a\<in>set v \<inter> insert p (ancs g p). insert a (ancs g a) \<subseteq> set l"
    using 4(4,5) by (meson list.set_intros(1))+
  from 4(1) [OF v2 this 4(6-9)] have ih: "set l2 = set l \<union> insert p (ancs g p)" "set v2 = set v \<union> insert p (ancs g p)" "distinct l2"
    by blast+
  have "insert a (ancs g a) \<subseteq> set l2" if "q \<in> set ps" "a \<in> set v2 \<inter> insert q (ancs g q)" for q a
  proof (cases "a \<in> set v")
    case True
    from that(1) have "q \<in> set (p # ps)" by simp
    from 4(5) [THEN bspec, OF this] have "insert a (ancs g a) \<subseteq> set l" by (rule bspec) (use True that(2) in blast)
    then show ?thesis unfolding ih(1) by blast
  next
    case False
    with that(2) ih(2) have "a \<in> insert p (ancs g p)" by blast
    then show ?thesis unfolding ih(1) using ancs_closed by blast
  qed
  then have "\<forall>q\<in>set ps. \<forall>a\<in>set v2 \<inter> insert q (ancs g q). insert a (ancs g a) \<subseteq> set l2" by blast
  moreover have "\<forall>p\<in>set ps. card (ancs g p) < n" "set l2 \<subseteq> set v2" using ih(1,2) 4(4,6) by auto
  ultimately have "set l1 = set l2 \<union> (\<Union>p\<in>set ps. insert p (ancs g p)) \<and> set v1 = set v2 \<union> (\<Union>p\<in>set ps. insert p (ancs g p)) \<and> distinct l1"
    using 4(2) [OF v2 rest] ih(3) 4(8,9) by blast
  then show ?case unfolding ih(1,2) by auto
qed auto

lemma ancestryIDs_lists:
  assumes "acyclic (parent_rel g)" and "parents_known g"
  shows "set (ancestryIDs g i) = insert i (ancs g i) \<and> distinct (ancestryIDs g i)"
proof -
  obtain v1 l1 where "ancestry (length g + 1) g i ([], []) = (v1, l1)" by fastforce
  with ancestry_lists(1) [OF assms this ancs_card [OF assms(2)]] show ?thesis by (auto simp: ancestryIDs_def)
qed

section \<open>The specification\<close>

definition graph_of :: "context_fragment list \<Rightarrow> fragment_graph" where
  "graph_of fs = map (\<lambda>f. (cf_fragment_id f, f)) fs"

definition fragment_complete :: "context_fragment \<Rightarrow> bool" where
  "fragment_complete f \<longleftrightarrow> cf_fragment_id f \<noteq> [] \<and> cf_origin f \<noteq> [] \<and> cf_principal f \<noteq> [] \<and> cf_scope f \<noteq> []
     \<and> trustRank (cf_trust f) \<noteq> None"

definition fragments_complete :: "context_fragment list \<Rightarrow> bool" where
  "fragments_complete fs \<longleftrightarrow> distinct (map cf_fragment_id fs)
     \<and> list_all fragment_complete fs"

lemma index_fragments_char:
  "index_fragments g fs = (if distinct (map cf_fragment_id fs) \<and> set (map cf_fragment_id fs) \<inter> set (map fst g) = {}
     \<and> list_all fragment_complete fs
   then Some (g @ graph_of fs) else None)"
proof (induction g fs rule: index_fragments.induct)
  case (2 g f fs)
  have m: "map_of g (cf_fragment_id f) \<noteq> None \<longleftrightarrow> cf_fragment_id f \<in> set (map fst g)" by (simp add: map_of_eq_None_iff)
  show ?case
  proof (cases "fragment_complete f \<and> map_of g (cf_fragment_id f) = None")
    case True
    then have "index_fragments g (f # fs) = index_fragments (g @ [(cf_fragment_id f, f)]) fs"
      by (auto simp: fragment_complete_def)
    moreover have "index_fragments (g @ [(cf_fragment_id f, f)]) fs = (if distinct (map cf_fragment_id fs)
       \<and> set (map cf_fragment_id fs) \<inter> set (map fst (g @ [(cf_fragment_id f, f)])) = {} \<and> list_all fragment_complete fs
     then Some ((g @ [(cf_fragment_id f, f)]) @ graph_of fs) else None)"
      by (rule 2) (use True in \<open>auto simp: fragment_complete_def\<close>)
    ultimately show ?thesis using True m by (auto simp: graph_of_def)
  next
    case False
    then have "index_fragments g (f # fs) = None" by (auto simp: fragment_complete_def)
    then show ?thesis using False m by auto
  qed
qed (simp add: graph_of_def)

lemma indexFragments_char: "indexFragments fs = (if fragments_complete fs then Some (graph_of fs) else None)"
  by (simp add: indexFragments_def index_fragments_char fragments_complete_def)

lemma graph_at_mem:
  assumes "i \<in> set (map fst g)"
  obtains f where "map_of g i = Some f" and "(i, f) \<in> set g"
  using assms by (cases "map_of g i") (auto simp: map_of_eq_None_iff dest: map_of_SomeD)

lemma fragments_complete_trusts: "fragments_complete fs \<Longrightarrow> trusts_known (graph_of fs)"
  unfolding trusts_known_def
proof
  fix i assume c: "fragments_complete fs" and "i \<in> set (map fst (graph_of fs))"
  from graph_at_mem [OF this(2)] obtain f where f: "map_of (graph_of fs) i = Some f" "(i, f) \<in> set (graph_of fs)" .
  then have "f \<in> set fs" by (auto simp: graph_of_def)
  with c f(1) show "trustRank (trust_at (graph_of fs) i) \<noteq> None"
    by (simp add: fragments_complete_def fragment_complete_def trust_at_def list_all_iff)
qed

lemma fragment_ok_parents:
  assumes "list_all (\<lambda>(i, f). fragment_ok r g f) g"
  shows "parents_known g"
  unfolding parents_known_def
proof (intro allI impI)
  fix i p assume "p \<in> set (derived g i)"
  then obtain f where f: "map_of g i = Some f" "p \<in> set (cf_derived_from f)"
    by (cases "map_of g i") (simp_all add: derived_def)
  have "fragment_ok r g f" using assms map_of_SomeD [OF f(1)] by (auto simp: list_all_iff)
  then have "map_of g p \<noteq> None" using f(2) by (auto simp: fragment_ok_def list_all_iff split: option.splits)
  then show "p \<in> set (map fst g)" by (simp add: map_of_eq_None_iff)
qed

text \<open>What an authoritative instruction must be: complete fragments in an acyclic graph whose edges go back in time, and
  a target all of whose ancestors have the required trust and declare no more than their own ancestors.\<close>

definition authoritative_provenance :: "cx_root \<Rightarrow> string \<Rightarrow> bool" where
  "authoritative_provenance r i \<longleftrightarrow>
     (let g = graph_of (cx_fragments r)
      in fragments_complete (cx_fragments r) \<and> cx_schema_version r = 1 \<and> list_all (fragment_ok r g) (cx_fragments r)
         \<and> acyclic (parent_rel g) \<and> i \<in> set (map cf_fragment_id (cx_fragments r))
         \<and> (\<exists>k. trustRank (cx_required_trust r) = Some k
              \<and> (\<forall>a\<in>insert i (ancs g i). k \<le> rank_of (trust_at g a) \<and> \<not> declares_more g a)))"

lemma graph_of_simps [simp]:
  "map fst (graph_of fs) = map cf_fragment_id fs"
  "list_all (\<lambda>(i, f). P f) (graph_of fs) = list_all P fs"
  by (simp_all add: graph_of_def list_all_iff)

lemma graph_of_None: "map_of (graph_of fs) i = None \<longleftrightarrow> i \<notin> set (map cf_fragment_id fs)"
  unfolding map_of_eq_None_iff set_map [symmetric] by simp

lemma structuralOK_iff:
  "cx_structuralOK r (graph_of fs) \<longleftrightarrow>
     cx_schema_version r = 1 \<and> list_all (fragment_ok r (graph_of fs)) fs \<and> acyclic (parent_rel (graph_of fs))"
  using cyclic_iff [OF fragment_ok_parents, of r "graph_of fs"] by (auto simp: cx_structuralOK_def)

lemma dominates_rank: "trustRank v \<noteq> None \<Longrightarrow> trustRank r = Some k \<Longrightarrow> dominates v r \<longleftrightarrow> k \<le> rank_of v"
  by (auto simp: dominates_def rank_of_def)

lemma verdict_authority:
  "cx_authority (cx_verdict r g ceils i) = ''AUTHORITATIVE''
     \<longleftrightarrow> \<not> ancestryBreach g ceils i \<and> dominates (ceiling_at ceils i) (cx_required_trust r)"
  by (simp add: cx_verdict_def cx_closed_def Let_def)

lemma verdict_authoritative:
  assumes "acyclic (parent_rel g)" and "parents_known g" and "trusts_known g" and "i \<in> set (map fst g)"
    and "trustRank (cx_required_trust r) = Some k"
  shows "cx_authority (cx_verdict r g (ceilings g) i) = ''AUTHORITATIVE''
    \<longleftrightarrow> (\<forall>a\<in>insert i (ancs g i). k \<le> rank_of (trust_at g a) \<and> \<not> declares_more g a)"
proof -
  obtain b v1 where b: "breach (length g + 1) g (ceilings g) i [] = (b, v1)" by fastforce
  have "b \<longleftrightarrow> \<not> no_breach g (ceilings g) i" using breach_iff(1) [OF assms(1,2) b ancs_card [OF assms(2)]] by simp
  then have "ancestryBreach g (ceilings g) i \<longleftrightarrow> (\<exists>a\<in>insert i (ancs g i). declares_more g a)"
    using escalates_iff [OF assms(1-3)] unfolding ancestryBreach_def b no_breach_def by simp
  moreover have "dominates (ceiling_at (ceilings g) i) (cx_required_trust r) \<longleftrightarrow> (\<forall>a\<in>insert i (ancs g i). k \<le> rank_of (trust_at g a))"
    using ceilings_least [OF assms(1-4)] dominates_rank [OF _ assms(5)] by (simp add: least_trust_def)
  ultimately show ?thesis unfolding verdict_authority by blast
qed

lemma closed_not_authoritative: "cx_authority (cx_fill r m (cx_closed s)) \<noteq> ''AUTHORITATIVE''"
  by (simp add: cx_fill_def cx_closed_def)

text \<open>C17: A message is given authority exactly when its provenance warrants it. The roles, origin, principal and trust that
  the message claims for itself play no part: the fragments it was derived from must form a complete graph without
  cycles or forward references in time, and every ancestor of its fragment must have the required trust and must
  not have been declared more trusted than any of its own ancestors.\<close>

theorem authority_iff_provenance:
  "cx_authority (cx_Authorize r m) = ''AUTHORITATIVE'' \<longleftrightarrow> authoritative_provenance r (cm_fragment_id m)"
proof -
  let ?g = "graph_of (cx_fragments r)" and ?i = "cm_fragment_id m"
  consider "\<not> fragments_complete (cx_fragments r) \<or> \<not> cx_structuralOK r ?g"
    | "fragments_complete (cx_fragments r)" "cx_structuralOK r ?g" "trustRank (cx_required_trust r) = None \<or> map_of ?g ?i = None"
    | k where "fragments_complete (cx_fragments r)" "cx_structuralOK r ?g" "trustRank (cx_required_trust r) = Some k" "map_of ?g ?i \<noteq> None"
    by fastforce
  then show ?thesis
  proof cases
    case 1
    then have "\<not> authoritative_provenance r ?i" by (auto simp: authoritative_provenance_def structuralOK_iff Let_def)
    with 1 show ?thesis by (auto simp: cx_Authorize_def indexFragments_char closed_not_authoritative)
  next
    case 2
    then have "\<not> authoritative_provenance r ?i"
      by (auto simp: authoritative_provenance_def Let_def graph_of_None)
    with 2 show ?thesis by (auto simp: cx_Authorize_def indexFragments_char closed_not_authoritative)
  next
    case 3
    then have s: "cx_schema_version r = 1" "list_all (fragment_ok r ?g) (cx_fragments r)" "acyclic (parent_rel ?g)"
      by (simp_all add: structuralOK_iff)
    then have known: "parents_known ?g" using fragment_ok_parents [of r ?g] by simp
    have mem: "?i \<in> set (map fst ?g)" using 3(4) by (simp add: graph_of_None)
    have "cx_authority (cx_Authorize r m) = cx_authority (cx_verdict r ?g (ceilings ?g) ?i)"
      using 3 by (auto simp: cx_Authorize_def indexFragments_char Let_def)
    with verdict_authoritative [OF s(3) known fragments_complete_trusts [OF 3(1)] mem 3(3)] show ?thesis
      using 3(1,3) s mem by (simp add: authoritative_provenance_def Let_def)
  qed
qed

text \<open>The fragments that the evidence draws on are the target and its ancestors, each once; its declared trust is that of the target.\<close>

lemma evidence_path_complete:
  assumes "cx_authority (cx_Authorize r m) = ''AUTHORITATIVE''"
  shows "set (ancestryIDs (graph_of (cx_fragments r)) (cm_fragment_id m))
      = insert (cm_fragment_id m) (ancs (graph_of (cx_fragments r)) (cm_fragment_id m))"
    and "distinct (ancestryIDs (graph_of (cx_fragments r)) (cm_fragment_id m))"
proof -
  let ?g = "graph_of (cx_fragments r)"
  have "cx_structuralOK r ?g"
    using assms by (auto simp: cx_Authorize_def indexFragments_char closed_not_authoritative split: if_splits)
  then have "acyclic (parent_rel ?g)" "parents_known ?g"
    using fragment_ok_parents [of r ?g] by (simp_all add: structuralOK_iff)
  from ancestryIDs_lists [OF this] show "set (ancestryIDs ?g (cm_fragment_id m)) = insert (cm_fragment_id m) (ancs ?g (cm_fragment_id m))"
    and "distinct (ancestryIDs ?g (cm_fragment_id m))" by simp_all
qed

end
