(* ===== verification/Policy_Linter.thy ===== *)
theory Policy_Linter
  imports Policy_Engine "HOL-Library.Multiset"
begin

text \<open>
  The policy linter (\<^verbatim>\<open>src/internal/policy/linter.go\<close>) and the exit code of its command (\<^verbatim>\<open>src/cmd/policy-lint/main.go\<close>): the
  violations of a policy document, their sorting and summary, and what the absence of errors means for the engine.
  The errors of \<^verbatim>\<open>regexp.Compile\<close>, \<^verbatim>\<open>filepath.Match\<close> and \<^verbatim>\<open>time.LoadLocation\<close> are parameters: None, or the text of the error.
\<close>

section \<open>Violations\<close>

definition SeverityError :: string where "SeverityError = ''error''"
definition SeverityWarning :: string where "SeverityWarning = ''warning''"
definition SeverityInfo :: string where "SeverityInfo = ''info''"

lemmas severity_defs = SeverityError_def SeverityWarning_def SeverityInfo_def

record lint_violation =
  lv_path :: string
  lv_type :: string
  lv_severity :: string
  lv_field :: string
  lv_message :: string

record lint_summary =
  ls_errors :: nat
  ls_warnings :: nat
  ls_info :: nat
  ls_total :: nat

record lint_result =
  lr_policy :: string
  lr_file_path :: string
  lr_violations :: "lint_violation list"
  lr_summary :: lint_summary

record lint_env =
  le_regexp :: "string \<Rightarrow> string option"
  le_filepath_match :: "string \<Rightarrow> string option"
  le_location :: "string \<Rightarrow> string option"

text \<open>A violation whose type is its severity, as all but three are.\<close>

definition lint_error :: "string \<Rightarrow> string \<Rightarrow> string \<Rightarrow> lint_violation" where
  "lint_error path fld msg = \<lparr>lv_path = path, lv_type = ''error'', lv_severity = SeverityError, lv_field = fld, lv_message = msg\<rparr>"

definition lint_warning :: "string \<Rightarrow> string \<Rightarrow> string \<Rightarrow> lint_violation" where
  "lint_warning path fld msg = \<lparr>lv_path = path, lv_type = ''warning'', lv_severity = SeverityWarning, lv_field = fld, lv_message = msg\<rparr>"

text \<open>The violations that a conditional append adds, and those of a loop with an index.\<close>

definition lint_when :: "bool \<Rightarrow> lint_violation \<Rightarrow> lint_violation list" where
  "lint_when b v = (if b then [v] else [])"

definition lint_each :: "(nat \<Rightarrow> 'a \<Rightarrow> lint_violation list) \<Rightarrow> 'a list \<Rightarrow> lint_violation list" where
  "lint_each f xs = concat (map (\<lambda>(i, x). f i x) (List.enumerate 0 xs))"

definition indexed :: "string \<Rightarrow> nat \<Rightarrow> string" where
  "indexed p i = p @ ''['' @ itoa (int i) @ '']''"

section \<open>Checks of single values\<close>

definition isValidAction :: "action \<Rightarrow> bool" where
  "isValidAction a \<longleftrightarrow> a = ActionAllow \<or> a = ActionDeny \<or> a = ActionRequireApproval \<or> a = ActionRedactThenAllow"

text \<open>The scan of a glob: the open brackets after it, or the error of an unmatched closing bracket. The first argument
  tells whether the position is the first one.\<close>

fun scan_glob :: "bool \<Rightarrow> int \<Rightarrow> string \<Rightarrow> int option" where
  "scan_glob at_start stack [] = Some stack"
| "scan_glob at_start stack (c # s) =
     (if c = CHR ''['' then
        (case s of
           d # s1 \<Rightarrow> if d = CHR ''!'' then scan_glob False stack s1 else scan_glob False (stack + 1) s
         | [] \<Rightarrow> scan_glob False (stack + 1) s)
      else if c = CHR '']'' then (if stack = 0 \<and> \<not> at_start then None else scan_glob False (stack - 1) s)
      else scan_glob False stack s)"

definition globValidation :: "lint_env \<Rightarrow> string \<Rightarrow> string option" where
  "globValidation L pattern =
     (if pattern = [] then None
      else case scan_glob True 0 pattern of
        None \<Rightarrow> Some (''unmatched '' @ quoted '']'' @ '' in glob pattern'')
      | Some stack \<Rightarrow>
          if 0 < stack then Some (''unclosed '' @ quoted ''[ ... ]'' @ '' in glob pattern'') else le_filepath_match L pattern)"

definition isValidTimeFormat :: "string \<Rightarrow> bool" where
  "isValidTimeFormat t \<longleftrightarrow> parse_hhmm t \<noteq> None"

definition isValidDay :: "string \<Rightarrow> bool" where
  "isValidDay s \<longleftrightarrow> to_lower s \<in> set [''monday'', ''tuesday'', ''wednesday'', ''thursday'', ''friday'', ''saturday'', ''sunday'']"

definition checkRegex :: "lint_env \<Rightarrow> string \<Rightarrow> string \<Rightarrow> string \<Rightarrow> lint_violation list" where
  "checkRegex L path pattern fld =
     (if pattern = [] then []
      else case le_regexp L pattern of
        None \<Rightarrow> []
      | Some err \<Rightarrow> [lint_error path fld (''invalid regex '' @ quoted pattern @ '': '' @ err)])"

text \<open>The path of the violation is the second argument; the code ignores the first.\<close>

definition checkGlob :: "lint_env \<Rightarrow> string \<Rightarrow> string \<Rightarrow> string \<Rightarrow> string \<Rightarrow> lint_violation list" where
  "checkGlob L path fld pattern label =
     (if pattern = [] then []
      else case globValidation L pattern of
        None \<Rightarrow> []
      | Some err \<Rightarrow> [lint_warning fld label (''suspicious glob pattern '' @ quoted pattern @ '': '' @ err)])"

section \<open>Rules\<close>

definition knownRuleTypes :: "string list" where
  "knownRuleTypes =
     [''deny_path'', ''allow_path'', ''deny_command_pattern_composite'', ''deny_command_pattern'', ''allow_command_pattern'',
      ''deny_command_keyword'', ''deny_query_pattern'', ''allow_query_pattern'', ''deny_recipient_domain'', ''allow_recipient_domain'',
      ''allow_recipient'', ''allow_resource_owner'', ''require_path_literal'', ''allow_path_slot'', ''allow_destination'',
      ''allow_working_directory'', ''deny_secret'', ''allow_application'', ''allow_skill'', ''deny_permission_bypass'',
      ''allow_activation'', ''lineage_require'', ''allowed_repos'', ''max_file_size'', ''max_result_rows'', ''max_export_rows'',
      ''require_approval_always'']"

definition rule_globs :: "lint_env \<Rightarrow> string \<Rightarrow> arg_rule \<Rightarrow> lint_violation list" where
  "rule_globs L path rule =
     lint_when (ar_patterns rule = []) (lint_warning path ''patterns'' (''rule type '' @ quoted (ar_type rule) @ '' has no patterns''))
     @ lint_each (\<lambda>i pat. checkGlob L path (indexed (path @ ''.patterns'') i) pat ''path pattern'') (ar_patterns rule)"

definition rule_regexes :: "lint_env \<Rightarrow> string \<Rightarrow> arg_rule \<Rightarrow> lint_violation list" where
  "rule_regexes L path rule =
     lint_when (ar_patterns rule = []) (lint_warning path ''patterns'' (''rule type '' @ quoted (ar_type rule) @ '' has no patterns''))
     @ lint_each (\<lambda>i pat. checkRegex L (indexed (path @ ''.patterns'') i) pat ''pattern'') (ar_patterns rule)"

text \<open>The rule types that only need some pattern.\<close>

definition pattern_rule_types :: "string list" where
  "pattern_rule_types = [''allow_recipient'', ''allow_resource_owner'', ''allow_path_slot'', ''allow_destination'',
     ''allow_working_directory'', ''allow_application'', ''allow_skill'']"

definition rule_fields :: "string \<Rightarrow> arg_rule \<Rightarrow> lint_violation list" where
  "rule_fields path rule =
     (let t = ar_type rule
      in lint_when (t = ''deny_command_keyword'' \<and> ar_keywords rule = [])
           (lint_warning path ''keywords'' (quoted ''deny_command_keyword'' @ '' rule has no keywords''))
         @ lint_when ((t = ''deny_recipient_domain'' \<or> t = ''allow_recipient_domain'') \<and> ar_domains rule = [])
           (lint_warning path ''domains'' (''rule type '' @ quoted t @ '' has no domains''))
         @ lint_when (t \<in> set pattern_rule_types \<and> ar_patterns rule = [])
           (lint_warning path ''patterns'' (''rule type '' @ quoted t @ '' has no patterns''))
         @ lint_when (t = ''allow_activation'' \<and> ar_patterns rule = [] \<and> ar_domains rule = [])
           (lint_warning path ''patterns'' (''rule type '' @ quoted ''allow_activation'' @ '' has no patterns or domains''))
         @ lint_when (t = ''allowed_repos'' \<and> ar_repos rule = [])
           (lint_warning path ''repos'' (quoted ''allowed_repos'' @ '' rule has no repos''))
         @ lint_when (t = ''max_file_size'' \<and> ar_bytes rule \<le> 0)
           (lint_error path ''bytes'' (quoted ''max_file_size'' @ '' rule requires bytes > 0''))
         @ lint_when ((t = ''max_result_rows'' \<or> t = ''max_export_rows'') \<and> ar_rows rule \<le> 0)
           (lint_error path ''rows'' (quoted t @ '' rule requires rows > 0'')))"

definition lint_checkRule :: "lint_env \<Rightarrow> string \<Rightarrow> arg_rule \<Rightarrow> lint_violation list" where
  "lint_checkRule L path rule =
     (let t = ar_type rule
      in if t = [] then [lint_error path ''type'' ''rule type is empty'']
         else lint_when (t \<notin> set knownRuleTypes) (lint_warning path ''type'' (''unknown rule type '' @ quoted t @ '' (will never match)''))
           @ (if t = ''deny_path'' \<or> t = ''allow_path'' then rule_globs L path rule else [])
           @ (if t = ''deny_command_pattern'' \<or> t = ''allow_command_pattern'' \<or> t = ''deny_query_pattern'' \<or> t = ''allow_query_pattern''
              then rule_regexes L path rule else [])
           @ rule_fields path rule)"

section \<open>Sections of the document\<close>

definition lint_tool :: "lint_env \<Rightarrow> string \<Rightarrow> nat \<Rightarrow> tool_rule \<Rightarrow> lint_violation list" where
  "lint_tool L path j tool =
     lint_when (tool_name tool = []) (lint_error (indexed (path @ ''.tools'') j) ''name'' ''tool name is empty'')
     @ lint_each (\<lambda>k rule. lint_checkRule L (indexed (path @ ''.tools['' @ go_quote (tool_name tool) @ ''].rules'') k) rule) (tool_rules tool)"

definition lint_server :: "lint_env \<Rightarrow> nat \<Rightarrow> server \<Rightarrow> lint_violation list" where
  "lint_server L i srv =
     (let path = indexed ''servers'' i
      in (if srv_name srv = []
          then \<lparr>lv_path = path, lv_type = ''info'', lv_severity = SeverityError, lv_field = ''name'', lv_message = ''server name is empty''\<rparr>
          else \<lparr>lv_path = path, lv_type = ''server'', lv_severity = SeverityInfo, lv_field = ''name'',
                lv_message = ''server '' @ quoted (srv_name srv)\<rparr>)
         # lint_each (lint_tool L path) (srv_tools srv))"

definition lint_chain_match :: "lint_env \<Rightarrow> string \<Rightarrow> nat \<Rightarrow> chain_match \<Rightarrow> lint_violation list" where
  "lint_chain_match L path si m = checkRegex L (indexed path si @ ''.tool_pattern'') (cm_tool_pattern m) ''tool_pattern''"

definition lint_chain :: "lint_env \<Rightarrow> nat \<Rightarrow> chain_rule \<Rightarrow> lint_violation list" where
  "lint_chain L i chain =
     (let path = indexed ''tool_chains'' i
      in (if chain_name chain = [] then lint_error path ''name'' ''chain rule name is empty''
          else \<lparr>lv_path = path, lv_type = ''chain'', lv_severity = SeverityInfo, lv_field = ''name'',
                lv_message = ''chain '' @ quoted (chain_name chain)\<rparr>)
         # lint_when (chain_action chain \<noteq> [] \<and> \<not> isValidAction (chain_action chain))
             (lint_error (path @ ''.action'') ''action''
               (''invalid action '' @ quoted (chain_action chain) @ '' (must be allow/deny/require_approval)''))
         @ lint_each (lint_chain_match L (path @ ''.sources'')) (chain_sources chain)
         @ lint_each (lint_chain_match L (path @ ''.sinks'')) (chain_sinks chain))"

text \<open>The named servers and their named tools; a server that occurs again replaces the tools of the earlier one.\<close>

definition knownServers :: "policy \<Rightarrow> string list" where
  "knownServers p = map srv_name (filter (\<lambda>s. srv_name s \<noteq> []) (pol_servers p))"

definition knownTools :: "policy \<Rightarrow> string \<Rightarrow> string list option" where
  "knownTools p name =
     (if name = [] then None
      else map_option (\<lambda>s. filter (\<lambda>t. t \<noteq> []) (map tool_name (srv_tools s))) (find (\<lambda>s. srv_name s = name) (rev (pol_servers p))))"

definition lint_identity_tool :: "policy \<Rightarrow> identity \<Rightarrow> string \<Rightarrow> nat \<Rightarrow> string \<Rightarrow> lint_violation list" where
  "lint_identity_tool p idn path ti toolFQ =
     (let tp = indexed (path @ ''.allowed_tools'') ti
      in case split_once CHR ''/'' toolFQ of
           None \<Rightarrow> [lint_error tp ''allowed_tools'' (''identity tool must be '' @ quoted ''server/tool'' @ '' format, got: '' @ toolFQ)]
         | Some (srvName, toolName) \<Rightarrow>
             if srvName \<notin> set (knownServers p)
             then [lint_warning tp ''allowed_tools'' (''identity '' @ quoted (id_name idn) @ '' references unknown server '' @ quoted srvName
                     @ '' in tool '' @ quoted toolName)]
             else case knownTools p srvName of
                    None \<Rightarrow> []
                  | Some tools \<Rightarrow>
                      lint_when (toolName \<notin> set tools)
                        (lint_warning tp ''allowed_tools'' (''identity '' @ quoted (id_name idn) @ '' references unknown tool '' @ quoted toolName
                           @ '' on server '' @ quoted srvName)))"

definition lint_identity :: "policy \<Rightarrow> nat \<Rightarrow> identity \<Rightarrow> lint_violation list" where
  "lint_identity p i idn =
     (let path = indexed ''identities'' i
      in if id_name idn = [] then [lint_error path ''name'' ''identity name is empty'']
         else lint_when (id_name idn \<in> set (map id_name (take i (pol_identities p))))
                (lint_error path ''name'' (''duplicate identity name: '' @ id_name idn))
           @ concat (map (\<lambda>s. lint_when (s \<noteq> [] \<and> s \<notin> set (knownServers p))
                (lint_warning (path @ ''.allowed_servers'') ''allowed_servers''
                  (''identity '' @ quoted (id_name idn) @ '' references unknown server: '' @ s))) (id_allowed_servers idn))
           @ lint_each (lint_identity_tool p idn path) (id_allowed_tools idn))"

definition lint_days :: "string \<Rightarrow> string \<Rightarrow> string list \<Rightarrow> lint_violation list" where
  "lint_days path fld days = lint_each (\<lambda>di day. lint_when (\<not> isValidDay day)
     (lint_error (indexed path di) fld (''invalid day '' @ quoted day @ '' (expected monday-sunday)''))) days"

definition lint_window :: "lint_env \<Rightarrow> string \<Rightarrow> nat \<Rightarrow> time_window \<Rightarrow> lint_violation list" where
  "lint_window L path wi win =
     (let wp = indexed (path @ ''.allowed_hours'') wi
      in lint_when (\<not> isValidTimeFormat (tw_start win))
           (lint_error (wp @ ''.start'') ''start'' (''invalid time format '' @ quoted (tw_start win) @ '' (expected HH:MM)''))
         @ lint_when (\<not> isValidTimeFormat (tw_end win))
           (lint_error (wp @ ''.end'') ''end'' (''invalid time format '' @ quoted (tw_end win) @ '' (expected HH:MM)''))
         @ (if tw_timezone win = [] then []
            else case le_location L (tw_timezone win) of
                   None \<Rightarrow> []
                 | Some err \<Rightarrow> [lint_error (wp @ ''.timezone'') ''timezone''
                                  (''invalid IANA timezone '' @ quoted (tw_timezone win) @ '': '' @ err)])
         @ lint_days (wp @ ''.days'') ''days'' (tw_days win))"

definition lint_time :: "lint_env \<Rightarrow> nat \<Rightarrow> time_restriction \<Rightarrow> lint_violation list" where
  "lint_time L i tr =
     (let path = indexed ''time_restrictions'' i
      in lint_when (tres_name tr = []) (lint_error path ''name'' ''time_restriction name is empty'')
         @ lint_each (\<lambda>ti tool. checkGlob L path (indexed ''tools'' ti) tool ''tools glob'') (tres_tools tr)
         @ lint_each (lint_window L path) (tres_allowed_hours tr)
         @ lint_days (path @ ''.denied_days'') ''denied_days'' (tres_denied_days tr)
         @ lint_when (tres_outside_action tr \<noteq> [] \<and> \<not> isValidAction (tres_outside_action tr))
             (lint_error (path @ ''.outside_action'') ''outside_action'' (''invalid outside_action '' @ quoted (tres_outside_action tr))))"

definition lint_redaction :: "lint_env \<Rightarrow> redaction_config \<Rightarrow> lint_violation list" where
  "lint_redaction L r =
     lint_each (\<lambda>i pat. checkRegex L (indexed ''redaction.patterns'' i) (rp_regex pat) ''regex'') (rc_patterns r)
     @ lint_each (\<lambda>i pat. checkRegex L (indexed ''redaction.output_patterns'' i) (rp_regex pat) ''regex'') (rc_output_patterns r)
     @ lint_each (\<lambda>i f. checkGlob L ''redaction'' (indexed ''sensitive_files'' i) f ''sensitive_files glob'') (rc_sensitive_files r)"

definition lint_setting :: "int \<Rightarrow> int \<Rightarrow> string \<Rightarrow> string \<Rightarrow> lint_violation list" where
  "lint_setting v least fld rest = lint_when (v < least) (lint_error (''settings.'' @ fld) fld (fld @ '' must be '' @ rest))"

definition lint_settings :: "settings \<Rightarrow> lint_violation list" where
  "lint_settings s =
     lint_setting (set_max_argument_size_bytes s) 0 ''max_argument_size_bytes'' ''non-negative''
     @ lint_setting (set_max_output_size_bytes s) 0 ''max_output_size_bytes'' ''non-negative''
     @ lint_setting (set_session_max_tools s) 0 ''session_max_tools'' ''non-negative''
     @ lint_setting (set_max_spawn_depth s) 0 ''max_spawn_depth'' ''non-negative''
     @ lint_setting (set_approval_timeout_secs s) 0 ''approval_timeout_seconds'' ''non-negative''
     @ lint_setting (set_chain_window_size s) 1 ''chain_window_size'' ''at least 1''"

section \<open>Sorting and summary\<close>

definition severity_rank :: "string \<Rightarrow> nat" where
  "severity_rank s = (if s = SeverityWarning then 1 else if s = SeverityInfo then 2 else 0)"

text \<open>The inner loop compares every later violation with the one at the head and exchanges the two when the later one is
  more severe; the outer loop goes on behind the head.\<close>

fun exchange_pass :: "lint_violation \<Rightarrow> lint_violation list \<Rightarrow> lint_violation \<times> lint_violation list" where
  "exchange_pass x [] = (x, [])"
| "exchange_pass x (y # ys) =
     (if severity_rank (lv_severity y) < severity_rank (lv_severity x)
      then (let (z, zs) = exchange_pass y ys in (z, x # zs))
      else (let (z, zs) = exchange_pass x ys in (z, y # zs)))"

lemma exchange_pass_length: "exchange_pass x ys = (z, zs) \<Longrightarrow> length zs = length ys"
  by (induction x ys arbitrary: z zs rule: exchange_pass.induct) (auto split: prod.splits if_splits)

function sortViolations :: "lint_violation list \<Rightarrow> lint_violation list" where
  "sortViolations [] = []"
| "sortViolations (x # xs) = (let (y, ys) = exchange_pass x xs in y # sortViolations ys)"
  by pat_completeness auto

termination sortViolations
  by (relation "measure length") (auto dest!: exchange_pass_length [OF sym])

definition severity_count :: "string \<Rightarrow> lint_violation list \<Rightarrow> nat" where
  "severity_count s vs = length (filter (\<lambda>v. lv_severity v = s) vs)"

definition lint_summarize :: "lint_violation list \<Rightarrow> lint_summary" where
  "lint_summarize vs = \<lparr>ls_errors = severity_count SeverityError vs, ls_warnings = severity_count SeverityWarning vs,
     ls_info = severity_count SeverityInfo vs, ls_total = length vs\<rparr>"

definition lint_violations :: "lint_env \<Rightarrow> policy \<Rightarrow> lint_violation list" where
  "lint_violations L p =
     lint_each (lint_server L) (pol_servers p) @ lint_each (lint_chain L) (pol_tool_chains p)
     @ lint_each (lint_identity p) (pol_identities p) @ lint_each (lint_time L) (pol_time_restrictions p)
     @ lint_redaction L (pol_redaction p) @ lint_settings (pol_settings p)"

definition Lint :: "lint_env \<Rightarrow> policy \<Rightarrow> lint_result" where
  "Lint L p =
     (let vs = sortViolations (lint_violations L p)
      in \<lparr>lr_policy = pol_description p, lr_file_path = pol_version p, lr_violations = vs, lr_summary = lint_summarize vs\<rparr>)"

section \<open>The command\<close>

text \<open>The flags of the command, what they hide and the exit code. With \<^verbatim>\<open>-no-warnings\<close> the warnings are not counted either.\<close>

definition hide_info :: "lint_result \<Rightarrow> lint_result" where
  "hide_info r = (let vs = filter (\<lambda>v. lv_severity v \<noteq> SeverityInfo) (lr_violations r)
     in r\<lparr>lr_violations := vs, lr_summary := (lr_summary r)\<lparr>ls_info := 0, ls_total := length vs\<rparr>\<rparr>)"

definition hide_warnings :: "lint_result \<Rightarrow> lint_result" where
  "hide_warnings r = (let vs = filter (\<lambda>v. lv_severity v \<noteq> SeverityWarning \<and> lv_severity v \<noteq> SeverityInfo) (lr_violations r)
     in r\<lparr>lr_violations := vs, lr_summary := (lr_summary r)\<lparr>ls_warnings := 0, ls_info := 0, ls_total := length vs\<rparr>\<rparr>)"

definition runLint :: "lint_env \<Rightarrow> bool \<Rightarrow> bool \<Rightarrow> bool \<Rightarrow> string \<Rightarrow> policy \<Rightarrow> lint_result \<times> nat" where
  "runLint L noInfo noWarn strict path p =
     (let r0 = (Lint L p)\<lparr>lr_file_path := path\<rparr>;
          r1 = (if noInfo then hide_info r0 else r0);
          r2 = (if noWarn then hide_warnings r1 else r1);
          s = lr_summary r2
      in (r2, if 0 < ls_errors s then 1 else if strict \<and> (0 < ls_warnings s \<or> 0 < ls_errors s) then 1 else 0))"

section \<open>The text report\<close>

definition lint_newline :: string where "lint_newline = [CHR 0x0A]"

definition violation_text :: "lint_violation \<Rightarrow> string" where
  "violation_text v =
     (if lv_severity v = SeverityError then ''[ERROR] '' else if lv_severity v = SeverityWarning then ''[WARN]  '' else ''[INFO]  '')
     @ lv_message v @ lint_newline @ ''        path='' @ lv_path v @ ''  field='' @ lv_field v @ lint_newline"

definition ToText :: "lint_result \<Rightarrow> string" where
  "ToText r =
     (let s = lr_summary r
      in (if lr_policy r \<noteq> [] then ''Policy: '' @ lr_policy r @ lint_newline else [])
         @ (if lr_file_path r \<noteq> [] then ''File: '' @ lr_file_path r @ lint_newline else [])
         @ (if ls_total s = 0 then ''No issues found.'' @ lint_newline
            else (if 0 < ls_errors s
                  then ''ERRORS: '' @ nat_to_string (ls_errors s) @ ''  WARNINGS: '' @ nat_to_string (ls_warnings s)
                         @ ''  INFO: '' @ nat_to_string (ls_info s) @ lint_newline @ lint_newline
                  else ''Warnings: '' @ nat_to_string (ls_warnings s) @ ''  Info: '' @ nat_to_string (ls_info s) @ lint_newline @ lint_newline)
                 @ concat (map violation_text (lr_violations r))))"

section \<open>Sorting is sorting\<close>

lemma exchange_pass_least:
  "exchange_pass x ys = (z, zs) \<Longrightarrow> mset (z # zs) = mset (x # ys)
     \<and> (\<forall>v\<in>set (x # ys). severity_rank (lv_severity z) \<le> severity_rank (lv_severity v))"
proof (induction x ys arbitrary: z zs rule: exchange_pass.induct)
  case (2 x y ys)
  let ?less = "severity_rank (lv_severity y) < severity_rank (lv_severity x)"
  obtain w ws where w: "exchange_pass (if ?less then y else x) ys = (w, ws)" by fastforce
  then have eq: "z = w" "zs = (if ?less then x else y) # ws" using "2.prems" by (auto split: if_splits)
  show ?case
  proof (cases ?less)
    case True
    with w 2(1) [of w ws] eq show ?thesis by fastforce
  next
    case False
    with w 2(2) [of w ws] eq show ?thesis by fastforce
  qed
qed simp

lemma sortViolations_mset: "mset (sortViolations vs) = mset vs"
proof (induction vs rule: sortViolations.induct)
  case (2 x xs)
  obtain y ys where y: "exchange_pass x xs = (y, ys)" by fastforce
  with 2 [OF y [symmetric] refl] exchange_pass_least [OF y] show ?case by simp
qed simp

lemma sortViolations_sorted: "sorted (map (\<lambda>v. severity_rank (lv_severity v)) (sortViolations vs))"
proof (induction vs rule: sortViolations.induct)
  case (2 x xs)
  obtain y ys where y: "exchange_pass x xs = (y, ys)" by fastforce
  have "set (sortViolations ys) = set ys" using sortViolations_mset [of ys] by (metis set_mset_mset)
  moreover have "set ys \<subseteq> set (x # xs)" using exchange_pass_least [OF y] by (metis mset_eq_setD set_subset_Cons)
  ultimately have "\<forall>v\<in>set (sortViolations ys). severity_rank (lv_severity y) \<le> severity_rank (lv_severity v)"
    using exchange_pass_least [OF y] by blast
  with 2 [OF y [symmetric] refl] y show ?case by simp
qed simp

section \<open>Error-free documents\<close>

definition error_free :: "lint_violation list \<Rightarrow> bool" where
  "error_free vs = list_all (\<lambda>v. lv_severity v \<noteq> SeverityError) vs"

lemma error_free_simps [simp]:
  "error_free []" "error_free (v # vs) \<longleftrightarrow> lv_severity v \<noteq> SeverityError \<and> error_free vs"
  "error_free (xs @ ys) \<longleftrightarrow> error_free xs \<and> error_free ys"
  "lv_severity (lint_error a b c) = SeverityError" "lv_severity (lint_warning a b c) = SeverityWarning"
  "SeverityWarning \<noteq> SeverityError" "SeverityInfo \<noteq> SeverityError" "SeverityInfo \<noteq> SeverityWarning"
  by (simp_all add: error_free_def lint_error_def lint_warning_def severity_defs)

lemma error_free_when [simp]:
  "error_free (lint_when b v) \<longleftrightarrow> (b \<longrightarrow> lv_severity v \<noteq> SeverityError)"
  by (simp add: lint_when_def)

lemma error_free_concat: "error_free (concat (map f xs)) \<longleftrightarrow> (\<forall>x\<in>set xs. error_free (f x))"
  by (auto simp: error_free_def list_all_iff)

lemma error_free_each: "error_free (lint_each f xs) \<longleftrightarrow> (\<forall>i<length xs. error_free (f i (xs ! i)))"
proof -
  have "(i, x) \<in> set (List.enumerate 0 xs) \<longleftrightarrow> i < length xs \<and> x = xs ! i" for i x
    by (auto simp: in_set_enumerate_eq)
  then show ?thesis unfolding lint_each_def error_free_concat Ball_def split_paired_All by auto
qed

lemma error_free_each_all: "(\<And>i x. error_free (f i x)) \<Longrightarrow> error_free (lint_each f xs)"
  by (simp add: error_free_each)

lemma error_free_each_const: "(\<And>i x. error_free (f i x) \<longleftrightarrow> P x) \<Longrightarrow> error_free (lint_each f xs) \<longleftrightarrow> list_all P xs"
  by (simp add: error_free_each list_all_length)

lemma error_free_checkGlob [simp]: "error_free (checkGlob L path fld pattern label)"
  by (simp add: checkGlob_def split: option.split)

definition regex_ok :: "lint_env \<Rightarrow> string \<Rightarrow> bool" where
  "regex_ok L pattern \<longleftrightarrow> pattern = [] \<or> le_regexp L pattern = None"

lemma error_free_checkRegex [simp]: "error_free (checkRegex L path pattern fld) \<longleftrightarrow> regex_ok L pattern"
  by (auto simp: checkRegex_def regex_ok_def split: option.split)

definition rule_lints :: "lint_env \<Rightarrow> arg_rule \<Rightarrow> bool" where
  "rule_lints L r \<longleftrightarrow> ar_type r \<noteq> []
     \<and> (ar_type r \<in> set [''deny_command_pattern'', ''allow_command_pattern'', ''deny_query_pattern'', ''allow_query_pattern'']
          \<longrightarrow> list_all (regex_ok L) (ar_patterns r))
     \<and> (ar_type r = ''max_file_size'' \<longrightarrow> 0 < ar_bytes r)
     \<and> (ar_type r = ''max_result_rows'' \<or> ar_type r = ''max_export_rows'' \<longrightarrow> 0 < ar_rows r)"

lemma error_free_globs: "error_free (rule_globs L path r)"
  by (simp add: rule_globs_def error_free_each)

lemma error_free_regexes: "error_free (rule_regexes L path r) \<longleftrightarrow> list_all (regex_ok L) (ar_patterns r)"
  by (simp add: rule_regexes_def error_free_each list_all_length)

lemma error_free_fields: "error_free (rule_fields path r) \<longleftrightarrow> (ar_type r = ''max_file_size'' \<longrightarrow> 0 < ar_bytes r)
     \<and> (ar_type r = ''max_result_rows'' \<or> ar_type r = ''max_export_rows'' \<longrightarrow> 0 < ar_rows r)"
  unfolding rule_fields_def Let_def error_free_simps(3) error_free_when error_free_simps(4,5) not_le [symmetric] by auto

lemma error_free_checkRule: "error_free (lint_checkRule L path r) \<longleftrightarrow> rule_lints L r"
proof (cases "ar_type r = []")
  case False
  then show ?thesis
    unfolding lint_checkRule_def rule_lints_def Let_def by (auto simp: error_free_globs error_free_regexes error_free_fields)
qed (simp add: lint_checkRule_def rule_lints_def)

definition tool_lints :: "lint_env \<Rightarrow> tool_rule \<Rightarrow> bool" where
  "tool_lints L t \<longleftrightarrow> tool_name t \<noteq> [] \<and> list_all (rule_lints L) (tool_rules t)"

definition server_lints :: "lint_env \<Rightarrow> server \<Rightarrow> bool" where
  "server_lints L s \<longleftrightarrow> srv_name s \<noteq> [] \<and> list_all (tool_lints L) (srv_tools s)"

definition action_lints :: "action \<Rightarrow> bool" where
  "action_lints a \<longleftrightarrow> a = [] \<or> isValidAction a"

definition chain_lints :: "lint_env \<Rightarrow> chain_rule \<Rightarrow> bool" where
  "chain_lints L c \<longleftrightarrow> chain_name c \<noteq> [] \<and> action_lints (chain_action c)
     \<and> list_all (\<lambda>m. regex_ok L (cm_tool_pattern m)) (chain_sources c @ chain_sinks c)"

definition identities_lint :: "identity list \<Rightarrow> bool" where
  "identities_lint ids \<longleftrightarrow> distinct (map id_name ids)
     \<and> list_all (\<lambda>i. id_name i \<noteq> [] \<and> list_all (\<lambda>t. split_once CHR ''/'' t \<noteq> None) (id_allowed_tools i)) ids"

definition window_lints :: "lint_env \<Rightarrow> time_window \<Rightarrow> bool" where
  "window_lints L w \<longleftrightarrow> isValidTimeFormat (tw_start w) \<and> isValidTimeFormat (tw_end w)
     \<and> (tw_timezone w = [] \<or> le_location L (tw_timezone w) = None) \<and> list_all isValidDay (tw_days w)"

definition time_lints :: "lint_env \<Rightarrow> time_restriction \<Rightarrow> bool" where
  "time_lints L t \<longleftrightarrow> tres_name t \<noteq> [] \<and> list_all (window_lints L) (tres_allowed_hours t)
     \<and> list_all isValidDay (tres_denied_days t) \<and> action_lints (tres_outside_action t)"

definition settings_lint :: "settings \<Rightarrow> bool" where
  "settings_lint s \<longleftrightarrow> 0 \<le> set_max_argument_size_bytes s \<and> 0 \<le> set_max_output_size_bytes s \<and> 0 \<le> set_session_max_tools s
     \<and> 0 \<le> set_max_spawn_depth s \<and> 0 \<le> set_approval_timeout_secs s \<and> 1 \<le> set_chain_window_size s"

definition policy_lints :: "lint_env \<Rightarrow> policy \<Rightarrow> bool" where
  "policy_lints L p \<longleftrightarrow> list_all (server_lints L) (pol_servers p) \<and> list_all (chain_lints L) (pol_tool_chains p)
     \<and> identities_lint (pol_identities p) \<and> list_all (time_lints L) (pol_time_restrictions p)
     \<and> list_all (\<lambda>r. regex_ok L (rp_regex r)) (rc_patterns (pol_redaction p) @ rc_output_patterns (pol_redaction p))
     \<and> settings_lint (pol_settings p)"

lemma error_free_tool: "error_free (lint_tool L path j t) \<longleftrightarrow> tool_lints L t"
  unfolding lint_tool_def tool_lints_def
  by (simp add: error_free_each_const [where P = "rule_lints L"] error_free_checkRule)

lemma error_free_server: "error_free (lint_server L i s) \<longleftrightarrow> server_lints L s"
  unfolding lint_server_def server_lints_def Let_def
  by (simp add: error_free_each_const [where P = "tool_lints L"] error_free_tool)

lemma error_free_chain: "error_free (lint_chain L i c) \<longleftrightarrow> chain_lints L c"
  unfolding lint_chain_def chain_lints_def action_lints_def Let_def
  by (auto simp: error_free_each_const [where P = "\<lambda>m. regex_ok L (cm_tool_pattern m)"] lint_chain_match_def)

lemma error_free_identity_tool: "error_free (lint_identity_tool p idn path ti t) \<longleftrightarrow> split_once CHR ''/'' t \<noteq> None"
  by (simp add: lint_identity_tool_def Let_def split: option.split)

lemma error_free_identity:
  "error_free (lint_identity p i idn) \<longleftrightarrow> id_name idn \<noteq> [] \<and> id_name idn \<notin> set (map id_name (take i (pol_identities p)))
     \<and> list_all (\<lambda>t. split_once CHR ''/'' t \<noteq> None) (id_allowed_tools idn)"
  unfolding lint_identity_def Let_def
  by (simp add: error_free_concat error_free_each_const [where P = "\<lambda>t. split_once CHR ''/'' t \<noteq> None"] error_free_identity_tool)

lemma distinct_by_prefix: "distinct xs \<longleftrightarrow> (\<forall>i<length xs. xs ! i \<notin> set (take i xs))"
proof (induction xs rule: rev_induct)
  case (snoc x xs)
  then show ?case by (auto simp: nth_append less_Suc_eq)
qed simp

lemma error_free_identities: "error_free (lint_each (lint_identity p) (pol_identities p)) \<longleftrightarrow> identities_lint (pol_identities p)"
  using distinct_by_prefix [of "map id_name (pol_identities p)"]
  by (auto simp: error_free_each error_free_identity identities_lint_def list_all_length take_map)

lemma error_free_days: "error_free (lint_days path fld days) \<longleftrightarrow> list_all isValidDay days"
  unfolding lint_days_def by (rule error_free_each_const) simp

lemma error_free_window: "error_free (lint_window L path wi w) \<longleftrightarrow> window_lints L w"
  unfolding lint_window_def window_lints_def Let_def by (auto simp: error_free_days split: option.split)

lemma error_free_time: "error_free (lint_time L i t) \<longleftrightarrow> time_lints L t"
  unfolding lint_time_def time_lints_def action_lints_def Let_def
  by (auto simp: error_free_each_const [where P = "window_lints L"] error_free_each_all
      error_free_window error_free_days)

lemma error_free_settings: "error_free (lint_settings s) \<longleftrightarrow> settings_lint s"
  by (simp add: lint_settings_def settings_lint_def lint_setting_def not_less)

lemma error_free_policy: "error_free (lint_violations L p) \<longleftrightarrow> policy_lints L p"
  unfolding lint_violations_def policy_lints_def lint_redaction_def
  by (simp add: error_free_each_const [where P = "server_lints L"] error_free_server error_free_each_const [where P = "chain_lints L"]
      error_free_chain error_free_identities error_free_each_const [where P = "time_lints L"] error_free_time
      error_free_each_const [where P = "\<lambda>r. regex_ok L (rp_regex r)"] error_free_each_all error_free_settings)

section \<open>The exit code\<close>

lemma severity_count_zero: "severity_count s vs = 0 \<longleftrightarrow> list_all (\<lambda>v. lv_severity v \<noteq> s) vs"
  by (auto simp: severity_count_def filter_empty_conv list_all_iff)

lemma list_all_mset_eq: "mset xs = mset ys \<Longrightarrow> list_all P xs \<longleftrightarrow> list_all P ys"
  by (metis list_all_iff mset_eq_setD)

lemma Lint_errors: "ls_errors (lr_summary (Lint L p)) = 0 \<longleftrightarrow> policy_lints L p"
  using list_all_mset_eq [OF sortViolations_mset, of "\<lambda>v. lv_severity v \<noteq> SeverityError" "lint_violations L p"]
  by (simp add: Lint_def Let_def lint_summarize_def severity_count_zero error_free_policy [symmetric] error_free_def)

definition warning_free :: "lint_env \<Rightarrow> policy \<Rightarrow> bool" where
  "warning_free L p = list_all (\<lambda>v. lv_severity v \<noteq> SeverityWarning) (lint_violations L p)"

lemma Lint_warnings: "ls_warnings (lr_summary (Lint L p)) = 0 \<longleftrightarrow> warning_free L p"
  using list_all_mset_eq [OF sortViolations_mset, of "\<lambda>v. lv_severity v \<noteq> SeverityWarning" "lint_violations L p"]
  by (simp add: Lint_def Let_def lint_summarize_def severity_count_zero warning_free_def)

lemma exit_summary:
  "ls_errors (lr_summary (hide_info r)) = ls_errors (lr_summary r)" "ls_warnings (lr_summary (hide_info r)) = ls_warnings (lr_summary r)"
  "ls_errors (lr_summary (hide_warnings r)) = ls_errors (lr_summary r)" "ls_warnings (lr_summary (hide_warnings r)) = 0"
  by (simp_all add: hide_info_def hide_warnings_def Let_def)


section \<open>The linter and the engine\<close>

text \<open>A rule type that the linter calls unknown never matches, as its message says.\<close>

lemma unknown_type_never_matches:
  assumes "ar_type r \<notin> set knownRuleTypes \<or> ar_type r = ''deny_command_pattern_composite''"
  shows "evaluateRule E r args tool = rule_passed"
proof (cases "ar_type r = ''deny_command_pattern_composite''")
  case True
  then show ?thesis by (simp add: evaluateRule_def)
next
  case False
  with assms have "ar_type r \<notin> set knownRuleTypes" by blast
  then show ?thesis by (simp add: evaluateRule_def knownRuleTypes_def)
qed

text \<open>A window of an error-free document is open or closed by the clock alone, never because its hours cannot be read.\<close>

lemma linted_window_readable:
  assumes "window_lints L w"
  obtains sh sm eh em where "parse_hhmm (tw_start w) = Some (sh, sm)" and "parse_hhmm (tw_end w) = Some (eh, em)"
  using assms by (auto simp: window_lints_def isValidTimeFormat_def)

text \<open>C40: A rule of the composite type passes the linter without any remark, although the engine has no such rule: it
  allows every call whatever its patterns say.\<close>

theorem composite_rule_silent:
  "lint_checkRule L path (r\<lparr>ar_type := ''deny_command_pattern_composite''\<rparr>) = []
   \<and> evaluateRule E (r\<lparr>ar_type := ''deny_command_pattern_composite''\<rparr>) args tool = rule_passed"
proof
  show "lint_checkRule L path (r\<lparr>ar_type := ''deny_command_pattern_composite''\<rparr>) = []"
    by (simp add: lint_checkRule_def rule_fields_def pattern_rule_types_def knownRuleTypes_def lint_when_def)
  show "evaluateRule E (r\<lparr>ar_type := ''deny_command_pattern_composite''\<rparr>) args tool = rule_passed"
    by (rule unknown_type_never_matches) simp
qed

text \<open>Every negated character class is reported as an unmatched bracket.\<close>

lemma negated_class_suspicious:
  assumes "CHR ''['' \<notin> set s" and "CHR '']'' \<notin> set s"
  shows "globValidation L (''[!'' @ s @ '']'' @ rest) = Some (''unmatched '' @ quoted '']'' @ '' in glob pattern'')"
proof -
  have "scan_glob False 0 (s @ CHR '']'' # rest) = None" using assms by (induction s) auto
  then show ?thesis by (simp add: globValidation_def)
qed

end
